(* ===== verification/Prelude.thy ===== *)
theory Prelude
  imports Main
    "HOL-Library.Char_ord"
    "HOL-Library.List_Lexorder"
    "HOL-Library.Monad_Syntax"
begin

text \<open>
  What every component shares: the type names of identifiers and timestamps, the saturating
  and wrapping integer conversions of Rust's \<^verbatim>\<open>i64\<close>, decimal printing and parsing (attempt ids
  are minted as \<^verbatim>\<open>a{n}\<close> and ordered by the parsed number), association lists standing for the
  hash maps of the store, and the error-and-state programs in which the scheduler is written.
  Generic lemmas carry their attributes here, so the component theories use them through the
  simplifier.

  Strings are lists of bytes; \<open>Char_ord\<close> and \<open>List_Lexorder\<close> give them the byte-lexicographic
  order of Rust's \<^verbatim>\<open>str\<close>.
\<close>

named_theorems prog_simps \<open>unfolding of error-and-state programs\<close>
named_theorems step_inv_intros \<open>preservation of the store invariants\<close>

section \<open>Identifiers and integers\<close>

type_synonym run_id = string
type_synonym step_id = string
type_synonym attempt_id = string
type_synonym timestamp = int

definition i64_max :: int where
  "i64_max = 9223372036854775807"

definition i64_min :: int where
  "i64_min = - 9223372036854775808"

definition saturate_i64 :: "int \<Rightarrow> int" where
  "saturate_i64 x = max i64_min (min i64_max x)"

definition saturating_add :: "int \<Rightarrow> int \<Rightarrow> int" where
  "saturating_add a b = saturate_i64 (a + b)"

definition saturating_mul :: "int \<Rightarrow> int \<Rightarrow> int" where
  "saturating_mul a b = saturate_i64 (a * b)"

definition u64_bound :: nat where
  "u64_bound = 18446744073709551616"

definition u64_as_i64 :: "nat \<Rightarrow> int" where
  "u64_as_i64 n = (if int n \<le> i64_max then int n else int n - 18446744073709551616)"

lemma saturate_i64_range [simp]: "i64_min \<le> saturate_i64 x" "saturate_i64 x \<le> i64_max"
  by (auto simp: saturate_i64_def i64_min_def i64_max_def)

lemma saturate_i64_id [simp]: "i64_min \<le> x \<Longrightarrow> x \<le> i64_max \<Longrightarrow> saturate_i64 x = x"
  by (simp add: saturate_i64_def)

lemma saturate_i64_mono: "x \<le> y \<Longrightarrow> saturate_i64 x \<le> saturate_i64 y"
  by (auto simp: saturate_i64_def)

section \<open>Decimal printing and parsing\<close>

definition digit_char :: "nat \<Rightarrow> char" where
  "digit_char d = char_of (48 + d)"

definition digit_val :: "char \<Rightarrow> nat option" where
  "digit_val c = (let n = of_char c in if 48 \<le> n \<and> n \<le> 57 then Some (n - 48) else None)"

fun nat_str :: "nat \<Rightarrow> string" where
  "nat_str n = (if n < 10 then [digit_char n] else nat_str (n div 10) @ [digit_char (n mod 10)])"

declare nat_str.simps [simp del]

fun digits_val :: "nat \<Rightarrow> string \<Rightarrow> nat option" where
  "digits_val acc [] = Some acc"
| "digits_val acc (c # cs) =
     (case digit_val c of None \<Rightarrow> None | Some d \<Rightarrow> digits_val (acc * 10 + d) cs)"

text \<open>Rust's \<^verbatim>\<open>str::parse::<u64>\<close>: an optional leading plus sign, at least one digit, no overflow.\<close>

definition parse_u64 :: "string \<Rightarrow> nat option" where
  "parse_u64 s =
     (let ds = (case s of c # cs \<Rightarrow> if c = CHR ''+'' then cs else s | [] \<Rightarrow> [])
      in if ds = [] then None
         else case digits_val 0 ds of
                None \<Rightarrow> None
              | Some n \<Rightarrow> if n < u64_bound then Some n else None)"

lemma digit_val_char [simp]: "d < 10 \<Longrightarrow> digit_val (digit_char d) = Some d"
  by (simp add: digit_val_def digit_char_def of_char_of)

lemma digit_char_not_plus: "d < 10 \<Longrightarrow> digit_char d \<noteq> CHR ''+''"
proof
  assume "d < 10" and "digit_char d = CHR ''+''"
  then have "digit_val (CHR ''+'') = Some d"
    using digit_val_char [of d] by simp
  then show False by (simp add: digit_val_def)
qed

lemma digits_val_append:
  "digits_val acc (xs @ ys) =
     (case digits_val acc xs of None \<Rightarrow> None | Some a \<Rightarrow> digits_val a ys)"
  by (induction xs arbitrary: acc) (auto split: option.splits)

lemma nat_str_nonempty [simp]: "nat_str n \<noteq> []"
  by (subst nat_str.simps) simp

lemma digits_val_nat_str: "digits_val 0 (nat_str n) = Some n"
proof (induction n rule: nat_str.induct)
  case (1 n)
  show ?case
  proof (cases "n < 10")
    case True
    then show ?thesis by (subst nat_str.simps) simp
  next
    case False
    with "1" have "digits_val 0 (nat_str (n div 10)) = Some (n div 10)" by simp
    with False show ?thesis
      by (subst nat_str.simps) (simp add: digits_val_append)
  qed
qed

lemma hd_nat_str: "hd (nat_str n) \<noteq> CHR ''+''"
proof (induction n rule: nat_str.induct)
  case (1 n)
  show ?case
  proof (cases "n < 10")
    case True
    then show ?thesis by (subst nat_str.simps) (simp add: digit_char_not_plus)
  next
    case False
    with "1" show ?thesis by (subst nat_str.simps) (simp add: hd_append)
  qed
qed

lemma parse_u64_nat_str [simp]:
  "parse_u64 (nat_str n) = (if n < u64_bound then Some n else None)"
proof -
  obtain c cs where s: "nat_str n = c # cs"
    by (cases "nat_str n") auto
  have c: "c \<noteq> CHR ''+''" using hd_nat_str [of n] s by simp
  have d: "digits_val 0 (c # cs) = Some n" using digits_val_nat_str [of n] s by simp
  show ?thesis
    unfolding parse_u64_def s using c d by (simp del: digits_val.simps)
qed

lemma nat_str_inject [simp]: "nat_str m = nat_str n \<longleftrightarrow> m = n"
  by (metis digits_val_nat_str option.inject)

section \<open>Text\<close>

fun join_with :: "string \<Rightarrow> string list \<Rightarrow> string" where
  "join_with sep [] = []"
| "join_with sep [x] = x"
| "join_with sep (x # y # xs) = x @ sep @ join_with sep (y # xs)"

abbreviation quoted :: "string \<Rightarrow> string" where
  "quoted s \<equiv> ''`'' @ s @ ''`''"

section \<open>Association lists for hash maps\<close>

text \<open>
  A hash map that some operation iterates over is an association list with distinct keys:
  \<open>al_get\<close> is lookup, \<open>al_put\<close> is insert-or-replace, \<open>al_del\<close> is remove.
\<close>

abbreviation al_get :: "('k \<times> 'v) list \<Rightarrow> 'k \<Rightarrow> 'v option" where
  "al_get \<equiv> map_of"

fun al_put :: "'k \<Rightarrow> 'v \<Rightarrow> ('k \<times> 'v) list \<Rightarrow> ('k \<times> 'v) list" where
  "al_put k v [] = [(k, v)]"
| "al_put k v ((k', v') # m) = (if k = k' then (k, v) # m else (k', v') # al_put k v m)"

definition al_del :: "'k \<Rightarrow> ('k \<times> 'v) list \<Rightarrow> ('k \<times> 'v) list" where
  "al_del k m = filter (\<lambda>p. fst p \<noteq> k) m"

definition al_wf :: "('k \<times> 'v) list \<Rightarrow> bool" where
  "al_wf m \<longleftrightarrow> distinct (map fst m)"

lemma al_get_put [simp]: "al_get (al_put k v m) k' = (if k' = k then Some v else al_get m k')"
  by (induction m) auto

lemma al_get_del [simp]: "al_get (al_del k m) k' = (if k' = k then None else al_get m k')"
  by (induction m) (auto simp: al_del_def)

lemma al_put_keys [simp]: "fst ` set (al_put k v m) = insert k (fst ` set m)"
  by (induction k v m rule: al_put.induct) (simp_all add: insert_commute)

lemma al_put_wf [simp, intro]: "al_wf m \<Longrightarrow> al_wf (al_put k v m)"
proof (induction m)
  case (Cons p m)
  then show ?case by (cases p) (auto simp: al_wf_def simp del: al_get_put)
qed (simp add: al_wf_def)

lemma al_del_wf [simp, intro]: "al_wf m \<Longrightarrow> al_wf (al_del k m)"
  by (auto simp: al_wf_def al_del_def distinct_map intro: inj_on_subset)

lemma al_get_mem: "al_wf m \<Longrightarrow> al_get m k = Some v \<longleftrightarrow> (k, v) \<in> set m"
  by (auto simp: al_wf_def)

section \<open>Programs with errors and state\<close>

text \<open>
  A scheduler operation reads and writes the store through its port and may stop at the
  first error; the writes made before the error stay. \<open>('s, 'e, 'a) prog\<close> is that shape:
  it returns the result (or the error) and the store it leaves behind.
\<close>

type_synonym ('s, 'e, 'a) prog = "'s \<Rightarrow> ('e + 'a) \<times> 's"

definition returnP :: "'a \<Rightarrow> ('s, 'e, 'a) prog" where
  "returnP a s = (Inr a, s)"

definition throwP :: "'e \<Rightarrow> ('s, 'e, 'a) prog" where
  "throwP e s = (Inl e, s)"

definition bindP :: "('s, 'e, 'a) prog \<Rightarrow> ('a \<Rightarrow> ('s, 'e, 'b) prog) \<Rightarrow> ('s, 'e, 'b) prog" where
  "bindP m f s = (case m s of (Inl e, s') \<Rightarrow> (Inl e, s') | (Inr a, s') \<Rightarrow> f a s')"

definition readP :: "('s \<Rightarrow> 'a) \<Rightarrow> ('s, 'e, 'a) prog" where
  "readP f s = (Inr (f s), s)"

text \<open>An atomic write of the store: all of it, or an error and nothing.\<close>

definition commitP :: "('s \<Rightarrow> 'e + 's) \<Rightarrow> ('s, 'e, unit) prog" where
  "commitP f s = (case f s of Inl e \<Rightarrow> (Inl e, s) | Inr s' \<Rightarrow> (Inr (), s'))"

definition mapErrP :: "('e \<Rightarrow> 'f) \<Rightarrow> ('s, 'e, 'a) prog \<Rightarrow> ('s, 'f, 'a) prog" where
  "mapErrP h m s = (case m s of (Inl e, s') \<Rightarrow> (Inl (h e), s') | (Inr a, s') \<Rightarrow> (Inr a, s'))"

fun forP :: "'x list \<Rightarrow> ('x \<Rightarrow> ('s, 'e, unit) prog) \<Rightarrow> ('s, 'e, unit) prog" where
  "forP [] f s = (Inr (), s)"
| "forP (x # xs) f s = (case f x s of (Inl e, s') \<Rightarrow> (Inl e, s') | (Inr _, s') \<Rightarrow> forP xs f s')"

lemmas prog_defs [prog_simps] =
  returnP_def throwP_def bindP_def readP_def commitP_def mapErrP_def

lemma forP_append:
  "forP (xs @ ys) f s =
     (case forP xs f s of (Inl e, s') \<Rightarrow> (Inl e, s') | (Inr _, s') \<Rightarrow> forP ys f s')"
  by (induction xs arbitrary: s) (auto split: sum.splits prod.splits)

text \<open>A property every iteration keeps holds of the store the loop leaves, error or not.\<close>

lemma forP_invariant:
  assumes "P s" and "\<And>x t. x \<in> set xs \<Longrightarrow> P t \<Longrightarrow> P (snd (f x t))"
  shows "P (snd (forP xs f s))"
  using assms
proof (induction xs arbitrary: s)
  case (Cons x xs)
  have "P (snd (f x s))" using Cons.prems by simp
  then show ?case using Cons.IH Cons.prems(2)
    by (cases "f x s") (auto split: sum.splits)
qed simp

lemma forP_no_error:
  assumes "\<And>x t. x \<in> set xs \<Longrightarrow> fst (f x t) = Inr ()"
  shows "fst (forP xs f s) = Inr ()"
  using assms
proof (induction xs arbitrary: s)
  case (Cons x xs)
  have "fst (f x s) = Inr ()" using Cons.prems by simp
  with Cons show ?case by (cases "f x s") auto
qed simp

section \<open>Lists\<close>

definition last_opt :: "'a list \<Rightarrow> 'a option" where
  "last_opt xs = (if xs = [] then None else Some (last xs))"

lemma last_opt_simps [simp]:
  "last_opt [] = None" "last_opt (xs @ [x]) = Some x"
  "last_opt xs = None \<longleftrightarrow> xs = []"
  by (auto simp: last_opt_def)

lemma last_opt_Some: "last_opt xs = Some x \<longleftrightarrow> (\<exists>ys. xs = ys @ [x])"
  by (auto simp: last_opt_def) (metis append_butlast_last_id)

lemma find_Some_mem: "List.find P xs = Some x \<Longrightarrow> x \<in> set xs \<and> P x"
  by (auto simp: find_Some_iff)

lemma prefix_append_trans:
  "(\<exists>es. b = a @ es) \<Longrightarrow> (\<exists>es. c = b @ es) \<Longrightarrow> \<exists>es. c = a @ es"
  by auto

lemma sort_key_id: "sorted (map f xs) \<Longrightarrow> sort_key f xs = xs"
  by (induction xs) (auto simp: insort_is_Cons)

end
