(* ===== verification/Engine_Types.thy ===== *)
theory Engine_Types
  imports Prelude
begin

text \<open>
  The data of \<^verbatim>\<open>crates/scarab-engine/src/lib.rs\<close>: statuses, attempts, steps, runs, gate
  resolutions, the event log's payloads, the transactional outbox and the error enums. Field
  names carry a short prefix of their struct, constructors a short prefix of their enum where
  two enums share a name (a run and a step are both \<^verbatim>\<open>Pending\<close>).

  A \<^verbatim>\<open>serde_json::Value\<close> is the datatype \<open>json\<close>; the payload of an outbox message is the datatype
  \<open>payload\<close> of the shapes the engine writes, with \<open>PayloadOther\<close> for a value that decodes to none of
  them.
\<close>

section \<open>JSON values\<close>

datatype json =
    JNull
  | JBool bool
  | JInt int
  | JFloat string
  | JStr string
  | JArr "json list"
  | JObj "(string \<times> json) list"

fun json_get :: "string \<Rightarrow> json \<Rightarrow> json option" where
  "json_get k (JObj kvs) = map_of kvs k"
| "json_get k _ = None"

fun json_as_array :: "json \<Rightarrow> json list option" where
  "json_as_array (JArr xs) = Some xs"
| "json_as_array _ = None"

fun json_as_str :: "json \<Rightarrow> string option" where
  "json_as_str (JStr s) = Some s"
| "json_as_str _ = None"

fun json_as_bool :: "json \<Rightarrow> bool option" where
  "json_as_bool (JBool b) = Some b"
| "json_as_bool _ = None"

fun json_as_u64 :: "json \<Rightarrow> nat option" where
  "json_as_u64 (JInt n) = (if 0 \<le> n \<and> n < int u64_bound then Some (nat n) else None)"
| "json_as_u64 _ = None"

fun json_as_i64 :: "json \<Rightarrow> int option" where
  "json_as_i64 (JInt n) = (if i64_min \<le> n \<and> n \<le> i64_max then Some n else None)"
| "json_as_i64 _ = None"

section \<open>Statuses\<close>

datatype run_status =
  RPending | RRunning | RSuspended | RSucceeded | RFailed | RCancelled | RDeadLettered

datatype step_status =
  SPending | SReady | SRunning | SSucceeded | SFailed | SSkipped | SCancelled

datatype concurrency_policy = Queue | CancelInProgress

definition concurrency_policy_as_str :: "concurrency_policy \<Rightarrow> string" where
  "concurrency_policy_as_str p =
     (case p of Queue \<Rightarrow> ''queue'' | CancelInProgress \<Rightarrow> ''cancel-in-progress'')"

definition concurrency_policy_from_wire :: "string \<Rightarrow> concurrency_policy" where
  "concurrency_policy_from_wire s =
     (if s = ''cancel-in-progress'' then CancelInProgress else Queue)"

datatype failure_kind =
    FInfra (never_started: bool)
  | FStep | FTimeout | FLost | FConfig | FMissingInputs | FGate

section \<open>Attempts, steps and runs\<close>

datatype attempt_outcome = AORunning | AOSucceeded | AOFailed | AOSuperseded | AOCancelled

definition attempt_outcome_as_str :: "attempt_outcome \<Rightarrow> string" where
  "attempt_outcome_as_str o' =
     (case o' of AORunning \<Rightarrow> ''running'' | AOSucceeded \<Rightarrow> ''succeeded'' | AOFailed \<Rightarrow> ''failed''
      | AOSuperseded \<Rightarrow> ''superseded'' | AOCancelled \<Rightarrow> ''cancelled'')"

definition attempt_outcome_from_str :: "string \<Rightarrow> attempt_outcome option" where
  "attempt_outcome_from_str s =
     (if s = ''running'' then Some AORunning
      else if s = ''succeeded'' then Some AOSucceeded
      else if s = ''failed'' then Some AOFailed
      else if s = ''superseded'' then Some AOSuperseded
      else if s = ''cancelled'' then Some AOCancelled
      else None)"

record attempt =
  at_id :: attempt_id
  at_started_at :: timestamp
  at_failure :: "failure_kind option"
  at_failure_detail :: "string option"
  at_outcome :: attempt_outcome

record run =
  rn_id :: run_id
  rn_status :: run_status
  rn_created_at :: timestamp

record step_run =
  sr_run :: run_id
  sr_step :: step_id
  sr_status :: step_status
  sr_attempts :: "attempt list"
  sr_needs :: "step_id list"
  sr_gate_kind :: "string option"

datatype attempt_stamp =
    StampOutcome attempt_outcome
  | StampFailure failure_kind "string option"

datatype attempt_frontier =
    FrontierAny
  | FrontierIs "attempt_id option"

section \<open>Gate resolutions\<close>

record gate_resolution =
  gr_passed :: bool
  gr_reason :: string
  gr_expired :: bool
  gr_by :: "string option"
  gr_fence :: "attempt_id option"
  gr_legacy_started_at :: timestamp
  gr_at :: timestamp
  gr_outputs :: "(string \<times> json) list option"

record pending_gate_wait =
  pw_run :: run_id
  pw_step :: step_id
  pw_attempt :: attempt_id
  pw_started_at :: timestamp
  pw_inputs :: json

definition pending_gate_key :: "pending_gate_wait \<Rightarrow> run_id \<times> step_id \<times> attempt_id" where
  "pending_gate_key w = (pw_run w, pw_step w, pw_attempt w)"

section \<open>Shared services\<close>

datatype service_status = SvStarting | SvReady | SvRunning | SvTornDown | SvFailed

record run_service =
  sv_run :: run_id
  sv_take :: int
  sv_name :: string
  sv_status :: service_status
  sv_handle :: "string option"
  sv_created_at :: timestamp

definition service_status_as_str :: "service_status \<Rightarrow> string" where
  "service_status_as_str s =
     (case s of SvStarting \<Rightarrow> ''starting'' | SvReady \<Rightarrow> ''ready'' | SvRunning \<Rightarrow> ''running''
      | SvTornDown \<Rightarrow> ''torn-down'' | SvFailed \<Rightarrow> ''failed'')"

definition service_status_from_str :: "string \<Rightarrow> service_status option" where
  "service_status_from_str s =
     (if s = ''starting'' then Some SvStarting
      else if s = ''ready'' then Some SvReady
      else if s = ''running'' then Some SvRunning
      else if s = ''torn-down'' then Some SvTornDown
      else if s = ''failed'' then Some SvFailed
      else None)"

definition service_status_is_terminal :: "service_status \<Rightarrow> bool" where
  "service_status_is_terminal s \<longleftrightarrow> s \<in> {SvTornDown, SvFailed}"

section \<open>The event log\<close>

record workspace_collision =
  wc_path :: string
  wc_winner :: step_id
  wc_loser :: step_id

datatype event_payload =
    RunCreated
  | RunTransitioned run_status run_status
  | StepTransitioned step_id step_status step_status
  | AttemptStarted step_id attempt_id
  | AttemptFinished step_id attempt_id "failure_kind option" "string option"
  | GateApproved step_id string
  | GateReleased step_id
  | EnvironmentApprovalMet step_id "string list" "nat option" int
  | StepSkipped step_id string
  | RunDeadLettered string
  | RunCreationFailed string
  | RunCancelRequested "string option"
  | GateExpired step_id
  | GateResolved step_id attempt_id bool "string option" "nat option" "string option"
  | RunRerunRequested step_id "step_id list" "string option" "step_id list"
  | StepRetryRequested step_id "step_id list" "string option" "step_id list"
  | AttemptReadopted step_id attempt_id
  | AttemptSuperseded step_id attempt_id "string option"
  | RunBudgetExhausted int int
  | StepServicesUnready step_id string
  | RunSnapshotsPinned "string option"
  | RunSnapshotsUnpinned "string option"
  | WorkspaceInputCollisions step_id attempt_id nat "workspace_collision list"
  | StepInfraCondition step_id attempt_id string "string option" "int option" "nat option"
  | RawEvent json

definition EVENT_VERSION :: nat where
  "EVENT_VERSION = 1"

record event_kind =
  ev_version :: nat
  ev_run :: run_id
  ev_kind :: event_payload
  ev_at :: timestamp

definition event :: "run_id \<Rightarrow> event_payload \<Rightarrow> timestamp \<Rightarrow> event_kind" where
  "event run kind at = \<lparr>ev_version = EVENT_VERSION, ev_run = run, ev_kind = kind, ev_at = at\<rparr>"

lemma event_sel [simp]:
  "ev_run (event r k t) = r" "ev_kind (event r k t) = k" "ev_at (event r k t) = t"
  by (simp_all add: event_def)

section \<open>The transactional outbox\<close>

record teardown_attempt =
  td_step :: step_id
  td_attempt :: attempt_id

datatype payload =
    PayloadNull
  | LaunchIntent run_id step_id attempt_id
  | AttemptTeardown "teardown_attempt list"
  | StatusPost run_status nat
  | ServicesTeardown int
  | PayloadOther json

record outbox_message =
  om_id :: int
  om_run :: run_id
  om_kind :: string
  om_payload :: payload
  om_idempotency_key :: string
  om_at :: timestamp

section \<open>Errors\<close>

datatype db_error = Unavailable | Conflict | NotLeader | FenceTimeout | OtherDb string

datatype exec_error = Launch string | Refused string | ExecUnavailable | OtherExec string

datatype transition_error =
    IllegalRun run_status run_status
  | IllegalStep step_status step_status
  | RunTerminal run_status
  | StepTerminal step_status
  | NoAttempt

section \<open>Wire tokens\<close>

lemma concurrency_policy_roundtrip:
  "concurrency_policy_from_wire (concurrency_policy_as_str p) = p"
  by (cases p) (simp_all add: concurrency_policy_from_wire_def concurrency_policy_as_str_def)

lemma attempt_outcome_from_str_iff:
  "attempt_outcome_from_str s = Some w \<longleftrightarrow> s = attempt_outcome_as_str w"
  by (cases w) (auto simp: attempt_outcome_from_str_def attempt_outcome_as_str_def)

lemma service_status_from_str_iff:
  "service_status_from_str s = Some w \<longleftrightarrow> s = service_status_as_str w"
  by (cases w) (auto simp: service_status_from_str_def service_status_as_str_def)

section \<open>The events of a gate resolution\<close>

definition attempt_detail :: "gate_resolution \<Rightarrow> string option" where
  "attempt_detail res =
     (if gr_passed res then None
      else Some (case gr_by res of
             Some by \<Rightarrow> ''rejected by '' @ by @ '': '' @ gr_reason res
           | None \<Rightarrow> gr_reason res))"

definition gate_resolution_events ::
  "step_id \<Rightarrow> attempt_id \<Rightarrow> bool \<Rightarrow> gate_resolution \<Rightarrow> event_payload list" where
  "gate_resolution_events step att minted res =
     (let failure = (if gr_passed res then None else Some FGate) in
      (if minted then [AttemptStarted step att] else [])
      @ [AttemptFinished step att failure (attempt_detail res)]
      @ (if gr_passed res then [GateReleased step]
         else if gr_expired res then [GateExpired step] else [])
      @ [StepTransitioned step SPending (if gr_passed res then SSucceeded else SFailed)]
      @ [GateResolved step att (gr_passed res) (Some (gr_reason res)) None (gr_by res)])"

end
