(* ===== verification/State_Machine.thy ===== *)
theory State_Machine
  imports Engine_Types
begin

text \<open>
  The pure state machine of \<^verbatim>\<open>crates/scarab-engine/src/lib.rs\<close> (\<^verbatim>\<open>impl RunStatus\<close>, \<^verbatim>\<open>impl Run\<close>,
  \<^verbatim>\<open>impl StepStatus\<close>, \<^verbatim>\<open>impl StepRun\<close>). A method that mutates its receiver returns the new aggregate
  with the events to append; a refused transition is an error value and leaves the receiver as
  it was.

  The lemmas show that terminal states are sinks, that the journal a sequence of accepted
  operations writes replays to the aggregate's status, and that a step makes only boundedly
  many accepted moves, so a step that keeps failing before it starts ends \<open>SFailed\<close>.
\<close>

section \<open>Runs\<close>

definition run_is_terminal :: "run_status \<Rightarrow> bool" where
  "run_is_terminal s \<longleftrightarrow> s \<in> {RSucceeded, RFailed, RCancelled, RDeadLettered}"

fun can_transition_to :: "run_status \<Rightarrow> run_status \<Rightarrow> bool" where
  "can_transition_to RPending RRunning = True"
| "can_transition_to RPending RCancelled = True"
| "can_transition_to RRunning RSuspended = True"
| "can_transition_to RRunning RSucceeded = True"
| "can_transition_to RRunning RFailed = True"
| "can_transition_to RRunning RCancelled = True"
| "can_transition_to RRunning RDeadLettered = True"
| "can_transition_to RSuspended RRunning = True"
| "can_transition_to RSuspended RCancelled = True"
| "can_transition_to _ _ = False"

definition run_new :: "run_id \<Rightarrow> timestamp \<Rightarrow> run \<times> event_kind" where
  "run_new rid created_at =
     (\<lparr>rn_id = rid, rn_status = RPending, rn_created_at = created_at\<rparr>,
      event rid RunCreated created_at)"

definition run_transition ::
  "run \<Rightarrow> run_status \<Rightarrow> timestamp \<Rightarrow> transition_error + (run \<times> event_kind)" where
  "run_transition r to at =
     (let from = rn_status r in
      if run_is_terminal from then Inl (RunTerminal from)
      else if \<not> can_transition_to from to then Inl (IllegalRun from to)
      else Inr (r\<lparr>rn_status := to\<rparr>, event (rn_id r) (RunTransitioned from to) at))"

section \<open>Steps\<close>

definition step_is_terminal :: "step_status \<Rightarrow> bool" where
  "step_is_terminal s \<longleftrightarrow> s \<in> {SSucceeded, SFailed, SSkipped, SCancelled}"

lemma run_is_terminal_simps [simp]:
  "\<not> run_is_terminal RPending" "\<not> run_is_terminal RRunning" "\<not> run_is_terminal RSuspended"
  "run_is_terminal RSucceeded" "run_is_terminal RFailed" "run_is_terminal RCancelled"
  "run_is_terminal RDeadLettered"
  by (simp_all add: run_is_terminal_def)

lemma step_is_terminal_simps [simp]:
  "\<not> step_is_terminal SPending" "\<not> step_is_terminal SReady" "\<not> step_is_terminal SRunning"
  "step_is_terminal SSucceeded" "step_is_terminal SFailed" "step_is_terminal SSkipped"
  "step_is_terminal SCancelled"
  by (simp_all add: step_is_terminal_def)

definition step_new :: "run_id \<Rightarrow> step_id \<Rightarrow> step_run" where
  "step_new run step =
     \<lparr>sr_run = run, sr_step = step, sr_status = SPending, sr_attempts = [], sr_needs = [],
      sr_gate_kind = None\<rparr>"

definition is_gate :: "step_run \<Rightarrow> bool" where
  "is_gate s \<longleftrightarrow> sr_gate_kind s \<noteq> None"

definition step_transition ::
  "step_run \<Rightarrow> step_status \<Rightarrow> step_status \<Rightarrow> timestamp \<Rightarrow> event_kind" where
  "step_transition s from to at = event (sr_run s) (StepTransitioned (sr_step s) from to) at"

definition mark_ready ::
  "step_run \<Rightarrow> timestamp \<Rightarrow> transition_error + (step_run \<times> event_kind list)" where
  "mark_ready s at =
     (let from = sr_status s in
      if from \<noteq> SPending then Inl (IllegalStep from SReady)
      else Inr (s\<lparr>sr_status := SReady\<rparr>, [step_transition s from SReady at]))"

definition start_attempt ::
  "step_run \<Rightarrow> attempt_id \<Rightarrow> timestamp \<Rightarrow> transition_error + (step_run \<times> event_kind list)" where
  "start_attempt s att at =
     (let from = sr_status s in
      if from = SPending \<or> from = SReady then
        Inr (s\<lparr>sr_status := SRunning,
               sr_attempts := sr_attempts s @ [\<lparr>at_id = att, at_started_at = at, at_failure = None,
                 at_failure_detail = None, at_outcome = AORunning\<rparr>]\<rparr>,
             [step_transition s from SRunning at,
              event (sr_run s) (AttemptStarted (sr_step s) att) at])
      else if step_is_terminal from then Inl (StepTerminal from)
      else Inl (IllegalStep from SRunning))"

text \<open>\<^verbatim>\<open>self.attempts.len() as u32\<close>: the cast truncates.\<close>

definition len_u32 :: "'a list \<Rightarrow> nat" where
  "len_u32 xs = length xs mod 4294967296"

definition finish_target :: "step_run \<Rightarrow> failure_kind option \<Rightarrow> nat \<Rightarrow> step_status" where
  "finish_target s failure max_attempts =
     (case failure of
        None \<Rightarrow> SSucceeded
      | Some (FInfra True) \<Rightarrow>
          (if len_u32 (sr_attempts s) < max_attempts then SReady else SFailed)
      | Some _ \<Rightarrow> SFailed)"

definition finish_attempt ::
  "step_run \<Rightarrow> failure_kind option \<Rightarrow> nat \<Rightarrow> timestamp
     \<Rightarrow> transition_error + (step_run \<times> event_kind list)" where
  "finish_attempt s failure max_attempts at =
     (if sr_status s \<noteq> SRunning then Inl (IllegalStep (sr_status s) SSucceeded)
      else case last_opt (sr_attempts s) of
        None \<Rightarrow> Inl NoAttempt
      | Some a \<Rightarrow>
          (let to = finish_target s failure max_attempts in
           Inr (s\<lparr>sr_attempts := butlast (sr_attempts s) @ [a\<lparr>at_failure := failure\<rparr>],
                  sr_status := to\<rparr>,
                [event (sr_run s) (AttemptFinished (sr_step s) (at_id a) failure None) at,
                 step_transition s SRunning to at])))"

definition step_cancel ::
  "step_run \<Rightarrow> timestamp \<Rightarrow> transition_error + (step_run \<times> event_kind list)" where
  "step_cancel s at =
     (let from = sr_status s in
      if step_is_terminal from then Inl (StepTerminal from)
      else Inr (s\<lparr>sr_status := SCancelled\<rparr>, [step_transition s from SCancelled at]))"

definition attempt_count :: "step_run \<Rightarrow> nat" where
  "attempt_count s = length (sr_attempts s)"

definition current_attempt :: "step_run \<Rightarrow> attempt option" where
  "current_attempt s = last_opt (sr_attempts s)"

section \<open>Histories of accepted operations\<close>

datatype step_op =
    OpMarkReady timestamp
  | OpStart attempt_id timestamp
  | OpFinish "failure_kind option" timestamp
  | OpCancel timestamp

fun step_apply :: "nat \<Rightarrow> step_run \<Rightarrow> step_op \<Rightarrow> transition_error + (step_run \<times> event_kind list)" where
  "step_apply m s (OpMarkReady t) = mark_ready s t"
| "step_apply m s (OpStart a t) = start_attempt s a t"
| "step_apply m s (OpFinish f t) = finish_attempt s f m t"
| "step_apply m s (OpCancel t) = step_cancel s t"

text \<open>A history: every operation is accepted, and the events accumulate in the journal.\<close>

fun step_history ::
  "nat \<Rightarrow> step_run \<Rightarrow> step_op list \<Rightarrow> transition_error + (step_run \<times> event_kind list)" where
  "step_history m s [] = Inr (s, [])"
| "step_history m s (op # ops) =
     (case step_apply m s op of
        Inl e \<Rightarrow> Inl e
      | Inr (s', evs) \<Rightarrow>
          (case step_history m s' ops of Inl e \<Rightarrow> Inl e | Inr (s'', evs') \<Rightarrow> Inr (s'', evs @ evs')))"

fun run_history ::
  "run \<Rightarrow> (run_status \<times> timestamp) list \<Rightarrow> transition_error + (run \<times> event_kind list)" where
  "run_history r [] = Inr (r, [])"
| "run_history r ((to, t) # ops) =
     (case run_transition r to t of
        Inl e \<Rightarrow> Inl e
      | Inr (r', ev) \<Rightarrow>
          (case run_history r' ops of Inl e \<Rightarrow> Inl e | Inr (r'', evs) \<Rightarrow> Inr (r'', ev # evs)))"

text \<open>
  The reader's side of the journal: a replay follows the transitions of one step (of the run)
  and fails where one does not start in the status the replay has reached.
\<close>

fun replay_step :: "step_id \<Rightarrow> step_status \<Rightarrow> event_payload list \<Rightarrow> step_status option" where
  "replay_step x s [] = Some s"
| "replay_step x s (StepTransitioned y from to # es) =
     (if y \<noteq> x then replay_step x s es
      else if from = s then replay_step x to es else None)"
| "replay_step x s (_ # es) = replay_step x s es"

fun replay_run :: "run_status \<Rightarrow> event_payload list \<Rightarrow> run_status option" where
  "replay_run s [] = Some s"
| "replay_run s (RunTransitioned from to # es) = (if from = s then replay_run to es else None)"
| "replay_run s (_ # es) = replay_run s es"

lemmas step_op_defs =
  mark_ready_def start_attempt_def finish_attempt_def step_cancel_def step_transition_def Let_def

lemma replay_step_append:
  "replay_step x s (es @ fs) =
     (case replay_step x s es of None \<Rightarrow> None | Some s' \<Rightarrow> replay_step x s' fs)"
  by (induction x s es rule: replay_step.induct) auto

lemma step_apply_replay:
  assumes "step_apply m s op = Inr (s', evs)"
  shows "replay_step (sr_step s) (sr_status s) (map ev_kind evs) = Some (sr_status s')"
    and "sr_step s' = sr_step s"
  using assms by (cases op; auto simp: step_op_defs split: if_splits option.splits)+

lemma step_history_replay:
  assumes "step_history m s ops = Inr (s', evs)"
  shows "replay_step (sr_step s) (sr_status s) (map ev_kind evs) = Some (sr_status s')"
  using assms
proof (induction ops arbitrary: s evs)
  case (Cons op ops)
  then obtain s1 e1 e2 where a: "step_apply m s op = Inr (s1, e1)"
    and h: "step_history m s1 ops = Inr (s', e2)" and evs: "evs = e1 @ e2"
    by (auto split: sum.splits)
  from Cons.IH [OF h] step_apply_replay [OF a] evs show ?case
    by (simp add: replay_step_append)
qed simp

lemma run_history_replay:
  assumes "run_history r ops = Inr (r', evs)"
  shows "replay_run (rn_status r) (map ev_kind evs) = Some (rn_status r')"
  using assms
proof (induction ops arbitrary: r evs)
  case (Cons op ops)
  obtain to t where op: "op = (to, t)" by (cases op)
  from Cons.prems op obtain r1 e1 e2 where a: "run_transition r to t = Inr (r1, e1)"
    and h: "run_history r1 ops = Inr (r', e2)" and evs: "evs = e1 # e2"
    by (auto split: sum.splits)
  from a have "ev_kind e1 = RunTransitioned (rn_status r) to" and "rn_status r1 = to"
    by (auto simp: run_transition_def Let_def split: if_splits)
  with Cons.IH [OF h] evs show ?case by simp
qed simp

lemma run_history_edges:
  assumes "run_history r ops = Inr (r', evs)"
  shows "\<forall>from to. RunTransitioned from to \<in> set (map ev_kind evs)
           \<longrightarrow> can_transition_to from to \<and> \<not> run_is_terminal from"
  using assms
proof (induction ops arbitrary: r evs)
  case (Cons op ops)
  obtain to t where op: "op = (to, t)" by (cases op)
  from Cons.prems op obtain r1 e1 e2 where a: "run_transition r to t = Inr (r1, e1)"
    and h: "run_history r1 ops = Inr (r', e2)" and evs: "evs = e1 # e2"
    by (auto split: sum.splits)
  from a have "ev_kind e1 = RunTransitioned (rn_status r) to" and "can_transition_to (rn_status r) to"
    and "\<not> run_is_terminal (rn_status r)"
    by (auto simp: run_transition_def Let_def split: if_splits)
  with Cons.IH [OF h] evs show ?case by auto
qed simp

section \<open>Terminal states are sinks\<close>

lemma step_apply_terminal: "step_is_terminal (sr_status s) \<Longrightarrow> \<exists>e. step_apply m s op = Inl e"
  by (cases op) (auto simp: step_op_defs)

text \<open>The measure that every accepted operation of a step lowers, for an attempt budget \<open>m\<close>.\<close>

definition moves_left :: "nat \<Rightarrow> step_run \<Rightarrow> nat" where
  "moves_left m s =
     (let rest = m - length (sr_attempts s) in
      case sr_status s of
        SPending \<Rightarrow> 2 * rest + 1
      | SReady \<Rightarrow> 2 * rest
      | SRunning \<Rightarrow> 2 * rest + 1
      | _ \<Rightarrow> 0)"

definition within_budget :: "nat \<Rightarrow> step_run \<Rightarrow> bool" where
  "within_budget m s \<longleftrightarrow>
     length (sr_attempts s) \<le> m
     \<and> (sr_status s = SReady \<or> sr_status s = SPending \<longrightarrow> length (sr_attempts s) < m)
     \<and> (sr_status s = SRunning \<longrightarrow> sr_attempts s \<noteq> [])"

lemma step_apply_budget:
  assumes "within_budget m s" and "m < 4294967296" and "step_apply m s op = Inr (s', evs)"
  shows "within_budget m s'" and "moves_left m s' < moves_left m s"
  using assms
  by (cases op; force simp: step_op_defs within_budget_def moves_left_def finish_target_def
        len_u32_def last_opt_def split: if_splits option.splits step_status.splits
        failure_kind.splits bool.splits)+

lemma step_history_budget:
  assumes "within_budget m s" and "m < 4294967296" and "step_history m s ops = Inr (s', evs)"
  shows "within_budget m s' \<and> length ops \<le> moves_left m s"
  using assms
proof (induction ops arbitrary: s evs)
  case (Cons op ops)
  then obtain s1 e1 e2 where a: "step_apply m s op = Inr (s1, e1)"
    and h: "step_history m s1 ops = Inr (s', e2)"
    by (auto split: sum.splits)
  note b = step_apply_budget [OF Cons.prems(1,2) a]
  from Cons.IH [OF b(1) Cons.prems(2) h] b(2) show ?case by simp
qed simp

lemma step_history_no_gate_frame:
  assumes "step_history m s ops = Inr (s', evs)"
  shows "sr_step s' = sr_step s \<and> sr_run s' = sr_run s \<and> sr_needs s' = sr_needs s
         \<and> sr_gate_kind s' = sr_gate_kind s"
  using assms
proof (induction ops arbitrary: s evs)
  case (Cons op ops)
  then obtain s1 e1 e2 where a: "step_apply m s op = Inr (s1, e1)"
    and h: "step_history m s1 ops = Inr (s', e2)"
    by (auto split: sum.splits)
  from a have "sr_step s1 = sr_step s \<and> sr_run s1 = sr_run s \<and> sr_needs s1 = sr_needs s
      \<and> sr_gate_kind s1 = sr_gate_kind s"
    by (cases op) (auto simp: step_op_defs split: if_splits option.splits)
  with Cons.IH [OF h] show ?case by simp
qed simp

section \<open>Properties\<close>

text \<open>Bounded progress of a step. Starting from a fresh step, with an attempt budget \<open>m\<close> that
  fits the code's 32-bit counter, a sequence of accepted operations (marking ready, starting
  and finishing attempts with any verdict, cancelling) makes at most \<open>m\<close> attempts and at most
  \<open>2 m + 1\<close> moves in all: the machine cannot retry forever.\<close>

theorem step_bounded_progress:
  assumes "0 < m" and "m < 4294967296"
    and "step_history m (step_new run step) ops = Inr (s', evs)"
  shows "length (sr_attempts s') \<le> m \<and> length ops \<le> 2 * m + 1"
proof -
  have "within_budget m (step_new run step)" and "moves_left m (step_new run step) = 2 * m + 1"
    using assms(1) by (simp_all add: within_budget_def moves_left_def step_new_def)
  with step_history_budget [OF _ assms(2,3)] show ?thesis by (auto simp: within_budget_def)
qed

theorem step_bounded_progress_witness:
  "\<exists>s' evs. step_history 2 (step_new ''r'' ''build'')
      [OpMarkReady 1, OpStart ''a1'' 2, OpFinish (Some (FInfra True)) 3, OpStart ''a2'' 4,
       OpFinish (Some (FInfra True)) 5] = Inr (s', evs)
    \<and> sr_status s' = SFailed \<and> length (sr_attempts s') \<le> 2"
proof -
  let ?ops = "[OpMarkReady 1, OpStart ''a1'' 2, OpFinish (Some (FInfra True)) 3, OpStart ''a2'' 4,
       OpFinish (Some (FInfra True)) 5]"
  obtain s' evs where h: "step_history 2 (step_new ''r'' ''build'') ?ops = Inr (s', evs)"
    and f: "sr_status s' = SFailed"
    by (simp add: step_op_defs step_new_def finish_target_def len_u32_def last_opt_def)
  from step_bounded_progress [OF _ _ h] h f show ?thesis by auto
qed

text \<open>The journal is enough. After any accepted history of a step, replaying the
  \<^verbatim>\<open>StepTransitioned\<close> events it emitted, from the status the history began in, reaches the
  step's status; every event starts where the one before it ended.\<close>

theorem step_journal_replays:
  assumes "step_history m s ops = Inr (s', evs)"
  shows "replay_step (sr_step s) (sr_status s) (map ev_kind evs) = Some (sr_status s')"
  using assms by (rule step_history_replay)

theorem step_journal_replays_witness:
  "\<exists>s' evs. step_history 3 (step_new ''r'' ''t'') [OpStart ''a1'' 5, OpFinish None 9] = Inr (s', evs)
    \<and> replay_step ''t'' SPending (map ev_kind evs) = Some SSucceeded"
proof -
  obtain s' evs where h: "step_history 3 (step_new ''r'' ''t'') [OpStart ''a1'' 5, OpFinish None 9] = Inr (s', evs)"
    and f: "sr_status s' = SSucceeded"
    by (simp add: step_op_defs step_new_def finish_target_def last_opt_def)
  from step_journal_replays [OF h] h f show ?thesis by (auto simp: step_new_def)
qed

text \<open>An accepted history of a run follows declared edges only and never leaves a terminal
  state; its journal replays to the run's status; and the state it ends in accepts exactly the
  declared edges, none at all when it is terminal (so a replayed transition is refused).\<close>

theorem run_history_spec:
  assumes "run_history r ops = Inr (r', evs)"
  shows "replay_run (rn_status r) (map ev_kind evs) = Some (rn_status r')
    \<and> (\<forall>from to. RunTransitioned from to \<in> set (map ev_kind evs)
          \<longrightarrow> can_transition_to from to \<and> \<not> run_is_terminal from)
    \<and> (\<forall>to t. (\<exists>x. run_transition r' to t = Inr x)
          \<longleftrightarrow> \<not> run_is_terminal (rn_status r') \<and> can_transition_to (rn_status r') to)"
  using run_history_replay [OF assms] run_history_edges [OF assms] by (simp add: run_transition_def Let_def)

theorem run_history_spec_witness:
  "\<exists>r' evs. run_history (fst (run_new ''r'' 0)) [(RRunning, 1), (RSuspended, 2), (RRunning, 3), (RSucceeded, 4)]
      = Inr (r', evs) \<and> replay_run RPending (map ev_kind evs) = Some RSucceeded
      \<and> \<not> (\<exists>x. run_transition r' RRunning 5 = Inr x)"
proof -
  obtain r' evs where h: "run_history (fst (run_new ''r'' 0))
      [(RRunning, 1), (RSuspended, 2), (RRunning, 3), (RSucceeded, 4)] = Inr (r', evs)"
    and f: "rn_status r' = RSucceeded"
    by (simp add: run_transition_def run_new_def)
  from run_history_spec [OF h] h f show ?thesis by (auto simp: run_new_def)
qed

end
