(* ===== verification/Workspace_Inputs.thy ===== *)
theory Workspace_Inputs
  imports State_Machine "HOL-Library.Product_Lexorder" "HOL-Library.Multiset"
begin

text \<open>
  Which upstream snapshots a step consumes, and the keys built over them
  (\<^verbatim>\<open>crates/scarab-engine/src/lib.rs\<close>: \<^verbatim>\<open>consumed\<close>, \<^verbatim>\<open>workspace_inputs\<close>, \<^verbatim>\<open>workspace_input_steps\<close>,
  \<^verbatim>\<open>cache_key\<close>, \<^verbatim>\<open>input_signature\<close>, \<^verbatim>\<open>impl CacheScope\<close>). The hash map from steps to output
  snapshots is a partial function; SHA-256 followed by hexadecimal printing is the parameter
  \<open>sha256_hex\<close> of \<open>cache_key\<close>.
\<close>

section \<open>Consumed inputs\<close>

definition consumed :: "step_id list \<Rightarrow> step_id list option \<Rightarrow> step_id list" where
  "consumed needs inputs = (case inputs of None \<Rightarrow> needs | Some is \<Rightarrow> is)"

definition workspace_input_steps ::
  "step_id list \<Rightarrow> step_id list option \<Rightarrow> (step_id \<rightharpoonup> string) \<Rightarrow> step_id list" where
  "workspace_input_steps needs inputs output_of =
     filter (\<lambda>n. output_of n \<noteq> None) (consumed needs inputs)"

definition workspace_inputs ::
  "step_id list \<Rightarrow> step_id list option \<Rightarrow> (step_id \<rightharpoonup> string) \<Rightarrow> string list" where
  "workspace_inputs needs inputs output_of =
     map (\<lambda>n. the (output_of n)) (workspace_input_steps needs inputs output_of)"

text \<open>The \<^verbatim>\<open>expect\<close> in \<^verbatim>\<open>workspace_inputs\<close> cannot fail: every step it maps has an output.\<close>

lemma workspace_inputs_expect:
  "n \<in> set (workspace_input_steps needs inputs output_of) \<Longrightarrow> output_of n \<noteq> None"
  by (simp add: workspace_input_steps_def)

section \<open>The input signature\<close>

definition signature_part :: "(step_id \<rightharpoonup> string) \<Rightarrow> step_id \<Rightarrow> string" where
  "signature_part output_of n =
     n @ ''='' @ (case output_of n of Some s \<Rightarrow> s | None \<Rightarrow> '''')"

definition input_signature ::
  "step_id list \<Rightarrow> step_id list option \<Rightarrow> (step_id \<rightharpoonup> string) \<Rightarrow> string" where
  "input_signature needs inputs output_of =
     ''v2:'' @ join_with '';'' (map (signature_part output_of) (consumed needs inputs))"

text \<open>What the signature relies on: a recorded output is a content hash, never empty and with no
  separator in it.\<close>

definition hash_like :: "(step_id \<rightharpoonup> string) \<Rightarrow> step_id list \<Rightarrow> bool" where
  "hash_like output_of ns \<longleftrightarrow>
     (\<forall>n \<in> set ns. \<forall>h. output_of n = Some h \<longrightarrow> h \<noteq> [] \<and> CHR '';'' \<notin> set h)"

lemma append_sep_inject:
  assumes "c \<notin> set a" and "c \<notin> set b"
  shows "a @ c # x = b @ c # y \<longleftrightarrow> a = b \<and> x = y"
  using assms
proof (induction a arbitrary: b)
  case Nil
  then show ?case by (cases b) auto
next
  case (Cons z a)
  then show ?case by (cases b) auto
qed

lemma signature_join_inject:
  assumes "join_with '';'' (map (signature_part f) ns) = join_with '';'' (map (signature_part g) ns)"
    and "hash_like f ns" and "hash_like g ns"
  shows "\<forall>n \<in> set ns. f n = g n"
  using assms
proof (induction ns)
  case (Cons n ns)
  define a where "a = (case f n of Some s \<Rightarrow> s | None \<Rightarrow> [])"
  define b where "b = (case g n of Some s \<Rightarrow> s | None \<Rightarrow> [])"
  have parts: "signature_part f n = n @ ''='' @ a" "signature_part g n = n @ ''='' @ b"
    by (simp_all add: signature_part_def a_def b_def)
  have sep: "CHR '';'' \<notin> set a" "CHR '';'' \<notin> set b"
    using Cons.prems(2,3) by (auto simp: hash_like_def a_def b_def split: option.splits)
  have eq: "f n = g n" if "a = b"
    using that Cons.prems(2,3) by (auto simp: hash_like_def a_def b_def split: option.splits)
  have h: "hash_like f ns" "hash_like g ns"
    using Cons.prems(2,3) by (simp_all add: hash_like_def)
  show ?case
  proof (cases ns)
    case Nil
    with Cons.prems(1) show ?thesis
      using eq by (simp add: parts)
  next
    case ns: (Cons m ms)
    with Cons.prems(1) have "a @ CHR '';'' # join_with '';'' (map (signature_part f) ns)
        = b @ CHR '';'' # join_with '';'' (map (signature_part g) ns)"
      by (simp add: parts)
    then have "a = b" and "join_with '';'' (map (signature_part f) ns)
        = join_with '';'' (map (signature_part g) ns)"
      using append_sep_inject [OF sep] by auto
    with Cons.IH h eq show ?thesis by simp
  qed
qed simp

text \<open>Skip-if-unchanged is sound. For one step's fixed \<open>needs\<close> and \<open>inputs\<close>, two recorded
  states of its upstreams with the same signature give the step the same consumed inputs:
  the same producing steps in the same order and the same snapshots, so a skipped step would
  have materialised the workspace it already consumed.\<close>

theorem input_signature_sound:
  assumes "input_signature needs inputs f = input_signature needs inputs g"
    and "hash_like f (consumed needs inputs)" and "hash_like g (consumed needs inputs)"
  shows "workspace_inputs needs inputs f = workspace_inputs needs inputs g
       \<and> workspace_input_steps needs inputs f = workspace_input_steps needs inputs g"
proof -
  have agree: "\<forall>n \<in> set (consumed needs inputs). f n = g n"
    using signature_join_inject assms by (simp add: input_signature_def)
  then have "workspace_input_steps needs inputs f = workspace_input_steps needs inputs g"
    by (simp add: workspace_input_steps_def cong: filter_cong)
  moreover from agree have "f n = g n" if "n \<in> set (workspace_input_steps needs inputs g)" for n
    using that by (simp add: workspace_input_steps_def)
  ultimately show ?thesis by (simp add: workspace_inputs_def)
qed

theorem input_signature_sound_witness:
  "workspace_inputs [''clone'', ''lint''] (Some [''clone'']) [''clone'' \<mapsto> ''ab12'', ''lint'' \<mapsto> ''0'']
     = workspace_inputs [''clone'', ''lint''] (Some [''clone'']) [''clone'' \<mapsto> ''ab12'']"
  using input_signature_sound
    [of "[''clone'', ''lint'']" "Some [''clone'']" "[''clone'' \<mapsto> ''ab12'', ''lint'' \<mapsto> ''0'']"
        "[''clone'' \<mapsto> ''ab12'']"]
  by (simp add: input_signature_def consumed_def signature_part_def hash_like_def)

section \<open>The cache key\<close>

definition length_prefixed :: "string \<Rightarrow> string" where
  "length_prefixed s = nat_str (length s) @ '':'' @ s @ [CHR 0x0A]"

definition cache_key_preimage :: "string \<Rightarrow> string \<Rightarrow> (string \<times> string) list \<Rightarrow> string" where
  "cache_key_preimage project scope resolved =
     length_prefixed project @ length_prefixed scope
     @ concat (map (\<lambda>(path, blob). length_prefixed path @ length_prefixed blob) (sort resolved))"

definition cache_key ::
  "(string \<Rightarrow> string) \<Rightarrow> string \<Rightarrow> string \<Rightarrow> (string \<times> string) list \<Rightarrow> string" where
  "cache_key sha256_hex project scope resolved =
     sha256_hex (cache_key_preimage project scope resolved)"

lemma digit_char_not_colon: "d < 10 \<Longrightarrow> digit_char d \<noteq> CHR '':''"
proof
  assume "d < 10" and "digit_char d = CHR '':''"
  then have "digit_val (CHR '':'') = Some d"
    using digit_val_char [of d] by simp
  then show False by (simp add: digit_val_def)
qed

lemma nat_str_no_colon: "CHR '':'' \<notin> set (nat_str n)"
proof (induction n rule: nat_str.induct)
  case (1 n)
  show ?case
  proof (cases "n < 10")
    case True
    then show ?thesis using digit_char_not_colon [of n] by (subst nat_str.simps) auto
  next
    case False
    with "1" show ?thesis using digit_char_not_colon [of "n mod 10"]
      by (subst nat_str.simps) auto
  qed
qed

lemma length_prefixed_inject:
  "length_prefixed a @ x = length_prefixed b @ y \<longleftrightarrow> a = b \<and> x = y"
proof
  assume e: "length_prefixed a @ x = length_prefixed b @ y"
  then have "nat_str (length a) @ CHR '':'' # (a @ CHR 0x0A # x)
           = nat_str (length b) @ CHR '':'' # (b @ CHR 0x0A # y)"
    by (simp add: length_prefixed_def)
  then have "nat_str (length a) = nat_str (length b)" and r: "a @ CHR 0x0A # x = b @ CHR 0x0A # y"
    using append_sep_inject [OF nat_str_no_colon nat_str_no_colon] by auto
  then have "length a = length b" by simp
  with r show "a = b \<and> x = y" by simp
qed simp

lemma length_prefixed_nonempty [simp]: "length_prefixed s \<noteq> []"
  by (simp add: length_prefixed_def)

lemma pairs_preimage_inject:
  "concat (map (\<lambda>(p, b). length_prefixed p @ length_prefixed b) xs)
     = concat (map (\<lambda>(p, b). length_prefixed p @ length_prefixed b) ys) \<Longrightarrow> xs = ys"
proof (induction xs arbitrary: ys)
  case Nil
  then show ?case by (cases ys) auto
next
  case (Cons u us)
  obtain v vs where ys: "ys = v # vs"
    using Cons.prems by (cases ys) (auto split: prod.splits)
  obtain p b p' b' where u: "u = (p, b)" and v: "v = (p', b')" by (cases u; cases v)
  from Cons.prems have "p = p' \<and> b = b' \<and>
     concat (map (\<lambda>(p, b). length_prefixed p @ length_prefixed b) us)
       = concat (map (\<lambda>(p, b). length_prefixed p @ length_prefixed b) vs)"
    by (simp add: ys u v length_prefixed_inject)
  with Cons.IH show ?case by (simp add: ys u v)
qed

lemma cache_key_preimage_inject:
  "cache_key_preimage p s r = cache_key_preimage p' s' r' \<longleftrightarrow> p = p' \<and> s = s' \<and> sort r = sort r'"
  by (auto simp: cache_key_preimage_def length_prefixed_inject dest: pairs_preimage_inject)

text \<open>C22: the cache key does not confuse inputs. Two keys that agree come from the same project,
  the same scope and the same set of (path, blob hash) pairs in some order, unless the hash
  function itself maps two different strings to one digest: no choice of names, paths or hashes
  collides in the encoding.\<close>

theorem cache_key_injective:
  assumes "cache_key sha p s r = cache_key sha p' s' r'"
  shows "(p = p' \<and> s = s' \<and> mset r = mset r') \<or> (\<exists>x y. x \<noteq> y \<and> sha x = sha y)"
proof (cases "cache_key_preimage p s r = cache_key_preimage p' s' r'")
  case True
  then have "p = p' \<and> s = s' \<and> sort r = sort r'" by (simp add: cache_key_preimage_inject)
  then show ?thesis by (metis mset_sort)
next
  case False
  with assms show ?thesis unfolding cache_key_def by blast
qed

theorem cache_key_injective_witness:
  "cache_key id ''acme/app'' ''refs/heads/main'' [(''b'', ''2''), (''a'', ''1'')]
     = cache_key id ''acme/app'' ''refs/heads/main'' [(''a'', ''1''), (''b'', ''2'')]
   \<and> mset [(''b'', ''2''), (''a'', ''1'')] = mset [(''a'', ''1''), (''b'', ''2'')]"
proof -
  have e: "cache_key id ''acme/app'' ''refs/heads/main'' [(''b'', ''2''), (''a'', ''1'')]
      = cache_key id ''acme/app'' ''refs/heads/main'' [(''a'', ''1''), (''b'', ''2'')]"
    unfolding cache_key_def cache_key_preimage_def by (simp add: less_eq_prod_def)
  from e cache_key_injective [OF e] show ?thesis by simp
qed

section \<open>Cache scopes\<close>

record cache_scope =
  cs_own :: string
  cs_fallback :: "string option"

definition starts_with :: "string \<Rightarrow> string \<Rightarrow> bool" where
  "starts_with s p \<longleftrightarrow> take (length p) s = p"

definition environment_scope :: "string option \<Rightarrow> string option \<Rightarrow> bool \<Rightarrow> string option" where
  "environment_scope environment git_ref pull_request =
     (let pull_request_ref =
        (case git_ref of None \<Rightarrow> False
         | Some r \<Rightarrow> starts_with r ''refs/pull/'' \<or> starts_with r ''refs/merge-requests/'')
      in if \<not> pull_request \<and> \<not> pull_request_ref then environment else None)"

definition cache_scope_for_run ::
  "string option \<Rightarrow> string option \<Rightarrow> string option \<Rightarrow> bool \<Rightarrow> cache_scope option" where
  "cache_scope_for_run environment git_ref default_branch pull_request =
     (case environment_scope environment git_ref pull_request of
        Some env \<Rightarrow> Some \<lparr>cs_own = ''env:'' @ env, cs_fallback = None\<rparr>
      | None \<Rightarrow>
          (case git_ref of
             None \<Rightarrow> None
           | Some own \<Rightarrow>
               if \<not> starts_with own ''refs/'' then None
               else Some \<lparr>cs_own = own,
                          cs_fallback =
                            (case default_branch of
                               None \<Rightarrow> None
                             | Some b \<Rightarrow>
                                 if b = [] \<or> ''refs/heads/'' @ b = own then None
                                 else Some (''refs/heads/'' @ b))\<rparr>))"

lemma env_scope_not_ref: "starts_with r ''refs/'' \<Longrightarrow> r \<noteq> ''env:'' @ e"
  by (auto simp: starts_with_def)

text \<open>What a pull request writes, no Environment-governed run restores. A pull-request run
  (by its event, or by a pull- or merge-request ref) never has an Environment's scope as its own;
  the scope of a run an Environment governs is disjoint from every ref scope and has no
  fallback; and a run's fallback is the default branch's scope, never its own.\<close>

theorem cache_scope_isolation:
  assumes "cache_scope_for_run env ref db pr = Some a"
  shows "(pr \<or> (\<exists>r. ref = Some r \<and> starts_with r ''refs/pull/'')
            \<longrightarrow> ref = Some (cs_own a) \<and> (\<forall>e. cs_own a \<noteq> ''env:'' @ e))
    \<and> (\<forall>e. cs_own a = ''env:'' @ e \<longrightarrow> \<not> pr \<and> env = Some e \<and> cs_fallback a = None)
    \<and> (\<forall>f. cs_fallback a = Some f
          \<longrightarrow> f \<noteq> cs_own a \<and> (\<exists>b. db = Some b \<and> f = ''refs/heads/'' @ b))"
  using assms env_scope_not_ref
  by (auto simp: cache_scope_for_run_def environment_scope_def Let_def
           split: option.splits if_splits)

theorem cache_scope_isolation_witness:
  "\<exists>a. cache_scope_for_run (Some ''prod'') (Some ''refs/pull/7/head'') (Some ''main'') False = Some a
     \<and> Some ''refs/pull/7/head'' = Some (cs_own a) \<and> (\<forall>e. cs_own a \<noteq> ''env:'' @ e)"
proof -
  obtain a where a: "cache_scope_for_run (Some ''prod'') (Some ''refs/pull/7/head'') (Some ''main'') False = Some a"
    by (simp add: cache_scope_for_run_def environment_scope_def starts_with_def)
  from cache_scope_isolation [OF a] a show ?thesis by (simp add: starts_with_def)
qed

end
