(* ===== verification/Invalidation.thy ===== *)
theory Invalidation
  imports Workspace_Inputs
begin

text \<open>
  The invalidation set of a rerun and its plan (\<^verbatim>\<open>invalidation_set\<close> in
  \<^verbatim>\<open>crates/scarab-engine/src/lib.rs\<close>; \<^verbatim>\<open>plan_rerun_over\<close> and \<^verbatim>\<open>planned_steps\<close> in
  \<^verbatim>\<open>crates/scarab-engine/src/scheduler.rs\<close>). The loops are terminating recursions over the sets the
  code grows; the snapshot store's answer is the function \<open>snapshot_present\<close>, since the code
  asks each root once and remembers the answer.
\<close>

section \<open>The invalidation set\<close>

text \<open>One pass of the \<^verbatim>\<open>for s in steps\<close> loop, with its \<^verbatim>\<open>changed\<close> flag.\<close>

fun inval_pass :: "step_run list \<Rightarrow> step_id set \<times> bool \<Rightarrow> step_id set \<times> bool" where
  "inval_pass [] (invalid, changed) = (invalid, changed)"
| "inval_pass (s # ss) (invalid, changed) =
     (if sr_step s \<notin> invalid \<and> list_ex (\<lambda>n. n \<in> invalid) (sr_needs s)
      then inval_pass ss (insert (sr_step s) invalid, True)
      else inval_pass ss (invalid, changed))"

lemma inval_pass_mono: "invalid \<subseteq> fst (inval_pass ss (invalid, c))"
proof (induction ss arbitrary: invalid c)
  case (Cons s ss)
  show ?case using Cons.IH [of "insert (sr_step s) invalid" True] Cons.IH [of invalid c] by auto
qed simp

lemma inval_pass_ids: "fst (inval_pass ss (invalid, c)) \<subseteq> invalid \<union> sr_step ` set ss"
proof (induction ss arbitrary: invalid c)
  case (Cons s ss)
  show ?case using Cons.IH [of "insert (sr_step s) invalid" True] Cons.IH [of invalid c] by auto
qed simp

lemma inval_pass_flag:
  "snd (inval_pass ss (invalid, c)) \<longleftrightarrow> c \<or> fst (inval_pass ss (invalid, c)) \<noteq> invalid"
proof (induction ss "(invalid, c)" arbitrary: invalid c rule: inval_pass.induct)
  case (2 s ss invalid c)
  then show ?case using inval_pass_mono [of "insert (sr_step s) invalid" ss True] by auto
qed simp

function inval_loop :: "step_run list \<Rightarrow> step_id set \<Rightarrow> step_id set" where
  "inval_loop steps invalid =
     (case inval_pass steps (invalid, False) of
        (invalid', changed) \<Rightarrow> if changed then inval_loop steps invalid' else invalid')"
  by pat_completeness auto
termination
proof (relation "measure (\<lambda>(steps, invalid). card (sr_step ` set steps - invalid))", goal_cases)
  case 1
  then show ?case by simp
next
  case (2 steps invalid invalid' changed)
  then have p: "inval_pass steps (invalid, False) = (invalid', changed)" and "changed" by simp_all
  have sub: "invalid \<subseteq> invalid'" and ids: "invalid' \<subseteq> invalid \<union> sr_step ` set steps"
    and neq: "invalid' \<noteq> invalid"
    using inval_pass_mono [of invalid steps False] inval_pass_ids [of steps invalid False]
      inval_pass_flag [of steps invalid False] p \<open>changed\<close> by auto
  then have "sr_step ` set steps - invalid' \<subset> sr_step ` set steps - invalid" by blast
  then show ?case by (simp add: psubset_card_mono)
qed

declare inval_loop.simps [simp del]

definition invalidation_set :: "step_id \<Rightarrow> step_run list \<Rightarrow> step_id set" where
  "invalidation_set target steps = inval_loop steps {target}"

text \<open>The specification: the steps that transitively need the target.\<close>

definition needs_edge :: "step_run list \<Rightarrow> (step_id \<times> step_id) set" where
  "needs_edge steps = {(n, sr_step s) | n s. s \<in> set steps \<and> n \<in> set (sr_needs s)}"

lemma inval_pass_sound:
  assumes "set ss \<subseteq> set steps" and "invalid \<subseteq> (needs_edge steps)\<^sup>* `` A"
  shows "fst (inval_pass ss (invalid, c)) \<subseteq> (needs_edge steps)\<^sup>* `` A"
  using assms
proof (induction ss "(invalid, c)" arbitrary: invalid c rule: inval_pass.induct)
  case (2 s ss invalid c)
  show ?case
  proof (cases "sr_step s \<notin> invalid \<and> list_ex (\<lambda>n. n \<in> invalid) (sr_needs s)")
    case True
    then obtain n where "n \<in> set (sr_needs s)" and "n \<in> invalid" by (auto simp: list_ex_iff)
    then have "(n, sr_step s) \<in> needs_edge steps" and "n \<in> (needs_edge steps)\<^sup>* `` A"
      using "2.prems" by (auto simp: needs_edge_def)
    then have "sr_step s \<in> (needs_edge steps)\<^sup>* `` A" by (meson Image_iff rtrancl.rtrancl_into_rtrancl)
    with True "2" show ?thesis by simp
  next
    case False
    with "2" show ?thesis by auto
  qed
qed simp

lemma inval_pass_fixpoint:
  assumes "\<not> snd (inval_pass ss (invalid, c))"
  shows "\<forall>s \<in> set ss. (\<exists>n \<in> set (sr_needs s). n \<in> invalid) \<longrightarrow> sr_step s \<in> invalid"
  using assms
proof (induction ss "(invalid, c)" arbitrary: invalid c rule: inval_pass.induct)
  case (2 s ss invalid c)
  have "\<not> (sr_step s \<notin> invalid \<and> list_ex (\<lambda>n. n \<in> invalid) (sr_needs s))"
    using "2.prems" by (auto simp: inval_pass_flag)
  with "2" show ?case by (auto simp: list_ex_iff split: if_splits)
qed simp

definition closed_under_needs :: "step_run list \<Rightarrow> step_id set \<Rightarrow> bool" where
  "closed_under_needs steps I \<longleftrightarrow>
     (\<forall>s \<in> set steps. (\<exists>n \<in> set (sr_needs s). n \<in> I) \<longrightarrow> sr_step s \<in> I)"

lemma closed_under_needs_Image: "closed_under_needs steps I \<longleftrightarrow> needs_edge steps `` I \<subseteq> I"
  by (auto simp: closed_under_needs_def needs_edge_def)

lemma inval_loop_spec:
  "I \<subseteq> inval_loop steps I
   \<and> inval_loop steps I \<subseteq> (needs_edge steps)\<^sup>* `` I
   \<and> closed_under_needs steps (inval_loop steps I)"
proof (induction steps I rule: inval_loop.induct)
  case (1 steps I)
  obtain I' c where p: "inval_pass steps (I, False) = (I', c)" by fastforce
  have sub: "I \<subseteq> I'" and snd: "I' \<subseteq> (needs_edge steps)\<^sup>* `` I"
    using inval_pass_mono [of I steps False] inval_pass_sound [of steps steps I I False] p
    by (simp_all, auto)
  have unfold: "inval_loop steps I = (if c then inval_loop steps I' else I')"
    by (subst inval_loop.simps) (simp add: p)
  show ?case
  proof (cases c)
    case True
    have "(needs_edge steps)\<^sup>* `` I' \<subseteq> (needs_edge steps)\<^sup>* `` I"
      using snd by (metis Image_mono relcomp_Image rtrancl_idemp_self_comp subset_refl)
    then show ?thesis using "1.IH" [OF p [symmetric] True] True sub unfold by auto
  next
    case False
    then have "I' = I" using inval_pass_flag [of steps I False] p by auto
    with False show ?thesis
      using inval_pass_fixpoint [of steps I False] p snd sub unfold
      by (simp add: closed_under_needs_def)
  qed
qed

lemma rtrancl_Image_least:
  assumes "needs_edge steps `` J \<subseteq> J" and "I \<subseteq> J"
  shows "(needs_edge steps)\<^sup>* `` I \<subseteq> J"
proof -
  have "(needs_edge steps)\<^sup>* `` J = J" using assms(1) by (rule Image_closed_trancl)
  with assms(2) show ?thesis by blast
qed

lemma inval_loop_eq: "inval_loop steps I = (needs_edge steps)\<^sup>* `` I"
  using inval_loop_spec [of I steps] rtrancl_Image_least [of steps "inval_loop steps I" I]
  by (auto simp: closed_under_needs_Image)

lemma invalidation_set_eq: "invalidation_set target steps = (needs_edge steps)\<^sup>* `` {target}"
  by (simp add: invalidation_set_def inval_loop_eq)

lemma invalidation_set_target [simp]: "target \<in> invalidation_set target steps"
  by (simp add: invalidation_set_eq)

lemma invalidation_set_closed: "closed_under_needs steps (invalidation_set target steps)"
  using inval_loop_spec by (simp add: invalidation_set_def)

lemma invalidation_set_least:
  "closed_under_needs steps J \<Longrightarrow> target \<in> J \<Longrightarrow> invalidation_set target steps \<subseteq> J"
  using rtrancl_Image_least [of steps J "{target}"]
  by (simp add: invalidation_set_eq closed_under_needs_Image)

lemma invalidation_set_ids: "invalidation_set target steps \<subseteq> insert target (sr_step ` set steps)"
proof (rule invalidation_set_least)
  show "closed_under_needs steps (insert target (sr_step ` set steps))"
    by (auto simp: closed_under_needs_def)
qed simp

end
