(* ===== verification/Gate_Log.thy ===== *)
theory Gate_Log
  imports State_Machine Invalidation
begin

text \<open>
  What the engine reads off a run's event log and its step rows to drive its gates
  (\<^verbatim>\<open>crates/scarab-engine/src/scheduler.rs\<close>): the approvals of the current wait, the start of the
  wait's clock, the decision due at an instant, the predicate under which a run suspends, and the
  active-time meter of a run's budget. All are pure functions of the log or of the rows, so a
  scheduler that crashed and one that did not compute the same answers.
\<close>

section \<open>Re-arms and approvals\<close>

definition is_gate_rearm :: "event_payload \<Rightarrow> step_id \<Rightarrow> bool" where
  "is_gate_rearm kind step =
     (case kind of
        StepTransitioned s _ to \<Rightarrow> to = SPending \<and> s = step
      | AttemptSuperseded s _ _ \<Rightarrow> s = step
      | RunRerunRequested _ invalidated _ _ \<Rightarrow> step \<in> set invalidated
      | _ \<Rightarrow> False)"

text \<open>The slice of the log after the last re-arm: \<^verbatim>\<open>rposition\<close> and \<^verbatim>\<open>&events[from..]\<close>.\<close>

definition after_last :: "('a \<Rightarrow> bool) \<Rightarrow> 'a list \<Rightarrow> 'a list" where
  "after_last P xs = rev (takeWhile (\<lambda>x. \<not> P x) (rev xs))"

definition current_wait :: "event_kind list \<Rightarrow> step_id \<Rightarrow> event_kind list" where
  "current_wait events step = after_last (\<lambda>e. is_gate_rearm (ev_kind e) step) events"

fun collect_approvers :: "step_id \<Rightarrow> event_kind list \<Rightarrow> string list \<Rightarrow> string list" where
  "collect_approvers step [] seen = seen"
| "collect_approvers step (e # es) seen =
     collect_approvers step es
       (case ev_kind e of
          GateApproved s by \<Rightarrow> if s = step \<and> by \<notin> set seen then seen @ [by] else seen
        | _ \<Rightarrow> seen)"

definition gate_approvers :: "event_kind list \<Rightarrow> step_id \<Rightarrow> string list" where
  "gate_approvers events step = collect_approvers step (current_wait events step) []"

record environment_approval =
  ea_approvers :: "string list"
  ea_required :: "nat option"
  ea_release_at :: int

fun find_map :: "('a \<Rightarrow> 'b option) \<Rightarrow> 'a list \<Rightarrow> 'b option" where
  "find_map f [] = None"
| "find_map f (x # xs) = (case f x of Some y \<Rightarrow> Some y | None \<Rightarrow> find_map f xs)"

definition environment_approval_met ::
  "event_kind list \<Rightarrow> step_id \<Rightarrow> environment_approval option" where
  "environment_approval_met events step =
     find_map (\<lambda>e. case ev_kind e of
         EnvironmentApprovalMet s approvers required release_at \<Rightarrow>
           if s = step
           then Some \<lparr>ea_approvers = approvers, ea_required = required, ea_release_at = release_at\<rparr>
           else None
       | _ \<Rightarrow> None)
     (rev (current_wait events step))"

definition passes_gate :: "event_payload \<Rightarrow> step_id \<Rightarrow> bool" where
  "passes_gate kind step =
     (case kind of
        GateResolved s _ passed _ _ _ \<Rightarrow> passed \<and> s = step
      | GateReleased s \<Rightarrow> s = step
      | _ \<Rightarrow> False)"

definition gate_released_at :: "event_kind list \<Rightarrow> step_id \<Rightarrow> timestamp option" where
  "gate_released_at events step =
     find_map (\<lambda>e. if passes_gate (ev_kind e) step then Some (ev_at e) else None) (rev events)"

section \<open>The clock of a wait\<close>

text \<open>The three accumulators of the scan: the first entry into \<open>Running\<close>, the latest re-arm of
  the gate, and per need the latest finish since that need's own re-arm.\<close>

record wait_scan =
  ws_first_running :: "int option"
  ws_rearmed :: "int option"
  ws_finished :: "(step_id \<times> int option) list"

definition later :: "int option \<Rightarrow> int \<Rightarrow> int option" where
  "later l at = Some (case l of None \<Rightarrow> at | Some x \<Rightarrow> max x at)"

definition set_finished ::
  "step_id \<Rightarrow> (int option \<Rightarrow> int option) \<Rightarrow> (step_id \<times> int option) list
     \<Rightarrow> (step_id \<times> int option) list" where
  "set_finished step f m = map (\<lambda>(k, v). (k, if k = step then f v else v)) m"

definition scan_event :: "step_id \<Rightarrow> event_kind \<Rightarrow> wait_scan \<Rightarrow> wait_scan" where
  "scan_event gate e w =
     (let at = ev_at e;
          w1 = (case ev_kind e of
             RunTransitioned _ to \<Rightarrow>
               (if to = RRunning
                then w\<lparr>ws_first_running := Some (case ws_first_running w of None \<Rightarrow> at | Some t \<Rightarrow> t)\<rparr>
                else w)
           | StepTransitioned step _ to \<Rightarrow>
               (if to = SSucceeded
                then w\<lparr>ws_finished := set_finished step (\<lambda>f. later f at) (ws_finished w)\<rparr>
                else if to = SPending
                then w\<lparr>ws_finished := set_finished step (\<lambda>_. None) (ws_finished w)\<rparr>
                else w)
           | GateReleased step \<Rightarrow>
               w\<lparr>ws_finished := set_finished step (\<lambda>f. later f at) (ws_finished w)\<rparr>
           | GateResolved step _ passed _ _ _ \<Rightarrow>
               (if passed then w\<lparr>ws_finished := set_finished step (\<lambda>f. later f at) (ws_finished w)\<rparr>
                else w)
           | _ \<Rightarrow> w)
      in if is_gate_rearm (ev_kind e) gate then w1\<lparr>ws_rearmed := later (ws_rearmed w1) at\<rparr> else w1)"

definition scan_init :: "step_run \<Rightarrow> wait_scan" where
  "scan_init gate =
     \<lparr>ws_first_running = None, ws_rearmed = None,
      ws_finished = map (\<lambda>n. (n, None)) (sr_needs gate)\<rparr>"

definition wait_scan_of :: "event_kind list \<Rightarrow> step_run \<Rightarrow> wait_scan" where
  "wait_scan_of events gate =
     foldl (\<lambda>w e. scan_event (sr_step gate) e w) (scan_init gate) events"

definition needs_finished_at :: "step_run \<Rightarrow> wait_scan \<Rightarrow> int \<Rightarrow> int option" where
  "needs_finished_at gate w now =
     (if sr_needs gate = [] then ws_first_running w
      else if list_ex (\<lambda>(_, f). f = None) (ws_finished w) then Some now
      else Some (Max (set (map (\<lambda>(_, f). the f) (ws_finished w)))))"

definition wait_began_at :: "event_kind list \<Rightarrow> step_run \<Rightarrow> timestamp \<Rightarrow> timestamp" where
  "wait_began_at events gate now =
     (let w = wait_scan_of events gate;
          start = (case (needs_finished_at gate w now, ws_rearmed w) of
                     (Some f, Some r) \<Rightarrow> max f r
                   | (Some t, None) \<Rightarrow> t
                   | (None, Some t) \<Rightarrow> t
                   | (None, None) \<Rightarrow> now)
      in min start now)"

section \<open>Reached gates and open waits\<close>

definition gate_reached :: "step_run \<Rightarrow> step_run list \<Rightarrow> bool" where
  "gate_reached gate steps =
     list_all (\<lambda>n. list_ex (\<lambda>s. sr_step s = n \<and> sr_status s = SSucceeded) steps) (sr_needs gate)"

definition in_flight_attempt :: "step_run \<Rightarrow> attempt option" where
  "in_flight_attempt s =
     (case last_opt (sr_attempts s) of
        None \<Rightarrow> None
      | Some a \<Rightarrow> if at_outcome a = AORunning then Some a else None)"

definition open_gate_attempt :: "step_run \<Rightarrow> attempt option" where
  "open_gate_attempt s = (if is_gate s then in_flight_attempt s else None)"

section \<open>The decision of a waiting gate\<close>

record gate_verdict =
  gv_passed :: bool
  gv_reason :: string
  gv_expired :: bool

record gate_settings =
  gs_expires_after_secs :: "int option"
  gs_environment_approval :: bool

definition deadline :: "timestamp \<Rightarrow> int \<Rightarrow> timestamp" where
  "deadline started secs = saturating_add started (saturating_mul secs 1000)"

definition int_str :: "int \<Rightarrow> string" where
  "int_str i = (if i < 0 then ''-'' @ nat_str (nat (- i)) else nat_str (nat i))"

definition expiry_verdict :: "attempt \<Rightarrow> gate_settings \<Rightarrow> timestamp \<Rightarrow> gate_verdict option" where
  "expiry_verdict att settings now =
     (case gs_expires_after_secs settings of
        None \<Rightarrow> None
      | Some secs \<Rightarrow>
          if now \<ge> deadline (at_started_at att) secs
          then Some \<lparr>gv_passed = False,
                     gv_reason = ''not released within '' @ int_str secs @ ''s of its needs finishing'',
                     gv_expired = True\<rparr>
          else None)"

definition gate_verdict ::
  "(step_id \<Rightarrow> int option) \<Rightarrow> step_run \<Rightarrow> attempt \<Rightarrow> gate_settings \<Rightarrow> int option \<Rightarrow> timestamp
     \<Rightarrow> gate_verdict option" where
  "gate_verdict gate_timer_seconds gate att settings approval_release_at now =
     (if sr_gate_kind gate = Some ''manual'' then
        (case approval_release_at of
           Some at \<Rightarrow>
             if now \<ge> at
             then Some \<lparr>gv_passed = True,
                        gv_reason = ''approved; the Environment's wait timer ran out'',
                        gv_expired = False\<rparr>
             else expiry_verdict att settings now
         | None \<Rightarrow> expiry_verdict att settings now)
      else if sr_gate_kind gate = Some ''timer'' then
        (case gate_timer_seconds (sr_step gate) of
           Some wait_secs \<Rightarrow>
             if now \<ge> deadline (at_started_at att) wait_secs
             then Some \<lparr>gv_passed = True,
                        gv_reason = ''timer elapsed ('' @ int_str wait_secs @ ''s after its needs finished)'',
                        gv_expired = False\<rparr>
             else expiry_verdict att settings now
         | None \<Rightarrow> expiry_verdict att settings now)
      else if sr_gate_kind gate = Some ''deployment'' then
        Some \<lparr>gv_passed = False,
              gv_reason = ''this gate waited on the Deployment record, which Scarab no '' @
                ''longer keeps (ADR-0074); wait for your CD tool in a step instead'',
              gv_expired = False\<rparr>
      else expiry_verdict att settings now)"

definition step_settings :: "json \<Rightarrow> (string \<times> gate_settings) option" where
  "step_settings s =
     (case Option.bind (json_get ''id'' s) json_as_str of
        None \<Rightarrow> None
      | Some sid \<Rightarrow>
          Some (sid, \<lparr>gs_expires_after_secs =
                       map_option u64_as_i64
                         (Option.bind (json_get ''gate_expires_after'' s) json_as_u64),
                     gs_environment_approval =
                       (Option.bind (json_get ''gate'' s) json_as_str = Some ''manual''
                        \<and> Option.bind (json_get ''environment_approval_gate'' s) json_as_bool
                            \<noteq> Some False)\<rparr>))"

definition gate_settings_of :: "json option \<Rightarrow> (string \<times> gate_settings) list" where
  "gate_settings_of run_ir =
     (case run_ir of
        None \<Rightarrow> []
      | Some ir \<Rightarrow>
          foldl (\<lambda>m p. al_put (fst p) (snd p) m) []
            (List.map_filter step_settings
              (case Option.bind (json_get ''steps'' ir) json_as_array of Some xs \<Rightarrow> xs | None \<Rightarrow> [])))"

section \<open>Gates nobody needs any more\<close>

definition GATE_NO_LONGER_NEEDED :: string where
  "GATE_NO_LONGER_NEEDED = ''no longer needed: every step that needs it has finished''"

fun unneeded_scan :: "step_id \<Rightarrow> bool \<Rightarrow> event_kind list \<Rightarrow> bool" where
  "unneeded_scan step skipped_without_reason [] = False"
| "unneeded_scan step skipped_without_reason (e # es) =
     (case ev_kind e of
        StepSkipped s reason \<Rightarrow>
          if s = step then reason = GATE_NO_LONGER_NEEDED
          else unneeded_scan step skipped_without_reason es
      | StepTransitioned s _ to \<Rightarrow>
          if s = step
          then (if skipped_without_reason \<or> to \<noteq> SSkipped then False
                else unneeded_scan step True es)
          else unneeded_scan step skipped_without_reason es
      | RunRerunRequested _ invalidated _ _ \<Rightarrow>
          if step \<in> set invalidated then False
          else unneeded_scan step skipped_without_reason es
      | _ \<Rightarrow> unneeded_scan step skipped_without_reason es)"

definition skipped_as_unneeded :: "event_kind list \<Rightarrow> step_id \<Rightarrow> bool" where
  "skipped_as_unneeded events step = unneeded_scan step False (rev events)"

section \<open>When a run suspends\<close>

text \<open>\<open>by_id_map\<close> is the hash map the predicate builds; \<open>behind_waiting_gate\<close> is its memoised
  search. The memo is threaded through the calls; the fuel is the depth of the recursion, which
  the ids not yet in the memo bound (\<open>behind_waiting_gate_total\<close>).\<close>

definition by_id_map :: "step_run list \<Rightarrow> step_id \<rightharpoonup> step_run" where
  "by_id_map steps = map_of (rev (map (\<lambda>s. (sr_step s, s)) steps))"

function behind_waiting_gate ::
  "nat \<Rightarrow> (step_id \<rightharpoonup> step_run) \<Rightarrow> step_id set \<Rightarrow> step_id \<Rightarrow> (step_id \<rightharpoonup> bool)
     \<Rightarrow> (bool \<times> (step_id \<rightharpoonup> bool)) option"
and behind_any ::
  "nat \<Rightarrow> (step_id \<rightharpoonup> step_run) \<Rightarrow> step_id set \<Rightarrow> step_id list \<Rightarrow> (step_id \<rightharpoonup> bool)
     \<Rightarrow> (bool \<times> (step_id \<rightharpoonup> bool)) option" where
  "behind_waiting_gate 0 by_id waiting sid memo = None"
| "behind_waiting_gate (Suc fuel) by_id waiting sid memo =
     (case memo sid of
        Some b \<Rightarrow> Some (b, memo)
      | None \<Rightarrow>
          (case by_id sid of
             None \<Rightarrow> Some (False, memo(sid \<mapsto> False))
           | Some step \<Rightarrow>
               (case behind_any fuel by_id waiting (sr_needs step) (memo(sid \<mapsto> False)) of
                  None \<Rightarrow> None
                | Some (behind, memo') \<Rightarrow> Some (behind, memo'(sid \<mapsto> behind)))))"
| "behind_any fuel by_id waiting [] memo = Some (False, memo)"
| "behind_any fuel by_id waiting (n # ns) memo =
     (if n \<in> waiting then Some (True, memo)
      else case by_id n of
        None \<Rightarrow> behind_any fuel by_id waiting ns memo
      | Some ns' \<Rightarrow>
          if step_is_terminal (sr_status ns') then behind_any fuel by_id waiting ns memo
          else (case behind_waiting_gate fuel by_id waiting (sr_step ns') memo of
                  None \<Rightarrow> None
                | Some (b, memo') \<Rightarrow>
                    if b then Some (True, memo') else behind_any fuel by_id waiting ns memo'))"
  by pat_completeness auto
termination
  by (relation "measures [\<lambda>x. case x of Inl (f, _) \<Rightarrow> f | Inr (f, _) \<Rightarrow> f,
                          \<lambda>x. case x of Inl _ \<Rightarrow> 0 | Inr (_, _, _, ns, _) \<Rightarrow> Suc (length ns)]") auto

definition waiting_gates :: "step_run list \<Rightarrow> step_id set" where
  "waiting_gates steps =
     set (map sr_step (filter (\<lambda>s. sr_status s = SPending
        \<and> list_all (\<lambda>n. map_option sr_status (by_id_map steps n) = Some SSucceeded) (sr_needs s)
        \<and> is_gate s) steps))"

fun suspend_scan ::
  "nat \<Rightarrow> (step_id \<rightharpoonup> step_run) \<Rightarrow> step_id set \<Rightarrow> step_run list \<Rightarrow> (step_id \<rightharpoonup> bool) \<Rightarrow> bool option" where
  "suspend_scan fuel by_id waiting [] memo = Some True"
| "suspend_scan fuel by_id waiting (s # ss) memo =
     (if step_is_terminal (sr_status s) \<or> sr_step s \<in> waiting
      then suspend_scan fuel by_id waiting ss memo
      else if sr_status s \<noteq> SPending then Some False
      else case behind_waiting_gate fuel by_id waiting (sr_step s) memo of
             None \<Rightarrow> None
           | Some (b, memo') \<Rightarrow>
               if b then suspend_scan fuel by_id waiting ss memo' else Some False)"

definition only_waits_outstanding :: "step_run list \<Rightarrow> bool" where
  "only_waits_outstanding steps =
     (waiting_gates steps \<noteq> {}
      \<and> suspend_scan (Suc (length steps)) (by_id_map steps) (waiting_gates steps) steps Map.empty
          = Some True)"

section \<open>The active-time meter\<close>

definition meter_event :: "event_kind \<Rightarrow> int \<times> int option \<Rightarrow> int \<times> int option" where
  "meter_event e m =
     (case ev_kind e of
        RunRerunRequested _ _ _ _ \<Rightarrow> (0, None)
      | RunTransitioned _ to \<Rightarrow>
          (if to = RRunning
           then (fst m, Some (case snd m of None \<Rightarrow> ev_at e | Some start \<Rightarrow> start))
           else (case snd m of None \<Rightarrow> m | Some start \<Rightarrow> (fst m + (ev_at e - start), None)))
      | _ \<Rightarrow> m)"

definition meter :: "event_kind list \<Rightarrow> int \<times> int option" where
  "meter events = foldl (\<lambda>m e. meter_event e m) (0, None) events"

definition active_ms :: "event_kind list \<Rightarrow> timestamp \<Rightarrow> int" where
  "active_ms events now =
     (case meter events of (ms, None) \<Rightarrow> ms | (ms, Some start) \<Rightarrow> ms + (now - start))"

definition run_budget_secs :: "json option \<Rightarrow> int option" where
  "run_budget_secs run_ir =
     map_option u64_as_i64 (Option.bind (Option.bind run_ir (json_get ''budget'')) json_as_u64)"

definition budget_exhausted :: "event_kind list \<Rightarrow> int \<Rightarrow> timestamp \<Rightarrow> bool" where
  "budget_exhausted events budget_secs now \<longleftrightarrow>
     \<not> active_ms events now < saturating_mul budget_secs 1000"

section \<open>The suspend predicate is exact\<close>

text \<open>The search returns with fuel for one more call than there are steps still to memoise.\<close>

lemma behind_waiting_gate_total:
  assumes "finite (dom by_id)"
  shows "card (dom by_id - dom memo) < fuel \<Longrightarrow>
      \<exists>b m. behind_waiting_gate fuel by_id W sid memo = Some (b, m) \<and> dom memo \<subseteq> dom m"
    and "card (dom by_id - dom memo) < fuel \<Longrightarrow>
      \<exists>b m. behind_any fuel by_id W ns memo = Some (b, m) \<and> dom memo \<subseteq> dom m"
  using assms
proof (induction fuel by_id W sid memo and fuel by_id W ns memo
    rule: behind_waiting_gate_behind_any.induct)
  case (2 fuel by_id W sid memo)
  show ?case
  proof (cases "memo sid")
    case None
    show ?thesis
    proof (cases "by_id sid")
      case (Some st)
      have "dom by_id - dom (memo(sid \<mapsto> False)) \<subset> dom by_id - dom memo"
        using None Some by auto
      then have "card (dom by_id - dom (memo(sid \<mapsto> False))) < card (dom by_id - dom memo)"
        using "2.prems"(2) by (simp add: psubset_card_mono)
      then have "card (dom by_id - dom (memo(sid \<mapsto> False))) < fuel" using "2.prems"(1) by simp
      then obtain b m where "behind_any fuel by_id W (sr_needs st) (memo(sid \<mapsto> False)) = Some (b, m)"
        and "dom (memo(sid \<mapsto> False)) \<subseteq> dom m"
        using "2.IH" [OF None Some] "2.prems"(2) by blast
      then show ?thesis using None Some by auto
    qed (use None in auto)
  qed auto
next
  case (4 fuel by_id W n ns memo)
  show ?case
  proof (cases "n \<in> W")
    case False
    show ?thesis
    proof (cases "by_id n")
      case None
      then show ?thesis using "4.IH"(1) [OF False None] "4.prems" False by simp
    next
      case (Some st)
      show ?thesis
      proof (cases "step_is_terminal (sr_status st)")
        case True
        then show ?thesis using "4.IH"(2) [OF False Some True] "4.prems" False Some by simp
      next
        case nt: False
        obtain b m where bw: "behind_waiting_gate fuel by_id W (sr_step st) memo = Some (b, m)"
          and grow: "dom memo \<subseteq> dom m"
          using "4.IH"(3) [OF False Some nt] "4.prems" by blast
        have "card (dom by_id - dom m) \<le> card (dom by_id - dom memo)"
          using grow "4.prems"(2) by (intro card_mono) auto
        then have "card (dom by_id - dom m) < fuel" using "4.prems"(1) by simp
        then have "\<not> b \<Longrightarrow> \<exists>b' m'. behind_any fuel by_id W ns m = Some (b', m') \<and> dom m \<subseteq> dom m'"
          using "4.IH"(4) [OF False Some nt bw refl] "4.prems"(2) by blast
        then show ?thesis using False Some nt bw grow by (cases b) auto
      qed
    qed
  qed auto
qed auto

text \<open>The specification: a step is behind a wait when one of its needs is a waiting gate, or an
  unfinished step that is itself behind one.\<close>

inductive behind_wait :: "(step_id \<rightharpoonup> step_run) \<Rightarrow> step_id set \<Rightarrow> step_id \<Rightarrow> bool"
  for by_id W where
  direct: "by_id x = Some s \<Longrightarrow> n \<in> set (sr_needs s) \<Longrightarrow> n \<in> W \<Longrightarrow> behind_wait by_id W x"
| through: "by_id x = Some s \<Longrightarrow> n \<in> set (sr_needs s) \<Longrightarrow> by_id n = Some t
    \<Longrightarrow> \<not> step_is_terminal (sr_status t) \<Longrightarrow> behind_wait by_id W n \<Longrightarrow> behind_wait by_id W x"

inductive_cases behind_waitE: "behind_wait by_id W x"

definition need_behind :: "(step_id \<rightharpoonup> step_run) \<Rightarrow> step_id set \<Rightarrow> step_id \<Rightarrow> bool" where
  "need_behind by_id W n \<longleftrightarrow> n \<in> W \<or>
     (\<exists>t. by_id n = Some t \<and> \<not> step_is_terminal (sr_status t) \<and> behind_wait by_id W n)"

lemma behind_wait_need:
  "by_id x = Some s \<Longrightarrow> behind_wait by_id W x \<longleftrightarrow> (\<exists>n \<in> set (sr_needs s). need_behind by_id W n)"
  by (subst behind_wait.simps) (auto simp: need_behind_def)

definition map_edge :: "(step_id \<rightharpoonup> step_run) \<Rightarrow> (step_id \<times> step_id) set" where
  "map_edge by_id = {(n, x). \<exists>s. by_id x = Some s \<and> n \<in> set (sr_needs s)}"

text \<open>The memo is right except at the ids whose search is under way.\<close>

definition memo_ok ::
  "(step_id \<rightharpoonup> step_run) \<Rightarrow> step_id set \<Rightarrow> step_id set \<Rightarrow> (step_id \<rightharpoonup> bool) \<Rightarrow> bool" where
  "memo_ok by_id W busy memo \<longleftrightarrow>
     (\<forall>x b. memo x = Some b \<and> x \<notin> busy \<longrightarrow> (b \<longleftrightarrow> behind_wait by_id W x))"

lemma behind_waiting_gate_exact:
  assumes "acyclic (map_edge by_id)" and "\<forall>n s. by_id n = Some s \<longrightarrow> sr_step s = n"
  shows "(\<forall>p \<in> busy. (sid, p) \<in> (map_edge by_id)\<^sup>+) \<Longrightarrow> memo_ok by_id W busy memo
      \<Longrightarrow> behind_waiting_gate fuel by_id W sid memo = Some (b, m)
      \<Longrightarrow> (b \<longleftrightarrow> behind_wait by_id W sid) \<and> memo_ok by_id W busy m"
    and "(\<forall>n \<in> set ns. \<forall>p \<in> busy. (n, p) \<in> (map_edge by_id)\<^sup>+) \<Longrightarrow> memo_ok by_id W busy memo
      \<Longrightarrow> behind_any fuel by_id W ns memo = Some (b, m)
      \<Longrightarrow> (b \<longleftrightarrow> (\<exists>n \<in> set ns. need_behind by_id W n)) \<and> memo_ok by_id W busy m"
  using assms
proof (induction fuel by_id W sid memo and fuel by_id W ns memo arbitrary: busy b m and busy b m
    rule: behind_waiting_gate_behind_any.induct)
  case (2 fuel by_id W sid memo)
  let ?R = "map_edge by_id"
  have idle: "sid \<notin> busy"
    using "2.prems"(1) \<open>acyclic ?R\<close> by (auto simp: acyclic_def)
  show ?case
  proof (cases "memo sid")
    case (Some b')
    then show ?thesis using "2.prems" idle by (auto simp: memo_ok_def)
  next
    case None
    show ?thesis
    proof (cases "by_id sid")
      case no: None
      then have "\<not> behind_wait by_id W sid" by (auto elim: behind_waitE)
      then show ?thesis using "2.prems" None no by (auto simp: memo_ok_def split: if_splits)
    next
      case (Some st)
      from "2.prems"(3) None Some obtain m' where
        any: "behind_any fuel by_id W (sr_needs st) (memo(sid \<mapsto> False)) = Some (b, m')"
        and m: "m = m'(sid \<mapsto> b)"
        by (auto split: option.splits)
      have stack: "\<forall>n \<in> set (sr_needs st). \<forall>p \<in> insert sid busy. (n, p) \<in> ?R\<^sup>+"
      proof (intro ballI)
        fix n p assume n: "n \<in> set (sr_needs st)" and p: "p \<in> insert sid busy"
        have e: "(n, sid) \<in> ?R" using n Some by (auto simp: map_edge_def)
        show "(n, p) \<in> ?R\<^sup>+"
          using p e "2.prems"(1) by (auto intro: r_into_trancl trancl_into_trancl2)
      qed
      have "memo_ok by_id W (insert sid busy) (memo(sid \<mapsto> False))"
        using "2.prems"(2) by (auto simp: memo_ok_def)
      with "2.IH" [OF None Some stack this any] "2.prems"(4,5)
      have "b \<longleftrightarrow> (\<exists>n \<in> set (sr_needs st). need_behind by_id W n)"
        and "memo_ok by_id W (insert sid busy) m'" by auto
      then show ?thesis using behind_wait_need [of by_id sid, OF Some] m by (auto simp: memo_ok_def)
    qed
  qed
next
  case (4 fuel by_id W n ns memo)
  have rest: "\<forall>n \<in> set ns. \<forall>p \<in> busy. (n, p) \<in> (map_edge by_id)\<^sup>+" using "4.prems"(1) by simp
  show ?case
  proof (cases "n \<in> W")
    case True
    then show ?thesis using "4.prems" by (auto simp: need_behind_def)
  next
    case False
    show ?thesis
    proof (cases "by_id n")
      case None
      then show ?thesis
        using "4.IH"(1) [OF False None rest "4.prems"(2)] "4.prems" False
        by (auto simp: need_behind_def)
    next
      case (Some st)
      show ?thesis
      proof (cases "step_is_terminal (sr_status st)")
        case True
        then show ?thesis
          using "4.IH"(2) [OF False Some True rest "4.prems"(2)] "4.prems" False Some
          by (auto simp: need_behind_def)
      next
        case nt: False
        have key: "sr_step st = n" using "4.prems"(5) Some by blast
        from "4.prems"(3) False Some nt obtain b1 m1 where
          bw: "behind_waiting_gate fuel by_id W (sr_step st) memo = Some (b1, m1)"
          by (auto split: option.splits)
        have st: "\<forall>p \<in> busy. (sr_step st, p) \<in> (map_edge by_id)\<^sup>+" using "4.prems"(1) key by simp
        have one: "b1 \<longleftrightarrow> behind_wait by_id W n" "memo_ok by_id W busy m1"
          using "4.IH"(3) [OF False Some nt st "4.prems"(2) bw] "4.prems"(4,5) key by auto
        show ?thesis
        proof (cases b1)
          case True
          then show ?thesis using "4.prems"(3) False Some nt bw one by (auto simp: need_behind_def)
        next
          case nb: False
          then have "behind_any fuel by_id W ns m1 = Some (b, m)"
            using "4.prems"(3) False Some nt bw by simp
          from "4.IH"(4) [OF False Some nt bw refl nb rest one(2) this] "4.prems"(4,5) one(1) nb False Some
          show ?thesis by (auto simp: need_behind_def)
        qed
      qed
    qed
  qed
qed auto

lemma suspend_scan_exact:
  assumes "finite (dom by_id)" "acyclic (map_edge by_id)" "\<forall>n s. by_id n = Some s \<longrightarrow> sr_step s = n"
    and "card (dom by_id) < fuel"
  shows "memo_ok by_id W {} memo \<Longrightarrow>
    suspend_scan fuel by_id W ss memo =
      Some (\<forall>s \<in> set ss. step_is_terminal (sr_status s) \<or> sr_step s \<in> W
             \<or> (sr_status s = SPending \<and> behind_wait by_id W (sr_step s)))"
proof (induction ss arbitrary: memo)
  case (Cons s ss)
  have "card (dom by_id - dom memo) \<le> card (dom by_id)" using assms(1) by (intro card_mono) auto
  then have "card (dom by_id - dom memo) < fuel" using assms(4) by simp
  then obtain b m where bw: "behind_waiting_gate fuel by_id W (sr_step s) memo = Some (b, m)"
    using behind_waiting_gate_total(1) [OF assms(1)] by blast
  from behind_waiting_gate_exact(1) [OF assms(2,3) _ Cons.prems bw]
  have "b \<longleftrightarrow> behind_wait by_id W (sr_step s)" "memo_ok by_id W {} m" by auto
  with Cons.IH [of m] Cons.IH [OF Cons.prems] bw show ?case by auto
qed simp

lemma by_id_map_iff:
  assumes "distinct (map sr_step steps)"
  shows "by_id_map steps x = Some s \<longleftrightarrow> s \<in> set steps \<and> sr_step s = x"
proof -
  have "distinct (map fst (rev (map (\<lambda>s. (sr_step s, s)) steps)))"
    using assms by (simp add: rev_map [symmetric] comp_def)
  then show ?thesis unfolding by_id_map_def
    by (subst map_of_eq_Some_iff) auto
qed

lemma map_edge_by_id:
  "distinct (map sr_step steps) \<Longrightarrow> map_edge (by_id_map steps) = needs_edge steps"
  by (auto simp: map_edge_def needs_edge_def by_id_map_iff)

lemma dom_by_id_map: "dom (by_id_map steps) = sr_step ` set steps"
  by (auto simp: by_id_map_def dom_map_of_conv_image_fst image_image)

lemma only_waits_outstanding_exact:
  assumes "distinct (map sr_step steps)" "acyclic (needs_edge steps)"
  shows "only_waits_outstanding steps \<longleftrightarrow> waiting_gates steps \<noteq> {}
    \<and> (\<forall>s \<in> set steps. step_is_terminal (sr_status s) \<or> sr_step s \<in> waiting_gates steps
         \<or> (sr_status s = SPending \<and> behind_wait (by_id_map steps) (waiting_gates steps) (sr_step s)))"
proof -
  have "card (dom (by_id_map steps)) < Suc (length steps)"
    unfolding dom_by_id_map using card_image_le [of "set steps" sr_step] card_length [of steps] by simp
  then show ?thesis
    unfolding only_waits_outstanding_def
    by (subst suspend_scan_exact)
       (use assms in \<open>auto simp: dom_by_id_map map_edge_by_id by_id_map_iff memo_ok_def\<close>)
qed

lemma waiting_gates_iff:
  assumes "distinct (map sr_step steps)" "s \<in> set steps"
  shows "sr_step s \<in> waiting_gates steps \<longleftrightarrow> sr_status s = SPending \<and> is_gate s \<and> gate_reached s steps"
proof -
  have same: "t = s" if "t \<in> set steps" "sr_step t = sr_step s" for t
    using that assms by (metis distinct_map inj_onD)
  have need: "(\<exists>t. by_id_map steps n = Some t \<and> sr_status t = SSucceeded)
      \<longleftrightarrow> (\<exists>t \<in> set steps. sr_step t = n \<and> sr_status t = SSucceeded)" for n
    using by_id_map_iff [OF assms(1)] by auto
  have "sr_step s \<in> waiting_gates steps \<longleftrightarrow> (\<exists>t \<in> set steps. sr_step t = sr_step s \<and>
      sr_status t = SPending \<and> is_gate t \<and> gate_reached t steps)"
    by (auto simp: waiting_gates_def gate_reached_def list_all_iff list_ex_iff need image_iff)
  then show ?thesis using same assms(2) by blast
qed

section \<open>The slice after the last re-arm\<close>

lemma after_last_snoc: "after_last P (xs @ [x]) = (if P x then [] else after_last P xs @ [x])"
  by (simp add: after_last_def)

lemma after_last_none: "x \<in> set (after_last P xs) \<Longrightarrow> \<not> P x"
  by (auto simp: after_last_def dest: set_takeWhileD)

lemma after_last_sub: "set (after_last P xs) \<subseteq> set xs"
  by (auto simp: after_last_def dest: set_takeWhileD)

lemma after_last_iff:
  "x \<in> set (after_last P xs) \<longleftrightarrow> (\<exists>as bs. xs = as @ x # bs \<and> \<not> P x \<and> (\<forall>y \<in> set bs. \<not> P y))"
proof (induction xs rule: rev_induct)
  case (snoc y ys)
  show ?case
  proof (cases "P y")
    case True
    then show ?thesis
      by (auto simp: after_last_snoc) (metis append_butlast_last_id append_is_Nil_conv butlast_append
          butlast.simps(2) last.simps last_appendR last_in_set list.distinct(1))
  next
    case False
    show ?thesis
    proof
      assume "x \<in> set (after_last P (ys @ [y]))"
      then consider "x = y" | "x \<in> set (after_last P ys)" using False by (auto simp: after_last_snoc)
      then show "\<exists>as bs. ys @ [y] = as @ x # bs \<and> \<not> P x \<and> (\<forall>y \<in> set bs. \<not> P y)"
      proof cases
        case 1
        then show ?thesis using False by (intro exI [of _ ys] exI [of _ "[]"]) simp
      next
        case 2
        then obtain as bs where "ys = as @ x # bs" "\<not> P x" "\<forall>y \<in> set bs. \<not> P y"
          using snoc.IH by blast
        then show ?thesis using False by (intro exI [of _ as] exI [of _ "bs @ [y]"]) auto
      qed
    next
      assume "\<exists>as bs. ys @ [y] = as @ x # bs \<and> \<not> P x \<and> (\<forall>y \<in> set bs. \<not> P y)"
      then obtain as bs where w: "ys @ [y] = as @ x # bs" "\<not> P x" "\<forall>y \<in> set bs. \<not> P y" by blast
      show "x \<in> set (after_last P (ys @ [y]))"
      proof (cases bs rule: rev_cases)
        case Nil
        then show ?thesis using w False by (simp add: after_last_snoc)
      next
        case (snoc cs c)
        then have "ys = as @ x # cs" using w(1) by simp
        with w snoc have "x \<in> set (after_last P ys)" using snoc.IH by auto
        then show ?thesis using False by (simp add: after_last_snoc)
      qed
    qed
  qed
qed (simp add: after_last_def)

section \<open>Approvals of the current wait\<close>

lemma collect_approvers_distinct: "distinct seen \<Longrightarrow> distinct (collect_approvers step es seen)"
proof (induction es arbitrary: seen)
  case (Cons e es)
  then show ?case by (cases "ev_kind e") auto
qed simp

lemma collect_approvers_set:
  "set (collect_approvers step es seen)
     = set seen \<union> {by. \<exists>e \<in> set es. ev_kind e = GateApproved step by}"
proof (induction es arbitrary: seen)
  case (Cons e es)
  then show ?case by (cases "ev_kind e") auto
qed simp

lemma collect_approvers_append:
  "collect_approvers step (xs @ ys) seen = collect_approvers step ys (collect_approvers step xs seen)"
  by (induction xs arbitrary: seen) auto

lemma current_wait_snoc:
  "current_wait (es @ [e]) step = (if is_gate_rearm (ev_kind e) step then [] else current_wait es step @ [e])"
  by (simp add: current_wait_def after_last_snoc)

lemma gate_approvers_rearm: "is_gate_rearm (ev_kind e) step \<Longrightarrow> gate_approvers (es @ [e]) step = []"
  by (simp add: gate_approvers_def current_wait_snoc)

lemma gate_approvers_approve:
  "ev_kind e = GateApproved step by \<Longrightarrow> gate_approvers (es @ [e]) step =
     (if by \<in> set (gate_approvers es step) then gate_approvers es step
      else gate_approvers es step @ [by])"
  by (simp add: gate_approvers_def current_wait_snoc is_gate_rearm_def collect_approvers_append)

lemma gate_approvers_member:
  "by \<in> set (gate_approvers es step) \<longleftrightarrow>
     (\<exists>xs e ys. es = xs @ e # ys \<and> ev_kind e = GateApproved step by
        \<and> (\<forall>r \<in> set ys. \<not> is_gate_rearm (ev_kind r) step))"
proof -
  have "by \<in> set (gate_approvers es step)
      \<longleftrightarrow> (\<exists>e \<in> set (current_wait es step). ev_kind e = GateApproved step by)"
    by (auto simp: gate_approvers_def collect_approvers_set)
  also have "\<dots> \<longleftrightarrow> (\<exists>xs e ys. es = xs @ e # ys \<and> ev_kind e = GateApproved step by
        \<and> (\<forall>r \<in> set ys. \<not> is_gate_rearm (ev_kind r) step))"
  proof -
    have "\<not> is_gate_rearm (GateApproved step by) step" by (simp add: is_gate_rearm_def)
    then show ?thesis unfolding current_wait_def Bex_def after_last_iff by fastforce
  qed
  finally show ?thesis .
qed

section \<open>The wait's clock\<close>

definition finishes_need :: "step_id \<Rightarrow> event_payload \<Rightarrow> bool" where
  "finishes_need n kind \<longleftrightarrow> passes_gate kind n \<or> (\<exists>from. kind = StepTransitioned n from SSucceeded)"

definition rearms_need :: "step_id \<Rightarrow> event_payload \<Rightarrow> bool" where
  "rearms_need n kind \<longleftrightarrow> (\<exists>from. kind = StepTransitioned n from SPending)"

definition finishes :: "event_kind list \<Rightarrow> step_id \<Rightarrow> event_kind list" where
  "finishes events n =
     filter (\<lambda>e. finishes_need n (ev_kind e)) (after_last (\<lambda>e. rearms_need n (ev_kind e)) events)"

definition latest :: "event_kind list \<Rightarrow> int option" where
  "latest es = (if es = [] then None else Some (Max (ev_at ` set es)))"

lemma latest_Nil [simp]: "latest [] = None"
  by (simp add: latest_def)

lemma latest_snoc: "latest (es @ [e]) = later (latest es) (ev_at e)"
  by (auto simp: latest_def later_def max.commute)

lemma finishes_snoc:
  "finishes (es @ [e]) n =
     (if rearms_need n (ev_kind e) then []
      else if finishes_need n (ev_kind e) then finishes es n @ [e] else finishes es n)"
  by (simp add: finishes_def after_last_snoc)

lemmas need_kind_defs = rearms_need_def finishes_need_def passes_gate_def

lemma set_finished_map:
  "set_finished k f (map (\<lambda>n. (n, g n)) ns) = map (\<lambda>n. (n, if n = k then f (g n) else g n)) ns"
  by (auto simp: set_finished_def)

lemma scan_finished_step:
  assumes "ws_finished w = map (\<lambda>n. (n, latest (finishes es n))) ns"
  shows "ws_finished (scan_event g e w) = map (\<lambda>n. (n, latest (finishes (es @ [e]) n))) ns"
  using assms
  by (cases "ev_kind e")
     (auto simp: scan_event_def finishes_snoc need_kind_defs set_finished_map latest_snoc Let_def)

lemma scan_finished:
  "ws_finished (wait_scan_of es gate) = map (\<lambda>n. (n, latest (finishes es n))) (sr_needs gate)"
proof (induction es rule: rev_induct)
  case Nil
  then show ?case
    by (simp add: wait_scan_of_def scan_init_def finishes_def after_last_def latest_def)
next
  case (snoc e es)
  from scan_finished_step [OF this] show ?case by (simp add: wait_scan_of_def)
qed

lemma scan_rearmed_step:
  "ws_rearmed (scan_event g e w) =
     (if is_gate_rearm (ev_kind e) g then later (ws_rearmed w) (ev_at e) else ws_rearmed w)"
  by (cases "ev_kind e") (auto simp: scan_event_def Let_def)

lemma scan_rearmed:
  "ws_rearmed (wait_scan_of es gate) =
     latest (filter (\<lambda>e. is_gate_rearm (ev_kind e) (sr_step gate)) es)"
proof (induction es rule: rev_induct)
  case (snoc e es)
  then show ?case by (simp add: wait_scan_of_def scan_rearmed_step latest_snoc)
qed (simp add: wait_scan_of_def scan_init_def latest_def)

lemma scan_first_running: "ws_first_running (wait_scan_of es gate) = Some t \<Longrightarrow> \<exists>e \<in> set es. ev_at e = t"
proof (induction es rule: rev_induct)
  case (snoc e es)
  have "ws_first_running (scan_event g e w) = Some t \<Longrightarrow> ws_first_running w = Some t \<or> ev_at e = t" for g w
    by (cases "ev_kind e") (auto simp: scan_event_def Let_def split: if_splits option.splits)
  with snoc show ?case by (auto simp: wait_scan_of_def)
qed (simp add: wait_scan_of_def scan_init_def)

lemma latest_ge: "e \<in> set es \<Longrightarrow> \<exists>t. latest es = Some t \<and> ev_at e \<le> t"
  by (auto simp: latest_def)

lemma latest_mem: "latest es = Some t \<Longrightarrow> \<exists>e \<in> set es. ev_at e = t"
proof -
  assume l: "latest es = Some t"
  then have "t = Max (ev_at ` set es)" "ev_at ` set es \<noteq> {}" by (auto simp: latest_def split: if_splits)
  then have "t \<in> ev_at ` set es" using Max_in [of "ev_at ` set es"] by simp
  then show ?thesis by auto
qed

lemma needs_finished_cases:
  assumes "sr_needs gate \<noteq> []"
  shows "needs_finished_at gate (wait_scan_of es gate) now =
    (if \<exists>n \<in> set (sr_needs gate). finishes es n = [] then Some now
     else Some (Max ((\<lambda>n. the (latest (finishes es n))) ` set (sr_needs gate))))"
  using assms
  by (auto simp: needs_finished_at_def scan_finished list_ex_iff latest_def image_image comp_def
      intro!: arg_cong [where f = Max])

lemma wait_from_needs:
  assumes "needs_finished_at gate (wait_scan_of es gate) now = Some t"
  shows "min t now \<le> wait_began_at es gate now"
  using assms by (auto simp: wait_began_at_def Let_def split: option.splits)

lemma wait_after_rearm:
  assumes "e \<in> set es" "is_gate_rearm (ev_kind e) (sr_step gate)"
  shows "min (ev_at e) now \<le> wait_began_at es gate now"
proof -
  from assms have "e \<in> set (filter (\<lambda>e. is_gate_rearm (ev_kind e) (sr_step gate)) es)" by simp
  from latest_ge [OF this] obtain t where "ws_rearmed (wait_scan_of es gate) = Some t" "ev_at e \<le> t"
    unfolding scan_rearmed by blast
  then show ?thesis by (auto simp: wait_began_at_def Let_def split: option.splits)
qed

lemma wait_after_need:
  assumes "n \<in> set (sr_needs gate)" "e \<in> set (finishes es n)"
  shows "min (ev_at e) now \<le> wait_began_at es gate now"
proof -
  have ne: "sr_needs gate \<noteq> []" using assms(1) by auto
  have "ev_at e \<le> the (latest (finishes es n))" using latest_ge [OF assms(2)] by auto
  also have "\<dots> \<le> Max ((\<lambda>n. the (latest (finishes es n))) ` set (sr_needs gate))"
    using assms(1) by simp
  finally show ?thesis
    using wait_from_needs [of gate es now] needs_finished_cases [OF ne, of es now]
    by (fastforce split: if_splits)
qed

lemma wait_unfinished_need:
  assumes "n \<in> set (sr_needs gate)" "finishes es n = []"
  shows "wait_began_at es gate now = now"
proof -
  have "sr_needs gate \<noteq> []" using assms(1) by auto
  with assms have "needs_finished_at gate (wait_scan_of es gate) now = Some now"
    by (auto simp: needs_finished_cases)
  then show ?thesis by (auto simp: wait_began_at_def Let_def split: option.splits)
qed

lemma wait_began_at_le: "wait_began_at es gate now \<le> now"
  by (simp add: wait_began_at_def Let_def)

lemma needs_finished_logged:
  assumes "needs_finished_at gate (wait_scan_of es gate) now = Some t"
  shows "t = now \<or> (\<exists>e \<in> set es. ev_at e = t)"
proof (cases "sr_needs gate = []")
  case True
  then show ?thesis using assms scan_first_running by (auto simp: needs_finished_at_def)
next
  case False
  show ?thesis
  proof (cases "\<exists>n \<in> set (sr_needs gate). finishes es n = []")
    case True
    then show ?thesis using assms needs_finished_cases [OF False, of es now] by simp
  next
    case all: False
    let ?f = "\<lambda>n. the (latest (finishes es n))"
    have "t = Max (?f ` set (sr_needs gate))"
      using assms needs_finished_cases [OF False, of es now] all by simp
    then have "t \<in> ?f ` set (sr_needs gate)" using Max_in [of "?f ` set (sr_needs gate)"] False by simp
    then obtain n where n: "n \<in> set (sr_needs gate)" "t = ?f n" by blast
    then have "latest (finishes es n) = Some t" using all by (auto simp: latest_def)
    from latest_mem [OF this] obtain e where "e \<in> set (finishes es n)" "ev_at e = t" by blast
    moreover have "set (finishes es n) \<subseteq> set es" using after_last_sub by (fastforce simp: finishes_def)
    ultimately show ?thesis by blast
  qed
qed

lemma wait_began_logged: "wait_began_at es gate now = now \<or> (\<exists>e \<in> set es. ev_at e = wait_began_at es gate now)"
proof -
  have r: "\<exists>e \<in> set es. ev_at e = t" if "ws_rearmed (wait_scan_of es gate) = Some t" for t
    using latest_mem that unfolding scan_rearmed by fastforce
  show ?thesis
    using needs_finished_logged [of gate es now] r
    by (auto simp: wait_began_at_def Let_def min_def max_def split: option.splits)
qed

section \<open>The meter\<close>

lemma meter_snoc: "meter (es @ [e]) = meter_event e (meter es)"
  by (simp add: meter_def)

lemma meter_rerun:
  assumes "ev_kind r = RunRerunRequested t ivd by w"
  shows "meter (xs @ r # ys) = meter ys"
  using assms by (simp add: meter_def meter_event_def)

lemma meter_bounds:
  assumes "sorted (map ev_at es)" "\<forall>e \<in> set es. t0 \<le> ev_at e" "\<forall>e \<in> set es. ev_at e \<le> now" "t0 \<le> now"
  shows "0 \<le> fst (meter es) \<and> (case snd (meter es) of
       None \<Rightarrow> fst (meter es) \<le> now - t0
     | Some s \<Rightarrow> s \<le> now \<and> fst (meter es) \<le> s - t0)"
  using assms
proof (induction es arbitrary: now rule: rev_induct)
  case Nil
  then show ?case by (simp add: meter_def)
next
  case (snoc e es)
  have pre: "\<forall>x \<in> set es. ev_at x \<le> ev_at e" using snoc.prems(1) by (auto simp: sorted_append)
  have "0 \<le> fst (meter es) \<and> (case snd (meter es) of
       None \<Rightarrow> fst (meter es) \<le> ev_at e - t0
     | Some s \<Rightarrow> s \<le> ev_at e \<and> fst (meter es) \<le> s - t0)"
    using snoc.prems pre by (intro snoc.IH) (auto simp: sorted_append)
  moreover have "t0 \<le> ev_at e" "ev_at e \<le> now" using snoc.prems by auto
  ultimately show ?case
    by (cases "ev_kind e"; cases "snd (meter es)") (auto simp: meter_snoc meter_event_def)
qed

lemma active_ms_running:
  "snd (meter es) = Some s \<Longrightarrow> active_ms es (now + d) = active_ms es now + d"
  "snd (meter es) = None \<Longrightarrow> active_ms es (now + d) = active_ms es now"
  by (auto simp: active_ms_def split: prod.splits option.splits)

lemma meter_no_transition:
  "\<forall>e \<in> set es. \<forall>from to. ev_kind e \<noteq> RunTransitioned from to \<Longrightarrow> meter es = (0, None)"
proof (induction es rule: rev_induct)
  case (snoc e es)
  then show ?case by (cases "ev_kind e") (auto simp: meter_snoc meter_event_def)
qed (simp add: meter_def)

text \<open>A rerun requested while the run is \<open>Running\<close> stops the meter: \<^verbatim>\<open>rearm_invalidation_set\<close>
  writes no \<open>RunTransitioned\<close> for a run that is not terminal, and the \<open>RunRerunRequested\<close> closed the
  open interval, so no time of the new take is billed until the run leaves and re-enters
  \<open>Running\<close>, and a positive budget is never exhausted.\<close>

lemma rerun_while_running_unbilled:
  assumes "ev_kind r = RunRerunRequested t ivd by w"
    and "\<forall>e \<in> set ys. \<forall>from to. ev_kind e \<noteq> RunTransitioned from to" and "0 < secs"
  shows "active_ms (xs @ r # ys) now = 0 \<and> \<not> budget_exhausted (xs @ r # ys) secs now"
proof -
  have z: "active_ms (xs @ r # ys) now = 0"
    using meter_rerun [OF assms(1)] meter_no_transition [OF assms(2)] by (simp add: active_ms_def)
  have "0 < saturating_mul secs 1000"
    using assms(3) by (auto simp: saturating_mul_def saturate_i64_def i64_min_def i64_max_def)
  with z show ?thesis by (simp add: budget_exhausted_def)
qed

section \<open>The decision\<close>

lemma expiry_verdict_iff:
  "expiry_verdict att settings now = None \<longleftrightarrow>
     (\<forall>secs. gs_expires_after_secs settings = Some secs \<longrightarrow> now < deadline (at_started_at att) secs)"
  by (auto simp: expiry_verdict_def split: option.splits)

lemma expiry_verdict_fails:
  "expiry_verdict att settings now = Some v \<Longrightarrow> \<not> gv_passed v \<and> gv_expired v"
  by (auto simp: expiry_verdict_def split: option.splits if_splits)

definition example_gate :: step_run where
  "example_gate = \<lparr>sr_run = ''r'', sr_step = ''soak'', sr_status = SPending, sr_attempts = [],
     sr_needs = [''build''], sr_gate_kind = Some ''timer''\<rparr>"

definition example_build :: step_run where
  "example_build = \<lparr>sr_run = ''r'', sr_step = ''build'', sr_status = SSucceeded, sr_attempts = [],
     sr_needs = [], sr_gate_kind = None\<rparr>"

definition example_deploy :: step_run where
  "example_deploy = \<lparr>sr_run = ''r'', sr_step = ''deploy'', sr_status = SPending, sr_attempts = [],
     sr_needs = [''soak''], sr_gate_kind = None\<rparr>"

section \<open>Properties\<close>

text \<open>A run suspends exactly when only gate waits are outstanding. For distinct step ids and
  acyclic needs the memoised search returns, and the predicate holds just when some gate waits and
  every other unfinished step is a \<open>Pending\<close> one transitively behind a waiting gate; a run that
  suspends has no step ready or running, and no plain step whose needs have all succeeded, so
  suspending holds back no work.\<close>

theorem suspend_exact:
  assumes "distinct (map sr_step steps)" "acyclic (needs_edge steps)"
  shows "(only_waits_outstanding steps \<longleftrightarrow>
      waiting_gates steps \<noteq> {}
      \<and> (\<forall>s \<in> set steps. step_is_terminal (sr_status s)
           \<or> (sr_status s = SPending \<and> is_gate s \<and> gate_reached s steps)
           \<or> (sr_status s = SPending \<and> behind_wait (by_id_map steps) (waiting_gates steps) (sr_step s))))
    \<and> (only_waits_outstanding steps \<longrightarrow>
      (\<forall>s \<in> set steps. sr_status s \<notin> {SReady, SRunning}
         \<and> \<not> (sr_status s = SPending \<and> \<not> is_gate s \<and> gate_reached s steps)))"
proof -
  have iff: "only_waits_outstanding steps \<longleftrightarrow>
      waiting_gates steps \<noteq> {}
      \<and> (\<forall>s \<in> set steps. step_is_terminal (sr_status s)
           \<or> (sr_status s = SPending \<and> is_gate s \<and> gate_reached s steps)
           \<or> (sr_status s = SPending \<and> behind_wait (by_id_map steps) (waiting_gates steps) (sr_step s)))"
    using only_waits_outstanding_exact [OF assms] waiting_gates_iff [OF assms(1)] by simp
  have held: "\<not> gate_reached s steps"
    if s: "s \<in> set steps" and b: "behind_wait (by_id_map steps) (waiting_gates steps) (sr_step s)" for s
  proof -
    have bs: "by_id_map steps (sr_step s) = Some s" using s by_id_map_iff [OF assms(1)] by simp
    from b obtain n where n: "n \<in> set (sr_needs s)" and nb: "need_behind (by_id_map steps) (waiting_gates steps) n"
      using behind_wait_need [of "by_id_map steps" "sr_step s", OF bs] by blast
    have "sr_status t \<noteq> SSucceeded" if t: "t \<in> set steps" "sr_step t = n" for t
    proof (cases "n \<in> waiting_gates steps")
      case True
      then show ?thesis using waiting_gates_iff [OF assms(1) t(1)] t(2) by simp
    next
      case False
      moreover have "by_id_map steps n = Some t" using t by_id_map_iff [OF assms(1)] by simp
      ultimately show ?thesis using nb by (auto simp: need_behind_def step_is_terminal_def)
    qed
    then show ?thesis using n by (auto simp: gate_reached_def list_all_iff list_ex_iff)
  qed
  show ?thesis unfolding iff using held by (auto simp: step_is_terminal_def)
qed

theorem suspend_exact_witness:
  "only_waits_outstanding [example_build, example_gate, example_deploy]
   \<and> sr_status example_deploy \<notin> {SReady, SRunning}"
proof -
  let ?s = "[example_build, example_gate, example_deploy]"
  let ?rank = "\<lambda>x. if x = ''build'' then 0 else if x = ''soak'' then 1 else (2::nat)"
  have d: "distinct (map sr_step ?s)"
    by (simp add: example_build_def example_gate_def example_deploy_def)
  have "needs_edge ?s \<subseteq> measure ?rank"
    by (auto simp: needs_edge_def example_build_def example_gate_def example_deploy_def)
  then have a: "acyclic (needs_edge ?s)"
    by (meson wf_acyclic wf_measure wf_subset)
  have o: "only_waits_outstanding ?s" by code_simp
  from suspend_exact [OF d a] o show ?thesis by simp
qed

text \<open>A wait is never shortened. The clock of a gate's wait starts no later than now, no
  earlier than the gate's latest re-arm and than any finish a need has recorded since that need
  was last re-armed; while a need has no such finish in the log the clock has not started; and
  the instant is now or one the log records.\<close>

theorem wait_never_shortened:
  "wait_began_at events gate now \<le> now
   \<and> (\<forall>e \<in> set events. is_gate_rearm (ev_kind e) (sr_step gate)
        \<longrightarrow> min (ev_at e) now \<le> wait_began_at events gate now)
   \<and> (\<forall>n \<in> set (sr_needs gate). \<forall>e \<in> set (finishes events n).
        min (ev_at e) now \<le> wait_began_at events gate now)
   \<and> (\<forall>n \<in> set (sr_needs gate). finishes events n = [] \<longrightarrow> wait_began_at events gate now = now)
   \<and> (wait_began_at events gate now = now \<or> wait_began_at events gate now \<in> ev_at ` set events)"
  using wait_began_at_le wait_after_rearm wait_after_need wait_unfinished_need
    wait_began_logged [of events gate now] by (intro conjI ballI impI) (simp_all, metis image_eqI)

theorem wait_never_shortened_witness:
  "wait_began_at [event ''r'' (StepTransitioned ''build'' SRunning SSucceeded) 70] example_gate 100 = 70
   \<and> (70 :: int) \<le> wait_began_at [event ''r'' (StepTransitioned ''build'' SRunning SSucceeded) 70] example_gate 100"
proof -
  let ?e = "event ''r'' (StepTransitioned ''build'' SRunning SSucceeded) 70"
  have f: "?e \<in> set (finishes [?e] ''build'')"
    by (simp add: finishes_def after_last_def rearms_need_def finishes_need_def)
  have n: "''build'' \<in> set (sr_needs example_gate)" by (simp add: example_gate_def)
  have "wait_began_at [?e] example_gate 100 = 70" by code_simp
  moreover have "min (ev_at ?e) 100 \<le> wait_began_at [?e] example_gate 100"
    using wait_never_shortened [of "[?e]" example_gate 100] f n by blast
  ultimately show ?thesis by simp
qed

text \<open>Approvals belong to one wait. The approvers of a gate are distinct, and a principal is
  among them exactly when the log holds their approval of that gate with no re-arm of it
  afterwards; so a re-arm empties the list, and an approval adds its principal at most once.\<close>

theorem approvals_of_current_wait:
  "distinct (gate_approvers events step)
   \<and> (\<forall>by. by \<in> set (gate_approvers events step) \<longleftrightarrow>
        (\<exists>xs e ys. events = xs @ e # ys \<and> ev_kind e = GateApproved step by
           \<and> (\<forall>r \<in> set ys. \<not> is_gate_rearm (ev_kind r) step)))
   \<and> (\<forall>r. is_gate_rearm (ev_kind r) step \<longrightarrow> gate_approvers (events @ [r]) step = [])
   \<and> (\<forall>a by. ev_kind a = GateApproved step by \<longrightarrow> gate_approvers (events @ [a]) step =
        (if by \<in> set (gate_approvers events step) then gate_approvers events step
         else gate_approvers events step @ [by]))"
proof (intro conjI allI impI)
  show "distinct (gate_approvers events step)"
    unfolding gate_approvers_def by (rule collect_approvers_distinct) simp
qed (rule gate_approvers_member, erule gate_approvers_rearm, erule gate_approvers_approve)

theorem approvals_of_current_wait_witness:
  "gate_approvers [event ''r'' (GateApproved ''ship'' ''ann'') 1,
     event ''r'' (AttemptSuperseded ''ship'' ''a1'' None) 2] ''ship'' = []"
proof -
  have "is_gate_rearm (ev_kind (event ''r'' (AttemptSuperseded ''ship'' ''a1'' None) 2)) ''ship''"
    by (simp add: is_gate_rearm_def)
  then show ?thesis
    using approvals_of_current_wait [of "[event ''r'' (GateApproved ''ship'' ''ann'') 1]" "''ship''"]
    by simp
qed

text \<open>The decision of a waiting gate is neither early nor overdue. A verdict that passes is a
  timer at or after its deadline or an approved manual gate at or after its release time; an
  expired verdict comes at or after the wait's own expiry; past its expiry a wait always has a
  verdict; and a timer due no later than its expiry passes, never expires.\<close>

theorem gate_verdict_timely:
  fixes timers gate att settings release now
  defines "v \<equiv> gate_verdict timers gate att settings release now"
  shows "(\<forall>d. v = Some d \<and> gv_passed d \<longrightarrow>
       (sr_gate_kind gate = Some ''timer''
          \<and> (\<exists>secs. timers (sr_step gate) = Some secs \<and> deadline (at_started_at att) secs \<le> now))
     \<or> (sr_gate_kind gate = Some ''manual'' \<and> (\<exists>at. release = Some at \<and> at \<le> now)))
   \<and> (\<forall>d. v = Some d \<and> gv_expired d \<longrightarrow>
       \<not> gv_passed d \<and> (\<exists>secs. gs_expires_after_secs settings = Some secs
                          \<and> deadline (at_started_at att) secs \<le> now))
   \<and> (\<forall>secs. gs_expires_after_secs settings = Some secs \<and> deadline (at_started_at att) secs \<le> now
        \<longrightarrow> v \<noteq> None)
   \<and> (\<forall>wait secs. sr_gate_kind gate = Some ''timer'' \<and> timers (sr_step gate) = Some wait
        \<and> gs_expires_after_secs settings = Some secs
        \<and> deadline (at_started_at att) wait \<le> deadline (at_started_at att) secs
        \<longrightarrow> (v = None \<or> (\<exists>d. v = Some d \<and> gv_passed d)))"
  unfolding v_def gate_verdict_def
  by (auto simp: expiry_verdict_def split: option.splits if_splits)

theorem gate_verdict_timely_witness:
  "\<exists>d. gate_verdict (\<lambda>_. Some 60) example_gate
       \<lparr>at_id = ''a1'', at_started_at = 1000, at_failure = None, at_failure_detail = None, at_outcome = AORunning\<rparr>
       \<lparr>gs_expires_after_secs = Some 60, gs_environment_approval = False\<rparr> None 61000 = Some d \<and> gv_passed d"
proof -
  let ?a = "\<lparr>at_id = ''a1'', at_started_at = 1000, at_failure = None, at_failure_detail = None, at_outcome = AORunning\<rparr>"
  let ?s = "\<lparr>gs_expires_after_secs = Some 60, gs_environment_approval = False\<rparr>"
  have due: "deadline (at_started_at ?a) 60 \<le> 61000" by code_simp
  have k: "sr_gate_kind example_gate = Some ''timer''" by (simp add: example_gate_def)
  from gate_verdict_timely [of "\<lambda>_. Some 60" example_gate ?a ?s None 61000] due k
  show ?thesis by (metis (no_types, lifting) gate_settings.select_convs(1) order_refl)
qed

text \<open>The budget bills active time of the current take and nothing else. The meter of a log
  advances one millisecond per millisecond while its last run transition is into \<open>Running\<close> and
  stands still otherwise; on a time-ordered log it lies between zero and the wall time since the
  log's first event; and a rerun discards what earlier takes spent.\<close>

theorem budget_bills_active_time:
  "(\<forall>d. active_ms events (now + d) = active_ms events now + (if snd (meter events) = None then 0 else d))
   \<and> (\<forall>t0. sorted (map ev_at events) \<and> (\<forall>e \<in> set events. t0 \<le> ev_at e \<and> ev_at e \<le> now) \<and> t0 \<le> now
        \<longrightarrow> 0 \<le> active_ms events now \<and> active_ms events now \<le> now - t0)
   \<and> (\<forall>xs r t ivd by w. ev_kind r = RunRerunRequested t ivd by w
        \<longrightarrow> active_ms (xs @ r # events) now = active_ms events now)"
proof (intro conjI allI impI)
  fix d
  show "active_ms events (now + d) = active_ms events now + (if snd (meter events) = None then 0 else d)"
    using active_ms_running [of events] by (cases "snd (meter events)") auto
next
  fix t0
  assume h: "sorted (map ev_at events) \<and> (\<forall>e \<in> set events. t0 \<le> ev_at e \<and> ev_at e \<le> now) \<and> t0 \<le> now"
  then have "0 \<le> fst (meter events) \<and> (case snd (meter events) of
       None \<Rightarrow> fst (meter events) \<le> now - t0
     | Some s \<Rightarrow> s \<le> now \<and> fst (meter events) \<le> s - t0)"
    by (intro meter_bounds) auto
  then show "0 \<le> active_ms events now" "active_ms events now \<le> now - t0"
    by (auto simp: active_ms_def split: prod.splits option.splits)
next
  fix xs t ivd pr w and r :: event_kind
  assume "ev_kind r = RunRerunRequested t ivd pr w"
  from meter_rerun [OF this] show "active_ms (xs @ r # events) now = active_ms events now"
    by (simp add: active_ms_def)
qed

theorem budget_bills_active_time_witness:
  "active_ms [event ''r'' (RunTransitioned RPending RRunning) 100,
     event ''r'' (RunTransitioned RRunning RSuspended) 130] 500 \<le> 400"
proof -
  let ?es = "[event ''r'' (RunTransitioned RPending RRunning) 100,
     event ''r'' (RunTransitioned RRunning RSuspended) 130]"
  have "sorted (map ev_at ?es) \<and> (\<forall>e \<in> set ?es. 100 \<le> ev_at e \<and> ev_at e \<le> 500) \<and> (100 :: int) \<le> 500" by simp
  with budget_bills_active_time [of ?es 500] have "active_ms ?es 500 \<le> 500 - 100" by blast
  then show ?thesis by simp
qed

end
