(* ===== verification/Store.thy ===== *)
theory Store
  imports Gate_Log Workspace_Inputs
begin

text \<open>
  The durable store behind the \<^verbatim>\<open>Db\<close> port, as its in-process implementation \<^verbatim>\<open>InMemoryDb\<close>
  (\<^verbatim>\<open>crates/scarab-testkit/src/lib.rs\<close>) keeps it: the event log, the run and step tables with
  optimistic concurrency on every transition, the attempts and the guard of their stamps, the
  transactional outbox with claims, the concurrency slots, the shared services and the leases
  whose terms fence a leader's writes. One call of the port is one critical section of the store's
  lock, so one function here. The fault injectors of the test kit (a poisoned run, a failing event
  append, a scripted race) are not part of the port and are left out; a race is a step of another
  actor in \<open>Interleaving\<close> instead. An \<^verbatim>\<open>Instant\<close> is the explicit argument \<open>now\<close>.
\<close>

section \<open>Tables\<close>

text \<open>\<open>ss_other\<close> holds the fields of \<^verbatim>\<open>StepSpec\<close> the engine core only hands on: secrets, privileges, placement,
  resources, sidecars, the matrix coordinate and the template scope.\<close>

record cache_config =
  cc_dirs :: "string list"
  cc_key_files :: "string list"
  cc_key :: "string option"
  cc_restore :: "(string \<times> string) list"
  cc_fallback_key :: "string option"

record step_spec =
  ss_image :: string
  ss_command :: "string list"
  ss_env :: "(string \<times> string) list"
  ss_timeout_seconds :: "nat option"
  ss_workspace_inputs :: "string list"
  ss_workspace_outputs :: "string list"
  ss_cache :: "cache_config option"
  ss_uses :: "string list"
  ss_other :: json

record artifact_meta =
  am_name :: string
  am_size :: nat
  am_content_type :: string
  am_object_key :: string

record artifact_record =
  ar_meta :: artifact_meta
  ar_step :: step_id
  ar_attempt :: attempt_id
  ar_succeeded :: bool
  ar_created_at :: timestamp

record step_rec =
  rc_status :: "step_status option"
  rc_spec :: "step_spec option"
  rc_needs :: "step_id list"
  rc_attempts :: "attempt list"
  rc_output :: "string option"
  rc_output_identity :: "string option"
  rc_results :: "(string \<times> json) list"
  rc_input :: "string option"
  rc_gate_kind :: "string option"
  rc_gate_timer_seconds :: "int option"
  rc_gate_releaser :: "string option"
  rc_explicit_inputs :: "step_id list option"
  rc_evidence_attempt :: "attempt_id option"

record attempt_evidence =
  av_output :: "string option"
  av_results :: "(string \<times> json) list"
  av_consumed :: "(string \<times> string) list"
  av_workspace_input_steps :: "step_id list option"

record outbox_entry =
  oe_msg :: outbox_message
  oe_claimed_until :: "int option"
  oe_claimed_by :: "string option"
  oe_dispatched :: bool
  oe_delivery_attempts :: nat
  oe_dead_lettered :: bool

record leader_term =
  lt_resource :: string
  lt_owner :: string
  lt_term :: int

record lease_rec =
  le_owner :: string
  le_expires_at :: int
  le_term :: int

type_synonym step_key = "run_id \<times> step_id"
type_synonym attempt_key = "run_id \<times> step_id \<times> attempt_id"

record store =
  st_events :: "event_kind list"
  st_runs :: "(run_id \<times> run_status) list"
  st_generations :: "run_id \<rightharpoonup> nat"
  st_ir :: "run_id \<rightharpoonup> json"
  st_steps :: "(step_key \<times> step_rec) list"
  st_outbox :: "outbox_entry list"
  st_handles :: "attempt_key \<rightharpoonup> string"
  st_concurrency :: "run_id \<rightharpoonup> string \<times> concurrency_policy"
  st_slots :: "string \<rightharpoonup> run_id"
  st_created :: "run_id \<rightharpoonup> timestamp"
  st_creating :: "run_id list"
  st_supersede_keys :: "(run_id \<times> string) list"
  st_project :: "run_id \<rightharpoonup> string"
  st_priority :: "run_id \<rightharpoonup> int"
  st_leases :: "string \<rightharpoonup> string \<times> int \<times> int"
  st_evidence :: "attempt_key \<rightharpoonup> attempt_evidence"
  st_gate_inputs :: "attempt_key \<rightharpoonup> json"
  st_services :: "((run_id \<times> int \<times> string) \<times> service_status \<times> string option \<times> timestamp) list"
  st_artifacts :: "(run_id \<times> string \<times> step_id \<times> attempt_id) \<rightharpoonup> artifact_record"
  st_cache_scope :: "run_id \<rightharpoonup> cache_scope"
  st_cache_entries :: "((string \<times> string \<times> string) \<times> string \<times> timestamp \<times> attempt_key) list"

definition empty_store :: store where
  "empty_store =
     \<lparr>st_events = [], st_runs = [], st_generations = Map.empty, st_ir = Map.empty, st_steps = [],
      st_outbox = [], st_handles = Map.empty, st_concurrency = Map.empty, st_slots = Map.empty,
      st_created = Map.empty, st_creating = [], st_supersede_keys = [], st_project = Map.empty,
      st_priority = Map.empty, st_leases = Map.empty, st_evidence = Map.empty,
      st_gate_inputs = Map.empty, st_services = [], st_artifacts = Map.empty, st_cache_scope = Map.empty,
      st_cache_entries = []\<rparr>"

abbreviation step_of :: "store \<Rightarrow> run_id \<Rightarrow> step_id \<Rightarrow> step_rec option" where
  "step_of st run step \<equiv> al_get (st_steps st) (run, step)"

definition put_step :: "run_id \<Rightarrow> step_id \<Rightarrow> step_rec \<Rightarrow> store \<Rightarrow> store" where
  "put_step run step rec st = st\<lparr>st_steps := al_put (run, step) rec (st_steps st)\<rparr>"

section \<open>Attempt order\<close>

definition strip_a :: "string \<Rightarrow> string option" where
  "strip_a s = (case s of c # cs \<Rightarrow> if c = CHR ''a'' then Some cs else None | [] \<Rightarrow> None)"

definition attempt_number :: "attempt \<Rightarrow> nat" where
  "attempt_number a =
     (case Option.bind (strip_a (at_id a)) parse_u64 of Some n \<Rightarrow> n | None \<Rightarrow> 0)"

definition attempt_order_key :: "attempt \<Rightarrow> nat" where
  "attempt_order_key a =
     (case Option.bind (strip_a (at_id a)) parse_u64 of Some n \<Rightarrow> n | None \<Rightarrow> u64_bound - 1)"

definition attempt_name :: "nat \<Rightarrow> attempt_id" where
  "attempt_name n = CHR ''a'' # nat_str n"

definition next_attempt :: "attempt list \<Rightarrow> attempt_id" where
  "next_attempt as = attempt_name (foldl max 0 (map attempt_number as) + 1)"

definition sorted_attempts :: "attempt list \<Rightarrow> attempt list" where
  "sorted_attempts as = sort_key attempt_order_key as"

text \<open>\<^verbatim>\<open>Iterator::max_by_key\<close>: the last element among those with the greatest key.\<close>

fun max_by_key :: "('a \<Rightarrow> nat) \<Rightarrow> 'a list \<Rightarrow> 'a option" where
  "max_by_key f [] = None"
| "max_by_key f (x # xs) =
     (case max_by_key f xs of None \<Rightarrow> Some x | Some y \<Rightarrow> if f x \<le> f y then Some y else Some x)"

definition latest_attempt :: "step_rec \<Rightarrow> attempt_id option" where
  "latest_attempt rec = map_option at_id (max_by_key attempt_order_key (rc_attempts rec))"

section \<open>Leader fence\<close>

definition holds_leader_term :: "store \<Rightarrow> leader_term \<Rightarrow> bool" where
  "holds_leader_term st leader =
     (case st_leases st (lt_resource leader) of
        Some (owner, _, trm) \<Rightarrow> owner = lt_owner leader \<and> trm = lt_term leader
      | None \<Rightarrow> False)"

definition holds_leader_term_if :: "store \<Rightarrow> leader_term option \<Rightarrow> bool" where
  "holds_leader_term_if st leader =
     (case leader of None \<Rightarrow> True | Some l \<Rightarrow> holds_leader_term st l)"

text \<open>A fenced write checks the term inside its own transaction.\<close>

definition fenced :: "leader_term option \<Rightarrow> (store, db_error, 'a) prog \<Rightarrow> (store, db_error, 'a) prog" where
  "fenced leader m st = (if holds_leader_term_if st leader then m st else (Inl NotLeader, st))"

definition held_by :: "lease_rec \<Rightarrow> string \<Rightarrow> string \<Rightarrow> leader_term option" where
  "held_by l resource owner =
     (if le_owner l = owner
      then Some \<lparr>lt_resource = resource, lt_owner = owner, lt_term = le_term l\<rparr> else None)"

definition lease :: "int \<Rightarrow> string \<Rightarrow> string \<Rightarrow> int \<Rightarrow> (store, db_error, lease_rec) prog" where
  "lease now resource owner ttl_ms st =
     (let ttl = max 0 ttl_ms;
          grant = (\<lambda>holder trm.
            (Inr \<lparr>le_owner = holder, le_expires_at = ttl_ms, le_term = trm\<rparr>,
             st\<lparr>st_leases := (st_leases st)(resource \<mapsto> (holder, now + ttl, trm))\<rparr>))
      in case st_leases st resource of
           None \<Rightarrow> grant owner 1
         | Some (holder, expires, trm) \<Rightarrow>
             if holder = owner then grant holder trm
             else if now < expires
             then (Inr \<lparr>le_owner = holder, le_expires_at = ttl_ms, le_term = trm\<rparr>, st)
             else grant owner (trm + 1))"

section \<open>The outbox\<close>

definition enqueue_outbox :: "outbox_message \<Rightarrow> store \<Rightarrow> store" where
  "enqueue_outbox msg st =
     (if list_ex (\<lambda>e. om_idempotency_key (oe_msg e) = om_idempotency_key msg) (st_outbox st) then st
      else st\<lparr>st_outbox := st_outbox st @
             [\<lparr>oe_msg = msg\<lparr>om_id := int (length (st_outbox st)) + 1\<rparr>, oe_claimed_until = None,
               oe_claimed_by = None, oe_dispatched = False, oe_delivery_attempts = 0,
               oe_dead_lettered = False\<rparr>]\<rparr>)"

definition enqueue_all :: "outbox_message list \<Rightarrow> store \<Rightarrow> store" where
  "enqueue_all msgs st = foldl (\<lambda>s m. enqueue_outbox m s) st msgs"

definition claimable :: "int \<Rightarrow> string option \<Rightarrow> outbox_entry \<Rightarrow> bool" where
  "claimable now kind e \<longleftrightarrow>
     \<not> oe_dispatched e \<and> \<not> oe_dead_lettered e
     \<and> (case oe_claimed_until e of None \<Rightarrow> True | Some until \<Rightarrow> until \<le> now)
     \<and> (case kind of None \<Rightarrow> True | Some k \<Rightarrow> om_kind (oe_msg e) = k)"

fun claim_entries ::
  "int \<Rightarrow> string \<Rightarrow> string option \<Rightarrow> nat \<Rightarrow> int \<Rightarrow> outbox_entry list
     \<Rightarrow> outbox_message list \<times> outbox_entry list" where
  "claim_entries now owner kind limit visibility_ms [] = ([], [])"
| "claim_entries now owner kind limit visibility_ms (e # es) =
     (if limit = 0 then ([], e # es)
      else if claimable now kind e
      then (case claim_entries now owner kind (limit - 1) visibility_ms es of
              (ms, es') \<Rightarrow> (oe_msg e # ms,
                e\<lparr>oe_claimed_until := Some (now + max 0 visibility_ms), oe_claimed_by := Some owner\<rparr> # es'))
      else (case claim_entries now owner kind limit visibility_ms es of (ms, es') \<Rightarrow> (ms, e # es')))"

definition claim_outbox ::
  "int \<Rightarrow> string \<Rightarrow> string option \<Rightarrow> nat \<Rightarrow> int \<Rightarrow> (store, db_error, outbox_message list) prog" where
  "claim_outbox now owner kind limit visibility_ms st =
     (case claim_entries now owner kind limit visibility_ms (st_outbox st) of
        (ms, es) \<Rightarrow> (Inr ms, st\<lparr>st_outbox := es\<rparr>))"

fun update_first :: "('a \<Rightarrow> bool) \<Rightarrow> ('a \<Rightarrow> 'a) \<Rightarrow> 'a list \<Rightarrow> 'a list" where
  "update_first P f [] = []"
| "update_first P f (x # xs) = (if P x then f x # xs else x # update_first P f xs)"

definition find_entry :: "int \<Rightarrow> store \<Rightarrow> outbox_entry option" where
  "find_entry oid st = List.find (\<lambda>e. om_id (oe_msg e) = oid) (st_outbox st)"

definition renew_outbox_claim :: "int \<Rightarrow> int \<Rightarrow> string \<Rightarrow> int \<Rightarrow> (store, db_error, bool) prog" where
  "renew_outbox_claim now oid owner visibility_ms st =
     (case find_entry oid st of
        None \<Rightarrow> (Inr False, st)
      | Some e \<Rightarrow>
          if oe_dispatched e \<or> oe_dead_lettered e \<or> oe_claimed_by e \<noteq> Some owner then (Inr False, st)
          else (Inr True, st\<lparr>st_outbox := update_first (\<lambda>e. om_id (oe_msg e) = oid)
                  (\<lambda>e. e\<lparr>oe_claimed_until := Some (now + max 0 visibility_ms)\<rparr>) (st_outbox st)\<rparr>))"

definition mark_dispatched :: "int \<Rightarrow> store \<Rightarrow> store" where
  "mark_dispatched oid st =
     st\<lparr>st_outbox := update_first (\<lambda>e. om_id (oe_msg e) = oid) (\<lambda>e. e\<lparr>oe_dispatched := True\<rparr>) (st_outbox st)\<rparr>"

definition dead_letter_outbox :: "int \<Rightarrow> store \<Rightarrow> store" where
  "dead_letter_outbox oid st =
     st\<lparr>st_outbox := update_first (\<lambda>e. om_id (oe_msg e) = oid) (\<lambda>e. e\<lparr>oe_dead_lettered := True\<rparr>) (st_outbox st)\<rparr>"

definition record_outbox_failure :: "int \<Rightarrow> (store, db_error, nat) prog" where
  "record_outbox_failure oid st =
     (case find_entry oid st of
        None \<Rightarrow> (Inr 0, st)
      | Some e \<Rightarrow> (Inr (oe_delivery_attempts e + 1),
          st\<lparr>st_outbox := update_first (\<lambda>e. om_id (oe_msg e) = oid)
               (\<lambda>e. e\<lparr>oe_delivery_attempts := oe_delivery_attempts e + 1\<rparr>) (st_outbox st)\<rparr>))"

definition outbox_key_pending :: "string \<Rightarrow> store \<Rightarrow> bool" where
  "outbox_key_pending key st =
     list_ex (\<lambda>e. om_idempotency_key (oe_msg e) = key \<and> \<not> oe_dispatched e \<and> \<not> oe_dead_lettered e)
       (st_outbox st)"

section \<open>Reads\<close>

definition run_status_of :: "run_id \<Rightarrow> store \<Rightarrow> run_status option" where
  "run_status_of run st = al_get (st_runs st) run"

definition run_reopen_generation :: "run_id \<Rightarrow> store \<Rightarrow> nat" where
  "run_reopen_generation run st = (case st_generations st run of Some g \<Rightarrow> g | None \<Rightarrow> 0)"

definition events_of :: "run_id \<Rightarrow> store \<Rightarrow> event_kind list" where
  "events_of run st = filter (\<lambda>e. ev_run e = run) (st_events st)"

definition step_run_of :: "step_key \<Rightarrow> step_status \<Rightarrow> step_rec \<Rightarrow> step_run" where
  "step_run_of key status rec =
     \<lparr>sr_run = fst key, sr_step = snd key, sr_status = status,
      sr_attempts = sorted_attempts (rc_attempts rec), sr_needs = rc_needs rec,
      sr_gate_kind = rc_gate_kind rec\<rparr>"

definition steps_of_run :: "run_id \<Rightarrow> store \<Rightarrow> step_run list" where
  "steps_of_run run st =
     sort_key sr_step
       (List.map_filter (\<lambda>(key, rec). if fst key = run
            then map_option (\<lambda>status. step_run_of key status rec) (rc_status rec) else None)
          (st_steps st))"

definition attempts_of_step :: "run_id \<Rightarrow> step_id \<Rightarrow> store \<Rightarrow> attempt list" where
  "attempts_of_step run step st =
     (case step_of st run step of None \<Rightarrow> [] | Some rec \<Rightarrow> sorted_attempts (rc_attempts rec))"

definition step_output_of :: "run_id \<Rightarrow> step_id \<Rightarrow> store \<Rightarrow> string option" where
  "step_output_of run step st = Option.bind (step_of st run step) rc_output"

definition step_output_identity :: "run_id \<Rightarrow> step_id \<Rightarrow> store \<Rightarrow> string option" where
  "step_output_identity run step st =
     Option.bind (step_of st run step)
       (\<lambda>r. case rc_output_identity r of Some i \<Rightarrow> Some i | None \<Rightarrow> rc_output r)"

definition step_inputs_of :: "run_id \<Rightarrow> step_id \<Rightarrow> store \<Rightarrow> step_id list option" where
  "step_inputs_of run step st = Option.bind (step_of st run step) rc_explicit_inputs"

definition active_runs :: "store \<Rightarrow> run_id list" where
  "active_runs st =
     (let dflt = (\<lambda>m r. case m r of Some x \<Rightarrow> x | None \<Rightarrow> (0::int)) in
      sort_key (\<lambda>r. - dflt (st_priority st) r)
        (sort_key (\<lambda>r. dflt (st_created st) r)
          (sort (map fst (filter (\<lambda>(r, s). \<not> run_is_terminal s \<and> r \<notin> set (st_creating st))
             (st_runs st))))))"

definition run_services :: "run_id \<Rightarrow> store \<Rightarrow> run_service list" where
  "run_services run st =
     sort_key sv_name (sort_key sv_take
       (List.map_filter (\<lambda>((r, tk, name), (status, handle, created)).
          if r = run then Some \<lparr>sv_run = r, sv_take = tk, sv_name = name, sv_status = status,
                                sv_handle = handle, sv_created_at = created\<rparr> else None)
        (st_services st)))"

definition unfinished_creations_before :: "timestamp \<Rightarrow> store \<Rightarrow> run_id list" where
  "unfinished_creations_before created_before st =
     (let at = (\<lambda>r. case st_created st r of Some t \<Rightarrow> t | None \<Rightarrow> 0) in
      sort_key at (sort (filter (\<lambda>r. al_get (st_runs st) r = Some RPending
          \<and> st_created st r \<noteq> None \<and> at r < created_before) (st_creating st))))"

definition superseded_by :: "run_id \<Rightarrow> store \<Rightarrow> run_id list" where
  "superseded_by run st =
     (let at = (\<lambda>r. case st_created st r of Some t \<Rightarrow> t | None \<Rightarrow> 0) in
      case al_get (st_supersede_keys st) run of
        None \<Rightarrow> []
      | Some key \<Rightarrow>
          sort (map fst (filter (\<lambda>(r, k). r \<noteq> run \<and> k = key \<and> at r < at run
             \<and> (case al_get (st_runs st) r of Some s \<Rightarrow> \<not> run_is_terminal s | None \<Rightarrow> False))
            (st_supersede_keys st))))"

definition count_in_flight_runs :: "string option \<Rightarrow> store \<Rightarrow> nat" where
  "count_in_flight_runs project st =
     length (filter (\<lambda>(r, s). s \<in> {RRunning, RSuspended}
        \<and> (case project of None \<Rightarrow> True | Some p \<Rightarrow> st_project st r = Some p)) (st_runs st))"

definition count_running_runs :: "string \<Rightarrow> store \<Rightarrow> nat" where
  "count_running_runs project st =
     length (filter (\<lambda>(r, s). s = RRunning \<and> st_project st r = Some project) (st_runs st))"

section \<open>Run and step creation\<close>

definition create_run :: "run_id \<Rightarrow> timestamp \<Rightarrow> store \<Rightarrow> store" where
  "create_run run at st =
     st\<lparr>st_runs := al_put run RPending (st_runs st), st_created := (st_created st)(run \<mapsto> at)\<rparr>"

definition begin_run_creation :: "run_id \<Rightarrow> timestamp \<Rightarrow> store \<Rightarrow> store" where
  "begin_run_creation run at st =
     (let st' = create_run run at st in st'\<lparr>st_creating := List.insert run (st_creating st')\<rparr>)"

definition finish_run_creation :: "run_id \<Rightarrow> store \<Rightarrow> store" where
  "finish_run_creation run st = st\<lparr>st_creating := filter (\<lambda>r. r \<noteq> run) (st_creating st)\<rparr>"

definition run_creation_unfinished :: "run_id \<Rightarrow> store \<Rightarrow> bool" where
  "run_creation_unfinished run st \<longleftrightarrow> run \<in> set (st_creating st)"

definition set_run_concurrency :: "run_id \<Rightarrow> string \<Rightarrow> concurrency_policy \<Rightarrow> store \<Rightarrow> store" where
  "set_run_concurrency run grp policy st = st\<lparr>st_concurrency := (st_concurrency st)(run \<mapsto> (grp, policy))\<rparr>"

definition set_supersede_key :: "run_id \<Rightarrow> string \<Rightarrow> store \<Rightarrow> store" where
  "set_supersede_key run key st = st\<lparr>st_supersede_keys := al_put run key (st_supersede_keys st)\<rparr>"

definition set_run_scheduling :: "run_id \<Rightarrow> string \<Rightarrow> int \<Rightarrow> store \<Rightarrow> store" where
  "set_run_scheduling run project priority st =
     st\<lparr>st_project := (st_project st)(run \<mapsto> project), st_priority := (st_priority st)(run \<mapsto> priority)\<rparr>"

definition store_run_ir :: "run_id \<Rightarrow> json \<Rightarrow> store \<Rightarrow> store" where
  "store_run_ir run ir st = st\<lparr>st_ir := (st_ir st)(run \<mapsto> ir)\<rparr>"

definition new_step_rec :: "step_spec option \<Rightarrow> step_id list \<Rightarrow> step_rec" where
  "new_step_rec spec needs =
     \<lparr>rc_status = Some SPending, rc_spec = spec, rc_needs = needs, rc_attempts = [],
      rc_output = None, rc_output_identity = None, rc_results = [], rc_input = None,
      rc_gate_kind = None, rc_gate_timer_seconds = None, rc_gate_releaser = None,
      rc_explicit_inputs = None, rc_evidence_attempt = None\<rparr>"

definition create_step_run ::
  "run_id \<Rightarrow> step_id \<Rightarrow> step_spec option \<Rightarrow> step_id list \<Rightarrow> store \<Rightarrow> store" where
  "create_step_run run step spec needs st = put_step run step (new_step_rec spec needs) st"

text \<open>The setters that find no row do nothing.\<close>

definition modify_step :: "run_id \<Rightarrow> step_id \<Rightarrow> (step_rec \<Rightarrow> step_rec) \<Rightarrow> store \<Rightarrow> store" where
  "modify_step run step f st =
     (case step_of st run step of None \<Rightarrow> st | Some rec \<Rightarrow> put_step run step (f rec) st)"

definition set_step_gate :: "run_id \<Rightarrow> step_id \<Rightarrow> string \<Rightarrow> int option \<Rightarrow> store \<Rightarrow> store" where
  "set_step_gate run step kind timer_seconds =
     modify_step run step (\<lambda>r. r\<lparr>rc_gate_kind := Some kind, rc_gate_timer_seconds := timer_seconds\<rparr>)"

definition set_gate_releaser :: "run_id \<Rightarrow> step_id \<Rightarrow> string \<Rightarrow> store \<Rightarrow> store" where
  "set_gate_releaser run step releaser = modify_step run step (\<lambda>r. r\<lparr>rc_gate_releaser := Some releaser\<rparr>)"

definition set_step_input :: "run_id \<Rightarrow> step_id \<Rightarrow> string option \<Rightarrow> store \<Rightarrow> store" where
  "set_step_input run step signature = modify_step run step (\<lambda>r. r\<lparr>rc_input := signature\<rparr>)"

definition set_step_inputs :: "run_id \<Rightarrow> step_id \<Rightarrow> step_id list \<Rightarrow> store \<Rightarrow> store" where
  "set_step_inputs run step inputs = modify_step run step (\<lambda>r. r\<lparr>rc_explicit_inputs := Some inputs\<rparr>)"

section \<open>Evidence\<close>

definition empty_evidence :: attempt_evidence where
  "empty_evidence = \<lparr>av_output = None, av_results = [], av_consumed = [], av_workspace_input_steps = None\<rparr>"

definition modify_evidence ::
  "attempt_key \<Rightarrow> (attempt_evidence \<Rightarrow> attempt_evidence) \<Rightarrow> store \<Rightarrow> store" where
  "modify_evidence key f st =
     st\<lparr>st_evidence := (st_evidence st)(key \<mapsto>
        f (case st_evidence st key of Some e \<Rightarrow> e | None \<Rightarrow> empty_evidence))\<rparr>"

definition set_step_output ::
  "run_id \<Rightarrow> step_id \<Rightarrow> attempt_id \<Rightarrow> string \<Rightarrow> string option \<Rightarrow> store \<Rightarrow> db_error + store" where
  "set_step_output run step att snapshot identity st =
     (case step_of st run step of
        None \<Rightarrow> Inl Conflict
      | Some rec \<Rightarrow> Inr (modify_evidence (run, step, att) (\<lambda>e. e\<lparr>av_output := Some snapshot\<rparr>)
          (put_step run step (rec\<lparr>rc_output := Some snapshot, rc_output_identity := identity,
             rc_evidence_attempt := Some att\<rparr>) st)))"

definition write_results ::
  "run_id \<Rightarrow> step_id \<Rightarrow> attempt_id \<Rightarrow> (string \<times> json) list \<Rightarrow> step_rec \<Rightarrow> store \<Rightarrow> store" where
  "write_results run step att results rec st =
     modify_evidence (run, step, att) (\<lambda>e. e\<lparr>av_results := results\<rparr>)
       (put_step run step (rec\<lparr>rc_results := results, rc_evidence_attempt := Some att\<rparr>) st)"

definition set_step_results ::
  "run_id \<Rightarrow> step_id \<Rightarrow> attempt_id \<Rightarrow> (string \<times> json) list \<Rightarrow> store \<Rightarrow> db_error + store" where
  "set_step_results run step att results st =
     (case step_of st run step of
        None \<Rightarrow> Inl Conflict
      | Some rec \<Rightarrow> Inr (write_results run step att results rec st))"

definition ingest_attempt_results ::
  "run_id \<Rightarrow> step_id \<Rightarrow> attempt_id \<Rightarrow> (string \<times> json) list \<Rightarrow> store \<Rightarrow> db_error + store" where
  "ingest_attempt_results run step att results st =
     (case step_of st run step of
        None \<Rightarrow> Inl Conflict
      | Some rec \<Rightarrow>
          if rc_status rec \<noteq> Some SRunning \<or> latest_attempt rec \<noteq> Some att then Inl Conflict
          else Inr (write_results run step att results rec st))"

definition set_attempt_consumed ::
  "run_id \<Rightarrow> step_id \<Rightarrow> attempt_id \<Rightarrow> (string \<times> string) list \<Rightarrow> store \<Rightarrow> store" where
  "set_attempt_consumed run step att m = modify_evidence (run, step, att) (\<lambda>e. e\<lparr>av_consumed := m\<rparr>)"

definition set_attempt_workspace_input_steps ::
  "run_id \<Rightarrow> step_id \<Rightarrow> attempt_id \<Rightarrow> step_id list \<Rightarrow> store \<Rightarrow> store" where
  "set_attempt_workspace_input_steps run step att steps =
     modify_evidence (run, step, att) (\<lambda>e. e\<lparr>av_workspace_input_steps := Some steps\<rparr>)"

definition step_evidence_attempt :: "run_id \<Rightarrow> step_id \<Rightarrow> store \<Rightarrow> attempt_id option" where
  "step_evidence_attempt run step st = Option.bind (step_of st run step) rc_evidence_attempt"

definition attempt_workspace_input_steps :: "run_id \<Rightarrow> step_id \<Rightarrow> attempt_id \<Rightarrow> store \<Rightarrow> step_id list option" where
  "attempt_workspace_input_steps run step att st = Option.bind (st_evidence st (run, step, att)) av_workspace_input_steps"

definition put_artifacts ::
  "run_id \<Rightarrow> step_id \<Rightarrow> attempt_id \<Rightarrow> bool \<Rightarrow> artifact_meta list \<Rightarrow> timestamp \<Rightarrow> store \<Rightarrow> store" where
  "put_artifacts run step att succeeded artifacts at st =
     st\<lparr>st_artifacts := foldl (\<lambda>m a. m((run, am_name a, step, att) \<mapsto>
          \<lparr>ar_meta = a, ar_step = step, ar_attempt = att, ar_succeeded = succeeded, ar_created_at = at\<rparr>))
        (st_artifacts st) artifacts\<rparr>"

section \<open>Cache entries\<close>

definition set_run_cache_scope :: "run_id \<Rightarrow> cache_scope \<Rightarrow> store \<Rightarrow> store" where
  "set_run_cache_scope run scope st = st\<lparr>st_cache_scope := (st_cache_scope st)(run \<mapsto> scope)\<rparr>"

definition cache_record ::
  "string \<Rightarrow> string \<Rightarrow> string \<Rightarrow> string \<Rightarrow> attempt_key \<Rightarrow> timestamp \<Rightarrow> store \<Rightarrow> store" where
  "cache_record project key dir tree_root att now st =
     st\<lparr>st_cache_entries := al_put (project, key, dir) (tree_root, now, att) (st_cache_entries st)\<rparr>"

definition cache_lookup :: "string \<Rightarrow> string \<Rightarrow> store \<Rightarrow> (string \<times> string) list" where
  "cache_lookup project key st =
     map (\<lambda>((_, _, dir), (root, _, _)). (dir, root))
       (sort_key (\<lambda>((_, _, dir), _). dir) (filter (\<lambda>((p, k, _), _). p = project \<and> k = key) (st_cache_entries st)))"

section \<open>Slots, services, handles\<close>

definition acquire_slot ::
  "leader_term \<Rightarrow> string \<Rightarrow> run_id \<Rightarrow> (store, db_error, run_id option) prog" where
  "acquire_slot leader grp run = fenced (Some leader) (\<lambda>st.
     let take_slot = (Inr None, st\<lparr>st_slots := (st_slots st)(grp \<mapsto> run)\<rparr>) in
     case st_slots st grp of
       None \<Rightarrow> take_slot
     | Some h \<Rightarrow>
         if h = run then (Inr None, st)
         else if (case al_get (st_runs st) h of Some s \<Rightarrow> run_is_terminal s | None \<Rightarrow> True)
         then take_slot else (Inr (Some h), st))"

definition release_slot :: "string \<Rightarrow> run_id \<Rightarrow> store \<Rightarrow> store" where
  "release_slot grp run st =
     (if st_slots st grp = Some run then st\<lparr>st_slots := (st_slots st)(grp := None)\<rparr> else st)"

definition create_run_service ::
  "leader_term option \<Rightarrow> run_id \<Rightarrow> int \<Rightarrow> string \<Rightarrow> timestamp \<Rightarrow> (store, db_error, unit) prog" where
  "create_run_service leader run tk name at = fenced leader (\<lambda>st.
     (Inr (), case al_get (st_services st) (run, tk, name) of
        Some _ \<Rightarrow> st
      | None \<Rightarrow> st\<lparr>st_services := al_put (run, tk, name) (SvStarting, None, at) (st_services st)\<rparr>))"

definition set_run_service ::
  "leader_term option \<Rightarrow> run_id \<Rightarrow> int \<Rightarrow> string \<Rightarrow> service_status \<Rightarrow> string option
     \<Rightarrow> (store, db_error, unit) prog" where
  "set_run_service leader run tk name status handle = fenced leader (\<lambda>st.
     (Inr (), case al_get (st_services st) (run, tk, name) of
        None \<Rightarrow> st
      | Some (_, h, at) \<Rightarrow>
          st\<lparr>st_services := al_put (run, tk, name)
              (status, (case handle of Some h' \<Rightarrow> Some h' | None \<Rightarrow> h), at) (st_services st)\<rparr>))"

definition set_attempt_handle :: "run_id \<Rightarrow> step_id \<Rightarrow> attempt_id \<Rightarrow> string \<Rightarrow> store \<Rightarrow> store" where
  "set_attempt_handle run step att handle st =
     st\<lparr>st_handles := (st_handles st)((run, step, att) \<mapsto> handle)\<rparr>"

definition set_gate_wait_inputs ::
  "leader_term \<Rightarrow> run_id \<Rightarrow> step_id \<Rightarrow> attempt_id \<Rightarrow> json \<Rightarrow> (store, db_error, bool) prog" where
  "set_gate_wait_inputs leader run step att inputs = fenced (Some leader) (\<lambda>st.
     let running = (case Option.bind (step_of st run step)
                       (\<lambda>r. List.find (\<lambda>a. at_id a = att) (rc_attempts r)) of
                      Some a \<Rightarrow> at_outcome a = AORunning | None \<Rightarrow> False)
     in if \<not> running \<or> st_gate_inputs st (run, step, att) \<noteq> None then (Inr False, st)
        else (Inr True, st\<lparr>st_gate_inputs := (st_gate_inputs st)((run, step, att) \<mapsto> inputs)\<rparr>))"

section \<open>Attempts\<close>

definition stamp_attempt :: "attempt_stamp \<Rightarrow> attempt \<Rightarrow> attempt" where
  "stamp_attempt stamp a =
     (if at_outcome a \<in> {AOSuperseded, AOCancelled} then a
      else case stamp of
        StampOutcome outcome \<Rightarrow> a\<lparr>at_outcome := outcome\<rparr>
      | StampFailure kind detail \<Rightarrow>
          a\<lparr>at_failure := Some kind, at_failure_detail := detail, at_outcome := AOFailed\<rparr>)"

definition stamp_rec :: "attempt_id \<Rightarrow> attempt_stamp \<Rightarrow> step_rec \<Rightarrow> step_rec" where
  "stamp_rec att stamp rec =
     rec\<lparr>rc_attempts := update_first (\<lambda>a. at_id a = att) (stamp_attempt stamp) (rc_attempts rec)\<rparr>"

definition stamp_attempt_locked ::
  "run_id \<Rightarrow> step_id \<Rightarrow> attempt_id \<Rightarrow> attempt_stamp \<Rightarrow> store \<Rightarrow> store" where
  "stamp_attempt_locked run step att stamp = modify_step run step (stamp_rec att stamp)"

definition set_attempt_failure ::
  "run_id \<Rightarrow> step_id \<Rightarrow> attempt_id \<Rightarrow> failure_kind \<Rightarrow> string option \<Rightarrow> store \<Rightarrow> store" where
  "set_attempt_failure run step att kind detail =
     stamp_attempt_locked run step att (StampFailure kind detail)"

definition set_attempt_outcome ::
  "run_id \<Rightarrow> step_id \<Rightarrow> attempt_id \<Rightarrow> attempt_outcome \<Rightarrow> store \<Rightarrow> store" where
  "set_attempt_outcome run step att outcome = stamp_attempt_locked run step att (StampOutcome outcome)"

definition add_attempt :: "attempt \<Rightarrow> step_rec \<Rightarrow> step_rec" where
  "add_attempt a rec =
     (if list_ex (\<lambda>b. at_id b = at_id a) (rc_attempts rec) then rec
      else rec\<lparr>rc_attempts := rc_attempts rec @ [a]\<rparr>)"

definition record_attempt :: "run_id \<Rightarrow> step_id \<Rightarrow> attempt \<Rightarrow> store \<Rightarrow> store" where
  "record_attempt run step a st =
     put_step run step (add_attempt a (case step_of st run step of
        Some rec \<Rightarrow> rec | None \<Rightarrow> (new_step_rec None [])\<lparr>rc_status := None\<rparr>)) st"

section \<open>Step transitions\<close>

definition check_step_transition ::
  "run_id \<Rightarrow> step_id \<Rightarrow> step_status \<Rightarrow> store \<Rightarrow> step_rec option" where
  "check_step_transition run step from st =
     (case step_of st run step of
        None \<Rightarrow> None
      | Some rec \<Rightarrow> if rc_status rec = Some from then Some rec else None)"

definition record_step_transition ::
  "run_id \<Rightarrow> step_id \<Rightarrow> step_status \<Rightarrow> step_status \<Rightarrow> store \<Rightarrow> db_error + store" where
  "record_step_transition run step from to st =
     (case check_step_transition run step from st of
        None \<Rightarrow> Inl Conflict
      | Some rec \<Rightarrow> Inr (put_step run step (rec\<lparr>rc_status := Some to\<rparr>) st))"

definition append_events :: "event_kind list \<Rightarrow> store \<Rightarrow> store" where
  "append_events events st = st\<lparr>st_events := st_events st @ events\<rparr>"

definition frontier_ok :: "attempt_frontier \<Rightarrow> step_rec \<Rightarrow> bool" where
  "frontier_ok frontier rec =
     (case frontier of FrontierAny \<Rightarrow> True | FrontierIs expected \<Rightarrow> latest_attempt rec = expected)"

definition commit_step_transition ::
  "run_id \<Rightarrow> step_id \<Rightarrow> step_status \<Rightarrow> step_status \<Rightarrow> attempt_frontier
     \<Rightarrow> (attempt_id \<times> attempt_stamp) option \<Rightarrow> event_kind list \<Rightarrow> outbox_message list
     \<Rightarrow> store \<Rightarrow> db_error + store" where
  "commit_step_transition run step from to frontier stamp events outbox st =
     (case check_step_transition run step from st of
        None \<Rightarrow> Inl Conflict
      | Some rec \<Rightarrow>
          if \<not> frontier_ok frontier rec then Inl Conflict
          else
            let rec1 = rec\<lparr>rc_status := Some to\<rparr>;
                rec2 = (case stamp of None \<Rightarrow> rec1 | Some (att, s) \<Rightarrow> stamp_rec att s rec1)
            in Inr (enqueue_all outbox (append_events events (put_step run step rec2 st))))"

definition promote_step ::
  "leader_term \<Rightarrow> run_id \<Rightarrow> step_id \<Rightarrow> string \<Rightarrow> event_kind list \<Rightarrow> store \<Rightarrow> db_error + store" where
  "promote_step leader run step signature events st =
     (if \<not> holds_leader_term st leader then Inl NotLeader
      else case check_step_transition run step SPending st of
        None \<Rightarrow> Inl Conflict
      | Some rec \<Rightarrow> Inr (append_events events
          (put_step run step (rec\<lparr>rc_status := Some SReady, rc_input := Some signature\<rparr>) st)))"

section \<open>Run transitions\<close>

definition bump_reopen_generation :: "run_id \<Rightarrow> run_status \<Rightarrow> store \<Rightarrow> store" where
  "bump_reopen_generation run from st =
     (if run_is_terminal from
      then st\<lparr>st_generations := (st_generations st)(run \<mapsto> run_reopen_generation run st + 1)\<rparr> else st)"

definition current_run_status :: "run_id \<Rightarrow> store \<Rightarrow> run_status" where
  "current_run_status run st = (case al_get (st_runs st) run of Some s \<Rightarrow> s | None \<Rightarrow> RPending)"

definition put_run :: "run_id \<Rightarrow> run_status \<Rightarrow> run_status \<Rightarrow> store \<Rightarrow> store" where
  "put_run run from to st = bump_reopen_generation run from (st\<lparr>st_runs := al_put run to (st_runs st)\<rparr>)"

definition record_transition ::
  "run_id \<Rightarrow> run_status \<Rightarrow> run_status \<Rightarrow> store \<Rightarrow> db_error + store" where
  "record_transition run from to st =
     (if current_run_status run st \<noteq> from then Inl Conflict else Inr (put_run run from to st))"

definition commit_run_transition ::
  "leader_term option \<Rightarrow> run_id \<Rightarrow> run_status \<Rightarrow> run_status \<Rightarrow> nat \<Rightarrow> event_kind list
     \<Rightarrow> outbox_message list \<Rightarrow> store \<Rightarrow> db_error + store" where
  "commit_run_transition leader run from to generation events outbox st =
     (if \<not> holds_leader_term_if st leader then Inl NotLeader
      else if current_run_status run st \<noteq> from \<or> run_reopen_generation run st \<noteq> generation
      then Inl Conflict
      else Inr (enqueue_all outbox (append_events events (put_run run from to st))))"

section \<open>Gate waits\<close>

definition running_last :: "attempt list \<Rightarrow> attempt option" where
  "running_last as =
     (case last_opt as of
        None \<Rightarrow> None
      | Some a \<Rightarrow> if at_outcome a = AORunning then Some a else None)"

definition new_attempt :: "attempt list \<Rightarrow> timestamp \<Rightarrow> attempt" where
  "new_attempt as started_at =
     \<lparr>at_id = next_attempt as, at_started_at = started_at, at_failure = None,
      at_failure_detail = None, at_outcome = AORunning\<rparr>"

definition open_gate_wait ::
  "leader_term \<Rightarrow> run_id \<Rightarrow> step_id \<Rightarrow> timestamp \<Rightarrow> timestamp \<Rightarrow> (store, db_error, attempt option) prog" where
  "open_gate_wait leader run step started_at at = fenced (Some leader) (\<lambda>st.
     case step_of st run step of
       None \<Rightarrow> (Inr None, st)
     | Some rec \<Rightarrow>
         if rc_status rec \<noteq> Some SPending then (Inr None, st)
         else
           let as = sorted_attempts (rc_attempts rec) in
           (case running_last as of
              Some open' \<Rightarrow> (Inr (Some open'), put_step run step (rec\<lparr>rc_attempts := as\<rparr>) st)
            | None \<Rightarrow>
                let a = new_attempt as (min started_at at) in
                (Inr (Some a), append_events [event run (AttemptStarted step (at_id a)) at]
                   (put_step run step (rec\<lparr>rc_attempts := as @ [a]\<rparr>) st))))"

definition close_attempt :: "gate_resolution \<Rightarrow> attempt \<Rightarrow> attempt" where
  "close_attempt res a =
     a\<lparr>at_failure := (if gr_passed res then None else Some FGate),
       at_failure_detail := attempt_detail res,
       at_outcome := (if gr_passed res then AOSucceeded else AOFailed)\<rparr>"

text \<open>Which attempt the resolution closes: the fenced one while it runs, the open one, or (with no
  fence and none open) a new attempt minted already closed.\<close>

definition resolve_target ::
  "gate_resolution \<Rightarrow> attempt list \<Rightarrow> (attempt_id \<times> bool \<times> attempt list) option" where
  "resolve_target res as =
     (case gr_fence res of
        Some f \<Rightarrow>
          if list_ex (\<lambda>a. at_id a = f \<and> at_outcome a = AORunning) as
          then Some (f, False, update_first (\<lambda>a. at_id a = f \<and> at_outcome a = AORunning) (close_attempt res) as)
          else None
      | None \<Rightarrow>
          (case running_last as of
             Some a \<Rightarrow> Some (at_id a, False, butlast as @ [close_attempt res a])
           | None \<Rightarrow> Some (next_attempt as, True, as @ [close_attempt res
                      (new_attempt as (min (gr_legacy_started_at res) (gr_at res)))])))"

definition resolve_gate_wait ::
  "run_id \<Rightarrow> step_id \<Rightarrow> gate_resolution \<Rightarrow> (store, db_error, attempt_id option) prog" where
  "resolve_gate_wait run step res st =
     (case step_of st run step of
        None \<Rightarrow> (Inr None, st)
      | Some rec \<Rightarrow>
          if rc_status rec \<noteq> Some SPending then (Inr None, st)
          else case resolve_target res (sorted_attempts (rc_attempts rec)) of
            None \<Rightarrow> (Inr None, put_step run step (rec\<lparr>rc_attempts := sorted_attempts (rc_attempts rec)\<rparr>) st)
          | Some (att, minted, as) \<Rightarrow>
              let rec1 = rec\<lparr>rc_attempts := as,
                             rc_status := Some (if gr_passed res then SSucceeded else SFailed)\<rparr>;
                  st1 = (case (gr_passed res, gr_outputs res) of
                           (True, Some outputs) \<Rightarrow> write_results run step att outputs rec1 st
                         | _ \<Rightarrow> put_step run step rec1 st)
              in (Inr (Some att), append_events
                   (map (\<lambda>k. event run k (gr_at res)) (gate_resolution_events step att minted res)) st1))"

definition close_running_attempt ::
  "run_id \<Rightarrow> step_id \<Rightarrow> attempt_id \<Rightarrow> attempt_outcome \<Rightarrow> event_kind option \<Rightarrow> (store, db_error, bool) prog" where
  "close_running_attempt run step att outcome ev st =
     (case step_of st run step of
        None \<Rightarrow> (Inr False, st)
      | Some rec \<Rightarrow>
          (case List.find (\<lambda>a. at_id a = att) (rc_attempts rec) of
             None \<Rightarrow> (Inr False, st)
           | Some a \<Rightarrow>
               if at_outcome a \<noteq> AORunning then (Inr False, st)
               else (Inr True, append_events (case ev of Some e \<Rightarrow> [e] | None \<Rightarrow> [])
                 (put_step run step (rec\<lparr>rc_attempts :=
                    update_first (\<lambda>a. at_id a = att) (\<lambda>a. a\<lparr>at_outcome := outcome\<rparr>) (rc_attempts rec)\<rparr>) st))))"

section \<open>Claiming ready steps\<close>

record step_launch =
  sl_attempt :: attempt
  sl_events :: "event_kind list"
  sl_outbox :: "outbox_message list"

definition ready_keys :: "store \<Rightarrow> step_key list" where
  "ready_keys st =
     sort_key fst (sort_key snd (map fst (filter (\<lambda>(_, r). rc_status r = Some SReady) (st_steps st))))"

definition claimed_step :: "store \<Rightarrow> step_key \<Rightarrow> step_run option" where
  "claimed_step st key = map_option (step_run_of key SRunning) (al_get (st_steps st) key)"

fun mint_all ::
  "(step_run \<Rightarrow> db_error + step_launch) \<Rightarrow> step_run list \<Rightarrow> db_error + (step_run \<times> step_launch) list" where
  "mint_all mint [] = Inr []"
| "mint_all mint (s # ss) =
     (case mint s of
        Inl e \<Rightarrow> Inl e
      | Inr l \<Rightarrow> (case mint_all mint ss of Inl e \<Rightarrow> Inl e | Inr ls \<Rightarrow> Inr ((s, l) # ls)))"

definition launch_one :: "store \<Rightarrow> step_run \<times> step_launch \<Rightarrow> store" where
  "launch_one st sl =
     (case sl of (s, l) \<Rightarrow>
        enqueue_all (sl_outbox l) (append_events (sl_events l)
          (modify_step (sr_run s) (sr_step s)
             (\<lambda>rec. add_attempt (sl_attempt l) (rec\<lparr>rc_status := Some SRunning\<rparr>)) st)))"

definition claim_ready_steps ::
  "leader_term \<Rightarrow> nat \<Rightarrow> (step_run \<Rightarrow> db_error + step_launch) \<Rightarrow> (store, db_error, step_run list) prog" where
  "claim_ready_steps leader limit mint = fenced (Some leader) (\<lambda>st.
     case mint_all mint (List.map_filter (claimed_step st) (take limit (ready_keys st))) of
       Inl e \<Rightarrow> (Inl e, st)
     | Inr ls \<Rightarrow> (Inr (map fst ls), foldl launch_one st ls))"

end
