(* ===== verification/Store_Laws.thy ===== *)
theory Store_Laws
  imports Store
begin

text \<open>
  What the store promises its callers. Three interfaces are locales, each interpreted on the
  operations of \<open>Store\<close>: a register changed only by compare-and-set (run and step statuses), an
  outbox that is idempotent on its key, and a write fenced on a leadership term. Their client
  lemmas are proved once, inside the locale. The rest are the laws of the attempt rows: ids are
  minted in order, so the order in which rows are read and the frontier of a step are what the
  position in the list says.
\<close>

section \<open>Which tables an operation leaves alone\<close>

lemma put_step_sel [simp]:
  "st_events (put_step r s rec st) = st_events st" "st_runs (put_step r s rec st) = st_runs st"
  "st_outbox (put_step r s rec st) = st_outbox st" "st_leases (put_step r s rec st) = st_leases st"
  "st_generations (put_step r s rec st) = st_generations st" "st_slots (put_step r s rec st) = st_slots st"
  "st_creating (put_step r s rec st) = st_creating st"
  "st_steps (put_step r s rec st) = al_put (r, s) rec (st_steps st)"
  by (simp_all add: put_step_def)

lemma append_events_sel [simp]:
  "st_events (append_events es st) = st_events st @ es" "st_runs (append_events es st) = st_runs st"
  "st_outbox (append_events es st) = st_outbox st" "st_leases (append_events es st) = st_leases st"
  "st_generations (append_events es st) = st_generations st" "st_steps (append_events es st) = st_steps st"
  "st_slots (append_events es st) = st_slots st" "st_creating (append_events es st) = st_creating st"
  by (simp_all add: append_events_def)

lemma enqueue_outbox_sel [simp]:
  "st_events (enqueue_outbox m st) = st_events st" "st_runs (enqueue_outbox m st) = st_runs st"
  "st_leases (enqueue_outbox m st) = st_leases st" "st_steps (enqueue_outbox m st) = st_steps st"
  "st_generations (enqueue_outbox m st) = st_generations st" "st_slots (enqueue_outbox m st) = st_slots st"
  "st_creating (enqueue_outbox m st) = st_creating st"
  by (simp_all add: enqueue_outbox_def)

lemma enqueue_all_sel [simp]:
  "st_events (enqueue_all ms st) = st_events st" "st_runs (enqueue_all ms st) = st_runs st"
  "st_leases (enqueue_all ms st) = st_leases st" "st_steps (enqueue_all ms st) = st_steps st"
  "st_generations (enqueue_all ms st) = st_generations st" "st_slots (enqueue_all ms st) = st_slots st"
  "st_creating (enqueue_all ms st) = st_creating st"
  by (induction ms arbitrary: st) (simp_all add: enqueue_all_def)

lemma enqueue_all_Cons [simp]:
  "enqueue_all [] st = st" "enqueue_all (m # ms) st = enqueue_all ms (enqueue_outbox m st)"
  by (simp_all add: enqueue_all_def)

lemma put_run_sel [simp]:
  "st_events (put_run r f t st) = st_events st" "st_steps (put_run r f t st) = st_steps st"
  "st_outbox (put_run r f t st) = st_outbox st" "st_leases (put_run r f t st) = st_leases st"
  "st_runs (put_run r f t st) = al_put r t (st_runs st)" "st_slots (put_run r f t st) = st_slots st"
  "st_creating (put_run r f t st) = st_creating st"
  by (simp_all add: put_run_def bump_reopen_generation_def)

lemma modify_evidence_sel [simp]:
  "st_events (modify_evidence k f st) = st_events st" "st_runs (modify_evidence k f st) = st_runs st"
  "st_outbox (modify_evidence k f st) = st_outbox st" "st_leases (modify_evidence k f st) = st_leases st"
  "st_steps (modify_evidence k f st) = st_steps st"
  by (simp_all add: modify_evidence_def)

section \<open>Registers changed by compare-and-set\<close>

text \<open>A run of competing writers: each proposes a change with the rest of its request \<open>w\<close>, the ones
  that miss change nothing, and \<open>cas_path\<close> follows the changes of the ones that hit.\<close>

fun cas_race ::
  "('w \<Rightarrow> 'v \<Rightarrow> 'v \<Rightarrow> 'st \<Rightarrow> 'e + 'st) \<Rightarrow> ('w \<times> 'v \<times> 'v) list \<Rightarrow> 'st \<Rightarrow> ('v \<times> 'v) list \<times> 'st" where
  "cas_race cas [] st = ([], st)"
| "cas_race cas ((w, from, to) # ps) st =
     (case cas w from to st of
        Inl e \<Rightarrow> cas_race cas ps st
      | Inr st' \<Rightarrow> (case cas_race cas ps st' of (ws, st'') \<Rightarrow> ((from, to) # ws, st'')))"

fun cas_path :: "'v option \<Rightarrow> ('v \<times> 'v) list \<Rightarrow> 'v option" where
  "cas_path v [] = v"
| "cas_path v ((from, to) # ps) = (if v = Some from then cas_path (Some to) ps else None)"

locale cas_register =
  fixes get :: "'st \<Rightarrow> 'v option" and cas :: "'w \<Rightarrow> 'v \<Rightarrow> 'v \<Rightarrow> 'st \<Rightarrow> 'e + 'st"
  assumes cas_hit: "cas w from to st = Inr st' \<Longrightarrow> get st = Some from \<and> get st' = Some to"
begin

lemma one_winner:
  assumes "cas w from to st = Inr st'" "from \<noteq> to"
  shows "\<exists>e. cas w' from to' st' = Inl e"
proof (cases "cas w' from to' st'")
  case (Inr st'')
  from cas_hit [OF this] cas_hit [OF assms(1)] assms(2) show ?thesis by simp
qed simp

lemma winners_form_path: "cas_path (get st) (fst (cas_race cas ps st)) = get (snd (cas_race cas ps st))"
proof (induction ps arbitrary: st)
  case (Cons p ps)
  obtain w from' to where p: "p = (w, from', to)" by (cases p)
  show ?case
  proof (cases "cas w from' to st")
    case (Inr st')
    from cas_hit [OF this] have "get st = Some from'" "get st' = Some to" by auto
    with Inr Cons.IH [of st'] show ?thesis by (simp add: p case_prod_unfold)
  qed (use Cons.IH in \<open>simp add: p\<close>)
qed simp

end

lemma current_run_status_put [simp]:
  "al_get (st_runs st) run = Some s \<Longrightarrow> current_run_status run st = s"
  by (simp add: current_run_status_def)

definition run_cas ::
  "run_id \<Rightarrow> leader_term option \<times> nat \<times> event_kind list \<times> outbox_message list
     \<Rightarrow> run_status \<Rightarrow> run_status \<Rightarrow> store \<Rightarrow> db_error + store" where
  "run_cas run w from to =
     (case w of (leader, generation, events, outbox) \<Rightarrow>
        commit_run_transition leader run from to generation events outbox)"

interpretation run_reg: cas_register "\<lambda>st. Some (current_run_status run st)" "run_cas run"
  by unfold_locales
     (auto simp: run_cas_def commit_run_transition_def current_run_status_def split: if_splits)

lemma check_step_transition_iff:
  "check_step_transition run step from st = Some rec \<longleftrightarrow>
     step_of st run step = Some rec \<and> rc_status rec = Some from"
  by (auto simp: check_step_transition_def split: option.splits)

lemma stamp_rec_sel [simp]:
  "rc_status (stamp_rec att s rec) = rc_status rec" "rc_gate_kind (stamp_rec att s rec) = rc_gate_kind rec"
  "rc_needs (stamp_rec att s rec) = rc_needs rec"
  by (simp_all add: stamp_rec_def)

definition committed_rec ::
  "step_status \<Rightarrow> (attempt_id \<times> attempt_stamp) option \<Rightarrow> step_rec \<Rightarrow> step_rec" where
  "committed_rec to stamp rec =
     (case stamp of
        None \<Rightarrow> rec\<lparr>rc_status := Some to\<rparr>
      | Some (att, s) \<Rightarrow> stamp_rec att s (rec\<lparr>rc_status := Some to\<rparr>))"

lemma committed_rec_sel [simp]:
  "rc_status (committed_rec to stamp rec) = Some to"
  "rc_gate_kind (committed_rec to stamp rec) = rc_gate_kind rec"
  "rc_needs (committed_rec to stamp rec) = rc_needs rec"
  by (auto simp: committed_rec_def split: option.splits prod.splits)

lemma commit_step_transition_iff:
  "commit_step_transition run step from to frontier stamp events outbox st = Inr st' \<longleftrightarrow>
     (\<exists>rec. step_of st run step = Some rec \<and> rc_status rec = Some from \<and> frontier_ok frontier rec
        \<and> st' = enqueue_all outbox (append_events events (put_step run step (committed_rec to stamp rec) st)))"
  by (auto simp: commit_step_transition_def committed_rec_def Let_def check_step_transition_def
      split: option.splits if_splits prod.splits)

lemma commit_step_transition_error:
  "commit_step_transition run step from to frontier stamp events outbox st = Inl e \<Longrightarrow> e = Conflict"
  by (auto simp: commit_step_transition_def Let_def split: option.splits if_splits)

definition step_cas ::
  "run_id \<Rightarrow> step_id \<Rightarrow> attempt_frontier \<times> (attempt_id \<times> attempt_stamp) option \<times> event_kind list \<times> outbox_message list
     \<Rightarrow> step_status \<Rightarrow> step_status \<Rightarrow> store \<Rightarrow> db_error + store" where
  "step_cas run step w from to =
     (case w of (frontier, stamp, events, outbox) \<Rightarrow>
        commit_step_transition run step from to frontier stamp events outbox)"

definition step_status_of :: "run_id \<Rightarrow> step_id \<Rightarrow> store \<Rightarrow> step_status option" where
  "step_status_of run step st = Option.bind (step_of st run step) rc_status"

interpretation step_reg: cas_register "step_status_of run step" "step_cas run step"
  by unfold_locales (auto simp: step_cas_def step_status_of_def commit_step_transition_iff)

section \<open>The outbox\<close>

locale keyed_outbox =
  fixes entries :: "'st \<Rightarrow> ('k \<times> 'm) list" and enq :: "'k \<Rightarrow> 'm \<Rightarrow> 'st \<Rightarrow> 'st"
  assumes enq_dup: "k \<in> fst ` set (entries st) \<Longrightarrow> enq k m st = st"
    and enq_fresh: "k \<notin> fst ` set (entries st) \<Longrightarrow> entries (enq k m st) = entries st @ [(k, m)]"
begin

definition enq_all :: "('k \<times> 'm) list \<Rightarrow> 'st \<Rightarrow> 'st" where
  "enq_all kms st = foldl (\<lambda>s (k, m). enq k m s) st kms"

lemma enq_keys: "fst ` set (entries (enq k m st)) = insert k (fst ` set (entries st))"
  using enq_dup [of k st m] enq_fresh [of k st m] by (cases "k \<in> fst ` set (entries st)") auto

lemma enq_distinct: "distinct (map fst (entries st)) \<Longrightarrow> distinct (map fst (entries (enq k m st)))"
  using enq_dup [of k st m] enq_fresh [of k st m]
  by (cases "k \<in> fst ` set (entries st)") (auto simp: image_iff)

lemma enq_prefix: "\<exists>new. entries (enq k m st) = entries st @ new"
  using enq_dup [of k st m] enq_fresh [of k st m]
  by (cases "k \<in> fst ` set (entries st)") auto

lemma enq_all_Cons: "enq_all [] st = st" "enq_all ((k, m) # kms) st = enq_all kms (enq k m st)"
  by (simp_all add: enq_all_def)

lemma enq_all_keys: "fst ` set (entries (enq_all kms st)) = fst ` set (entries st) \<union> fst ` set kms"
proof (induction kms arbitrary: st)
  case (Cons km kms)
  obtain k m where km: "km = (k, m)" by (cases km)
  show ?case using Cons.IH [of "enq k m st"] by (simp add: km enq_all_Cons enq_keys)
qed (simp add: enq_all_Cons)

lemma enq_all_prefix: "\<exists>new. entries (enq_all kms st) = entries st @ new"
proof (induction kms arbitrary: st)
  case (Cons km kms)
  obtain k m where km: "km = (k, m)" by (cases km)
  from Cons.IH [of "enq k m st"] enq_prefix [of k m st] show ?case by (auto simp: km enq_all_Cons)
qed (simp add: enq_all_Cons)

lemma enq_all_distinct:
  "distinct (map fst (entries st)) \<Longrightarrow> distinct (map fst (entries (enq_all kms st)))"
proof (induction kms arbitrary: st)
  case (Cons km kms)
  obtain k m where km: "km = (k, m)" by (cases km)
  from Cons.IH [OF enq_distinct [OF Cons.prems]] show ?case by (simp add: km enq_all_Cons)
qed (simp add: enq_all_Cons)

text \<open>Exactly once: whatever is enqueued and however often, a key has one entry, and an entry that
  is there keeps its message.\<close>

lemma exactly_once:
  assumes "distinct (map fst (entries st))" "k \<in> fst ` set (entries st) \<union> fst ` set kms"
  shows "\<exists>!m. (k, m) \<in> set (entries (enq_all kms st))"
proof -
  have "k \<in> fst ` set (entries (enq_all kms st))" using assms(2) by (simp add: enq_all_keys)
  then obtain m where "(k, m) \<in> set (entries (enq_all kms st))" by auto
  moreover have "m' = m''" if "(k, m') \<in> set (entries (enq_all kms st))"
    "(k, m'') \<in> set (entries (enq_all kms st))" for m' m''
    using that enq_all_distinct [OF assms(1), of kms] by (metis eq_key_imp_eq_value)
  ultimately show ?thesis by blast
qed

end

text \<open>A message without its key and without the id the store assigns.\<close>

type_synonym msg_body = "run_id \<times> string \<times> payload \<times> timestamp"

definition body_of :: "outbox_message \<Rightarrow> msg_body" where
  "body_of m = (om_run m, om_kind m, om_payload m, om_at m)"

definition msg_of :: "string \<Rightarrow> msg_body \<Rightarrow> outbox_message" where
  "msg_of k b = (case b of (r, kind, p, at) \<Rightarrow>
     \<lparr>om_id = 0, om_run = r, om_kind = kind, om_payload = p, om_idempotency_key = k, om_at = at\<rparr>)"

definition outbox_entries :: "store \<Rightarrow> (string \<times> msg_body) list" where
  "outbox_entries st = map (\<lambda>e. (om_idempotency_key (oe_msg e), body_of (oe_msg e))) (st_outbox st)"

lemma outbox_entries_sel [simp]:
  "outbox_entries (put_step r s rec st) = outbox_entries st"
  "outbox_entries (append_events es st) = outbox_entries st"
  "outbox_entries (put_run r f t st) = outbox_entries st"
  by (simp_all add: outbox_entries_def)

lemma enqueue_outbox_entries:
  "om_idempotency_key m \<in> fst ` set (outbox_entries st) \<Longrightarrow> enqueue_outbox m st = st"
  "om_idempotency_key m \<notin> fst ` set (outbox_entries st) \<Longrightarrow>
     outbox_entries (enqueue_outbox m st) = outbox_entries st @ [(om_idempotency_key m, body_of m)]"
  by (force simp: enqueue_outbox_def outbox_entries_def list_ex_iff body_of_def)+

lemma msg_of_body:
  "om_idempotency_key (msg_of k b) = k" "body_of (msg_of k b) = b"
  "enqueue_outbox (msg_of (om_idempotency_key m) (body_of m)) st = enqueue_outbox m st"
  by (cases b; simp add: msg_of_def body_of_def enqueue_outbox_def)+

interpretation ob: keyed_outbox outbox_entries "\<lambda>k b. enqueue_outbox (msg_of k b)"
  by unfold_locales (simp_all add: enqueue_outbox_entries msg_of_body)

lemma enqueue_all_enq:
  "enqueue_all ms st = ob.enq_all (map (\<lambda>m. (om_idempotency_key m, body_of m)) ms) st"
  by (induction ms arbitrary: st) (simp_all add: ob.enq_all_Cons msg_of_body)

section \<open>Writes fenced on a leadership term\<close>

locale fenced_write =
  fixes holds :: "'st \<Rightarrow> 'l \<Rightarrow> bool" and put :: "'l \<Rightarrow> 'st \<Rightarrow> ('e + 'a) \<times> 'st" and refused :: 'e
  assumes refuse: "\<not> holds st l \<Longrightarrow> put l st = (Inl refused, st)"
begin

lemma deposed_writes_nothing: "\<not> holds st l \<Longrightarrow> snd (put l st) = st"
  by (simp add: refuse)

lemma committed_held: "fst (put l st) = Inr a \<Longrightarrow> holds st l"
  using refuse by (metis fst_conv sum.distinct(1))

end

interpretation f_claim: fenced_write holds_leader_term "\<lambda>l. claim_ready_steps l limit mint" NotLeader
  by unfold_locales (simp add: claim_ready_steps_def fenced_def holds_leader_term_if_def)

interpretation f_promote: fenced_write holds_leader_term
  "\<lambda>l. commitP (promote_step l run step signature events)" NotLeader
  by unfold_locales (simp add: promote_step_def commitP_def)

interpretation f_slot: fenced_write holds_leader_term "\<lambda>l. acquire_slot l grp run" NotLeader
  by unfold_locales (simp add: acquire_slot_def fenced_def holds_leader_term_if_def)

interpretation f_wait: fenced_write holds_leader_term "\<lambda>l. open_gate_wait l run step started_at at" NotLeader
  by unfold_locales (simp add: open_gate_wait_def fenced_def holds_leader_term_if_def)

interpretation f_run: fenced_write holds_leader_term
  "\<lambda>l. commitP (commit_run_transition (Some l) run from to generation events outbox)" NotLeader
  by unfold_locales (simp add: commit_run_transition_def commitP_def holds_leader_term_if_def)

interpretation f_inputs: fenced_write holds_leader_term
  "\<lambda>l. set_gate_wait_inputs l run step att inputs" NotLeader
  by unfold_locales (simp add: set_gate_wait_inputs_def fenced_def holds_leader_term_if_def)

text \<open>Terms only grow: a lease call keeps the holder's term or hands the next one to a new holder.\<close>

definition lease_term :: "store \<Rightarrow> string \<Rightarrow> int" where
  "lease_term st resource = (case st_leases st resource of None \<Rightarrow> 0 | Some (_, _, t) \<Rightarrow> t)"

definition leases_positive :: "store \<Rightarrow> bool" where
  "leases_positive st \<longleftrightarrow> (\<forall>r. st_leases st r \<noteq> None \<longrightarrow> 1 \<le> lease_term st r)"

type_synonym lease_call = "int \<times> string \<times> string \<times> int"

fun lease_calls :: "lease_call list \<Rightarrow> store \<Rightarrow> store" where
  "lease_calls [] st = st"
| "lease_calls ((now, resource, owner, ttl) # cs) st = lease_calls cs (snd (lease now resource owner ttl st))"

lemma lease_term_mono: "lease_term st r \<le> lease_term (snd (lease now r' owner ttl st)) r"
  by (auto simp: lease_def lease_term_def Let_def split: option.splits)

lemma lease_calls_mono: "lease_term st r \<le> lease_term (lease_calls cs st) r"
proof (induction cs arbitrary: st)
  case (Cons c cs)
  obtain now r' owner ttl where c: "c = (now, r', owner, ttl)" by (cases c)
  from lease_term_mono [of st r now r' owner ttl] Cons.IH [of "snd (lease now r' owner ttl st)"]
  show ?case by (simp add: c)
qed simp

lemma holds_term: "holds_leader_term st l \<Longrightarrow> lease_term st (lt_resource l) = lt_term l"
  by (auto simp: holds_leader_term_def lease_term_def split: option.splits)

lemma takeover_bumps:
  assumes "fst (lease now resource owner ttl st) = Inr g" "le_owner g = owner"
    and "holds_leader_term st l" "lt_resource l = resource" "lt_owner l \<noteq> owner"
  shows "lt_term l < lease_term (snd (lease now resource owner ttl st)) resource"
  using assms
  by (auto simp: lease_def lease_term_def holds_leader_term_def Let_def split: option.splits if_splits)

lemma deposed_forever:
  assumes "lt_term l < lease_term st (lt_resource l)"
  shows "\<not> holds_leader_term (lease_calls cs st) l"
  using holds_term [of "lease_calls cs st" l] lease_calls_mono [of st "lt_resource l" cs] assms by auto

section \<open>Attempt ids and the frontier\<close>

definition well_named :: "attempt list \<Rightarrow> bool" where
  "well_named as \<longleftrightarrow> map at_id as = map attempt_name [1..<Suc (length as)] \<and> length as < u64_bound"

lemma attempt_name_inject [simp]: "attempt_name m = attempt_name n \<longleftrightarrow> m = n"
  by (simp add: attempt_name_def)

lemma attempt_name_number:
  "at_id a = attempt_name n \<Longrightarrow> n < u64_bound \<Longrightarrow> attempt_number a = n \<and> attempt_order_key a = n"
  by (simp add: attempt_number_def attempt_order_key_def attempt_name_def strip_a_def)

lemma well_named_nth:
  assumes "well_named as" "i < length as"
  shows "at_id (as ! i) = attempt_name (Suc i)"
proof -
  have "map at_id as ! i = map attempt_name [1..<Suc (length as)] ! i"
    using assms by (simp add: well_named_def del: upt_Suc)
  then show ?thesis using assms(2) by (simp del: upt_Suc)
qed

lemma well_named_keys: "well_named as \<Longrightarrow> map attempt_order_key as = [1..<Suc (length as)]"
  by (rule nth_equalityI)
     (auto simp: well_named_nth attempt_name_number well_named_def simp del: upt_Suc)

lemma well_named_numbers: "well_named as \<Longrightarrow> map attempt_number as = [1..<Suc (length as)]"
  by (rule nth_equalityI)
     (auto simp: well_named_nth attempt_name_number well_named_def simp del: upt_Suc)

lemma sorted_attempts_id [simp]: "well_named as \<Longrightarrow> sorted_attempts as = as"
  unfolding sorted_attempts_def by (rule sort_key_id) (simp only: well_named_keys sorted_upt)

lemma well_named_distinct: "well_named as \<Longrightarrow> distinct (map at_id as)"
  by (auto simp: well_named_def distinct_map inj_on_def)

lemma well_named_Nil [simp]: "well_named []"
  by (simp add: well_named_def u64_bound_def)

lemma well_named_snoc:
  "well_named (as @ [a]) \<longleftrightarrow> well_named as \<and> at_id a = attempt_name (Suc (length as)) \<and> Suc (length as) < u64_bound"
  by (auto simp: well_named_def)

lemma max_by_key_snoc: "\<forall>x \<in> set xs. f x \<le> f y \<Longrightarrow> max_by_key f (xs @ [y]) = Some y"
  by (induction xs) auto

lemma latest_attempt_last:
  assumes "well_named (rc_attempts rec)"
  shows "latest_attempt rec = map_option at_id (last_opt (rc_attempts rec))"
proof (cases "rc_attempts rec" rule: rev_cases)
  case Nil
  then show ?thesis by (simp add: latest_attempt_def)
next
  case (snoc ys y)
  have k: "map attempt_order_key (ys @ [y]) = [1..<Suc (Suc (length ys))]"
    using well_named_keys [OF assms] snoc by simp
  have "attempt_order_key x \<le> attempt_order_key y" if "x \<in> set ys" for x
  proof -
    have "map attempt_order_key ys = [1..<Suc (length ys)]" "attempt_order_key y = Suc (length ys)"
      using k by auto
    moreover have "attempt_order_key x \<in> set (map attempt_order_key ys)" using that by simp
    ultimately show ?thesis by (auto simp del: set_map)
  qed
  then show ?thesis using snoc by (simp add: latest_attempt_def max_by_key_snoc)
qed

lemma foldl_max_upt: "foldl max 0 [1..<Suc n] = n"
  by (induction n) auto

lemma next_attempt_name [simp]: "well_named as \<Longrightarrow> next_attempt as = attempt_name (Suc (length as))"
  unfolding next_attempt_def by (simp add: well_named_numbers foldl_max_upt [unfolded One_nat_def] del: upt_Suc)

section \<open>Updating one row of a list\<close>

lemma update_first_length [simp]: "length (update_first P f xs) = length xs"
  by (induction xs) auto

lemma update_first_map: "(\<And>x. g (f x) = g x) \<Longrightarrow> map g (update_first P f xs) = map g xs"
  by (induction xs) auto

lemma update_first_none: "\<forall>x \<in> set xs. \<not> P x \<Longrightarrow> update_first P f xs = xs"
  by (induction xs) auto

lemma update_first_nth:
  "i < length xs \<Longrightarrow> update_first P f xs ! i =
     (if P (xs ! i) \<and> (\<forall>j < i. \<not> P (xs ! j)) then f (xs ! i) else xs ! i)"
proof (induction xs arbitrary: i)
  case (Cons x xs)
  then show ?case by (cases i) (auto simp: less_Suc_eq_0_disj)
qed simp

lemma update_first_set: "x \<in> set (update_first P f xs) \<Longrightarrow> x \<in> set xs \<or> (\<exists>y \<in> set xs. P y \<and> x = f y)"
  by (induction xs) (auto split: if_splits)

lemma stamp_attempt_id [simp]: "at_id (stamp_attempt s a) = at_id a"
  by (cases s) (simp_all add: stamp_attempt_def)

lemma stamp_attempts_ids [simp]: "map at_id (rc_attempts (stamp_rec att s rec)) = map at_id (rc_attempts rec)"
  unfolding stamp_rec_def by (simp add: update_first_map)

lemma stamp_rec_length [simp]: "length (rc_attempts (stamp_rec att s rec)) = length (rc_attempts rec)"
  by (simp add: stamp_rec_def)

lemma well_named_cong: "map at_id as = map at_id bs \<Longrightarrow> well_named as \<longleftrightarrow> well_named bs"
  unfolding well_named_def by (metis length_map)

lemma committed_rec_ids [simp]:
  "map at_id (rc_attempts (committed_rec to stamp rec)) = map at_id (rc_attempts rec)"
  by (auto simp: committed_rec_def split: option.splits prod.splits)

section \<open>Claims\<close>

lemma claim_entries_msgs:
  "claim_entries now owner kind limit vis es = (ms, es') \<Longrightarrow>
     map oe_msg es' = map oe_msg es
     \<and> (\<forall>m \<in> set ms. \<exists>e \<in> set es'. oe_msg e = m \<and> oe_claimed_until e = Some (now + max 0 vis))
     \<and> (\<forall>m \<in> set ms. \<exists>e \<in> set es. oe_msg e = m \<and> claimable now kind e)"
proof (induction now owner kind limit vis es arbitrary: ms es' rule: claim_entries.induct)
  case (2 now owner kind limit vis e es)
  show ?case
  proof (cases "limit = 0")
    case False
    then show ?thesis using "2.prems" "2.IH"
      by (cases "claimable now kind e") (auto split: prod.splits)
  qed (use "2.prems" in auto)
qed simp

definition outbox_ids :: "store \<Rightarrow> int list" where
  "outbox_ids st = map (\<lambda>e. om_id (oe_msg e)) (st_outbox st)"

lemma enqueue_ids:
  assumes "outbox_ids st = map int [1..<Suc (length (st_outbox st))]"
  shows "outbox_ids (enqueue_outbox m st) = map int [1..<Suc (length (st_outbox (enqueue_outbox m st)))]"
  using assms by (auto simp: enqueue_outbox_def outbox_ids_def)

lemma ids_distinct: "outbox_ids st = map int [1..<Suc (length (st_outbox st))] \<Longrightarrow> distinct (outbox_ids st)"
  by (simp add: distinct_map del: upt_Suc)

section \<open>Properties\<close>



text \<open>The outbox is exactly-once on its key. However many messages are enqueued and however
  often, in a store with distinct keys every key that was there or was enqueued has exactly one
  entry afterwards, the entries that were there keep their place and body, and keys stay
  distinct.\<close>

theorem outbox_exactly_once:
  assumes "distinct (map fst (outbox_entries st))"
  shows "distinct (map fst (outbox_entries (enqueue_all ms st)))
    \<and> (\<exists>new. outbox_entries (enqueue_all ms st) = outbox_entries st @ new)
    \<and> (\<forall>k. k \<in> fst ` set (outbox_entries st) \<union> om_idempotency_key ` set ms
         \<longrightarrow> (\<exists>!b. (k, b) \<in> set (outbox_entries (enqueue_all ms st))))"
  using ob.enq_all_distinct [OF assms] ob.enq_all_prefix ob.exactly_once [OF assms]
  by (auto simp: enqueue_all_enq image_image)

definition example_msg :: outbox_message where
  "example_msg = \<lparr>om_id = 0, om_run = ''r'', om_kind = ''run.status'', om_payload = PayloadNull,
     om_idempotency_key = ''k'', om_at = 7\<rparr>"

theorem outbox_exactly_once_witness:
  "\<exists>!b. (''k'', b) \<in> set (outbox_entries (enqueue_all [example_msg, example_msg] empty_store))"
proof -
  have "distinct (map fst (outbox_entries empty_store))"
    by (simp add: outbox_entries_def empty_store_def)
  from outbox_exactly_once [OF this, of "[example_msg, example_msg]"] show ?thesis
    by (simp add: example_msg_def)
qed

text \<open>C6: a deposed leader writes nothing. Once another owner has been granted the lease, then
  whatever lease calls and other writes follow, every write the old term fences (the claim of ready
  steps, a promotion, a slot, a gate wait, a run transition) is refused with \<open>NotLeader\<close> and leaves
  the store unchanged.\<close>

theorem deposed_leader_writes_nothing:
  assumes "holds_leader_term st l"
    and "fst (lease now (lt_resource l) owner ttl st) = Inr g" "le_owner g = owner" "owner \<noteq> lt_owner l"
    and "st_leases st' = st_leases (lease_calls cs (snd (lease now (lt_resource l) owner ttl st)))"
  shows "claim_ready_steps l limit mint st' = (Inl NotLeader, st')
    \<and> promote_step l run step signature events st' = Inl NotLeader
    \<and> acquire_slot l grp run st' = (Inl NotLeader, st')
    \<and> open_gate_wait l run step started_at at st' = (Inl NotLeader, st')
    \<and> commit_run_transition (Some l) run from to generation events outbox st' = Inl NotLeader"
proof -
  have "\<not> holds_leader_term (lease_calls cs (snd (lease now (lt_resource l) owner ttl st))) l"
    using takeover_bumps [OF assms(2,3,1) refl] assms(4) by (intro deposed_forever) simp
  then have d: "\<not> holds_leader_term st' l"
    using assms(5) by (simp add: holds_leader_term_def)
  with f_claim.refuse f_slot.refuse f_wait.refuse show ?thesis
    by (simp add: promote_step_def commit_run_transition_def holds_leader_term_if_def)
qed

theorem deposed_leader_writes_nothing_witness:
  "commit_run_transition (Some \<lparr>lt_resource = ''scheduler'', lt_owner = ''a'', lt_term = 1\<rparr>)
     ''r'' RPending RRunning 0 [] []
     (snd (lease 50 ''scheduler'' ''b'' 10 (snd (lease 0 ''scheduler'' ''a'' 30 empty_store)))) = Inl NotLeader"
proof -
  let ?st = "snd (lease 0 ''scheduler'' ''a'' 30 empty_store)"
  let ?l = "\<lparr>lt_resource = ''scheduler'', lt_owner = ''a'', lt_term = 1\<rparr> :: leader_term"
  let ?g = "\<lparr>le_owner = ''b'', le_expires_at = 10, le_term = 2\<rparr> :: lease_rec"
  have h: "holds_leader_term ?st ?l" by code_simp
  have g: "fst (lease 50 (lt_resource ?l) ''b'' 10 ?st) = Inr ?g" by code_simp
  have "st_leases (snd (lease 50 ''scheduler'' ''b'' 10 ?st))
      = st_leases (lease_calls [] (snd (lease 50 (lt_resource ?l) ''b'' 10 ?st)))" by simp
  from deposed_leader_writes_nothing [OF h g _ _ this] show ?thesis by simp
qed

text \<open>A claimed message is one drainer's. A message handed out by a claim is not handed out
  again by any claim, of any owner or kind, made before its visibility window ends.\<close>

theorem outbox_claim_exclusive:
  assumes "distinct (outbox_ids st)"
    and "claim_outbox now owner kind limit vis st = (Inr ms, st1)" "m \<in> set ms"
    and "claim_outbox now' owner' kind' limit' vis' st1 = (Inr ms', st2)" "now' < now + vis"
  shows "om_id m \<notin> om_id ` set ms'"
proof
  assume "om_id m \<in> om_id ` set ms'"
  then obtain m' where m': "m' \<in> set ms'" "om_id m' = om_id m" by auto
  obtain es where es: "claim_entries now owner kind limit vis (st_outbox st) = (ms, es)"
    and st1: "st1 = st\<lparr>st_outbox := es\<rparr>"
    using assms(2) by (auto simp: claim_outbox_def split: prod.splits)
  obtain es2 where es2: "claim_entries now' owner' kind' limit' vis' es = (ms', es2)"
    using assms(4) st1 by (auto simp: claim_outbox_def split: prod.splits)
  obtain e where e: "e \<in> set es" "oe_msg e = m" "oe_claimed_until e = Some (now + max 0 vis)"
    using claim_entries_msgs [OF es] assms(3) by blast
  obtain e' where e': "e' \<in> set es" "oe_msg e' = m'" "claimable now' kind' e'"
    using claim_entries_msgs [OF es2] m'(1) by blast
  have "distinct (map (\<lambda>e. om_id (oe_msg e)) es)"
    using assms(1) claim_entries_msgs [OF es]
    by (metis (no_types, lifting) comp_apply list.map_comp map_eq_conv outbox_ids_def)
  then have "e' = e" using e e' m'(2) by (auto simp: distinct_map inj_on_def)
  with e e' assms(5) show False by (auto simp: claimable_def)
qed

theorem outbox_claim_exclusive_witness:
  "\<exists>ms' st2. claim_outbox 20 ''d2'' None 10 30
       (snd (claim_outbox 0 ''d1'' None 10 30 (enqueue_outbox example_msg empty_store))) = (Inr ms', st2)
     \<and> om_id (example_msg\<lparr>om_id := 1\<rparr>) \<notin> om_id ` set ms'"
proof -
  let ?s0 = "enqueue_outbox example_msg empty_store"
  let ?s1 = "snd (claim_outbox 0 ''d1'' None 10 30 ?s0)"
  let ?m = "example_msg\<lparr>om_id := 1\<rparr>"
  have d: "distinct (outbox_ids ?s0)" by code_simp
  have "claim_outbox 0 ''d1'' None 10 30 ?s0 = (Inr [?m], ?s1)"
    by (simp add: claim_outbox_def enqueue_outbox_def empty_store_def claimable_def example_msg_def)
  moreover have "claim_outbox 20 ''d2'' None 10 30 ?s1 = (Inr [], snd (claim_outbox 20 ''d2'' None 10 30 ?s1))"
    by (simp add: claim_outbox_def enqueue_outbox_def empty_store_def claimable_def example_msg_def)
  moreover note outbox_claim_exclusive [OF d, of 0 "''d1''" None 10 30 "[?m]" ?s1 ?m 20 "''d2''" None 10 30
      "[]" "snd (claim_outbox 20 ''d2'' None 10 30 ?s1)"]
  ultimately have "claim_outbox 20 ''d2'' None 10 30 ?s1 = (Inr [], snd (claim_outbox 20 ''d2'' None 10 30 ?s1))
      \<and> om_id ?m \<notin> om_id ` set ([] :: outbox_message list)" by simp
  then show ?thesis by blast
qed

end
