(* ===== verification/Rerun_Plan.thy ===== *)
theory Rerun_Plan
  imports Invalidation
begin

text \<open>
  The plan of a rerun (\<^verbatim>\<open>plan_rerun_over\<close>, \<^verbatim>\<open>planned_steps\<close> and the \<^verbatim>\<open>RerunPlan\<close> it returns, in
  \<^verbatim>\<open>crates/scarab-engine/src/scheduler.rs\<close>). The store's reads are the functions \<open>step_inputs\<close> and
  \<open>step_output\<close> of one run; the steps of a run have distinct ids. The lemmas show that the
  widened set is the least set that holds the target, is closed under dependents and reads no
  expired snapshot, and that the disclosure list is a topological order of it.
\<close>

section \<open>Data\<close>

record expired_input =
  ei_consumer :: step_id
  ei_produced_by :: step_id
  ei_root :: string

datatype plan_reason = Target | Cascade | Regenerate | RegenerateCascade

record planned_step =
  ps_step :: step_id
  ps_reason :: plan_reason
  ps_because_of :: "step_id option"
  ps_is_gate :: bool

record rerun_plan =
  rp_target :: step_id
  rp_invalidated :: "step_id list"
  rp_widened :: "step_id list"
  rp_expired :: "expired_input list"
  rp_starts_from :: "step_id list"
  rp_steps :: "planned_step list"

definition is_widened :: "rerun_plan \<Rightarrow> bool" where
  "is_widened p \<longleftrightarrow> rp_widened p \<noteq> []"

section \<open>Widening over expired snapshots\<close>

text \<open>The producers the set consumes from outside itself, with their recorded snapshots.\<close>

definition boundary ::
  "step_run list \<Rightarrow> (step_id \<Rightarrow> step_id list option) \<Rightarrow> (step_id \<rightharpoonup> string) \<Rightarrow> step_id set
     \<Rightarrow> (step_id \<times> step_id \<times> string) list" where
  "boundary steps step_inputs output_of invalid =
     concat (map (\<lambda>s. if sr_step s \<notin> invalid then []
       else concat (map (\<lambda>p. if p \<in> invalid then []
              else case output_of p of None \<Rightarrow> [] | Some root \<Rightarrow> [(sr_step s, p, root)])
            (consumed (sr_needs s) (step_inputs (sr_step s))))) steps)"

fun probe ::
  "(string \<Rightarrow> bool) \<Rightarrow> (step_id \<times> step_id \<times> string) list \<Rightarrow> step_id list \<times> expired_input list
     \<Rightarrow> step_id list \<times> expired_input list" where
  "probe present [] (new_roots, expired) = (new_roots, expired)"
| "probe present ((consumer, producer, root) # bs) (new_roots, expired) =
     (if \<not> present root \<and> producer \<notin> set new_roots
      then probe present bs (new_roots @ [producer],
             expired @ [\<lparr>ei_consumer = consumer, ei_produced_by = producer, ei_root = root\<rparr>])
      else probe present bs (new_roots, expired))"

definition recorded_output :: "step_run list \<Rightarrow> (step_id \<rightharpoonup> string) \<Rightarrow> step_id \<rightharpoonup> string" where
  "recorded_output steps step_output p =
     (if p \<in> set (map sr_step steps) then step_output p else None)"

lemma boundary_set:
  "(c, p, r) \<in> set (boundary steps si out I) \<longleftrightarrow>
     (\<exists>s \<in> set steps. sr_step s = c \<and> c \<in> I \<and> p \<in> set (consumed (sr_needs s) (si c))
        \<and> p \<notin> I \<and> out p = Some r)"
  by (force simp: boundary_def split: if_splits option.splits)

lemma probe_roots:
  "set (fst (probe present bs (nr, ex))) = set nr \<union> {p. \<exists>c r. (c, p, r) \<in> set bs \<and> \<not> present r}"
proof (induction bs arbitrary: nr ex)
  case (Cons b bs)
  obtain c p r where b: "b = (c, p, r)" by (cases b)
  show ?case using Cons.IH by (auto simp: b)
qed simp

lemma probe_expired:
  "e \<in> set (snd (probe present bs (nr, ex))) \<Longrightarrow>
     e \<in> set ex \<or> ((ei_consumer e, ei_produced_by e, ei_root e) \<in> set bs \<and> \<not> present (ei_root e))"
proof (induction bs arbitrary: nr ex)
  case (Cons b bs)
  obtain c p r where b: "b = (c, p, r)" by (cases b)
  from Cons.prems Cons.IH show ?case by (fastforce simp: b split: if_splits)
qed simp

lemma probe_producers:
  "set (map ei_produced_by (snd (probe present bs (nr, ex))))
     = set (map ei_produced_by ex) \<union> (set (fst (probe present bs (nr, ex))) - set nr)"
proof (induction bs arbitrary: nr ex)
  case (Cons b bs)
  obtain c p r where b: "b = (c, p, r)" by (cases b)
  show ?case
  proof (cases "\<not> present r \<and> p \<notin> set nr")
    case True
    have "p \<in> set (fst (probe present bs (nr @ [p], ex @ [\<lparr>ei_consumer = c, ei_produced_by = p, ei_root = r\<rparr>])))"
      by (simp add: probe_roots)
    with True show ?thesis using Cons.IH by (auto simp: b)
  next
    case False
    then show ?thesis using Cons.IH by (auto simp: b)
  qed
qed simp

function widen_loop ::
  "step_run list \<Rightarrow> (step_id \<Rightarrow> step_id list option) \<Rightarrow> (step_id \<rightharpoonup> string) \<Rightarrow> (string \<Rightarrow> bool)
     \<Rightarrow> step_id set \<Rightarrow> expired_input list \<Rightarrow> step_id set \<times> expired_input list" where
  "widen_loop steps step_inputs step_output present invalid expired =
     (case probe present
        (remdups_adj (sort (boundary steps step_inputs (recorded_output steps step_output) invalid)))
        ([], expired) of
        (new_roots, expired') \<Rightarrow>
          if new_roots = [] then (invalid, expired')
          else widen_loop steps step_inputs step_output present
                 (foldl (\<lambda>I r. I \<union> invalidation_set r steps) invalid new_roots) expired')"
  by pat_completeness auto

lemma foldl_inval: "foldl (\<lambda>I r. I \<union> invalidation_set r steps) I rs = I \<union> (\<Union>r \<in> set rs. invalidation_set r steps)"
  by (induction rs arbitrary: I) auto

lemma new_root_boundary:
  assumes "p \<in> set (fst (probe present (remdups_adj (sort (boundary steps si out I))) ([], ex)))"
  shows "\<exists>c r. (c, p, r) \<in> set (boundary steps si out I) \<and> \<not> present r"
  using assms by (auto simp: probe_roots)

termination widen_loop
proof (relation "measure (\<lambda>(steps, si, so, present, I, ex). card (sr_step ` set steps - I))", goal_cases)
  case 1
  then show ?case by simp
next
  case (2 steps si so present I ex nr ex')
  then have "nr \<noteq> []" and nr: "nr = fst (probe present
      (remdups_adj (sort (boundary steps si (recorded_output steps so) I))) ([], ex))"
    by (simp, metis fst_conv)
  define p where "p = hd nr"
  have p: "p \<in> set nr" using \<open>nr \<noteq> []\<close> by (simp add: p_def)
  from p nr obtain c r where b: "(c, p, r) \<in> set (boundary steps si (recorded_output steps so) I)"
    using new_root_boundary by metis
  then have "p \<in> sr_step ` set steps" and "p \<notin> I"
    by (auto simp: boundary_set recorded_output_def split: if_splits)
  moreover have "p \<in> foldl (\<lambda>I r. I \<union> invalidation_set r steps) I nr"
    using p invalidation_set_target [of p steps] by (auto simp: foldl_inval simp del: invalidation_set_target)
  ultimately have "sr_step ` set steps - foldl (\<lambda>I r. I \<union> invalidation_set r steps) I nr
      \<subset> sr_step ` set steps - I"
    by (auto simp: foldl_inval)
  then show ?case by (simp add: psubset_card_mono)
qed

declare widen_loop.simps [simp del]

text \<open>The specification of the widening: no member of the set reads a snapshot that is gone.\<close>

definition inputs_available ::
  "step_run list \<Rightarrow> (step_id \<Rightarrow> step_id list option) \<Rightarrow> (step_id \<rightharpoonup> string) \<Rightarrow> (string \<Rightarrow> bool)
     \<Rightarrow> step_id set \<Rightarrow> bool" where
  "inputs_available steps step_inputs step_output present I \<longleftrightarrow>
     (\<forall>s \<in> set steps. sr_step s \<in> I \<longrightarrow>
        (\<forall>p \<in> set (consumed (sr_needs s) (step_inputs (sr_step s))). \<forall>r.
           p \<notin> I \<longrightarrow> recorded_output steps step_output p = Some r \<longrightarrow> present r))"

lemma widen_loop_spec:
  assumes "closed_under_needs steps I"
  shows "I \<subseteq> fst (widen_loop steps si so present I ex)
    \<and> closed_under_needs steps (fst (widen_loop steps si so present I ex))
    \<and> inputs_available steps si so present (fst (widen_loop steps si so present I ex))
    \<and> (\<forall>J. I \<subseteq> J \<and> closed_under_needs steps J \<and> inputs_available steps si so present J
          \<longrightarrow> fst (widen_loop steps si so present I ex) \<subseteq> J)
    \<and> fst (widen_loop steps si so present I ex) \<subseteq> I \<union> sr_step ` set steps"
  using assms
proof (induction steps si so present I ex rule: widen_loop.induct)
  case (1 steps si so present I ex)
  let ?B = "boundary steps si (recorded_output steps so) I"
  obtain nr ex' where p: "probe present (remdups_adj (sort ?B)) ([], ex) = (nr, ex')" by fastforce
  have roots: "set nr = {q. \<exists>c r. (c, q, r) \<in> set ?B \<and> \<not> present r}"
    using probe_roots [of present "remdups_adj (sort ?B)" "[]" ex] p by simp
  let ?I = "foldl (\<lambda>I r. I \<union> invalidation_set r steps) I nr"
  have unfold: "widen_loop steps si so present I ex
      = (if nr = [] then (I, ex') else widen_loop steps si so present ?I ex')"
    by (subst widen_loop.simps) (simp add: p)
  show ?case
  proof (cases "nr = []")
    case True
    then have "inputs_available steps si so present I"
      using roots by (auto simp: inputs_available_def boundary_set)
    with True unfold "1.prems" show ?thesis by auto
  next
    case False
    have closed: "closed_under_needs steps ?I"
      using "1.prems" invalidation_set_closed [of steps]
      by (simp add: foldl_inval closed_under_needs_def) blast
    have ids: "?I \<subseteq> I \<union> sr_step ` set steps"
    proof -
      have "r \<in> sr_step ` set steps" if "r \<in> set nr" for r
        using that roots by (auto simp: boundary_set recorded_output_def split: if_splits)
      then show ?thesis using invalidation_set_ids by (fastforce simp: foldl_inval)
    qed
    have into: "?I \<subseteq> J" if J: "I \<subseteq> J" "closed_under_needs steps J" "inputs_available steps si so present J" for J
    proof -
      have "q \<in> J" if q: "q \<in> set nr" for q
      proof (rule ccontr)
        assume "q \<notin> J"
        from q roots obtain c r where "(c, q, r) \<in> set ?B" and gone: "\<not> present r" by blast
        then obtain s where "s \<in> set steps" "sr_step s \<in> I"
          "q \<in> set (consumed (sr_needs s) (si (sr_step s)))" "recorded_output steps so q = Some r"
          by (auto simp: boundary_set)
        with J \<open>q \<notin> J\<close> have "present r" unfolding inputs_available_def by blast
        with gone show False ..
      qed
      then have "invalidation_set q steps \<subseteq> J" if "q \<in> set nr" for q
        using that J(2) invalidation_set_least by blast
      then show ?thesis using J(1) by (simp add: foldl_inval UN_subset_iff)
    qed
    have IH: "?I \<subseteq> fst (widen_loop steps si so present ?I ex')
      \<and> closed_under_needs steps (fst (widen_loop steps si so present ?I ex'))
      \<and> inputs_available steps si so present (fst (widen_loop steps si so present ?I ex'))
      \<and> (\<forall>J. ?I \<subseteq> J \<and> closed_under_needs steps J \<and> inputs_available steps si so present J
            \<longrightarrow> fst (widen_loop steps si so present ?I ex') \<subseteq> J)
      \<and> fst (widen_loop steps si so present ?I ex') \<subseteq> ?I \<union> sr_step ` set steps"
      using "1.IH" [OF p [symmetric] False closed] .
    have mono: "I \<subseteq> ?I" by (simp add: foldl_inval)
    let ?W = "fst (widen_loop steps si so present ?I ex')"
    have w: "fst (widen_loop steps si so present I ex) = ?W" using unfold False by simp
    have "I \<subseteq> ?W" using mono IH by (meson subset_trans)
    moreover have "?W \<subseteq> J" if "I \<subseteq> J" "closed_under_needs steps J" "inputs_available steps si so present J" for J
      using IH into [OF that] that(2,3) by simp
    moreover have "?W \<subseteq> I \<union> sr_step ` set steps"
    proof -
      have "?I \<union> sr_step ` set steps \<subseteq> I \<union> sr_step ` set steps" using ids by simp
      with IH show ?thesis by (meson subset_trans)
    qed
    ultimately show ?thesis unfolding w using IH by simp
  qed
qed

lemma widen_loop_expired:
  assumes "\<forall>e \<in> set ex. \<not> present (ei_root e)"
  shows "\<forall>e \<in> set (snd (widen_loop steps si so present I ex)). \<not> present (ei_root e)"
  using assms
proof (induction steps si so present I ex rule: widen_loop.induct)
  case (1 steps si so present I ex)
  let ?B = "boundary steps si (recorded_output steps so) I"
  obtain nr ex' where p: "probe present (remdups_adj (sort ?B)) ([], ex) = (nr, ex')" by fastforce
  have "\<forall>e \<in> set ex'. \<not> present (ei_root e)"
    using probe_expired [of _ present "remdups_adj (sort ?B)" "[]" ex] p "1.prems" by auto
  with "1.IH" [OF p [symmetric]] show ?case
    by (subst widen_loop.simps) (simp add: p)
qed

lemma probe_keeps: "set ex \<subseteq> set (snd (probe present bs (nr, ex)))"
proof (induction bs arbitrary: nr ex)
  case (Cons b bs)
  obtain c p r where b: "b = (c, p, r)" by (cases b)
  have "set ex \<subseteq> set (snd (probe present bs (nr @ [p], ex @ [e])))" for e
    using Cons.IH [of "ex @ [e]" "nr @ [p]"] by simp
  with Cons.IH show ?case by (simp add: b)
qed simp

lemma widen_loop_keeps: "set ex \<subseteq> set (snd (widen_loop steps si so present I ex))"
proof (induction steps si so present I ex rule: widen_loop.induct)
  case (1 steps si so present I ex)
  let ?B = "boundary steps si (recorded_output steps so) I"
  obtain nr ex' where p: "probe present (remdups_adj (sort ?B)) ([], ex) = (nr, ex')" by fastforce
  have "set ex \<subseteq> set ex'" using probe_keeps [of ex present "remdups_adj (sort ?B)" "[]"] p by simp
  with "1.IH" [OF p [symmetric]] show ?case
    by (subst widen_loop.simps) (auto simp: p)
qed

section \<open>The disclosure list\<close>

definition consumer_of :: "expired_input list \<Rightarrow> step_id \<Rightarrow> step_id option" where
  "consumer_of expired x =
     map_option ei_consumer (List.find (\<lambda>e. ei_produced_by e = x) expired)"

definition min_id :: "step_id list \<Rightarrow> step_id option" where
  "min_id xs = (if xs = [] then None else Some (Min (set xs)))"

definition reason_of ::
  "step_id \<Rightarrow> step_id set \<Rightarrow> step_id set \<Rightarrow> expired_input list \<Rightarrow> step_run
     \<Rightarrow> plan_reason \<times> step_id option" where
  "reason_of target invalid base expired s =
     (if sr_step s = target then (Target, None)
      else case consumer_of expired (sr_step s) of
        Some consumer \<Rightarrow> (Regenerate, Some consumer)
      | None \<Rightarrow>
          (let parent = min_id (filter (\<lambda>n. n \<in> invalid) (sr_needs s)) in
           if sr_step s \<in> base then (Cascade, parent) else (RegenerateCascade, parent)))"

definition planned ::
  "step_id \<Rightarrow> step_id set \<Rightarrow> step_id set \<Rightarrow> expired_input list \<Rightarrow> step_run \<Rightarrow> planned_step" where
  "planned target invalid base expired s =
     (case reason_of target invalid base expired s of
        (reason, because_of) \<Rightarrow>
          \<lparr>ps_step = sr_step s, ps_reason = reason, ps_because_of = because_of,
           ps_is_gate = is_gate s\<rparr>)"

text \<open>Kahn's algorithm over the members still to emit, kept in id order (the \<^verbatim>\<open>BTreeMap\<close>): each
  round emits the members whose needs inside the set were emitted in earlier rounds.\<close>

definition kahn_ready :: "step_id set \<Rightarrow> step_run list \<Rightarrow> step_id set \<Rightarrow> step_run list" where
  "kahn_ready invalid remaining emitted =
     filter (\<lambda>s. list_all (\<lambda>n. n \<notin> invalid \<or> n \<in> emitted) (sr_needs s)) remaining"

definition kahn_rest :: "step_run list \<Rightarrow> step_run list \<Rightarrow> step_run list" where
  "kahn_rest remaining ready = filter (\<lambda>s. sr_step s \<notin> sr_step ` set ready) remaining"

lemma kahn_ready_set:
  "s \<in> set (kahn_ready V rem em) \<longleftrightarrow>
     s \<in> set rem \<and> (\<forall>n \<in> set (sr_needs s). n \<in> V \<longrightarrow> n \<in> em)"
  by (auto simp: kahn_ready_def list_all_iff)

lemma kahn_rest_shorter:
  assumes "kahn_ready V rem em \<noteq> []"
  shows "length (kahn_rest rem (kahn_ready V rem em)) < length rem"
proof -
  obtain s where s: "s \<in> set (kahn_ready V rem em)" using assms hd_in_set by blast
  then have "s \<in> set rem" by (simp add: kahn_ready_set)
  with s show ?thesis by (auto simp: kahn_rest_def intro!: length_filter_less)
qed

function kahn :: "step_id set \<Rightarrow> step_run list \<Rightarrow> step_id set \<Rightarrow> step_run list" where
  "kahn invalid remaining emitted =
     (if remaining = [] then []
      else let ready = kahn_ready invalid remaining emitted in
        if ready = [] then remaining
        else ready @ kahn invalid (kahn_rest remaining ready) (emitted \<union> sr_step ` set ready))"
  by pat_completeness auto
termination
  by (relation "measure (\<lambda>(invalid, remaining, emitted). length remaining)")
     (simp_all add: kahn_rest_shorter)

declare kahn.simps [simp del]

definition by_id :: "step_run list \<Rightarrow> step_run list" where
  "by_id ss = map snd (sort_key fst (foldl (\<lambda>m s. al_put (sr_step s) s m) [] ss))"

definition planned_steps ::
  "step_id \<Rightarrow> step_run list \<Rightarrow> step_id set \<Rightarrow> step_id set \<Rightarrow> expired_input list
     \<Rightarrow> planned_step list" where
  "planned_steps target steps invalid base expired =
     map (planned target invalid base expired)
       (kahn invalid (by_id (filter (\<lambda>s. sr_step s \<in> invalid) steps)) {})"

section \<open>The plan\<close>

definition plan_rerun_over ::
  "(string \<Rightarrow> bool) option \<Rightarrow> (step_id \<Rightarrow> step_id list option) \<Rightarrow> (step_id \<rightharpoonup> string)
     \<Rightarrow> step_id \<Rightarrow> step_run list \<Rightarrow> rerun_plan" where
  "plan_rerun_over snapshots step_inputs step_output target steps =
     (let base = invalidation_set target steps;
          (invalid, expired) =
            (case snapshots of
               None \<Rightarrow> (base, [])
             | Some present \<Rightarrow> widen_loop steps step_inputs step_output present base [])
      in \<lparr>rp_target = target,
          rp_invalidated = sorted_list_of_set invalid,
          rp_widened = sorted_list_of_set (invalid - base),
          rp_expired = expired,
          rp_starts_from =
            sort (map sr_step (filter (\<lambda>s. sr_step s \<in> invalid
                    \<and> \<not> list_ex (\<lambda>n. n \<in> invalid) (sr_needs s)) steps)),
          rp_steps = planned_steps target steps invalid base expired\<rparr>)"

lemma finite_needs_edge: "finite (needs_edge steps)"
proof -
  have "needs_edge steps \<subseteq> (\<Union>s \<in> set steps. (\<lambda>n. (n, sr_step s)) ` set (sr_needs s))"
    by (auto simp: needs_edge_def)
  then show ?thesis by (rule finite_subset) simp
qed

lemma finite_invalidation_set [simp]: "finite (invalidation_set target steps)"
  using invalidation_set_ids by (rule finite_subset) simp

lemma finite_widened:
  "finite (fst (widen_loop steps si so present (invalidation_set target steps) ex))"
  by (rule finite_subset [OF conjunct2 [OF conjunct2 [OF conjunct2 [OF conjunct2
        [OF widen_loop_spec [OF invalidation_set_closed]]]]]]) simp

section \<open>The order of the disclosure list\<close>

text \<open>In a topological order every need inside the set comes before the step that has it.\<close>

fun topo_from :: "step_id set \<Rightarrow> step_id set \<Rightarrow> step_run list \<Rightarrow> bool" where
  "topo_from invalid emitted [] = True"
| "topo_from invalid emitted (s # ss) =
     ((\<forall>n \<in> set (sr_needs s). n \<in> invalid \<longrightarrow> n \<in> emitted)
      \<and> topo_from invalid (insert (sr_step s) emitted) ss)"

lemma topo_from_append:
  "topo_from V em (xs @ ys) \<longleftrightarrow> topo_from V em xs \<and> topo_from V (em \<union> sr_step ` set xs) ys"
  by (induction xs arbitrary: em) simp_all

lemma topo_from_ready:
  "\<forall>s \<in> set xs. \<forall>n \<in> set (sr_needs s). n \<in> V \<longrightarrow> n \<in> em \<Longrightarrow> topo_from V em xs"
  by (induction xs arbitrary: em) auto

lemma kahn_rest_filter:
  assumes "distinct (map sr_step rem)"
  shows "kahn_rest rem (kahn_ready V rem em)
       = filter (\<lambda>s. \<not> list_all (\<lambda>n. n \<notin> V \<or> n \<in> em) (sr_needs s)) rem"
  unfolding kahn_rest_def
  by (rule filter_cong) (use assms in \<open>auto simp: kahn_ready_def distinct_map dest: inj_onD\<close>)

lemma kahn_mset:
  assumes "distinct (map sr_step rem)"
  shows "mset (kahn V rem em) = mset rem"
  using assms
proof (induction V rem em rule: kahn.induct)
  case (1 V rem em)
  let ?rdy = "kahn_ready V rem em"
  show ?case
  proof (cases "rem = [] \<or> ?rdy = []")
    case True
    then show ?thesis by (subst kahn.simps) auto
  next
    case False
    have "distinct (map sr_step (kahn_rest rem ?rdy))"
      using "1.prems" by (simp add: kahn_rest_def distinct_map_filter)
    then have "mset (kahn V (kahn_rest rem ?rdy) (em \<union> sr_step ` set ?rdy)) = mset (kahn_rest rem ?rdy)"
      using "1.IH" False by simp
    then have "mset (kahn V rem em) = mset ?rdy + mset (kahn_rest rem ?rdy)"
      using False by (subst kahn.simps) (simp add: Let_def)
    also have "\<dots> = mset rem"
      unfolding kahn_rest_filter [OF "1.prems"] by (simp add: kahn_ready_def)
    finally show ?thesis .
  qed
qed

text \<open>With acyclic needs some remaining member is always ready, so every round makes progress and
  the emission order is topological.\<close>

lemma kahn_progress:
  assumes "acyclic (needs_edge steps)" and "set rem \<subseteq> set steps" and "rem \<noteq> []"
    and "V \<subseteq> em \<union> sr_step ` set rem"
  shows "kahn_ready V rem em \<noteq> []"
proof -
  have "wf (needs_edge steps)"
    using assms(1) finite_needs_edge finite_acyclic_wf by blast
  moreover have "sr_step ` set rem \<noteq> {}" using assms(3) by simp
  ultimately obtain z where z: "z \<in> sr_step ` set rem"
    and min: "\<And>y. (y, z) \<in> needs_edge steps \<Longrightarrow> y \<notin> sr_step ` set rem"
    by (metis wfE_min ex_in_conv)
  then obtain s where s: "s \<in> set rem" "sr_step s = z" by auto
  have "n \<in> em" if "n \<in> set (sr_needs s)" "n \<in> V" for n
  proof -
    have "(n, z) \<in> needs_edge steps" using s that assms(2) by (auto simp: needs_edge_def)
    then show ?thesis using min that assms(4) by blast
  qed
  with s(1) have "s \<in> set (kahn_ready V rem em)" by (simp add: kahn_ready_set)
  then show ?thesis by auto
qed

lemma kahn_topological:
  assumes "acyclic (needs_edge steps)" and "set rem \<subseteq> set steps"
    and "distinct (map sr_step rem)" and "V \<subseteq> em \<union> sr_step ` set rem"
  shows "topo_from V em (kahn V rem em)"
  using assms
proof (induction V rem em rule: kahn.induct)
  case (1 V rem em)
  let ?rdy = "kahn_ready V rem em"
  show ?case
  proof (cases "rem = []")
    case True
    then show ?thesis by (subst kahn.simps) simp
  next
    case False
    have rdy: "?rdy \<noteq> []" using kahn_progress "1.prems" False by blast
    have rest: "set (kahn_rest rem ?rdy) \<subseteq> set steps" "distinct (map sr_step (kahn_rest rem ?rdy))"
      "V \<subseteq> (em \<union> sr_step ` set ?rdy) \<union> sr_step ` set (kahn_rest rem ?rdy)"
      using "1.prems" by (auto simp: kahn_rest_def distinct_map_filter)
    have "topo_from V (em \<union> sr_step ` set ?rdy) (kahn V (kahn_rest rem ?rdy) (em \<union> sr_step ` set ?rdy))"
      using "1.IH" [OF False refl rdy "1.prems"(1) rest] .
    moreover have "topo_from V em ?rdy" by (rule topo_from_ready) (simp add: kahn_ready_set)
    ultimately show ?thesis
      using False rdy by (subst kahn.simps) (simp add: topo_from_append Let_def)
  qed
qed

lemma topo_from_split:
  assumes "topo_from V em (xs @ s # ys)" and "n \<in> set (sr_needs s)" and "n \<in> V"
  shows "n \<in> em \<union> sr_step ` set xs"
  using assms by (simp add: topo_from_append)

lemma al_put_fresh: "k \<notin> fst ` set m \<Longrightarrow> al_put k v m = m @ [(k, v)]"
  by (induction m) auto

lemma by_id_fold:
  assumes "distinct (map sr_step ss)" and "fst ` set m \<inter> sr_step ` set ss = {}"
  shows "foldl (\<lambda>m s. al_put (sr_step s) s m) m ss = m @ map (\<lambda>s. (sr_step s, s)) ss"
  using assms by (induction ss arbitrary: m) (auto simp: al_put_fresh)

lemma mset_by_id: "distinct (map sr_step ss) \<Longrightarrow> mset (by_id ss) = mset ss"
  by (simp add: by_id_def by_id_fold flip: mset_map) (simp add: image_mset.compositionality comp_def)

lemma by_id_distinct: "distinct (map sr_step ss) \<Longrightarrow> distinct (map sr_step (by_id ss))"
  by (metis mset_by_id mset_map mset_eq_imp_distinct_iff)

section \<open>Why a member is in the set\<close>

lemma invalidation_set_parent:
  assumes "x \<in> invalidation_set r steps" and "x \<noteq> r" and "distinct (map sr_step steps)"
    and "s \<in> set steps" and "sr_step s = x"
  shows "\<exists>n \<in> set (sr_needs s). n \<in> invalidation_set r steps"
proof -
  from assms(1,2) obtain n where n: "(r, n) \<in> (needs_edge steps)\<^sup>*" and e: "(n, x) \<in> needs_edge steps"
    by (auto simp: invalidation_set_eq elim: rtranclE)
  then obtain s' where "s' \<in> set steps" "sr_step s' = x" "n \<in> set (sr_needs s')"
    by (auto simp: needs_edge_def)
  with assms(3-5) have "n \<in> set (sr_needs s)" by (metis distinct_map inj_onD)
  with n show ?thesis by (auto simp: invalidation_set_eq)
qed

lemma widen_loop_shape:
  assumes "(\<Union>e \<in> set ex. invalidation_set (ei_produced_by e) steps) \<subseteq> I"
  shows "fst (widen_loop steps si so present I ex)
     = I \<union> (\<Union>e \<in> set (snd (widen_loop steps si so present I ex)). invalidation_set (ei_produced_by e) steps)"
  using assms
proof (induction steps si so present I ex rule: widen_loop.induct)
  case (1 steps si so present I ex)
  let ?B = "boundary steps si (recorded_output steps so) I"
  let ?U = "\<lambda>es. \<Union>e \<in> set es. invalidation_set (ei_produced_by e) steps"
  obtain nr ex' where p: "probe present (remdups_adj (sort ?B)) ([], ex) = (nr, ex')" by fastforce
  have "ei_produced_by ` set ex' = ei_produced_by ` set ex \<union> set nr"
    using probe_producers [of present "remdups_adj (sort ?B)" "[]" ex] p by simp
  moreover have im: "?U es = (\<Union>r \<in> ei_produced_by ` set es. invalidation_set r steps)" for es by simp
  ultimately have U: "?U ex' = ?U ex \<union> (\<Union>r \<in> set nr. invalidation_set r steps)"
    by (simp only: im UN_Un)
  let ?I = "foldl (\<lambda>I r. I \<union> invalidation_set r steps) I nr"
  have sub: "?U ex' \<subseteq> ?I" using U "1.prems" by (auto simp: foldl_inval)
  have I: "?I = I \<union> ?U ex'" using U "1.prems" by (auto simp: foldl_inval)
  show ?case
  proof (cases "nr = []")
    case True
    then show ?thesis using U "1.prems" by (subst (1 2) widen_loop.simps) (auto simp: p)
  next
    case False
    define W where "W = widen_loop steps si so present ?I ex'"
    have w: "widen_loop steps si so present I ex = W"
      using False by (subst widen_loop.simps) (simp add: p W_def)
    have IH: "fst W = ?I \<union> ?U (snd W)" using "1.IH" [OF p [symmetric] False sub] by (simp add: W_def)
    have "set ex' \<subseteq> set (snd W)" unfolding W_def by (rule widen_loop_keeps)
    then have "?U ex' \<subseteq> ?U (snd W)" by blast
    with IH I w show ?thesis by auto
  qed
qed

section \<open>Facts about whole plans\<close>

lemma plan_widened:
  fixes present si so target steps
  defines "p \<equiv> plan_rerun_over (Some present) si so target steps"
    and "W \<equiv> widen_loop steps si so present (invalidation_set target steps) []"
  shows "set (rp_invalidated p) = fst W" and "rp_expired p = snd W"
    and "set (rp_widened p) = fst W - invalidation_set target steps"
    and "rp_steps p = planned_steps target steps (fst W) (invalidation_set target steps) (snd W)"
  unfolding p_def W_def plan_rerun_over_def Let_def using finite_widened
  by (simp_all add: case_prod_unfold)

lemma plan_plain:
  "set (rp_invalidated (plan_rerun_over None si so target steps)) = invalidation_set target steps"
  "rp_widened (plan_rerun_over None si so target steps) = []"
  by (simp_all add: plan_rerun_over_def Let_def)

lemma planned_steps_order:
  fixes target base ex
  assumes "acyclic (needs_edge steps)" and "distinct (map sr_step steps)" and "V \<subseteq> sr_step ` set steps"
  defines "out \<equiv> planned_steps target steps V base ex"
  shows "distinct (map ps_step out)" and "set (map ps_step out) = V"
    and "out = xs @ q # ys \<Longrightarrow> s \<in> set steps \<Longrightarrow> sr_step s = ps_step q \<Longrightarrow> n \<in> set (sr_needs s)
           \<Longrightarrow> n \<in> V \<Longrightarrow> n \<in> ps_step ` set xs"
proof -
  let ?rem = "by_id (filter (\<lambda>s. sr_step s \<in> V) steps)"
  let ?k = "kahn V ?rem {}"
  have ps: "ps_step (planned target V base ex s) = sr_step s" for s
    by (simp add: planned_def case_prod_unfold)
  have d: "distinct (map sr_step (filter (\<lambda>s. sr_step s \<in> V) steps))"
    using assms(2) by (rule distinct_map_filter)
  have mrem: "mset ?rem = mset (filter (\<lambda>s. sr_step s \<in> V) steps)" using d by (rule mset_by_id)
  have drem: "distinct (map sr_step ?rem)" using d by (rule by_id_distinct)
  have mk: "mset ?k = mset ?rem" using drem by (rule kahn_mset)
  have srem: "set ?rem = {s \<in> set steps. sr_step s \<in> V}" using mset_eq_setD [OF mrem] by auto
  have sk: "set ?k = {s \<in> set steps. sr_step s \<in> V}" using mset_eq_setD [OF mk] srem by simp
  have ids: "map ps_step out = map sr_step ?k" by (simp add: out_def planned_steps_def ps comp_def)
  show "distinct (map ps_step out)" unfolding ids using drem mk by (metis mset_map mset_eq_imp_distinct_iff)
  show "set (map ps_step out) = V" unfolding ids using sk assms(3) by auto
  show "n \<in> ps_step ` set xs" if out: "out = xs @ q # ys" and s: "s \<in> set steps" "sr_step s = ps_step q"
      and n: "n \<in> set (sr_needs s)" "n \<in> V"
  proof -
    from out obtain xk sk' yk where k: "?k = xk @ sk' # yk" and xs: "xs = map (planned target V base ex) xk"
      and q: "q = planned target V base ex sk'"
      by (auto simp: out_def planned_steps_def map_eq_append_conv map_eq_Cons_conv)
    have "sk' \<in> set steps" using sk k by auto
    moreover have "sr_step sk' = sr_step s" using s(2) q ps by simp
    ultimately have "sk' = s" using s(1) assms(2) by (metis distinct_map inj_onD)
    moreover have "topo_from V {} ?k"
      by (rule kahn_topological [OF assms(1) _ drem]) (use srem assms(3) in auto)
    ultimately have "n \<in> sr_step ` set xk" using topo_from_split [of V "{}" xk s yk n] k n by simp
    then show ?thesis by (simp add: xs image_image ps)
  qed
qed

lemma min_id_Some: "min_id xs = Some n \<Longrightarrow> n \<in> set xs"
  by (auto simp: min_id_def split: if_splits)

lemma kahn_sub: "set (kahn V rem em) \<subseteq> set rem"
proof (induction V rem em rule: kahn.induct)
  case (1 V rem em)
  have "set (kahn_ready V rem em) \<subseteq> set rem" by (auto simp: kahn_ready_set)
  moreover have "set (kahn_rest rem r) \<subseteq> set rem" for r by (auto simp: kahn_rest_def)
  ultimately show ?case using "1.IH" by (subst kahn.simps) (auto simp: Let_def, blast)
qed

lemma planned_steps_member:
  assumes "q \<in> set (planned_steps target steps V base ex)" and "distinct (map sr_step steps)"
  obtains s where "s \<in> set steps" "sr_step s \<in> V" "q = planned target V base ex s"
proof -
  from assms(1) obtain s where s: "s \<in> set (by_id (filter (\<lambda>s. sr_step s \<in> V) steps))"
    and q: "q = planned target V base ex s"
    using kahn_sub by (fastforce simp: planned_steps_def)
  have "distinct (map sr_step (filter (\<lambda>s. sr_step s \<in> V) steps))"
    using assms(2) by (rule distinct_map_filter)
  from mset_eq_setD [OF mset_by_id [OF this]] s have "s \<in> set steps" "sr_step s \<in> V" by auto
  with q that show thesis by blast
qed

lemma map_member: "x \<in> set (map f xs) \<Longrightarrow> \<exists>q. q \<in> set xs \<and> f q = x"
  by auto

lemma consumer_of_Some: "(\<exists>c. consumer_of ex x = Some c) \<longleftrightarrow> x \<in> ei_produced_by ` set ex"
  by (auto simp: consumer_of_def find_None_iff dest: find_Some_mem)
     (metis (mono_tags, lifting) find_None_iff option.exhaust)

lemma example_acyclic:
  assumes "\<forall>s \<in> set steps. \<forall>n \<in> set (sr_needs s). rank n < (rank (sr_step s) :: nat)"
  shows "acyclic (needs_edge steps)"
proof (rule wf_acyclic)
  have "needs_edge steps \<subseteq> measure rank" using assms by (auto simp: needs_edge_def)
  then show "wf (needs_edge steps)" by (rule wf_subset [rotated]) simp
qed

section \<open>Properties\<close>

text \<open>The invalidation set is the target and its transitive dependents, no more and no less:
  the code's fixpoint loop computes the reachability closure of the \<open>needs\<close> edges, and a rerun
  without a snapshot store plans exactly that set.\<close>

theorem invalidation_set_reachability:
  "invalidation_set target steps = {t. (target, t) \<in> (needs_edge steps)\<^sup>*}
   \<and> set (rp_invalidated (plan_rerun_over None si so target steps)) = {t. (target, t) \<in> (needs_edge steps)\<^sup>*}
   \<and> \<not> is_widened (plan_rerun_over None si so target steps)"
  by (auto simp: invalidation_set_eq plan_plain is_widened_def)

text \<open>C21: a widened rerun is complete and minimal. With the snapshot store at hand the planned set
  holds the target, is closed under dependents, and no step of it consumes a recorded snapshot
  that is gone from outside the set; it is the least such set; and every expired input it
  reports names a root the store really lacks.\<close>

theorem rerun_plan_least:
  fixes present si so target steps
  defines "plan \<equiv> plan_rerun_over (Some present) si so target steps"
  shows "target \<in> set (rp_invalidated plan)
    \<and> closed_under_needs steps (set (rp_invalidated plan))
    \<and> inputs_available steps si so present (set (rp_invalidated plan))
    \<and> (\<forall>J. target \<in> J \<and> closed_under_needs steps J \<and> inputs_available steps si so present J
          \<longrightarrow> set (rp_invalidated plan) \<subseteq> J)
    \<and> (\<forall>e. e \<in> set (rp_expired plan) \<longrightarrow> \<not> present (ei_root e))"
proof -
  let ?b = "invalidation_set target steps"
  note w = widen_loop_spec [OF invalidation_set_closed, of target steps si so present "[]"]
  have "?b \<subseteq> J" if "target \<in> J" "closed_under_needs steps J" for J
    using invalidation_set_least that by blast
  with w widen_loop_expired [of "[]" present steps si so ?b] show ?thesis
    unfolding plan_def plan_widened by (simp; metis invalidation_set_target subsetD)
qed

definition example_steps :: "step_run list" where
  "example_steps =
     [\<lparr>sr_run = ''r'', sr_step = ''clone'', sr_status = SSucceeded, sr_attempts = [], sr_needs = [], sr_gate_kind = None\<rparr>,
      \<lparr>sr_run = ''r'', sr_step = ''build'', sr_status = SSucceeded, sr_attempts = [], sr_needs = [''clone''], sr_gate_kind = None\<rparr>,
      \<lparr>sr_run = ''r'', sr_step = ''test'', sr_status = SFailed, sr_attempts = [], sr_needs = [''build''], sr_gate_kind = None\<rparr>]"

theorem rerun_plan_least_witness:
  "''test'' \<in> set (rp_invalidated (plan_rerun_over (Some (\<lambda>r. r = ''c0'')) (\<lambda>_. None)
       [''clone'' \<mapsto> ''c0'', ''build'' \<mapsto> ''b0''] ''test'' example_steps))
   \<and> set (rp_invalidated (plan_rerun_over (Some (\<lambda>r. r = ''c0'')) (\<lambda>_. None)
       [''clone'' \<mapsto> ''c0'', ''build'' \<mapsto> ''b0''] ''test'' example_steps)) \<subseteq> {''build'', ''test''}"
proof -
  let ?so = "[''clone'' \<mapsto> ''c0'', ''build'' \<mapsto> ''b0'']"
  have "closed_under_needs example_steps {''build'', ''test''}"
    by (simp add: closed_under_needs_def example_steps_def)
  moreover have "inputs_available example_steps (\<lambda>_. None) ?so (\<lambda>r. r = ''c0'') {''build'', ''test''}"
    by (simp add: inputs_available_def example_steps_def consumed_def recorded_output_def)
  ultimately show ?thesis
    using rerun_plan_least [of "''test''" "\<lambda>r. r = ''c0''" "\<lambda>_. None" ?so example_steps] by blast
qed

text \<open>The disclosure list runs. For a pipeline with acyclic needs and distinct step ids the
  listed steps are exactly the planned set, each once, and every step comes after each of its
  needs that is also re-run.\<close>

theorem planned_steps_topological:
  fixes present si so target steps
  assumes "acyclic (needs_edge steps)" and "distinct (map sr_step steps)"
    and "target \<in> sr_step ` set steps"
  defines "plan \<equiv> plan_rerun_over (Some present) si so target steps"
  shows "distinct (map ps_step (rp_steps plan))
    \<and> set (map ps_step (rp_steps plan)) = set (rp_invalidated plan)
    \<and> (\<forall>xs q ys s n. rp_steps plan = xs @ q # ys \<and> s \<in> set steps \<and> sr_step s = ps_step q
          \<and> n \<in> set (sr_needs s) \<and> n \<in> set (rp_invalidated plan) \<longrightarrow> n \<in> ps_step ` set xs)"
proof -
  have "fst (widen_loop steps si so present (invalidation_set target steps) []) \<subseteq> sr_step ` set steps"
    using widen_loop_spec [OF invalidation_set_closed, of target steps si so present "[]"]
      invalidation_set_ids [of target steps] assms(3) by blast
  from planned_steps_order [OF assms(1,2) this] show ?thesis
    unfolding plan_def plan_widened by blast
qed

theorem planned_steps_topological_witness:
  "distinct (map ps_step (rp_steps (plan_rerun_over (Some (\<lambda>_. False)) (\<lambda>_. None)
     [''clone'' \<mapsto> ''c0'', ''build'' \<mapsto> ''b0''] ''test'' example_steps)))"
proof -
  let ?rank = "\<lambda>x. if x = ''clone'' then 0 else if x = ''build'' then 1 else (2::nat)"
  have "acyclic (needs_edge example_steps)"
    by (rule example_acyclic [of _ ?rank]) (simp add: example_steps_def)
  moreover have "distinct (map sr_step example_steps)" "''test'' \<in> sr_step ` set example_steps"
    by (simp_all add: example_steps_def)
  ultimately show ?thesis using planned_steps_topological by blast
qed

text \<open>Every member of a widened plan is attributed. The target is the only step with reason
  \<open>Target\<close> and the only one without a cause; a \<open>Regenerate\<close> step is the producer of a reported
  expired input; a \<open>Cascade\<close> step depends on the target; a \<open>RegenerateCascade\<close> step is there only by
  the widening; and the cause of a cascade is one of the step's own needs inside the set.\<close>

theorem planned_steps_attributed:
  fixes present si so target steps
  assumes "distinct (map sr_step steps)"
  defines "plan \<equiv> plan_rerun_over (Some present) si so target steps"
  assumes "q \<in> set (rp_steps plan)"
  shows "(ps_reason q = Target \<longleftrightarrow> ps_step q = target)
    \<and> (ps_because_of q = None \<longleftrightarrow> ps_step q = target)
    \<and> (ps_reason q = Regenerate \<longrightarrow> ps_step q \<in> ei_produced_by ` set (rp_expired plan))
    \<and> (ps_reason q = Cascade \<longrightarrow> ps_step q \<in> invalidation_set target steps)
    \<and> (ps_reason q = RegenerateCascade \<longrightarrow> ps_step q \<in> set (rp_widened plan))
    \<and> (\<forall>n. ps_reason q \<in> {Cascade, RegenerateCascade} \<and> ps_because_of q = Some n
          \<longrightarrow> n \<in> set (rp_invalidated plan)
            \<and> (\<exists>s. s \<in> set steps \<and> sr_step s = ps_step q \<and> n \<in> set (sr_needs s)))"
proof -
  define b where "b = invalidation_set target steps"
  define W where "W = widen_loop steps si so present b []"
  note pw = plan_widened [of present si so target steps, folded plan_def b_def, folded W_def]
  obtain s where s: "s \<in> set steps" "sr_step s \<in> fst W" and q: "q = planned target (fst W) b (snd W) s"
    using assms(3) planned_steps_member [OF _ assms(1)] unfolding pw(4) by blast
  have shape: "fst W = b \<union> (\<Union>e \<in> set (snd W). invalidation_set (ei_produced_by e) steps)"
    using widen_loop_shape [where ex = "[]"] by (simp add: W_def)
  have parent: "\<exists>n \<in> set (sr_needs s). n \<in> fst W"
    if "sr_step s \<noteq> target" "sr_step s \<notin> ei_produced_by ` set (snd W)"
  proof -
    have "\<exists>r. sr_step s \<in> invalidation_set r steps \<and> sr_step s \<noteq> r \<and> invalidation_set r steps \<subseteq> fst W"
      using s(2) that shape unfolding b_def by blast
    then show ?thesis using invalidation_set_parent [OF _ _ assms(1) s(1) refl] by blast
  qed
  have mem: "n \<in> fst W \<and> n \<in> set (sr_needs s)" if "min_id (filter (\<lambda>n. n \<in> fst W) (sr_needs s)) = Some n" for n
    using min_id_Some [OF that] by simp
  have some: "\<exists>n. min_id (filter (\<lambda>n. n \<in> fst W) (sr_needs s)) = Some n"
    if "sr_step s \<noteq> target" "sr_step s \<notin> ei_produced_by ` set (snd W)"
    using parent [OF that] by (auto simp: min_id_def filter_empty_conv)
  show ?thesis
  proof (cases "sr_step s = target \<or> sr_step s \<in> ei_produced_by ` set (snd W)")
    case True
    then show ?thesis
      using consumer_of_Some [of "snd W" "sr_step s"]
      by (auto simp: q planned_def reason_of_def pw split: option.splits)
  next
    case False
    then have "consumer_of (snd W) (sr_step s) = None"
      using consumer_of_Some [of "snd W" "sr_step s"] by (metis option.exhaust)
    moreover from False some obtain n where n: "min_id (filter (\<lambda>n. n \<in> fst W) (sr_needs s)) = Some n"
      by blast
    moreover note mem [OF n]
    ultimately show ?thesis using False s b_def
      by (simp add: q planned_def reason_of_def pw Let_def) blast
  qed
qed

theorem planned_steps_attributed_witness:
  "\<exists>q. q \<in> set (rp_steps (plan_rerun_over (Some (\<lambda>_. True)) (\<lambda>_. None) Map.empty ''test'' example_steps))
     \<and> ps_step q = ''test'' \<and> ps_because_of q = None"
proof -
  let ?plan = "plan_rerun_over (Some (\<lambda>_. True)) (\<lambda>_. None) Map.empty ''test'' example_steps"
  let ?rank = "\<lambda>x. if x = ''clone'' then 0 else if x = ''build'' then 1 else (2::nat)"
  have d: "distinct (map sr_step example_steps)" and t: "''test'' \<in> sr_step ` set example_steps"
    by (simp_all add: example_steps_def)
  have a: "acyclic (needs_edge example_steps)"
    by (rule example_acyclic [of _ ?rank]) (simp add: example_steps_def)
  have "fst (widen_loop example_steps (\<lambda>_. None) Map.empty (\<lambda>_. True) (invalidation_set ''test'' example_steps) [])
      \<subseteq> sr_step ` set example_steps"
    using widen_loop_spec [OF invalidation_set_closed, of "''test''" example_steps "\<lambda>_. None" Map.empty "\<lambda>_. True" "[]"]
      invalidation_set_ids [of "''test''" example_steps] t by blast
  then have eq: "set (map ps_step (rp_steps ?plan)) = set (rp_invalidated ?plan)"
    unfolding plan_widened by (rule planned_steps_order(2) [OF a d])
  have "''test'' \<in> set (rp_invalidated ?plan)"
    unfolding plan_widened
    by (rule subsetD [OF conjunct1 [OF widen_loop_spec [OF invalidation_set_closed]] invalidation_set_target])
  from map_member [OF subsetD [OF equalityD2 [OF eq] this]] obtain q
    where q: "q \<in> set (rp_steps ?plan) \<and> ps_step q = ''test''" by (rule exE)
  have "ps_because_of q = None"
    by (rule iffD2 [OF conjunct1 [OF conjunct2 [OF planned_steps_attributed [OF d conjunct1 [OF q]]]] conjunct2 [OF q]])
  with q have "q \<in> set (rp_steps ?plan) \<and> ps_step q = ''test'' \<and> ps_because_of q = None" by (elim conjE) (intro conjI)
  then show ?thesis by (rule exI)
qed

end
