(* ===== verification/Commits.thy ===== *)
theory Commits
  imports Store_Laws Rerun_Plan
begin

text \<open>
  The transactions of the scheduler (\<^verbatim>\<open>crates/scarab-engine/src/scheduler.rs\<close>): each is one call of
  the store that carries a status change together with everything the change owes, so that no crash
  falls between them. A re-arm carries the supersession of the attempt it interrupts and the
  teardown of its unit, a cancel carries the cancellation and its teardown, a claim carries the new
  attempt and its launch intent, a verdict carries the attempt's stamp, a run transition carries its
  status post. \<open>now\<close> is the clock's answer.
\<close>

section \<open>Outbox messages and their keys\<close>

definition LAUNCH_STEP :: string where "LAUNCH_STEP = ''launch_step''"
definition RUN_STATUS_CHANGED :: string where "RUN_STATUS_CHANGED = ''run_status_changed''"
definition RUN_FINISHED :: string where "RUN_FINISHED = ''run_finished''"
definition CANCEL_RUN :: string where "CANCEL_RUN = ''cancel_run''"
definition CANCEL_ATTEMPT :: string where "CANCEL_ATTEMPT = ''cancel_attempt''"
definition SUPERSEDE_TEARDOWN :: string where "SUPERSEDE_TEARDOWN = ''supersede_teardown''"

definition launch_key :: "run_id \<Rightarrow> step_id \<Rightarrow> attempt_id \<Rightarrow> string" where
  "launch_key run step att = ''launch:'' @ run @ ''/'' @ step @ ''/'' @ att"

definition supersede_key :: "run_id \<Rightarrow> step_id \<Rightarrow> step_id \<Rightarrow> attempt_id \<Rightarrow> string" where
  "supersede_key run target step att =
     ''supersede:'' @ run @ '':'' @ target @ '':'' @ step @ ''/'' @ att"

definition cancel_key :: "run_id \<Rightarrow> step_id \<Rightarrow> attempt_id \<Rightarrow> string" where
  "cancel_key run step att = ''cancel:'' @ run @ '':'' @ step @ ''/'' @ att"

definition run_status_debug :: "run_status \<Rightarrow> string" where
  "run_status_debug s =
     (case s of RPending \<Rightarrow> ''Pending'' | RRunning \<Rightarrow> ''Running'' | RSuspended \<Rightarrow> ''Suspended''
      | RSucceeded \<Rightarrow> ''Succeeded'' | RFailed \<Rightarrow> ''Failed'' | RCancelled \<Rightarrow> ''Cancelled''
      | RDeadLettered \<Rightarrow> ''DeadLettered'')"

definition run_status_post_key :: "run_id \<Rightarrow> nat \<Rightarrow> run_status \<Rightarrow> string" where
  "run_status_post_key run generation to =
     ''status:'' @ run @ '':g'' @ nat_str generation @ '':'' @ run_status_debug to"

definition run_finished_key :: "run_id \<Rightarrow> nat \<Rightarrow> run_status \<Rightarrow> string" where
  "run_finished_key run generation to =
     ''finished:'' @ run @ '':g'' @ nat_str generation @ '':'' @ run_status_debug to"

definition message :: "run_id \<Rightarrow> string \<Rightarrow> payload \<Rightarrow> string \<Rightarrow> timestamp \<Rightarrow> outbox_message" where
  "message run kind p key at =
     \<lparr>om_id = 0, om_run = run, om_kind = kind, om_payload = p, om_idempotency_key = key, om_at = at\<rparr>"

definition supersede_teardown_intent ::
  "run_id \<Rightarrow> step_id \<Rightarrow> teardown_attempt \<Rightarrow> timestamp \<Rightarrow> outbox_message" where
  "supersede_teardown_intent run target superseded now =
     message run SUPERSEDE_TEARDOWN (AttemptTeardown [superseded])
       (supersede_key run target (td_step superseded) (td_attempt superseded)) now"

definition cancel_attempt_intent ::
  "run_id \<Rightarrow> step_id \<Rightarrow> attempt_id \<Rightarrow> timestamp \<Rightarrow> outbox_message" where
  "cancel_attempt_intent run step att now =
     message run CANCEL_ATTEMPT (AttemptTeardown [\<lparr>td_step = step, td_attempt = att\<rparr>])
       (cancel_key run step att) now"

text \<open>\<open>nonce\<close> is the sixteen hexadecimal digits of the per-call random hash.\<close>

definition cancel_services_intent_through ::
  "string \<Rightarrow> run_id \<Rightarrow> int \<Rightarrow> timestamp \<Rightarrow> outbox_message" where
  "cancel_services_intent_through nonce run through_take now =
     message run CANCEL_RUN (ServicesTeardown through_take)
       (''cancel:'' @ run @ '':services:'' @ nonce) now"

definition current_service_take :: "run_service list \<Rightarrow> int" where
  "current_service_take rows = (if rows = [] then 1 else Max (set (map sv_take rows)))"

definition cancel_services_intent :: "string \<Rightarrow> run_id \<Rightarrow> timestamp \<Rightarrow> store \<Rightarrow> outbox_message" where
  "cancel_services_intent nonce run now st =
     cancel_services_intent_through nonce run (current_service_take (run_services run st)) now"

section \<open>Step transactions\<close>

definition step_moved :: "run_id \<Rightarrow> step_id \<Rightarrow> step_status \<Rightarrow> step_status \<Rightarrow> timestamp \<Rightarrow> event_kind" where
  "step_moved run step from to now = event run (StepTransitioned step from to) now"

definition commit_rearm ::
  "timestamp \<Rightarrow> run_id \<Rightarrow> step_id \<Rightarrow> step_run \<Rightarrow> string option \<Rightarrow> store \<Rightarrow> db_error + store" where
  "commit_rearm now run target s by =
     (let moved = step_moved run (sr_step s) (sr_status s) SPending now in
      if sr_status s = SRunning then
        (let frontier = FrontierIs (map_option at_id (last_opt (sr_attempts s))) in
         case in_flight_attempt s of
           None \<Rightarrow> commit_step_transition run (sr_step s) (sr_status s) SPending frontier None [moved] []
         | Some a \<Rightarrow>
             commit_step_transition run (sr_step s) (sr_status s) SPending frontier
               (Some (at_id a, StampOutcome AOSuperseded))
               [moved, event run (AttemptSuperseded (sr_step s) (at_id a) by) now]
               [supersede_teardown_intent run target \<lparr>td_step = sr_step s, td_attempt = at_id a\<rparr> now])
      else commit_step_transition run (sr_step s) (sr_status s) SPending FrontierAny None [moved] [])"

text \<open>One round of \<^verbatim>\<open>cancel_step\<close>: the commit that drives the step as read to \<open>Cancelled\<close>.\<close>

definition cancel_step_commit ::
  "timestamp \<Rightarrow> run_id \<Rightarrow> step_run \<Rightarrow> store \<Rightarrow> db_error + store" where
  "cancel_step_commit now run s =
     (let frontier = (if sr_status s = SRunning
                      then FrontierIs (map_option at_id (last_opt (sr_attempts s))) else FrontierAny);
          live = (if sr_status s = SRunning then in_flight_attempt s else None)
      in commit_step_transition run (sr_step s) (sr_status s) SCancelled frontier
           (map_option (\<lambda>a. (at_id a, StampOutcome AOCancelled)) live)
           [step_moved run (sr_step s) (sr_status s) SCancelled now]
           (case live of None \<Rightarrow> [] | Some a \<Rightarrow> [cancel_attempt_intent run (sr_step s) (at_id a) now]))"

definition finalize_stamp ::
  "step_status \<Rightarrow> failure_kind option \<Rightarrow> string option \<Rightarrow> attempt_stamp option" where
  "finalize_stamp to failure cause =
     (if to = SSucceeded then Some (StampOutcome AOSucceeded)
      else if to = SFailed then
        (case failure of Some kind \<Rightarrow> Some (StampFailure kind cause) | None \<Rightarrow> Some (StampOutcome AOFailed))
      else None)"

definition finalize_events ::
  "timestamp \<Rightarrow> run_id \<Rightarrow> step_id \<Rightarrow> attempt_id \<Rightarrow> step_status \<Rightarrow> failure_kind option \<Rightarrow> string option
     \<Rightarrow> event_kind list" where
  "finalize_events at run step att to failure cause =
     [event run (AttemptFinished step att failure cause) at, step_moved run step SRunning to at]"

definition finalize_commit ::
  "timestamp \<Rightarrow> run_id \<Rightarrow> step_id \<Rightarrow> attempt_id \<Rightarrow> step_status \<Rightarrow> failure_kind option \<Rightarrow> string option
     \<Rightarrow> store \<Rightarrow> db_error + store" where
  "finalize_commit now run step att to failure cause =
     commit_step_transition run step SRunning to (FrontierIs (Some att))
       (map_option (\<lambda>s. (att, s)) (finalize_stamp to failure cause))
       (finalize_events now run step att to failure cause) []"

definition rearm_step_commit ::
  "timestamp \<Rightarrow> run_id \<Rightarrow> step_id \<Rightarrow> attempt_id \<Rightarrow> failure_kind \<Rightarrow> string option \<Rightarrow> store \<Rightarrow> db_error + store" where
  "rearm_step_commit now run step att kind cause =
     commit_step_transition run step SRunning SReady (FrontierIs (Some att)) None
       [event run (AttemptFinished step att (Some kind) cause) now, step_moved run step SRunning SReady now] []"

definition skip_unchanged_commit :: "timestamp \<Rightarrow> run_id \<Rightarrow> step_id \<Rightarrow> store \<Rightarrow> db_error + store" where
  "skip_unchanged_commit now run step =
     commit_step_transition run step SPending SSucceeded FrontierAny None
       [event run (StepSkipped step ''inputs unchanged'') now, step_moved run step SPending SSucceeded now] []"

definition transition_step_commit ::
  "timestamp \<Rightarrow> run_id \<Rightarrow> step_id \<Rightarrow> step_status \<Rightarrow> step_status \<Rightarrow> event_payload list
     \<Rightarrow> store \<Rightarrow> db_error + store" where
  "transition_step_commit now run step from to preceding =
     commit_step_transition run step from to FrontierAny None
       (map (\<lambda>k. event run k now) (preceding @ [StepTransitioned step from to])) []"

definition settle_unneeded_commit :: "timestamp \<Rightarrow> run_id \<Rightarrow> step_run \<Rightarrow> store \<Rightarrow> db_error + store" where
  "settle_unneeded_commit now run gate =
     commit_step_transition run (sr_step gate) SPending SSkipped
       (FrontierIs (map_option at_id (last_opt (sr_attempts gate))))
       (map_option (\<lambda>a. (at_id a, StampOutcome AOCancelled)) (open_gate_attempt gate))
       [event run (StepSkipped (sr_step gate) GATE_NO_LONGER_NEEDED) now,
        step_moved run (sr_step gate) SPending SSkipped now] []"

section \<open>Claiming and launching\<close>

text \<open>The launch the admission pass mints for a claimed step.\<close>

definition mint_launch :: "timestamp \<Rightarrow> step_run \<Rightarrow> db_error + step_launch" where
  "mint_launch now claimed =
     (let att = attempt_name (length (sr_attempts claimed) + 1) in
      Inr \<lparr>sl_attempt = \<lparr>at_id = att, at_started_at = now, at_failure = None,
                         at_failure_detail = None, at_outcome = AORunning\<rparr>,
           sl_events = [event (sr_run claimed) (AttemptStarted (sr_step claimed) att) now],
           sl_outbox = [message (sr_run claimed) LAUNCH_STEP
                          (LaunchIntent (sr_run claimed) (sr_step claimed) att)
                          (launch_key (sr_run claimed) (sr_step claimed) att) now]\<rparr>)"

definition promote_commit ::
  "timestamp \<Rightarrow> leader_term \<Rightarrow> run_id \<Rightarrow> step_id \<Rightarrow> string \<Rightarrow> store \<Rightarrow> db_error + store" where
  "promote_commit now leader run step signature =
     promote_step leader run step signature [step_moved run step SPending SReady now]"

section \<open>Run transactions\<close>

definition status_posts ::
  "run_id \<Rightarrow> run_status \<Rightarrow> run_status \<Rightarrow> nat \<Rightarrow> timestamp \<Rightarrow> outbox_message list" where
  "status_posts run from to generation now =
     (let posted = generation + (if run_is_terminal from then 1 else 0) in
      [message run RUN_STATUS_CHANGED (StatusPost to posted) (run_status_post_key run posted to) now]
      @ (if to \<in> {RSucceeded, RFailed} \<and> from \<noteq> RPending
         then [message run RUN_FINISHED (StatusPost to posted) (run_finished_key run posted to) now]
         else []))"

definition commit_run_transition_after ::
  "leader_term option \<Rightarrow> run_id \<Rightarrow> run_status \<Rightarrow> run_status \<Rightarrow> timestamp \<Rightarrow> bool
     \<Rightarrow> outbox_message list \<Rightarrow> event_kind list \<Rightarrow> nat \<Rightarrow> store \<Rightarrow> db_error + store" where
  "commit_run_transition_after leader run from to now notify intents journal generation =
     commit_run_transition leader run from to generation
       (journal @ [event run (RunTransitioned from to) now])
       (intents @ (if notify then status_posts run from to generation now else []))"

definition fail_run_creation_as ::
  "leader_term option \<Rightarrow> run_id \<Rightarrow> string \<Rightarrow> timestamp \<Rightarrow> nat \<Rightarrow> store \<Rightarrow> db_error + store" where
  "fail_run_creation_as leader run reason now =
     commit_run_transition_after leader run RPending RFailed now True []
       [event run (RunCreationFailed reason) now]"

section \<open>Keys name what they tear down\<close>

text \<open>The shape of the ids the keys are built from: a run id holds neither separator; a step id
  may hold a slash (an inlined library step does) but no colon; an attempt id is minted.\<close>

definition run_id_ok :: "run_id \<Rightarrow> bool" where
  "run_id_ok r \<longleftrightarrow> CHR '':'' \<notin> set r \<and> CHR ''/'' \<notin> set r"

definition step_id_ok :: "step_id \<Rightarrow> bool" where
  "step_id_ok s \<longleftrightarrow> CHR '':'' \<notin> set s"

lemma split_first:
  assumes "c \<notin> set a" "c \<notin> set b" "a @ c # x = b @ c # y"
  shows "a = b \<and> x = y"
  using assms
proof (induction a arbitrary: b)
  case Nil
  then show ?case by (cases b) auto
next
  case (Cons d a)
  then show ?case by (cases b) auto
qed

lemma split_last:
  assumes "c \<notin> set x" "c \<notin> set y" "a @ c # x = b @ c # y"
  shows "a = b \<and> x = y"
proof -
  have "rev x @ c # rev a = rev y @ c # rev b" using arg_cong [OF assms(3), of rev] by simp
  from split_first [OF _ _ this] assms(1,2) show ?thesis by simp
qed

lemma digit_char_digit: "d < 10 \<Longrightarrow> digit_char d \<noteq> CHR ''/'' \<and> digit_char d \<noteq> CHR '':''"
proof -
  assume d: "d < 10"
  have "digit_val (CHR ''/'') = None" "digit_val (CHR '':'') = None" by (simp_all add: digit_val_def)
  with digit_val_char [OF d] show ?thesis by (metis option.distinct(1))
qed

lemma nat_str_chars: "CHR ''/'' \<notin> set (nat_str n)"
proof (induction n rule: nat_str.induct)
  case (1 n)
  have "digit_char (n mod 10) \<noteq> CHR ''/''" using digit_char_digit [of "n mod 10"] by simp
  moreover have "n < 10 \<Longrightarrow> digit_char n \<noteq> CHR ''/''" using digit_char_digit by blast
  ultimately show ?case using "1" by (subst nat_str.simps) auto
qed

lemma attempt_name_slash [simp]: "CHR ''/'' \<notin> set (attempt_name n)"
  using nat_str_chars by (simp add: attempt_name_def)

lemma cancel_key_inject:
  assumes "run_id_ok r" "run_id_ok r'" "CHR ''/'' \<notin> set a" "CHR ''/'' \<notin> set a'"
    and "cancel_key r s a = cancel_key r' s' a'"
  shows "r = r' \<and> s = s' \<and> a = a'"
proof -
  have "r @ CHR '':'' # (s @ ''/'' @ a) = r' @ CHR '':'' # (s' @ ''/'' @ a')"
    using assms(5) by (simp add: cancel_key_def)
  with split_first [OF _ _ this] assms(1,2) have "r = r'" "s @ CHR ''/'' # a = s' @ CHR ''/'' # a'"
    by (auto simp: run_id_ok_def)
  with split_last [OF assms(3,4)] show ?thesis by auto
qed

lemma launch_key_inject:
  assumes "run_id_ok r" "run_id_ok r'" "CHR ''/'' \<notin> set a" "CHR ''/'' \<notin> set a'"
    and "launch_key r s a = launch_key r' s' a'"
  shows "r = r' \<and> s = s' \<and> a = a'"
proof -
  have "r @ CHR ''/'' # (s @ ''/'' @ a) = r' @ CHR ''/'' # (s' @ ''/'' @ a')"
    using assms(5) by (simp add: launch_key_def)
  with split_first [OF _ _ this] assms(1,2) have "r = r'" "s @ CHR ''/'' # a = s' @ CHR ''/'' # a'"
    by (auto simp: run_id_ok_def)
  with split_last [OF assms(3,4)] show ?thesis by auto
qed

lemma supersede_key_inject:
  assumes "run_id_ok r" "run_id_ok r'" "step_id_ok t" "step_id_ok t'"
    and "CHR ''/'' \<notin> set a" "CHR ''/'' \<notin> set a'"
    and "supersede_key r t s a = supersede_key r' t' s' a'"
  shows "r = r' \<and> t = t' \<and> s = s' \<and> a = a'"
proof -
  have "r @ CHR '':'' # (t @ '':'' @ s @ ''/'' @ a) = r' @ CHR '':'' # (t' @ '':'' @ s' @ ''/'' @ a')"
    using assms(7) by (simp add: supersede_key_def)
  with split_first [OF _ _ this] assms(1,2)
  have r: "r = r'" and "t @ CHR '':'' # (s @ ''/'' @ a) = t' @ CHR '':'' # (s' @ ''/'' @ a')"
    by (auto simp: run_id_ok_def)
  with split_first [of "CHR '':''" t t'] assms(3,4)
  have "t = t'" "s @ CHR ''/'' # a = s' @ CHR ''/'' # a'" by (auto simp: step_id_ok_def)
  with r split_last [OF assms(5,6)] show ?thesis by auto
qed

text \<open>Without the condition on step ids two supersessions share a key: the second teardown is
  taken for a repeat of the first and never enqueued.\<close>

lemma supersede_key_collision:
  "supersede_key ''r'' ''a'' ''b:c'' ''a1'' = supersede_key ''r'' ''a:b'' ''c'' ''a1''"
  by (simp add: supersede_key_def)

end
