(* ===== verification/Interleaving.thy ===== *)
theory Interleaving
  imports Commits
begin

text \<open>
  The system as a set of actors that share one store: replicas of the scheduler, the API and the
  drainers read snapshots of a run's steps at any time and later commit a transaction built from
  whatever they read, however stale it is by then. A configuration is the store, every snapshot
  ever read, and the attempts some actor has recorded a failure for; \<open>sys_step\<close> is one call of the
  store by one actor. The invariant holds in every reachable configuration: the guards of the
  transactions (status, frontier, stamp, idempotency key) are enough, whatever the interleaving.

  Three conditions are on the transitions rather than proved: ids have the shape of
  \<open>run_id_ok\<close> and \<open>step_id_ok\<close>, a step is created with its gate kind in one go (its run is still
  marked as being created, so no actor picks the step up in between), and a step has fewer than
  \<open>2^64\<close> attempts.
\<close>

section \<open>What a row may become\<close>

definition attempt_evolves :: "attempt \<Rightarrow> attempt \<Rightarrow> bool" where
  "attempt_evolves a a' \<longleftrightarrow> at_id a' = at_id a
     \<and> (at_outcome a \<noteq> AORunning \<longrightarrow> at_outcome a' \<noteq> AORunning)
     \<and> (at_outcome a \<in> {AOSuperseded, AOCancelled} \<longrightarrow> at_outcome a' = at_outcome a)"

definition rec_evolves :: "step_rec \<Rightarrow> step_rec \<Rightarrow> bool" where
  "rec_evolves rec rec' \<longleftrightarrow> rc_gate_kind rec' = rc_gate_kind rec
     \<and> length (rc_attempts rec) \<le> length (rc_attempts rec')
     \<and> (\<forall>i < length (rc_attempts rec). attempt_evolves (rc_attempts rec ! i) (rc_attempts rec' ! i))"

definition evolves :: "store \<Rightarrow> store \<Rightarrow> bool" where
  "evolves st st' \<longleftrightarrow> (\<forall>run step rec. step_of st run step = Some rec \<longrightarrow>
     (\<exists>rec'. step_of st' run step = Some rec' \<and> rec_evolves rec rec'))"

lemma attempt_evolves_refl [simp]: "attempt_evolves a a"
  by (simp add: attempt_evolves_def)

lemma attempt_evolves_trans: "attempt_evolves a b \<Longrightarrow> attempt_evolves b c \<Longrightarrow> attempt_evolves a c"
  by (auto simp: attempt_evolves_def)

lemma rec_evolves_refl [simp]: "rec_evolves rec rec"
  by (simp add: rec_evolves_def)

lemma rec_evolves_trans: "rec_evolves a b \<Longrightarrow> rec_evolves b c \<Longrightarrow> rec_evolves a c"
proof -
  assume ab: "rec_evolves a b" and bc: "rec_evolves b c"
  have "attempt_evolves (rc_attempts a ! i) (rc_attempts c ! i)" if i: "i < length (rc_attempts a)" for i
  proof (rule attempt_evolves_trans)
    show "attempt_evolves (rc_attempts a ! i) (rc_attempts b ! i)" using ab i by (simp add: rec_evolves_def)
    have "i < length (rc_attempts b)" using ab i by (simp add: rec_evolves_def)
    then show "attempt_evolves (rc_attempts b ! i) (rc_attempts c ! i)" using bc by (simp add: rec_evolves_def)
  qed
  with ab bc show ?thesis by (simp add: rec_evolves_def)
qed

lemma evolves_refl [simp]: "evolves st st"
  by (auto simp: evolves_def)

lemma evolves_trans: "evolves a b \<Longrightarrow> evolves b c \<Longrightarrow> evolves a c"
  unfolding evolves_def using rec_evolves_trans by meson

lemma evolves_steps: "st_steps st' = st_steps st \<Longrightarrow> evolves st st'"
  by (auto simp: evolves_def)

lemma evolves_put:
  "step_of st run step = Some rec \<Longrightarrow> rec_evolves rec rec' \<Longrightarrow>
     st_steps st' = al_put (run, step) rec' (st_steps st) \<Longrightarrow> evolves st st'"
  by (auto simp: evolves_def)

lemma stamp_attempt_evolves: "(\<forall>o'. s = StampOutcome o' \<longrightarrow> o' \<noteq> AORunning) \<Longrightarrow> attempt_evolves a (stamp_attempt s a)"
  by (cases s) (auto simp: attempt_evolves_def stamp_attempt_def)

definition stamp_ok :: "(attempt_id \<times> attempt_stamp) option \<Rightarrow> bool" where
  "stamp_ok stamp \<longleftrightarrow> (\<forall>att o'. stamp = Some (att, StampOutcome o') \<longrightarrow> o' \<noteq> AORunning)"

lemma update_first_evolves:
  assumes "\<And>a. a \<in> set as \<Longrightarrow> P a \<Longrightarrow> attempt_evolves a (f a)"
  shows "\<forall>i < length as. attempt_evolves (as ! i) (update_first P f as ! i)"
  using assms by (auto simp: update_first_nth)

lemma committed_rec_evolves: "stamp_ok stamp \<Longrightarrow> rec_evolves rec (committed_rec to stamp rec)"
  unfolding rec_evolves_def committed_rec_def stamp_rec_def stamp_ok_def
  by (auto split: option.splits prod.splits intro!: update_first_evolves [rule_format] stamp_attempt_evolves)

section \<open>The invariant\<close>

definition teardown_of :: "step_id \<Rightarrow> attempt_id \<Rightarrow> payload" where
  "teardown_of step att = AttemptTeardown [\<lparr>td_step = step, td_attempt = att\<rparr>]"

definition teardown_named :: "(string \<times> msg_body) set \<Rightarrow> run_id \<Rightarrow> step_id \<Rightarrow> attempt_id \<Rightarrow> bool" where
  "teardown_named E run step att \<longleftrightarrow> (\<exists>k kind at. (k, run, kind, teardown_of step att, at) \<in> E)"

definition launch_named :: "(string \<times> msg_body) set \<Rightarrow> run_id \<Rightarrow> step_id \<Rightarrow> attempt_id \<Rightarrow> bool" where
  "launch_named E run step att \<longleftrightarrow> (\<exists>kind at. (launch_key run step att, run, kind, LaunchIntent run step att, at) \<in> E)"

definition plain_ok :: "(string \<times> msg_body) set \<Rightarrow> run_id \<Rightarrow> step_id \<Rightarrow> step_rec \<Rightarrow> bool" where
  "plain_ok E run step rec \<longleftrightarrow>
     (\<forall>i < length (rc_attempts rec). at_outcome (rc_attempts rec ! i) = AORunning
        \<longrightarrow> Suc i = length (rc_attempts rec) \<and> rc_status rec = Some SRunning)
     \<and> (\<forall>a \<in> set (rc_attempts rec). at_outcome a \<in> {AOSuperseded, AOCancelled}
        \<longrightarrow> teardown_named E run step (at_id a))
     \<and> (\<forall>a \<in> set (rc_attempts rec). launch_named E run step (at_id a))
     \<and> (rc_status rec = Some SRunning \<longrightarrow> rc_attempts rec \<noteq> []
          \<and> at_outcome (last (rc_attempts rec)) \<notin> {AOSuperseded, AOCancelled})"

definition rec_ok :: "(string \<times> msg_body) set \<Rightarrow> run_id \<Rightarrow> step_id \<Rightarrow> step_rec \<Rightarrow> bool" where
  "rec_ok E run step rec \<longleftrightarrow> run_id_ok run \<and> step_id_ok step \<and> well_named (rc_attempts rec)
     \<and> (rc_gate_kind rec = None \<longrightarrow> plain_ok E run step rec)"

text \<open>A key of one of the three attempt-scoped shapes carries the payload of that shape.\<close>

definition body_fits :: "string \<Rightarrow> msg_body \<Rightarrow> bool" where
  "body_fits k b = (case b of (run, kind, p, at) \<Rightarrow>
     (\<forall>r s a. run_id_ok r \<and> CHR ''/'' \<notin> set a \<and> k = cancel_key r s a \<longrightarrow> run = r \<and> p = teardown_of s a)
     \<and> (\<forall>r t s a. run_id_ok r \<and> step_id_ok t \<and> CHR ''/'' \<notin> set a \<and> k = supersede_key r t s a
          \<longrightarrow> run = r \<and> p = teardown_of s a)
     \<and> (\<forall>r s a. run_id_ok r \<and> CHR ''/'' \<notin> set a \<and> k = launch_key r s a
          \<longrightarrow> run = r \<and> p = LaunchIntent r s a))"

definition retired :: "store \<Rightarrow> run_id \<Rightarrow> teardown_attempt \<Rightarrow> bool" where
  "retired st run td \<longleftrightarrow> (\<exists>rec a. step_of st run (td_step td) = Some rec \<and> a \<in> set (rc_attempts rec)
     \<and> at_id a = td_attempt td \<and> at_outcome a \<noteq> AORunning)"

definition store_ok :: "store \<Rightarrow> bool" where
  "store_ok st \<longleftrightarrow> al_wf (st_steps st)
     \<and> (\<forall>run step rec. step_of st run step = Some rec \<longrightarrow> rec_ok (set (outbox_entries st)) run step rec)
     \<and> (\<forall>k b. (k, b) \<in> set (outbox_entries st) \<longrightarrow> body_fits k b)
     \<and> distinct (map fst (outbox_entries st))
     \<and> (\<forall>k run kind tds at td. (k, run, kind, AttemptTeardown tds, at) \<in> set (outbox_entries st)
          \<longrightarrow> td \<in> set tds \<longrightarrow> retired st run td)"

lemma rec_ok_mono: "E \<subseteq> E' \<Longrightarrow> rec_ok E run step rec \<Longrightarrow> rec_ok E' run step rec"
  unfolding rec_ok_def plain_ok_def teardown_named_def launch_named_def by blast

lemma retired_evolves: "evolves st st' \<Longrightarrow> retired st run td \<Longrightarrow> retired st' run td"
proof -
  assume e: "evolves st st'" and "retired st run td"
  then obtain rec i where r: "step_of st run (td_step td) = Some rec" "i < length (rc_attempts rec)"
    "at_id (rc_attempts rec ! i) = td_attempt td" "at_outcome (rc_attempts rec ! i) \<noteq> AORunning"
    unfolding retired_def by (metis in_set_conv_nth)
  from e r(1) obtain rec' where r': "step_of st' run (td_step td) = Some rec'" "rec_evolves rec rec'"
    unfolding evolves_def by blast
  with r(2) have i: "i < length (rc_attempts rec')"
    and ev: "attempt_evolves (rc_attempts rec ! i) (rc_attempts rec' ! i)"
    by (auto simp: rec_evolves_def)
  have "rc_attempts rec' ! i \<in> set (rc_attempts rec')" using i by simp
  moreover have "at_id (rc_attempts rec' ! i) = td_attempt td" "at_outcome (rc_attempts rec' ! i) \<noteq> AORunning"
    using ev r(3,4) by (auto simp: attempt_evolves_def)
  ultimately show ?thesis using r'(1) unfolding retired_def by blast
qed

lemma outbox_grows: "set (outbox_entries st) \<subseteq> set (outbox_entries (enqueue_all ms st))"
  using ob.enq_all_prefix [of "map (\<lambda>m. (om_idempotency_key m, body_of m)) ms" st]
  by (auto simp: enqueue_all_enq)

lemma enqueued_keys:
  "fst ` set (outbox_entries (enqueue_all ms st)) = fst ` set (outbox_entries st) \<union> om_idempotency_key ` set ms"
  by (simp add: enqueue_all_enq ob.enq_all_keys image_image)

lemma enqueued_origin:
  "(k, b) \<in> set (outbox_entries (enqueue_all ms st)) \<Longrightarrow>
     (k, b) \<in> set (outbox_entries st) \<or> (\<exists>m \<in> set ms. k = om_idempotency_key m \<and> b = body_of m)"
proof (induction ms arbitrary: st)
  case (Cons m ms)
  from Cons.IH [of "enqueue_outbox m st"] Cons.prems enqueue_outbox_entries [of m st]
  show ?case by (cases "om_idempotency_key m \<in> fst ` set (outbox_entries st)") auto
qed simp

definition msg_fits :: "outbox_message \<Rightarrow> bool" where
  "msg_fits m \<longleftrightarrow> body_fits (om_idempotency_key m) (body_of m)"

text \<open>The one lemma behind every transaction: a row evolves, its messages fit their keys, and the
  new row satisfies the invariant over any outbox that holds those keys.\<close>

lemma commit_ok:
  fixes st es ms rec' run step
  defines "st' \<equiv> enqueue_all ms (append_events es (put_step run step rec' st))"
  assumes ok: "store_ok st" and row: "step_of st run step = Some rec" and ev: "rec_evolves rec rec'"
    and fits: "\<And>m. m \<in> set ms \<Longrightarrow> msg_fits m"
    and new: "\<And>E. set (outbox_entries st) \<subseteq> E \<Longrightarrow> (\<And>k b. (k, b) \<in> E \<Longrightarrow> body_fits k b)
        \<Longrightarrow> om_idempotency_key ` set ms \<subseteq> fst ` E \<Longrightarrow> rec_ok E run step rec'"
    and gone: "\<And>m tds td. m \<in> set ms \<Longrightarrow> om_payload m = AttemptTeardown tds \<Longrightarrow> td \<in> set tds
        \<Longrightarrow> om_run m = run \<and> td_step td = step
          \<and> (\<exists>a \<in> set (rc_attempts rec'). at_id a = td_attempt td \<and> at_outcome a \<noteq> AORunning)"
  shows "store_ok st' \<and> evolves st st'"
proof -
  let ?E = "set (outbox_entries st')"
  have steps: "st_steps st' = al_put (run, step) rec' (st_steps st)" by (simp add: st'_def)
  have evo: "evolves st st'" by (rule evolves_put [OF row ev steps])
  have grow: "set (outbox_entries st) \<subseteq> ?E"
    unfolding st'_def using outbox_grows [of "append_events es (put_step run step rec' st)" ms] by simp
  have origin: "(k, b) \<in> set (outbox_entries st) \<or> (\<exists>m \<in> set ms. k = om_idempotency_key m \<and> b = body_of m)"
    if "(k, b) \<in> ?E" for k b
    using enqueued_origin [of k b ms "append_events es (put_step run step rec' st)"] that
    by (simp add: st'_def)
  have body: "body_fits k b" if "(k, b) \<in> ?E" for k b
    using origin [OF that] ok fits unfolding store_ok_def msg_fits_def by blast
  have keys: "om_idempotency_key ` set ms \<subseteq> fst ` ?E"
    unfolding st'_def by (simp add: enqueued_keys)
  have rows: "rec_ok ?E r s rc" if "step_of st' r s = Some rc" for r s rc
  proof (cases "(r, s) = (run, step)")
    case True
    then show ?thesis using that new [OF grow body keys] steps by auto
  next
    case False
    then have "step_of st r s = Some rc" using that steps by auto
    then show ?thesis using ok rec_ok_mono [OF grow] by (auto simp: store_ok_def)
  qed
  have dist: "distinct (map fst (outbox_entries st'))"
    using ob.enq_all_distinct [of "append_events es (put_step run step rec' st)"] ok
    by (simp add: st'_def enqueue_all_enq store_ok_def)
  have ret: "retired st' r td" if "(k, r, kind, AttemptTeardown tds, at) \<in> ?E" "td \<in> set tds" for k r kind tds at td
    using origin [OF that(1)]
  proof
    assume "(k, r, kind, AttemptTeardown tds, at) \<in> set (outbox_entries st)"
    then have "retired st r td" using ok that(2) unfolding store_ok_def by blast
    then show ?thesis using retired_evolves [OF evo] by blast
  next
    assume "\<exists>m \<in> set ms. k = om_idempotency_key m \<and> (r, kind, AttemptTeardown tds, at) = body_of m"
    then obtain m where m: "m \<in> set ms" "om_payload m = AttemptTeardown tds" "om_run m = r"
      by (auto simp: body_of_def)
    from gone [OF m(1,2) that(2)] m(3) steps show ?thesis unfolding retired_def by auto
  qed
  have "al_wf (st_steps st')" using ok steps by (simp add: store_ok_def)
  with rows body dist ret evo show ?thesis unfolding store_ok_def by blast
qed

section \<open>The messages fit their keys\<close>

lemmas key_defs = cancel_key_def supersede_key_def launch_key_def

lemma key_shapes:
  "cancel_key r s a \<noteq> supersede_key r' t' s' a'" "cancel_key r s a \<noteq> launch_key r' s' a'"
  "supersede_key r t s a \<noteq> launch_key r' s' a'"
  by (simp_all add: key_defs)

lemma cancel_intent_fits:
  assumes "run_id_ok r" "CHR ''/'' \<notin> set a"
  shows "msg_fits (cancel_attempt_intent r s a now)"
proof -
  have "r = r' \<and> teardown_of s a = teardown_of s' a'"
    if "run_id_ok r' \<and> CHR ''/'' \<notin> set a' \<and> cancel_key r s a = cancel_key r' s' a'" for r' s' a'
    using cancel_key_inject [of r r' a a' s s'] assms that by simp
  then show ?thesis
    by (simp add: msg_fits_def body_fits_def body_of_def cancel_attempt_intent_def message_def
        teardown_of_def [symmetric] key_shapes) blast
qed

lemma supersede_intent_fits:
  assumes "run_id_ok r" "step_id_ok t" "CHR ''/'' \<notin> set a"
  shows "msg_fits (supersede_teardown_intent r t \<lparr>td_step = s, td_attempt = a\<rparr> now)"
proof -
  have "r = r' \<and> teardown_of s a = teardown_of s' a'"
    if "run_id_ok r' \<and> step_id_ok t' \<and> CHR ''/'' \<notin> set a' \<and> supersede_key r t s a = supersede_key r' t' s' a'"
    for r' t' s' a'
    using supersede_key_inject [of r r' t t' a a' s s'] assms that by simp
  then show ?thesis
    by (simp add: msg_fits_def body_fits_def body_of_def supersede_teardown_intent_def message_def
        teardown_of_def [symmetric] key_shapes key_shapes [symmetric]) blast
qed

lemma launch_fits:
  assumes "run_id_ok r" "CHR ''/'' \<notin> set a"
  shows "msg_fits (message r LAUNCH_STEP (LaunchIntent r s a) (launch_key r s a) now)"
proof -
  have "r = r' \<and> LaunchIntent r s a = LaunchIntent r' s' a'"
    if "run_id_ok r' \<and> CHR ''/'' \<notin> set a' \<and> launch_key r s a = launch_key r' s' a'" for r' s' a'
    using launch_key_inject [of r r' a a' s s'] assms that by simp
  then show ?thesis
    by (simp add: msg_fits_def body_fits_def body_of_def message_def key_shapes [symmetric]) blast
qed

lemma status_posts_fit: "m \<in> set (status_posts run from to g now) \<Longrightarrow> msg_fits m"
  by (auto simp: status_posts_def Let_def msg_fits_def body_fits_def body_of_def message_def
      run_status_post_key_def run_finished_key_def key_defs split: if_splits)

lemma services_intent_fits:
  assumes "run_id_ok run" "CHR ''/'' \<notin> set nonce"
  shows "msg_fits (cancel_services_intent_through nonce run through now)"
proof -
  have "''cancel:'' @ run @ '':services:'' @ nonce \<noteq> cancel_key r s a" if "run_id_ok r" for r s a
  proof
    assume "''cancel:'' @ run @ '':services:'' @ nonce = cancel_key r s a"
    then have e: "run @ CHR '':'' # (''services:'' @ nonce) = r @ CHR '':'' # (s @ ''/'' @ a)"
      by (simp add: cancel_key_def)
    from split_first [OF _ _ e] assms(1) that have eq: "''services:'' @ nonce = s @ ''/'' @ a"
      by (auto simp: run_id_ok_def)
    have "CHR ''/'' \<in> set (s @ ''/'' @ a)" by simp
    then have "CHR ''/'' \<in> set (''services:'' @ nonce)" using eq by simp
    with assms(2) show False by simp
  qed
  then show ?thesis
    by (auto simp: msg_fits_def body_fits_def body_of_def cancel_services_intent_through_def message_def
        supersede_key_def launch_key_def)
qed

text \<open>A key of an attempt-scoped shape that is in the outbox names its attempt there.\<close>

lemma cancel_key_names:
  assumes "\<And>k b. (k, b) \<in> E \<Longrightarrow> body_fits k b" "cancel_key r s a \<in> fst ` E" "run_id_ok r" "CHR ''/'' \<notin> set a"
  shows "teardown_named E r s a"
proof -
  from assms(2) obtain run kind p at where "(cancel_key r s a, run, kind, p, at) \<in> E" by force
  with assms(1) [OF this] assms(3,4) show ?thesis by (auto simp: body_fits_def teardown_named_def)
qed

lemma supersede_key_names:
  assumes "\<And>k b. (k, b) \<in> E \<Longrightarrow> body_fits k b" "supersede_key r t s a \<in> fst ` E"
    and "run_id_ok r" "step_id_ok t" "CHR ''/'' \<notin> set a"
  shows "teardown_named E r s a"
proof -
  from assms(2) obtain run kind p at where "(supersede_key r t s a, run, kind, p, at) \<in> E" by force
  with assms(1) [OF this] assms(3,4,5) show ?thesis by (auto simp: body_fits_def teardown_named_def)
qed

lemma launch_key_names:
  assumes "\<And>k b. (k, b) \<in> E \<Longrightarrow> body_fits k b" "launch_key r s a \<in> fst ` E" "run_id_ok r" "CHR ''/'' \<notin> set a"
  shows "launch_named E r s a"
proof -
  from assms(2) obtain run kind p at where "(launch_key r s a, run, kind, p, at) \<in> E" by force
  with assms(1) [OF this] assms(3,4) show ?thesis by (auto simp: body_fits_def launch_named_def)
qed

section \<open>Leaving Running\<close>

definition quiet :: "step_rec \<Rightarrow> bool" where
  "quiet rec \<longleftrightarrow> (\<forall>a \<in> set (rc_attempts rec). at_outcome a \<noteq> AORunning)"

lemma quiet_status:
  "rec_ok E run step rec \<Longrightarrow> rc_gate_kind rec = None \<Longrightarrow> rc_status rec \<noteq> Some SRunning \<Longrightarrow> quiet rec"
  by (auto simp: rec_ok_def plain_ok_def quiet_def in_set_conv_nth)

lemma running_is_last:
  assumes "rec_ok E run step rec" "rc_gate_kind rec = None" "a \<in> set (rc_attempts rec)" "at_outcome a = AORunning"
  shows "last_opt (rc_attempts rec) = Some a"
proof -
  from assms(3) obtain i where i: "i < length (rc_attempts rec)" "rc_attempts rec ! i = a"
    by (auto simp: in_set_conv_nth)
  then have "Suc i = length (rc_attempts rec)" using assms by (auto simp: rec_ok_def plain_ok_def)
  then have "last (rc_attempts rec) = a" using i by (metis diff_Suc_1 last_conv_nth list.size(3) nat.simps(3))
  moreover have "rc_attempts rec \<noteq> []" using i by auto
  ultimately show ?thesis by (simp add: last_opt_def)
qed

lemma quiet_last:
  assumes "rec_ok E run step rec" "rc_gate_kind rec = None"
    and "\<And>a. last_opt (rc_attempts rec) = Some a \<Longrightarrow> at_outcome a \<noteq> AORunning"
  shows "quiet rec"
  unfolding quiet_def using running_is_last [OF assms(1,2)] assms(3) by blast

lemma stamped_cases:
  assumes "well_named (rc_attempts rec)" "a \<in> set (rc_attempts (committed_rec to (Some (att, s)) rec))"
  shows "(a \<in> set (rc_attempts rec) \<and> at_id a \<noteq> att)
    \<or> (\<exists>b \<in> set (rc_attempts rec). at_id b = att \<and> a = stamp_attempt s b)"
proof -
  let ?as = "rc_attempts rec"
  from assms(2) obtain i where i: "i < length ?as"
    and a: "a = update_first (\<lambda>a. at_id a = att) (stamp_attempt s) ?as ! i"
    by (auto simp: committed_rec_def stamp_rec_def in_set_conv_nth)
  show ?thesis
  proof (cases "at_id (?as ! i) = att")
    case True
    have "at_id (?as ! j) \<noteq> att" if "j < i" for j
      using that i True well_named_nth [OF assms(1)] by auto
    then show ?thesis using a i True by (auto simp: update_first_nth)
  next
    case False
    then show ?thesis using a i by (auto simp: update_first_nth)
  qed
qed

lemma stamp_quiet: "stamp_ok (Some (att, s)) \<Longrightarrow> at_outcome (stamp_attempt s b) \<noteq> AORunning"
  by (cases s) (auto simp: stamp_ok_def stamp_attempt_def)

lemma stamp_intent:
  "at_outcome (stamp_attempt s b) \<in> {AOSuperseded, AOCancelled} \<Longrightarrow>
     at_outcome b \<in> {AOSuperseded, AOCancelled} \<or> s \<in> {StampOutcome AOSuperseded, StampOutcome AOCancelled}"
  by (cases s) (auto simp: stamp_attempt_def split: if_splits)

text \<open>A commit that leaves no attempt running, and whose stamp is by intent only when the teardown
  is in the outbox, keeps the row right whatever the new status.\<close>

lemma retire_ok:
  assumes ok: "rec_ok E run step rec" and "E \<subseteq> E'" and to: "to \<noteq> SRunning"
    and none: "stamp = None \<Longrightarrow> rc_gate_kind rec = None \<Longrightarrow> quiet rec"
    and some: "\<And>att s. stamp = Some (att, s) \<Longrightarrow> stamp_ok stamp
        \<and> map_option at_id (last_opt (rc_attempts rec)) = Some att
        \<and> (s \<in> {StampOutcome AOSuperseded, StampOutcome AOCancelled} \<longrightarrow> rc_gate_kind rec = None
             \<longrightarrow> teardown_named E' run step att)"
  shows "rec_ok E' run step (committed_rec to stamp rec)"
proof -
  let ?r = "committed_rec to stamp rec"
  have ok': "rec_ok E' run step rec" using ok assms(2) rec_ok_mono by blast
  have wn: "well_named (rc_attempts ?r)" using ok well_named_cong [OF committed_rec_ids] by (simp add: rec_ok_def)
  have "plain_ok E' run step ?r" if g: "rc_gate_kind rec = None"
  proof -
    have pl: "plain_ok E' run step rec" using ok' g by (simp add: rec_ok_def)
    have each: "at_outcome a \<noteq> AORunning
        \<and> (at_outcome a \<in> {AOSuperseded, AOCancelled} \<longrightarrow> teardown_named E' run step (at_id a))
        \<and> launch_named E' run step (at_id a)" if a: "a \<in> set (rc_attempts ?r)" for a
    proof (cases stamp)
      case None
      then have "a \<in> set (rc_attempts rec)" using a by (simp add: committed_rec_def)
      then show ?thesis using none [OF None g] pl by (auto simp: quiet_def plain_ok_def)
    next
      case (Some p)
      obtain att s where p: "p = (att, s)" by (cases p)
      note so = some [OF Some [unfolded p]]
      consider "a \<in> set (rc_attempts rec)" "at_id a \<noteq> att"
        | b where "b \<in> set (rc_attempts rec)" "at_id b = att" "a = stamp_attempt s b"
        using stamped_cases [of rec a to att s] a Some p ok by (auto simp: rec_ok_def)
      then show ?thesis
      proof cases
        case 1
        have "at_outcome a \<noteq> AORunning" using running_is_last [OF ok g 1(1)] so 1(2) by auto
        then show ?thesis using 1(1) pl by (auto simp: plain_ok_def)
      next
        case 2
        have "at_outcome a \<noteq> AORunning" using 2(3) stamp_quiet so Some p by metis
        moreover have "teardown_named E' run step (at_id a)" if "at_outcome a \<in> {AOSuperseded, AOCancelled}"
          using stamp_intent [of s b] that 2 so g pl by (auto simp: plain_ok_def)
        moreover have "launch_named E' run step (at_id a)" using 2 pl by (auto simp: plain_ok_def)
        ultimately show ?thesis by blast
      qed
    qed
    then show ?thesis unfolding plain_ok_def using to by (metis committed_rec_sel(1) nth_mem option.inject)
  qed
  with wn ok' show ?thesis by (simp add: rec_ok_def)
qed

lemma store_ok_row: "store_ok st \<Longrightarrow> step_of st run step = Some rec \<Longrightarrow> rec_ok (set (outbox_entries st)) run step rec"
  by (simp add: store_ok_def)

lemma frontier_last:
  "rec_ok E run step rec \<Longrightarrow> frontier_ok (FrontierIs x) rec \<Longrightarrow> map_option at_id (last_opt (rc_attempts rec)) = x"
  by (simp add: frontier_ok_def rec_ok_def latest_attempt_last)

lemma update_first_hit: "\<exists>a \<in> set as. P a \<Longrightarrow> \<exists>a \<in> set as. P a \<and> f a \<in> set (update_first P f as)"
  by (induction as) auto

lemma stamped_last:
  assumes "map_option at_id (last_opt (rc_attempts rec)) = Some att" "stamp_ok (Some (att, s))"
  shows "\<exists>a \<in> set (rc_attempts (committed_rec to (Some (att, s)) rec)). at_id a = att \<and> at_outcome a \<noteq> AORunning"
proof -
  from assms(1) have "\<exists>a \<in> set (rc_attempts rec). at_id a = att" by (auto simp: last_opt_Some)
  from update_first_hit [OF this, of "stamp_attempt s"] obtain b where "at_id b = att"
    "stamp_attempt s b \<in> set (rc_attempts (committed_rec to (Some (att, s)) rec))"
    by (auto simp: committed_rec_def stamp_rec_def)
  then show ?thesis using stamp_quiet [OF assms(2)] by (metis stamp_attempt_id)
qed

text \<open>Every commit that takes a step out of the status it was read in.\<close>

lemma retire_commit_ok:
  assumes ok: "store_ok st"
    and commit: "commit_step_transition run step from to frontier stamp es ms st = Inr st'"
    and to: "to \<noteq> SRunning"
    and none: "\<And>rec. step_of st run step = Some rec \<Longrightarrow> rc_status rec = Some from \<Longrightarrow> frontier_ok frontier rec
        \<Longrightarrow> rc_gate_kind rec = None \<Longrightarrow> stamp = None \<Longrightarrow> quiet rec"
    and some: "\<And>att s. stamp = Some (att, s) \<Longrightarrow> stamp_ok stamp \<and> frontier = FrontierIs (Some att)"
    and fits: "\<And>m. m \<in> set ms \<Longrightarrow> msg_fits m"
    and names: "\<And>att s rec E. stamp = Some (att, s) \<Longrightarrow> s \<in> {StampOutcome AOSuperseded, StampOutcome AOCancelled}
        \<Longrightarrow> step_of st run step = Some rec \<Longrightarrow> rc_gate_kind rec = None
        \<Longrightarrow> (\<And>k b. (k, b) \<in> E \<Longrightarrow> body_fits k b) \<Longrightarrow> om_idempotency_key ` set ms \<subseteq> fst ` E
        \<Longrightarrow> teardown_named E run step att"
    and gone: "\<And>m tds. m \<in> set ms \<Longrightarrow> om_payload m = AttemptTeardown tds \<Longrightarrow> om_run m = run
        \<and> (\<exists>att s. stamp = Some (att, s) \<and> tds = [\<lparr>td_step = step, td_attempt = att\<rparr>])"
  shows "store_ok st' \<and> evolves st st'"
proof -
  from commit obtain rec where row: "step_of st run step = Some rec" and status: "rc_status rec = Some from"
    and front: "frontier_ok frontier rec"
    and st': "st' = enqueue_all ms (append_events es (put_step run step (committed_rec to stamp rec) st))"
    by (auto simp: commit_step_transition_iff)
  note rok = store_ok_row [OF ok row]
  have last: "map_option at_id (last_opt (rc_attempts rec)) = Some att" if "stamp = Some (att, s)" for att s
    using frontier_last [OF rok] front some [OF that] by simp
  have sok: "stamp_ok stamp"
  proof (cases stamp)
    case (Some p)
    then show ?thesis using some by (cases p) auto
  qed (simp add: stamp_ok_def)
  show ?thesis unfolding st'
  proof (rule commit_ok [OF ok row committed_rec_evolves [OF sok] fits])
    fix E
    assume E: "set (outbox_entries st) \<subseteq> E" "\<And>k b. (k, b) \<in> E \<Longrightarrow> body_fits k b" "om_idempotency_key ` set ms \<subseteq> fst ` E"
    show "rec_ok E run step (committed_rec to stamp rec)"
    proof (rule retire_ok [OF rok E(1) to])
      show "quiet rec" if "stamp = None" "rc_gate_kind rec = None" using none row status front that by blast
      show "stamp_ok stamp \<and> map_option at_id (last_opt (rc_attempts rec)) = Some att
          \<and> (s \<in> {StampOutcome AOSuperseded, StampOutcome AOCancelled} \<longrightarrow> rc_gate_kind rec = None
             \<longrightarrow> teardown_named E run step att)" if "stamp = Some (att, s)" for att s
        using sok last [OF that] names [OF that _ row _ E(2,3)] by blast
    qed
  next
    fix m tds td
    assume m: "m \<in> set ms" "om_payload m = AttemptTeardown tds" "td \<in> set tds"
    from gone [OF m(1,2)] obtain att s where g: "om_run m = run" "stamp = Some (att, s)"
      "tds = [\<lparr>td_step = step, td_attempt = att\<rparr>]" by blast
    then show "om_run m = run \<and> td_step td = step
        \<and> (\<exists>a \<in> set (rc_attempts (committed_rec to stamp rec)). at_id a = td_attempt td \<and> at_outcome a \<noteq> AORunning)"
      using stamped_last [OF last [OF g(2)]] sok m(3) by auto
  qed
qed

section \<open>Snapshots\<close>

definition snap_ok :: "store \<Rightarrow> step_run \<Rightarrow> bool" where
  "snap_ok st s \<longleftrightarrow> (\<exists>rec. step_of st (sr_run s) (sr_step s) = Some rec \<and> rc_gate_kind rec = sr_gate_kind s
     \<and> length (sr_attempts s) \<le> length (rc_attempts rec)
     \<and> (\<forall>i < length (sr_attempts s). attempt_evolves (sr_attempts s ! i) (rc_attempts rec ! i)))"

lemma snap_evolves: "evolves st st' \<Longrightarrow> snap_ok st s \<Longrightarrow> snap_ok st' s"
proof -
  assume e: "evolves st st'" and "snap_ok st s"
  then obtain rec where r: "step_of st (sr_run s) (sr_step s) = Some rec" "rc_gate_kind rec = sr_gate_kind s"
    "length (sr_attempts s) \<le> length (rc_attempts rec)"
    "\<forall>i < length (sr_attempts s). attempt_evolves (sr_attempts s ! i) (rc_attempts rec ! i)"
    unfolding snap_ok_def by blast
  from e r(1) obtain rec' where r': "step_of st' (sr_run s) (sr_step s) = Some rec'" "rec_evolves rec rec'"
    unfolding evolves_def by blast
  have "attempt_evolves (sr_attempts s ! i) (rc_attempts rec' ! i)" if "i < length (sr_attempts s)" for i
    using attempt_evolves_trans [of _ "rc_attempts rec ! i"] that r r'(2) by (simp add: rec_evolves_def)
  with r r' show ?thesis unfolding snap_ok_def rec_evolves_def by (metis le_trans)
qed

lemma steps_of_run_row:
  assumes "store_ok st" "s \<in> set (steps_of_run run st)"
  shows "\<exists>rec. sr_run s = run \<and> step_of st run (sr_step s) = Some rec \<and> rc_status rec = Some (sr_status s)
     \<and> sr_attempts s = rc_attempts rec \<and> sr_needs s = rc_needs rec \<and> sr_gate_kind s = rc_gate_kind rec"
proof -
  from assms(2) obtain step rec status where mem: "((run, step), rec) \<in> set (st_steps st)"
    and "rc_status rec = Some status" "s = step_run_of (run, step) status rec"
    by (fastforce simp: steps_of_run_def List.map_filter_def split: if_splits)
  moreover have row: "step_of st run step = Some rec"
    using mem assms(1) by (simp add: store_ok_def al_get_mem)
  moreover have "well_named (rc_attempts rec)" using store_ok_row [OF assms(1) row] by (simp add: rec_ok_def)
  ultimately show ?thesis by (simp add: step_run_of_def)
qed

lemma read_snap_ok: "store_ok st \<Longrightarrow> s \<in> set (steps_of_run run st) \<Longrightarrow> snap_ok st s"
  using steps_of_run_row unfolding snap_ok_def by fastforce

text \<open>A commit fenced on the frontier a snapshot read sees the attempts of that snapshot.\<close>

lemma same_frontier:
  assumes "store_ok st" "snap_ok st s" "step_of st (sr_run s) (sr_step s) = Some rec"
    and "frontier_ok (FrontierIs (map_option at_id (last_opt (sr_attempts s)))) rec"
  shows "length (sr_attempts s) = length (rc_attempts rec)"
    and "last_opt (sr_attempts s) = Some a \<Longrightarrow> at_outcome a \<noteq> AORunning
      \<Longrightarrow> last_opt (rc_attempts rec) = Some b \<Longrightarrow> at_outcome b \<noteq> AORunning"
proof -
  let ?as = "sr_attempts s" and ?bs = "rc_attempts rec"
  note rok = store_ok_row [OF assms(1,3)]
  have wn: "well_named ?bs" using rok by (simp add: rec_ok_def)
  have le: "length ?as \<le> length ?bs" and ev: "\<And>i. i < length ?as \<Longrightarrow> attempt_evolves (?as ! i) (?bs ! i)"
    using assms(2,3) by (auto simp: snap_ok_def)
  have same: "map_option at_id (last_opt ?bs) = map_option at_id (last_opt ?as)"
    using frontier_last [OF rok assms(4)] .
  show len: "length ?as = length ?bs"
  proof (cases "?as = []")
    case True
    then show ?thesis using same by (auto simp: last_opt_def split: if_splits)
  next
    case False
    then have ne: "?bs \<noteq> []" using le by auto
    have "at_id (last ?bs) = at_id (last ?as)" using same False ne by (simp add: last_opt_def)
    moreover have "at_id (last ?bs) = attempt_name (length ?bs)"
      using well_named_nth [OF wn, of "length ?bs - 1"] ne by (simp add: last_conv_nth)
    moreover have "at_id (last ?as) = attempt_name (length ?as)"
    proof -
      have "length ?as - 1 < length ?as" "length ?as - 1 < length ?bs" using False le by (cases ?as; simp)+
      then show ?thesis using ev [of "length ?as - 1"] well_named_nth [OF wn, of "length ?as - 1"] False
        by (simp add: last_conv_nth attempt_evolves_def)
    qed
    ultimately show ?thesis by simp
  qed
  show "at_outcome b \<noteq> AORunning" if "last_opt ?as = Some a" "at_outcome a \<noteq> AORunning" "last_opt ?bs = Some b"
  proof -
    have ne: "?as \<noteq> []" "?bs \<noteq> []" using that by (auto simp: last_opt_def split: if_splits)
    then have "?as ! (length ?as - 1) = a" "?bs ! (length ?as - 1) = b"
      using that len by (auto simp: last_opt_def last_conv_nth)
    then show ?thesis using ev [of "length ?as - 1"] that(2) ne by (simp add: attempt_evolves_def)
  qed
qed

lemma no_flight_quiet:
  assumes "store_ok st" "snap_ok st s" "step_of st (sr_run s) (sr_step s) = Some rec" "rc_gate_kind rec = None"
    and "frontier_ok (FrontierIs (map_option at_id (last_opt (sr_attempts s)))) rec" "in_flight_attempt s = None"
  shows "quiet rec"
proof (rule quiet_last [OF store_ok_row [OF assms(1,3)] assms(4)])
  fix b assume b: "last_opt (rc_attempts rec) = Some b"
  then have "rc_attempts rec \<noteq> []" by auto
  then have "sr_attempts s \<noteq> []" using same_frontier(1) [OF assms(1,2,3,5)] by auto
  then obtain a where a: "last_opt (sr_attempts s) = Some a" by (simp add: last_opt_def)
  then have "at_outcome a \<noteq> AORunning" using assms(6) by (auto simp: in_flight_attempt_def split: if_splits)
  then show "at_outcome b \<noteq> AORunning" using same_frontier(2) [OF assms(1,2,3,5) a _ b] by blast
qed

lemma in_flight_id: "in_flight_attempt s = Some a \<Longrightarrow> map_option at_id (last_opt (sr_attempts s)) = Some (at_id a)"
  by (auto simp: in_flight_attempt_def split: option.splits if_splits)

lemma in_flight_slash:
  assumes "store_ok st" "snap_ok st s" "in_flight_attempt s = Some a"
  shows "CHR ''/'' \<notin> set (at_id a)"
proof -
  obtain rec where row: "step_of st (sr_run s) (sr_step s) = Some rec"
    and le: "length (sr_attempts s) \<le> length (rc_attempts rec)"
    and ev: "\<And>i. i < length (sr_attempts s) \<Longrightarrow> attempt_evolves (sr_attempts s ! i) (rc_attempts rec ! i)"
    using assms(2) by (auto simp: snap_ok_def)
  have wn: "well_named (rc_attempts rec)" using store_ok_row [OF assms(1) row] by (simp add: rec_ok_def)
  have ne: "sr_attempts s \<noteq> []" and a: "a = sr_attempts s ! (length (sr_attempts s) - 1)"
    using assms(3) by (auto simp: in_flight_attempt_def last_opt_def last_conv_nth split: option.splits if_splits)
  have "length (sr_attempts s) - 1 < length (sr_attempts s)" "length (sr_attempts s) - 1 < length (rc_attempts rec)"
    using ne le by (cases "sr_attempts s"; simp)+
  then have "at_id a = attempt_name (length (sr_attempts s))"
    using ev [of "length (sr_attempts s) - 1"] well_named_nth [OF wn, of "length (sr_attempts s) - 1"] ne a
    by (simp add: attempt_evolves_def)
  then show ?thesis by simp
qed

section \<open>Each transaction keeps the invariant\<close>

lemma append_events_Nil [simp]: "append_events [] st = st"
  by (simp add: append_events_def)

lemma snap_row_ok:
  assumes "store_ok st" "snap_ok st s"
  shows "run_id_ok (sr_run s)" "step_id_ok (sr_step s)"
  using assms store_ok_row unfolding snap_ok_def rec_ok_def by blast+

lemma plain_commit_ok:
  assumes ok: "store_ok st" and commit: "commit_step_transition run step from to frontier None es [] st = Inr st'"
    and to: "to \<noteq> SRunning"
    and none: "\<And>rec. step_of st run step = Some rec \<Longrightarrow> rc_status rec = Some from \<Longrightarrow> frontier_ok frontier rec
        \<Longrightarrow> rc_gate_kind rec = None \<Longrightarrow> quiet rec"
  shows "store_ok st' \<and> evolves st st'"
  by (rule retire_commit_ok [OF ok commit to]) (use none in auto)

lemma unmoved_ok:
  assumes ok: "store_ok st" and src: "from \<noteq> SRunning" and to: "to \<noteq> SRunning"
    and commit: "commit_step_transition run step from to frontier None es [] st = Inr st'"
  shows "store_ok st' \<and> evolves st st'"
proof (rule plain_commit_ok [OF ok commit to])
  fix rec assume row: "step_of st run step = Some rec" and "rc_status rec = Some from" "rc_gate_kind rec = None"
  with src show "quiet rec" using quiet_status [OF store_ok_row [OF ok row]] by simp
qed

lemma stamped_commit_ok:
  assumes ok: "store_ok st"
    and commit: "commit_step_transition run step from to (FrontierIs (Some att)) (Some (att, s)) es [] st = Inr st'"
    and to: "to \<noteq> SRunning" and s: "stamp_ok (Some (att, s))"
    and gate: "\<And>rec. step_of st run step = Some rec \<Longrightarrow> rc_gate_kind rec = None
        \<Longrightarrow> s \<notin> {StampOutcome AOSuperseded, StampOutcome AOCancelled}"
  shows "store_ok st' \<and> evolves st st'"
  by (rule retire_commit_ok [OF ok commit to]) (use s gate in \<open>blast | simp\<close>)+

lemma rearm_ok:
  assumes ok: "store_ok st" and snap: "snap_ok st s" and target: "step_id_ok target"
    and commit: "commit_rearm now (sr_run s) target s by st = Inr st'"
  shows "store_ok st' \<and> evolves st st'"
proof (cases "sr_status s = SRunning")
  case False
  then have "commit_step_transition (sr_run s) (sr_step s) (sr_status s) SPending FrontierAny None
      [step_moved (sr_run s) (sr_step s) (sr_status s) SPending now] [] st = Inr st'"
    using commit by (simp add: commit_rearm_def)
  then show ?thesis by (rule unmoved_ok [OF ok False, rotated]) simp
next
  case running: True
  let ?f = "FrontierIs (map_option at_id (last_opt (sr_attempts s)))"
  show ?thesis
  proof (cases "in_flight_attempt s")
    case None
    then have "commit_step_transition (sr_run s) (sr_step s) SRunning SPending ?f None
        [step_moved (sr_run s) (sr_step s) SRunning SPending now] [] st = Inr st'"
      using commit running by (simp add: commit_rearm_def)
    then show ?thesis by (rule plain_commit_ok [OF ok]) (simp, rule no_flight_quiet [OF ok snap _ _ _ None])
  next
    case (Some a)
    let ?m = "supersede_teardown_intent (sr_run s) target \<lparr>td_step = sr_step s, td_attempt = at_id a\<rparr> now"
    note ids = snap_row_ok [OF ok snap] and slash = in_flight_slash [OF ok snap Some]
    have c: "commit_step_transition (sr_run s) (sr_step s) SRunning SPending ?f
        (Some (at_id a, StampOutcome AOSuperseded))
        [step_moved (sr_run s) (sr_step s) SRunning SPending now,
         event (sr_run s) (AttemptSuperseded (sr_step s) (at_id a) by) now] [?m] st = Inr st'"
      using commit running Some by (simp add: commit_rearm_def)
    show ?thesis
    proof (rule retire_commit_ok [OF ok c])
      show "msg_fits m" if "m \<in> set [?m]" for m
        using that supersede_intent_fits [OF ids(1) target slash] by simp
      show "teardown_named E (sr_run s) (sr_step s) att"
        if "Some (at_id a, StampOutcome AOSuperseded) = Some (att, s')"
          "\<And>k b. (k, b) \<in> E \<Longrightarrow> body_fits k b" "om_idempotency_key ` set [?m] \<subseteq> fst ` E" for att s' E
        using supersede_key_names [OF that(2) _ ids(1) target slash, of E "sr_step s"] that(1,3)
        by (simp add: supersede_teardown_intent_def message_def)
    qed (use in_flight_id [OF Some] in \<open>auto simp: stamp_ok_def supersede_teardown_intent_def message_def\<close>)
  qed
qed

lemma cancel_ok:
  assumes ok: "store_ok st" and snap: "snap_ok st s"
    and commit: "cancel_step_commit now (sr_run s) s st = Inr st'"
  shows "store_ok st' \<and> evolves st st'"
proof (cases "sr_status s = SRunning")
  case False
  then have "commit_step_transition (sr_run s) (sr_step s) (sr_status s) SCancelled FrontierAny None
      [step_moved (sr_run s) (sr_step s) (sr_status s) SCancelled now] [] st = Inr st'"
    using commit by (simp add: cancel_step_commit_def)
  then show ?thesis by (rule unmoved_ok [OF ok False, rotated]) simp
next
  case running: True
  let ?f = "FrontierIs (map_option at_id (last_opt (sr_attempts s)))"
  show ?thesis
  proof (cases "in_flight_attempt s")
    case None
    then have "commit_step_transition (sr_run s) (sr_step s) SRunning SCancelled ?f None
        [step_moved (sr_run s) (sr_step s) SRunning SCancelled now] [] st = Inr st'"
      using commit running by (simp add: cancel_step_commit_def)
    then show ?thesis by (rule plain_commit_ok [OF ok]) (simp, rule no_flight_quiet [OF ok snap _ _ _ None])
  next
    case (Some a)
    let ?m = "cancel_attempt_intent (sr_run s) (sr_step s) (at_id a) now"
    note ids = snap_row_ok [OF ok snap] and slash = in_flight_slash [OF ok snap Some]
    have c: "commit_step_transition (sr_run s) (sr_step s) SRunning SCancelled ?f
        (Some (at_id a, StampOutcome AOCancelled))
        [step_moved (sr_run s) (sr_step s) SRunning SCancelled now] [?m] st = Inr st'"
      using commit running Some by (simp add: cancel_step_commit_def)
    show ?thesis
    proof (rule retire_commit_ok [OF ok c])
      show "msg_fits m" if "m \<in> set [?m]" for m
        using that cancel_intent_fits [OF ids(1) slash] by simp
      show "teardown_named E (sr_run s) (sr_step s) att"
        if "Some (at_id a, StampOutcome AOCancelled) = Some (att, s')"
          "\<And>k b. (k, b) \<in> E \<Longrightarrow> body_fits k b" "om_idempotency_key ` set [?m] \<subseteq> fst ` E" for att s' E
        using cancel_key_names [OF that(2) _ ids(1) slash, of E "sr_step s"] that(1,3)
        by (simp add: cancel_attempt_intent_def message_def)
    qed (use in_flight_id [OF Some] in \<open>auto simp: stamp_ok_def cancel_attempt_intent_def message_def\<close>)
  qed
qed

lemma finalize_ok:
  assumes ok: "store_ok st" and to: "to = SSucceeded \<or> to = SFailed"
    and commit: "finalize_commit now run step att to failure cause st = Inr st'"
  shows "store_ok st' \<and> evolves st st'"
proof -
  obtain s where s: "finalize_stamp to failure cause = Some s" "stamp_ok (Some (att, s))"
    "s \<notin> {StampOutcome AOSuperseded, StampOutcome AOCancelled}"
    using to by (cases failure) (auto simp: finalize_stamp_def stamp_ok_def)
  from commit s(1) have "commit_step_transition run step SRunning to (FrontierIs (Some att)) (Some (att, s))
      (finalize_events now run step att to failure cause) [] st = Inr st'"
    by (simp add: finalize_commit_def)
  then show ?thesis using s to by (intro stamped_commit_ok [OF ok]) auto
qed

definition settled_ok :: "store \<Rightarrow> attempt_key \<Rightarrow> bool" where
  "settled_ok st key = (case key of (run, step, att) \<Rightarrow> retired st run \<lparr>td_step = step, td_attempt = att\<rparr>)"

lemma settled_evolves: "evolves st st' \<Longrightarrow> settled_ok st key \<Longrightarrow> settled_ok st' key"
  using retired_evolves by (auto simp: settled_ok_def split: prod.splits)

lemma retry_ok:
  assumes ok: "store_ok st" and settled: "settled_ok st (run, step, att)"
    and commit: "rearm_step_commit now run step att kind cause st = Inr st'"
  shows "store_ok st' \<and> evolves st st'"
proof (rule plain_commit_ok [OF ok commit [unfolded rearm_step_commit_def]], simp)
  fix rec
  assume row: "step_of st run step = Some rec" and f: "frontier_ok (FrontierIs (Some att)) rec"
    and g: "rc_gate_kind rec = None"
  note rok = store_ok_row [OF ok row]
  from settled row obtain a where a: "a \<in> set (rc_attempts rec)" "at_id a = att" "at_outcome a \<noteq> AORunning"
    by (auto simp: settled_ok_def retired_def)
  have "inj_on at_id (set (rc_attempts rec))"
    using rok well_named_distinct by (auto simp: rec_ok_def distinct_map)
  moreover obtain b where b: "last_opt (rc_attempts rec) = Some b" "at_id b = att"
    using frontier_last [OF rok f] by auto
  moreover have "b \<in> set (rc_attempts rec)" using b(1) by (auto simp: last_opt_Some)
  ultimately have "b = a" using a by (metis inj_onD)
  then show "quiet rec" using quiet_last [OF rok g] a(3) b(1) by simp
qed

lemma settle_unneeded_ok:
  assumes ok: "store_ok st" and snap: "snap_ok st s" and gate: "is_gate s"
    and commit: "settle_unneeded_commit now (sr_run s) s st = Inr st'"
  shows "store_ok st' \<and> evolves st st'"
proof (cases "open_gate_attempt s")
  case None
  then show ?thesis using unmoved_ok [OF ok _ _ commit [unfolded settle_unneeded_commit_def None option.map]] by simp
next
  case (Some a)
  then have f: "in_flight_attempt s = Some a" using gate by (simp add: open_gate_attempt_def)
  have "rc_gate_kind rec \<noteq> None" if "step_of st (sr_run s) (sr_step s) = Some rec" for rec
    using that snap gate by (auto simp: snap_ok_def is_gate_def)
  moreover have "commit_step_transition (sr_run s) (sr_step s) SPending SSkipped (FrontierIs (Some (at_id a)))
      (Some (at_id a, StampOutcome AOCancelled))
      [event (sr_run s) (StepSkipped (sr_step s) GATE_NO_LONGER_NEEDED) now,
       step_moved (sr_run s) (sr_step s) SPending SSkipped now] [] st = Inr st'"
    using commit in_flight_id [OF f] Some by (simp add: settle_unneeded_commit_def)
  ultimately show ?thesis by (intro stamped_commit_ok [OF ok]) (auto simp: stamp_ok_def)
qed

text \<open>A change of one row with no message.\<close>

lemma row_ok:
  assumes ok: "store_ok st" and row: "step_of st run step = Some rec" and ev: "rec_evolves rec rec'"
    and new: "rec_ok (set (outbox_entries st)) run step rec'"
  shows "store_ok (append_events es (put_step run step rec' st)) \<and> evolves st (append_events es (put_step run step rec' st))"
proof -
  have "store_ok (enqueue_all [] (append_events es (put_step run step rec' st)))
      \<and> evolves st (enqueue_all [] (append_events es (put_step run step rec' st)))"
    by (rule commit_ok [OF ok row ev]) (use new rec_ok_mono in auto)
  then show ?thesis by simp
qed

lemma promote_ok:
  assumes ok: "store_ok st" and commit: "promote_commit now leader run step signature st = Inr st'"
  shows "store_ok st' \<and> evolves st st'"
proof -
  from commit obtain rec where row: "step_of st run step = Some rec" and p: "rc_status rec = Some SPending"
    and st': "st' = append_events [step_moved run step SPending SReady now]
        (put_step run step (rec\<lparr>rc_status := Some SReady, rc_input := Some signature\<rparr>) st)"
    by (auto simp: promote_commit_def promote_step_def check_step_transition_iff split: option.splits if_splits)
  note rok = store_ok_row [OF ok row]
  have "rec_ok (set (outbox_entries st)) run step (rec\<lparr>rc_status := Some SReady, rc_input := Some signature\<rparr>)"
    using rok quiet_status [OF rok] p by (auto simp: rec_ok_def plain_ok_def quiet_def)
  then show ?thesis unfolding st' by (intro row_ok [OF ok row]) (simp_all add: rec_evolves_def)
qed

lemma update_first_same: "x \<in> set xs \<Longrightarrow> \<not> P x \<Longrightarrow> x \<in> set (update_first P f xs)"
  by (induction xs) auto

lemma failure_stamp_ok:
  assumes "rec_ok E run step rec"
  shows "rec_ok E run step (stamp_rec att (StampFailure kind detail) rec)"
proof -
  let ?s = "StampFailure kind detail" and ?r = "stamp_rec att (StampFailure kind detail) rec"
  have wn: "well_named (rc_attempts ?r)"
    using assms well_named_cong [OF stamp_attempts_ids] by (simp add: rec_ok_def)
  have out: "at_outcome (stamp_attempt ?s a) \<in> {AOSuperseded, AOCancelled} \<Longrightarrow> at_outcome (stamp_attempt ?s a) = at_outcome a"
    "at_outcome (stamp_attempt ?s a) \<noteq> AORunning" for a
    by (auto simp: stamp_attempt_def)
  have "plain_ok E run step ?r" if "plain_ok E run step rec"
    unfolding plain_ok_def
  proof (intro conjI ballI allI impI)
    fix i assume r: "i < length (rc_attempts ?r)" "at_outcome (rc_attempts ?r ! i) = AORunning"
    then have i: "i < length (rc_attempts rec)" by simp
    then have "rc_attempts ?r ! i = rc_attempts rec ! i \<or> rc_attempts ?r ! i = stamp_attempt ?s (rc_attempts rec ! i)"
      by (simp add: stamp_rec_def update_first_nth)
    with r(2) out(2) have "at_outcome (rc_attempts rec ! i) = AORunning" by metis
    with i show "Suc i = length (rc_attempts ?r)" "rc_status ?r = Some SRunning"
      using that by (auto simp: plain_ok_def)
  next
    assume "rc_status ?r = Some SRunning"
    then have ne: "rc_attempts rec \<noteq> []" and l: "at_outcome (last (rc_attempts rec)) \<notin> {AOSuperseded, AOCancelled}"
      using that by (auto simp: plain_ok_def)
    show ne': "rc_attempts ?r \<noteq> []" using ne stamp_rec_length [of att ?s rec] by (metis length_0_conv)
    let ?i = "length (rc_attempts rec) - 1"
    have "?i < length (rc_attempts rec)" using ne by (cases "rc_attempts rec") auto
    then have "rc_attempts ?r ! ?i = rc_attempts rec ! ?i \<or> rc_attempts ?r ! ?i = stamp_attempt ?s (rc_attempts rec ! ?i)"
      by (simp add: stamp_rec_def update_first_nth)
    then have "last (rc_attempts ?r) = last (rc_attempts rec) \<or> last (rc_attempts ?r) = stamp_attempt ?s (last (rc_attempts rec))"
      using ne ne' by (simp add: last_conv_nth)
    then show "at_outcome (last (rc_attempts ?r)) \<notin> {AOSuperseded, AOCancelled}"
      using l out(1) [of "last (rc_attempts rec)"] by metis
  next
    fix a assume a: "a \<in> set (rc_attempts ?r)"
    then consider "a \<in> set (rc_attempts rec)" | b where "b \<in> set (rc_attempts rec)" "a = stamp_attempt ?s b"
      using update_first_set [of a _ "stamp_attempt ?s" "rc_attempts rec"] by (auto simp: stamp_rec_def)
    then show "launch_named E run step (at_id a)" using that by cases (auto simp: plain_ok_def)
    show "teardown_named E run step (at_id a)" if "at_outcome a \<in> {AOSuperseded, AOCancelled}"
    proof -
      from a consider "a \<in> set (rc_attempts rec)" | b where "b \<in> set (rc_attempts rec)" "a = stamp_attempt ?s b"
        using update_first_set [of a _ "stamp_attempt ?s" "rc_attempts rec"] by (auto simp: stamp_rec_def)
      then show ?thesis
      proof cases
        case 1
        then show ?thesis using that \<open>plain_ok E run step rec\<close> unfolding plain_ok_def by blast
      next
        case 2
        then have "at_outcome b \<in> {AOSuperseded, AOCancelled}" using out(1) [of b] that by simp
        then have "teardown_named E run step (at_id b)"
          using 2(1) \<open>plain_ok E run step rec\<close> unfolding plain_ok_def by blast
        then show ?thesis using 2(2) by simp
      qed
    qed
  qed
  with wn assms show ?thesis by (simp add: rec_ok_def)
qed

lemma set_failure_ok:
  assumes ok: "store_ok st"
  shows "store_ok (set_attempt_failure run step att kind detail st)
    \<and> evolves st (set_attempt_failure run step att kind detail st)"
proof (cases "step_of st run step")
  case None
  then show ?thesis using ok by (simp add: set_attempt_failure_def stamp_attempt_locked_def modify_step_def)
next
  case (Some rec)
  have "rec_evolves rec (stamp_rec att (StampFailure kind detail) rec)"
    unfolding rec_evolves_def stamp_rec_def
    by (auto intro!: update_first_evolves [rule_format] stamp_attempt_evolves)
  from row_ok [OF ok Some this failure_stamp_ok [OF store_ok_row [OF ok Some]], of "[]"] Some
  show ?thesis by (simp add: set_attempt_failure_def stamp_attempt_locked_def modify_step_def)
qed

lemma set_failure_settles:
  assumes "att \<in> at_id ` set (attempts_of_step run step st)"
  shows "settled_ok (set_attempt_failure run step att kind detail st) (run, step, att)"
proof -
  obtain rec where row: "step_of st run step = Some rec" and att: "\<exists>a \<in> set (rc_attempts rec). at_id a = att"
    using assms by (cases "step_of st run step") (auto simp: attempts_of_step_def sorted_attempts_def)
  from update_first_hit [OF att, of "stamp_attempt (StampFailure kind detail)"] obtain b where
    "at_id b = att" "stamp_attempt (StampFailure kind detail) b
        \<in> set (update_first (\<lambda>a. at_id a = att) (stamp_attempt (StampFailure kind detail)) (rc_attempts rec))"
    by blast
  moreover have "at_outcome (stamp_attempt (StampFailure kind detail) b) \<noteq> AORunning"
    by (auto simp: stamp_attempt_def)
  ultimately show ?thesis using row
    by (auto simp: settled_ok_def retired_def set_attempt_failure_def stamp_attempt_locked_def modify_step_def
        stamp_rec_def intro!: bexI [of _ "stamp_attempt (StampFailure kind detail) b"])
qed

section \<open>Claims\<close>

definition room :: "store \<Rightarrow> bool" where
  "room st \<longleftrightarrow> (\<forall>run step rec. step_of st run step = Some rec \<longrightarrow> Suc (length (rc_attempts rec)) < u64_bound)"

lemma launch_one_ok:
  assumes ok: "store_ok st" and row: "step_of st run step = Some rec" and ready: "rc_status rec = Some SReady"
    and len: "Suc (length (rc_attempts rec)) < u64_bound"
    and s: "s = step_run_of (run, step) SRunning rec" and l: "mint_launch now s = Inr l"
  shows "store_ok (launch_one st (s, l)) \<and> evolves st (launch_one st (s, l))
    \<and> (\<forall>key. key \<noteq> (run, step) \<longrightarrow> al_get (st_steps (launch_one st (s, l))) key = al_get (st_steps st) key)"
proof -
  note rok = store_ok_row [OF ok row]
  have wn: "well_named (rc_attempts rec)" and ids: "run_id_ok run" using rok by (auto simp: rec_ok_def)
  let ?att = "attempt_name (Suc (length (rc_attempts rec)))"
  let ?a = "\<lparr>at_id = ?att, at_started_at = now, at_failure = None, at_failure_detail = None, at_outcome = AORunning\<rparr>"
  let ?r = "rec\<lparr>rc_status := Some SRunning, rc_attempts := rc_attempts rec @ [?a]\<rparr>"
  let ?m = "message run LAUNCH_STEP (LaunchIntent run step ?att) (launch_key run step ?att) now"
  have fresh: "\<not> list_ex (\<lambda>b. at_id b = ?att) (rc_attempts rec)"
    using well_named_nth [OF wn] by (auto simp: list_ex_iff in_set_conv_nth)
  have one: "launch_one st (s, l) = enqueue_all [?m]
      (append_events [event run (AttemptStarted step ?att) now] (put_step run step ?r st))"
    using l row fresh wn
    by (auto simp: s mint_launch_def Let_def launch_one_def step_run_of_def modify_step_def add_attempt_def)
  have ev: "rec_evolves rec ?r" by (auto simp: rec_evolves_def nth_append)
  have "store_ok (launch_one st (s, l)) \<and> evolves st (launch_one st (s, l))"
    unfolding one
  proof (rule commit_ok [OF ok row ev])
    show "msg_fits m" if "m \<in> set [?m]" for m using that launch_fits [OF ids] by simp
    fix E assume E: "set (outbox_entries st) \<subseteq> E" "\<And>k b. (k, b) \<in> E \<Longrightarrow> body_fits k b"
      "om_idempotency_key ` set [?m] \<subseteq> fst ` E"
    have ln: "launch_named E run step ?att"
      by (rule launch_key_names [OF E(2) _ ids]) (use E(3) in \<open>simp_all add: message_def\<close>)
    have "plain_ok E run step ?r" if g: "rc_gate_kind rec = None"
    proof -
      have "plain_ok E run step rec" using rec_ok_mono [OF E(1) rok] g by (simp add: rec_ok_def)
      moreover have "quiet rec" using quiet_status [OF rok g] ready by simp
      ultimately show ?thesis using ln
        by (auto simp: plain_ok_def quiet_def nth_append less_Suc_eq)
    qed
    then show "rec_ok E run step ?r" using rok wn len by (simp add: rec_ok_def well_named_snoc)
  qed (auto simp: message_def)
  then show ?thesis using one by simp
qed

lemma mint_all_ok: "mint_all (mint_launch now) ss = Inr (map (\<lambda>s. (s, projr (mint_launch now s))) ss)"
  by (induction ss) (auto simp: mint_launch_def Let_def)

lemma launches_ok:
  assumes "store_ok st" "distinct keys"
    and "\<forall>key \<in> set keys. \<exists>rec. al_get (st_steps st) key = Some rec \<and> rc_status rec = Some SReady
          \<and> Suc (length (rc_attempts rec)) < u64_bound \<and> s_of key = step_run_of key SRunning rec"
  shows "store_ok (foldl launch_one st (map (\<lambda>key. (s_of key, projr (mint_launch now (s_of key)))) keys))
    \<and> evolves st (foldl launch_one st (map (\<lambda>key. (s_of key, projr (mint_launch now (s_of key)))) keys))"
  using assms
proof (induction keys arbitrary: st)
  case (Cons key keys)
  obtain run step where key: "key = (run, step)" by (cases key)
  let ?l = "projr (mint_launch now (s_of key))"
  let ?st1 = "launch_one st (s_of key, ?l)"
  obtain rec where row: "step_of st run step = Some rec" and ready: "rc_status rec = Some SReady"
    and len: "Suc (length (rc_attempts rec)) < u64_bound" and s: "s_of key = step_run_of (run, step) SRunning rec"
    using Cons.prems(3) key by auto
  have l: "mint_launch now (s_of key) = Inr ?l" by (simp add: mint_launch_def Let_def)
  note one = launch_one_ok [OF Cons.prems(1) row ready len s l]
  have st1: "store_ok ?st1" "evolves st ?st1"
    and others: "\<And>k. k \<noteq> key \<Longrightarrow> al_get (st_steps ?st1) k = al_get (st_steps st) k"
    using one key by auto
  have rest: "\<forall>k \<in> set keys. \<exists>rec. al_get (st_steps ?st1) k = Some rec \<and> rc_status rec = Some SReady
      \<and> Suc (length (rc_attempts rec)) < u64_bound \<and> s_of k = step_run_of k SRunning rec"
  proof
    fix k assume k: "k \<in> set keys"
    then have "k \<noteq> key" using Cons.prems(2) by auto
    then show "\<exists>rec. al_get (st_steps ?st1) k = Some rec \<and> rc_status rec = Some SReady
        \<and> Suc (length (rc_attempts rec)) < u64_bound \<and> s_of k = step_run_of k SRunning rec"
      using others Cons.prems(3) k by auto
  qed
  from Cons.IH [OF st1(1) _ rest] Cons.prems(2) evolves_trans [OF st1(2)] show ?case by auto
qed simp

lemma ready_keys_ok:
  assumes "store_ok st"
  shows "distinct (ready_keys st)"
    and "key \<in> set (ready_keys st) \<Longrightarrow> \<exists>rec. al_get (st_steps st) key = Some rec \<and> rc_status rec = Some SReady"
proof -
  have wf: "al_wf (st_steps st)" using assms by (simp add: store_ok_def)
  then have "distinct (map fst (filter (\<lambda>(_, r). rc_status r = Some SReady) (st_steps st)))"
    by (simp add: al_wf_def distinct_map_filter)
  then show "distinct (ready_keys st)" by (simp add: ready_keys_def)
  show "\<exists>rec. al_get (st_steps st) key = Some rec \<and> rc_status rec = Some SReady" if "key \<in> set (ready_keys st)"
    using that wf by (auto simp: ready_keys_def al_wf_def)
qed

lemma map_filter_total: "(\<And>x. x \<in> set xs \<Longrightarrow> f x = Some (g x)) \<Longrightarrow> List.map_filter f xs = map g xs"
  by (induction xs) (auto simp: List.map_filter_def)

lemma claim_ok:
  assumes ok: "store_ok st" and "room st"
    and claim: "claim_ready_steps leader limit (mint_launch now) st = (Inr ss, st')"
  shows "store_ok st' \<and> evolves st st'"
proof -
  let ?keys = "take limit (ready_keys st)"
  let ?s = "\<lambda>key. the (claimed_step st key)"
  have keys: "\<exists>rec. al_get (st_steps st) key = Some rec \<and> rc_status rec = Some SReady
      \<and> Suc (length (rc_attempts rec)) < u64_bound \<and> ?s key = step_run_of key SRunning rec"
    if "key \<in> set ?keys" for key
    using ready_keys_ok(2) [OF ok in_set_takeD [OF that]] assms(2)
    by (cases key) (auto simp: claimed_step_def room_def)
  have total: "claimed_step st key = Some (?s key)" if "key \<in> set ?keys" for key
    using keys [OF that] by (auto simp: claimed_step_def)
  have "st' = foldl launch_one st (map (\<lambda>key. (?s key, projr (mint_launch now (?s key)))) ?keys)"
    using claim map_filter_total [of ?keys "claimed_step st" ?s, OF total]
    by (simp add: claim_ready_steps_def fenced_def mint_all_ok comp_def split: if_splits)
  then show ?thesis using launches_ok [OF ok distinct_take [OF ready_keys_ok(1) [OF ok]], of limit ?s now] keys
    by simp
qed

section \<open>Writes that touch no plain row\<close>

lemma same_tables_ok:
  assumes "st_steps st' = st_steps st" "outbox_entries st' = outbox_entries st" "store_ok st"
  shows "store_ok st' \<and> evolves st st'"
proof -
  have "retired st' = retired st" using assms(1) by (simp add: retired_def fun_eq_iff)
  with assms show ?thesis by (simp add: store_ok_def evolves_steps)
qed

lemma enqueue_ok:
  assumes ok: "store_ok st" and fits: "\<And>m. m \<in> set ms \<Longrightarrow> msg_fits m"
    and kind: "\<And>m tds. m \<in> set ms \<Longrightarrow> om_payload m \<noteq> AttemptTeardown tds"
  shows "store_ok (enqueue_all ms st) \<and> evolves st (enqueue_all ms st)"
proof -
  let ?st = "enqueue_all ms st"
  have evo: "evolves st ?st" by (rule evolves_steps) simp
  have body: "body_fits k b" if "(k, b) \<in> set (outbox_entries ?st)" for k b
    using enqueued_origin [OF that] ok fits unfolding store_ok_def msg_fits_def by blast
  have old: "(k, r, knd, AttemptTeardown tds, at) \<in> set (outbox_entries st)"
    if "(k, r, knd, AttemptTeardown tds, at) \<in> set (outbox_entries ?st)" for k r knd tds at
    using enqueued_origin [OF that]
  proof
    assume "\<exists>m \<in> set ms. k = om_idempotency_key m \<and> (r, knd, AttemptTeardown tds, at) = body_of m"
    then obtain m where "m \<in> set ms" "om_payload m = AttemptTeardown tds" by (auto simp: body_of_def)
    then show ?thesis using kind by blast
  qed
  have "distinct (map fst (outbox_entries ?st))"
    using ob.enq_all_distinct ok by (simp add: enqueue_all_enq store_ok_def)
  moreover have "rec_ok (set (outbox_entries ?st)) run step rec" if "step_of st run step = Some rec" for run step rec
    using store_ok_row [OF ok that] rec_ok_mono [OF outbox_grows] by blast
  moreover have "retired ?st r td"
    if "(k, r, knd, AttemptTeardown tds, at) \<in> set (outbox_entries ?st)" "td \<in> set tds" for k r knd tds at td
    using old [OF that(1)] that(2) ok retired_evolves [OF evo] unfolding store_ok_def by blast
  ultimately show ?thesis using ok body evo unfolding store_ok_def by auto
qed

lemma run_commit_ok:
  assumes ok: "store_ok st"
    and commit: "commit_run_transition_after leader run from to now notify intents journal g st = Inr st'"
    and ints: "\<And>m. m \<in> set intents \<Longrightarrow> msg_fits m \<and> (\<forall>tds. om_payload m \<noteq> AttemptTeardown tds)"
  shows "store_ok st' \<and> evolves st st'"
proof -
  let ?ms = "intents @ (if notify then status_posts run from to g now else [])"
  let ?st = "append_events (journal @ [event run (RunTransitioned from to) now]) (put_run run from to st)"
  have st': "st' = enqueue_all ?ms ?st"
    using commit by (auto simp: commit_run_transition_after_def commit_run_transition_def split: if_splits)
  have one: "store_ok ?st \<and> evolves st ?st" by (rule same_tables_ok [OF _ _ ok]) simp_all
  have "msg_fits m" if "m \<in> set ?ms" for m using that ints status_posts_fit by (auto split: if_splits)
  moreover have "om_payload m \<noteq> AttemptTeardown tds" if "m \<in> set ?ms" for m tds
    using that ints by (auto simp: status_posts_def Let_def message_def split: if_splits)
  ultimately have "store_ok st' \<and> evolves ?st st'" unfolding st' using one by (intro enqueue_ok) auto
  then show ?thesis using one evolves_trans by blast
qed

lemma outbox_entries_update:
  assumes "\<And>e. om_idempotency_key (oe_msg (f e)) = om_idempotency_key (oe_msg e) \<and> body_of (oe_msg (f e)) = body_of (oe_msg e)"
  shows "outbox_entries (st\<lparr>st_outbox := update_first P f (st_outbox st)\<rparr>) = outbox_entries st"
  unfolding outbox_entries_def by (simp add: update_first_map [where g = "\<lambda>e. (om_idempotency_key (oe_msg e), body_of (oe_msg e))"] assms)

lemma claim_outbox_same:
  "outbox_entries (snd (claim_outbox now owner kind limit vis st)) = outbox_entries st"
proof -
  obtain ms es where c: "claim_entries now owner kind limit vis (st_outbox st) = (ms, es)" by fastforce
  from claim_entries_msgs [OF c] have "map oe_msg es = map oe_msg (st_outbox st)" by simp
  then have "map (\<lambda>m. (om_idempotency_key m, body_of m)) (map oe_msg es)
      = map (\<lambda>m. (om_idempotency_key m, body_of m)) (map oe_msg (st_outbox st))" by simp
  then show ?thesis by (simp add: claim_outbox_def c outbox_entries_def comp_def)
qed

lemma create_ok:
  assumes ok: "store_ok st" and "step_of st run step = None" "run_id_ok run" "step_id_ok step" "rc_attempts rec = []"
    and "rc_status rec = Some SPending"
  shows "store_ok (put_step run step rec st) \<and> evolves st (put_step run step rec st)"
proof -
  let ?st = "put_step run step rec st"
  have evo: "evolves st ?st" using assms(2) by (auto simp: evolves_def)
  have "rec_ok E run step rec" for E using assms(3,4,5,6) by (simp add: rec_ok_def plain_ok_def)
  moreover have "retired ?st r td" if "retired st r td" for r td using retired_evolves [OF evo that] .
  ultimately show ?thesis using ok evo by (auto simp: store_ok_def)
qed

section \<open>Gate waits\<close>

text \<open>A gate's row carries only the naming of its attempts.\<close>

lemma gate_row_ok:
  assumes ok: "store_ok st" and row: "step_of st run step = Some rec" and gate: "rc_gate_kind rec \<noteq> None"
    and kind: "rc_gate_kind rec' = rc_gate_kind rec" and wn: "well_named (rc_attempts rec')"
    and ev: "length (rc_attempts rec) \<le> length (rc_attempts rec')"
      "\<And>i. i < length (rc_attempts rec) \<Longrightarrow> attempt_evolves (rc_attempts rec ! i) (rc_attempts rec' ! i)"
  shows "store_ok (append_events es (put_step run step rec' st)) \<and> evolves st (append_events es (put_step run step rec' st))"
proof (rule row_ok [OF ok row])
  show "rec_evolves rec rec'" using kind ev by (simp add: rec_evolves_def)
  show "rec_ok (set (outbox_entries st)) run step rec'"
    using store_ok_row [OF ok row] kind gate wn by (auto simp: rec_ok_def)
qed

lemma open_wait_ok:
  assumes ok: "store_ok st" and room: "room st"
    and gate: "\<And>rec. step_of st run step = Some rec \<Longrightarrow> rc_gate_kind rec \<noteq> None"
    and call: "open_gate_wait leader run step started_at at st = (Inr x, st')"
  shows "store_ok st' \<and> evolves st st'"
proof (cases "\<exists>rec. step_of st run step = Some rec \<and> rc_status rec = Some SPending")
  case False
  then have "st' = st" using call
    by (auto simp: open_gate_wait_def fenced_def split: if_splits option.splits)
  then show ?thesis using ok by simp
next
  case True
  then obtain rec where row: "step_of st run step = Some rec" and p: "rc_status rec = Some SPending" by blast
  have wn: "well_named (rc_attempts rec)" using store_ok_row [OF ok row] by (simp add: rec_ok_def)
  have len: "Suc (length (rc_attempts rec)) < u64_bound" using room row by (auto simp: room_def)
  consider "st' = append_events [] (put_step run step (rec\<lparr>rc_attempts := rc_attempts rec\<rparr>) st)"
    | e where "st' = append_events e (put_step run step
        (rec\<lparr>rc_attempts := rc_attempts rec @ [new_attempt (rc_attempts rec) (min started_at at)]\<rparr>) st)"
    using call row p wn by (auto simp: open_gate_wait_def fenced_def Let_def split: if_splits option.splits)
  then show ?thesis
  proof cases
    case 1
    show ?thesis unfolding 1 by (rule gate_row_ok [OF ok row gate [OF row]]) (use wn in auto)
  next
    case 2
    show ?thesis unfolding 2
      by (rule gate_row_ok [OF ok row gate [OF row]])
         (use wn len in \<open>auto simp: well_named_snoc new_attempt_def nth_append\<close>)
  qed
qed

lemma close_attempt_evolves: "at_outcome a = AORunning \<Longrightarrow> attempt_evolves a (close_attempt res a)"
  by (simp add: attempt_evolves_def close_attempt_def)

lemma resolve_target_evolves:
  assumes "resolve_target res as = Some (att, minted, bs)" "well_named as" "Suc (length as) < u64_bound"
  shows "well_named bs \<and> length as \<le> length bs \<and> (\<forall>i < length as. attempt_evolves (as ! i) (bs ! i))"
proof (cases "gr_fence res")
  case (Some f)
  then have bs: "bs = update_first (\<lambda>a. at_id a = f \<and> at_outcome a = AORunning) (close_attempt res) as"
    using assms(1) by (auto simp: resolve_target_def split: if_splits)
  have "map at_id bs = map at_id as" unfolding bs by (rule update_first_map) (simp add: close_attempt_def)
  then have "well_named bs" using assms(2) well_named_cong by blast
  moreover have "\<forall>i < length as. attempt_evolves (as ! i) (bs ! i)"
    unfolding bs by (rule update_first_evolves) (simp add: close_attempt_evolves)
  ultimately show ?thesis unfolding bs by simp
next
  case None
  show ?thesis
  proof (cases "running_last as")
    case (Some a)
    then obtain ys where as: "as = ys @ [a]" and r: "at_outcome a = AORunning"
      by (auto simp: running_last_def last_opt_Some split: option.splits if_splits)
    then have bs: "bs = ys @ [close_attempt res a]"
      using assms(1) None Some by (auto simp: resolve_target_def)
    have "at_id (close_attempt res a) = at_id a" by (simp add: close_attempt_def)
    then show ?thesis using assms(2) close_attempt_evolves [OF r]
      unfolding as bs by (auto simp: well_named_snoc nth_append less_Suc_eq)
  next
    case no: None
    then have bs: "bs = as @ [close_attempt res (new_attempt as (min (gr_legacy_started_at res) (gr_at res)))]"
      using assms(1) None by (auto simp: resolve_target_def)
    show ?thesis using assms(2,3) unfolding bs
      by (auto simp: well_named_snoc nth_append close_attempt_def new_attempt_def)
  qed
qed

lemma resolve_wait_ok:
  assumes ok: "store_ok st" and room: "room st"
    and gate: "\<And>rec. step_of st run step = Some rec \<Longrightarrow> rc_gate_kind rec \<noteq> None"
    and call: "resolve_gate_wait run step res st = (Inr x, st')"
  shows "store_ok st' \<and> evolves st st'"
proof (cases "\<exists>rec. step_of st run step = Some rec \<and> rc_status rec = Some SPending")
  case False
  then have "st' = st" using call by (auto simp: resolve_gate_wait_def split: if_splits option.splits)
  then show ?thesis using ok by simp
next
  case True
  then obtain rec where row: "step_of st run step = Some rec" and p: "rc_status rec = Some SPending" by blast
  have wn: "well_named (rc_attempts rec)" using store_ok_row [OF ok row] by (simp add: rec_ok_def)
  have len: "Suc (length (rc_attempts rec)) < u64_bound" using room row by (auto simp: room_def)
  have sorted: "sorted_attempts (rc_attempts rec) = rc_attempts rec" using wn by simp
  show ?thesis
  proof (cases "resolve_target res (rc_attempts rec)")
    case None
    then have "st' = append_events [] (put_step run step (rec\<lparr>rc_attempts := rc_attempts rec\<rparr>) st)"
      using call row p sorted by (simp add: resolve_gate_wait_def)
    then show ?thesis using gate_row_ok [OF ok row gate [OF row], of "rec\<lparr>rc_attempts := rc_attempts rec\<rparr>" "[]"] wn
      by simp
  next
    case (Some t)
    obtain att minted bs where t: "t = (att, minted, bs)" by (cases t)
    note ev = resolve_target_evolves [OF Some [unfolded t] wn len]
    define rec1 where "rec1 = rec\<lparr>rc_attempts := bs, rc_status := Some (if gr_passed res then SSucceeded else SFailed)\<rparr>"
    define rec2 where "rec2 = (case (gr_passed res, gr_outputs res) of
        (True, Some outputs) \<Rightarrow> rec1\<lparr>rc_results := outputs, rc_evidence_attempt := Some att\<rparr> | _ \<Rightarrow> rec1)"
    let ?es = "map (\<lambda>k. event run k (gr_at res)) (gate_resolution_events step att minted res)"
    have "rc_attempts rec2 = bs" "rc_gate_kind rec2 = rc_gate_kind rec"
      by (auto simp: rec2_def rec1_def split: option.splits bool.splits)
    with ev have one: "store_ok (append_events ?es (put_step run step rec2 st))
        \<and> evolves st (append_events ?es (put_step run step rec2 st))"
      by (intro gate_row_ok [OF ok row gate [OF row]]) auto
    have "st_steps st' = st_steps (append_events ?es (put_step run step rec2 st))"
      "outbox_entries st' = outbox_entries (append_events ?es (put_step run step rec2 st))"
      using call row p sorted Some t
      by (auto simp: resolve_gate_wait_def Let_def write_results_def rec1_def rec2_def outbox_entries_def
          split: option.splits bool.splits)
    from same_tables_ok [OF this] one evolves_trans show ?thesis by blast
  qed
qed

lemma close_running_ok:
  assumes ok: "store_ok st" and out: "outcome \<noteq> AORunning"
    and gate: "\<And>rec. step_of st run step = Some rec \<Longrightarrow> rc_gate_kind rec \<noteq> None"
    and call: "close_running_attempt run step att outcome e st = (Inr b, st')"
  shows "store_ok st' \<and> evolves st st'"
proof (cases "st' = st")
  case False
  let ?es = "case e of Some e \<Rightarrow> [e] | None \<Rightarrow> []"
  from False call obtain rec a where row: "step_of st run step = Some rec"
    and a: "List.find (\<lambda>a. at_id a = att) (rc_attempts rec) = Some a" "at_outcome a = AORunning"
    and st': "st' = append_events ?es (put_step run step (rec\<lparr>rc_attempts :=
        update_first (\<lambda>a. at_id a = att) (\<lambda>a. a\<lparr>at_outcome := outcome\<rparr>) (rc_attempts rec)\<rparr>) st)"
    by (auto simp: close_running_attempt_def split: option.splits if_splits)
  let ?bs = "update_first (\<lambda>a. at_id a = att) (\<lambda>a. a\<lparr>at_outcome := outcome\<rparr>) (rc_attempts rec)"
  have wn: "well_named (rc_attempts rec)" using store_ok_row [OF ok row] by (simp add: rec_ok_def)
  have ids: "map at_id ?bs = map at_id (rc_attempts rec)" by (rule update_first_map) simp
  have wnb: "well_named ?bs" using wn well_named_cong [OF ids] by blast
  have "b' = a" if "b' \<in> set (rc_attempts rec)" "at_id b' = att" for b'
    using that find_Some_mem [OF a(1)] well_named_distinct [OF wn] by (metis distinct_map inj_onD)
  then have "attempt_evolves b' (b'\<lparr>at_outcome := outcome\<rparr>)" if "b' \<in> set (rc_attempts rec)" "at_id b' = att" for b'
    using that a(2) out by (auto simp: attempt_evolves_def)
  then show ?thesis unfolding st'
    by (intro gate_row_ok [OF ok row gate [OF row]]) (use wnb in \<open>auto intro: update_first_evolves [rule_format]\<close>)
qed (use ok in simp)

end
