(* ===== verification/System.thy ===== *)
theory System
  imports Interleaving
begin

text \<open>
  The step relation of the system and what holds in every reachable configuration. One step is one
  call of the store by some actor: a read adds its snapshots to what actors may act on; every
  other rule is a transaction of \<open>Commits\<close> or an operation of \<open>Store\<close>, applied to a snapshot read at
  any earlier time.
\<close>

section \<open>Configurations and steps\<close>

record cfg =
  cf_store :: store
  cf_seen :: "step_run set"
  cf_settled :: "attempt_key set"

text \<open>Calls that leave every row's status and attempts alone.\<close>

inductive aux_op :: "store \<Rightarrow> store \<Rightarrow> bool" where
  aux_lease: "aux_op st (snd (lease now resource owner ttl st))"
| aux_slot: "aux_op st (snd (acquire_slot leader grp run st))"
| aux_release: "aux_op st (release_slot grp run st)"
| aux_service: "aux_op st (snd (create_run_service term' run tk name at st))"
| aux_service_set: "aux_op st (snd (set_run_service term' run tk name status handle st))"
| aux_handle: "aux_op st (set_attempt_handle run step att handle st)"
| aux_event: "aux_op st (append_events [e] st)"
| aux_begin: "aux_op st (begin_run_creation run at st)"
| aux_finish: "aux_op st (finish_run_creation run st)"
| aux_claim: "aux_op st (snd (claim_outbox now owner kind limit vis st))"
| aux_renew: "aux_op st (snd (renew_outbox_claim now oid owner vis st))"
| aux_dispatched: "aux_op st (mark_dispatched oid st)"
| aux_dead: "aux_op st (dead_letter_outbox oid st)"
| aux_failure: "aux_op st (snd (record_outbox_failure oid st))"
| aux_input: "aux_op st (set_step_input run step signature st)"
| aux_output: "set_step_output run step att snapshot identity st = Inr st' \<Longrightarrow> aux_op st st'"
| aux_results: "ingest_attempt_results run step att results st = Inr st' \<Longrightarrow> aux_op st st'"
| aux_concurrency: "aux_op st (set_run_concurrency run grp policy st)"
| aux_supersede: "aux_op st (set_supersede_key run key st)"
| aux_scheduling: "aux_op st (set_run_scheduling run project priority st)"
| aux_ir: "aux_op st (store_run_ir run ir st)"
| aux_explicit_inputs: "aux_op st (set_step_inputs run step inputs st)"
| aux_releaser: "aux_op st (set_gate_releaser run step releaser st)"
| aux_step_results: "set_step_results run step att results st = Inr st' \<Longrightarrow> aux_op st st'"
| aux_consumed: "aux_op st (set_attempt_consumed run step att m st)"
| aux_input_steps: "aux_op st (set_attempt_workspace_input_steps run step att steps st)"
| aux_gate_inputs: "aux_op st (snd (set_gate_wait_inputs leader run step att inputs st))"
| aux_artifacts: "aux_op st (put_artifacts run step att succeeded artifacts at st)"
| aux_cache_scope: "aux_op st (set_run_cache_scope run scope st)"
| aux_cache: "aux_op st (cache_record project key dir root attempt at st)"

inductive commit_op :: "step_run set \<Rightarrow> attempt_key set \<Rightarrow> store \<Rightarrow> store \<Rightarrow> bool" for seen settled where
  op_rearm: "s \<in> seen \<Longrightarrow> t \<in> seen \<Longrightarrow> commit_rearm now (sr_run s) (sr_step t) s pr st = Inr st'
    \<Longrightarrow> commit_op seen settled st st'"
| op_cancel: "s \<in> seen \<Longrightarrow> cancel_step_commit now (sr_run s) s st = Inr st' \<Longrightarrow> commit_op seen settled st st'"
| op_finalize: "to \<in> {SSucceeded, SFailed} \<Longrightarrow> finalize_commit now run step att to failure cause st = Inr st'
    \<Longrightarrow> commit_op seen settled st st'"
| op_retry: "(run, step, att) \<in> settled \<Longrightarrow> rearm_step_commit now run step att kind cause st = Inr st'
    \<Longrightarrow> commit_op seen settled st st'"
| op_promote: "promote_commit now leader run step signature st = Inr st' \<Longrightarrow> commit_op seen settled st st'"
| op_skip: "skip_unchanged_commit now run step st = Inr st' \<Longrightarrow> commit_op seen settled st st'"
| op_move: "from \<noteq> SRunning \<Longrightarrow> to \<noteq> SRunning \<Longrightarrow> transition_step_commit now run step from to preceding st = Inr st'
    \<Longrightarrow> commit_op seen settled st st'"
| op_unneeded: "s \<in> seen \<Longrightarrow> is_gate s \<Longrightarrow> settle_unneeded_commit now (sr_run s) s st = Inr st'
    \<Longrightarrow> commit_op seen settled st st'"
| op_claim: "room st \<Longrightarrow> claim_ready_steps leader limit (mint_launch now) st = (Inr ss, st')
    \<Longrightarrow> commit_op seen settled st st'"
| op_open_wait: "room st \<Longrightarrow> s \<in> seen \<Longrightarrow> is_gate s
    \<Longrightarrow> open_gate_wait leader (sr_run s) (sr_step s) started_at at st = (Inr x, st')
    \<Longrightarrow> commit_op seen settled st st'"
| op_resolve: "room st \<Longrightarrow> s \<in> seen \<Longrightarrow> is_gate s \<Longrightarrow> resolve_gate_wait (sr_run s) (sr_step s) res st = (Inr y, st')
    \<Longrightarrow> commit_op seen settled st st'"
| op_close: "s \<in> seen \<Longrightarrow> is_gate s \<Longrightarrow> outcome \<in> {AOSuperseded, AOCancelled}
    \<Longrightarrow> close_running_attempt (sr_run s) (sr_step s) att outcome e st = (Inr b, st')
    \<Longrightarrow> commit_op seen settled st st'"
| op_run: "commit_run_transition_after leader run from to now notify [] journal generation st = Inr st'
    \<Longrightarrow> commit_op seen settled st st'"
| op_cancel_run: "run_id_ok run \<Longrightarrow> CHR ''/'' \<notin> set nonce
    \<Longrightarrow> commit_run_transition_after leader run from RCancelled now True
          [cancel_services_intent nonce run now st] [] generation st = Inr st'
    \<Longrightarrow> commit_op seen settled st st'"
| op_create: "run_id_ok run \<Longrightarrow> step_id_ok step \<Longrightarrow> step_of st run step = None
    \<Longrightarrow> commit_op seen settled st (create_step_run run step spec needs st)"
| op_create_gate: "run_id_ok run \<Longrightarrow> step_id_ok step \<Longrightarrow> step_of st run step = None
    \<Longrightarrow> commit_op seen settled st (set_step_gate run step kind timer (create_step_run run step spec needs st))"
| op_aux: "aux_op st st' \<Longrightarrow> commit_op seen settled st st'"

inductive sys_step :: "cfg \<Rightarrow> cfg \<Rightarrow> bool" where
  sys_read: "sys_step c (c\<lparr>cf_seen := cf_seen c \<union> set (steps_of_run run (cf_store c))\<rparr>)"
| sys_failure: "att \<in> at_id ` set (attempts_of_step run step (cf_store c)) \<Longrightarrow>
    sys_step c (c\<lparr>cf_store := set_attempt_failure run step att kind detail (cf_store c),
                  cf_settled := insert (run, step, att) (cf_settled c)\<rparr>)"
| sys_commit: "commit_op (cf_seen c) (cf_settled c) (cf_store c) st' \<Longrightarrow> sys_step c (c\<lparr>cf_store := st'\<rparr>)"

definition init_cfg :: cfg where
  "init_cfg = \<lparr>cf_store = empty_store, cf_seen = {}, cf_settled = {}\<rparr>"

inductive reachable :: "cfg \<Rightarrow> bool" where
  reach_init: "reachable init_cfg"
| reach_step: "reachable c \<Longrightarrow> sys_step c c' \<Longrightarrow> reachable c'"

inductive later_cfg :: "cfg \<Rightarrow> cfg \<Rightarrow> bool" where
  later_refl: "later_cfg c c"
| later_step: "later_cfg c c' \<Longrightarrow> sys_step c' c'' \<Longrightarrow> later_cfg c c''"

inductive_cases sys_stepE: "sys_step c c'"
inductive_cases commit_opE: "commit_op seen settled st st'"
inductive_cases aux_opE: "aux_op st st'"

section \<open>Preservation\<close>

lemma fenced_same:
  assumes "\<And>s. st_steps (snd (m s)) = st_steps s \<and> outbox_entries (snd (m s)) = outbox_entries s"
  shows "st_steps (snd (fenced l m st)) = st_steps st \<and> outbox_entries (snd (fenced l m st)) = outbox_entries st"
  using assms by (simp add: fenced_def)

lemma row_fields_ok:
  assumes "store_ok st" "step_of st run step = Some rec"
    and "rc_attempts rec' = rc_attempts rec" "rc_status rec' = rc_status rec" "rc_gate_kind rec' = rc_gate_kind rec"
  shows "store_ok (put_step run step rec' st) \<and> evolves st (put_step run step rec' st)"
  using row_ok [OF assms(1,2), of rec' "[]"] store_ok_row [OF assms(1,2)] assms(3,4,5)
  by (simp add: rec_evolves_def rec_ok_def plain_ok_def)

lemma evidence_ok:
  assumes "store_ok st1 \<and> evolves st st1"
  shows "store_ok (modify_evidence k f st1) \<and> evolves st (modify_evidence k f st1)"
  using same_tables_ok [of "modify_evidence k f st1" st1] assms evolves_trans
  by (auto simp: outbox_entries_def)

lemma aux_ok:
  assumes "aux_op st st'" "store_ok st"
  shows "store_ok st' \<and> evolves st st'"
  using assms
proof cases
  case (aux_input run step signature)
  then show ?thesis using assms(2) row_fields_ok [OF assms(2)]
    by (cases "step_of st run step") (auto simp: set_step_input_def modify_step_def)
next
  case (aux_output run step att snapshot identity)
  then obtain rec where row: "step_of st run step = Some rec"
    and st': "st' = modify_evidence (run, step, att) (\<lambda>e. e\<lparr>av_output := Some snapshot\<rparr>)
      (put_step run step (rec\<lparr>rc_output := Some snapshot, rc_output_identity := identity,
         rc_evidence_attempt := Some att\<rparr>) st)"
    by (auto simp: set_step_output_def split: option.splits)
  show ?thesis unfolding st' by (intro evidence_ok row_fields_ok [OF assms(2) row]) simp_all
next
  case (aux_results run step att results)
  then obtain rec where row: "step_of st run step = Some rec"
    and st': "st' = write_results run step att results rec st"
    by (auto simp: ingest_attempt_results_def split: option.splits if_splits)
  show ?thesis unfolding st' write_results_def by (intro evidence_ok row_fields_ok [OF assms(2) row]) simp_all
next
  case (aux_explicit_inputs run step inputs)
  then show ?thesis using assms(2) row_fields_ok [OF assms(2)]
    by (cases "step_of st run step") (auto simp: set_step_inputs_def modify_step_def)
next
  case (aux_releaser run step releaser)
  then show ?thesis using assms(2) row_fields_ok [OF assms(2)]
    by (cases "step_of st run step") (auto simp: set_gate_releaser_def modify_step_def)
next
  case (aux_step_results run step att results)
  then obtain rec where row: "step_of st run step = Some rec"
    and st': "st' = write_results run step att results rec st"
    by (auto simp: set_step_results_def split: option.splits if_splits)
  show ?thesis unfolding st' write_results_def by (intro evidence_ok row_fields_ok [OF assms(2) row]) simp_all
next
  case (aux_consumed run step att m)
  then show ?thesis unfolding set_attempt_consumed_def using evidence_ok [of st st] assms(2) by simp
next
  case (aux_input_steps run step att steps)
  then show ?thesis unfolding set_attempt_workspace_input_steps_def using evidence_ok [of st st] assms(2) by simp
next
  case (aux_claim now owner kind limit vis)
  then show ?thesis
    by (intro same_tables_ok [OF _ _ assms(2)])
       (simp_all add: claim_outbox_same, simp add: claim_outbox_def case_prod_unfold)
next
  case (aux_renew now oid owner vis)
  then show ?thesis
    by (intro same_tables_ok [OF _ _ assms(2)])
       (auto simp: renew_outbox_claim_def outbox_entries_update split: option.splits)
next
  case (aux_dispatched oid)
  then show ?thesis
    by (intro same_tables_ok [OF _ _ assms(2)]) (simp_all add: mark_dispatched_def outbox_entries_update)
next
  case (aux_dead oid)
  then show ?thesis
    by (intro same_tables_ok [OF _ _ assms(2)]) (simp_all add: dead_letter_outbox_def outbox_entries_update)
next
  case (aux_failure oid)
  then show ?thesis
    by (intro same_tables_ok [OF _ _ assms(2)])
       (auto simp: record_outbox_failure_def outbox_entries_update split: option.splits)
qed (intro same_tables_ok [OF _ _ assms(2)];
     auto simp: lease_def Let_def acquire_slot_def release_slot_def create_run_service_def set_run_service_def
       fenced_def set_run_concurrency_def set_supersede_key_def set_run_scheduling_def store_run_ir_def
       set_gate_wait_inputs_def set_attempt_handle_def begin_run_creation_def create_run_def finish_run_creation_def
       outbox_entries_def put_artifacts_def set_run_cache_scope_def cache_record_def
       split: option.splits prod.splits)+

lemma services_intent_payload:
  "run_id_ok run \<Longrightarrow> CHR ''/'' \<notin> set nonce \<Longrightarrow>
     msg_fits (cancel_services_intent nonce run now st)
     \<and> (\<forall>tds. om_payload (cancel_services_intent nonce run now st) \<noteq> AttemptTeardown tds)"
  using services_intent_fits
  by (simp add: cancel_services_intent_def cancel_services_intent_through_def message_def)

lemma gate_snap_kind: "snap_ok st s \<Longrightarrow> is_gate s \<Longrightarrow> step_of st (sr_run s) (sr_step s) = Some rec \<Longrightarrow> rc_gate_kind rec \<noteq> None"
  by (auto simp: snap_ok_def is_gate_def)

lemma commit_op_ok:
  assumes op: "commit_op seen settled st st'" and ok: "store_ok st"
    and snaps: "\<And>s. s \<in> seen \<Longrightarrow> snap_ok st s" and fin: "\<And>k. k \<in> settled \<Longrightarrow> settled_ok st k"
  shows "store_ok st' \<and> evolves st st'"
  using op
proof cases
  case (op_rearm s t now pr)
  then show ?thesis using rearm_ok [OF ok snaps] snap_row_ok(2) [OF ok snaps] by blast
next
  case (op_cancel s now)
  then show ?thesis using cancel_ok [OF ok snaps] by blast
next
  case (op_finalize to now run step att failure cause)
  then show ?thesis using finalize_ok [OF ok] by blast
next
  case (op_retry run step att now kind cause)
  then show ?thesis using retry_ok [OF ok fin] by blast
next
  case (op_promote now leader run step signature)
  then show ?thesis using promote_ok [OF ok] by blast
next
  case (op_skip now run step)
  then show ?thesis using unmoved_ok [OF ok] unfolding skip_unchanged_commit_def by blast
next
  case (op_move "from" to now run step preceding)
  then show ?thesis using unmoved_ok [OF ok] unfolding transition_step_commit_def by blast
next
  case (op_unneeded s now)
  then show ?thesis using settle_unneeded_ok [OF ok snaps] by blast
next
  case (op_claim leader limit now ss)
  then show ?thesis using claim_ok [OF ok] by blast
next
  case (op_open_wait s leader started_at at x)
  then show ?thesis using open_wait_ok [OF ok] gate_snap_kind [OF snaps] by blast
next
  case (op_resolve s res y)
  then show ?thesis using resolve_wait_ok [OF ok] gate_snap_kind [OF snaps] by blast
next
  case (op_close s outcome att e b)
  then have "outcome \<noteq> AORunning" by auto
  then show ?thesis
    using close_running_ok [OF ok _ _ op_close(4)] gate_snap_kind [OF snaps [OF op_close(1)] op_close(2)] by blast
next
  case (op_run leader run "from" to now notify journal generation)
  then show ?thesis using run_commit_ok [OF ok] by fastforce
next
  case (op_cancel_run run nonce leader "from" now generation)
  then show ?thesis using run_commit_ok [OF ok op_cancel_run(3)] services_intent_payload by fastforce
next
  case (op_create run step spec needs)
  then show ?thesis using create_ok [OF ok] by (simp add: create_step_run_def new_step_rec_def)
next
  case (op_create_gate run step kind timer spec needs)
  have "st' = put_step run step (new_step_rec spec needs\<lparr>rc_gate_kind := Some kind, rc_gate_timer_seconds := timer\<rparr>)
      (put_step run step (new_step_rec spec needs) st)"
    unfolding op_create_gate(1)
    by (simp add: set_step_gate_def modify_step_def create_step_run_def)
  moreover have "al_put k v' (al_put k v m) = al_put k v' m" for k v v' and m :: "(step_key \<times> step_rec) list"
    by (induction m) auto
  ultimately have "st' = put_step run step (new_step_rec spec needs\<lparr>rc_gate_kind := Some kind, rc_gate_timer_seconds := timer\<rparr>) st"
    by (simp add: put_step_def)
  then show ?thesis using create_ok [OF ok] op_create_gate by (simp add: new_step_rec_def)
next
  case op_aux
  then show ?thesis using aux_ok ok by blast
qed

definition cfg_ok :: "cfg \<Rightarrow> bool" where
  "cfg_ok c \<longleftrightarrow> store_ok (cf_store c) \<and> (\<forall>s \<in> cf_seen c. snap_ok (cf_store c) s)
     \<and> (\<forall>k \<in> cf_settled c. settled_ok (cf_store c) k)"

lemma empty_store_ok: "store_ok empty_store"
  by (simp add: store_ok_def empty_store_def al_wf_def outbox_entries_def)

lemma sys_step_ok:
  assumes "sys_step c c'" "cfg_ok c"
  shows "cfg_ok c' \<and> evolves (cf_store c) (cf_store c')"
  using assms(1)
proof cases
  case (sys_read run)
  then show ?thesis using assms(2) read_snap_ok by (auto simp: cfg_ok_def)
next
  case (sys_failure att run step kind detail)
  let ?st = "set_attempt_failure run step att kind detail (cf_store c)"
  have ok: "store_ok (cf_store c)" using assms(2) by (simp add: cfg_ok_def)
  have st: "store_ok ?st" "evolves (cf_store c) ?st" using set_failure_ok [OF ok] by auto
  have "settled_ok ?st (run, step, att)" using set_failure_settles [OF sys_failure(2)] .
  then show ?thesis
    using assms(2) st snap_evolves [OF st(2)] settled_evolves [OF st(2)] unfolding sys_failure(1) cfg_ok_def by auto
next
  case (sys_commit st')
  have "store_ok st' \<and> evolves (cf_store c) st'"
    using commit_op_ok [OF sys_commit(2)] assms(2) by (auto simp: cfg_ok_def)
  then show ?thesis
    using assms(2) snap_evolves settled_evolves unfolding sys_commit(1) cfg_ok_def by auto
qed

lemma reachable_ok: "reachable c \<Longrightarrow> cfg_ok c"
proof (induction rule: reachable.induct)
  case reach_init
  then show ?case by (simp add: cfg_ok_def init_cfg_def empty_store_ok)
next
  case (reach_step c c')
  then show ?case using sys_step_ok by blast
qed

lemma later_evolves: "later_cfg c c' \<Longrightarrow> cfg_ok c \<Longrightarrow> cfg_ok c' \<and> evolves (cf_store c) (cf_store c')"
proof (induction rule: later_cfg.induct)
  case (later_step c c' c'')
  then show ?case using sys_step_ok evolves_trans by blast
qed simp

lemma reachable_row:
  assumes "reachable c" "step_of (cf_store c) run step = Some rec" "rc_gate_kind rec = None"
  shows "plain_ok (set (outbox_entries (cf_store c))) run step rec" "well_named (rc_attempts rec)"
    "run_id_ok run" "rec_ok (set (outbox_entries (cf_store c))) run step rec"
  using reachable_ok [OF assms(1)] assms(2,3) store_ok_row by (auto simp: cfg_ok_def rec_ok_def)

section \<open>A concrete history\<close>

text \<open>A leader takes the lease, a step is created, promoted and claimed; its run is read and the
  step re-armed while its attempt is in flight.\<close>

definition demo_leader :: leader_term where
  "demo_leader = \<lparr>lt_resource = ''scheduler'', lt_owner = ''a'', lt_term = 1\<rparr>"

definition demo_created :: store where
  "demo_created = create_step_run ''r'' ''build'' None [] (snd (lease 0 ''scheduler'' ''a'' 30 empty_store))"

definition demo_promoted :: store where
  "demo_promoted = projr (promote_commit 1 demo_leader ''r'' ''build'' ''sig'' demo_created)"

definition demo_claimed :: store where
  "demo_claimed = snd (claim_ready_steps demo_leader 10 (mint_launch 2) demo_promoted)"

definition demo_attempt :: "attempt_outcome \<Rightarrow> attempt" where
  "demo_attempt out = \<lparr>at_id = attempt_name 1, at_started_at = 2, at_failure = None, at_failure_detail = None, at_outcome = out\<rparr>"

definition demo_snap :: step_run where
  "demo_snap = \<lparr>sr_run = ''r'', sr_step = ''build'', sr_status = SRunning, sr_attempts = [demo_attempt AORunning],
     sr_needs = [], sr_gate_kind = None\<rparr>"

definition demo_rearmed :: store where
  "demo_rearmed = projr (commit_rearm 3 (sr_run demo_snap) (sr_step demo_snap) demo_snap None demo_claimed)"

lemma not_isl: "\<not> isl x \<Longrightarrow> x = Inr (projr x)"
  by (cases x) auto

lemma room_rows: "list_all (\<lambda>p. Suc (length (rc_attempts (snd p))) < u64_bound) (st_steps st) \<Longrightarrow> room st"
  by (auto simp: room_def list_all_iff dest!: map_of_SomeD)

abbreviation demo_row :: "step_status \<Rightarrow> attempt list \<Rightarrow> step_rec" where
  "demo_row status as \<equiv> new_step_rec None []\<lparr>rc_status := Some status, rc_attempts := as, rc_input := Some ''sig''\<rparr>"

lemma demo_created_tables:
  "st_steps demo_created = [((''r'', ''build''), new_step_rec None [])]"
  "st_leases demo_created ''scheduler'' = Some (''a'', 30, 1)" "st_outbox demo_created = []"
  by (simp_all add: demo_created_def create_step_run_def lease_def empty_store_def)

lemma demo_promoted_commit:
  "promote_commit 1 demo_leader ''r'' ''build'' ''sig'' demo_created = Inr demo_promoted"
  unfolding demo_promoted_def
  by (rule not_isl)
     (simp add: promote_commit_def promote_step_def holds_leader_term_def demo_leader_def demo_created_tables
        check_step_transition_def new_step_rec_def)

lemma demo_promoted_tables:
  "st_steps demo_promoted = [((''r'', ''build''), demo_row SReady [])]"
  "st_leases demo_promoted ''scheduler'' = Some (''a'', 30, 1)" "st_outbox demo_promoted = []"
  by (simp_all add: demo_promoted_def promote_commit_def promote_step_def holds_leader_term_def demo_leader_def
      demo_created_tables check_step_transition_def new_step_rec_def)

lemma demo_claimed_tables:
  "st_steps demo_claimed = [((''r'', ''build''), demo_row SRunning [demo_attempt AORunning])]"
  "outbox_entries demo_claimed = [(launch_key ''r'' ''build'' (attempt_name 1), ''r'', LAUNCH_STEP,
      LaunchIntent ''r'' ''build'' (attempt_name 1), 2)]"
  "\<not> isl (fst (claim_ready_steps demo_leader 10 (mint_launch 2) demo_promoted))"
  by (simp_all add: demo_claimed_def claim_ready_steps_def fenced_def holds_leader_term_if_def holds_leader_term_def
      demo_leader_def demo_promoted_tables ready_keys_def claimed_step_def step_run_of_def sorted_attempts_def
      List.map_filter_def mint_launch_def Let_def launch_one_def modify_step_def add_attempt_def new_step_rec_def
      demo_attempt_def enqueue_outbox_def outbox_entries_def message_def body_of_def)

lemma demo_claimed_read: "steps_of_run ''r'' demo_claimed = [demo_snap]"
  by (simp add: steps_of_run_def demo_claimed_tables List.map_filter_def step_run_of_def sorted_attempts_def
      demo_snap_def new_step_rec_def)

lemma demo_latest: "latest_attempt (demo_row status [demo_attempt out]) = Some (attempt_name 1)"
  by (simp add: latest_attempt_def demo_attempt_def)

lemma demo_rearmed_commit:
  "commit_rearm 3 (sr_run demo_snap) (sr_step demo_snap) demo_snap None demo_claimed = Inr demo_rearmed"
  unfolding demo_rearmed_def
  by (rule not_isl)
     (simp add: commit_rearm_def demo_snap_def in_flight_attempt_def last_opt_def demo_attempt_def
        commit_step_transition_def check_step_transition_def demo_claimed_tables frontier_ok_def
        latest_attempt_def new_step_rec_def)

lemma demo_rearmed_tables:
  "st_steps demo_rearmed = [((''r'', ''build''), demo_row SPending [demo_attempt AOSuperseded])]"
  by (simp add: demo_rearmed_def commit_rearm_def demo_snap_def in_flight_attempt_def last_opt_def demo_attempt_def
      commit_step_transition_def check_step_transition_def demo_claimed_tables frontier_ok_def
      latest_attempt_def new_step_rec_def stamp_rec_def stamp_attempt_def)

lemma demo_claimed_reachable: "reachable \<lparr>cf_store = demo_claimed, cf_seen = {}, cf_settled = {}\<rparr>"
proof -
  let ?c = "\<lambda>st. \<lparr>cf_store = st, cf_seen = {}, cf_settled = {}\<rparr> :: cfg"
  have step: "reachable (?c st')" if "reachable (?c st)" "commit_op {} {} st st'" for st st'
    using reach_step [OF that(1) sys_commit, of st'] that(2) by simp
  let ?s0 = "snd (lease 0 ''scheduler'' ''a'' 30 empty_store)"
  have "reachable (?c ?s0)"
    using step [of empty_store] reach_init op_aux [OF aux_lease] by (simp add: init_cfg_def)
  moreover have "step_of ?s0 ''r'' ''build'' = None" "run_id_ok ''r''" "step_id_ok ''build''"
    by (simp_all add: lease_def empty_store_def run_id_ok_def step_id_ok_def)
  then have "commit_op {} {} ?s0 demo_created" unfolding demo_created_def by (intro op_create)
  ultimately have "reachable (?c demo_created)" by (rule step)
  from step [OF this op_promote [OF demo_promoted_commit]] have "reachable (?c demo_promoted)" .
  moreover have "room demo_promoted" by (rule room_rows) (simp add: demo_promoted_tables u64_bound_def)
  then have "commit_op {} {} demo_promoted demo_claimed"
    unfolding demo_claimed_def using not_isl [OF demo_claimed_tables(3)] by (intro op_claim) (auto intro: prod_eqI)
  ultimately show ?thesis by (rule step)
qed

lemma demo_rearmed_reachable: "reachable \<lparr>cf_store = demo_rearmed, cf_seen = {demo_snap}, cf_settled = {}\<rparr>"
proof -
  let ?c = "\<lparr>cf_store = demo_claimed, cf_seen = {demo_snap}, cf_settled = {}\<rparr> :: cfg"
  have r: "reachable ?c"
    using reach_step [OF demo_claimed_reachable sys_read, of "''r''"] by (simp add: demo_claimed_read)
  have "commit_op {demo_snap} {} demo_claimed demo_rearmed"
    by (rule op_rearm [OF _ _ demo_rearmed_commit]) simp_all
  from reach_step [OF r sys_commit] this show ?thesis by fastforce
qed

section \<open>Properties\<close>

text \<open>C1: a step has at most one live attempt. In every reachable configuration, whatever stale
  snapshots the replicas acted on, an attempt of a plain step that is recorded as running is the
  step's latest attempt and the step itself is \<open>Running\<close>: no pod outlives its step unowned.\<close>

theorem single_live_attempt:
  assumes "reachable c" "step_of (cf_store c) run step = Some rec" "rc_gate_kind rec = None"
    and "a \<in> set (rc_attempts rec)" "at_outcome a = AORunning"
  shows "last_opt (rc_attempts rec) = Some a \<and> rc_status rec = Some SRunning
    \<and> (\<forall>b \<in> set (rc_attempts rec). at_outcome b = AORunning \<longrightarrow> b = a)"
proof -
  note rok = reachable_row [OF assms(1,2,3)]
  have l: "last_opt (rc_attempts rec) = Some b" if "b \<in> set (rc_attempts rec)" "at_outcome b = AORunning" for b
    using running_is_last [OF rok(4) assms(3) that] .
  have "rc_status rec = Some SRunning" using rok(1) assms(4,5) by (auto simp: plain_ok_def in_set_conv_nth)
  moreover have "b = a" if "b \<in> set (rc_attempts rec)" "at_outcome b = AORunning" for b
    using l [OF that] l [OF assms(4,5)] by simp
  ultimately show ?thesis using l [OF assms(4,5)] by blast
qed

theorem single_live_attempt_witness:
  "step_of demo_claimed ''r'' ''build'' = Some (demo_row SRunning [demo_attempt AORunning])
   \<and> last_opt [demo_attempt AORunning] = Some (demo_attempt AORunning)"
proof -
  have row: "step_of demo_claimed ''r'' ''build'' = Some (demo_row SRunning [demo_attempt AORunning])"
    by (simp add: demo_claimed_tables)
  from single_live_attempt [OF demo_claimed_reachable, of "''r''" "''build''" _ "demo_attempt AORunning"] row
  have "last_opt (rc_attempts (demo_row SRunning [demo_attempt AORunning])) = Some (demo_attempt AORunning)"
    by (simp add: new_step_rec_def demo_attempt_def)
  with row show ?thesis by simp
qed



text \<open>C3: an attempt is launched exactly once. In every reachable configuration each attempt of a
  plain step has exactly one message under its launch key, and that message is its launch intent;
  attempt ids are minted in order, so no id is ever used twice.\<close>

theorem launch_exactly_once:
  assumes "reachable c" "step_of (cf_store c) run step = Some rec" "rc_gate_kind rec = None"
    and "a \<in> set (rc_attempts rec)"
  shows "(\<exists>!b. (launch_key run step (at_id a), b) \<in> set (outbox_entries (cf_store c)))
    \<and> (\<exists>kind at. (launch_key run step (at_id a), run, kind, LaunchIntent run step (at_id a), at)
          \<in> set (outbox_entries (cf_store c)))
    \<and> distinct (map at_id (rc_attempts rec))"
proof -
  note row = reachable_row [OF assms(1,2,3)]
  from row(1) assms(4) obtain kind at where
    e: "(launch_key run step (at_id a), run, kind, LaunchIntent run step (at_id a), at) \<in> set (outbox_entries (cf_store c))"
    by (auto simp: plain_ok_def launch_named_def)
  have "distinct (map fst (outbox_entries (cf_store c)))"
    using reachable_ok [OF assms(1)] by (simp add: cfg_ok_def store_ok_def)
  then have "\<exists>!b. (launch_key run step (at_id a), b) \<in> set (outbox_entries (cf_store c))"
    using e by (metis eq_key_imp_eq_value)
  with e row(2) well_named_distinct show ?thesis by blast
qed

theorem launch_exactly_once_witness:
  "\<exists>!b. (launch_key ''r'' ''build'' (attempt_name 1), b) \<in> set (outbox_entries demo_rearmed)"
proof -
  let ?rec = "demo_row SPending [demo_attempt AOSuperseded]" and ?a = "demo_attempt AOSuperseded"
  have "step_of demo_rearmed ''r'' ''build'' = Some ?rec" "rc_gate_kind ?rec = None" "?a \<in> set (rc_attempts ?rec)"
    by (simp_all add: demo_rearmed_tables new_step_rec_def)
  with launch_exactly_once [OF demo_rearmed_reachable, of "''r''" "''build''" ?rec ?a]
  show ?thesis by (simp add: demo_attempt_def)
qed



text \<open>C5: a torn-down attempt never settles its step. In every reachable configuration a verdict
  or a retry for a superseded or cancelled attempt, or for any attempt but the latest, is refused
  with \<open>Conflict\<close>, so a rerun's step is never finished by the pod it replaced.\<close>

theorem stale_verdict_refused:
  assumes "reachable c" "step_of (cf_store c) run step = Some rec" "rc_gate_kind rec = None"
    and "a \<in> set (rc_attempts rec)"
    and "at_outcome a \<in> {AOSuperseded, AOCancelled} \<or> last_opt (rc_attempts rec) \<noteq> Some a"
  shows "finalize_commit now run step (at_id a) to failure cause (cf_store c) = Inl Conflict
    \<and> rearm_step_commit now run step (at_id a) kind detail (cf_store c) = Inl Conflict"
proof -
  note row = reachable_row [OF assms(1,2,3)]
  have "\<not> (rc_status rec = Some SRunning \<and> latest_attempt rec = Some (at_id a))"
  proof
    assume h: "rc_status rec = Some SRunning \<and> latest_attempt rec = Some (at_id a)"
    then obtain b where b: "last_opt (rc_attempts rec) = Some b" "at_id b = at_id a"
      using latest_attempt_last [OF row(2)] by auto
    have "b \<in> set (rc_attempts rec)" using b(1) by (auto simp: last_opt_Some)
    then have "b = a" using b(2) assms(4) well_named_distinct [OF row(2)] by (metis distinct_map inj_onD)
    moreover have "at_outcome (last (rc_attempts rec)) \<notin> {AOSuperseded, AOCancelled}"
      using row(1) h unfolding plain_ok_def by blast
    ultimately show False using assms(5) b(1) by (auto simp: last_opt_def split: if_splits)
  qed
  then show ?thesis using assms(2)
    by (auto simp: finalize_commit_def rearm_step_commit_def commit_step_transition_def check_step_transition_def frontier_ok_def)
qed

theorem stale_verdict_refused_witness:
  "finalize_commit 9 ''r'' ''build'' (attempt_name 1) SSucceeded None None demo_rearmed = Inl Conflict"
proof -
  let ?rec = "demo_row SPending [demo_attempt AOSuperseded]" and ?a = "demo_attempt AOSuperseded"
  have "step_of demo_rearmed ''r'' ''build'' = Some ?rec" "rc_gate_kind ?rec = None" "?a \<in> set (rc_attempts ?rec)"
    "at_outcome ?a \<in> {AOSuperseded, AOCancelled}"
    by (simp_all add: demo_rearmed_tables new_step_rec_def demo_attempt_def)
  with stale_verdict_refused [OF demo_rearmed_reachable, of "''r''" "''build''" ?rec ?a]
  show ?thesis by (simp add: demo_attempt_def)
qed

end
