(* ===== verification/Requests.thy ===== *)
theory Requests
  imports System
begin

text \<open>
  The entry points the API role calls (\<^verbatim>\<open>crates/scarab-engine/src/scheduler.rs\<close>): rerun and retry
  of a step, release, rejection and approval of a gate, cancellation of a run. Each is a program over
  the store: a sequence of the port's calls in the code's order, that stops at the first error and
  keeps what it wrote before. A snapshot read by an operation is an argument of the calls that
  follow it, so every compare-and-swap may meet a row that has moved since.

  \<open>clk\<close> is the clock: the answer of a reading, a function of the store it is read at, so that two
  readings around a write need not agree.
\<close>

section \<open>Programs of the port\<close>

datatype rerun_error =
    RerunDb db_error
  | StepNotFound step_id
  | DependencyNotSatisfied step_id step_id
  | NotFailed step_id step_status
  | NotAManualGate step_id
  | GateNotPending step_id step_status
  | GateNotReached step_id
  | NotARejectableGate step_id
  | CreationUnfinished

type_synonym 'a db_prog = "(store, db_error, 'a) prog"
type_synonym 'a req_prog = "(store, rerun_error, 'a) prog"
type_synonym clock = "store \<Rightarrow> timestamp"

text \<open>A write that cannot be refused.\<close>

definition writeP :: "('s \<Rightarrow> 's) \<Rightarrow> ('s, 'e, unit) prog" where
  "writeP f st = (Inr (), f st)"

text \<open>\<^verbatim>\<open>Ok(()) | Err(DbError::Conflict) => Ok(())\<close>: a peer's move is benign.\<close>

definition benign :: "unit db_prog \<Rightarrow> unit db_prog" where
  "benign m st = (case m st of (Inl Conflict, st') \<Rightarrow> (Inr (), st') | r \<Rightarrow> r)"

definition append_eventP :: "event_kind \<Rightarrow> (store, 'e, unit) prog" where
  "append_eventP e = writeP (append_events [e])"

definition commit_run ::
  "leader_term option \<Rightarrow> run_id \<Rightarrow> run_status \<Rightarrow> run_status \<Rightarrow> timestamp \<Rightarrow> bool
     \<Rightarrow> outbox_message list \<Rightarrow> event_kind list \<Rightarrow> unit db_prog" where
  "commit_run leader run from to now notify intents journal =
     bindP (readP (run_reopen_generation run)) (\<lambda>generation.
     commitP (commit_run_transition_after leader run from to now notify intents journal generation))"

section \<open>Guards and reopening\<close>

definition ensure_creation_finished :: "run_id \<Rightarrow> unit req_prog" where
  "ensure_creation_finished run =
     bindP (readP (run_creation_unfinished run)) (\<lambda>unfinished.
     if unfinished then throwP CreationUnfinished else returnP ())"

definition find_step :: "step_id \<Rightarrow> step_run list \<Rightarrow> step_run option" where
  "find_step step steps = List.find (\<lambda>s. sr_step s = step) steps"

definition blocking_dep :: "step_run \<Rightarrow> step_run list \<Rightarrow> step_id option" where
  "blocking_dep step steps =
     List.find (\<lambda>d. map_option sr_status (find_step d steps) \<notin> {Some SSucceeded, Some SSkipped})
       (sr_needs step)"

definition reopen :: "clock \<Rightarrow> run_id \<Rightarrow> run_status \<Rightarrow> run_status \<Rightarrow> unit req_prog" where
  "reopen clk run from to =
     bindP (readP clk) (\<lambda>now.
     mapErrP RerunDb (benign (commit_run None run from to now (run_is_terminal from) [] [])))"

definition reopen_if_runnable :: "clock \<Rightarrow> run_id \<Rightarrow> unit req_prog" where
  "reopen_if_runnable clk run =
     bindP (readP (run_status_of run)) (\<lambda>status.
     if status = Some RSuspended then
       bindP (readP (steps_of_run run)) (\<lambda>steps.
       if \<not> only_waits_outstanding steps then reopen clk run RSuspended RRunning else returnP ())
     else returnP ())"

section \<open>Rerun and retry\<close>

definition supersede_gate_attempt ::
  "clock \<Rightarrow> run_id \<Rightarrow> step_id \<Rightarrow> attempt_id \<Rightarrow> string option \<Rightarrow> bool db_prog" where
  "supersede_gate_attempt clk run step att by =
     bindP (readP clk) (\<lambda>now.
     close_running_attempt run step att AOSuperseded
       (Some (event run (AttemptSuperseded step att by) now)))"

definition rearm_rounds_bound :: nat where "rearm_rounds_bound = 8"

fun rearm_rounds ::
  "nat \<Rightarrow> clock \<Rightarrow> run_id \<Rightarrow> step_id \<Rightarrow> step_id \<Rightarrow> string option \<Rightarrow> unit req_prog" where
  "rearm_rounds 0 clk run target step by st = (Inr (), st)"
| "rearm_rounds (Suc n) clk run target step by st =
     (case find_step step (steps_of_run run st) of
        None \<Rightarrow> (Inr (), st)
      | Some s \<Rightarrow>
          if sr_status s = SPending then (Inr (), st)
          else case commit_rearm (clk st) run target s by st of
            Inr st' \<Rightarrow> (Inr (), st')
          | Inl Conflict \<Rightarrow> rearm_rounds n clk run target step by st
          | Inl e \<Rightarrow> (Inl (RerunDb e), st))"

definition rearm_raced_step ::
  "clock \<Rightarrow> run_id \<Rightarrow> step_id \<Rightarrow> step_id \<Rightarrow> string option \<Rightarrow> unit req_prog" where
  "rearm_raced_step = rearm_rounds rearm_rounds_bound"

text \<open>One iteration of the loop of \<^verbatim>\<open>rearm_invalidation_set\<close> over the snapshot.\<close>

definition rearm_one ::
  "clock \<Rightarrow> run_id \<Rightarrow> step_id \<Rightarrow> string option \<Rightarrow> step_id set \<Rightarrow> step_run \<Rightarrow> unit req_prog" where
  "rearm_one clk run target by invalid s =
     bindP
       (if sr_step s \<in> invalid \<and> sr_status s = SPending then
          (case open_gate_attempt s of
             None \<Rightarrow> returnP ()
           | Some a \<Rightarrow>
               bindP (mapErrP RerunDb (supersede_gate_attempt clk run (sr_step s) (at_id a) by)) (\<lambda>closed.
               if \<not> closed then rearm_raced_step clk run target (sr_step s) by else returnP ()))
        else returnP ())
     (\<lambda>_.
       if sr_step s \<in> invalid \<and> sr_status s \<noteq> SPending then
         (\<lambda>st. case commit_rearm (clk st) run target s by st of
                 Inr st' \<Rightarrow> (Inr (), st')
               | Inl Conflict \<Rightarrow> rearm_raced_step clk run target (sr_step s) by st
               | Inl e \<Rightarrow> (Inl (RerunDb e), st))
       else returnP ())"

definition clear_input :: "run_id \<Rightarrow> step_id \<Rightarrow> unit req_prog" where
  "clear_input run step = writeP (set_step_input run step None)"

definition rearm_invalidation_set ::
  "clock \<Rightarrow> run_id \<Rightarrow> step_id \<Rightarrow> rerun_plan \<Rightarrow> step_run list \<Rightarrow> string option \<Rightarrow> unit req_prog" where
  "rearm_invalidation_set clk run target plan steps by =
     bindP (clear_input run target) (\<lambda>_.
     bindP (forP (rp_widened plan) (clear_input run)) (\<lambda>_.
     bindP (readP (run_status_of run)) (\<lambda>current.
     bindP (case current of
              Some cur \<Rightarrow> if run_is_terminal cur then reopen clk run cur RRunning else returnP ()
            | None \<Rightarrow> returnP ()) (\<lambda>_.
     forP steps (rearm_one clk run target by (set (rp_invalidated plan)))))))"

text \<open>The plan over what the store records of each step's inputs and output; \<open>snapshots\<close> is the
  snapshot oracle's answer for a root, when the deployment has one.\<close>

definition plan_over ::
  "(string \<Rightarrow> bool) option \<Rightarrow> run_id \<Rightarrow> step_id \<Rightarrow> step_run list \<Rightarrow> store \<Rightarrow> rerun_plan" where
  "plan_over snapshots run target steps st =
     plan_rerun_over snapshots (\<lambda>s. step_inputs_of run s st) (\<lambda>s. step_output_of run s st) target steps"

text \<open>The births of the next take's services.\<close>

definition next_take_names :: "run_service list \<Rightarrow> int \<Rightarrow> string list" where
  "next_take_names rows cur = sorted_list_of_set (sv_name ` {r \<in> set rows. sv_take r = cur})"

definition birth_next_take :: "run_id \<Rightarrow> timestamp \<Rightarrow> unit db_prog" where
  "birth_next_take run now =
     bindP (readP (run_services run)) (\<lambda>rows.
     if rows = [] then returnP ()
     else (let cur = Max (set (map sv_take rows)) in
           forP (next_take_names rows cur) (\<lambda>name. create_run_service None run (cur + 1) name now)))"

definition rerun_step_widened ::
  "clock \<Rightarrow> (string \<Rightarrow> bool) option \<Rightarrow> run_id \<Rightarrow> step_id \<Rightarrow> string option \<Rightarrow> rerun_plan req_prog" where
  "rerun_step_widened clk snapshots run target by =
     bindP (ensure_creation_finished run) (\<lambda>_.
     bindP (readP (steps_of_run run)) (\<lambda>steps.
     case find_step target steps of
       None \<Rightarrow> throwP (StepNotFound target)
     | Some target_step \<Rightarrow>
         (case blocking_dep target_step steps of
            Some blocker \<Rightarrow> throwP (DependencyNotSatisfied target blocker)
          | None \<Rightarrow>
              bindP (readP (plan_over snapshots run target steps)) (\<lambda>plan.
              bindP (readP clk) (\<lambda>now.
              bindP (append_eventP (event run
                (RunRerunRequested target (rp_invalidated plan) by (rp_widened plan)) now)) (\<lambda>_.
              bindP (mapErrP RerunDb (birth_next_take run now)) (\<lambda>_.
              bindP (rearm_invalidation_set clk run target plan steps by) (\<lambda>_.
              returnP plan))))))))"

definition retry_step_widened ::
  "clock \<Rightarrow> (string \<Rightarrow> bool) option \<Rightarrow> run_id \<Rightarrow> step_id \<Rightarrow> string option \<Rightarrow> rerun_plan req_prog" where
  "retry_step_widened clk snapshots run target by =
     bindP (ensure_creation_finished run) (\<lambda>_.
     bindP (readP (steps_of_run run)) (\<lambda>steps.
     case find_step target steps of
       None \<Rightarrow> throwP (StepNotFound target)
     | Some target_step \<Rightarrow>
         if sr_status target_step \<noteq> SFailed then throwP (NotFailed target (sr_status target_step))
         else (case blocking_dep target_step steps of
            Some blocker \<Rightarrow> throwP (DependencyNotSatisfied target blocker)
          | None \<Rightarrow>
              bindP (readP (plan_over snapshots run target steps)) (\<lambda>plan.
              bindP (readP clk) (\<lambda>now.
              bindP (append_eventP (event run
                (StepRetryRequested target (rp_invalidated plan) by (rp_widened plan)) now)) (\<lambda>_.
              bindP (rearm_invalidation_set clk run target plan steps by) (\<lambda>_.
              returnP plan)))))))"

section \<open>Gates\<close>

definition resolve_gate ::
  "clock \<Rightarrow> run_id \<Rightarrow> step_run \<Rightarrow> gate_verdict \<Rightarrow> string option \<Rightarrow> attempt_id option \<Rightarrow> bool db_prog" where
  "resolve_gate clk run gate verdict by fence =
     bindP (readP clk) (\<lambda>now.
     bindP (readP (\<lambda>st. case fence of
              Some _ \<Rightarrow> now | None \<Rightarrow> wait_began_at (events_of run st) gate now)) (\<lambda>legacy_started_at.
     bindP (resolve_gate_wait run (sr_step gate)
              \<lparr>gr_passed = gv_passed verdict, gr_reason = gv_reason verdict, gr_expired = gv_expired verdict,
               gr_by = by, gr_fence = fence, gr_legacy_started_at = legacy_started_at, gr_at = now,
               gr_outputs = None\<rparr>) (\<lambda>resolved.
     returnP (resolved \<noteq> None))))"

definition release_gate :: "clock \<Rightarrow> run_id \<Rightarrow> step_id \<Rightarrow> unit req_prog" where
  "release_gate clk run step =
     bindP (ensure_creation_finished run) (\<lambda>_.
     bindP (readP (steps_of_run run)) (\<lambda>steps.
     case List.find (\<lambda>s. sr_step s = step \<and> is_gate s) steps of
       None \<Rightarrow> throwP (StepNotFound step)
     | Some gate \<Rightarrow>
         if sr_status gate = SPending \<and> \<not> gate_reached gate steps then throwP (GateNotReached step)
         else bindP (mapErrP RerunDb (resolve_gate clk run gate
                \<lparr>gv_passed = True, gv_reason = ''released'', gv_expired = False\<rparr> None None)) (\<lambda>resolved.
              if \<not> resolved then returnP () else reopen_if_runnable clk run)))"

definition reject_gate :: "clock \<Rightarrow> run_id \<Rightarrow> step_id \<Rightarrow> string \<Rightarrow> string \<Rightarrow> bool req_prog" where
  "reject_gate clk run step by reason =
     bindP (ensure_creation_finished run) (\<lambda>_.
     bindP (readP (steps_of_run run)) (\<lambda>steps.
     case find_step step steps of
       None \<Rightarrow> throwP (StepNotFound step)
     | Some gate \<Rightarrow>
         if sr_gate_kind gate \<notin> {Some ''manual'', Some ''timer'', Some ''external'', Some ''plugin''}
         then throwP (NotARejectableGate step)
         else if sr_status gate \<noteq> SPending then throwP (GateNotPending step (sr_status gate))
         else if \<not> gate_reached gate steps then throwP (GateNotReached step)
         else bindP (mapErrP RerunDb (resolve_gate clk run gate
                \<lparr>gv_passed = False, gv_reason = reason, gv_expired = False\<rparr> (Some by) None)) (\<lambda>resolved.
              bindP (if resolved then reopen_if_runnable clk run else returnP ()) (\<lambda>_.
              returnP resolved))))"

definition record_gate_approval :: "clock \<Rightarrow> run_id \<Rightarrow> step_id \<Rightarrow> string \<Rightarrow> unit req_prog" where
  "record_gate_approval clk run step by =
     bindP (ensure_creation_finished run) (\<lambda>_.
     bindP (readP (steps_of_run run)) (\<lambda>steps.
     case find_step step steps of
       None \<Rightarrow> throwP (StepNotFound step)
     | Some gate \<Rightarrow>
         if sr_gate_kind gate \<noteq> Some ''manual'' then throwP (NotAManualGate step)
         else if sr_status gate \<noteq> SPending then throwP (GateNotPending step (sr_status gate))
         else if \<not> gate_reached gate steps then throwP (GateNotReached step)
         else bindP (readP (\<lambda>st. gate_approvers (events_of run st) step)) (\<lambda>approvers.
              if list_ex (\<lambda>b. b = by) approvers then returnP ()
              else bindP (readP clk) (\<lambda>now.
                   append_eventP (event run (GateApproved step by) now)))))"

section \<open>Cancelling\<close>

definition cancel_open_gate_attempt :: "run_id \<Rightarrow> step_run \<Rightarrow> unit db_prog" where
  "cancel_open_gate_attempt run step =
     (if \<not> is_gate step then returnP ()
      else bindP (readP (attempts_of_step run (sr_step step))) (\<lambda>attempts.
           case running_last attempts of
             None \<Rightarrow> returnP ()
           | Some a \<Rightarrow> bindP (close_running_attempt run (sr_step step) (at_id a) AOCancelled None) (\<lambda>_. returnP ())))"

definition cancel_rounds_bound :: nat where "cancel_rounds_bound = 8"

fun cancel_rounds :: "nat \<Rightarrow> run_id \<Rightarrow> step_run \<Rightarrow> timestamp \<Rightarrow> unit db_prog" where
  "cancel_rounds 0 run step now st = (Inr (), st)"
| "cancel_rounds (Suc n) run step now st =
     (if step_is_terminal (sr_status step) then (Inr (), st)
      else case cancel_step_commit now run step st of
        Inr st' \<Rightarrow> cancel_open_gate_attempt run step st'
      | Inl Conflict \<Rightarrow>
          (case find_step (sr_step step) (steps_of_run run st) of
             Some s \<Rightarrow> cancel_rounds n run s now st
           | None \<Rightarrow> (Inr (), st))
      | Inl e \<Rightarrow> (Inl e, st))"

definition cancel_step :: "run_id \<Rightarrow> step_run \<Rightarrow> timestamp \<Rightarrow> unit db_prog" where
  "cancel_step = cancel_rounds cancel_rounds_bound"

text \<open>\<open>nonce\<close> is the per-call random part of the services teardown's key.\<close>

definition cancel_run_request :: "clock \<Rightarrow> string \<Rightarrow> run_id \<Rightarrow> string option \<Rightarrow> bool db_prog" where
  "cancel_run_request clk nonce run by =
     bindP (readP (run_status_of run)) (\<lambda>status.
     case status of
       None \<Rightarrow> returnP False
     | Some current \<Rightarrow>
         if run_is_terminal current then returnP False
         else
           bindP (readP clk) (\<lambda>now.
           bindP (append_eventP (event run (RunCancelRequested by) now)) (\<lambda>_.
           bindP (readP (steps_of_run run)) (\<lambda>steps.
           bindP (forP steps (\<lambda>step. cancel_step run step now)) (\<lambda>_.
           bindP (readP (cancel_services_intent nonce run now)) (\<lambda>intent.
           bindP (benign (commit_run None run current RCancelled now True [intent] [])) (\<lambda>_.
           bindP (readP (\<lambda>st. st_concurrency st run)) (\<lambda>conc.
           bindP (case conc of
                    Some (grp, _) \<Rightarrow> writeP (release_slot grp run)
                  | None \<Rightarrow> returnP ()) (\<lambda>_.
           returnP True)))))))))"

end
