(* ===== verification/Request_Laws.thy ===== *)
theory Request_Laws
  imports Requests
begin

text \<open>
  What the API's entry points do. First, each is a path of the step relation of \<open>System\<close>: whatever
  configuration it starts in, the store it leaves is one the system reaches by single transactions
  on snapshots that were read, so the invariants of every reachable configuration hold after it and
  at every point in between. Then what each has achieved when it returns.
\<close>

section \<open>Programs as paths of the step relation\<close>

definition runs_as :: "step_run set \<Rightarrow> store \<Rightarrow> store \<Rightarrow> bool" where
  "runs_as seen st st' \<longleftrightarrow> (\<forall>c :: cfg. cf_store c = st \<and> seen \<subseteq> cf_seen c \<longrightarrow>
     (\<exists>c'. later_cfg c c' \<and> cf_store c' = st' \<and> cf_seen c \<subseteq> cf_seen c'))"

named_theorems runs_intros \<open>programs that follow the step relation\<close>

lemma later_trans: "later_cfg b c \<Longrightarrow> later_cfg a b \<Longrightarrow> later_cfg a c"
  by (induction rule: later_cfg.induct) (auto intro: later_cfg.intros)

lemma runs_refl [simp, intro]: "runs_as seen st st"
  unfolding runs_as_def using later_refl by blast

lemma runs_trans:
  assumes "runs_as seen a b" "runs_as seen b c"
  shows "runs_as seen a c"
  unfolding runs_as_def
proof (intro allI impI)
  fix x :: cfg assume x: "cf_store x = a \<and> seen \<subseteq> cf_seen x"
  then obtain y where y: "later_cfg x y" "cf_store y = b" "cf_seen x \<subseteq> cf_seen y"
    using assms(1) unfolding runs_as_def by blast
  then obtain z where "later_cfg y z" "cf_store z = c" "cf_seen y \<subseteq> cf_seen z"
    using assms(2) x unfolding runs_as_def by blast
  with y show "\<exists>z. later_cfg x z \<and> cf_store z = c \<and> cf_seen x \<subseteq> cf_seen z"
    using later_trans by blast
qed

lemma runs_mono: "seen \<subseteq> seen' \<Longrightarrow> runs_as seen st st' \<Longrightarrow> runs_as seen' st st'"
  unfolding runs_as_def by blast

lemma runs_read:
  assumes "runs_as (seen \<union> set (steps_of_run run st)) st st'"
  shows "runs_as seen st st'"
  unfolding runs_as_def
proof (intro allI impI)
  fix c :: cfg assume c: "cf_store c = st \<and> seen \<subseteq> cf_seen c"
  let ?c = "c\<lparr>cf_seen := cf_seen c \<union> set (steps_of_run run (cf_store c))\<rparr>"
  have "later_cfg c ?c" by (rule later_step [OF later_refl sys_read])
  moreover obtain c' where "later_cfg ?c c'" "cf_store c' = st'" "cf_seen ?c \<subseteq> cf_seen c'"
    using assms c unfolding runs_as_def
    by (metis (no_types, lifting) Un_mono cfg.ext_inject cfg.surjective cfg.update_convs(2) order_refl)
  ultimately show "\<exists>c'. later_cfg c c' \<and> cf_store c' = st' \<and> cf_seen c \<subseteq> cf_seen c'"
    using later_trans by fastforce
qed

lemma commit_op_mono: "commit_op seen settled st st' \<Longrightarrow> seen \<subseteq> seen' \<Longrightarrow> settled \<subseteq> settled' \<Longrightarrow> commit_op seen' settled' st st'"
  by (induction rule: commit_op.induct) (blast intro: commit_op.intros)+

lemma runs_commit:
  assumes "commit_op seen {} st st'"
  shows "runs_as seen st st'"
  unfolding runs_as_def
proof (intro allI impI)
  fix c :: cfg assume c: "cf_store c = st \<and> seen \<subseteq> cf_seen c"
  then have "commit_op (cf_seen c) (cf_settled c) (cf_store c) st'" using commit_op_mono [OF assms] by simp
  then have "later_cfg c (c\<lparr>cf_store := st'\<rparr>)" by (intro later_step [OF later_refl] sys_commit)
  then show "\<exists>c'. later_cfg c c' \<and> cf_store c' = st' \<and> cf_seen c \<subseteq> cf_seen c'" by fastforce
qed

lemma runs_aux: "aux_op st st' \<Longrightarrow> runs_as seen st st'"
  by (rule runs_commit [OF op_aux])

lemma runs_reachable:
  assumes "runs_as {} (cf_store c) st'"
  shows "\<exists>c'. later_cfg c c' \<and> cf_store c' = st'"
  using assms unfolding runs_as_def by blast

lemma runs_return [runs_intros]: "runs_as seen st (snd (returnP a st))"
  "runs_as seen st (snd (throwP e st))" "runs_as seen st (snd (readP f st))"
  by (simp_all add: prog_simps)

lemma runs_bind [runs_intros]:
  assumes "runs_as seen st (snd (m st))"
    and "\<And>a st'. m st = (Inr a, st') \<Longrightarrow> runs_as seen st' (snd (f a st'))"
  shows "runs_as seen st (snd (bindP m f st))"
  using assms runs_trans unfolding bindP_def
  by (cases "m st") (fastforce split: sum.splits prod.splits)

lemma runs_mapErr [runs_intros]: "runs_as seen st (snd (m st)) \<Longrightarrow> runs_as seen st (snd (mapErrP h m st))"
  by (cases "m st") (auto simp: mapErrP_def split: sum.splits)

lemma benign_snd [simp]: "snd (benign m st) = snd (m st)"
  by (cases "m st") (auto simp: benign_def split: sum.splits db_error.splits)

lemma runs_benign [runs_intros]: "runs_as seen st (snd (m st)) \<Longrightarrow> runs_as seen st (snd (benign m st))"
  by simp

lemma runs_commitP [runs_intros]:
  "(\<And>st'. f st = Inr st' \<Longrightarrow> runs_as seen st st') \<Longrightarrow> runs_as seen st (snd (commitP f st))"
  by (cases "f st") (auto simp: commitP_def)

lemma runs_for [runs_intros]:
  assumes "\<And>x st'. x \<in> set xs \<Longrightarrow> runs_as seen st' (snd (f x st'))"
  shows "runs_as seen st (snd (forP xs f st))"
  using forP_invariant [of "runs_as seen st" st xs f] assms runs_trans by blast

lemma runs_write_event [runs_intros]: "runs_as seen st (snd (append_eventP e st))"
  unfolding append_eventP_def writeP_def by (simp add: runs_aux [OF aux_event])

lemma readP_eq: "readP f st = (Inr a, st') \<longleftrightarrow> a = f st \<and> st' = st"
  by (auto simp: readP_def)

section \<open>The entry points are paths\<close>

lemma steps_of_run_run: "s \<in> set (steps_of_run run st) \<Longrightarrow> sr_run s = run"
  by (auto simp: steps_of_run_def List.map_filter_def step_run_of_def split: if_splits)

lemma find_step_mem: "find_step step steps = Some s \<Longrightarrow> s \<in> set steps \<and> sr_step s = step"
  by (auto simp: find_step_def dest: find_Some_mem)

lemma runs_commit_run [runs_intros]: "runs_as seen st (snd (commit_run leader run from to now notify [] journal st))"
  unfolding commit_run_def by (intro runs_intros) (auto simp: readP_eq intro: runs_commit op_run)

lemma runs_reopen [runs_intros]: "runs_as seen st (snd (reopen clk run from to st))"
  unfolding reopen_def by (intro runs_intros)

lemma runs_ensure [runs_intros]: "runs_as seen st (snd (ensure_creation_finished run st))"
  unfolding ensure_creation_finished_def by (intro runs_intros) (simp add: prog_simps)

lemma runs_reopen_if [runs_intros]: "runs_as seen st (snd (reopen_if_runnable clk run st))"
  unfolding reopen_if_runnable_def by (auto intro!: runs_intros)

lemma runs_close [runs_intros]:
  assumes "s \<in> seen" "is_gate s" "sr_run s = run" "sr_step s = step" "outcome \<in> {AOSuperseded, AOCancelled}"
  shows "runs_as seen st (snd (close_running_attempt run step att outcome e st))"
proof -
  have "\<exists>b. fst (close_running_attempt run step att outcome e st) = Inr b"
    by (auto simp: close_running_attempt_def split: option.splits)
  then obtain b where "close_running_attempt run step att outcome e st = (Inr b, snd (close_running_attempt run step att outcome e st))"
    by (metis prod.collapse)
  then show ?thesis using op_close [of s seen outcome att e st b _ "{}"] assms by (auto intro: runs_commit)
qed

lemma runs_rearm:
  assumes "s \<in> seen" "t \<in> seen" "sr_step t = target" "sr_run s = run"
    and "commit_rearm now run target s by st = Inr st'"
  shows "runs_as seen st st'"
  using op_rearm [of s seen t now "by" st st'] assms by (auto intro: runs_commit)

lemma runs_rearm_rounds [runs_intros]:
  assumes "t \<in> seen" "sr_step t = target"
  shows "runs_as seen st (snd (rearm_rounds n clk run target step by st))"
proof (induction n arbitrary: st)
  case (Suc n)
  show ?case
  proof (rule runs_read [of _ run])
    let ?seen = "seen \<union> set (steps_of_run run st)"
    have "runs_as ?seen st st'" if "find_step step (steps_of_run run st) = Some s"
      "commit_rearm (clk st) run target s by st = Inr st'" for s st'
      using runs_rearm [of s ?seen t target run] that find_step_mem [OF that(1)] assms steps_of_run_run by blast
    moreover have "runs_as ?seen st (snd (rearm_rounds n clk run target step by st))"
      using runs_mono [OF _ Suc.IH] by blast
    ultimately show "runs_as ?seen st (snd (rearm_rounds (Suc n) clk run target step by st))"
      by (auto split: option.splits sum.splits db_error.splits)
  qed
qed simp

lemma runs_rearm_one [runs_intros]:
  assumes "t \<in> seen" "sr_step t = target" "s \<in> seen" "sr_run s = run"
  shows "runs_as seen st (snd (rearm_one clk run target by invalid s st))"
proof -
  have gate: "is_gate s" if "open_gate_attempt s = Some a" for a
    using that by (auto simp: open_gate_attempt_def split: if_splits)
  have 1: "runs_as seen st (snd ((case open_gate_attempt s of None \<Rightarrow> returnP () | Some a \<Rightarrow>
      bindP (mapErrP RerunDb (supersede_gate_attempt clk run (sr_step s) (at_id a) by)) (\<lambda>closed.
      if \<not> closed then rearm_raced_step clk run target (sr_step s) by else returnP ())) st))" for st
    using gate runs_rearm_rounds [OF assms(1,2)] runs_close [OF assms(3) _ assms(4) refl]
    unfolding rearm_raced_step_def supersede_gate_attempt_def
    by (auto split: option.splits intro!: runs_return runs_bind runs_mapErr)
  have 2: "runs_as seen st (snd (case commit_rearm (clk st) run target s by st of
      Inr st' \<Rightarrow> (Inr (), st') | Inl Conflict \<Rightarrow> rearm_raced_step clk run target (sr_step s) by st
      | Inl e \<Rightarrow> (Inl (RerunDb e), st)))" for st
    using runs_rearm [OF assms(3,1,2,4)] runs_rearm_rounds [OF assms(1,2)] unfolding rearm_raced_step_def
    by (auto split: sum.splits db_error.splits)
  show ?thesis unfolding rearm_one_def using 1 2 by (intro runs_bind) (auto intro: runs_intros)
qed

lemma runs_clear [runs_intros]: "runs_as seen st (snd (clear_input run step st))"
  unfolding clear_input_def writeP_def by (simp add: runs_aux [OF aux_input])

lemma runs_rearm_set [runs_intros]:
  assumes "t \<in> seen" "sr_step t = target" "set steps \<subseteq> seen" "\<And>s. s \<in> set steps \<Longrightarrow> sr_run s = run"
  shows "runs_as seen st (snd (rearm_invalidation_set clk run target plan steps by st))"
  unfolding rearm_invalidation_set_def
  using assms by (intro runs_intros) (auto simp: readP_eq split: option.splits intro!: runs_intros)

lemma runs_births [runs_intros]: "runs_as seen st (snd (birth_next_take run now st))"
  unfolding birth_next_take_def Let_def
  by (intro runs_intros) (auto intro!: runs_intros runs_aux [OF aux_service] simp: returnP_def)

lemma bind_read [simp]: "bindP (readP g) f st = f (g st) st"
  by (simp add: bindP_def readP_def)

lemma bind_return [simp]: "bindP (returnP a) f st = f a st"
  by (simp add: bindP_def returnP_def)

lemma bind_drop [simp]: "snd (bindP m (\<lambda>_. returnP a) st) = snd (m st)"
  by (cases "m st") (auto simp: bindP_def returnP_def split: sum.splits)

lemma ensure_finished:
  "ensure_creation_finished run st = (if run_creation_unfinished run st then (Inl CreationUnfinished, st) else (Inr (), st))"
  by (simp add: ensure_creation_finished_def throwP_def returnP_def)

lemma runs_bind_steps:
  assumes "runs_as (seen \<union> set (steps_of_run run st)) st (snd (f (steps_of_run run st) st))"
  shows "runs_as seen st (snd (bindP (readP (steps_of_run run)) f st))"
  using runs_read [OF assms] by simp

lemma runs_rerun: "runs_as seen st (snd (rerun_step_widened clk snapshots run target by st))"
  unfolding rerun_step_widened_def
proof (rule runs_bind [OF runs_ensure], rule runs_bind_steps, goal_cases)
  case (1 a st')
  let ?steps = "steps_of_run run st'"
  have rearm: "runs_as (seen \<union> set ?steps) st1 (snd (rearm_invalidation_set clk run target plan ?steps by st1))"
    if "find_step target ?steps = Some t" for t plan st1
    using find_step_mem [OF that] steps_of_run_run by (intro runs_rearm_set) auto
  then show ?case
    by (auto split: option.splits intro!: runs_return runs_bind runs_write_event runs_mapErr runs_births)
qed

lemma runs_retry: "runs_as seen st (snd (retry_step_widened clk snapshots run target by st))"
  unfolding retry_step_widened_def
proof (rule runs_bind [OF runs_ensure], rule runs_bind_steps, goal_cases)
  case (1 a st')
  let ?steps = "steps_of_run run st'"
  have rearm: "runs_as (seen \<union> set ?steps) st1 (snd (rearm_invalidation_set clk run target plan ?steps by st1))"
    if "find_step target ?steps = Some t" for t plan st1
    using find_step_mem [OF that] steps_of_run_run by (intro runs_rearm_set) auto
  then show ?case
    by (auto split: option.splits intro!: runs_return runs_bind runs_write_event)
qed

lemma resolve_no_error: "\<exists>x. fst (resolve_gate_wait run step res st) = Inr x"
  by (auto simp: resolve_gate_wait_def Let_def split: option.splits)

lemma runs_resolve:
  assumes "room st" "gate \<in> seen" "is_gate gate" "sr_run gate = run"
  shows "runs_as seen st (snd (resolve_gate clk run gate verdict by fence st))"
proof -
  have "runs_as seen st (snd (resolve_gate_wait run (sr_step gate) res st))" for res
  proof -
    obtain x where "resolve_gate_wait run (sr_step gate) res st = (Inr x, snd (resolve_gate_wait run (sr_step gate) res st))"
      using resolve_no_error by (metis prod.collapse)
    then show ?thesis using op_resolve [of st gate seen] assms by (auto intro: runs_commit)
  qed
  then show ?thesis unfolding resolve_gate_def by (auto intro!: runs_bind runs_return)
qed

lemma runs_release:
  assumes "room st"
  shows "runs_as seen st (snd (release_gate clk run step st))"
  unfolding release_gate_def
proof (rule runs_bind [OF runs_ensure], rule runs_bind_steps, goal_cases)
  case (1 a st')
  then have st': "st' = st" by (simp add: ensure_finished split: if_splits)
  have "runs_as (seen \<union> set (steps_of_run run st)) st (snd (resolve_gate clk run gate v b None st))"
    if "List.find (\<lambda>s. sr_step s = step \<and> is_gate s) (steps_of_run run st) = Some gate" for gate v b
    using find_Some_mem [OF that] steps_of_run_run by (intro runs_resolve [OF assms]) auto
  then show ?case unfolding st'
    by (auto split: option.splits intro!: runs_return runs_bind runs_mapErr runs_reopen_if)
qed

lemma runs_reject:
  assumes "room st"
  shows "runs_as seen st (snd (reject_gate clk run step by reason st))"
  unfolding reject_gate_def
proof (rule runs_bind [OF runs_ensure], rule runs_bind_steps, goal_cases)
  case (1 a st')
  then have st': "st' = st" by (simp add: ensure_finished split: if_splits)
  have "runs_as (seen \<union> set (steps_of_run run st)) st (snd (resolve_gate clk run gate v b None st))"
    if "find_step step (steps_of_run run st) = Some gate" "sr_gate_kind gate \<noteq> None" for gate v b
    using find_step_mem [OF that(1)] steps_of_run_run that(2) by (intro runs_resolve [OF assms]) (auto simp: is_gate_def)
  then show ?case unfolding st'
    by (auto split: option.splits intro!: runs_return runs_bind runs_mapErr runs_reopen_if)
qed

lemma runs_approval: "runs_as seen st (snd (record_gate_approval clk run step by st))"
  unfolding record_gate_approval_def
  by (auto split: option.splits intro!: runs_return runs_bind runs_ensure runs_write_event)

lemma runs_cancel_gate: 
  assumes "s \<in> seen" "sr_run s = run"
  shows "runs_as seen st (snd (cancel_open_gate_attempt run s st))"
  using assms unfolding cancel_open_gate_attempt_def
  by (auto split: option.splits intro!: runs_return runs_bind runs_close [OF assms(1)])

lemma runs_cancel_rounds:
  assumes "s \<in> seen" "sr_run s = run"
  shows "runs_as seen st (snd (cancel_rounds n run s now st))"
  using assms
proof (induction n arbitrary: s seen)
  case (Suc n)
  have commit: "runs_as seen st (snd (cancel_open_gate_attempt run s st'))"
    if "cancel_step_commit now run s st = Inr st'" for st'
    using runs_trans [OF runs_commit runs_cancel_gate [OF Suc.prems]] op_cancel [OF Suc.prems(1), of now st st'] that Suc.prems(2)
    by blast
  have again: "runs_as seen st (snd (cancel_rounds n run s' now st))"
    if "find_step (sr_step s) (steps_of_run run st) = Some s'" for s'
    using find_step_mem [OF that] steps_of_run_run by - (rule runs_read [of _ run], rule Suc.IH, auto)
  show ?case using commit again by (auto split: sum.splits option.splits db_error.splits)
qed simp

lemma runs_cancel_request:
  assumes "run_id_ok run" "CHR ''/'' \<notin> set nonce"
  shows "runs_as seen st (snd (cancel_run_request clk nonce run by st))"
proof -
  have run: "runs_as seen st (snd (commit_run None run current RCancelled now True [cancel_services_intent nonce run now st] [] st))"
    for seen st current now
    unfolding commit_run_def by (auto intro!: runs_commitP intro: runs_commit op_cancel_run [OF assms])
  have slot: "runs_as seen st (snd (writeP (release_slot grp run) st))" for seen st grp
    unfolding writeP_def by (simp add: runs_aux [OF aux_release])
  have cancel: "runs_as (seen \<union> set (steps_of_run run st)) st1 (snd (forP (steps_of_run run st) (\<lambda>s. cancel_step run s now) st1))"
    for seen st st1 now
    using steps_of_run_run unfolding cancel_step_def by (intro runs_for runs_cancel_rounds) auto
  have live: "runs_as seen st (snd (bindP (readP clk) (\<lambda>now.
           bindP (append_eventP (event run (RunCancelRequested by) now)) (\<lambda>_.
           bindP (readP (steps_of_run run)) (\<lambda>steps.
           bindP (forP steps (\<lambda>step. cancel_step run step now)) (\<lambda>_.
           bindP (readP (cancel_services_intent nonce run now)) (\<lambda>intent.
           bindP (benign (commit_run None run current RCancelled now True [intent] [])) (\<lambda>_.
           bindP (readP (\<lambda>st. st_concurrency st run)) (\<lambda>conc.
           bindP (case conc of Some (grp, _) \<Rightarrow> writeP (release_slot grp run) | None \<Rightarrow> returnP ()) (\<lambda>_.
           returnP True)))))))) st))" for current
    apply (subst bind_read, rule runs_bind [OF runs_write_event], rule runs_bind_steps, rule runs_bind [OF cancel])
    apply (subst bind_read, rule runs_bind [OF runs_benign [OF run]], subst bind_read)
    apply (rule runs_bind, use slot in \<open>auto split: option.splits intro: runs_return\<close>)
    done
  show ?thesis unfolding cancel_run_request_def
    by (subst bind_read, cases "run_status_of run st") (simp_all add: live runs_return del: bind_read)
qed

section \<open>What a program leaves alone\<close>

definition touches :: "step_key set \<Rightarrow> store \<Rightarrow> store \<Rightarrow> bool" where
  "touches keys st st' \<longleftrightarrow> (\<forall>r x. (r, x) \<notin> keys \<longrightarrow> step_of st' r x = step_of st r x)
     \<and> st_runs st' = st_runs st \<and> st_generations st' = st_generations st
     \<and> st_concurrency st' = st_concurrency st \<and> st_slots st' = st_slots st \<and> st_creating st' = st_creating st
     \<and> st_leases st' = st_leases st \<and> st_services st' = st_services st \<and> st_ir st' = st_ir st"

lemma touches_refl [simp]: "touches keys st st"
  by (simp add: touches_def)

lemma touches_trans: "touches keys a b \<Longrightarrow> touches keys b c \<Longrightarrow> touches keys a c"
  by (simp add: touches_def)

lemma touches_mono: "touches keys a b \<Longrightarrow> keys \<subseteq> keys' \<Longrightarrow> touches keys' a b"
  by (auto simp: touches_def)

lemma touches_other: "touches keys st st' \<Longrightarrow> (r, x) \<notin> keys \<Longrightarrow> step_of st' r x = step_of st r x"
  by (simp add: touches_def)

lemma concurrency_sel [simp]:
  "st_concurrency (put_step r s rec st) = st_concurrency st" "st_concurrency (append_events es st) = st_concurrency st"
  "st_concurrency (enqueue_outbox m st) = st_concurrency st" "st_concurrency (put_run r f t st) = st_concurrency st"
  by (simp_all add: put_step_def append_events_def put_run_def bump_reopen_generation_def enqueue_outbox_def)

lemma concurrency_enqueue [simp]: "st_concurrency (enqueue_all ms st) = st_concurrency st"
  by (induction ms arbitrary: st) simp_all

lemma services_sel [simp]:
  "st_services (put_step r s rec st) = st_services st" "st_services (append_events es st) = st_services st"
  "st_services (enqueue_outbox m st) = st_services st" "st_services (put_run r f t st) = st_services st"
  "st_services (modify_evidence k g st) = st_services st"
  by (simp_all add: put_step_def append_events_def put_run_def bump_reopen_generation_def enqueue_outbox_def modify_evidence_def)

lemma services_enqueue [simp]: "st_services (enqueue_all ms st) = st_services st"
  by (induction ms arbitrary: st) simp_all

lemma ir_sel [simp]:
  "st_ir (put_step r s rec st) = st_ir st" "st_ir (append_events es st) = st_ir st"
  "st_ir (enqueue_outbox m st) = st_ir st" "st_ir (put_run r f t st) = st_ir st"
  "st_ir (modify_evidence k g st) = st_ir st"
  by (simp_all add: put_step_def append_events_def put_run_def bump_reopen_generation_def enqueue_outbox_def modify_evidence_def)

lemma ir_enqueue [simp]: "st_ir (enqueue_all ms st) = st_ir st"
  by (induction ms arbitrary: st) simp_all

lemma touches_commit:
  "commit_step_transition run step from to frontier stamp es ms st = Inr st' \<Longrightarrow> touches {(run, step)} st st'"
  by (auto simp: commit_step_transition_iff touches_def)

lemma touches_rearm_commit: "commit_rearm now run target s by st = Inr st' \<Longrightarrow> touches {(run, sr_step s)} st st'"
  by (auto simp: commit_rearm_def Let_def dest: touches_commit split: if_splits option.splits)

lemma touches_cancel_commit: "cancel_step_commit now run s st = Inr st' \<Longrightarrow> touches {(run, sr_step s)} st st'"
  by (auto simp: cancel_step_commit_def Let_def dest: touches_commit)

lemma touches_close: "touches {(run, step)} st (snd (close_running_attempt run step att outcome e st))"
  by (auto simp: close_running_attempt_def touches_def split: option.splits)

lemma touches_cancel_gate: "touches {(run, sr_step s)} st (snd (cancel_open_gate_attempt run s st))"
  using touches_close [of run "sr_step s" st]
  by (auto simp: cancel_open_gate_attempt_def returnP_def split: option.splits)

lemma touches_cancel_rounds: "touches {(run, sr_step s)} st (snd (cancel_rounds n run s now st))"
proof (induction n arbitrary: s)
  case (Suc n)
  have "touches {(run, sr_step s)} st (snd (cancel_open_gate_attempt run s st'))"
    if "cancel_step_commit now run s st = Inr st'" for st'
    using touches_trans [OF touches_cancel_commit [OF that] touches_cancel_gate] .
  moreover have "touches {(run, sr_step s)} st (snd (cancel_rounds n run s' now st))"
    if "find_step (sr_step s) (steps_of_run run st) = Some s'" for s'
    using Suc.IH [of s'] find_step_mem [OF that] by simp
  ultimately show ?case by (auto split: sum.splits option.splits db_error.splits)
qed simp

section \<open>Reads and rows\<close>

lemma steps_of_run_mem:
  assumes "store_ok st"
  shows "(\<exists>s \<in> set (steps_of_run run st). sr_step s = step \<and> sr_status s = x) \<longleftrightarrow> step_status_of run step st = Some x"
proof
  assume "\<exists>s \<in> set (steps_of_run run st). sr_step s = step \<and> sr_status s = x"
  then show "step_status_of run step st = Some x"
    using steps_of_run_row [OF assms] by (fastforce simp: step_status_of_def)
next
  assume "step_status_of run step st = Some x"
  then obtain rec where r: "step_of st run step = Some rec" "rc_status rec = Some x"
    by (auto simp: step_status_of_def split: option.splits bind_splits)
  then have "((run, step), rec) \<in> set (st_steps st)" by (simp add: map_of_SomeD)
  then have "step_run_of (run, step) x rec \<in> set (steps_of_run run st)"
    using r by (force simp: steps_of_run_def List.map_filter_def image_iff)
  then show "\<exists>s \<in> set (steps_of_run run st). sr_step s = step \<and> sr_status s = x"
    by (rule bexI [rotated]) (simp add: step_run_of_def)
qed

lemma find_step_live:
  assumes "store_ok st" "step_status_of run step st = Some x"
  shows "\<exists>s. find_step step (steps_of_run run st) = Some s \<and> s \<in> set (steps_of_run run st) \<and> sr_step s = step \<and> sr_status s = x"
proof -
  have "\<exists>s \<in> set (steps_of_run run st). sr_step s = step" using steps_of_run_mem [OF assms(1)] assms(2) by blast
  then obtain s where s: "find_step step (steps_of_run run st) = Some s"
    by (cases "find_step step (steps_of_run run st)") (auto simp: find_step_def find_None_iff)
  moreover have "step_status_of run step st = Some (sr_status s)"
    using steps_of_run_mem [OF assms(1)] find_step_mem [OF s] by blast
  ultimately show ?thesis using assms(2) find_step_mem [OF s] by auto
qed

lemma steps_of_run_ids:
  assumes "store_ok st"
  shows "distinct (map sr_step (steps_of_run run st))"
proof -
  let ?f = "\<lambda>(key, rec). if fst key = run then map_option (\<lambda>status. step_run_of key status rec) (rc_status rec) else None"
  have "distinct (map fst xs) \<Longrightarrow> distinct (map sr_step (List.map_filter ?f xs))
      \<and> (\<forall>s \<in> set (List.map_filter ?f xs). (run, sr_step s) \<in> fst ` set xs)" for xs :: "(step_key \<times> step_rec) list"
  proof (induction xs)
    case (Cons p xs)
    obtain r x rec where p: "p = ((r, x), rec)" by (metis surj_pair)
    show ?case
    proof (cases "?f p")
      case (Some s)
      then have s: "sr_step s = x" "r = run" by (auto simp: p step_run_of_def split: if_splits)
      have "(run, x) \<notin> fst ` set xs" using Cons.prems s by (simp add: p)
      then have "x \<notin> sr_step ` set (List.map_filter ?f xs)" using Cons by (auto simp: p)
      moreover have "List.map_filter ?f (p # xs) = s # List.map_filter ?f xs" using Some by (simp add: List.map_filter_simps)
      ultimately show ?thesis using Cons s by (auto simp: p)
    qed (use Cons in \<open>auto simp: List.map_filter_simps p split: if_splits\<close>)
  qed (simp add: List.map_filter_simps)
  then have "distinct (map sr_step (List.map_filter ?f (st_steps st)))"
    using assms by (simp add: store_ok_def al_wf_def)
  moreover have "mset (map sr_step (steps_of_run run st)) = mset (map sr_step (List.map_filter ?f (st_steps st)))"
    by (simp add: steps_of_run_def)
  ultimately show ?thesis using mset_eq_imp_distinct_iff by blast
qed

lemma steps_of_run_cong: "st_steps st' = st_steps st \<Longrightarrow> steps_of_run run st' = steps_of_run run st"
  by (simp add: steps_of_run_def)

lemma runs_ok:
  assumes "runs_as seen st st'" "store_ok st" "\<And>s. s \<in> seen \<Longrightarrow> snap_ok st s"
  shows "store_ok st' \<and> evolves st st'"
proof -
  let ?c = "\<lparr>cf_store = st, cf_seen = seen, cf_settled = {}\<rparr> :: cfg"
  have "cfg_ok ?c" using assms(2,3) by (simp add: cfg_ok_def)
  moreover obtain c' where "later_cfg ?c c'" "cf_store c' = st'"
    using assms(1) [unfolded runs_as_def, rule_format, of ?c] by auto
  ultimately show ?thesis using later_evolves [of ?c c'] by (auto simp: cfg_ok_def)
qed

lemma still_read:
  assumes "s \<in> set (steps_of_run run st)" "store_ok st" "step_of st' run (sr_step s) = step_of st run (sr_step s)"
  shows "s \<in> set (steps_of_run run st')"
proof -
  from assms(1) obtain step rec status where mem: "((run, step), rec) \<in> set (st_steps st)"
    and r: "rc_status rec = Some status" "s = step_run_of (run, step) status rec"
    by (fastforce simp: steps_of_run_def List.map_filter_def split: if_splits)
  have "step_of st' run step = Some rec"
    using mem assms(2,3) r(2) by (simp add: step_run_of_def store_ok_def al_get_mem)
  then have "((run, step), rec) \<in> set (st_steps st')" by (rule map_of_SomeD)
  then show ?thesis using r by (force simp: steps_of_run_def List.map_filter_def image_iff)
qed

section \<open>Loops over a snapshot\<close>

text \<open>A loop handles the steps of one snapshot of a run in turn. When each iteration, on a step that
  still is as it was read, succeeds, changes no other row and reaches its goal for the row, then the
  loop succeeds and every row it read has reached its goal: no iteration spoils the snapshot of a
  later one.\<close>

locale step_loop =
  fixes run :: run_id and body :: "step_run \<Rightarrow> (store, 'e, unit) prog" and inv :: "store \<Rightarrow> bool"
    and goal :: "step_run \<Rightarrow> step_rec option \<Rightarrow> step_rec option \<Rightarrow> bool"
  assumes inv_ok: "inv st \<Longrightarrow> store_ok st"
    and body_ok: "inv st \<Longrightarrow> s \<in> set (steps_of_run run st) \<Longrightarrow>
      fst (body s st) = Inr () \<and> inv (snd (body s st)) \<and> touches {(run, sr_step s)} st (snd (body s st))
      \<and> goal s (step_of st run (sr_step s)) (step_of (snd (body s st)) run (sr_step s))"
begin

lemma loop_ok:
  assumes "inv st" "set xs \<subseteq> set (steps_of_run run st)" "distinct (map sr_step xs)"
  shows "fst (forP xs body st) = Inr () \<and> inv (snd (forP xs body st))
    \<and> touches ((\<lambda>s. (run, sr_step s)) ` set xs) st (snd (forP xs body st))
    \<and> (\<forall>s \<in> set xs. goal s (step_of st run (sr_step s)) (step_of (snd (forP xs body st)) run (sr_step s)))"
  using assms
proof (induction xs arbitrary: st)
  case (Cons x xs)
  let ?st = "snd (body x st)"
  have one: "fst (body x st) = Inr ()" "inv ?st" "touches {(run, sr_step x)} st ?st"
    "goal x (step_of st run (sr_step x)) (step_of ?st run (sr_step x))"
    using body_ok [OF Cons.prems(1), of x] Cons.prems(2) by auto
  have new: "sr_step y \<noteq> sr_step x" if "y \<in> set xs" for y
    using that Cons.prems(3) by (auto dest: image_eqI)
  have same: "step_of ?st run (sr_step y) = step_of st run (sr_step y)" if "y \<in> set xs" for y
    using touches_other [OF one(3)] new [OF that] by simp
  have "set xs \<subseteq> set (steps_of_run run ?st)"
    using still_read [OF _ inv_ok [OF Cons.prems(1)] same] Cons.prems(2) by (meson set_subset_Cons subsetD subsetI)
  then have ih: "fst (forP xs body ?st) = Inr ()" "inv (snd (forP xs body ?st))"
    "touches ((\<lambda>s. (run, sr_step s)) ` set xs) ?st (snd (forP xs body ?st))"
    "\<forall>s \<in> set xs. goal s (step_of ?st run (sr_step s)) (step_of (snd (forP xs body ?st)) run (sr_step s))"
    using Cons.IH [OF one(2)] Cons.prems(3) by auto
  have eq: "forP (x # xs) body st = forP xs body ?st" using one(1) by (cases "body x st") auto
  have "(run, sr_step x) \<notin> (\<lambda>s. (run, sr_step s)) ` set xs" by (auto dest: new)
  from touches_other [OF ih(3) this]
  have "step_of (snd (forP xs body ?st)) run (sr_step x) = step_of ?st run (sr_step x)" .
  moreover have "touches ((\<lambda>s. (run, sr_step s)) ` set (x # xs)) st (snd (forP xs body ?st))"
    using touches_trans [OF touches_mono [OF one(3)] touches_mono [OF ih(3)]] by auto
  ultimately show ?case using ih one(4) same unfolding eq by simp
qed simp

end

section \<open>Cancelling settles\<close>

definition step_settled :: "run_id \<Rightarrow> step_id \<Rightarrow> store \<Rightarrow> bool" where
  "step_settled run step st = (case step_status_of run step st of None \<Rightarrow> True | Some x \<Rightarrow> step_is_terminal x)"

lemma fresh_frontier:
  assumes "store_ok st" "s \<in> set (steps_of_run run st)" "step_of st run (sr_step s) = Some rec"
  shows "frontier_ok (FrontierIs (map_option at_id (last_opt (sr_attempts s)))) rec"
  using steps_of_run_row [OF assms(1,2)] assms(3) store_ok_row [OF assms(1,3)]
  by (auto simp: frontier_ok_def latest_attempt_last rec_ok_def)

lemma fresh_commit:
  assumes "store_ok st" "s \<in> set (steps_of_run run st)"
    and "frontier \<in> {FrontierAny, FrontierIs (map_option at_id (last_opt (sr_attempts s)))}"
  shows "\<exists>st'. commit_step_transition run (sr_step s) (sr_status s) to frontier stamp es ms st = Inr st'
     \<and> step_status_of run (sr_step s) st' = Some to"
proof -
  obtain rec where r: "step_of st run (sr_step s) = Some rec" "rc_status rec = Some (sr_status s)"
    using steps_of_run_row [OF assms(1,2)] by blast
  have "frontier_ok frontier rec" using assms(3) fresh_frontier [OF assms(1,2) r(1)] by (auto simp: frontier_ok_def)
  with r show ?thesis by (auto simp: commit_step_transition_iff step_status_of_def)
qed

lemma fresh_cancel:
  assumes "store_ok st" "s \<in> set (steps_of_run run st)"
  shows "\<exists>st'. cancel_step_commit now run s st = Inr st' \<and> step_status_of run (sr_step s) st' = Some SCancelled"
  unfolding cancel_step_commit_def Let_def by (rule fresh_commit [OF assms]) simp

lemma close_status [simp]:
  "step_status_of r x (snd (close_running_attempt run step att outcome e st)) = step_status_of r x st"
  by (auto simp: close_running_attempt_def step_status_of_def split: option.splits)

lemma close_no_error: "\<exists>b. fst (close_running_attempt run step att outcome e st) = Inr b"
  by (auto simp: close_running_attempt_def split: option.splits)

lemma cancel_gate_status [simp]: "step_status_of r x (snd (cancel_open_gate_attempt run s st)) = step_status_of r x st"
  by (auto simp: cancel_open_gate_attempt_def returnP_def split: option.splits)

lemma cancel_gate_no_error [simp]: "fst (cancel_open_gate_attempt run s st) = Inr ()"
  using close_no_error [of run "sr_step s" _ AOCancelled None st]
  by (auto simp: cancel_open_gate_attempt_def returnP_def bindP_def readP_def split: option.splits prod.splits sum.splits)
     (metis fst_conv sum.distinct(1))

lemma cancel_commit_error: "cancel_step_commit now run s st = Inl e \<Longrightarrow> e = Conflict"
  unfolding cancel_step_commit_def Let_def by (rule commit_step_transition_error)

lemma cancel_commit_status: "cancel_step_commit now run s st = Inr st' \<Longrightarrow> step_status_of run (sr_step s) st' = Some SCancelled"
  by (auto simp: cancel_step_commit_def Let_def commit_step_transition_iff step_status_of_def)

lemma fresh_cancel_rounds:
  assumes "store_ok st" "s \<in> set (steps_of_run run st)"
  shows "fst (cancel_rounds (Suc n) run s now st) = Inr () \<and> step_settled run (sr_step s) (snd (cancel_rounds (Suc n) run s now st))"
proof (cases "step_is_terminal (sr_status s)")
  case True
  have "step_status_of run (sr_step s) st = Some (sr_status s)"
    using steps_of_run_mem [OF assms(1)] assms(2) by blast
  with True show ?thesis by (simp add: step_settled_def)
next
  case False
  with fresh_cancel [OF assms, of now] show ?thesis
    by (auto simp: step_settled_def step_is_terminal_def)
qed

lemma cancel_rounds_settle:
  assumes "store_ok st" "\<not> step_is_terminal (sr_status s)"
  shows "fst (cancel_rounds (Suc (Suc n)) run s now st) = Inr ()
     \<and> step_settled run (sr_step s) (snd (cancel_rounds (Suc (Suc n)) run s now st))"
proof (cases "cancel_step_commit now run s st")
  case (Inr st')
  then show ?thesis using assms(2) cancel_commit_status [OF Inr]
    by (simp add: step_settled_def step_is_terminal_def)
next
  case (Inl e)
  then have e: "e = Conflict" by (rule cancel_commit_error)
  show ?thesis
  proof (cases "find_step (sr_step s) (steps_of_run run st)")
    case None
    then have "step_status_of run (sr_step s) st = None"
      using find_step_live [OF assms(1)] by (cases "step_status_of run (sr_step s) st") fastforce+
    then show ?thesis using Inl e None assms(2) by (simp add: step_settled_def)
  next
    case (Some s')
    have s': "s' \<in> set (steps_of_run run st)" "sr_step s' = sr_step s" using find_step_mem [OF Some] by auto
    have "cancel_rounds (Suc (Suc n)) run s now st = cancel_rounds (Suc n) run s' now st"
      using Inl e Some assms(2) by (subst cancel_rounds.simps) simp
    then show ?thesis using fresh_cancel_rounds [OF assms(1) s'(1), of n now] s'(2) by simp
  qed
qed

interpretation cancel_loop: step_loop run "\<lambda>s. cancel_step run s now" store_ok
    "\<lambda>s _ r. case Option.bind r rc_status of None \<Rightarrow> True | Some x \<Rightarrow> step_is_terminal x" for run now
proof
  fix st s assume ok: "store_ok st" and s: "s \<in> set (steps_of_run run st)"
  have "store_ok (snd (cancel_step run s now st))"
    using runs_ok [OF runs_cancel_rounds [of s "{s}" run]] s steps_of_run_run [OF s] ok read_snap_ok
    unfolding cancel_step_def by blast
  then show "fst (cancel_step run s now st) = Inr () \<and> store_ok (snd (cancel_step run s now st))
      \<and> touches {(run, sr_step s)} st (snd (cancel_step run s now st))
      \<and> (case Option.bind (step_of (snd (cancel_step run s now st)) run (sr_step s)) rc_status of
           None \<Rightarrow> True | Some x \<Rightarrow> step_is_terminal x)"
    using fresh_cancel_rounds [OF ok s, of 7 now] touches_cancel_rounds [of run s st 8 now]
    by (simp add: cancel_step_def cancel_rounds_bound_def step_settled_def step_status_of_def numeral_eq_Suc
        del: cancel_rounds.simps)
qed simp

lemma commit_run_hit:
  assumes "run_status_of run st = Some from"
  shows "commit_run None run from to now notify intents journal st =
    (Inr (), enqueue_all (intents @ (if notify then status_posts run from to (run_reopen_generation run st) now else []))
       (append_events (journal @ [event run (RunTransitioned from to) now]) (put_run run from to st)))"
  using assms by (simp add: commit_run_def commitP_def commit_run_transition_after_def commit_run_transition_def
      holds_leader_term_if_def run_status_of_def current_run_status_def)

text \<open>Every row a loop has settled, and no other row of the run moved: the run has no live step.\<close>

lemma settled_steps:
  assumes ok: "store_ok st" "store_ok st1" and t: "touches ((\<lambda>s. (run, sr_step s)) ` set (steps_of_run run st)) st st1"
    and settled: "\<forall>s \<in> set (steps_of_run run st). step_settled run (sr_step s) st1"
    and s: "s \<in> set (steps_of_run run st1)"
  shows "step_is_terminal (sr_status s)"
proof -
  have st: "step_status_of run (sr_step s) st1 = Some (sr_status s)" using steps_of_run_mem [OF ok(2)] s by blast
  show ?thesis
  proof (cases "\<exists>s' \<in> set (steps_of_run run st). sr_step s' = sr_step s")
    case True
    then show ?thesis using settled st by (auto simp: step_settled_def)
  next
    case False
    then have "step_of st1 run (sr_step s) = step_of st run (sr_step s)" by (intro touches_other [OF t]) auto
    then have "step_status_of run (sr_step s) st = Some (sr_status s)" using st by (simp add: step_status_of_def)
    then show ?thesis using False steps_of_run_mem [OF ok(1)] by blast
  qed
qed

lemma cancel_request_live:
  assumes ok: "store_ok st" and status: "run_status_of run st = Some current" "\<not> run_is_terminal current"
  shows "\<exists>st1 st2. fst (cancel_run_request clk nonce run by st) = Inr True \<and> store_ok st1
    \<and> touches ((\<lambda>s. (run, sr_step s)) ` set (steps_of_run run st)) st st1
    \<and> (\<forall>s \<in> set (steps_of_run run st). step_settled run (sr_step s) st1)
    \<and> st_steps st2 = st_steps st1 \<and> st_runs st2 = al_put run RCancelled (st_runs st1) \<and> st_slots st2 = st_slots st1
    \<and> snd (cancel_run_request clk nonce run by st) =
        (case st_concurrency st run of Some (grp, _) \<Rightarrow> release_slot grp run st2 | None \<Rightarrow> st2)"
proof -
  define now where "now = clk st"
  define st0 where "st0 = append_events [event run (RunCancelRequested by) now] st"
  define st1 where "st1 = snd (forP (steps_of_run run st) (\<lambda>s. cancel_step run s now) st0)"
  have st0: "touches {} st st0" "store_ok st0" "steps_of_run run st0 = steps_of_run run st"
    using same_tables_ok [of st0 st] steps_of_run_cong [of st0 st] ok
    by (simp_all add: st0_def touches_def outbox_entries_def)
  have all: "fst (forP (steps_of_run run st) (\<lambda>s. cancel_step run s now) st0) = Inr ()"
    "touches ((\<lambda>s. (run, sr_step s)) ` set (steps_of_run run st)) st0 st1"
    "\<forall>s \<in> set (steps_of_run run st). step_settled run (sr_step s) st1"
    using cancel_loop.loop_ok [OF st0(2), of "steps_of_run run st" run now] steps_of_run_ids [OF ok] st0(3)
    by (auto simp: st1_def step_settled_def step_status_of_def)
  have ok1: "store_ok st1"
    using cancel_loop.loop_ok [OF st0(2), of "steps_of_run run st" run now] steps_of_run_ids [OF ok] st0(3)
    by (auto simp: st1_def)
  have t: "touches ((\<lambda>s. (run, sr_step s)) ` set (steps_of_run run st)) st st1"
    using touches_trans [OF touches_mono [OF st0(1)] all(2)] by simp
  then have r: "run_status_of run st1 = Some current" "st_concurrency st1 run = st_concurrency st run"
    using status by (auto simp: touches_def run_status_of_def)
  let ?m = "cancel_services_intent nonce run now st1"
  define st2 where "st2 = enqueue_all ([?m] @ status_posts run current RCancelled (run_reopen_generation run st1) now)
       (append_events [event run (RunTransitioned current RCancelled) now] (put_run run current RCancelled st1))"
  have st2: "benign (commit_run None run current RCancelled now True [?m] []) st1 = (Inr (), st2)"
    using commit_run_hit [OF r(1), of RCancelled now True "[?m]" "[]"] by (simp add: benign_def st2_def)
  have same: "st_steps st2 = st_steps st1" "st_runs st2 = al_put run RCancelled (st_runs st1)" "st_slots st2 = st_slots st1"
    "st_concurrency st2 run = st_concurrency st run"
    using r(2) by (simp_all add: st2_def)
  have loop: "forP (steps_of_run run st) (\<lambda>s. cancel_step run s now) st0 = (Inr (), st1)"
    using all(1) by (auto simp: st1_def intro: prod_eqI)
  have "cancel_run_request clk nonce run by st =
      (Inr True, case st_concurrency st run of Some (grp, _) \<Rightarrow> release_slot grp run st2 | None \<Rightarrow> st2)"
    using status st0(3) loop st2 same(4)
    by (simp add: cancel_run_request_def bindP_def readP_def append_eventP_def writeP_def returnP_def
        now_def [symmetric] st0_def [symmetric] split: option.splits)
  then show ?thesis using t all(3) same ok1 by (intro exI [of _ st1] exI [of _ st2]) auto
qed

section \<open>Re-arming\<close>

definition rearmed :: "step_rec option \<Rightarrow> step_rec option \<Rightarrow> bool" where
  "rearmed r r' \<longleftrightarrow> map_option rc_input r' = map_option rc_input r \<and> Option.bind r' rc_status \<in> {None, Some SPending}"

lemma committed_input [simp]: "rc_input (committed_rec to stamp rec) = rc_input rec"
  by (auto simp: committed_rec_def stamp_rec_def split: option.splits prod.splits)

lemma fresh_commit_rearmed:
  assumes "store_ok st" "s \<in> set (steps_of_run run st)"
    and "frontier \<in> {FrontierAny, FrontierIs (map_option at_id (last_opt (sr_attempts s)))}"
  shows "\<exists>st'. commit_step_transition run (sr_step s) (sr_status s) SPending frontier stamp es ms st = Inr st'
     \<and> rearmed (step_of st run (sr_step s)) (step_of st' run (sr_step s))"
proof -
  obtain st' where c: "commit_step_transition run (sr_step s) (sr_status s) SPending frontier stamp es ms st = Inr st'"
    using fresh_commit [OF assms] by blast
  then have "rearmed (step_of st run (sr_step s)) (step_of st' run (sr_step s))"
    by (auto simp: commit_step_transition_iff rearmed_def)
  with c show ?thesis by blast
qed

lemma fresh_rearm:
  assumes "store_ok st" "s \<in> set (steps_of_run run st)"
  shows "\<exists>st'. commit_rearm now run target s by st = Inr st' \<and> rearmed (step_of st run (sr_step s)) (step_of st' run (sr_step s))"
  using fresh_commit_rearmed [OF assms]
  unfolding commit_rearm_def Let_def by (auto split: option.splits)

lemma rearm_rounds_ok:
  assumes "store_ok st"
  shows "fst (rearm_rounds (Suc n) clk run target step by st) = Inr ()
    \<and> touches {(run, step)} st (snd (rearm_rounds (Suc n) clk run target step by st))
    \<and> rearmed (step_of st run step) (step_of (snd (rearm_rounds (Suc n) clk run target step by st)) run step)"
proof (cases "find_step step (steps_of_run run st)")
  case None
  then have "step_status_of run step st = None" using find_step_live [OF assms] by (cases "step_status_of run step st") fastforce+
  then show ?thesis using None by (simp add: rearmed_def step_status_of_def)
next
  case (Some s)
  have s: "s \<in> set (steps_of_run run st)" "sr_step s = step" using find_step_mem [OF Some] by auto
  then have st: "step_status_of run step st = Some (sr_status s)" using steps_of_run_mem [OF assms] by blast
  show ?thesis
  proof (cases "sr_status s = SPending")
    case True
    then show ?thesis using Some st by (simp add: rearmed_def step_status_of_def)
  next
    case False
    then show ?thesis using Some s(2) fresh_rearm [OF assms s(1), of "clk st" target "by"] touches_rearm_commit by fastforce
  qed
qed

lemma rearm_raced_ok:
  assumes "store_ok st"
  shows "\<exists>st'. rearm_raced_step clk run target step by st = (Inr (), st') \<and> touches {(run, step)} st st'
    \<and> rearmed (step_of st run step) (step_of st' run step)"
  using rearm_rounds_ok [OF assms, of 7 clk run target step "by"]
  unfolding rearm_raced_step_def rearm_rounds_bound_def
  by (intro exI [of _ "snd (rearm_rounds 8 clk run target step by st)"])
     (auto simp: numeral_eq_Suc simp del: rearm_rounds.simps intro: prod_eqI)

lemma close_rearmed:
  assumes "Option.bind (step_of st run step) rc_status \<in> {None, Some SPending}"
  shows "rearmed (step_of st run step) (step_of (snd (close_running_attempt run step att outcome e st)) run step)"
  using assms by (auto simp: close_running_attempt_def rearmed_def split: option.splits)

lemma rearmed_trans: "rearmed a b \<Longrightarrow> rearmed b c \<Longrightarrow> rearmed a c"
  by (simp add: rearmed_def)

definition rearm_goal :: "step_id set \<Rightarrow> step_run \<Rightarrow> step_rec option \<Rightarrow> step_rec option \<Rightarrow> bool" where
  "rearm_goal invalid s r r' \<longleftrightarrow> (if sr_step s \<in> invalid then rearmed r r' else r' = r)"

lemma pending_part:
  assumes ok: "store_ok st" and s: "s \<in> set (steps_of_run run st)" "sr_status s = SPending"
    and a: "open_gate_attempt s = Some a"
  shows "\<exists>st'. bindP (mapErrP RerunDb (supersede_gate_attempt clk run (sr_step s) (at_id a) by)) (\<lambda>closed.
        if \<not> closed then rearm_raced_step clk run target (sr_step s) by else returnP ()) st = (Inr (), st')
      \<and> touches {(run, sr_step s)} st st' \<and> rearmed (step_of st run (sr_step s)) (step_of st' run (sr_step s))"
proof -
  let ?close = "close_running_attempt run (sr_step s) (at_id a) AOSuperseded
      (Some (event run (AttemptSuperseded (sr_step s) (at_id a) by) (clk st))) st"
  obtain b st1 where c: "?close = (Inr b, st1)" using close_no_error by (metis prod.collapse)
  have gate: "is_gate s" using a by (auto simp: open_gate_attempt_def split: if_splits)
  have "runs_as {s} st st1" using runs_close [of s "{s}" run "sr_step s" AOSuperseded st] gate steps_of_run_run [OF s(1)] c
    by (metis insertI1 snd_conv)
  then have ok1: "store_ok st1" using runs_ok ok read_snap_ok [OF ok s(1)] by blast
  have "Option.bind (step_of st run (sr_step s)) rc_status = Some SPending"
    using steps_of_run_mem [OF ok, of run "sr_step s" SPending] s by (auto simp: step_status_of_def)
  then have 1: "touches {(run, sr_step s)} st st1" "rearmed (step_of st run (sr_step s)) (step_of st1 run (sr_step s))"
    using touches_close [of run "sr_step s" st "at_id a"] close_rearmed [of st run "sr_step s" "at_id a"] c
    by (metis snd_conv, simp, metis snd_conv)
  have "\<exists>st'. rearm_raced_step clk run target (sr_step s) by st1 = (Inr (), st')
      \<and> touches {(run, sr_step s)} st st' \<and> rearmed (step_of st run (sr_step s)) (step_of st' run (sr_step s))"
    using rearm_raced_ok [OF ok1, of clk run target "sr_step s" "by"] touches_trans [OF 1(1)] rearmed_trans [OF 1(2)] by blast
  moreover have "bindP (mapErrP RerunDb (supersede_gate_attempt clk run (sr_step s) (at_id a) by)) f st = f b st1" for f :: "bool \<Rightarrow> unit req_prog"
    using c by (simp add: bindP_def mapErrP_def supersede_gate_attempt_def readP_def)
  ultimately show ?thesis using 1 by (auto simp: returnP_def)
qed

lemma rearm_one_ok:
  assumes ok: "store_ok st" and s: "s \<in> set (steps_of_run run st)"
  shows "fst (rearm_one clk run target by invalid s st) = Inr ()
    \<and> touches {(run, sr_step s)} st (snd (rearm_one clk run target by invalid s st))
    \<and> rearm_goal invalid s (step_of st run (sr_step s)) (step_of (snd (rearm_one clk run target by invalid s st)) run (sr_step s))"
proof (cases "sr_step s \<in> invalid")
  case False
  then show ?thesis by (simp add: rearm_one_def rearm_goal_def returnP_def)
next
  case inv: True
  have st: "step_status_of run (sr_step s) st = Some (sr_status s)" using steps_of_run_mem [OF ok] s by blast
  show ?thesis
  proof (cases "sr_status s = SPending")
    case True
    show ?thesis
    proof (cases "open_gate_attempt s")
      case None
      then show ?thesis using inv True st by (simp add: rearm_one_def rearm_goal_def returnP_def rearmed_def step_status_of_def)
    next
      case (Some a)
      from pending_part [OF ok s True this, of clk "by" target] inv True Some
      show ?thesis by (auto simp: rearm_one_def rearm_goal_def bindP_def returnP_def)
    qed
  next
    case False
    obtain st' where "commit_rearm (clk st) run target s by st = Inr st'"
      "rearmed (step_of st run (sr_step s)) (step_of st' run (sr_step s))" using fresh_rearm [OF ok s] by blast
    with inv False touches_rearm_commit show ?thesis by (fastforce simp: rearm_one_def rearm_goal_def)
  qed
qed

interpretation rearm_loop: step_loop run "rearm_one clk run target by invalid"
    "\<lambda>st. store_ok st \<and> (\<exists>t. sr_step t = target \<and> snap_ok st t)" "rearm_goal invalid" for run clk target "by" invalid
proof
  fix st s assume inv: "store_ok st \<and> (\<exists>t. sr_step t = target \<and> snap_ok st t)" and s: "s \<in> set (steps_of_run run st)"
  let ?st = "snd (rearm_one clk run target by invalid s st)"
  from inv obtain t where ok: "store_ok st" and t: "sr_step t = target" "snap_ok st t" by blast
  have "runs_as {s, t} st ?st" using steps_of_run_run [OF s] t(1) by (intro runs_rearm_one) auto
  then have "store_ok ?st \<and> evolves st ?st" using runs_ok [OF _ ok] t(2) read_snap_ok [OF ok s] by blast
  then have "store_ok ?st \<and> (\<exists>t. sr_step t = target \<and> snap_ok ?st t)" using snap_evolves t by blast
  then show "fst (rearm_one clk run target by invalid s st) = Inr ()
      \<and> (store_ok ?st \<and> (\<exists>t. sr_step t = target \<and> snap_ok ?st t))
      \<and> touches {(run, sr_step s)} st ?st \<and> rearm_goal invalid s (step_of st run (sr_step s)) (step_of ?st run (sr_step s))"
    using rearm_one_ok [OF ok s] by blast
qed simp

section \<open>A concrete run\<close>

text \<open>The claimed step of \<open>System\<close>'s history in a run whose creation has finished.\<close>

definition demo_live :: store where
  "demo_live = finish_run_creation ''r'' (begin_run_creation ''r'' 0 demo_claimed)"

lemma demo_live_tables:
  "st_steps demo_live = st_steps demo_claimed" "st_runs demo_live = al_put ''r'' RPending (st_runs demo_claimed)"
  "\<not> run_creation_unfinished ''r'' demo_live"
  by (simp_all add: demo_live_def finish_run_creation_def begin_run_creation_def create_run_def Let_def
      run_creation_unfinished_def)

lemma demo_live_reachable: "reachable \<lparr>cf_store = demo_live, cf_seen = {}, cf_settled = {}\<rparr>"
proof -
  let ?c = "\<lambda>st. \<lparr>cf_store = st, cf_seen = {}, cf_settled = {}\<rparr> :: cfg"
  have step: "reachable (?c st')" if "reachable (?c st)" "aux_op st st'" for st st'
    using reach_step [OF that(1) sys_commit, of st'] op_aux [OF that(2)] by simp
  show ?thesis unfolding demo_live_def
    by (rule step [OF step [OF demo_claimed_reachable aux_begin] aux_finish])
qed

section \<open>Properties\<close>

text \<open>C9: a cancelled run has no half-cancelled step. From any reachable configuration, cancelling a
  run that has not ended returns \<open>true\<close>, leaves the run \<open>Cancelled\<close>, every one of its steps in a
  terminal status and its concurrency slot free; a run that is unknown or has already ended is left
  exactly as it was.\<close>

theorem cancel_run_settles:
  assumes "reachable c"
  shows "(\<forall>current. run_status_of run (cf_store c) = Some current \<and> \<not> run_is_terminal current \<longrightarrow>
      (\<exists>st'. cancel_run_request clk nonce run by (cf_store c) = (Inr True, st')
        \<and> run_status_of run st' = Some RCancelled
        \<and> (\<forall>s \<in> set (steps_of_run run st'). step_is_terminal (sr_status s))
        \<and> (\<forall>grp p. st_concurrency (cf_store c) run = Some (grp, p) \<longrightarrow> st_slots st' grp \<noteq> Some run)))
    \<and> ((\<forall>current. run_status_of run (cf_store c) = Some current \<longrightarrow> run_is_terminal current) \<longrightarrow>
        cancel_run_request clk nonce run by (cf_store c) = (Inr False, cf_store c))"
proof (intro conjI allI impI)
  let ?st = "cf_store c" and ?r = "cancel_run_request clk nonce run by (cf_store c)"
  have ok: "store_ok ?st" using reachable_ok [OF assms] by (simp add: cfg_ok_def)
  fix current assume "run_status_of run ?st = Some current \<and> \<not> run_is_terminal current"
  then obtain st1 st2 where ok1: "store_ok st1" and h: "fst ?r = Inr True"
    "touches ((\<lambda>s. (run, sr_step s)) ` set (steps_of_run run ?st)) ?st st1"
    "\<forall>s \<in> set (steps_of_run run ?st). step_settled run (sr_step s) st1"
    "st_steps st2 = st_steps st1" "st_runs st2 = al_put run RCancelled (st_runs st1)" "st_slots st2 = st_slots st1"
    "snd ?r = (case st_concurrency ?st run of Some (grp, _) \<Rightarrow> release_slot grp run st2 | None \<Rightarrow> st2)"
    using cancel_request_live [OF ok, of run current clk nonce "by"] by auto
  have sel: "st_steps (snd ?r) = st_steps st1" "st_runs (snd ?r) = al_put run RCancelled (st_runs st1)"
    using h(4,5,7) by (auto simp: release_slot_def split: option.splits)
  have "step_is_terminal (sr_status s)" if "s \<in> set (steps_of_run run (snd ?r))" for s
    using settled_steps [OF ok ok1 h(2,3)] that steps_of_run_cong [OF sel(1), of run] by simp
  then show "\<exists>st'. ?r = (Inr True, st') \<and> run_status_of run st' = Some RCancelled
      \<and> (\<forall>s \<in> set (steps_of_run run st'). step_is_terminal (sr_status s))
      \<and> (\<forall>grp p. st_concurrency ?st run = Some (grp, p) \<longrightarrow> st_slots st' grp \<noteq> Some run)"
    using h(1,7) sel by (intro exI [of _ "snd ?r"]) (auto simp: run_status_of_def release_slot_def intro: prod_eqI split: option.splits)
next
  assume "\<forall>current. run_status_of run (cf_store c) = Some current \<longrightarrow> run_is_terminal current"
  then show "cancel_run_request clk nonce run by (cf_store c) = (Inr False, cf_store c)"
    by (simp add: cancel_run_request_def returnP_def split: option.splits)
qed

theorem cancel_run_settles_witness:
  "\<exists>st'. cancel_run_request (\<lambda>_. 5) ''00'' ''r'' None demo_live = (Inr True, st') \<and> run_status_of ''r'' st' = Some RCancelled"
proof -
  have "run_status_of ''r'' demo_live = Some RPending \<and> \<not> run_is_terminal RPending"
    by (simp add: run_status_of_def demo_live_tables run_is_terminal_def)
  with conjunct1 [OF cancel_run_settles [OF demo_live_reachable], rule_format, of "''r''" RPending "\<lambda>_. 5" "''00''" None]
  show ?thesis by auto
qed

end
