(* ===== verification/Rerun_Laws.thy ===== *)
theory Rerun_Laws
  imports Request_Laws
begin

text \<open>
  What a rerun and a retry have done when they return: every step of the plan is \<open>Pending\<close> again,
  the target and the widened producers cannot be skipped as unchanged, the run is open, and no other
  row has moved. The loop over the snapshot is \<open>rearm_loop\<close> of \<open>Request_Laws\<close>.
\<close>

section \<open>Clearing signatures\<close>

lemma map_filter_put:
  assumes "al_get m k = Some v" "f (k, v') = f (k, v)"
  shows "List.map_filter f (al_put k v' m) = List.map_filter f m"
  using assms by (induction m) (auto simp: List.map_filter_simps split: option.splits if_splits)

lemma steps_of_run_clear [simp]: "steps_of_run run (set_step_input r x v st) = steps_of_run run st"
proof (cases "step_of st r x")
  case (Some rec)
  then show ?thesis
    unfolding set_step_input_def modify_step_def steps_of_run_def
    by (simp add: map_filter_put step_run_of_def)
qed (simp add: set_step_input_def modify_step_def)

definition clear_row :: "step_rec option \<Rightarrow> step_rec option" where
  "clear_row = map_option (\<lambda>rec. rec\<lparr>rc_input := None\<rparr>)"

text \<open>The store with the signatures of some steps of a run cleared and nothing else changed.\<close>

definition cleared :: "run_id \<Rightarrow> step_id set \<Rightarrow> store \<Rightarrow> store \<Rightarrow> bool" where
  "cleared run xs st st' \<longleftrightarrow> store_ok st' \<and> steps_of_run run st' = steps_of_run run st
     \<and> st_runs st' = st_runs st \<and> st_generations st' = st_generations st
     \<and> (\<forall>r x. step_of st' r x = (if r = run \<and> x \<in> xs then clear_row (step_of st r x) else step_of st r x))"

lemma cleared_one:
  assumes "store_ok st"
  shows "cleared run {x} st (set_step_input run x None st)"
proof -
  have "store_ok (set_step_input run x None st)" using aux_ok [OF aux_input assms] by blast
  moreover have "st_runs (set_step_input run x None st) = st_runs st" "st_generations (set_step_input run x None st) = st_generations st"
    by (auto simp: set_step_input_def modify_step_def split: option.splits)
  moreover have "step_of (set_step_input run x None st) r y = (if r = run \<and> y \<in> {x} then clear_row (step_of st r y) else step_of st r y)" for r y
    by (auto simp: set_step_input_def modify_step_def clear_row_def split: option.splits)
  ultimately show ?thesis by (simp add: cleared_def)
qed

lemma cleared_ok: "cleared run xs st st' \<Longrightarrow> store_ok st'"
  by (simp add: cleared_def)

lemma cleared_trans:
  assumes "cleared run xs a b" "cleared run ys b c"
  shows "cleared run (xs \<union> ys) a c"
proof -
  have "clear_row (clear_row r) = clear_row r" for r by (cases r) (simp_all add: clear_row_def)
  with assms show ?thesis by (auto simp: cleared_def)
qed

lemma clear_all:
  assumes "store_ok st"
  shows "\<exists>st'. forP xs (clear_input run) st = (Inr (), st') \<and> cleared run (set xs) st st'"
  using assms
proof (induction xs arbitrary: st)
  case Nil
  then show ?case by (simp add: cleared_def)
next
  case (Cons x xs)
  let ?st = "set_step_input run x None st"
  note one = cleared_one [OF Cons.prems, of run x]
  from Cons.IH [of ?st] one obtain st' where "forP xs (clear_input run) ?st = (Inr (), st')" "cleared run (set xs) ?st st'"
    by (auto simp: cleared_def)
  moreover have "clear_input run x st = (Inr (), ?st)" by (simp add: clear_input_def writeP_def)
  ultimately show ?case using cleared_trans [OF one] by auto
qed

section \<open>Re-arming a plan\<close>

lemma reopen_live:
  assumes "run_status_of run st = Some from"
  shows "\<exists>st'. reopen clk run from to st = (Inr (), st') \<and> st_steps st' = st_steps st \<and> run_status_of run st' = Some to"
  using commit_run_hit [OF assms, of to "clk st" "run_is_terminal from" "[]" "[]"]
  by (simp add: reopen_def mapErrP_def benign_def run_status_of_def)


definition reopened :: "run_status option \<Rightarrow> run_status option" where
  "reopened status = map_option (\<lambda>cur. if run_is_terminal cur then RRunning else cur) status"

lemma reopen_part:
  assumes "store_ok st"
  shows "\<exists>st'. (case run_status_of run st of
        Some cur \<Rightarrow> if run_is_terminal cur then reopen clk run cur RRunning else returnP () | None \<Rightarrow> returnP ()) st = (Inr (), st')
    \<and> store_ok st' \<and> st_steps st' = st_steps st \<and> run_status_of run st' = reopened (run_status_of run st)"
proof (cases "run_status_of run st")
  case (Some cur)
  show ?thesis
  proof (cases "run_is_terminal cur")
    case True
    obtain st' where st': "reopen clk run cur RRunning st = (Inr (), st')" "st_steps st' = st_steps st"
      "run_status_of run st' = Some RRunning" using reopen_live [OF Some] by blast
    have "store_ok st'" using runs_ok [OF runs_reopen [of "{}"] assms] st'(1) by (metis empty_iff snd_conv)
    with st' Some True show ?thesis by (simp add: reopened_def)
  qed (use Some assms in \<open>simp add: reopened_def returnP_def\<close>)
qed (use assms in \<open>simp add: reopened_def returnP_def\<close>)

text \<open>What the loop leaves, from the store in which the signatures are cleared and the run is open.\<close>

lemma rearm_steps:
  assumes ok: "store_ok st" and t: "t \<in> set (steps_of_run run st)" "sr_step t = target"
  shows "\<exists>st'. forP (steps_of_run run st) (rearm_one clk run target by invalid) st = (Inr (), st') \<and> store_ok st'
    \<and> st_runs st' = st_runs st
    \<and> (\<forall>r x. \<not> (r = run \<and> x \<in> invalid) \<longrightarrow> step_of st' r x = step_of st r x)
    \<and> (\<forall>x. x \<in> invalid \<longrightarrow> rearmed (step_of st run x) (step_of st' run x))"
proof -
  let ?steps = "steps_of_run run st" and ?loop = "forP (steps_of_run run st) (rearm_one clk run target by invalid) st"
  have inv: "store_ok st \<and> (\<exists>t. sr_step t = target \<and> snap_ok st t)" using ok t read_snap_ok by blast
  note loop = rearm_loop.loop_ok [OF inv order_refl steps_of_run_ids [OF ok], of run clk "by" invalid]
  have row: "(if x \<in> invalid then rearmed (step_of st run x) (step_of (snd ?loop) run x) else step_of (snd ?loop) run x = step_of st run x)"
    if "x \<in> sr_step ` set ?steps" for x
    using loop that by (auto simp: rearm_goal_def split: if_splits)
  have other: "step_of (snd ?loop) r x = step_of st r x" if "\<not> (r = run \<and> x \<in> sr_step ` set ?steps)" for r x
    using loop that by (intro touches_other [of "(\<lambda>s. (run, sr_step s)) ` set ?steps"]) auto
  have "rearmed (step_of st run x) (step_of (snd ?loop) run x)" if "x \<in> invalid" for x
  proof (cases "x \<in> sr_step ` set ?steps")
    case False
    then have "step_status_of run x st = None"
      using steps_of_run_mem [OF ok, of run x] by (cases "step_status_of run x st") (auto simp: image_iff)
    then show ?thesis using other False by (simp add: rearmed_def step_status_of_def)
  qed (use row that in auto)
  moreover have "step_of (snd ?loop) r x = step_of st r x" if "\<not> (r = run \<and> x \<in> invalid)" for r x
    using that row other by (cases "r = run \<and> x \<in> sr_step ` set ?steps") auto
  moreover have "?loop = (Inr (), snd ?loop)" "st_runs (snd ?loop) = st_runs st" "store_ok (snd ?loop)"
    using loop by (auto simp: touches_def intro: prod_eqI)
  ultimately show ?thesis by blast
qed


lemma rearm_set_ok:
  assumes ok: "store_ok st" and t: "find_step target (steps_of_run run st) = Some t"
    and inv: "insert target (set (rp_widened plan)) \<subseteq> set (rp_invalidated plan)"
  shows "\<exists>st'. rearm_invalidation_set clk run target plan (steps_of_run run st) by st = (Inr (), st') \<and> store_ok st'
    \<and> run_status_of run st' = reopened (run_status_of run st)
    \<and> (\<forall>r x. \<not> (r = run \<and> x \<in> set (rp_invalidated plan)) \<longrightarrow> step_of st' r x = step_of st r x)
    \<and> (\<forall>x \<in> set (rp_invalidated plan). step_status_of run x st' \<in> {None, Some SPending})
    \<and> (\<forall>x \<in> insert target (set (rp_widened plan)). Option.bind (step_of st' run x) rc_input = None)"
proof -
  let ?I = "set (rp_invalidated plan)" and ?C = "insert target (set (rp_widened plan))"
  obtain st1 where st1: "forP (rp_widened plan) (clear_input run) (set_step_input run target None st) = (Inr (), st1)"
    "cleared run (set (rp_widened plan)) (set_step_input run target None st) st1"
    using clear_all [OF cleared_ok [OF cleared_one [OF ok]]] by blast
  have c1: "cleared run ?C st st1" using cleared_trans [OF cleared_one [OF ok] st1(2)] by simp
  obtain st2 where st2: "(case run_status_of run st1 of Some cur \<Rightarrow> if run_is_terminal cur then reopen clk run cur RRunning
        else returnP () | None \<Rightarrow> returnP ()) st1 = (Inr (), st2)"
    "store_ok st2" "st_steps st2 = st_steps st1" "run_status_of run st2 = reopened (run_status_of run st1)"
    using reopen_part [OF cleared_ok [OF c1], of clk run] c1 by (auto simp: cleared_def)
  have reads: "steps_of_run run st2 = steps_of_run run st" using steps_of_run_cong [OF st2(3)] c1 by (simp add: cleared_def)
  obtain st' where st': "forP (steps_of_run run st) (rearm_one clk run target by ?I) st2 = (Inr (), st')" "store_ok st'"
    "st_runs st' = st_runs st2" "\<forall>r x. \<not> (r = run \<and> x \<in> ?I) \<longrightarrow> step_of st' r x = step_of st2 r x"
    "\<forall>x. x \<in> ?I \<longrightarrow> rearmed (step_of st2 run x) (step_of st' run x)"
    using rearm_steps [OF st2(2), of t run target clk "by" ?I] find_step_mem [OF t] reads by auto
  have "rearm_invalidation_set clk run target plan (steps_of_run run st) by st = (Inr (), st')"
    using st1(1) st2(1) st'(1) unfolding rearm_invalidation_set_def
    by (simp add: clear_input_def writeP_def bindP_def readP_def)
  moreover have "Option.bind (step_of st' run x) rc_input = None" if "x \<in> ?C" for x
  proof -
    have "map_option rc_input (step_of st' run x) = map_option rc_input (clear_row (step_of st run x))"
      using st'(5) that inv c1 st2(3) by (auto simp: rearmed_def cleared_def)
    then show ?thesis by (cases "step_of st' run x"; cases "step_of st run x") (auto simp: clear_row_def)
  qed
  moreover have "step_of st' r x = step_of st r x" if "\<not> (r = run \<and> x \<in> ?I)" for r x
    using st'(4) that inv c1 st2(3) by (auto simp: cleared_def)
  moreover have "step_status_of run x st' \<in> {None, Some SPending}" if "x \<in> ?I" for x
    using st'(5) that by (auto simp: rearmed_def step_status_of_def)
  ultimately show ?thesis using st'(2,3) st2(4) c1 by (auto simp: cleared_def run_status_of_def)
qed

section \<open>The requests\<close>

lemma plan_over_target:
  "insert target (set (rp_widened (plan_over snapshots run target steps st))) \<subseteq> set (rp_invalidated (plan_over snapshots run target steps st))"
proof (cases snapshots)
  case None
  then show ?thesis by (simp add: plan_over_def plan_plain)
next
  case (Some present)
  have "invalidation_set target steps \<subseteq> fst (widen_loop steps si so present (invalidation_set target steps) [])" for si so
    using widen_loop_spec [OF invalidation_set_closed] by blast
  then have "target \<in> fst (widen_loop steps si so present (invalidation_set target steps) [])" for si so
    using invalidation_set_target by blast
  then show ?thesis using Some by (auto simp: plan_over_def plan_widened)
qed

lemma births_ok:
  "\<exists>st'. birth_next_take run now st = (Inr (), st') \<and> st_steps st' = st_steps st \<and> st_runs st' = st_runs st
     \<and> outbox_entries st' = outbox_entries st"
proof -
  let ?same = "\<lambda>s. st_steps s = st_steps st \<and> st_runs s = st_runs st \<and> outbox_entries s = outbox_entries st"
  let ?birth = "\<lambda>tk name. create_run_service None run tk name now"
  have ok: "fst (?birth tk name s) = Inr ()" for tk name s
    by (auto simp: create_run_service_def fenced_def holds_leader_term_if_def)
  have same: "?same (snd (?birth tk name s))" if "?same s" for tk name s
    using that by (auto simp: create_run_service_def fenced_def outbox_entries_def split: option.splits)
  have "fst (birth_next_take run now st) = Inr ()"
    by (auto simp: birth_next_take_def Let_def returnP_def ok intro: forP_no_error)
  moreover have "?same (snd (birth_next_take run now st))"
  proof (cases "run_services run st = []")
    case False
    have "?same (snd (forP xs (?birth tk) st))" for xs tk
      by (rule forP_invariant) (use same in blast)+
    with False show ?thesis by (simp add: birth_next_take_def Let_def)
  qed (simp add: birth_next_take_def returnP_def)
  ultimately show ?thesis by (metis prod.collapse)
qed

text \<open>What an accepted request has done to the store.\<close>

definition rearmed_by :: "run_id \<Rightarrow> step_id \<Rightarrow> rerun_plan \<Rightarrow> store \<Rightarrow> store \<Rightarrow> bool" where
  "rearmed_by run target plan st st' \<longleftrightarrow>
     run_status_of run st' = reopened (run_status_of run st)
     \<and> (\<forall>r x. \<not> (r = run \<and> x \<in> set (rp_invalidated plan)) \<longrightarrow> step_of st' r x = step_of st r x)
     \<and> (\<forall>x \<in> set (rp_invalidated plan). step_status_of run x st' \<in> {None, Some SPending})
     \<and> (\<forall>x \<in> insert target (set (rp_widened plan)). Option.bind (step_of st' run x) rc_input = None)"

lemma rearm_after:
  assumes ok: "store_ok st" and t: "find_step target (steps_of_run run st) = Some t"
    and same: "st_steps st1 = st_steps st" "st_runs st1 = st_runs st" "outbox_entries st1 = outbox_entries st"
    and plan: "insert target (set (rp_widened plan)) \<subseteq> set (rp_invalidated plan)"
  shows "\<exists>st'. rearm_invalidation_set clk run target plan (steps_of_run run st) by st1 = (Inr (), st')
    \<and> store_ok st' \<and> rearmed_by run target plan st st'"
proof -
  have "store_ok st1" using same_tables_ok [OF same(1,3) ok] by blast
  moreover have "steps_of_run run st1 = steps_of_run run st" using steps_of_run_cong [OF same(1)] .
  ultimately show ?thesis
    using rearm_set_ok [of st1 target run t plan clk "by"] t plan same by (auto simp: rearmed_by_def run_status_of_def)
qed

lemma rerun_accepted:
  fixes snapshots
  assumes "store_ok st" "\<not> run_creation_unfinished run st" "find_step target (steps_of_run run st) = Some t"
    and "blocking_dep t (steps_of_run run st) = None"
  defines "plan \<equiv> plan_over snapshots run target (steps_of_run run st) st"
  shows "\<exists>st'. rerun_step_widened clk snapshots run target by st = (Inr plan, st') \<and> rearmed_by run target plan st st'"
proof -
  let ?st0 = "append_events [event run (RunRerunRequested target (rp_invalidated plan) by (rp_widened plan)) (clk st)] st"
  obtain st1 where st1: "birth_next_take run (clk st) ?st0 = (Inr (), st1)" "st_steps st1 = st_steps st" "st_runs st1 = st_runs st"
    "outbox_entries st1 = outbox_entries st"
    using births_ok [of run "clk st" ?st0] by (auto simp: outbox_entries_def)
  obtain st' where "rearm_invalidation_set clk run target plan (steps_of_run run st) by st1 = (Inr (), st')"
    "rearmed_by run target plan st st'"
    using rearm_after [OF assms(1,3) st1(2,3,4)] plan_over_target unfolding plan_def by blast
  with st1(1) assms(2,3,4) show ?thesis
    by (simp add: rerun_step_widened_def ensure_finished bindP_def readP_def append_eventP_def writeP_def mapErrP_def
        returnP_def plan_def [symmetric])
qed

lemma retry_accepted:
  fixes snapshots
  assumes "store_ok st" "\<not> run_creation_unfinished run st" "find_step target (steps_of_run run st) = Some t"
    and "sr_status t = SFailed" "blocking_dep t (steps_of_run run st) = None"
  defines "plan \<equiv> plan_over snapshots run target (steps_of_run run st) st"
  shows "\<exists>st'. retry_step_widened clk snapshots run target by st = (Inr plan, st') \<and> rearmed_by run target plan st st'"
proof -
  let ?st0 = "append_events [event run (StepRetryRequested target (rp_invalidated plan) by (rp_widened plan)) (clk st)] st"
  obtain st' where "rearm_invalidation_set clk run target plan (steps_of_run run st) by ?st0 = (Inr (), st')"
    "rearmed_by run target plan st st'"
    using rearm_after [OF assms(1,3), of ?st0 plan clk "by"] plan_over_target unfolding plan_def
    by (auto simp: outbox_entries_def)
  with assms(2,3,4,5) show ?thesis
    by (simp add: retry_step_widened_def ensure_finished bindP_def readP_def append_eventP_def writeP_def
        returnP_def plan_def [symmetric])
qed

section \<open>Properties\<close>

lemma demo_live_read: "find_step ''build'' (steps_of_run ''r'' demo_live) = Some demo_snap"
  using demo_claimed_read steps_of_run_cong [OF demo_live_tables(1), of "''r''"]
  by (simp add: find_step_def demo_snap_def)

text \<open>C10: an accepted rerun or retry re-arms exactly its plan. From any reachable configuration the plan
  holds the target, every step of the plan is \<open>Pending\<close> afterwards, the recorded input signatures of
  the target and of every widened producer are cleared so that none of them is skipped as unchanged,
  a run that had ended is \<open>Running\<close> again, and no row outside the plan has changed.\<close>

theorem rerun_rearms_plan:
  assumes "reachable c" and "f = rerun_step_widened \<or> f = retry_step_widened"
    and "f clk snapshots run target by (cf_store c) = (Inr plan, st')"
  shows "target \<in> set (rp_invalidated plan)
    \<and> (\<forall>s \<in> set (steps_of_run run st'). sr_step s \<in> set (rp_invalidated plan) \<longrightarrow> sr_status s = SPending)
    \<and> (\<forall>x rec. x \<in> insert target (set (rp_widened plan)) \<and> step_of st' run x = Some rec \<longrightarrow> rc_input rec = None)
    \<and> (\<forall>cur. run_status_of run (cf_store c) = Some cur \<longrightarrow>
         run_status_of run st' = Some (if run_is_terminal cur then RRunning else cur))
    \<and> (\<forall>r x. \<not> (r = run \<and> x \<in> set (rp_invalidated plan)) \<longrightarrow> step_of st' r x = step_of (cf_store c) r x)"
proof -
  let ?st = "cf_store c"
  have ok: "store_ok ?st" using reachable_ok [OF assms(1)] by (simp add: cfg_ok_def)
  have "runs_as {} ?st st'" using assms(2,3) runs_rerun [of "{}" ?st] runs_retry [of "{}" ?st] by (metis snd_conv)
  then have ok': "store_ok st'" using runs_ok ok by blast
  obtain t where t: "find_step target (steps_of_run run ?st) = Some t" "\<not> run_creation_unfinished run ?st"
    "blocking_dep t (steps_of_run run ?st) = None" "f = rerun_step_widened \<or> f = retry_step_widened \<and> sr_status t = SFailed"
    using assms(2,3) by (auto simp: rerun_step_widened_def retry_step_widened_def ensure_finished bindP_def readP_def throwP_def
        split: if_splits option.splits)
  have plan: "plan = plan_over snapshots run target (steps_of_run run ?st) ?st" and by': "rearmed_by run target plan ?st st'"
    using t(4) assms(3) rerun_accepted [OF ok t(2,1,3), of clk snapshots "by"] retry_accepted [OF ok t(2,1) _ t(3), of clk snapshots "by"]
    by auto
  have "sr_status s = SPending" if "s \<in> set (steps_of_run run st')" "sr_step s \<in> set (rp_invalidated plan)" for s
    using by' that steps_of_run_mem [OF ok', of run "sr_step s" "sr_status s"] by (auto simp: rearmed_by_def)
  then show ?thesis using by' plan_over_target [of target snapshots run "steps_of_run run ?st" ?st]
    unfolding rearmed_by_def reopened_def plan [symmetric] by (auto simp del: split_paired_All)
qed

theorem rerun_rearms_plan_witness:
  "\<exists>plan st'. rerun_step_widened (\<lambda>_. 5) None ''r'' ''build'' None demo_live = (Inr plan, st')
     \<and> (\<forall>s \<in> set (steps_of_run ''r'' st'). sr_step s \<in> set (rp_invalidated plan) \<longrightarrow> sr_status s = SPending)"
proof -
  let ?c = "\<lparr>cf_store = demo_live, cf_seen = {}, cf_settled = {}\<rparr> :: cfg"
  have "store_ok demo_live" using reachable_ok [OF demo_live_reachable] by (simp add: cfg_ok_def)
  moreover have "blocking_dep demo_snap (steps_of_run ''r'' demo_live) = None"
    by (simp add: blocking_dep_def demo_snap_def)
  ultimately obtain plan st' where r: "rerun_step_widened (\<lambda>_. 5) None ''r'' ''build'' None demo_live = (Inr plan, st')"
    using rerun_accepted [OF _ demo_live_tables(3) demo_live_read] by blast
  with rerun_rearms_plan [OF demo_live_reachable, of rerun_step_widened "\<lambda>_. 5" None "''r''" "''build''" None plan st']
  show ?thesis by auto
qed

text \<open>A rerun and a retry answer by the guards alone, and a refusal writes nothing. From any
  reachable configuration the answer is the first guard that fails (the run's creation is not finished,
  there is no such step, for a retry the step has not failed, a prerequisite neither succeeded nor was
  skipped), with the store as it was, and otherwise the plan: no conflict of the re-arming surfaces.\<close>

theorem rerun_answers:
  fixes run
  assumes "reachable c"
  defines "st \<equiv> cf_store c" and "steps \<equiv> steps_of_run run (cf_store c)"
  shows "fst (rerun_step_widened clk snapshots run target by st) =
      (if run_creation_unfinished run st then Inl CreationUnfinished
       else case find_step target steps of
         None \<Rightarrow> Inl (StepNotFound target)
       | Some t \<Rightarrow> (case blocking_dep t steps of
           Some b \<Rightarrow> Inl (DependencyNotSatisfied target b)
         | None \<Rightarrow> Inr (plan_over snapshots run target steps st)))
    \<and> fst (retry_step_widened clk snapshots run target by st) =
      (if run_creation_unfinished run st then Inl CreationUnfinished
       else case find_step target steps of
         None \<Rightarrow> Inl (StepNotFound target)
       | Some t \<Rightarrow> if sr_status t \<noteq> SFailed then Inl (NotFailed target (sr_status t)) else (case blocking_dep t steps of
           Some b \<Rightarrow> Inl (DependencyNotSatisfied target b)
         | None \<Rightarrow> Inr (plan_over snapshots run target steps st)))
    \<and> (isl (fst (rerun_step_widened clk snapshots run target by st)) \<longrightarrow> snd (rerun_step_widened clk snapshots run target by st) = st)
    \<and> (isl (fst (retry_step_widened clk snapshots run target by st)) \<longrightarrow> snd (retry_step_widened clk snapshots run target by st) = st)"
proof -
  have ok: "store_ok st" using reachable_ok [OF assms(1)] by (simp add: cfg_ok_def st_def)
  have steps: "steps_of_run run st = steps" by (simp add: steps_def st_def)
  note open' = rerun_accepted [OF ok, of run, unfolded steps] and failed = retry_accepted [OF ok, of run, unfolded steps]
  note reads = rerun_step_widened_def retry_step_widened_def ensure_finished bindP_def [of "ensure_creation_finished run"]
    steps throwP_def
  show ?thesis
  proof (cases "run_creation_unfinished run st")
    case True
    then show ?thesis by (simp add: reads)
  next
    case fin: False
    show ?thesis
    proof (cases "find_step target steps")
      case None
      then show ?thesis using fin by (simp add: reads)
    next
      case (Some t)
      show ?thesis
      proof (cases "blocking_dep t steps")
        case None
        from open' [OF fin Some None, of clk snapshots "by"] obtain st1
          where 1: "rerun_step_widened clk snapshots run target by st = (Inr (plan_over snapshots run target steps st), st1)" by blast
        have 2: "\<exists>st2. retry_step_widened clk snapshots run target by st = (Inr (plan_over snapshots run target steps st), st2)" if "sr_status t = SFailed"
          using failed [OF fin Some that None, of clk snapshots "by"] by blast
        have 3: "retry_step_widened clk snapshots run target by st = (Inl (NotFailed target (sr_status t)), st)" if "sr_status t \<noteq> SFailed"
          using that fin Some by (simp add: reads)
        show ?thesis using 1 2 3 fin Some None by (cases "sr_status t = SFailed") auto
      next
        case (Some b)
        then show ?thesis using fin \<open>find_step target steps = Some t\<close> by (simp add: reads)
      qed
    qed
  qed
qed

theorem rerun_answers_witness:
  "fst (rerun_step_widened (\<lambda>_. 5) None ''r'' ''lint'' None demo_live) = Inl (StepNotFound ''lint'')
   \<and> snd (rerun_step_widened (\<lambda>_. 5) None ''r'' ''lint'' None demo_live) = demo_live"
proof -
  have "find_step ''lint'' (steps_of_run ''r'' demo_live) = None"
    using demo_claimed_read steps_of_run_cong [OF demo_live_tables(1), of "''r''"] by (simp add: find_step_def demo_snap_def)
  with rerun_answers [OF demo_live_reachable, where run = "''r''" and clk = "\<lambda>_. 5" and snapshots = None and target = "''lint''"]
    demo_live_tables(3)
  show ?thesis by simp
qed

end
