(* ===== verification/Gate_Requests.thy ===== *)
theory Gate_Requests
  imports Rerun_Laws
begin

text \<open>
  What the release, the rejection and the approval of a gate have done when they return, and the
  refinement of every request of the API by the step relation.
\<close>

section \<open>Resolving\<close>

lemma resolve_pending:
  assumes ok: "store_ok st" and row: "step_of st run step = Some rec" "rc_status rec = Some SPending"
    and fence: "gr_fence res = None"
  shows "\<exists>att st'. resolve_gate_wait run step res st = (Inr (Some att), st')
    \<and> step_status_of run step st' = Some (if gr_passed res then SSucceeded else SFailed) \<and> touches {(run, step)} st st'
    \<and> map_option rc_gate_kind (step_of st' run step) = Some (rc_gate_kind rec)"
proof -
  have sort: "sorted_attempts (rc_attempts rec) = rc_attempts rec"
    using store_ok_row [OF ok row(1)] by (simp add: rec_ok_def)
  have "\<exists>att minted as. resolve_target res (rc_attempts rec) = Some (att, minted, as)"
    using fence by (auto simp: resolve_target_def split: option.splits)
  then obtain att minted as where "resolve_target res (rc_attempts rec) = Some (att, minted, as)" by blast
  then show ?thesis
    using row sort
    by (auto simp: resolve_gate_wait_def Let_def step_status_of_def touches_def write_results_def modify_evidence_def
        split: option.splits bool.splits)
qed

lemma resolve_settled:
  assumes "step_status_of run step st \<noteq> Some SPending"
  shows "resolve_gate_wait run step res st = (Inr None, st)"
  using assms by (auto simp: resolve_gate_wait_def step_status_of_def split: option.splits)

lemma reopen_if_rows:
  "\<exists>st'. reopen_if_runnable clk run st = (Inr (), st') \<and> st_steps st' = st_steps st \<and> st_creating st' = st_creating st"
proof (cases "run_status_of run st = Some RSuspended \<and> \<not> only_waits_outstanding (steps_of_run run st)")
  case True
  have "\<exists>st'. reopen clk run RSuspended RRunning st = (Inr (), st') \<and> st_steps st' = st_steps st \<and> st_creating st' = st_creating st"
    using commit_run_hit [of run st RSuspended RRunning "clk st" False "[]" "[]"] True
    by (simp add: reopen_def mapErrP_def benign_def run_is_terminal_def)
  then show ?thesis using True by (simp add: reopen_if_runnable_def)
qed (auto simp: reopen_if_runnable_def returnP_def)

lemma resolve_gate_pending:
  assumes "store_ok st" "gate \<in> set (steps_of_run run st)" "sr_status gate = SPending"
  shows "\<exists>st'. resolve_gate clk run gate v by None st = (Inr True, st')
    \<and> step_status_of run (sr_step gate) st' = Some (if gv_passed v then SSucceeded else SFailed)
    \<and> touches {(run, sr_step gate)} st st'
    \<and> map_option rc_gate_kind (step_of st' run (sr_step gate)) = Some (sr_gate_kind gate)"
proof -
  obtain rec where rec: "step_of st run (sr_step gate) = Some rec" "rc_status rec = Some SPending" "rc_gate_kind rec = sr_gate_kind gate"
    using steps_of_run_row [OF assms(1,2)] assms(3) by auto
  let ?res = "\<lparr>gr_passed = gv_passed v, gr_reason = gv_reason v, gr_expired = gv_expired v, gr_by = by, gr_fence = None,
     gr_legacy_started_at = wait_began_at (events_of run st) gate (clk st), gr_at = clk st, gr_outputs = None\<rparr>"
  from resolve_pending [OF assms(1) rec(1,2), of ?res] rec(3) show ?thesis
    by (auto simp: resolve_gate_def bindP_def readP_def returnP_def)
qed

lemma find_gate:
  assumes "store_ok st" "step_status_of run step st = Some x" "map_option rc_gate_kind (step_of st run step) = Some (Some k)"
  shows "\<exists>g. List.find (\<lambda>s. sr_step s = step \<and> is_gate s) (steps_of_run run st) = Some g \<and> sr_step g = step \<and> sr_status g = x"
proof -
  obtain s where s: "s \<in> set (steps_of_run run st)" "sr_step s = step" "sr_status s = x"
    using find_step_live [OF assms(1,2)] by blast
  have "is_gate s" using steps_of_run_row [OF assms(1) s(1)] assms(3) s(2) by (auto simp: is_gate_def)
  then obtain g where g: "List.find (\<lambda>s. sr_step s = step \<and> is_gate s) (steps_of_run run st) = Some g"
    using s by (cases "List.find (\<lambda>s. sr_step s = step \<and> is_gate s) (steps_of_run run st)") (auto simp: find_None_iff)
  have "step_status_of run step st = Some (sr_status g)"
    using find_Some_mem [OF g] steps_of_run_mem [OF assms(1), of run step] by blast
  with g assms(2) find_Some_mem [OF g] show ?thesis by auto
qed

lemma release_settled:
  assumes "store_ok st" "\<not> run_creation_unfinished run st" "sr_status g \<noteq> SPending"
    and g: "List.find (\<lambda>s. sr_step s = step \<and> is_gate s) (steps_of_run run st) = Some g"
  shows "release_gate clk run step st = (Inr (), st)"
proof -
  have "step_status_of run (sr_step g) st = Some (sr_status g)"
    using find_Some_mem [OF g] steps_of_run_mem [OF assms(1)] by blast
  then have "resolve_gate_wait run (sr_step g) res st = (Inr None, st)" for res
    using assms(3) by (intro resolve_settled) simp
  then show ?thesis using assms(2,3) g
    by (simp add: release_gate_def ensure_finished bindP_def readP_def resolve_gate_def mapErrP_def returnP_def)
qed

section \<open>A waiting gate\<close>

definition demo_gate :: store where
  "demo_gate = set_step_gate ''r'' ''approve'' ''manual'' None (create_step_run ''r'' ''approve'' None [] empty_store)"

definition demo_gate_snap :: step_run where
  "demo_gate_snap = \<lparr>sr_run = ''r'', sr_step = ''approve'', sr_status = SPending, sr_attempts = [], sr_needs = [],
     sr_gate_kind = Some ''manual''\<rparr>"

lemma demo_gate_tables: "steps_of_run ''r'' demo_gate = [demo_gate_snap]" "\<not> run_creation_unfinished ''r'' demo_gate" "room demo_gate"
proof -
  have rows: "st_steps demo_gate = [((''r'', ''approve''), (new_step_rec None [])\<lparr>rc_gate_kind := Some ''manual''\<rparr>)]"
    by (simp add: demo_gate_def set_step_gate_def modify_step_def create_step_run_def new_step_rec_def empty_store_def)
  then show "steps_of_run ''r'' demo_gate = [demo_gate_snap]"
    by (simp add: steps_of_run_def List.map_filter_def step_run_of_def new_step_rec_def demo_gate_snap_def sorted_attempts_def)
  show "room demo_gate" by (rule room_rows) (simp add: rows new_step_rec_def u64_bound_def)
  show "\<not> run_creation_unfinished ''r'' demo_gate"
    by (simp add: run_creation_unfinished_def demo_gate_def set_step_gate_def modify_step_def create_step_run_def
        empty_store_def split: option.splits)
qed

lemma demo_gate_reachable: "reachable \<lparr>cf_store = demo_gate, cf_seen = {}, cf_settled = {}\<rparr>"
proof -
  have "commit_op {} {} empty_store demo_gate"
    unfolding demo_gate_def by (rule op_create_gate) (simp_all add: run_id_ok_def step_id_ok_def empty_store_def)
  from reach_step [OF reach_init sys_commit, of demo_gate] this show ?thesis by (simp add: init_cfg_def)
qed

section \<open>Properties\<close>

text \<open>A gate is released once, and never before the work it guards. From any reachable
  configuration with the run's creation finished: a gate whose needs have not all succeeded is
  refused and nothing is written; a reached \<open>Pending\<close> gate goes to \<open>Succeeded\<close>, no other step moves,
  and a second release finds it resolved and writes nothing; so does the release of a gate that was
  resolved otherwise.\<close>

theorem release_gate_once:
  assumes "reachable c" "room (cf_store c)" "\<not> run_creation_unfinished run (cf_store c)"
    and "List.find (\<lambda>s. sr_step s = step \<and> is_gate s) (steps_of_run run (cf_store c)) = Some g"
  defines "st \<equiv> cf_store c"
  shows "(sr_status g = SPending \<and> \<not> gate_reached g (steps_of_run run st) \<longrightarrow>
        release_gate clk run step st = (Inl (GateNotReached step), st))
    \<and> (sr_status g = SPending \<and> gate_reached g (steps_of_run run st) \<longrightarrow>
        (\<exists>st'. release_gate clk run step st = (Inr (), st') \<and> step_status_of run step st' = Some SSucceeded
           \<and> (\<forall>r x. (r, x) \<noteq> (run, step) \<longrightarrow> step_of st' r x = step_of st r x)
           \<and> release_gate clk' run step st' = (Inr (), st')))
    \<and> (sr_status g \<noteq> SPending \<longrightarrow> release_gate clk run step st = (Inr (), st))"
proof -
  have ok: "store_ok st" using reachable_ok [OF assms(1)] by (simp add: cfg_ok_def st_def)
  have g: "g \<in> set (steps_of_run run st)" "sr_step g = step" "is_gate g"
    using find_Some_mem [OF assms(4)] by (auto simp: st_def)
  have reached: "\<exists>st'. release_gate clk run step st = (Inr (), st') \<and> step_status_of run step st' = Some SSucceeded
      \<and> (\<forall>r x. (r, x) \<noteq> (run, step) \<longrightarrow> step_of st' r x = step_of st r x) \<and> release_gate clk' run step st' = (Inr (), st')"
    if "sr_status g = SPending" "gate_reached g (steps_of_run run st)"
  proof -
    let ?v = "\<lparr>gv_passed = True, gv_reason = ''released'', gv_expired = False\<rparr> :: gate_verdict"
    from resolve_gate_pending [OF ok g(1) that(1), of clk ?v None] obtain st1 where
      st1: "resolve_gate clk run g ?v None None st = (Inr True, st1)" "step_status_of run step st1 = Some SSucceeded"
      "touches {(run, step)} st st1" "map_option rc_gate_kind (step_of st1 run step) = Some (sr_gate_kind g)"
      using g(2) by auto
    obtain st' where st': "reopen_if_runnable clk run st1 = (Inr (), st')" "st_steps st' = st_steps st1" "st_creating st' = st_creating st1"
      using reopen_if_rows by blast
    have run1: "release_gate clk run step st = (Inr (), st')"
      using assms(3,4) that st1(1) st'(1)
      by (simp add: release_gate_def ensure_finished bindP_def readP_def mapErrP_def st_def)
    have ok': "store_ok st'"
      using runs_ok [OF runs_release [of st "{}" clk run step] ok] assms(2) run1 by (simp add: st_def)
    have row: "step_status_of run step st' = Some SSucceeded" "map_option rc_gate_kind (step_of st' run step) = Some (sr_gate_kind g)"
      using st1(2,4) st'(2) by (simp_all add: step_status_of_def)
    obtain k where "sr_gate_kind g = Some k" using g(3) by (auto simp: is_gate_def)
    with find_gate [OF ok' row(1)] row(2) obtain g' where
      g': "List.find (\<lambda>s. sr_step s = step \<and> is_gate s) (steps_of_run run st') = Some g'" "sr_status g' = SSucceeded" by auto
    have "\<not> run_creation_unfinished run st'"
      using assms(3) st'(3) st1(3) by (simp add: run_creation_unfinished_def touches_def st_def)
    then have "release_gate clk' run step st' = (Inr (), st')" using release_settled [OF ok' _ _ g'(1)] g'(2) by simp
    moreover have "step_of st' r x = step_of st r x" if "(r, x) \<noteq> (run, step)" for r x
      using touches_other [OF st1(3)] that st'(2) by simp
    ultimately show ?thesis using run1 row(1) by blast
  qed
  have "release_gate clk run step st = (Inl (GateNotReached step), st)" if "sr_status g = SPending" "\<not> gate_reached g (steps_of_run run st)"
    using that assms(3,4) by (simp add: release_gate_def ensure_finished bindP_def readP_def throwP_def st_def)
  moreover have "release_gate clk run step st = (Inr (), st)" if "sr_status g \<noteq> SPending"
    using release_settled [OF ok _ that] assms(3,4) by (simp add: st_def)
  ultimately show ?thesis using reached by blast
qed

theorem release_gate_once_witness:
  "\<exists>st'. release_gate (\<lambda>_. 5) ''r'' ''approve'' demo_gate = (Inr (), st') \<and> step_status_of ''r'' ''approve'' st' = Some SSucceeded"
proof -
  have "List.find (\<lambda>s. sr_step s = ''approve'' \<and> is_gate s) (steps_of_run ''r'' demo_gate) = Some demo_gate_snap"
    "sr_status demo_gate_snap = SPending" "gate_reached demo_gate_snap (steps_of_run ''r'' demo_gate)"
    by (simp_all add: demo_gate_tables(1) demo_gate_snap_def is_gate_def gate_reached_def)
  with release_gate_once [OF demo_gate_reachable, of "''r''" "''approve''" demo_gate_snap "\<lambda>_. 5" "\<lambda>_. 6"] demo_gate_tables(2,3)
  show ?thesis by auto
qed

text \<open>An approval is recorded once and only for a gate that waits. A call that returns \<open>Ok\<close>
  had a \<open>Pending\<close>, reached \<open>manual\<close> gate; it leaves the principal among the approvers of the current wait,
  moves no step, run or outbox message, and its repetition writes nothing; a refused call writes
  nothing at all.\<close>

theorem approval_recorded_once:
  "(\<forall>st'. record_gate_approval clk run step by st = (Inr (), st') \<longrightarrow>
      (\<exists>g. find_step step (steps_of_run run st) = Some g \<and> sr_gate_kind g = Some ''manual'' \<and> sr_status g = SPending
         \<and> gate_reached g (steps_of_run run st))
      \<and> by \<in> set (gate_approvers (events_of run st') step)
      \<and> st_steps st' = st_steps st \<and> st_runs st' = st_runs st \<and> st_outbox st' = st_outbox st
      \<and> record_gate_approval clk' run step by st' = (Inr (), st'))
   \<and> (\<forall>e st'. record_gate_approval clk run step by st = (Inl e, st') \<longrightarrow> st' = st)"
proof -
  let ?steps = "steps_of_run run st" and ?add = "append_events [event run (GateApproved step by) (clk st)] st"
  have events: "events_of run ?add = events_of run st @ [event run (GateApproved step by) (clk st)]"
    by (simp add: events_of_def)
  have member: "by \<in> set (gate_approvers (events_of run ?add) step)"
    unfolding events by (subst gate_approvers_approve) auto
  have steps: "steps_of_run run ?add = ?steps" by (rule steps_of_run_cong) simp
  have creating: "run_creation_unfinished run ?add = run_creation_unfinished run st" by (simp add: run_creation_unfinished_def)
  have list: "list_ex (\<lambda>b. b = by) xs \<longleftrightarrow> by \<in> set xs" for xs by (auto simp: list_ex_iff)
  note defs = record_gate_approval_def ensure_finished bindP_def readP_def throwP_def returnP_def append_eventP_def writeP_def list
  show ?thesis using member steps creating
    by (auto simp: defs split: if_splits option.splits)
qed

theorem approval_recorded_once_witness:
  "\<exists>st'. record_gate_approval (\<lambda>_. 5) ''r'' ''approve'' ''ann'' demo_gate = (Inr (), st')
     \<and> ''ann'' \<in> set (gate_approvers (events_of ''r'' st') ''approve'')"
proof -
  let ?st = "append_events [event ''r'' (GateApproved ''approve'' ''ann'') 5] demo_gate"
  have "events_of ''r'' demo_gate = []"
    by (simp add: events_of_def demo_gate_def set_step_gate_def modify_step_def create_step_run_def empty_store_def split: option.splits)
  then have "record_gate_approval (\<lambda>_. 5) ''r'' ''approve'' ''ann'' demo_gate = (Inr (), ?st)"
    using demo_gate_tables(1,2)
    by (simp add: record_gate_approval_def ensure_finished bindP_def readP_def append_eventP_def writeP_def find_step_def
        demo_gate_snap_def gate_reached_def gate_approvers_def current_wait_def after_last_def)
  with approval_recorded_once [of "\<lambda>_. 5" "''r''" "''approve''" "''ann''" demo_gate] show ?thesis by blast
qed



end
