(* ===== verification/Settle.thy ===== *)
theory Settle
  imports Gate_Requests
begin

text \<open>
  How an observed end of an attempt becomes a verdict of its step
  (\<^verbatim>\<open>crates/scarab-engine/src/scheduler.rs\<close>, \<^verbatim>\<open>settle_failed_attempt\<close>, \<^verbatim>\<open>succeed_step\<close> and what they call):
  the guard against stale observations, the retry policy read from the run's stored IR, the count of
  attempts of the current take replayed from the event log, and the two commits that re-arm or
  finalize the step.
\<close>

section \<open>Errors of a scheduler cycle\<close>

datatype sched_error =
    SchedDb db_error
  | SchedExec exec_error
  | SchedTransition transition_error
  | RunNotFound run_id
  | MissingSpec step_id
  | BadPayload string

type_synonym 'a sched_prog = "(store, sched_error, 'a) prog"

definition NEVER_STARTED_AUTO_ATTEMPTS :: nat where "NEVER_STARTED_AUTO_ATTEMPTS = 3"
definition MAX_DELIVERY_ATTEMPTS :: nat where "MAX_DELIVERY_ATTEMPTS = 10"
definition TIMEOUT_BACKSTOP_GRACE_MS :: int where "TIMEOUT_BACKSTOP_GRACE_MS = 60000"

section \<open>What the stored IR says of a step\<close>

definition u32_bound :: nat where "u32_bound = 4294967296"

datatype retry_on = OnFailure

record retry =
  rt_on :: retry_on
  rt_max :: nat

text \<open>Decoding of the \<^verbatim>\<open>Retry\<close> struct from a JSON value: an object with no key but \<^verbatim>\<open>on\<close> and \<^verbatim>\<open>max\<close>, or
  the array of the two fields; the unit variant is its name, or an object naming it with a null.\<close>

definition retry_on_of_json :: "json \<Rightarrow> retry_on option" where
  "retry_on_of_json v =
     (case v of
        JStr s \<Rightarrow> if s = ''failure'' then Some OnFailure else None
      | JObj [(k, JNull)] \<Rightarrow> if k = ''failure'' then Some OnFailure else None
      | _ \<Rightarrow> None)"

definition u32_of_json :: "json \<Rightarrow> nat option" where
  "u32_of_json v =
     (case v of JInt n \<Rightarrow> if 0 \<le> n \<and> n < int u32_bound then Some (nat n) else None | _ \<Rightarrow> None)"

definition retry_of :: "json option \<Rightarrow> json \<Rightarrow> retry option" where
  "retry_of on max_attempts =
     (case (case on of None \<Rightarrow> Some OnFailure | Some v \<Rightarrow> retry_on_of_json v) of
        None \<Rightarrow> None
      | Some w \<Rightarrow> map_option (\<lambda>m. \<lparr>rt_on = w, rt_max = m\<rparr>) (u32_of_json max_attempts))"

definition retry_of_json :: "json \<Rightarrow> retry option" where
  "retry_of_json v =
     (case v of
        JObj kvs \<Rightarrow>
          if list_all (\<lambda>kv. fst kv \<in> {''on'', ''max''}) kvs
          then Option.bind (map_of kvs ''max'') (retry_of (map_of kvs ''on'')) else None
      | JArr [on, m] \<Rightarrow> retry_of (Some on) m
      | _ \<Rightarrow> None)"

definition ir_step :: "json \<Rightarrow> step_id \<Rightarrow> json option" where
  "ir_step ir step =
     Option.bind (Option.bind (json_get ''steps'' ir) json_as_array)
       (List.find (\<lambda>s. Option.bind (json_get ''id'' s) json_as_str = Some step))"

definition step_retry :: "run_id \<Rightarrow> step_id \<Rightarrow> store \<Rightarrow> retry option" where
  "step_retry run step st =
     Option.bind (Option.bind (Option.bind (st_ir st run) (\<lambda>ir. ir_step ir step)) (json_get ''retry''))
       retry_of_json"

definition step_timeout_ms :: "int \<Rightarrow> run_id \<Rightarrow> step_id \<Rightarrow> store \<Rightarrow> int" where
  "step_timeout_ms default_step_timeout_ms run step st =
     (case Option.bind (Option.bind (Option.bind (st_ir st run) (\<lambda>ir. ir_step ir step)) (json_get ''timeout''))
             json_as_u64 of
        Some secs \<Rightarrow> saturating_mul (u64_as_i64 secs) 1000
      | None \<Rightarrow> default_step_timeout_ms)"

section \<open>Settling\<close>

definition torn_down :: "attempt_outcome \<Rightarrow> bool" where
  "torn_down oc \<longleftrightarrow> oc \<in> {AOSuperseded, AOCancelled}"

text \<open>The guard both settling operations open with.\<close>

definition stale_observation :: "run_id \<Rightarrow> step_id \<Rightarrow> attempt_id \<Rightarrow> store \<Rightarrow> bool" where
  "stale_observation run step att st =
     (let attempts = attempts_of_step run step st;
          is_frontier = map_option at_id (last_opt attempts) = Some att;
          is_torn_down = (case List.find (\<lambda>a. at_id a = att) attempts of
                            Some a \<Rightarrow> torn_down (at_outcome a) | None \<Rightarrow> False)
      in \<not> is_frontier \<or> is_torn_down)"

text \<open>Attempts of the step in the current take; the counter is a \<^verbatim>\<open>u32\<close>.\<close>

definition used_event :: "step_id \<Rightarrow> nat \<Rightarrow> event_kind \<Rightarrow> nat" where
  "used_event step used e =
     (case ev_kind e of
        RunRerunRequested _ invalidated _ _ \<Rightarrow> if step \<in> set invalidated then 0 else used
      | AttemptStarted s _ \<Rightarrow> if s = step then (used + 1) mod u32_bound else used
      | _ \<Rightarrow> used)"

definition attempts_used :: "step_id \<Rightarrow> event_kind list \<Rightarrow> nat" where
  "attempts_used step events = foldl (used_event step) 0 events"

definition configured_attempts :: "retry option \<Rightarrow> nat option" where
  "configured_attempts r = map_option (\<lambda>r. (1 + rt_max r) mod u32_bound) r"

definition allowed_attempts :: "failure_kind \<Rightarrow> nat option \<Rightarrow> nat" where
  "allowed_attempts kind configured =
     (case kind of
        FInfra True \<Rightarrow> max (case configured of Some n \<Rightarrow> n | None \<Rightarrow> 0) NEVER_STARTED_AUTO_ATTEMPTS
      | FConfig \<Rightarrow> 1
      | FMissingInputs \<Rightarrow> 1
      | FGate \<Rightarrow> 1
      | _ \<Rightarrow> (case configured of Some n \<Rightarrow> n | None \<Rightarrow> 1))"

definition rearm_step ::
  "clock \<Rightarrow> run_id \<Rightarrow> step_id \<Rightarrow> attempt_id \<Rightarrow> failure_kind \<Rightarrow> string option \<Rightarrow> unit sched_prog" where
  "rearm_step clk run step att kind cause =
     bindP (readP clk) (\<lambda>now.
     mapErrP SchedDb (benign (commitP (rearm_step_commit now run step att kind cause))))"

definition finalize_step ::
  "clock \<Rightarrow> run_id \<Rightarrow> step_id \<Rightarrow> attempt_id \<Rightarrow> step_status \<Rightarrow> failure_kind option \<Rightarrow> string option
     \<Rightarrow> unit sched_prog" where
  "finalize_step clk run step att to failure cause =
     bindP (readP clk) (\<lambda>now.
     mapErrP SchedDb (benign (commitP (finalize_commit now run step att to failure cause))))"

definition settle_failed_attempt ::
  "clock \<Rightarrow> run_id \<Rightarrow> step_id \<Rightarrow> attempt_id \<Rightarrow> failure_kind \<Rightarrow> string option \<Rightarrow> unit sched_prog" where
  "settle_failed_attempt clk run step att kind cause =
     bindP (readP (stale_observation run step att)) (\<lambda>stale.
     if stale then returnP ()
     else
       bindP (writeP (set_attempt_failure run step att kind cause)) (\<lambda>_.
       bindP (readP (\<lambda>st. attempts_used step (events_of run st))) (\<lambda>used.
       bindP (readP (step_retry run step)) (\<lambda>retry.
       if used < allowed_attempts kind (configured_attempts retry)
       then rearm_step clk run step att kind cause
       else finalize_step clk run step att SFailed (Some kind) cause))))"

definition succeed_step :: "clock \<Rightarrow> run_id \<Rightarrow> step_id \<Rightarrow> attempt_id \<Rightarrow> unit sched_prog" where
  "succeed_step clk run step att =
     bindP (readP (stale_observation run step att)) (\<lambda>stale.
     if stale then returnP () else finalize_step clk run step att SSucceeded None None)"

section \<open>The budget of a take\<close>

text \<open>The reference: how often the step started since the last rerun that re-armed it.\<close>

definition rearmed_by_rerun :: "step_id \<Rightarrow> event_kind \<Rightarrow> bool" where
  "rearmed_by_rerun step e =
     (case ev_kind e of RunRerunRequested _ invalidated _ _ \<Rightarrow> step \<in> set invalidated | _ \<Rightarrow> False)"

definition is_start :: "step_id \<Rightarrow> event_kind \<Rightarrow> bool" where
  "is_start step e = (case ev_kind e of AttemptStarted s _ \<Rightarrow> s = step | _ \<Rightarrow> False)"

definition starts_in_take :: "step_id \<Rightarrow> event_kind list \<Rightarrow> nat" where
  "starts_in_take step events = length (filter (is_start step) (after_last (rearmed_by_rerun step) events))"

lemma used_event_cases:
  "used_event step used e =
     (if rearmed_by_rerun step e then 0 else if is_start step e then (used + 1) mod u32_bound else used)"
  by (auto simp: used_event_def rearmed_by_rerun_def is_start_def split: event_payload.splits)

lemma attempts_used_snoc [simp]: "attempts_used step (es @ [e]) = used_event step (attempts_used step es) e"
  by (simp add: attempts_used_def)

lemma attempts_used_counts: "attempts_used step events = starts_in_take step events mod u32_bound"
proof (induction events rule: rev_induct)
  case (snoc e es)
  then show ?case
    by (auto simp: used_event_cases starts_in_take_def after_last_snoc mod_simps)
qed (simp add: attempts_used_def starts_in_take_def after_last_def u32_bound_def)

section \<open>What the two operations write\<close>

lemma benign_commitP:
  "benign (commitP f) st = (case f st of Inr st' \<Rightarrow> (Inr (), st') | Inl Conflict \<Rightarrow> (Inr (), st) | Inl e \<Rightarrow> (Inl e, st))"
  by (auto simp: benign_def commitP_def split: sum.splits db_error.splits)

lemma mapErr_Inr [simp]: "m st = (Inr a, st') \<Longrightarrow> mapErrP h m st = (Inr a, st')"
  by (simp add: mapErrP_def)

lemma writeP_bind [simp]: "bindP (writeP f) g st = g () (f st)"
  by (simp add: bindP_def writeP_def)

lemma stale_frontier:
  assumes "store_ok st" "step_of st run step = Some rec"
  shows "stale_observation run step att st \<longleftrightarrow>
    latest_attempt rec \<noteq> Some att \<or> torn_down (at_outcome (last (rc_attempts rec)))"
proof -
  have wn: "well_named (rc_attempts rec)" using store_ok_row [OF assms] by (simp add: rec_ok_def)
  have srt: "sorted_attempts (rc_attempts rec) = rc_attempts rec" using wn by simp
  have lat: "latest_attempt rec = map_option at_id (last_opt (rc_attempts rec))"
    using wn by (simp add: latest_attempt_last)
  have "List.find (\<lambda>a. at_id a = att) (rc_attempts rec) = Some (last (rc_attempts rec))"
    if "latest_attempt rec = Some att"
  proof -
    from that lat have ne: "rc_attempts rec \<noteq> []" and l: "at_id (last (rc_attempts rec)) = att"
      by (auto simp: last_opt_def split: if_splits)
    obtain a where a: "List.find (\<lambda>a. at_id a = att) (rc_attempts rec) = Some a"
      using ne l last_in_set [OF ne] by (cases "List.find (\<lambda>a. at_id a = att) (rc_attempts rec)") (auto simp: find_None_iff)
    from find_Some_mem [OF a] have "a \<in> set (rc_attempts rec)" "at_id a = at_id (last (rc_attempts rec))" using l by auto
    then have "a = last (rc_attempts rec)"
      using wn ne last_in_set [OF ne] by (metis well_named_distinct inj_on_def distinct_map)
    with a show ?thesis by simp
  qed
  then show ?thesis using lat srt assms(2)
    by (auto simp: stale_observation_def Let_def attempts_of_step_def)
qed

lemma update_first_last: "\<forall>x \<in> set xs. \<not> P x \<Longrightarrow> P y \<Longrightarrow> update_first P f (xs @ [y]) = xs @ [f y]"
  by (induction xs) auto

lemma stamp_frontier:
  assumes "well_named (rc_attempts rec)" "latest_attempt rec = Some att"
  shows "\<exists>as a. rc_attempts rec = as @ [a] \<and> at_id a = att \<and> rc_attempts (stamp_rec att s rec) = as @ [stamp_attempt s a]"
proof -
  obtain as a where r: "rc_attempts rec = as @ [a]" "at_id a = att"
    using assms(2) latest_attempt_last [OF assms(1)] by (auto simp: last_opt_Some)
  then have "att \<notin> at_id ` set as" using well_named_distinct [OF assms(1)] by simp
  then have "\<forall>x \<in> set as. at_id x \<noteq> att" by auto
  with r show ?thesis by (simp add: stamp_rec_def update_first_last)
qed

definition settle_target :: "run_id \<Rightarrow> step_id \<Rightarrow> failure_kind \<Rightarrow> store \<Rightarrow> step_status" where
  "settle_target run step kind st =
     (if attempts_used step (events_of run st) < allowed_attempts kind (configured_attempts (step_retry run step st))
      then SReady else SFailed)"

text \<open>A failure recorded on the frontier of a running step: the row after the stamp, and the commit
  that follows it.\<close>

lemma settle_effect:
  assumes ok: "store_ok st" and row: "step_of st run step = Some rec" "rc_status rec = Some SRunning"
    and live: "\<not> stale_observation run step att st"
    and target: "target = settle_target run step kind st"
  shows "\<exists>st' rec' as a. settle_failed_attempt clk run step att kind cause st = (Inr (), st')
    \<and> rc_attempts rec = as @ [a] \<and> step_of st' run step = Some rec' \<and> rc_status rec' = Some target
    \<and> rc_attempts rec' = as @ [a\<lparr>at_failure := Some kind, at_failure_detail := cause, at_outcome := AOFailed\<rparr>]
    \<and> (\<exists>t. st_events st' = st_events st @ [event run (AttemptFinished step att (Some kind) cause) t,
                                            event run (StepTransitioned step SRunning target) t])
    \<and> touches {(run, step)} st st' \<and> st_outbox st' = st_outbox st"
proof -
  let ?failed = "\<lambda>a. a\<lparr>at_failure := Some kind, at_failure_detail := cause, at_outcome := AOFailed\<rparr>"
  let ?rec = "stamp_rec att (StampFailure kind cause) rec" and ?st = "set_attempt_failure run step att kind cause st"
  have wn: "well_named (rc_attempts rec)" using store_ok_row [OF ok row(1)] by (simp add: rec_ok_def)
  have lat: "latest_attempt rec = Some att" and out: "\<not> torn_down (at_outcome (last (rc_attempts rec)))"
    using live stale_frontier [OF ok row(1)] by auto
  obtain as a where a: "rc_attempts rec = as @ [a]" "at_id a = att" "rc_attempts ?rec = as @ [?failed a]"
    using stamp_frontier [OF wn lat, of "StampFailure kind cause"] out
    by (auto simp: stamp_attempt_def torn_down_def)
  have st: "?st = put_step run step ?rec st"
    using row(1) by (simp add: set_attempt_failure_def stamp_attempt_locked_def modify_step_def)
  have wn': "well_named (rc_attempts ?rec)" using wn well_named_cong [OF stamp_attempts_ids] by blast
  have lat': "latest_attempt ?rec = Some att" using latest_attempt_last [OF wn'] a by simp
  have again: "rc_attempts (stamp_rec att (StampFailure kind cause) ?rec) = as @ [?failed a]"
    using stamp_frontier [OF wn' lat', of "StampFailure kind cause"] a by (auto simp: stamp_attempt_def)
  have same: "events_of run ?st = events_of run st" "step_retry run step ?st = step_retry run step st"
    by (simp_all add: st events_of_def step_retry_def put_step_def)
  have run_state: "rc_status ?rec = Some SRunning" using row(2) by (simp add: stamp_rec_def)
  show ?thesis
  proof (cases "target = SReady")
    case True
    then have "attempts_used step (events_of run st) < allowed_attempts kind (configured_attempts (step_retry run step st))"
      by (simp add: target settle_target_def split: if_splits)
    moreover have "rearm_step_commit (clk ?st) run step att kind cause ?st =
        Inr (append_events [event run (AttemptFinished step att (Some kind) cause) (clk ?st), step_moved run step SRunning SReady (clk ?st)]
          (put_step run step (?rec\<lparr>rc_status := Some SReady\<rparr>) ?st))"
      using run_state lat' unfolding rearm_step_commit_def
      by (simp add: st commit_step_transition_def check_step_transition_def frontier_ok_def)
    ultimately have run: "settle_failed_attempt clk run step att kind cause st = (Inr (),
        append_events [event run (AttemptFinished step att (Some kind) cause) (clk ?st), step_moved run step SRunning SReady (clk ?st)]
          (put_step run step (?rec\<lparr>rc_status := Some SReady\<rparr>) ?st))"
      using live by (simp add: settle_failed_attempt_def same rearm_step_def benign_commitP)
    show ?thesis
      by (rule exI [of _ "snd (settle_failed_attempt clk run step att kind cause st)"],
          rule exI [of _ "?rec\<lparr>rc_status := Some SReady\<rparr>"], rule exI [of _ as], rule exI [of _ a])
         (use a True in \<open>auto simp: run st step_moved_def touches_def\<close>)
  next
    case False
    then have t: "target = SFailed" "\<not> attempts_used step (events_of run st) < allowed_attempts kind (configured_attempts (step_retry run step st))"
      by (simp_all add: target settle_target_def split: if_splits)
    let ?fin = "stamp_rec att (StampFailure kind cause) (?rec\<lparr>rc_status := Some SFailed\<rparr>)"
    have fin: "rc_attempts ?fin = as @ [?failed a]" "rc_status ?fin = Some SFailed"
      using again by (simp_all add: stamp_rec_def)
    have "finalize_commit (clk ?st) run step att SFailed (Some kind) cause ?st =
        Inr (append_events (finalize_events (clk ?st) run step att SFailed (Some kind) cause) (put_step run step ?fin ?st))"
      using run_state lat' unfolding finalize_commit_def finalize_stamp_def
      by (simp add: st commit_step_transition_def check_step_transition_def frontier_ok_def)
    then have run: "settle_failed_attempt clk run step att kind cause st = (Inr (),
        append_events (finalize_events (clk ?st) run step att SFailed (Some kind) cause) (put_step run step ?fin ?st))"
      using live t by (simp add: settle_failed_attempt_def same finalize_step_def benign_commitP)
    show ?thesis
      by (rule exI [of _ "snd (settle_failed_attempt clk run step att kind cause st)"],
          rule exI [of _ ?fin], rule exI [of _ as], rule exI [of _ a])
         (use a t fin in \<open>auto simp: run st step_moved_def touches_def finalize_events_def\<close>)
  qed
qed

lemma succeed_effect:
  assumes ok: "store_ok st" and row: "step_of st run step = Some rec" "rc_status rec = Some SRunning"
    and live: "\<not> stale_observation run step att st"
  shows "\<exists>st' rec' as a. succeed_step clk run step att st = (Inr (), st')
    \<and> rc_attempts rec = as @ [a] \<and> step_of st' run step = Some rec' \<and> rc_status rec' = Some SSucceeded
    \<and> rc_attempts rec' = as @ [a\<lparr>at_outcome := AOSucceeded\<rparr>]
    \<and> (\<exists>t. st_events st' = st_events st @ [event run (AttemptFinished step att None None) t,
                                            event run (StepTransitioned step SRunning SSucceeded) t])
    \<and> touches {(run, step)} st st' \<and> st_outbox st' = st_outbox st"
proof -
  let ?rec = "stamp_rec att (StampOutcome AOSucceeded) (rec\<lparr>rc_status := Some SSucceeded\<rparr>)"
  have wn: "well_named (rc_attempts rec)" using store_ok_row [OF ok row(1)] by (simp add: rec_ok_def)
  have lat: "latest_attempt rec = Some att" and out: "\<not> torn_down (at_outcome (last (rc_attempts rec)))"
    using live stale_frontier [OF ok row(1)] by auto
  obtain as a where a: "rc_attempts rec = as @ [a]"
    "rc_attempts (stamp_rec att (StampOutcome AOSucceeded) rec) = as @ [a\<lparr>at_outcome := AOSucceeded\<rparr>]"
    using stamp_frontier [OF wn lat, of "StampOutcome AOSucceeded"] out
    by (auto simp: stamp_attempt_def torn_down_def)
  have fin: "rc_attempts ?rec = as @ [a\<lparr>at_outcome := AOSucceeded\<rparr>]" "rc_status ?rec = Some SSucceeded"
    using a by (simp_all add: stamp_rec_def)
  have "finalize_commit (clk st) run step att SSucceeded None None st =
      Inr (append_events (finalize_events (clk st) run step att SSucceeded None None) (put_step run step ?rec st))"
    using row lat unfolding finalize_commit_def finalize_stamp_def
    by (simp add: commit_step_transition_def check_step_transition_def frontier_ok_def)
  then have run: "succeed_step clk run step att st = (Inr (),
      append_events (finalize_events (clk st) run step att SSucceeded None None) (put_step run step ?rec st))"
    using live by (simp add: succeed_step_def finalize_step_def benign_commitP)
  show ?thesis
    by (rule exI [of _ "snd (succeed_step clk run step att st)"], rule exI [of _ ?rec], rule exI [of _ as], rule exI [of _ a])
       (use a fin in \<open>auto simp: run step_moved_def touches_def finalize_events_def\<close>)
qed

text \<open>A step that is not running: the compare-and-swap of either commit meets another status and the
  journal and the status stay as they are.\<close>

lemma settle_not_running:
  assumes "step_status_of run step st \<noteq> Some SRunning"
  shows "settle_failed_attempt clk run step att kind cause st =
      (Inr (), if stale_observation run step att st then st else set_attempt_failure run step att kind cause st)"
    and "succeed_step clk run step att st = (Inr (), st)"
proof -
  have moved: "check_step_transition run step SRunning st' = None" if "step_status_of run step st' \<noteq> Some SRunning" for st'
    using that by (auto simp: check_step_transition_def step_status_of_def split: option.splits)
  have st: "step_status_of run step (set_attempt_failure run step att kind cause st) = step_status_of run step st"
    by (auto simp: set_attempt_failure_def stamp_attempt_locked_def modify_step_def step_status_of_def stamp_rec_def
        split: option.splits)
  show "settle_failed_attempt clk run step att kind cause st =
      (Inr (), if stale_observation run step att st then st else set_attempt_failure run step att kind cause st)"
    using moved [of "set_attempt_failure run step att kind cause st"] assms st
    by (simp add: settle_failed_attempt_def rearm_step_def finalize_step_def benign_commitP rearm_step_commit_def
        finalize_commit_def commit_step_transition_def returnP_def)
  show "succeed_step clk run step att st = (Inr (), st)"
    using moved [OF assms]
    by (simp add: succeed_step_def finalize_step_def benign_commitP finalize_commit_def commit_step_transition_def returnP_def)
qed

section \<open>Settling follows the step relation\<close>

lemma runs_finalize [runs_intros]:
  assumes "to \<in> {SSucceeded, SFailed}"
  shows "runs_as seen st (snd (finalize_step clk run step att to failure cause st))"
  unfolding finalize_step_def
  by (subst bind_read) (intro runs_mapErr runs_benign runs_commitP runs_commit, rule op_finalize [OF assms])

lemma runs_succeed [runs_intros]: "runs_as seen st (snd (succeed_step clk run step att st))"
  unfolding succeed_step_def by (subst bind_read) (auto intro!: runs_return runs_finalize)

lemma runs_settle [runs_intros]: "runs_as seen st (snd (settle_failed_attempt clk run step att kind cause st))"
proof (cases "stale_observation run step att st")
  case False
  let ?st = "set_attempt_failure run step att kind cause st"
  from False have att: "att \<in> at_id ` set (attempts_of_step run step st)"
    by (auto simp: stale_observation_def Let_def last_opt_def split: if_splits)
  show ?thesis unfolding runs_as_def
  proof (intro allI impI)
    fix c :: cfg assume c: "cf_store c = st \<and> seen \<subseteq> cf_seen c"
    let ?c = "c\<lparr>cf_store := ?st, cf_settled := insert (run, step, att) (cf_settled c)\<rparr>"
    have 1: "later_cfg c ?c" using later_step [OF later_refl sys_failure, of att run step c kind cause] att c by simp
    have "\<exists>c'. later_cfg ?c c' \<and> cf_store c' = snd (settle_failed_attempt clk run step att kind cause st)
        \<and> cf_seen ?c \<subseteq> cf_seen c'"
    proof (cases "settle_target run step kind ?st = SReady")
      case True
      then have eq: "settle_failed_attempt clk run step att kind cause st = rearm_step clk run step att kind cause ?st"
        using False by (simp add: settle_failed_attempt_def settle_target_def split: if_splits)
      show ?thesis
      proof (cases "rearm_step_commit (clk ?st) run step att kind cause ?st")
        case (Inr st')
        have "sys_step ?c (?c\<lparr>cf_store := st'\<rparr>)"
          by (rule sys_commit) (use Inr in \<open>auto intro: op_retry\<close>)
        then show ?thesis unfolding eq using later_step [OF later_refl] Inr
          by (fastforce simp: rearm_step_def benign_commitP mapErrP_def)
      next
        case (Inl e)
        then have "e = Conflict" unfolding rearm_step_commit_def by (rule commit_step_transition_error)
        then show ?thesis unfolding eq using Inl later_refl
          by (intro exI [of _ ?c]) (simp add: rearm_step_def benign_commitP mapErrP_def later_refl)
      qed
    next
      case False
      then have eq: "settle_failed_attempt clk run step att kind cause st = finalize_step clk run step att SFailed (Some kind) cause ?st"
        using \<open>\<not> stale_observation run step att st\<close> by (simp add: settle_failed_attempt_def settle_target_def split: if_splits)
      show ?thesis unfolding eq
        using runs_finalize [of SFailed "cf_seen ?c" ?st, unfolded runs_as_def, rule_format, of ?c] by auto
    qed
    then show "\<exists>c'. later_cfg c c' \<and> cf_store c' = snd (settle_failed_attempt clk run step att kind cause st)
        \<and> cf_seen c \<subseteq> cf_seen c'"
      using later_trans [OF _ 1] by fastforce
  qed
qed (simp add: settle_failed_attempt_def returnP_def)

section \<open>Properties\<close>

lemma reachable_store: "reachable c \<Longrightarrow> store_ok (cf_store c)"
  using reachable_ok by (simp add: cfg_ok_def)

lemma status_row: "step_status_of run step st = Some x \<longleftrightarrow> (\<exists>rec. step_of st run step = Some rec \<and> rc_status rec = Some x)"
  by (auto simp: step_status_of_def split: option.splits bind_splits)

lemma demo_live_running: "step_status_of ''r'' ''build'' demo_live = Some SRunning"
  by (simp add: status_row demo_live_tables demo_claimed_tables)

lemma demo_live_fresh: "\<not> stale_observation ''r'' ''build'' (attempt_name 1) demo_live"
  by (simp add: stale_observation_def attempts_of_step_def demo_live_tables demo_claimed_tables sorted_attempts_def
      new_step_rec_def demo_attempt_def torn_down_def last_opt_def)

lemma demo_live_log:
  "events_of ''r'' demo_live = [event ''r'' (StepTransitioned ''build'' SPending SReady) 1,
     event ''r'' (AttemptStarted ''build'' (attempt_name 1)) 2]"
  "st_ir demo_live = Map.empty"
  by (simp_all add: events_of_def demo_live_def finish_run_creation_def begin_run_creation_def create_run_def Let_def
      demo_claimed_def claim_ready_steps_def fenced_def holds_leader_term_if_def holds_leader_term_def
      demo_leader_def demo_promoted_tables ready_keys_def claimed_step_def step_run_of_def sorted_attempts_def
      List.map_filter_def mint_launch_def launch_one_def modify_step_def add_attempt_def new_step_rec_def
      demo_promoted_def promote_commit_def promote_step_def demo_created_tables check_step_transition_def step_moved_def
      demo_created_def create_step_run_def lease_def empty_store_def put_step_def append_events_def enqueue_outbox_def)



text \<open>An attempt is settled once. Whatever observations of one attempt arrive, in whatever order
  (success, or failures of any class): one that names an attempt that is not the step's frontier, or that was
  torn down on purpose, writes nothing at all; and after any first one, a second leaves the step's
  status and the event log as they were, so the verdict is journalled exactly once.\<close>

theorem attempt_settled_once:
  assumes "reachable c"
    and "first \<in> insert (succeed_step clk run step att) (range (case_prod (settle_failed_attempt clk run step att)))"
    and "second \<in> insert (succeed_step clk' run step att) (range (case_prod (settle_failed_attempt clk' run step att)))"
  shows "\<exists>st1 st2. first (cf_store c) = (Inr (), st1) \<and> second st1 = (Inr (), st2)
    \<and> (stale_observation run step att (cf_store c) \<longrightarrow> st1 = cf_store c \<and> st2 = cf_store c)
    \<and> st_events st2 = st_events st1 \<and> step_status_of run step st2 = step_status_of run step st1"
proof (cases "stale_observation run step att (cf_store c)")
  case True
  then show ?thesis using assms(2,3)
    by (auto simp: succeed_step_def settle_failed_attempt_def returnP_def)
next
  case False
  have "\<exists>st1. first (cf_store c) = (Inr (), st1) \<and> step_status_of run step st1 \<noteq> Some SRunning"
  proof (cases "step_status_of run step (cf_store c) = Some SRunning")
    case True
    then obtain rec where row: "step_of (cf_store c) run step = Some rec" "rc_status rec = Some SRunning"
      by (auto simp: status_row)
    note ok = reachable_store [OF assms(1)]
    have "\<exists>st1. succeed_step clk run step att (cf_store c) = (Inr (), st1) \<and> step_status_of run step st1 \<noteq> Some SRunning"
      using succeed_effect [OF ok row False, of clk] by (auto simp: status_row)
    moreover have "\<exists>st1. settle_failed_attempt clk run step att kind cause (cf_store c) = (Inr (), st1)
        \<and> step_status_of run step st1 \<noteq> Some SRunning" for kind cause
      using settle_effect [OF ok row False refl, of clk kind cause] by (auto simp: status_row settle_target_def)
    ultimately show ?thesis using assms(2) by auto
  next
    case False
    have "step_status_of run step (set_attempt_failure run step att kind cause (cf_store c)) = step_status_of run step (cf_store c)"
      for kind cause
      by (auto simp: set_attempt_failure_def stamp_attempt_locked_def modify_step_def step_status_of_def stamp_rec_def
          split: option.splits)
    then show ?thesis using assms(2) settle_not_running [OF False] False by auto
  qed
  then obtain st1 where st1: "first (cf_store c) = (Inr (), st1)" "step_status_of run step st1 \<noteq> Some SRunning" by blast
  have "st_events (set_attempt_failure run step att kind cause st1) = st_events st1
      \<and> step_status_of run step (set_attempt_failure run step att kind cause st1) = step_status_of run step st1" for kind cause
    by (auto simp: set_attempt_failure_def stamp_attempt_locked_def modify_step_def step_status_of_def stamp_rec_def
        split: option.splits)
  then show ?thesis using assms(3) False st1 settle_not_running [OF st1(2)] by auto
qed

theorem attempt_settled_once_witness:
  "\<exists>st1 st2. succeed_step (\<lambda>_. 9) ''r'' ''build'' (attempt_name 1) demo_live = (Inr (), st1)
     \<and> settle_failed_attempt (\<lambda>_. 12) ''r'' ''build'' (attempt_name 1) FLost None st1 = (Inr (), st2)
     \<and> st_events st2 = st_events st1"
  using attempt_settled_once [OF demo_live_reachable, of "succeed_step (\<lambda>_. 9) ''r'' ''build'' (attempt_name 1)"
      "\<lambda>_. 9" "''r''" "''build''" "attempt_name 1" "settle_failed_attempt (\<lambda>_. 12) ''r'' ''build'' (attempt_name 1) FLost None" "\<lambda>_. 12"]
  by (force simp: image_iff)

text \<open>The row of a succeeded attempt is not final. The guard of a failure observation refuses
  superseded and cancelled attempts only: when the launch intent of an attempt that has succeeded is
  delivered again (its driver stopped before retiring it) and the backend no longer knows the unit,
  the step stays \<open>Succeeded\<close> but the attempt's row is rewritten as failed and lost.\<close>

theorem late_loss_rewrites_success:
  assumes "reachable c" "step_status_of run step (cf_store c) = Some SRunning"
    and "\<not> stale_observation run step att (cf_store c)"
    and "succeed_step clk run step att (cf_store c) = (Inr (), st1)"
  shows "\<exists>st2 rec. settle_failed_attempt clk' run step att FLost None st1 = (Inr (), st2)
    \<and> step_of st2 run step = Some rec \<and> rc_status rec = Some SSucceeded
    \<and> at_outcome (last (rc_attempts rec)) = AOFailed \<and> at_failure (last (rc_attempts rec)) = Some FLost"
proof -
  obtain rec where row: "step_of (cf_store c) run step = Some rec" "rc_status rec = Some SRunning"
    using assms(2) by (auto simp: status_row)
  note ok = reachable_store [OF assms(1)]
  obtain rec1 as a where r: "rc_attempts rec = as @ [a]" "step_of st1 run step = Some rec1" "rc_status rec1 = Some SSucceeded"
    "rc_attempts rec1 = as @ [a\<lparr>at_outcome := AOSucceeded\<rparr>]"
    using succeed_effect [OF ok row assms(3), of clk] assms(4) by auto
  have ok1: "store_ok st1" using runs_ok [OF runs_succeed [of "{}" "cf_store c" clk run step att] ok] assms(4) by simp
  have wn1: "well_named (rc_attempts rec1)" using store_ok_row [OF ok1 r(2)] by (simp add: rec_ok_def)
  have "latest_attempt rec = Some att" using stale_frontier [OF ok row(1)] assms(3) by blast
  then have lat: "latest_attempt rec1 = Some att"
    using latest_attempt_last [OF wn1] latest_attempt_last [of rec] store_ok_row [OF ok row(1)] r by (simp add: rec_ok_def)
  then have "\<not> stale_observation run step att st1" using stale_frontier [OF ok1 r(2)] r(4) by (simp add: torn_down_def)
  moreover have "step_status_of run step st1 \<noteq> Some SRunning" using r(2,3) by (simp add: step_status_of_def)
  moreover obtain bs b where "rc_attempts rec1 = bs @ [b]"
    "rc_attempts (stamp_rec att (StampFailure FLost None) rec1) = bs @ [stamp_attempt (StampFailure FLost None) b]"
    using stamp_frontier [OF wn1 lat, of "StampFailure FLost None"] by blast
  ultimately show ?thesis using r settle_not_running(1) [of run step st1 clk' att FLost None]
    by (auto simp: set_attempt_failure_def stamp_attempt_locked_def modify_step_def stamp_attempt_def stamp_rec_def)
qed

theorem late_loss_rewrites_success_witness:
  "\<exists>st1 st2 rec. succeed_step (\<lambda>_. 9) ''r'' ''build'' (attempt_name 1) demo_live = (Inr (), st1)
     \<and> settle_failed_attempt (\<lambda>_. 12) ''r'' ''build'' (attempt_name 1) FLost None st1 = (Inr (), st2)
     \<and> step_of st2 ''r'' ''build'' = Some rec \<and> rc_status rec = Some SSucceeded"
proof -
  obtain rec where "step_of demo_live ''r'' ''build'' = Some rec" "rc_status rec = Some SRunning"
    using demo_live_running by (auto simp: status_row)
  then obtain st1 where "succeed_step (\<lambda>_. 9) ''r'' ''build'' (attempt_name 1) demo_live = (Inr (), st1)"
    using succeed_effect [OF reachable_store [OF demo_live_reachable], of "''r''" "''build''" rec "attempt_name 1"] demo_live_fresh by auto
  then show ?thesis
    using late_loss_rewrites_success [OF demo_live_reachable, of "''r''" "''build''" "attempt_name 1" "\<lambda>_. 9" st1 "\<lambda>_. 12"]
      demo_live_running demo_live_fresh by auto
qed

end
