(* ===== verification/Passes.thy ===== *)
theory Passes
  imports Settle
begin

text \<open>
  The passes of a scheduler cycle over one run (\<^verbatim>\<open>crates/scarab-engine/src/scheduler.rs\<close>): settling the
  run when every step has ended, cancelling it, dead-lettering it, charging its budget, ending gates
  nobody needs. Each is a program over the store, in the order of the code's calls.

  The executor is the port \<^verbatim>\<open>Executor\<close>: a record of its answers. An answer may depend on the store at
  the moment of the call, so two calls around a write need not agree; nothing is assumed of it.
  \<open>sc_show\<close> renders an error for a diagnostic, \<open>sc_nonce\<close> is the random part of a services teardown key,
  \<open>sc_decode_error\<close> the JSON decoder's message for a payload it refuses, \<open>sc_instant\<close> the store's own
  monotonic clock, which claims and leases run on.
\<close>

section \<open>The scheduler\<close>

datatype failure_class = ClInfra bool | ClStep | ClTimeout | ClConfig | ClMissingInputs

datatype exec_state =
    ExPending
  | ExRunning
  | ExSucceeded
  | ExFailed "int option" failure_class "string option"
  | ExLost

record cache_saves =
  sa_key :: string
  sa_roots :: "(string \<times> string) list"

record provisioning_collision =
  pc_path :: string
  pc_winner :: nat
  pc_loser :: nat

record provisioning_report =
  pr_collisions :: nat
  pr_sample :: "provisioning_collision list"

record executor =
  ex_cancel :: "string \<Rightarrow> store \<Rightarrow> exec_error + unit"
  ex_torn_down :: "string \<Rightarrow> store \<Rightarrow> exec_error + bool"
  ex_unit_handle :: "step_run \<Rightarrow> string option"
  ex_teardown_service :: "string \<Rightarrow> store \<Rightarrow> exec_error + unit"
  ex_gate_refusal :: "step_run \<Rightarrow> store \<Rightarrow> exec_error + string option"
  ex_launch :: "step_run \<Rightarrow> step_spec \<Rightarrow> store \<Rightarrow> exec_error + string"
  ex_poll :: "string \<Rightarrow> store \<Rightarrow> exec_error + exec_state"
  ex_output :: "string \<Rightarrow> store \<Rightarrow> exec_error + string option"
  ex_output_identity :: "string \<Rightarrow> store \<Rightarrow> exec_error + string option"
  ex_results :: "string \<Rightarrow> store \<Rightarrow> exec_error + (string \<times> json) list"
  ex_artifacts :: "string \<Rightarrow> store \<Rightarrow> exec_error + artifact_meta list"
  ex_cache_saves :: "string \<Rightarrow> store \<Rightarrow> exec_error + cache_saves option"
  ex_provisioning :: "string \<Rightarrow> store \<Rightarrow> exec_error + provisioning_report option"
  ex_launch_service :: "run_id \<Rightarrow> int \<Rightarrow> string \<Rightarrow> json \<Rightarrow> store \<Rightarrow> exec_error + string"
  ex_service_ready :: "string \<Rightarrow> store \<Rightarrow> exec_error + bool"

record config =
  cfg_lease_ttl_ms :: int
  cfg_outbox_batch :: nat
  cfg_outbox_visibility_ms :: int
  cfg_project_run_cap :: "nat option"
  cfg_global_run_cap :: nat
  cfg_default_step_timeout_ms :: int
  cfg_service_ready_timeout_ms :: int
  cfg_tick_failure_deadline_ms :: int
  cfg_unfinished_creation_bound_ms :: int

definition default_config :: config where
  "default_config =
     \<lparr>cfg_lease_ttl_ms = 30000, cfg_outbox_batch = 16, cfg_outbox_visibility_ms = 30000,
      cfg_project_run_cap = None, cfg_global_run_cap = u32_bound - 1, cfg_default_step_timeout_ms = 3600000,
      cfg_service_ready_timeout_ms = 300000, cfg_tick_failure_deadline_ms = 300000,
      cfg_unfinished_creation_bound_ms = 600000\<rparr>"

record sched =
  sc_clk :: clock
  sc_exec :: executor
  sc_owner :: string
  sc_cfg :: config
  sc_leader :: "leader_term option"
  sc_show :: "sched_error \<Rightarrow> string"
  sc_nonce :: "store \<Rightarrow> string"
  sc_decode_error :: "payload \<Rightarrow> string"
  sc_instant :: "store \<Rightarrow> int"

definition execP :: "(store \<Rightarrow> exec_error + 'a) \<Rightarrow> 'a sched_prog" where
  "execP f st = (case f st of Inl e \<Rightarrow> (Inl (SchedExec e), st) | Inr a \<Rightarrow> (Inr a, st))"

definition append_log :: "run_id \<Rightarrow> event_payload \<Rightarrow> timestamp \<Rightarrow> unit sched_prog" where
  "append_log run kind at = append_eventP (event run kind at)"

definition transition_run :: "sched \<Rightarrow> run_id \<Rightarrow> run_status \<Rightarrow> run_status \<Rightarrow> unit sched_prog" where
  "transition_run sc run from to =
     bindP (readP (sc_clk sc)) (\<lambda>now.
     mapErrP SchedDb (benign (commit_run (sc_leader sc) run from to now True [] [])))"

definition transition_step_with ::
  "sched \<Rightarrow> run_id \<Rightarrow> step_id \<Rightarrow> step_status \<Rightarrow> step_status \<Rightarrow> event_payload list \<Rightarrow> unit sched_prog" where
  "transition_step_with sc run step from to preceding =
     bindP (readP (sc_clk sc)) (\<lambda>now.
     mapErrP SchedDb (benign (commitP (transition_step_commit now run step from to preceding))))"

definition transition_step ::
  "sched \<Rightarrow> run_id \<Rightarrow> step_id \<Rightarrow> step_status \<Rightarrow> step_status \<Rightarrow> unit sched_prog" where
  "transition_step sc run step from to = transition_step_with sc run step from to []"

definition skip_unchanged :: "sched \<Rightarrow> run_id \<Rightarrow> step_id \<Rightarrow> unit sched_prog" where
  "skip_unchanged sc run step =
     bindP (readP (sc_clk sc)) (\<lambda>now.
     mapErrP SchedDb (benign (commitP (skip_unchanged_commit now run step))))"

section \<open>Releasing what a run holds\<close>

definition teardown_services :: "sched \<Rightarrow> run_id \<Rightarrow> unit sched_prog" where
  "teardown_services sc run =
     bindP (readP (run_services run)) (\<lambda>rows.
     forP rows (\<lambda>r.
       if service_status_is_terminal (sv_status r) then returnP ()
       else bindP (case sv_handle r of
                     Some h \<Rightarrow> execP (ex_teardown_service (sc_exec sc) h)
                   | None \<Rightarrow> returnP ()) (\<lambda>_.
            mapErrP SchedDb (set_run_service (sc_leader sc) run (sv_take r) (sv_name r) SvTornDown None))))"

definition release_run_slot :: "run_id \<Rightarrow> unit sched_prog" where
  "release_run_slot run =
     bindP (readP (\<lambda>st. st_concurrency st run)) (\<lambda>conc.
     case conc of Some (grp, _) \<Rightarrow> writeP (release_slot grp run) | None \<Rightarrow> returnP ())"

text \<open>The unit of the step's attempt in flight is asked to stop; the answer is ignored.\<close>

definition ask_to_stop :: "sched \<Rightarrow> run_id \<Rightarrow> step_run \<Rightarrow> unit sched_prog" where
  "ask_to_stop sc run step =
     (case in_flight_attempt step of
        None \<Rightarrow> returnP ()
      | Some a \<Rightarrow>
          bindP (readP (\<lambda>st. st_handles st (run, sr_step step, at_id a))) (\<lambda>h.
          case h of
            Some h \<Rightarrow> bindP (readP (ex_cancel (sc_exec sc) h)) (\<lambda>_. returnP ())
          | None \<Rightarrow> returnP ()))"

definition cancel_live_step :: "sched \<Rightarrow> run_id \<Rightarrow> timestamp \<Rightarrow> step_run \<Rightarrow> unit sched_prog" where
  "cancel_live_step sc run now step =
     (if step_is_terminal (sr_status step) then returnP ()
      else bindP (ask_to_stop sc run step) (\<lambda>_. mapErrP SchedDb (cancel_step run step now)))"

definition cancel_live_steps :: "sched \<Rightarrow> run_id \<Rightarrow> timestamp \<Rightarrow> unit sched_prog" where
  "cancel_live_steps sc run now =
     bindP (readP (steps_of_run run)) (\<lambda>steps. forP steps (cancel_live_step sc run now))"

definition cancel_run :: "sched \<Rightarrow> run_id \<Rightarrow> unit sched_prog" where
  "cancel_run sc run =
     bindP (readP (sc_clk sc)) (\<lambda>now.
     bindP (cancel_live_steps sc run now) (\<lambda>_.
     bindP (readP (run_status_of run)) (\<lambda>status.
     bindP (case status of
              Some current \<Rightarrow>
                if run_is_terminal current then returnP ()
                else bindP (readP (\<lambda>st. cancel_services_intent (sc_nonce sc st) run now st)) (\<lambda>intent.
                     mapErrP SchedDb (benign (commit_run (sc_leader sc) run current RCancelled now True [intent] [])))
            | None \<Rightarrow> returnP ()) (\<lambda>_.
     bindP (teardown_services sc run) (\<lambda>_.
     release_run_slot run)))))"

section \<open>Settling a run\<close>

text \<open>The bytes of the dash in the diagnostics.\<close>

definition dash :: string where "dash = [CHR 0xE2, CHR 0x80, CHR 0x94]"

definition failure_debug :: "failure_kind \<Rightarrow> string" where
  "failure_debug kind =
     (case kind of
        FInfra b \<Rightarrow> ''Infra { never_started: '' @ (if b then ''true'' else ''false'') @ '' }''
      | FStep \<Rightarrow> ''Step'' | FTimeout \<Rightarrow> ''Timeout'' | FLost \<Rightarrow> ''Lost'' | FConfig \<Rightarrow> ''Config''
      | FMissingInputs \<Rightarrow> ''MissingInputs'' | FGate \<Rightarrow> ''Gate'')"

definition verdictless :: "step_run \<Rightarrow> (attempt \<times> failure_kind) option" where
  "verdictless s =
     (if sr_status s \<noteq> SFailed then None
      else case last_opt (sr_attempts s) of
        None \<Rightarrow> None
      | Some a \<Rightarrow>
          (case at_failure a of
             Some (FInfra b) \<Rightarrow> Some (a, FInfra b)
           | Some FLost \<Rightarrow> Some (a, FLost)
           | _ \<Rightarrow> None))"

definition dead_reason :: "step_run \<Rightarrow> string option" where
  "dead_reason s =
     map_option (\<lambda>(a, kind).
       case at_failure_detail a of
         Some detail \<Rightarrow>
           ''step `'' @ sr_step s @ ''`: '' @ detail @ '' ('' @ failure_debug kind @ '' '' @ dash
             @ '' retries exhausted without a verdict)''
       | None \<Rightarrow>
           ''step `'' @ sr_step s @ ''`: '' @ failure_debug kind @ '' '' @ dash
             @ '' retries exhausted without a verdict'') (verdictless s)"

definition run_outcome :: "step_run list \<Rightarrow> run_status" where
  "run_outcome steps =
     (if List.map_filter dead_reason steps \<noteq> [] then RDeadLettered
      else if list_ex (\<lambda>s. sr_status s \<in> {SFailed, SCancelled}) steps then RFailed
      else RSucceeded)"

definition advance :: "sched \<Rightarrow> run_id \<Rightarrow> unit sched_prog" where
  "advance sc run =
     bindP (readP (steps_of_run run)) (\<lambda>steps.
     if steps = [] \<or> \<not> list_all (\<lambda>s. step_is_terminal (sr_status s)) steps then returnP ()
     else
       bindP (readP (run_status_of run)) (\<lambda>status.
       case status of
         None \<Rightarrow> returnP ()
       | Some current \<Rightarrow>
           if run_is_terminal current then returnP ()
           else
             bindP (if run_outcome steps = RDeadLettered then
                      bindP (readP (sc_clk sc)) (\<lambda>now.
                      append_log run (RunDeadLettered (join_with ''; '' (List.map_filter dead_reason steps))) now)
                    else returnP ()) (\<lambda>_.
             bindP (transition_run sc run current (run_outcome steps)) (\<lambda>_.
             bindP (teardown_services sc run) (\<lambda>_.
             release_run_slot run)))))"

definition cleanup_failed :: "string \<Rightarrow> string" where
  "cleanup_failed e =
     '' (cleanup also failed, step rows may be left non-terminal and '' @
     ''shared-service Pods may be orphaned: '' @ e @ '')''"

definition dead_letter_run :: "sched \<Rightarrow> run_id \<Rightarrow> string \<Rightarrow> unit sched_prog" where
  "dead_letter_run sc run reason =
     bindP (readP (run_status_of run)) (\<lambda>status.
     case status of
       None \<Rightarrow> returnP ()
     | Some current \<Rightarrow>
         if run_is_terminal current then returnP ()
         else
           bindP (readP (sc_clk sc)) (\<lambda>now. \<lambda>st.
           case bindP (cancel_live_steps sc run now) (\<lambda>_. teardown_services sc run) st of
             (cleanup, st1) \<Rightarrow>
               bindP (append_log run (RunDeadLettered
                  (reason @ (case cleanup of Inl e \<Rightarrow> cleanup_failed (sc_show sc e) | Inr _ \<Rightarrow> []))) now) (\<lambda>_.
               bindP (transition_run sc run current RDeadLettered) (\<lambda>_.
               release_run_slot run)) st1))"

section \<open>The budget\<close>

definition enforce_run_budget :: "sched \<Rightarrow> run_id \<Rightarrow> bool sched_prog" where
  "enforce_run_budget sc run =
     bindP (readP (run_status_of run)) (\<lambda>status.
     if status \<noteq> Some RRunning then returnP False
     else
       bindP (readP (\<lambda>st. run_budget_secs (st_ir st run))) (\<lambda>budget.
       case budget of
         None \<Rightarrow> returnP False
       | Some budget_secs \<Rightarrow>
           bindP (readP (events_of run)) (\<lambda>events.
           bindP (readP (sc_clk sc)) (\<lambda>now.
           if active_ms events now < saturating_mul budget_secs 1000 then returnP False
           else
             bindP (cancel_live_steps sc run now) (\<lambda>_.
             bindP (mapErrP SchedDb (benign (commit_run (sc_leader sc) run RRunning RFailed now True []
                [event run (RunBudgetExhausted (active_ms events now) (saturating_mul budget_secs 1000)) now]))) (\<lambda>_.
             bindP (release_run_slot run) (\<lambda>_.
             returnP True)))))))"

section \<open>Gates nobody needs\<close>

text \<open>The event log is read at most once, when the first gate asks for it.\<close>

fun unneeded_loop ::
  "sched \<Rightarrow> run_id \<Rightarrow> step_run list \<Rightarrow> step_run list \<Rightarrow> event_kind list option \<Rightarrow> unit sched_prog" where
  "unneeded_loop sc run steps [] events st = (Inr (), st)"
| "unneeded_loop sc run steps (gate # gates) events st =
     (let dependents = filter (\<lambda>s. sr_step gate \<in> set (sr_needs s)) steps;
          all_finished = list_all (\<lambda>d. step_is_terminal (sr_status d)) dependents
      in if dependents = [] then unneeded_loop sc run steps gates events st
         else if sr_status gate = SPending \<and> all_finished then
           bindP (bindP (readP (sc_clk sc)) (\<lambda>now.
                  mapErrP SchedDb (benign (commitP (settle_unneeded_commit now run gate)))))
             (\<lambda>_. unneeded_loop sc run steps gates events) st
         else if sr_status gate = SSkipped \<and> \<not> all_finished then
           (let log = (case events of Some es \<Rightarrow> es | None \<Rightarrow> events_of run st) in
            bindP (if skipped_as_unneeded log (sr_step gate)
                   then transition_step sc run (sr_step gate) SSkipped SPending else returnP ())
              (\<lambda>_. unneeded_loop sc run steps gates (Some log)) st)
         else unneeded_loop sc run steps gates events st)"

definition settle_unneeded_gates :: "sched \<Rightarrow> run_id \<Rightarrow> unit sched_prog" where
  "settle_unneeded_gates sc run =
     bindP (readP (steps_of_run run)) (\<lambda>steps.
     if \<not> list_ex is_gate steps then returnP ()
     else unneeded_loop sc run steps (filter is_gate steps) None)"

end
