(* ===== verification/Pass_Laws.thy ===== *)
theory Pass_Laws
  imports Passes
begin

text \<open>
  What the passes over a run do: each is a path of the step relation of \<open>System\<close>, and each has settled
  what it set out to settle when it returns. The loop that cancels the live steps is another
  interpretation of \<open>step_loop\<close>.
\<close>

section \<open>The passes are paths\<close>

lemma runs_exec [runs_intros]: "runs_as seen st (snd (execP f st))"
  by (simp add: execP_def split: sum.splits)

lemma runs_append [runs_intros]: "runs_as seen st (snd (append_log run kind at st))"
  unfolding append_log_def by (rule runs_write_event)

lemma runs_transition_run [runs_intros]: "runs_as seen st (snd (transition_run sc run from to st))"
  unfolding transition_run_def by (intro runs_intros)

lemma runs_transition_step [runs_intros]:
  assumes "fr \<noteq> SRunning" "to \<noteq> SRunning"
  shows "runs_as seen st (snd (transition_step_with sc run step fr to preceding st))"
  unfolding transition_step_with_def
  by (subst bind_read) (intro runs_mapErr runs_benign runs_commitP runs_commit, rule op_move [OF assms])

lemma runs_skip_unchanged [runs_intros]: "runs_as seen st (snd (skip_unchanged sc run step st))"
  unfolding skip_unchanged_def
  by (subst bind_read) (intro runs_mapErr runs_benign runs_commitP runs_commit, rule op_skip)

lemma runs_teardown_services [runs_intros]: "runs_as seen st (snd (teardown_services sc run st))"
proof -
  have set_row: "runs_as seen st (snd (set_run_service l run tk name status h st))" for seen st l tk name status h
    by (rule runs_aux [OF aux_service_set])
  show ?thesis unfolding teardown_services_def
    by (auto split: option.splits intro!: runs_for runs_bind runs_mapErr runs_exec runs_return set_row simp: returnP_def)
qed

lemma runs_release_slot [runs_intros]: "runs_as seen st (snd (release_run_slot run st))"
  unfolding release_run_slot_def
  by (auto simp: writeP_def returnP_def split: option.splits intro: runs_aux [OF aux_release])

lemma ask_to_stop_id [simp]: "ask_to_stop sc run s st = (Inr (), st)"
  by (auto simp: ask_to_stop_def returnP_def split: option.splits)

lemma cancel_live_step_eq:
  "cancel_live_step sc run now s st =
     (if step_is_terminal (sr_status s) then (Inr (), st) else mapErrP SchedDb (cancel_step run s now) st)"
  by (simp add: cancel_live_step_def bindP_def returnP_def)

lemma runs_cancel_live [runs_intros]: "runs_as seen st (snd (cancel_live_steps sc run now st))"
proof -
  have "runs_as (seen \<union> set (steps_of_run run st)) st1 (snd (cancel_live_step sc run now s st1))"
    if "s \<in> set (steps_of_run run st)" for s st1
    using that steps_of_run_run [OF that] unfolding cancel_live_step_eq cancel_step_def
    by (auto intro!: runs_mapErr runs_cancel_rounds)
  then show ?thesis unfolding cancel_live_steps_def by (intro runs_bind_steps runs_for)
qed

lemma runs_cancel_run [runs_intros]:
  assumes "run_id_ok run" "\<And>st. CHR ''/'' \<notin> set (sc_nonce sc st)"
  shows "runs_as seen st (snd (cancel_run sc run st))"
proof -
  have commit: "runs_as seen st (snd (commit_run l run current RCancelled now True
      [cancel_services_intent (sc_nonce sc st) run now st] [] st))" for seen st l current now
    unfolding commit_run_def by (auto intro!: runs_commitP intro: runs_commit op_cancel_run [OF assms])
  show ?thesis unfolding cancel_run_def
    by (auto split: option.splits intro!: runs_bind runs_cancel_live runs_mapErr runs_teardown_services runs_release_slot
        runs_return simp: commit simp del: bind_drop)
qed

lemma runs_advance: "runs_as seen st (snd (advance sc run st))"
  unfolding advance_def
  by (auto split: option.splits intro!: runs_bind runs_append runs_transition_run runs_teardown_services runs_release_slot
      runs_return)

lemma runs_dead_letter: "runs_as seen st (snd (dead_letter_run sc run reason st))"
proof -
  have cleanup: "runs_as seen st (snd (bindP (cancel_live_steps sc run now) (\<lambda>_. teardown_services sc run) st))" for now
    by (intro runs_bind runs_intros)
  have verdict: "runs_as seen st1 (snd (bindP (append_log run k now) (\<lambda>_. bindP (transition_run sc run current RDeadLettered) (\<lambda>_.
      release_run_slot run)) st1))" for st1 k now current
    by (intro runs_bind runs_intros)
  have "runs_as seen st (snd (case bindP (cancel_live_steps sc run now) (\<lambda>_. teardown_services sc run) st of (cleanup, st1) \<Rightarrow>
      bindP (append_log run (k cleanup) now) (\<lambda>_. bindP (transition_run sc run current RDeadLettered) (\<lambda>_.
      release_run_slot run)) st1))" for now k current
    using runs_trans [OF cleanup verdict] by (simp add: case_prod_unfold)
  then show ?thesis unfolding dead_letter_run_def by (auto simp: returnP_def split: option.splits)
qed

lemma runs_budget: "runs_as seen st (snd (enforce_run_budget sc run st))"
  unfolding enforce_run_budget_def
  by (auto simp: returnP_def split: option.splits intro!: runs_bind runs_cancel_live runs_mapErr runs_benign runs_commit_run runs_release_slot)

lemma runs_unneeded_loop:
  assumes "set gates \<subseteq> seen" "\<And>g. g \<in> set gates \<Longrightarrow> is_gate g \<and> sr_run g = run"
  shows "runs_as seen st (snd (unneeded_loop sc run steps gates events st))"
  using assms
proof (induction gates arbitrary: events st)
  case (Cons g gates)
  have ih: "runs_as seen st (snd (unneeded_loop sc run steps gates events st))" for events st
    using Cons by simp
  have commit: "runs_as seen st (snd (bindP (readP (sc_clk sc)) (\<lambda>now.
      mapErrP SchedDb (benign (commitP (settle_unneeded_commit now run g)))) st))" for st
  proof (subst bind_read, intro runs_mapErr runs_benign runs_commitP runs_commit)
    fix st' assume "settle_unneeded_commit (sc_clk sc st) run g st = Inr st'"
    then show "commit_op seen {} st st'" using op_unneeded [of g seen "sc_clk sc st" st st' "{}"] Cons.prems by auto
  qed
  have undo: "runs_as seen st (snd (transition_step sc run x SSkipped SPending st))" for x st
    unfolding transition_step_def by (auto intro: runs_transition_step)
  show ?case
    by (auto simp: Let_def simp del: bind_read intro!: ih runs_bind commit undo runs_return)
qed simp

lemma runs_unneeded: "runs_as seen st (snd (settle_unneeded_gates sc run st))"
  unfolding settle_unneeded_gates_def
proof (rule runs_bind_steps)
  have "runs_as (seen \<union> set (steps_of_run run st)) st
      (snd (unneeded_loop sc run (steps_of_run run st) (filter is_gate (steps_of_run run st)) None st))"
    using steps_of_run_run by (intro runs_unneeded_loop) auto
  then show "runs_as (seen \<union> set (steps_of_run run st)) st (snd ((if \<not> list_ex is_gate (steps_of_run run st) then returnP ()
      else unneeded_loop sc run (steps_of_run run st) (filter is_gate (steps_of_run run st)) None) st))"
    by (simp add: returnP_def)
qed

section \<open>Cancelling the live steps\<close>

interpretation live_loop: step_loop run "cancel_live_step sc run now" store_ok
    "\<lambda>s _ r. case Option.bind r rc_status of None \<Rightarrow> True | Some x \<Rightarrow> step_is_terminal x" for sc run now
proof
  fix st s assume ok: "store_ok st" and s: "s \<in> set (steps_of_run run st)"
  let ?st = "snd (cancel_live_step sc run now s st)"
  show "fst (cancel_live_step sc run now s st) = Inr () \<and> store_ok ?st \<and> touches {(run, sr_step s)} st ?st
      \<and> (case Option.bind (step_of ?st run (sr_step s)) rc_status of None \<Rightarrow> True | Some x \<Rightarrow> step_is_terminal x)"
  proof (cases "step_is_terminal (sr_status s)")
    case True
    then show ?thesis using ok steps_of_run_row [OF ok s] by (auto simp: cancel_live_step_eq)
  next
    case False
    then show ?thesis using cancel_loop.body_ok [OF ok s, of now]
      by (auto simp: cancel_live_step_eq mapErrP_def split: prod.splits sum.splits)
  qed
qed simp

lemma cancel_live_ok:
  assumes ok: "store_ok st"
  obtains st' where "cancel_live_steps sc run now st = (Inr (), st')" "store_ok st'"
    "touches ((\<lambda>s. (run, sr_step s)) ` set (steps_of_run run st)) st st'"
    "\<And>s. s \<in> set (steps_of_run run st') \<Longrightarrow> step_is_terminal (sr_status s)"
proof -
  let ?st = "snd (forP (steps_of_run run st) (cancel_live_step sc run now) st)"
  have l: "fst (forP (steps_of_run run st) (cancel_live_step sc run now) st) = Inr ()" "store_ok ?st"
    "touches ((\<lambda>s. (run, sr_step s)) ` set (steps_of_run run st)) st ?st"
    "\<forall>s \<in> set (steps_of_run run st). step_settled run (sr_step s) ?st"
    using live_loop.loop_ok [OF ok, of "steps_of_run run st" run sc now] steps_of_run_ids [OF ok]
    by (auto simp: step_settled_def step_status_of_def)
  show ?thesis
    by (rule that [of ?st]) (use l settled_steps [OF ok l(2,3,4)] in \<open>auto simp: cancel_live_steps_def intro: prod_eqI\<close>)
qed

section \<open>Tearing the services down\<close>

text \<open>What the teardown of a run's services leaves alone.\<close>

definition beside_services :: "store \<Rightarrow> store \<Rightarrow> bool" where
  "beside_services st st' \<longleftrightarrow> st' = st\<lparr>st_services := st_services st'\<rparr>"

lemma beside_services_sel:
  assumes "beside_services st st'"
  shows "st_steps st' = st_steps st" "st_runs st' = st_runs st" "st_slots st' = st_slots st" "st_events st' = st_events st"
    "st_outbox st' = st_outbox st" "st_generations st' = st_generations st" "st_leases st' = st_leases st"
    "st_concurrency st' = st_concurrency st" "st_creating st' = st_creating st"
  by (subst assms [unfolded beside_services_def], simp)+

lemma beside_services_refl [simp]: "beside_services st st"
  by (simp add: beside_services_def)

lemma beside_services_trans: "beside_services a b \<Longrightarrow> beside_services b c \<Longrightarrow> beside_services a c"
  unfolding beside_services_def by (metis store.surjective store.update_convs(18))

lemma beside_set_service: "beside_services st (snd (set_run_service l run tk name status h st))"
  by (auto simp: set_run_service_def fenced_def beside_services_def split: option.splits)

lemma exec_snd [simp]: "snd (execP f st) = st"
  by (simp add: execP_def split: sum.splits)

lemma teardown_beside: "beside_services st (snd (teardown_services sc run st))"
proof -
  have "beside_services st (snd (forP rows (\<lambda>r.
       if service_status_is_terminal (sv_status r) then returnP ()
       else bindP (case sv_handle r of Some h \<Rightarrow> execP (ex_teardown_service (sc_exec sc) h) | None \<Rightarrow> returnP ()) (\<lambda>_.
            mapErrP SchedDb (set_run_service (sc_leader sc) run (sv_take r) (sv_name r) SvTornDown None))) st))" for rows
  proof (rule forP_invariant)
    fix r t assume t: "beside_services st t"
    have 1: "beside_services st (snd (mapErrP SchedDb (set_run_service (sc_leader sc) run (sv_take r) (sv_name r) SvTornDown None) t))"
      using beside_services_trans [OF t beside_set_service [of t "sc_leader sc" run "sv_take r" "sv_name r" SvTornDown None]]
      by (auto simp: mapErrP_def split: prod.splits sum.splits)
    then show "beside_services st (snd ((if service_status_is_terminal (sv_status r) then returnP ()
       else bindP (case sv_handle r of Some h \<Rightarrow> execP (ex_teardown_service (sc_exec sc) h) | None \<Rightarrow> returnP ()) (\<lambda>_.
            mapErrP SchedDb (set_run_service (sc_leader sc) run (sv_take r) (sv_name r) SvTornDown None))) t))"
      using t by (auto simp: returnP_def bindP_def execP_def split: option.splits sum.splits)
  qed simp
  then show ?thesis by (simp add: teardown_services_def)
qed

text \<open>With the term held and an executor that accepts, no service of the run is left alive.\<close>

abbreviation service_of :: "store \<Rightarrow> run_id \<Rightarrow> int \<Rightarrow> string \<Rightarrow> (service_status \<times> string option \<times> timestamp) option" where
  "service_of st run tk name \<equiv> al_get (st_services st) (run, tk, name)"

definition teardown_row :: "sched \<Rightarrow> run_id \<Rightarrow> run_service \<Rightarrow> unit sched_prog" where
  "teardown_row sc run r =
     (if service_status_is_terminal (sv_status r) then returnP ()
      else bindP (case sv_handle r of Some h \<Rightarrow> execP (ex_teardown_service (sc_exec sc) h) | None \<Rightarrow> returnP ()) (\<lambda>_.
           mapErrP SchedDb (set_run_service (sc_leader sc) run (sv_take r) (sv_name r) SvTornDown None)))"

lemma teardown_services_rows: "teardown_services sc run st = forP (run_services run st) (teardown_row sc run) st"
  by (simp add: teardown_services_def teardown_row_def [abs_def])

lemma teardown_row_live:
  assumes "holds_leader_term_if st (sc_leader sc)" "\<And>h t. ex_teardown_service (sc_exec sc) h t = Inr ()"
    and "\<not> service_status_is_terminal (sv_status r)"
  shows "teardown_row sc run r st = (Inr (), case service_of st run (sv_take r) (sv_name r) of None \<Rightarrow> st
    | Some (_, h, at) \<Rightarrow> st\<lparr>st_services := al_put (run, sv_take r, sv_name r) (SvTornDown, h, at) (st_services st)\<rparr>)"
  using assms by (auto simp: teardown_row_def bindP_def execP_def returnP_def mapErrP_def set_run_service_def fenced_def
      split: option.splits)

lemma holds_cong: "st_leases st' = st_leases st \<Longrightarrow> holds_leader_term_if st' l = holds_leader_term_if st l"
  by (simp add: holds_leader_term_if_def holds_leader_term_def split: option.split)

lemma teardown_rows_ok:
  assumes "holds_leader_term_if st (sc_leader sc)" "\<And>h t. ex_teardown_service (sc_exec sc) h t = Inr ()" "al_wf (st_services st)"
    and "\<And>tk nm x h at. service_of st run tk nm = Some (x, h, at) \<Longrightarrow> \<not> service_status_is_terminal x \<Longrightarrow>
      \<exists>r \<in> set rows. sv_take r = tk \<and> sv_name r = nm \<and> \<not> service_status_is_terminal (sv_status r)"
  shows "fst (forP rows (teardown_row sc run) st) = Inr () \<and> al_wf (st_services (snd (forP rows (teardown_row sc run) st)))
    \<and> (\<forall>tk nm x h at. service_of (snd (forP rows (teardown_row sc run) st)) run tk nm = Some (x, h, at) \<longrightarrow> service_status_is_terminal x)"
  using assms(1,3,4)
proof (induction rows arbitrary: st)
  case Nil
  then show ?case by fastforce
next
  case (Cons r rows)
  show ?case
  proof (cases "service_status_is_terminal (sv_status r)")
    case True
    then have "\<exists>r' \<in> set rows. sv_take r' = tk \<and> sv_name r' = nm \<and> \<not> service_status_is_terminal (sv_status r')"
      if "service_of st run tk nm = Some (x, h, at)" "\<not> service_status_is_terminal x" for tk nm x h at
      using Cons.prems(3) [OF that] by auto
    note ih = Cons.IH [OF Cons.prems(1,2) this]
    have eq: "forP (r # rows) (teardown_row sc run) st = forP rows (teardown_row sc run) st"
      using True by (simp add: teardown_row_def returnP_def)
    show ?thesis unfolding eq by (rule ih)
  next
    case False
    let ?st = "snd (teardown_row sc run r st)"
    note row = teardown_row_live [OF Cons.prems(1) assms(2) False, of run]
    have st: "holds_leader_term_if ?st (sc_leader sc)" "al_wf (st_services ?st)"
      using Cons.prems(1,2) holds_cong [of ?st st] unfolding row by (auto split: option.splits)
    have "\<exists>r' \<in> set rows. sv_take r' = tk \<and> sv_name r' = nm \<and> \<not> service_status_is_terminal (sv_status r')"
      if s: "service_of ?st run tk nm = Some (x, h, at)" "\<not> service_status_is_terminal x" for tk nm x h at
    proof -
      have "(tk, nm) \<noteq> (sv_take r, sv_name r)"
        using s unfolding row by (auto simp: service_status_is_terminal_def split: option.splits)
      moreover then have "service_of st run tk nm = Some (x, h, at)"
        using s(1) unfolding row by (auto split: option.splits)
      ultimately show ?thesis using Cons.prems(3) [OF _ s(2)] by fastforce
    qed
    note ih = Cons.IH [OF st this]
    have eq: "forP (r # rows) (teardown_row sc run) st = forP rows (teardown_row sc run) ?st"
      using row by (cases "teardown_row sc run r st") simp
    show ?thesis unfolding eq by (rule ih)
  qed
qed

lemma map_filter_set: "set (List.map_filter f xs) = {y. \<exists>x \<in> set xs. f x = Some y}"
  by (force simp: List.map_filter_def)

lemma run_services_mem:
  "sv \<in> set (run_services run st) \<longleftrightarrow> (\<exists>tk nm x h at. ((run, tk, nm), (x, h, at)) \<in> set (st_services st)
     \<and> sv = \<lparr>sv_run = run, sv_take = tk, sv_name = nm, sv_status = x, sv_handle = h, sv_created_at = at\<rparr>)"
  by (auto simp: run_services_def map_filter_set Bex_def split_paired_Ex split: if_splits)

lemma teardown_ok:
  assumes "holds_leader_term_if st (sc_leader sc)" "\<And>h t. ex_teardown_service (sc_exec sc) h t = Inr ()" "al_wf (st_services st)"
  shows "fst (teardown_services sc run st) = Inr ()
    \<and> (\<forall>sv \<in> set (run_services run (snd (teardown_services sc run st))). service_status_is_terminal (sv_status sv))"
proof -
  have live: "\<exists>r \<in> set (run_services run st). sv_take r = tk \<and> sv_name r = nm \<and> \<not> service_status_is_terminal (sv_status r)"
    if "service_of st run tk nm = Some (x, h, at)" "\<not> service_status_is_terminal x" for tk nm x h at
    using that map_of_SomeD [OF that(1)] unfolding bex_simps run_services_mem
    by (intro bexI [of _ "\<lparr>sv_run = run, sv_take = tk, sv_name = nm, sv_status = x, sv_handle = h, sv_created_at = at\<rparr>"])
       (auto simp: run_services_mem)
  have "fst (forP (run_services run st) (teardown_row sc run) st) = Inr () \<and> al_wf (st_services (snd (forP (run_services run st) (teardown_row sc run) st)))
    \<and> (\<forall>tk nm x h at. service_of (snd (forP (run_services run st) (teardown_row sc run) st)) run tk nm = Some (x, h, at) \<longrightarrow> service_status_is_terminal x)"
    by (rule teardown_rows_ok [OF assms live])
  then have r: "fst (teardown_services sc run st) = Inr ()" "al_wf (st_services (snd (teardown_services sc run st)))"
    "\<And>tk nm x h at. service_of (snd (teardown_services sc run st)) run tk nm = Some (x, h, at) \<Longrightarrow> service_status_is_terminal x"
    unfolding teardown_services_rows by blast+
  then show ?thesis by (auto simp: run_services_mem al_get_mem)
qed

text \<open>The services and the runs are tables: no key is held twice.\<close>

definition keys_ok :: "store \<Rightarrow> bool" where
  "keys_ok st \<longleftrightarrow> al_wf (st_services st) \<and> al_wf (st_runs st)"

lemma keys_ok_cong: "st_services st' = st_services st \<Longrightarrow> st_runs st' = st_runs st \<Longrightarrow> keys_ok st \<Longrightarrow> keys_ok st'"
  by (simp add: keys_ok_def)

lemma commit_keys: "commit_step_transition run step fr to frontier stamp es ms st = Inr st' \<Longrightarrow> keys_ok st \<Longrightarrow> keys_ok st'"
  by (auto simp: commit_step_transition_iff keys_ok_def)

lemma launches_keys: "keys_ok st \<Longrightarrow> keys_ok (foldl launch_one st ls)"
  by (induction ls arbitrary: st) (auto simp: launch_one_def modify_step_def keys_ok_def split: prod.splits option.splits)

lemma aux_keys:
  assumes "aux_op st st'" "keys_ok st"
  shows "keys_ok st'"
  using assms
  by cases (auto simp: lease_def Let_def acquire_slot_def release_slot_def create_run_service_def set_run_service_def
      fenced_def set_run_concurrency_def set_supersede_key_def set_run_scheduling_def store_run_ir_def set_step_inputs_def
      set_gate_releaser_def set_gate_wait_inputs_def set_attempt_handle_def begin_run_creation_def create_run_def finish_run_creation_def
      put_artifacts_def set_run_cache_scope_def cache_record_def claim_outbox_def renew_outbox_claim_def mark_dispatched_def dead_letter_outbox_def record_outbox_failure_def
      set_step_input_def modify_step_def set_step_output_def ingest_attempt_results_def set_step_results_def write_results_def
      set_attempt_consumed_def set_attempt_workspace_input_steps_def keys_ok_def split: option.splits prod.splits if_splits)

lemma commit_op_keys:
  assumes "commit_op seen settled st st'" "keys_ok st"
  shows "keys_ok st'"
  using assms(1)
proof cases
  case (op_claim leader limit now ss)
  then show ?thesis using launches_keys [OF assms(2)]
    by (auto simp: claim_ready_steps_def fenced_def split: if_splits sum.splits)
next
  case (op_open_wait s leader started_at at x)
  then show ?thesis using assms(2)
    by (auto simp: open_gate_wait_def fenced_def Let_def keys_ok_def split: if_splits option.splits)
next
  case (op_resolve s res y)
  then show ?thesis using assms(2)
    by (auto simp: resolve_gate_wait_def Let_def write_results_def keys_ok_def split: if_splits option.splits bool.splits)
next
  case (op_close s outcome att e b)
  then show ?thesis using assms(2) by (auto simp: close_running_attempt_def keys_ok_def split: if_splits option.splits)
next
  case op_aux
  then show ?thesis using aux_keys assms(2) by blast
qed (use assms(2) in \<open>auto simp: commit_rearm_def cancel_step_commit_def finalize_commit_def rearm_step_commit_def promote_commit_def
    promote_step_def skip_unchanged_commit_def transition_step_commit_def settle_unneeded_commit_def Let_def
    commit_run_transition_after_def commit_run_transition_def create_step_run_def set_step_gate_def modify_step_def
    keys_ok_def [of "enqueue_all _ _"] keys_ok_def [of "append_events _ _"] keys_ok_def [of "put_step _ _ _ _"]
    keys_ok_def [of st] dest!: commit_keys split: if_splits option.splits\<close>)

lemma reachable_keys: "reachable c \<Longrightarrow> keys_ok (cf_store c)"
proof (induction rule: reachable.induct)
  case reach_init
  then show ?case by (simp add: init_cfg_def empty_store_def al_wf_def keys_ok_def)
next
  case (reach_step c c')
  from reach_step(2) show ?case
  proof cases
    case (sys_failure att run step kind detail)
    then show ?thesis using reach_step(3)
      by (auto simp: set_attempt_failure_def stamp_attempt_locked_def modify_step_def keys_ok_def split: option.splits)
  next
    case (sys_commit st')
    then show ?thesis using reach_step(3) commit_op_keys by simp
  qed (use reach_step in auto)
qed

lemma reachable_services: "reachable c \<Longrightarrow> al_wf (st_services (cf_store c))"
  using reachable_keys by (simp add: keys_ok_def)

section \<open>A run transition that lands\<close>

lemma commit_run_held:
  assumes "holds_leader_term_if st l" "run_status_of run st = Some fr"
  shows "benign (commit_run l run fr to now notify intents journal) st =
    (Inr (), enqueue_all (intents @ (if notify then status_posts run fr to (run_reopen_generation run st) now else []))
       (append_events (journal @ [event run (RunTransitioned fr to) now]) (put_run run fr to st)))"
  using assms by (simp add: benign_def commit_run_def commitP_def commit_run_transition_after_def commit_run_transition_def
      run_status_of_def current_run_status_def)

lemma transition_run_held:
  assumes "holds_leader_term_if st (sc_leader sc)" "run_status_of run st = Some fr"
  obtains st' where "transition_run sc run fr to st = (Inr (), st')" "st_runs st' = al_put run to (st_runs st)"
    "st_steps st' = st_steps st" "st_slots st' = st_slots st" "st_concurrency st' = st_concurrency st" "st_leases st' = st_leases st"
    "st_services st' = st_services st" "st_events st' = st_events st @ [event run (RunTransitioned fr to) (sc_clk sc st)]"
  by (rule that [of "snd (transition_run sc run fr to st)"])
     (use commit_run_held [OF assms, of to "sc_clk sc st" True "[]" "[]"] in \<open>simp_all add: transition_run_def mapErrP_def\<close>)

lemma release_slot_frees:
  "release_run_slot run st = (Inr (), st') \<Longrightarrow> st_steps st' = st_steps st \<and> st_runs st' = st_runs st
     \<and> st_events st' = st_events st \<and> st_services st' = st_services st \<and> st_outbox st' = st_outbox st
     \<and> (\<forall>grp p. st_concurrency st run = Some (grp, p) \<longrightarrow> st_slots st' grp \<noteq> Some run)"
  by (auto simp: release_run_slot_def writeP_def returnP_def release_slot_def split: option.splits if_splits)

lemma release_slot_total: "\<exists>st'. release_run_slot run st = (Inr (), st')"
  by (auto simp: release_run_slot_def writeP_def returnP_def split: option.splits)

lemma run_inactive: "run_status_of run st = Some x \<Longrightarrow> run_is_terminal x \<Longrightarrow> al_wf (st_runs st) \<Longrightarrow> run \<notin> set (active_runs st)"
  by (auto simp: active_runs_def Let_def run_status_of_def al_wf_def dest: eq_key_imp_eq_value)

section \<open>Concrete runs\<close>

definition demo_exec :: executor where
  "demo_exec = \<lparr>ex_cancel = \<lambda>_ _. Inr (), ex_torn_down = \<lambda>_ _. Inr True, ex_unit_handle = \<lambda>_. None,
     ex_teardown_service = \<lambda>_ _. Inr (), ex_gate_refusal = \<lambda>_ _. Inr None, ex_launch = \<lambda>_ _ _. Inr ''unit'',
     ex_poll = \<lambda>_ _. Inr ExSucceeded, ex_output = \<lambda>_ _. Inr (Some ''root''), ex_output_identity = \<lambda>_ _. Inr None,
     ex_results = \<lambda>_ _. Inr [], ex_artifacts = \<lambda>_ _. Inr [], ex_cache_saves = \<lambda>_ _. Inr None,
     ex_provisioning = \<lambda>_ _. Inr None, ex_launch_service = \<lambda>_ _ _ _ _. Inr ''service'', ex_service_ready = \<lambda>_ _. Inr True\<rparr>"

definition demo_sched :: "timestamp \<Rightarrow> sched" where
  "demo_sched now = \<lparr>sc_clk = \<lambda>_. now, sc_exec = demo_exec, sc_owner = ''a'', sc_cfg = default_config, sc_leader = None,
     sc_show = \<lambda>_. [], sc_nonce = \<lambda>_. ''00'', sc_decode_error = \<lambda>_. [], sc_instant = \<lambda>_. now\<rparr>"

text \<open>The step of \<open>demo_live\<close> has succeeded; and its run is running, with a budget of one second, in a
  concurrency group.\<close>

definition demo_done :: store where
  "demo_done = snd (succeed_step (\<lambda>_. 9) ''r'' ''build'' (attempt_name 1) demo_live)"

definition demo_running :: store where
  "demo_running = snd (commit_run None ''r'' RPending RRunning 3 True [] []
     (store_run_ir ''r'' (JObj [(''budget'', JInt 1)]) (set_run_concurrency ''r'' ''g'' Queue demo_live)))"

lemma later_reachable: "later_cfg c c' \<Longrightarrow> reachable c \<Longrightarrow> reachable c'"
  by (induction rule: later_cfg.induct) (auto intro: reachable.intros)

lemma runs_as_reachable:
  assumes "runs_as {} (cf_store c) st'" "reachable c"
  shows "\<exists>c'. reachable c' \<and> cf_store c' = st'"
  using runs_reachable [OF assms(1)] later_reachable assms(2) by blast

lemma demo_done_reachable: "\<exists>c. reachable c \<and> cf_store c = demo_done"
  unfolding demo_done_def by (rule runs_as_reachable [OF _ demo_live_reachable]) (simp add: runs_succeed)

lemma demo_running_reachable: "\<exists>c. reachable c \<and> cf_store c = demo_running"
  unfolding demo_running_def
  by (rule runs_as_reachable [OF _ demo_live_reachable])
     (simp, rule runs_trans [OF runs_trans [OF runs_aux [OF aux_concurrency] runs_aux [OF aux_ir]] runs_commit_run])

lemma demo_done_tables:
  "st_steps demo_done = [((''r'', ''build''), demo_row SSucceeded [demo_attempt AOSucceeded])]" "st_runs demo_done = st_runs demo_live"
  using demo_live_fresh
  by (simp_all add: demo_done_def succeed_step_def finalize_step_def benign_commitP mapErrP_def finalize_commit_def finalize_stamp_def
      commit_step_transition_def check_step_transition_def demo_live_tables demo_claimed_tables frontier_ok_def latest_attempt_def
      stamp_rec_def stamp_attempt_def demo_attempt_def new_step_rec_def split: sum.splits)

lemma demo_done_read: "\<exists>s. steps_of_run ''r'' demo_done = [s] \<and> sr_status s = SSucceeded"
  by (simp add: steps_of_run_def demo_done_tables List.map_filter_def step_run_of_def new_step_rec_def)

lemma demo_running_tables:
  "run_status_of ''r'' demo_running = Some RRunning" "st_ir demo_running ''r'' = Some (JObj [(''budget'', JInt 1)])"
  "events_of ''r'' demo_running = events_of ''r'' demo_live @ [event ''r'' (RunTransitioned RPending RRunning) 3]"
proof -
  let ?st = "store_run_ir ''r'' (JObj [(''budget'', JInt 1)]) (set_run_concurrency ''r'' ''g'' Queue demo_live)"
  have "run_status_of ''r'' ?st = Some RPending" by (simp add: run_status_of_def store_run_ir_def set_run_concurrency_def demo_live_tables)
  note hit = commit_run_hit [OF this, of RRunning 3 True "[]" "[]"]
  show "run_status_of ''r'' demo_running = Some RRunning" "st_ir demo_running ''r'' = Some (JObj [(''budget'', JInt 1)])"
    "events_of ''r'' demo_running = events_of ''r'' demo_live @ [event ''r'' (RunTransitioned RPending RRunning) 3]"
    unfolding demo_running_def hit by (simp_all add: run_status_of_def events_of_def) (simp_all add: store_run_ir_def set_run_concurrency_def)
qed

text \<open>Dead-lettering an open run: the tidying may fail, the ending may not.\<close>

lemma dead_letter_effect:
  assumes "reachable c" "holds_leader_term_if (cf_store c) (sc_leader sc)"
    and "run_status_of run (cf_store c) = Some current" "\<not> run_is_terminal current"
  shows "\<exists>st' suffix es t t'. dead_letter_run sc run reason (cf_store c) = (Inr (), st')
    \<and> run_status_of run st' = Some RDeadLettered
    \<and> (\<forall>grp p. st_concurrency (cf_store c) run = Some (grp, p) \<longrightarrow> st_slots st' grp \<noteq> Some run)
    \<and> st_events st' = es @ [event run (RunDeadLettered (reason @ suffix)) t, event run (RunTransitioned current RDeadLettered) t']
    \<and> (\<forall>s \<in> set (steps_of_run run st'). step_is_terminal (sr_status s))"
proof -
  let ?st = "cf_store c" and ?now = "sc_clk sc (cf_store c)"
  obtain st1 where st1: "cancel_live_steps sc run ?now ?st = (Inr (), st1)"
    "touches ((\<lambda>s. (run, sr_step s)) ` set (steps_of_run run ?st)) ?st st1"
    "\<And>s. s \<in> set (steps_of_run run st1) \<Longrightarrow> step_is_terminal (sr_status s)"
    using cancel_live_ok [OF reachable_store [OF assms(1)]] by metis
  obtain r st2 where st2: "teardown_services sc run st1 = (r, st2)" "beside_services st1 st2"
    using teardown_beside [of st1 sc run] by (metis prod.collapse)
  define suffix where "suffix = (case r of Inl e \<Rightarrow> cleanup_failed (sc_show sc e) | Inr _ \<Rightarrow> [])"
  define st3 where "st3 = append_events [event run (RunDeadLettered (reason @ suffix)) ?now] st2"
  have cleanup: "bindP (cancel_live_steps sc run ?now) (\<lambda>_. teardown_services sc run) ?st = (r, st2)"
    using st1(1) st2(1) by (simp add: bindP_def)
  have same: "st_leases st3 = st_leases ?st" "st_runs st3 = st_runs ?st" "st_concurrency st3 = st_concurrency ?st"
    "st_steps st3 = st_steps st1"
    using st1(2) beside_services_sel [OF st2(2)] by (simp_all add: st3_def touches_def)
  have h: "holds_leader_term_if st3 (sc_leader sc)" "run_status_of run st3 = Some current"
    using assms(2,3) holds_cong [OF same(1), of "sc_leader sc"] same(2) by (simp_all add: run_status_of_def)
  obtain st4 where st4: "transition_run sc run current RDeadLettered st3 = (Inr (), st4)"
      "st_runs st4 = al_put run RDeadLettered (st_runs st3)" "st_steps st4 = st_steps st3"
      "st_slots st4 = st_slots st3" "st_concurrency st4 = st_concurrency st3" "st_leases st4 = st_leases st3"
      "st_services st4 = st_services st3"
      "st_events st4 = st_events st3 @ [event run (RunTransitioned current RDeadLettered) (sc_clk sc st3)]"
    by (rule transition_run_held [OF h])
  obtain st' where st': "release_run_slot run st4 = (Inr (), st')" using release_slot_total by blast
  note rel = release_slot_frees [OF st']
  have "dead_letter_run sc run reason ?st = (Inr (), st')"
    using assms(3,4) st' st4(1)
    by (simp add: dead_letter_run_def cleanup suffix_def [symmetric] append_log_def append_eventP_def st3_def [symmetric]) (simp add: bindP_def)
  moreover have "steps_of_run run st' = steps_of_run run st1" using rel st4(3) same(4) by (intro steps_of_run_cong) simp
  ultimately show ?thesis
    using rel st4 same st1(3)
    by (intro exI [of _ st'] exI [of _ suffix] exI [of _ "st_events st2"] exI [of _ ?now] exI [of _ "sc_clk sc st3"])
       (simp add: run_status_of_def st3_def)
qed

section \<open>Properties\<close>

text \<open>C12: a run settles when its last step has ended, with the right verdict. From any reachable
  configuration, with the leader's term held and an executor that accepts teardowns: when every step
  of an open run is terminal, the pass ends the run \<open>DeadLettered\<close> if some failed step's last attempt ended
  without a verdict (infrastructure or lost), else \<open>Failed\<close> if a step failed or was cancelled, else
  \<open>Succeeded\<close>; its services are torn down and its slot is free. In every other case (a live step, no
  step, a run that has ended or is unknown) the pass changes nothing.\<close>

theorem advance_settles:
  assumes "reachable c" "holds_leader_term_if (cf_store c) (sc_leader sc)"
    and "\<And>h t. ex_teardown_service (sc_exec sc) h t = Inr ()"
  shows "\<exists>st'. advance sc run (cf_store c) = (Inr (), st') \<and> st_steps st' = st_steps (cf_store c)
    \<and> (if steps_of_run run (cf_store c) \<noteq> [] \<and> (\<forall>s \<in> set (steps_of_run run (cf_store c)). step_is_terminal (sr_status s))
           \<and> (\<exists>x. run_status_of run (cf_store c) = Some x \<and> \<not> run_is_terminal x)
       then run_status_of run st' = Some
           (if \<exists>s \<in> set (steps_of_run run (cf_store c)). sr_status s = SFailed \<and>
                  (\<exists>a. last_opt (sr_attempts s) = Some a \<and> at_failure a \<in> {Some (FInfra True), Some (FInfra False), Some FLost})
            then RDeadLettered
            else if \<exists>s \<in> set (steps_of_run run (cf_store c)). sr_status s \<in> {SFailed, SCancelled} then RFailed else RSucceeded)
         \<and> (\<forall>sv \<in> set (run_services run st'). service_status_is_terminal (sv_status sv))
         \<and> (\<forall>grp p. st_concurrency (cf_store c) run = Some (grp, p) \<longrightarrow> st_slots st' grp \<noteq> Some run)
       else st' = cf_store c)"
proof -
  let ?st = "cf_store c" and ?steps = "steps_of_run run (cf_store c)"
  have dead: "List.map_filter dead_reason ?steps \<noteq> [] \<longleftrightarrow> (\<exists>s \<in> set ?steps. sr_status s = SFailed \<and>
      (\<exists>a. last_opt (sr_attempts s) = Some a \<and> at_failure a \<in> {Some (FInfra True), Some (FInfra False), Some FLost}))"
  proof -
    have "List.map_filter dead_reason ?steps \<noteq> [] \<longleftrightarrow> (\<exists>s \<in> set ?steps. dead_reason s \<noteq> None)"
      by (auto simp: List.map_filter_def filter_empty_conv)
    moreover have "dead_reason s \<noteq> None \<longleftrightarrow> sr_status s = SFailed \<and>
      (\<exists>a. last_opt (sr_attempts s) = Some a \<and> at_failure a \<in> {Some (FInfra True), Some (FInfra False), Some FLost})" for s
      by (auto simp: dead_reason_def verdictless_def split: option.splits failure_kind.splits)
    ultimately show ?thesis by blast
  qed
  show ?thesis
  proof (cases "?steps \<noteq> [] \<and> (\<forall>s \<in> set ?steps. step_is_terminal (sr_status s)) \<and> (\<exists>x. run_status_of run ?st = Some x \<and> \<not> run_is_terminal x)")
    case False
    then have "advance sc run ?st = (Inr (), ?st)"
      by (auto simp: advance_def returnP_def list_all_iff split: option.splits)
    then show ?thesis unfolding if_not_P [OF False] by simp
  next
    case True
    then obtain cur where cur: "run_status_of run ?st = Some cur" "\<not> run_is_terminal cur" by blast
    define st0 where "st0 = (if run_outcome ?steps = RDeadLettered
        then append_events [event run (RunDeadLettered (join_with ''; '' (List.map_filter dead_reason ?steps))) (sc_clk sc ?st)] ?st else ?st)"
    have st0: "holds_leader_term_if st0 (sc_leader sc)" "run_status_of run st0 = Some cur" "st_steps st0 = st_steps ?st"
      "st_services st0 = st_services ?st" "st_concurrency st0 = st_concurrency ?st"
      using assms(2) cur(1) holds_cong [of st0 ?st] by (auto simp: st0_def run_status_of_def)
    obtain st1 where st1: "transition_run sc run cur (run_outcome ?steps) st0 = (Inr (), st1)"
      "st_runs st1 = al_put run (run_outcome ?steps) (st_runs st0)" "st_steps st1 = st_steps st0"
      "st_slots st1 = st_slots st0" "st_concurrency st1 = st_concurrency st0" "st_leases st1 = st_leases st0"
      "st_services st1 = st_services st0"
      "st_events st1 = st_events st0 @ [event run (RunTransitioned cur (run_outcome ?steps)) (sc_clk sc st0)]"
      by (rule transition_run_held [OF st0(1,2)])
    have "holds_leader_term_if st1 (sc_leader sc)" "al_wf (st_services st1)"
      using st0(1,4) st1(7) holds_cong [OF st1(6), of "sc_leader sc"] reachable_services [OF assms(1)] by simp_all
    from teardown_ok [OF this(1) assms(3) this(2), of run] obtain st2 where
      st2: "teardown_services sc run st1 = (Inr (), st2)" "beside_services st1 st2"
      "\<forall>sv \<in> set (run_services run st2). service_status_is_terminal (sv_status sv)"
      using teardown_beside [of st1 sc run] by (metis prod.collapse)
    obtain st' where st': "release_run_slot run st2 = (Inr (), st')" using release_slot_total by blast
    note rel = release_slot_frees [OF st']
    have "(if run_outcome ?steps = RDeadLettered
        then bindP (readP (sc_clk sc)) (append_log run (RunDeadLettered (join_with ''; '' (List.map_filter dead_reason ?steps))))
        else returnP ()) ?st = (Inr (), st0)"
      by (simp add: st0_def append_log_def append_eventP_def writeP_def returnP_def)
    then have "advance sc run ?st = (Inr (), st')"
      using True cur st1(1) st2(1) st' unfolding advance_def
      by (simp add: list_all_iff bindP_def [of "if run_outcome _ = _ then _ else _"]) (simp add: bindP_def)
    moreover have "run_status_of run st' = Some (run_outcome ?steps)"
      using rel st2(2) st1(2) beside_services_sel(2) by (simp add: run_status_of_def)
    moreover have "run_services run st' = run_services run st2" using rel by (simp add: run_services_def)
    moreover have "st_steps st' = st_steps ?st" "st_concurrency st2 = st_concurrency ?st"
      using rel st0 st1 beside_services_sel [OF st2(2)] by simp_all
    moreover have "run_outcome ?steps = (if \<exists>s \<in> set ?steps. sr_status s = SFailed \<and>
                  (\<exists>a. last_opt (sr_attempts s) = Some a \<and> at_failure a \<in> {Some (FInfra True), Some (FInfra False), Some FLost})
            then RDeadLettered
            else if \<exists>s \<in> set ?steps. sr_status s \<in> {SFailed, SCancelled} then RFailed else RSucceeded)"
      unfolding run_outcome_def dead by (simp add: list_ex_iff)
    ultimately show ?thesis unfolding if_P [OF True] using rel st2(3) by (intro exI [of _ st']) simp
  qed
qed

theorem advance_settles_witness:
  "\<exists>st'. advance (demo_sched 20) ''r'' demo_done = (Inr (), st') \<and> run_status_of ''r'' st' = Some RSucceeded"
proof -
  obtain c where c: "reachable c" "cf_store c = demo_done" using demo_done_reachable by blast
  have "run_status_of ''r'' demo_done = Some RPending" by (simp add: run_status_of_def demo_done_tables demo_live_tables)
  with advance_settles [OF c(1), of "demo_sched 20" "''r''"] demo_done_read show ?thesis
    unfolding c(2) by (auto simp: demo_sched_def demo_exec_def holds_leader_term_if_def)
qed

text \<open>A run that is dead-lettered ends. Whatever the executor answers, and whether or not the tidying
  of its steps and services fails half way, dead-lettering an open run of any reachable configuration
  under a held term returns, leaves the run \<open>DeadLettered\<close> with its slot free, and journals exactly one
  \<open>RunDeadLettered\<close> whose reason starts with the one given: the fault being escaped cannot block the
  escape.\<close>

theorem dead_letter_ends:
  assumes "reachable c" "holds_leader_term_if (cf_store c) (sc_leader sc)"
    and "run_status_of run (cf_store c) = Some current" "\<not> run_is_terminal current"
  shows "\<exists>st' suffix es t t'. dead_letter_run sc run reason (cf_store c) = (Inr (), st')
    \<and> run_status_of run st' = Some RDeadLettered
    \<and> (\<forall>grp p. st_concurrency (cf_store c) run = Some (grp, p) \<longrightarrow> st_slots st' grp \<noteq> Some run)
    \<and> st_events st' = es @ [event run (RunDeadLettered (reason @ suffix)) t, event run (RunTransitioned current RDeadLettered) t']
    \<and> (\<forall>s \<in> set (steps_of_run run st'). step_is_terminal (sr_status s))"
  by (rule dead_letter_effect [OF assms])

theorem dead_letter_ends_witness:
  "\<exists>st'. dead_letter_run (demo_sched 20) ''r'' ''poison'' demo_live = (Inr (), st') \<and> run_status_of ''r'' st' = Some RDeadLettered"
  using dead_letter_ends [OF demo_live_reachable, of "demo_sched 20" "''r''" RPending "''poison''"]
  by (fastforce simp: demo_sched_def holds_leader_term_if_def run_status_of_def demo_live_tables)



text \<open>C14: the passes are made of the system's transactions. Settling, cancelling, dead-lettering and
  charging a run, ending the gates nobody needs, and settling an attempt, started in any
  configuration, leave the store of a configuration the system reaches from there by single
  transactions: the properties of reachable configurations hold after every pass.\<close>

theorem passes_refine_steps:
  assumes "run_id_ok run" "\<And>st. CHR ''/'' \<notin> set (sc_nonce sc st)"
    and "st' \<in> {snd (advance sc run (cf_store c)), snd (cancel_run sc run (cf_store c)),
      snd (dead_letter_run sc run reason (cf_store c)), snd (enforce_run_budget sc run (cf_store c)),
      snd (settle_unneeded_gates sc run (cf_store c)), snd (succeed_step clk run step att (cf_store c)),
      snd (settle_failed_attempt clk run step att kind cause (cf_store c))}"
  shows "\<exists>c'. later_cfg c c' \<and> cf_store c' = st'"
  using assms(3) runs_advance runs_cancel_run [OF assms(1,2)] runs_dead_letter runs_budget runs_unneeded runs_succeed runs_settle
  by (intro runs_reachable) auto


theorem passes_refine_steps_witness:
  "\<exists>c'. later_cfg \<lparr>cf_store = demo_live, cf_seen = {}, cf_settled = {}\<rparr> c'
     \<and> cf_store c' = snd (cancel_run (demo_sched 5) ''r'' demo_live)"
  using passes_refine_steps [of "''r''" "demo_sched 5" "snd (cancel_run (demo_sched 5) ''r'' demo_live)"
      "\<lparr>cf_store = demo_live, cf_seen = {}, cf_settled = {}\<rparr>"]
  by (simp add: run_id_ok_def demo_sched_def)

end
