(* ===== verification/Teardown.thy ===== *)
theory Teardown
  imports Pass_Laws
begin

text \<open>
  The drain of teardown messages (\<^verbatim>\<open>crates/scarab-engine/src/scheduler.rs\<close>): the units of cancelled and
  superseded attempts are cancelled until the backend reports them gone, the services of a cancelled
  run are torn down, and a message that cannot make progress is abandoned after a bounded number of
  deliveries with a diagnostic in the run's log. Teardown is resource hygiene: it writes no run and no
  step.
\<close>

section \<open>One pass over the units of a message\<close>

datatype teardown_pass =
    TPGone
  | TPStillTerminating string
  | TPLaunching string
  | TPFailed exec_error

definition absorb :: "exec_error + bool \<Rightarrow> string \<Rightarrow> teardown_pass \<Rightarrow> teardown_pass" where
  "absorb unit handle pass =
     (case unit of
        Inr True \<Rightarrow> pass
      | Inr False \<Rightarrow> (if pass = TPGone then TPStillTerminating handle else pass)
      | Inl e \<Rightarrow> TPFailed e)"

definition launching :: "string \<Rightarrow> teardown_pass \<Rightarrow> teardown_pass" where
  "launching launch pass = (if pass = TPGone then TPLaunching launch else pass)"

definition cancel_until_gone :: "sched \<Rightarrow> string \<Rightarrow> store \<Rightarrow> exec_error + bool" where
  "cancel_until_gone sc handle st =
     (case ex_cancel (sc_exec sc) handle st of
        Inl e \<Rightarrow> Inl e
      | Inr _ \<Rightarrow> ex_torn_down (sc_exec sc) handle st)"

definition teardown_unit ::
  "sched \<Rightarrow> run_id \<Rightarrow> store \<Rightarrow> teardown_pass \<Rightarrow> teardown_attempt \<Rightarrow> teardown_pass" where
  "teardown_unit sc run st pass td =
     (case st_handles st (run, td_step td, td_attempt td) of
        Some h \<Rightarrow> absorb (cancel_until_gone sc h st) h pass
      | None \<Rightarrow>
          (let launch = launch_key run (td_step td) (td_attempt td) in
           if outbox_key_pending launch st then launching launch pass else pass))"

section \<open>Settling a message\<close>

definition max_str :: string where "max_str = nat_str MAX_DELIVERY_ATTEMPTS"

definition teardown_why :: "sched \<Rightarrow> teardown_pass \<Rightarrow> string" where
  "teardown_why sc pass =
     (case pass of
        TPGone \<Rightarrow> []
      | TPStillTerminating handle \<Rightarrow>
          ''`'' @ handle @ ''` was still terminating after '' @ max_str @ '' checks '' @ dash @ '' every '' @
          ''cancel was accepted, but the backend never reported the unit gone (a '' @
          ''termination grace longer than the retry window, or an unreachable node); '' @
          ''the teardown is abandoned, so the unit may still be running (fencing keeps run state correct)''
      | TPLaunching launch \<Rightarrow>
          ''`'' @ launch @ ''` was still pending after '' @ max_str @ '' checks '' @ dash @ '' an attempt '' @
          ''to tear down had no unit recorded while its launch could still create one; '' @
          ''the teardown is abandoned, so a unit that launch creates may run on (fencing keeps run state correct)''
      | TPFailed e \<Rightarrow>
          ''Pod teardown failed '' @ max_str @ '' times and was abandoned; the '' @
          ''backend unit may be orphaned (fencing keeps run state correct): '' @ sc_show sc (SchedExec e))"

definition teardown_abandoned :: "outbox_message \<Rightarrow> string \<Rightarrow> event_payload" where
  "teardown_abandoned msg reason =
     RawEvent (JObj [(''event'', JStr ''TeardownAbandoned''), (''outbox_id'', JInt (om_id msg)),
                     (''outbox_kind'', JStr (om_kind msg)), (''reason'', JStr reason)])"

text \<open>The tail that \<^verbatim>\<open>settle_teardown\<close> and \<^verbatim>\<open>abandon_poison_message\<close> share.\<close>

definition count_failure :: "sched \<Rightarrow> outbox_message \<Rightarrow> string \<Rightarrow> unit sched_prog" where
  "count_failure sc msg why =
     bindP (mapErrP SchedDb (record_outbox_failure (om_id msg))) (\<lambda>failures.
     if MAX_DELIVERY_ATTEMPTS \<le> failures then
       bindP (writeP (dead_letter_outbox (om_id msg))) (\<lambda>_.
       bindP (readP (sc_clk sc)) (\<lambda>now.
       append_log (om_run msg) (teardown_abandoned msg why) now))
     else returnP ())"

definition settle_teardown :: "sched \<Rightarrow> outbox_message \<Rightarrow> teardown_pass \<Rightarrow> unit sched_prog" where
  "settle_teardown sc msg outcome =
     (if outcome = TPGone then writeP (mark_dispatched (om_id msg))
      else count_failure sc msg (teardown_why sc outcome))"

definition abandon_poison_message :: "sched \<Rightarrow> outbox_message \<Rightarrow> sched_error \<Rightarrow> unit sched_prog" where
  "abandon_poison_message sc msg e =
     count_failure sc msg
       (''teardown message could not be processed '' @ max_str @ '' times '' @
        ''and was abandoned; the backend unit may be orphaned (fencing keeps run '' @
        ''state correct): '' @ sc_show sc e)"

text \<open>One message of the drain: its processing, and what a processing error costs.\<close>

definition isolate_message ::
  "sched \<Rightarrow> outbox_message \<Rightarrow> unit sched_prog \<Rightarrow> unit sched_prog" where
  "isolate_message sc msg process st =
     (case process st of
        (Inl e, st') \<Rightarrow> abandon_poison_message sc msg e st'
      | (Inr _, st') \<Rightarrow> (Inr (), st'))"

definition process_attempt_teardown :: "sched \<Rightarrow> outbox_message \<Rightarrow> unit sched_prog" where
  "process_attempt_teardown sc msg =
     (case om_payload msg of
        AttemptTeardown tds \<Rightarrow>
          bindP (readP (\<lambda>st. foldl (teardown_unit sc (om_run msg) st) TPGone tds)) (settle_teardown sc msg)
      | p \<Rightarrow> throwP (BadPayload (sc_decode_error sc p)))"

definition claim_kind :: "sched \<Rightarrow> string \<Rightarrow> outbox_message list sched_prog" where
  "claim_kind sc kind =
     bindP (readP (sc_instant sc)) (\<lambda>now.
     mapErrP SchedDb (claim_outbox now (sc_owner sc) (Some kind) (cfg_outbox_batch (sc_cfg sc))
       (cfg_outbox_visibility_ms (sc_cfg sc))))"

definition drain_attempt_teardowns :: "sched \<Rightarrow> string \<Rightarrow> unit sched_prog" where
  "drain_attempt_teardowns sc kind =
     bindP (claim_kind sc kind) (\<lambda>msgs.
     forP msgs (\<lambda>msg. isolate_message sc msg (process_attempt_teardown sc msg)))"

definition reconcile_supersessions :: "sched \<Rightarrow> unit sched_prog" where
  "reconcile_supersessions sc = drain_attempt_teardowns sc SUPERSEDE_TEARDOWN"

section \<open>Cancelled runs\<close>

text \<open>The handles a legacy message, written with a null payload, stands for: those of every attempt
  the cancel stamped.\<close>

definition cancelled_units :: "run_id \<Rightarrow> store \<Rightarrow> string list" where
  "cancelled_units run st =
     concat (map (\<lambda>s. List.map_filter (\<lambda>a. if at_outcome a = AOCancelled
          then st_handles st (run, sr_step s, at_id a) else None) (sr_attempts s)) (steps_of_run run st))"

definition through_take :: "payload \<Rightarrow> int option" where
  "through_take p =
     (case p of
        ServicesTeardown t \<Rightarrow> Some t
      | PayloadOther j \<Rightarrow> Option.bind (json_get ''through_take'' j) json_as_i64
      | _ \<Rightarrow> None)"

fun teardown_run_services ::
  "sched \<Rightarrow> run_id \<Rightarrow> bool \<Rightarrow> int option \<Rightarrow> run_service list \<Rightarrow> teardown_pass \<Rightarrow> teardown_pass sched_prog" where
  "teardown_run_services sc run live_again through [] outcome st = (Inr outcome, st)"
| "teardown_run_services sc run live_again through (svc # svcs) outcome st =
     (if service_status_is_terminal (sv_status svc)
         \<or> live_again \<and> (case through of Some t \<Rightarrow> t < sv_take svc | None \<Rightarrow> False)
      then teardown_run_services sc run live_again through svcs outcome st
      else
        (let answer = (case sv_handle svc of
                         Some h \<Rightarrow> (case ex_teardown_service (sc_exec sc) h st of Inl e \<Rightarrow> Some (h, e) | Inr _ \<Rightarrow> None)
                       | None \<Rightarrow> None)
         in case answer of
              Some (h, e) \<Rightarrow> teardown_run_services sc run live_again through svcs (absorb (Inl e) h outcome) st
            | None \<Rightarrow>
                bindP (mapErrP SchedDb (set_run_service None run (sv_take svc) (sv_name svc) SvTornDown None))
                  (\<lambda>_. teardown_run_services sc run live_again through svcs outcome) st))"

definition process_run_cancel :: "sched \<Rightarrow> outbox_message \<Rightarrow> unit sched_prog" where
  "process_run_cancel sc msg =
     bindP (readP (\<lambda>st. if om_payload msg = PayloadNull
         then foldl (\<lambda>pass h. absorb (cancel_until_gone sc h st) h pass) TPGone (cancelled_units (om_run msg) st)
         else TPGone)) (\<lambda>outcome.
     bindP (readP (run_status_of (om_run msg))) (\<lambda>status.
     bindP (readP (run_services (om_run msg))) (\<lambda>svcs.
     bindP (teardown_run_services sc (om_run msg) (case status of Some s \<Rightarrow> \<not> run_is_terminal s | None \<Rightarrow> False)
        (through_take (om_payload msg)) svcs outcome)
     (settle_teardown sc msg))))"

definition reconcile_cancellations :: "sched \<Rightarrow> unit sched_prog" where
  "reconcile_cancellations sc =
     bindP (drain_attempt_teardowns sc CANCEL_ATTEMPT) (\<lambda>_.
     bindP (claim_kind sc CANCEL_RUN) (\<lambda>msgs.
     forP msgs (\<lambda>msg. isolate_message sc msg (process_run_cancel sc msg))))"

section \<open>Late launches\<close>

definition launch_still_wanted :: "run_id \<Rightarrow> step_id \<Rightarrow> attempt_id \<Rightarrow> store \<Rightarrow> bool" where
  "launch_still_wanted run step att st =
     ((case find_step step (steps_of_run run st) of
         Some s \<Rightarrow> sr_status s = SRunning
           \<and> (case last_opt (sr_attempts s) of Some a \<Rightarrow> at_id a = att \<and> at_outcome a = AORunning | None \<Rightarrow> False)
       | None \<Rightarrow> False)
      \<and> (case run_status_of run st of Some s \<Rightarrow> \<not> run_is_terminal s | None \<Rightarrow> False))"

definition enqueue_late_launch_teardown :: "sched \<Rightarrow> run_id \<Rightarrow> step_id \<Rightarrow> attempt_id \<Rightarrow> unit sched_prog" where
  "enqueue_late_launch_teardown sc run step att =
     bindP (readP (sc_clk sc)) (\<lambda>now.
     let msg = cancel_attempt_intent run step att now in
     writeP (enqueue_outbox (msg\<lparr>om_idempotency_key := om_idempotency_key msg @ '':launch''\<rparr>)))"

definition adopt_unit_of_refused_launch :: "sched \<Rightarrow> run_id \<Rightarrow> step_id \<Rightarrow> attempt_id \<Rightarrow> unit sched_prog" where
  "adopt_unit_of_refused_launch sc run step att =
     (case ex_unit_handle (sc_exec sc)
             \<lparr>sr_run = run, sr_step = step, sr_status = SRunning,
              sr_attempts = [\<lparr>at_id = att, at_started_at = 0, at_failure = None, at_failure_detail = None,
                              at_outcome = AORunning\<rparr>],
              sr_needs = [], sr_gate_kind = None\<rparr> of
        None \<Rightarrow> returnP ()
      | Some handle \<Rightarrow>
          bindP (writeP (set_attempt_handle run step att handle)) (\<lambda>_.
          enqueue_late_launch_teardown sc run step att))"

section \<open>When the units of a message are gone\<close>

definition unit_gone :: "sched \<Rightarrow> run_id \<Rightarrow> store \<Rightarrow> teardown_attempt \<Rightarrow> bool" where
  "unit_gone sc run st td =
     (case st_handles st (run, td_step td, td_attempt td) of
        Some h \<Rightarrow> cancel_until_gone sc h st = Inr True
      | None \<Rightarrow> \<not> outbox_key_pending (launch_key run (td_step td) (td_attempt td)) st)"

lemma teardown_unit_gone:
  "teardown_unit sc run st pass td = TPGone \<longleftrightarrow> pass = TPGone \<and> unit_gone sc run st td"
  by (auto simp: teardown_unit_def unit_gone_def absorb_def launching_def Let_def split: option.splits sum.splits bool.splits)

lemma teardown_units_gone:
  "foldl (teardown_unit sc run st) pass tds = TPGone \<longleftrightarrow> pass = TPGone \<and> (\<forall>td \<in> set tds. unit_gone sc run st td)"
  by (induction tds arbitrary: pass) (auto simp: teardown_unit_gone)

section \<open>What a delivery does to the message\<close>

lemma find_update_first:
  assumes "List.find P xs = Some e" "\<And>x. P (f x) = P x"
  shows "List.find P (update_first P f xs) = Some (f e)"
  using assms(1) by (induction xs) (auto simp: assms(2) split: if_splits)

lemma find_entry_update:
  assumes "find_entry i st = Some e" "\<And>x. oe_msg (f x) = oe_msg x"
  shows "List.find (\<lambda>e. om_id (oe_msg e) = i) (update_first (\<lambda>e. om_id (oe_msg e) = i) f (st_outbox st)) = Some (f e)"
  using assms by (intro find_update_first) (simp_all add: find_entry_def)

lemma find_entry_events [simp]: "find_entry i (append_events es st) = find_entry i st"
  by (simp add: find_entry_def)

lemma mark_dispatched_entry:
  "find_entry i st = Some e \<Longrightarrow> find_entry i (mark_dispatched i st) = Some (e\<lparr>oe_dispatched := True\<rparr>)"
  using find_entry_update [of i st e "\<lambda>e. e\<lparr>oe_dispatched := True\<rparr>"] by (simp add: find_entry_def mark_dispatched_def)

lemma dead_letter_entry:
  "find_entry i st = Some e \<Longrightarrow> find_entry i (dead_letter_outbox i st) = Some (e\<lparr>oe_dead_lettered := True\<rparr>)"
  using find_entry_update [of i st e "\<lambda>e. e\<lparr>oe_dead_lettered := True\<rparr>"] by (simp add: find_entry_def dead_letter_outbox_def)

lemma record_failure_entry:
  assumes "find_entry i st = Some e"
  obtains st' where "record_outbox_failure i st = (Inr (oe_delivery_attempts e + 1), st')"
    "find_entry i st' = Some (e\<lparr>oe_delivery_attempts := oe_delivery_attempts e + 1\<rparr>)"
    "st_events st' = st_events st" "st_steps st' = st_steps st" "st_runs st' = st_runs st"
  by (rule that [of "snd (record_outbox_failure i st)"])
     (use assms find_entry_update [OF assms, of "\<lambda>e. e\<lparr>oe_delivery_attempts := oe_delivery_attempts e + 1\<rparr>"]
        in \<open>simp_all add: record_outbox_failure_def find_entry_def\<close>)

text \<open>The diagnostic of an abandoned message, and the entry after a counted failure.\<close>

definition counted :: "outbox_entry \<Rightarrow> outbox_entry" where
  "counted e = e\<lparr>oe_delivery_attempts := oe_delivery_attempts e + 1,
                 oe_dead_lettered := oe_dead_lettered e \<or> MAX_DELIVERY_ATTEMPTS \<le> oe_delivery_attempts e + 1\<rparr>"

lemma count_failure_entry:
  assumes "find_entry (om_id msg) st = Some e"
  shows "\<exists>st' t. count_failure sc msg why st = (Inr (), st') \<and> find_entry (om_id msg) st' = Some (counted e)
    \<and> st_events st' = st_events st @ (if MAX_DELIVERY_ATTEMPTS \<le> oe_delivery_attempts e + 1
        then [event (om_run msg) (teardown_abandoned msg why) t] else [])
    \<and> st_steps st' = st_steps st \<and> st_runs st' = st_runs st"
proof -
  obtain st1 where st1: "record_outbox_failure (om_id msg) st = (Inr (oe_delivery_attempts e + 1), st1)"
    "find_entry (om_id msg) st1 = Some (e\<lparr>oe_delivery_attempts := oe_delivery_attempts e + 1\<rparr>)"
    "st_events st1 = st_events st" "st_steps st1 = st_steps st" "st_runs st1 = st_runs st"
    by (rule record_failure_entry [OF assms])
  show ?thesis
  proof (cases "MAX_DELIVERY_ATTEMPTS \<le> oe_delivery_attempts e + 1")
    case True
    let ?st = "dead_letter_outbox (om_id msg) st1"
    have "count_failure sc msg why st =
        (Inr (), append_events [event (om_run msg) (teardown_abandoned msg why) (sc_clk sc ?st)] ?st)"
      using True st1(1)
      by (simp add: count_failure_def bindP_def mapErrP_def writeP_def readP_def append_log_def append_eventP_def)
    then show ?thesis using True st1 dead_letter_entry [OF st1(2)] by (auto simp: counted_def dead_letter_outbox_def)
  next
    case False
    then show ?thesis using st1 by (simp add: count_failure_def bindP_def mapErrP_def returnP_def counted_def)
  qed
qed

lemma attempt_delivery:
  assumes "find_entry (om_id msg) st = Some e" "om_payload msg = AttemptTeardown tds"
  shows "\<exists>st' why t. isolate_message sc msg (process_attempt_teardown sc msg) st = (Inr (), st')
    \<and> find_entry (om_id msg) st' = Some (if \<forall>td \<in> set tds. unit_gone sc (om_run msg) st td then e\<lparr>oe_dispatched := True\<rparr> else counted e)
    \<and> st_events st' = st_events st @ (if \<not> (\<forall>td \<in> set tds. unit_gone sc (om_run msg) st td) \<and> MAX_DELIVERY_ATTEMPTS \<le> oe_delivery_attempts e + 1
        then [event (om_run msg) (teardown_abandoned msg why) t] else [])
    \<and> st_steps st' = st_steps st \<and> st_runs st' = st_runs st"
proof (cases "\<forall>td \<in> set tds. unit_gone sc (om_run msg) st td")
  case True
  then have "isolate_message sc msg (process_attempt_teardown sc msg) st = (Inr (), mark_dispatched (om_id msg) st)"
    using assms(2) teardown_units_gone [of sc "om_run msg" st TPGone tds]
    by (simp add: isolate_message_def process_attempt_teardown_def settle_teardown_def writeP_def)
  then show ?thesis unfolding if_P [OF True]
    using True mark_dispatched_entry [OF assms(1)] by (auto simp: mark_dispatched_def)
next
  case False
  let ?pass = "foldl (teardown_unit sc (om_run msg) st) TPGone tds"
  have "isolate_message sc msg (process_attempt_teardown sc msg) st = count_failure sc msg (teardown_why sc ?pass) st"
    using assms(2) False teardown_units_gone [of sc "om_run msg" st TPGone tds]
      count_failure_entry [OF assms(1), of sc "teardown_why sc ?pass"]
    by (auto simp: isolate_message_def process_attempt_teardown_def settle_teardown_def)
  then show ?thesis unfolding if_not_P [OF False]
    using False count_failure_entry [OF assms(1), of sc "teardown_why sc ?pass"] by auto blast
qed

section \<open>Properties\<close>


definition demo_cancel :: outbox_message where
  "demo_cancel = (cancel_attempt_intent ''r'' ''build'' ''a1'' 5)\<lparr>om_id := 1\<rparr>"

lemma demo_cancel_entry: "\<exists>e. find_entry (om_id demo_cancel) (enqueue_outbox demo_cancel empty_store) = Some e"
  by (simp add: find_entry_def enqueue_outbox_def empty_store_def demo_cancel_def)


text \<open>A delivery of any message, decodable or not.\<close>

definition deliver :: "outbox_message \<Rightarrow> store \<Rightarrow> sched \<Rightarrow> store" where
  "deliver msg st sc = snd (isolate_message sc msg (process_attempt_teardown sc msg) st)"

definition closed_entry :: "outbox_entry \<Rightarrow> bool" where
  "closed_entry e \<longleftrightarrow> oe_dispatched e \<or> oe_dead_lettered e"

lemma deliver_counts:
  assumes "find_entry (om_id msg) st = Some e"
  shows "\<exists>e'. find_entry (om_id msg) (deliver msg st sc) = Some e' \<and> (closed_entry e \<longrightarrow> closed_entry e')
    \<and> (\<not> closed_entry e' \<longrightarrow> oe_delivery_attempts e' = oe_delivery_attempts e + 1 \<and> oe_delivery_attempts e' < MAX_DELIVERY_ATTEMPTS)"
proof (cases "\<exists>tds. om_payload msg = AttemptTeardown tds")
  case True
  then obtain tds where "om_payload msg = AttemptTeardown tds" by blast
  from attempt_delivery [OF assms this, of sc] show ?thesis
    by (auto simp: deliver_def closed_entry_def counted_def split: if_splits)
next
  case False
  then have "process_attempt_teardown sc msg st = (Inl (BadPayload (sc_decode_error sc (om_payload msg))), st)"
    by (auto simp: process_attempt_teardown_def throwP_def split: payload.splits)
  then obtain why where "isolate_message sc msg (process_attempt_teardown sc msg) st = count_failure sc msg why st"
    by (simp add: isolate_message_def abandon_poison_message_def)
  with count_failure_entry [OF assms, of sc why] show ?thesis
    by (fastforce simp: deliver_def closed_entry_def counted_def)
qed

text \<open>C16: no teardown is retried for ever. After ten deliveries of a message, decodable or not, by
  whatever drivers and with whatever answers of the backend, it is dispatched or dead-lettered, and no
  later claim of any replica takes it again.\<close>

theorem teardown_bounded:
  assumes "find_entry (om_id msg) st = Some e" "10 \<le> length drivers"
  shows "\<exists>e'. find_entry (om_id msg) (foldl (deliver msg) st drivers) = Some e'
    \<and> (oe_dispatched e' \<or> oe_dead_lettered e') \<and> \<not> claimable now kind e'"
proof -
  have "\<exists>e'. find_entry (om_id msg) (foldl (deliver msg) st drivers) = Some e'
      \<and> (\<not> closed_entry e' \<longrightarrow> oe_delivery_attempts e' = oe_delivery_attempts e + length drivers
           \<and> (drivers \<noteq> [] \<longrightarrow> oe_delivery_attempts e' < MAX_DELIVERY_ATTEMPTS))"
    using assms(1)
  proof (induction drivers rule: rev_induct)
    case (snoc sc drivers)
    then obtain e1 where e1: "find_entry (om_id msg) (foldl (deliver msg) st drivers) = Some e1"
      "\<not> closed_entry e1 \<longrightarrow> oe_delivery_attempts e1 = oe_delivery_attempts e + length drivers" by blast
    from deliver_counts [OF e1(1), of sc] show ?case using e1(2) by auto
  qed simp
  then show ?thesis using assms(2) by (fastforce simp: closed_entry_def claimable_def MAX_DELIVERY_ATTEMPTS_def)
qed

theorem teardown_bounded_witness:
  "\<exists>e'. find_entry 1 (foldl (deliver demo_cancel) (enqueue_outbox demo_cancel empty_store) (replicate 10 (demo_sched 7))) = Some e'
     \<and> \<not> claimable 9 None e'"
proof -
  obtain e where "find_entry (om_id demo_cancel) (enqueue_outbox demo_cancel empty_store) = Some e" using demo_cancel_entry by blast
  from teardown_bounded [OF this, of "replicate 10 (demo_sched 7)" 9 None] show ?thesis by (auto simp: demo_cancel_def)
qed

end
