(* ===== verification/Admission.thy ===== *)
theory Admission
  imports Teardown
begin

text \<open>
  The leader's legs of a cycle (\<^verbatim>\<open>crates/scarab-engine/src/scheduler.rs\<close>): taking the lease, evaluating the
  waiting gates of a run, admitting its steps (starting a pending run under its caps and its
  concurrency slot, promoting, skipping or failing the pending steps, claiming and launching the
  ready ones, suspending a run that only waits), sweeping runs whose creation never finished, and the
  bound on a run whose cycle keeps failing.

  \<open>render\<close> stands for the renderer of a plugin gate's inputs (\<^verbatim>\<open>render_gate_inputs\<close>): a value, or the
  reason it does not render.
\<close>

section \<open>Leadership\<close>

definition SCHEDULER_LEASE :: string where "SCHEDULER_LEASE = ''scheduler''"

definition leader_term_now :: "sched \<Rightarrow> leader_term option sched_prog" where
  "leader_term_now sc =
     bindP (readP (sc_instant sc)) (\<lambda>now.
     bindP (mapErrP SchedDb (lease now SCHEDULER_LEASE (sc_owner sc) (cfg_lease_ttl_ms (sc_cfg sc)))) (\<lambda>l.
     returnP (held_by l SCHEDULER_LEASE (sc_owner sc))))"

definition as_leader :: "leader_term \<Rightarrow> sched \<Rightarrow> sched" where
  "as_leader term' sc = sc\<lparr>sc_leader := Some term'\<rparr>"

datatype leg = LegDone | LegDeferred

definition leader_leg :: "unit sched_prog \<Rightarrow> leg sched_prog" where
  "leader_leg m st =
     (case m st of
        (Inr _, st') \<Rightarrow> (Inr LegDone, st')
      | (Inl (SchedDb NotLeader), st') \<Rightarrow> (Inr LegDone, st')
      | (Inl (SchedDb FenceTimeout), st') \<Rightarrow> (Inr LegDeferred, st')
      | (Inl e, st') \<Rightarrow> (Inl e, st'))"

section \<open>Waiting gates\<close>

type_synonym renderer = "run_id \<Rightarrow> step_id \<Rightarrow> step_id list \<Rightarrow> store \<Rightarrow> string + json"
type_synonym gate_cache = "event_kind list option \<times> (string \<times> gate_settings) list option"

definition needs_succeeded :: "step_run list \<Rightarrow> step_run \<Rightarrow> bool" where
  "needs_succeeded steps step =
     list_all (\<lambda>d. map_option sr_status (by_id_map steps d) = Some SSucceeded) (sr_needs step)"

definition cached :: "'a option \<Rightarrow> (store \<Rightarrow> 'a) \<Rightarrow> store \<Rightarrow> 'a" where
  "cached c f st = (case c of Some x \<Rightarrow> x | None \<Rightarrow> f st)"

definition resolve_waiting ::
  "sched \<Rightarrow> run_id \<Rightarrow> step_run \<Rightarrow> attempt_id \<Rightarrow> gate_verdict \<Rightarrow> unit sched_prog" where
  "resolve_waiting sc run gate att verdict =
     bindP (mapErrP SchedDb (resolve_gate (sc_clk sc) run gate verdict None (Some att))) (\<lambda>_. returnP ())"

text \<open>The open attempt of a reached gate, minted when there is none; the log is read to mint.\<close>

definition gate_attempt ::
  "sched \<Rightarrow> leader_term \<Rightarrow> run_id \<Rightarrow> step_run \<Rightarrow> event_kind list option
     \<Rightarrow> (attempt option \<times> event_kind list option) sched_prog" where
  "gate_attempt sc leader run gate events =
     (case open_gate_attempt gate of
        Some a \<Rightarrow> returnP (Some a, events)
      | None \<Rightarrow>
          bindP (readP (cached events (events_of run))) (\<lambda>log.
          bindP (readP (sc_clk sc)) (\<lambda>now.
          bindP (mapErrP SchedDb (open_gate_wait leader run (sr_step gate) (wait_began_at log gate now) now)) (\<lambda>a.
          returnP (a, Some log)))))"

text \<open>The inputs of a plugin gate's wait: stored once; \<open>False\<close> when they do not render and the gate was
  resolved instead.\<close>

definition gate_inputs_ready ::
  "sched \<Rightarrow> leader_term \<Rightarrow> renderer \<Rightarrow> run_id \<Rightarrow> step_run \<Rightarrow> attempt \<Rightarrow> bool sched_prog" where
  "gate_inputs_ready sc leader render run gate att =
     bindP (readP (\<lambda>st. st_gate_inputs st (run, sr_step gate, at_id att))) (\<lambda>stored.
     if sr_gate_kind gate \<noteq> Some ''plugin'' \<or> stored \<noteq> None then returnP True
     else
       bindP (readP (render run (sr_step gate) (sr_needs gate))) (\<lambda>rendered.
       case rendered of
         Inr inputs \<Rightarrow>
           bindP (mapErrP SchedDb (set_gate_wait_inputs leader run (sr_step gate) (at_id att) inputs)) (\<lambda>_. returnP True)
       | Inl reason \<Rightarrow>
           bindP (resolve_waiting sc run gate (at_id att)
             \<lparr>gv_passed = False, gv_reason = ''its inputs do not render: '' @ reason, gv_expired = False\<rparr>) (\<lambda>_.
           returnP False)))"

text \<open>A pass is the executor's to refuse.\<close>

definition final_verdict :: "sched \<Rightarrow> step_run \<Rightarrow> gate_verdict \<Rightarrow> gate_verdict sched_prog" where
  "final_verdict sc gate verdict =
     (if gv_passed verdict then
        bindP (execP (ex_gate_refusal (sc_exec sc) gate)) (\<lambda>refusal.
        returnP (case refusal of
            Some r \<Rightarrow> \<lparr>gv_passed = False, gv_reason = ''the gate cannot release: '' @ r, gv_expired = False\<rparr>
          | None \<Rightarrow> verdict))
      else returnP verdict)"

definition gate_timer_seconds :: "run_id \<Rightarrow> store \<Rightarrow> step_id \<Rightarrow> int option" where
  "gate_timer_seconds run st step = Option.bind (step_of st run step) rc_gate_timer_seconds"

definition evaluate_gate ::
  "sched \<Rightarrow> leader_term \<Rightarrow> renderer \<Rightarrow> run_id \<Rightarrow> step_run list \<Rightarrow> step_run \<Rightarrow> gate_cache \<Rightarrow> gate_cache sched_prog" where
  "evaluate_gate sc leader render run steps gate cache =
     (if \<not> needs_succeeded steps gate then
        bindP (case open_gate_attempt gate of
                 Some a \<Rightarrow> bindP (mapErrP SchedDb (supersede_gate_attempt (sc_clk sc) run (sr_step gate) (at_id a) None))
                            (\<lambda>_. returnP ())
               | None \<Rightarrow> returnP ()) (\<lambda>_. returnP cache)
      else
        bindP (gate_attempt sc leader run gate (fst cache)) (\<lambda>(att, events).
        case att of
          None \<Rightarrow> returnP (events, snd cache)
        | Some a \<Rightarrow>
            bindP (gate_inputs_ready sc leader render run gate a) (\<lambda>ready.
            if \<not> ready then returnP (events, snd cache)
            else
              bindP (readP (cached (snd cache) (\<lambda>st. gate_settings_of (st_ir st run)))) (\<lambda>settings.
              let mine = (case map_of settings (sr_step gate) of
                            Some g \<Rightarrow> g
                          | None \<Rightarrow> \<lparr>gs_expires_after_secs = None, gs_environment_approval = False\<rparr>) in
              bindP (readP (\<lambda>st. if gs_environment_approval mine then Some (cached events (events_of run) st) else events)) (\<lambda>events'.
              bindP (readP (sc_clk sc)) (\<lambda>now.
              bindP (readP (\<lambda>st. gate_verdict (gate_timer_seconds run st) gate a mine
                 (if gs_environment_approval mine
                  then map_option ea_release_at (environment_approval_met (the events') (sr_step gate)) else None) now)) (\<lambda>verdict.
              case verdict of
                None \<Rightarrow> returnP (events', Some settings)
              | Some v \<Rightarrow>
                  bindP (final_verdict sc gate v) (\<lambda>v'.
                  bindP (resolve_waiting sc run gate (at_id a) v') (\<lambda>_.
                  returnP (events', Some settings))))))))))"

fun evaluate_loop ::
  "sched \<Rightarrow> leader_term \<Rightarrow> renderer \<Rightarrow> run_id \<Rightarrow> step_run list \<Rightarrow> step_run list \<Rightarrow> gate_cache \<Rightarrow> unit sched_prog" where
  "evaluate_loop sc leader render run steps [] cache st = (Inr (), st)"
| "evaluate_loop sc leader render run steps (gate # gates) cache st =
     bindP (evaluate_gate sc leader render run steps gate cache)
       (evaluate_loop sc leader render run steps gates) st"

definition evaluate_waiting_gates :: "sched \<Rightarrow> leader_term \<Rightarrow> renderer \<Rightarrow> run_id \<Rightarrow> unit sched_prog" where
  "evaluate_waiting_gates sc leader render run =
     bindP (readP (steps_of_run run)) (\<lambda>steps.
     evaluate_loop sc leader render run steps (filter (\<lambda>s. is_gate s \<and> sr_status s = SPending) steps) (None, None))"

section \<open>Starting a pending run\<close>

definition project_capped :: "sched \<Rightarrow> run_id \<Rightarrow> store \<Rightarrow> bool" where
  "project_capped sc run st =
     (case cfg_project_run_cap (sc_cfg sc) of
        None \<Rightarrow> False
      | Some cap \<Rightarrow>
          (case st_project st run of
             None \<Rightarrow> False
           | Some project \<Rightarrow> cap \<le> count_running_runs project st))"

text \<open>The run that holds the slot of the group, when it is another; \<open>cancel-in-progress\<close> cancels it.\<close>

definition take_slot :: "sched \<Rightarrow> leader_term \<Rightarrow> run_id \<Rightarrow> run_id option sched_prog" where
  "take_slot sc leader run =
     bindP (readP (\<lambda>st. st_concurrency st run)) (\<lambda>conc.
     case conc of
       None \<Rightarrow> returnP None
     | Some (grp, policy) \<Rightarrow>
         bindP (mapErrP SchedDb (acquire_slot leader grp run)) (\<lambda>holder.
         case holder of
           None \<Rightarrow> returnP None
         | Some h \<Rightarrow>
             bindP (if policy = CancelInProgress then cancel_run sc h else returnP ()) (\<lambda>_.
             returnP (Some h))))"

text \<open>Whether admission goes on: the run holds its slot and is \<open>Running\<close>.\<close>

definition start_pending :: "sched \<Rightarrow> leader_term \<Rightarrow> run_id \<Rightarrow> bool sched_prog" where
  "start_pending sc leader run =
     bindP (readP (superseded_by run)) (\<lambda>older.
     bindP (forP older (cancel_run sc)) (\<lambda>_.
     bindP (readP (\<lambda>st. cfg_global_run_cap (sc_cfg sc) \<le> count_in_flight_runs None st)) (\<lambda>full.
     if full then returnP False
     else
       bindP (readP (project_capped sc run)) (\<lambda>capped.
       if capped then returnP False
       else
         bindP (take_slot sc leader run) (\<lambda>busy.
         if busy \<noteq> None then returnP False
         else bindP (transition_run sc run RPending RRunning) (\<lambda>_. returnP True))))))"

section \<open>Admitting the steps\<close>

definition dep_dead :: "step_run list \<Rightarrow> step_run \<Rightarrow> bool" where
  "dep_dead steps step =
     list_ex (\<lambda>d. let s = (case map_option sr_status (by_id_map steps d) of Some x \<Rightarrow> x | None \<Rightarrow> SPending)
                  in step_is_terminal s \<and> s \<noteq> SSucceeded) (sr_needs step)"

definition skip_dead_gate :: "sched \<Rightarrow> run_id \<Rightarrow> step_run list \<Rightarrow> step_run \<Rightarrow> unit sched_prog" where
  "skip_dead_gate sc run steps step =
     (if sr_status step \<noteq> SPending \<or> \<not> is_gate step then returnP ()
      else if dep_dead steps step then transition_step sc run (sr_step step) SPending SSkipped
      else returnP ())"

definition signatures :: "run_id \<Rightarrow> step_run list \<Rightarrow> store \<Rightarrow> step_id \<rightharpoonup> string" where
  "signatures run steps st = (\<lambda>x. if x \<in> sr_step ` set steps then step_output_identity run x st else None)"

definition service_statuses :: "run_service list \<Rightarrow> string \<rightharpoonup> service_status" where
  "service_statuses rows =
     map_of (rev (map (\<lambda>r. (sv_name r, sv_status r)) (filter (\<lambda>r. sv_take r = current_service_take rows) rows)))"

definition step_uses :: "run_id \<Rightarrow> step_id \<Rightarrow> store \<Rightarrow> string list" where
  "step_uses run step st =
     (case Option.bind (step_of st run step) rc_spec of Some spec \<Rightarrow> ss_uses spec | None \<Rightarrow> [])"

definition unready_reason :: "string list \<Rightarrow> string" where
  "unready_reason failed =
     ''unbound dependency: shared service(s) '' @ join_with '', '' (map (\<lambda>s. ''`'' @ s @ ''`'') failed)
       @ '' never became ready''"

text \<open>What admission decides for a pending step whose needs have succeeded.\<close>

datatype admit_decision = AdmitFail string | AdmitHold | AdmitSkipUnchanged | AdmitPromote string

definition admit_decision ::
  "(string \<rightharpoonup> service_status) \<Rightarrow> (step_id \<rightharpoonup> string) \<Rightarrow> run_id \<Rightarrow> step_run \<Rightarrow> store \<Rightarrow> admit_decision" where
  "admit_decision services signature_of run step st =
     (let uses = step_uses run (sr_step step) st;
          failed = filter (\<lambda>n. services n = Some SvFailed) uses;
          cur = input_signature (sr_needs step) (step_inputs_of run (sr_step step) st) signature_of
      in if failed \<noteq> [] then AdmitFail (unready_reason failed)
         else if \<not> list_all (\<lambda>n. services n \<in> {Some SvReady, Some SvRunning}) uses then AdmitHold
         else if signature_of (sr_step step) \<noteq> None
             \<and> Option.bind (step_of st run (sr_step step)) rc_input = Some cur then AdmitSkipUnchanged
         else AdmitPromote cur)"

definition admit_step ::
  "sched \<Rightarrow> leader_term \<Rightarrow> run_id \<Rightarrow> (string \<rightharpoonup> service_status) \<Rightarrow> (step_id \<rightharpoonup> string) \<Rightarrow> step_run list \<Rightarrow> step_run
     \<Rightarrow> unit sched_prog" where
  "admit_step sc leader run services signature_of steps step =
     (if sr_status step \<noteq> SPending \<or> is_gate step then returnP ()
      else if needs_succeeded steps step then
        bindP (readP (admit_decision services signature_of run step)) (\<lambda>decision.
        case decision of
          AdmitFail reason \<Rightarrow>
            transition_step_with sc run (sr_step step) SPending SFailed [StepServicesUnready (sr_step step) reason]
        | AdmitHold \<Rightarrow> returnP ()
        | AdmitSkipUnchanged \<Rightarrow> skip_unchanged sc run (sr_step step)
        | AdmitPromote cur \<Rightarrow>
            bindP (readP (sc_clk sc)) (\<lambda>now.
            mapErrP SchedDb (benign (commitP (promote_commit now leader run (sr_step step) cur)))))
      else if dep_dead steps step then transition_step sc run (sr_step step) SPending SSkipped
      else returnP ())"

definition admit_steps :: "sched \<Rightarrow> leader_term \<Rightarrow> run_id \<Rightarrow> unit sched_prog" where
  "admit_steps sc leader run =
     bindP (readP (steps_of_run run)) (\<lambda>steps.
     bindP (forP steps (skip_dead_gate sc run steps)) (\<lambda>_.
     bindP (readP (signatures run steps)) (\<lambda>signature_of.
     bindP (readP (run_services run)) (\<lambda>rows.
     bindP (forP steps (admit_step sc leader run (service_statuses rows) signature_of steps)) (\<lambda>_.
     bindP (readP (sc_clk sc)) (\<lambda>now.
     bindP (mapErrP SchedDb (claim_ready_steps leader (cfg_outbox_batch (sc_cfg sc)) (mint_launch now))) (\<lambda>_.
     bindP (readP (steps_of_run run)) (\<lambda>after.
     if list_ex (\<lambda>s. is_gate s \<and> sr_status s = SPending) steps \<and> only_waits_outstanding after
     then transition_run sc run RRunning RSuspended else returnP ()))))))))"

definition admit_as_leader :: "sched \<Rightarrow> leader_term \<Rightarrow> renderer \<Rightarrow> run_id \<Rightarrow> unit sched_prog" where
  "admit_as_leader sc leader render run =
     bindP (readP (run_status_of run)) (\<lambda>status.
     case status of
       None \<Rightarrow> throwP (RunNotFound run)
     | Some status \<Rightarrow>
         if run_is_terminal status then returnP ()
         else
           bindP (if status = RPending then start_pending sc leader run else returnP True) (\<lambda>started.
           if \<not> started then returnP ()
           else
             bindP (evaluate_waiting_gates sc leader render run) (\<lambda>_.
             bindP (settle_unneeded_gates sc run) (\<lambda>_.
             bindP (readP (steps_of_run run)) (\<lambda>steps.
             if status = RSuspended \<and> only_waits_outstanding steps then returnP ()
             else
               bindP (if status = RSuspended then transition_run sc run RSuspended RRunning else returnP ()) (\<lambda>_.
               bindP (enforce_run_budget sc run) (\<lambda>exhausted.
               if exhausted then returnP () else admit_steps sc leader run)))))))"

definition admit_leg :: "sched \<Rightarrow> renderer \<Rightarrow> run_id \<Rightarrow> leg sched_prog" where
  "admit_leg sc render run =
     bindP (leader_term_now sc) (\<lambda>term'.
     case term' of
       None \<Rightarrow> returnP LegDone
     | Some t \<Rightarrow> leader_leg (admit_as_leader (as_leader t sc) t render run))"

section \<open>Runs left mid-creation\<close>

definition UNFINISHED_CREATION_REASON :: string where
  "UNFINISHED_CREATION_REASON = ''the server stopped while creating this Run''"

fun sweep_runs ::
  "leader_term \<Rightarrow> timestamp \<Rightarrow> run_id list \<Rightarrow> (run_id \<times> sched_error) list \<Rightarrow> (run_id \<times> sched_error) list sched_prog" where
  "sweep_runs term' now [] isolated st = (Inr isolated, st)"
| "sweep_runs term' now (run # runs) isolated st =
     (case bindP (readP (run_reopen_generation run))
             (\<lambda>g. commitP (fail_run_creation_as (Some term') run UNFINISHED_CREATION_REASON now g)) st of
        (Inr _, st') \<Rightarrow> sweep_runs term' now runs isolated st'
      | (Inl Conflict, st') \<Rightarrow> sweep_runs term' now runs isolated st'
      | (Inl NotLeader, st') \<Rightarrow> (Inr isolated, st')
      | (Inl FenceTimeout, st') \<Rightarrow> (Inr isolated, st')
      | (Inl e, st') \<Rightarrow> sweep_runs term' now runs (isolated @ [(run, SchedDb e)]) st')"

definition sweep_unfinished_creations :: "sched \<Rightarrow> (run_id \<times> sched_error) list sched_prog" where
  "sweep_unfinished_creations sc =
     bindP (leader_term_now sc) (\<lambda>term'.
     case term' of
       None \<Rightarrow> returnP []
     | Some t \<Rightarrow>
         bindP (readP (sc_clk sc)) (\<lambda>now.
         bindP (readP (unfinished_creations_before (now - cfg_unfinished_creation_bound_ms (sc_cfg sc)))) (\<lambda>runs.
         sweep_runs t now runs [])))"

section \<open>Tick health\<close>

text \<open>Since when the cycle of a run has been failing, in this process.\<close>

type_synonym tick_health = "(run_id \<times> timestamp) list"

definition failing_since :: "run_id \<Rightarrow> timestamp \<Rightarrow> tick_health \<Rightarrow> timestamp \<times> tick_health" where
  "failing_since run now h =
     (case al_get h run of Some since \<Rightarrow> (since, h) | None \<Rightarrow> (now, al_put run now h))"

definition healthy :: "run_id \<Rightarrow> tick_health \<Rightarrow> tick_health" where
  "healthy run h = al_del run h"

definition retain_active :: "run_id list \<Rightarrow> tick_health \<Rightarrow> tick_health" where
  "retain_active active h = filter (\<lambda>p. fst p \<in> set active) h"

definition tick_failed_reason :: "sched \<Rightarrow> int \<Rightarrow> sched_error \<Rightarrow> string" where
  "tick_failed_reason sc failing_ms e =
     ''scheduler tick failed continuously for '' @ int_str failing_ms @ ''ms (bound: ''
       @ int_str (cfg_tick_failure_deadline_ms (sc_cfg sc)) @ ''ms, ADR-0059) '' @ dash
       @ '' this run cannot be driven forward; last error: '' @ sc_show sc e"

definition isolate_run_failure ::
  "sched \<Rightarrow> run_id \<Rightarrow> sched_error \<Rightarrow> tick_health \<times> store \<Rightarrow> sched_error option \<times> tick_health \<times> store" where
  "isolate_run_failure sc run e hs =
     (case hs of (h, st) \<Rightarrow>
        let now = sc_clk sc st in
        case failing_since run now h of
          (since, h') \<Rightarrow>
            if now - since < cfg_tick_failure_deadline_ms (sc_cfg sc) then (Some e, h', st)
            else
              (case dead_letter_run sc run (tick_failed_reason sc (now - since) e) st of
                 (Inr _, st') \<Rightarrow> (None, healthy run h', st')
               | (Inl dl, st') \<Rightarrow> (Some dl, h', st')))"

end
