(* ===== verification/Admission_Laws.thy ===== *)
theory Admission_Laws
  imports Admission
begin

text \<open>
  What admission decides: the outcome of the pass over the pending steps, row by row (another
  interpretation of \<open>step_loop\<close>), the conditions under which a pending run starts, and the bound on a
  failing cycle.
\<close>

section \<open>Admission follows the step relation\<close>

lemma runs_promote [runs_intros]:
  "runs_as seen st (snd (bindP (readP clk) (\<lambda>now. mapErrP SchedDb (benign (commitP (promote_commit now leader run step cur)))) st))"
  by (subst bind_read) (intro runs_mapErr runs_benign runs_commitP runs_commit, rule op_promote)

lemma runs_admit_step [runs_intros]: "runs_as seen st (snd (admit_step sc leader run services sigs steps s st))"
  unfolding admit_step_def transition_step_def
  by (auto simp del: bind_read split: admit_decision.splits
      intro!: runs_return runs_transition_step runs_skip_unchanged runs_promote runs_bind)

lemma runs_skip_dead [runs_intros]: "runs_as seen st (snd (skip_dead_gate sc run steps s st))"
  unfolding skip_dead_gate_def transition_step_def by (auto intro!: runs_return runs_transition_step)

section \<open>The decision of one row\<close>

definition row_decision ::
  "(string \<rightharpoonup> service_status) \<Rightarrow> (step_id \<rightharpoonup> string) \<Rightarrow> step_run \<Rightarrow> step_rec \<Rightarrow> admit_decision" where
  "row_decision services signature_of s rec =
     (let uses = (case rc_spec rec of Some spec \<Rightarrow> ss_uses spec | None \<Rightarrow> []);
          failed = filter (\<lambda>n. services n = Some SvFailed) uses;
          cur = input_signature (sr_needs s) (rc_explicit_inputs rec) signature_of
      in if failed \<noteq> [] then AdmitFail (unready_reason failed)
         else if \<not> list_all (\<lambda>n. services n \<in> {Some SvReady, Some SvRunning}) uses then AdmitHold
         else if signature_of (sr_step s) \<noteq> None \<and> rc_input rec = Some cur then AdmitSkipUnchanged
         else AdmitPromote cur)"

lemma admit_decision_row:
  "step_of st run (sr_step s) = Some rec \<Longrightarrow> admit_decision services sigs run s st = row_decision services sigs s rec"
  by (simp add: admit_decision_def row_decision_def step_uses_def step_inputs_of_def Let_def)

definition admit_target ::
  "(string \<rightharpoonup> service_status) \<Rightarrow> (step_id \<rightharpoonup> string) \<Rightarrow> step_run list \<Rightarrow> step_run \<Rightarrow> step_rec \<Rightarrow> step_status" where
  "admit_target services sigs steps s rec =
     (if sr_status s \<noteq> SPending \<or> is_gate s then sr_status s
      else if needs_succeeded steps s then
        (case row_decision services sigs s rec of
           AdmitFail _ \<Rightarrow> SFailed | AdmitHold \<Rightarrow> SPending | AdmitSkipUnchanged \<Rightarrow> SSucceeded | AdmitPromote _ \<Rightarrow> SReady)
      else if dep_dead steps s then SSkipped else SPending)"

lemma fresh_transition:
  assumes "store_ok st" "s \<in> set (steps_of_run run st)" "sr_status s = SPending"
  shows "\<exists>st'. transition_step_with sc run (sr_step s) SPending to pre st = (Inr (), st')
    \<and> step_status_of run (sr_step s) st' = Some to \<and> touches {(run, sr_step s)} st st'"
    and "\<exists>st'. skip_unchanged sc run (sr_step s) st = (Inr (), st')
    \<and> step_status_of run (sr_step s) st' = Some SSucceeded \<and> touches {(run, sr_step s)} st st'"
proof -
  have commit: "\<exists>st'. commit_step_transition run (sr_step s) SPending to FrontierAny stamp es ms st = Inr st'
      \<and> step_status_of run (sr_step s) st' = Some to \<and> touches {(run, sr_step s)} st st'" for to stamp es ms
    using fresh_commit [OF assms(1,2), of FrontierAny to stamp es ms] touches_commit assms(3) by fastforce
  show "\<exists>st'. transition_step_with sc run (sr_step s) SPending to pre st = (Inr (), st')
    \<and> step_status_of run (sr_step s) st' = Some to \<and> touches {(run, sr_step s)} st st'"
    using commit [of to None "map (\<lambda>k. event run k (sc_clk sc st)) (pre @ [StepTransitioned (sr_step s) SPending to])" "[]"]
    by (auto simp: transition_step_with_def transition_step_commit_def benign_commitP mapErrP_def)
  show "\<exists>st'. skip_unchanged sc run (sr_step s) st = (Inr (), st')
    \<and> step_status_of run (sr_step s) st' = Some SSucceeded \<and> touches {(run, sr_step s)} st st'"
    using commit [of SSucceeded None "[event run (StepSkipped (sr_step s) ''inputs unchanged'') (sc_clk sc st),
        step_moved run (sr_step s) SPending SSucceeded (sc_clk sc st)]" "[]"]
    by (auto simp: skip_unchanged_def skip_unchanged_commit_def benign_commitP mapErrP_def)
qed

lemma fresh_promote:
  assumes "store_ok st" "s \<in> set (steps_of_run run st)" "sr_status s = SPending" "holds_leader_term st leader"
  shows "\<exists>st'. mapErrP SchedDb (benign (commitP (promote_commit now leader run (sr_step s) cur))) st = (Inr (), st')
    \<and> step_status_of run (sr_step s) st' = Some SReady \<and> touches {(run, sr_step s)} st st'"
proof -
  obtain rec where "step_of st run (sr_step s) = Some rec" "rc_status rec = Some SPending"
    using steps_of_run_row [OF assms(1,2)] assms(3) by auto
  then show ?thesis using assms(4)
    by (auto simp: benign_commitP mapErrP_def promote_commit_def promote_step_def check_step_transition_def touches_def step_status_of_def)
qed

lemma admit_step_ok:
  assumes ok: "store_ok st" "holds_leader_term st leader" and s: "s \<in> set (steps_of_run run st)"
  shows "\<exists>st'. admit_step sc leader run services sigs steps s st = (Inr (), st') \<and> touches {(run, sr_step s)} st st'
    \<and> step_status_of run (sr_step s) st' = map_option (admit_target services sigs steps s) (step_of st run (sr_step s))"
proof -
  obtain rec where row: "step_of st run (sr_step s) = Some rec" "rc_status rec = Some (sr_status s)"
    using steps_of_run_row [OF ok(1) s] by blast
  have now: "step_status_of run (sr_step s) st = Some (sr_status s)" using row by (simp add: step_status_of_def)
  show ?thesis
  proof (cases "sr_status s = SPending \<and> \<not> is_gate s")
    case False
    then show ?thesis using now row by (auto simp: admit_step_def admit_target_def returnP_def)
  next
    case True
    then show ?thesis
      using now row(1) fresh_transition [OF ok(1) s] fresh_promote [OF ok(1) s _ ok(2)] admit_decision_row [OF row(1)]
      by (cases "needs_succeeded steps s"; cases "row_decision services sigs s rec"; cases "dep_dead steps s")
         (simp_all add: admit_step_def admit_target_def returnP_def transition_step_def, blast+)
  qed
qed

interpretation admit_loop: step_loop run "admit_step sc leader run services sigs steps"
    "\<lambda>st. store_ok st \<and> holds_leader_term st leader"
    "\<lambda>s r r'. Option.bind r' rc_status = map_option (admit_target services sigs steps s) r"
  for run sc leader services sigs steps
proof
  fix st s assume st: "store_ok st \<and> holds_leader_term st leader" and s: "s \<in> set (steps_of_run run st)"
  then obtain st' where r: "admit_step sc leader run services sigs steps s st = (Inr (), st')" "touches {(run, sr_step s)} st st'"
    "step_status_of run (sr_step s) st' = map_option (admit_target services sigs steps s) (step_of st run (sr_step s))"
    using admit_step_ok by blast
  have "store_ok st'" using runs_ok [OF runs_admit_step [of "{}" st sc leader run services sigs steps s]] st r(1) by simp
  moreover have "holds_leader_term st' leader" using st r(2) by (simp add: holds_leader_term_def touches_def)
  ultimately show "fst (admit_step sc leader run services sigs steps s st) = Inr ()
      \<and> (store_ok (snd (admit_step sc leader run services sigs steps s st))
         \<and> holds_leader_term (snd (admit_step sc leader run services sigs steps s st)) leader)
      \<and> touches {(run, sr_step s)} st (snd (admit_step sc leader run services sigs steps s st))
      \<and> Option.bind (step_of (snd (admit_step sc leader run services sigs steps s st)) run (sr_step s)) rc_status
         = map_option (admit_target services sigs steps s) (step_of st run (sr_step s))"
    using r by (simp add: step_status_of_def)
qed simp

section \<open>What programs leave alone\<close>

text \<open>A relation between stores that every call keeps, a program keeps: reflexivity and transitivity
  are all the composition rules need.\<close>

locale program_frame =
  fixes keeps :: "store \<Rightarrow> store \<Rightarrow> bool"
  assumes keeps_refl: "keeps st st"
    and keeps_trans: "keeps a b \<Longrightarrow> keeps b d \<Longrightarrow> keeps a d"
begin

lemma keeps_return: "keeps st (snd (returnP a st))" "keeps st (snd (throwP e st))" "keeps st (snd (readP f st))"
  by (simp_all add: returnP_def throwP_def readP_def keeps_refl)

lemma keeps_bind:
  assumes "keeps st (snd (m st))" "\<And>a st'. m st = (Inr a, st') \<Longrightarrow> keeps st' (snd (f a st'))"
  shows "keeps st (snd (bindP m f st))"
  using assms keeps_trans unfolding bindP_def by (cases "m st") (fastforce split: sum.splits prod.splits)

lemma keeps_mapErr: "keeps st (snd (m st)) \<Longrightarrow> keeps st (snd (mapErrP h m st))"
  by (cases "m st") (auto simp: mapErrP_def split: sum.splits)

lemma keeps_for:
  assumes "\<And>x st'. x \<in> set xs \<Longrightarrow> keeps st' (snd (f x st'))"
  shows "keeps st (snd (forP xs f st))"
  using forP_invariant [of "keeps st" st xs f] assms keeps_refl keeps_trans by blast

lemmas keeps_rules = keeps_return keeps_bind keeps_mapErr keeps_for

end

text \<open>What the cancellation of one run leaves of the others.\<close>

definition beside_run :: "run_id \<Rightarrow> store \<Rightarrow> store \<Rightarrow> bool" where
  "beside_run x st st' \<longleftrightarrow> st_leases st' = st_leases st \<and> st_concurrency st' = st_concurrency st
     \<and> (\<forall>r. r \<noteq> x \<longrightarrow> run_status_of r st' = run_status_of r st)"

interpretation other_runs: program_frame "beside_run x" for x
  by unfold_locales (auto simp: beside_run_def)

lemma touches_beside: "touches keys st st' \<Longrightarrow> beside_run x st st'"
  by (auto simp: touches_def beside_run_def run_status_of_def)

lemma services_beside: "beside_services st st' \<Longrightarrow> beside_run x st st'"
  using beside_services_sel by (simp add: beside_run_def run_status_of_def)

lemma commit_run_beside: "beside_run run st (snd (benign (commit_run l run fr to now notify intents journal) st))"
  by (auto simp: commit_run_def commitP_def commit_run_transition_after_def commit_run_transition_def beside_run_def run_status_of_def)

lemma release_beside: "beside_run x st (snd (release_run_slot run st))"
  by (auto simp: release_run_slot_def writeP_def returnP_def release_slot_def beside_run_def run_status_of_def split: option.splits)

lemma cancel_live_beside: "beside_run x st (snd (cancel_live_steps sc run now st))"
proof -
  have "beside_run x t (snd (cancel_live_step sc run now s t))" for s t
    using touches_beside [OF touches_cancel_rounds [of run s t cancel_rounds_bound now]] other_runs.keeps_refl
    by (auto simp: cancel_live_step_eq cancel_step_def intro!: other_runs.keeps_mapErr)
  then show ?thesis unfolding cancel_live_steps_def bind_read by (intro other_runs.keeps_for)
qed

lemma cancel_run_beside: "beside_run run st (snd (cancel_run sc run st))"
  unfolding cancel_run_def bind_read
  by (auto split: option.splits
      intro!: other_runs.keeps_bind other_runs.keeps_return other_runs.keeps_mapErr cancel_live_beside commit_run_beside
        release_beside services_beside [OF teardown_beside] simp del: benign_snd)

section \<open>Starting a run\<close>

lemma superseded_by_other: "r \<in> set (superseded_by run st) \<Longrightarrow> r \<noteq> run"
  by (auto simp: superseded_by_def Let_def split: option.splits)

definition calm :: "run_id \<Rightarrow> store \<Rightarrow> store \<Rightarrow> bool" where
  "calm run st st' \<longleftrightarrow> st_leases st' = st_leases st \<and> st_concurrency st' = st_concurrency st
     \<and> run_status_of run st' = run_status_of run st"

interpretation calm_run: program_frame "calm run" for run
  by unfold_locales (auto simp: calm_def)

lemma cancel_other_calm: "r \<noteq> run \<Longrightarrow> calm run st (snd (cancel_run sc r st))"
  using cancel_run_beside [of r st sc] by (auto simp: beside_run_def calm_def)

lemma bind_Inr: "bindP m f st = (Inr b, st') \<longleftrightarrow> (\<exists>a st1. m st = (Inr a, st1) \<and> f a st1 = (Inr b, st'))"
  by (cases "m st") (auto simp: bindP_def split: sum.splits)

definition slot_open :: "run_id \<Rightarrow> string \<Rightarrow> store \<Rightarrow> bool" where
  "slot_open run grp st \<longleftrightarrow> (\<forall>h. st_slots st grp = Some h \<longrightarrow> h = run
     \<or> (case run_status_of h st of Some s \<Rightarrow> run_is_terminal s | None \<Rightarrow> True))"

lemma acquire_slot_cases:
  assumes "holds_leader_term st leader"
  shows "\<exists>holder st'. acquire_slot leader grp run st = (Inr holder, st')
    \<and> (holder = None \<and> st_slots st' grp = Some run \<or> (\<exists>h. holder = Some h \<and> h \<noteq> run))
    \<and> (slot_open run grp st \<longrightarrow> holder = None)
    \<and> st_runs st' = st_runs st \<and> st_leases st' = st_leases st \<and> st_concurrency st' = st_concurrency st"
  using assms by (cases "st_slots st grp") (auto simp: acquire_slot_def fenced_def holds_leader_term_if_def slot_open_def run_status_of_def split: option.splits)

lemma take_slot_held:
  assumes "holds_leader_term st leader" "take_slot sc leader run st = (res, st')"
  shows "calm run st st' \<and> (res = Inr None \<longrightarrow> st_runs st' = st_runs st
      \<and> (\<forall>grp p. st_concurrency st run = Some (grp, p) \<longrightarrow> st_slots st' grp = Some run))
    \<and> ((\<forall>grp p. st_concurrency st run = Some (grp, p) \<longrightarrow> slot_open run grp st) \<longrightarrow> res = Inr None)"
proof (cases "st_concurrency st run")
  case None
  then show ?thesis using assms(2) by (simp add: take_slot_def returnP_def calm_def)
next
  case (Some gp)
  obtain grp policy where gp: "gp = (grp, policy)" by (cases gp)
  obtain holder st1 where acq: "acquire_slot leader grp run st = (Inr holder, st1)"
    "holder = None \<and> st_slots st1 grp = Some run \<or> (\<exists>h. holder = Some h \<and> h \<noteq> run)"
    "slot_open run grp st \<longrightarrow> holder = None"
    "st_runs st1 = st_runs st" "st_leases st1 = st_leases st" "st_concurrency st1 = st_concurrency st"
    using acquire_slot_cases [OF assms(1), of grp run] by blast
  then have c1: "calm run st st1" by (simp add: calm_def run_status_of_def)
  show ?thesis
  proof (cases holder)
    case None
    then have "res = Inr None" "st' = st1" using assms(2) Some gp acq(1) by (simp_all add: take_slot_def mapErrP_def returnP_def bindP_def readP_def)
    then show ?thesis using None Some gp acq c1 by simp
  next
    case (Some h)
    let ?rest = "bindP (if policy = CancelInProgress then cancel_run sc h else returnP ()) (\<lambda>_. returnP (Some h))"
    have "h \<noteq> run" using acq(2) Some by simp
    then have "calm run st1 (snd (?rest st1))"
      using cancel_other_calm [of h run st1 sc] by (auto intro!: calm_run.keeps_bind calm_run.keeps_return)
    moreover have "?rest st1 = (res, st')" "res \<noteq> Inr None"
      using assms(2) \<open>st_concurrency st run = Some gp\<close> gp Some acq(1)
      by (auto simp: take_slot_def mapErrP_def bindP_def returnP_def readP_def split: prod.splits sum.splits)
    ultimately show ?thesis using calm_run.keeps_trans [OF c1] acq(3) Some gp \<open>st_concurrency st run = Some gp\<close> by auto
  qed
qed

text \<open>With the term held, the decision to start and what it leaves.\<close>

lemma al_put_count: "length (filter P (al_put k v m)) \<le> Suc (length (filter P m))"
  by (induction m) (auto simp: Let_def)

lemma start_pending_started:
  assumes sc: "sc_leader sc = Some leader" "holds_leader_term st leader" and pending: "run_status_of run st = Some RPending"
    and run: "start_pending sc leader run st = (res, st')"
  shows "run_status_of run st' = Some (if res = Inr True then RRunning else RPending)
    \<and> (res = Inr True \<longrightarrow> (\<forall>grp p. st_concurrency st run = Some (grp, p) \<longrightarrow> st_slots st' grp = Some run)
        \<and> count_in_flight_runs None st' \<le> cfg_global_run_cap (sc_cfg sc))
    \<and> (superseded_by run st = [] \<and> count_in_flight_runs None st < cfg_global_run_cap (sc_cfg sc) \<and> \<not> project_capped sc run st
        \<and> (\<forall>grp p. st_concurrency st run = Some (grp, p) \<longrightarrow> slot_open run grp st) \<longrightarrow> res = Inr True)"
proof -
  obtain r1 st1 where r1: "forP (superseded_by run st) (cancel_run sc) st = (r1, st1)" by (cases "forP (superseded_by run st) (cancel_run sc) st")
  have "calm run st (snd (forP (superseded_by run st) (cancel_run sc) st))"
    using cancel_other_calm superseded_by_other by (intro calm_run.keeps_for) metis
  then have c1: "calm run st st1" using r1 by simp
  have st1: "holds_leader_term st1 leader" "run_status_of run st1 = Some RPending" "st_concurrency st1 = st_concurrency st"
    using c1 sc(2) pending by (simp_all add: calm_def holds_leader_term_def)
  have same: "superseded_by run st = [] \<Longrightarrow> r1 = Inr () \<and> st1 = st" using r1 by (simp add: returnP_def)
  consider (failed) e where "r1 = Inl e"
    | (capped) "r1 = Inr ()" "cfg_global_run_cap (sc_cfg sc) \<le> count_in_flight_runs None st1 \<or> project_capped sc run st1"
    | (slot) "r1 = Inr ()" "\<not> (cfg_global_run_cap (sc_cfg sc) \<le> count_in_flight_runs None st1 \<or> project_capped sc run st1)"
    by (cases r1) auto
  then show ?thesis
  proof cases
    case failed
    then have "res = Inl e \<and> st' = st1" using run r1 by (simp add: start_pending_def bindP_def readP_def)
    then show ?thesis using st1(2) same failed by auto
  next
    case capped
    then have "res = Inr False \<and> st' = st1" using run r1 by (auto simp: start_pending_def bindP_def readP_def returnP_def split: if_splits)
    then show ?thesis using st1(2) same capped by auto
  next
    case slot
    obtain busy st2 where b: "take_slot sc leader run st1 = (busy, st2)" by (cases "take_slot sc leader run st1")
    note held = take_slot_held [OF st1(1) b]
    then have st2: "run_status_of run st2 = Some RPending" "holds_leader_term_if st2 (sc_leader sc)"
      using st1(1,2) sc(1) by (auto simp: calm_def holds_leader_term_if_def holds_leader_term_def)
    show ?thesis
    proof (cases "busy = Inr None")
      case True
      obtain st3 where st3: "transition_run sc run RPending RRunning st2 = (Inr (), st3)" "st_runs st3 = al_put run RRunning (st_runs st2)"
        "st_steps st3 = st_steps st2" "st_slots st3 = st_slots st2" "st_concurrency st3 = st_concurrency st2" "st_leases st3 = st_leases st2"
        "st_services st3 = st_services st2" "st_events st3 = st_events st2 @ [event run (RunTransitioned RPending RRunning) (sc_clk sc st2)]"
        by (rule transition_run_held [OF st2(2,1)])
      have "count_in_flight_runs None st3 \<le> Suc (count_in_flight_runs None st1)"
        using held True st3(2) by (simp add: count_in_flight_runs_def al_put_count)
      moreover have "res = Inr True \<and> st' = st3"
        using run r1 slot b True st3(1) by (simp add: start_pending_def bindP_def readP_def returnP_def)
      ultimately show ?thesis using True held st1(3) st3 slot by (auto simp: run_status_of_def)
    next
      case False
      then have "res \<noteq> Inr True \<and> st' = st2"
        using run r1 slot b by (auto simp: start_pending_def bindP_def readP_def returnP_def split: sum.splits if_splits)
      then show ?thesis using False held same st1(3) st2(1) by auto
    qed
  qed
qed

section \<open>Concrete admissions\<close>

text \<open>The leader of \<open>System\<close>'s history, with the pending step it created.\<close>

lemma demo_created_reachable: "\<exists>c. reachable c \<and> cf_store c = demo_created"
proof (rule exI [of _ "\<lparr>cf_store = demo_created, cf_seen = {}, cf_settled = {}\<rparr> :: cfg"], intro conjI)
  let ?s0 = "snd (lease 0 ''scheduler'' ''a'' 30 empty_store)"
  let ?c = "\<lambda>st. \<lparr>cf_store = st, cf_seen = {}, cf_settled = {}\<rparr> :: cfg"
  have "reachable (?c ?s0)"
    using reach_step [OF reach_init sys_commit, of ?s0] op_aux [OF aux_lease] by (simp add: init_cfg_def)
  moreover have "step_of ?s0 ''r'' ''build'' = None" "run_id_ok ''r''" "step_id_ok ''build''"
    by (simp_all add: lease_def empty_store_def run_id_ok_def step_id_ok_def)
  then have "commit_op {} {} ?s0 demo_created" unfolding demo_created_def by (intro op_create)
  ultimately show "reachable (?c demo_created)" using reach_step [OF _ sys_commit, of "?c ?s0" demo_created] by simp
qed simp

lemma demo_created_read: "\<exists>s. steps_of_run ''r'' demo_created = [s] \<and> sr_step s = ''build'' \<and> sr_status s = SPending
    \<and> \<not> is_gate s \<and> sr_needs s = []"
  by (simp add: steps_of_run_def demo_created_tables List.map_filter_def step_run_of_def new_step_rec_def is_gate_def)

lemma demo_created_leader: "holds_leader_term demo_created demo_leader"
  by (simp add: holds_leader_term_def demo_created_tables demo_leader_def)

section \<open>A failing cycle\<close>

text \<open>One failing tick of a run after another: each with its instant, its error and the store it
  meets.\<close>

fun failing_ticks ::
  "sched \<Rightarrow> run_id \<Rightarrow> (timestamp \<times> sched_error \<times> store) list \<Rightarrow> tick_health \<Rightarrow> (sched_error option \<times> store) list \<times> tick_health" where
  "failing_ticks sc run [] h = ([], h)"
| "failing_ticks sc run ((t, e, st) # ticks) h =
     (case isolate_run_failure (sc\<lparr>sc_clk := \<lambda>_. t\<rparr>) run e (h, st) of
        (r, h', st') \<Rightarrow> (case failing_ticks sc run ticks h' of (rs, h'') \<Rightarrow> ((r, st') # rs, h'')))"

lemma failing_below:
  assumes "al_get h run = Some since" "\<forall>x \<in> set ticks. fst x - since < cfg_tick_failure_deadline_ms (sc_cfg sc)"
  shows "failing_ticks sc run ticks h = (map (\<lambda>(t, e, st). (Some e, st)) ticks, h)"
  using assms(2)
proof (induction ticks)
  case (Cons x ticks)
  obtain t e st where x: "x = (t, e, st)" by (cases x)
  have "t - since < cfg_tick_failure_deadline_ms (sc_cfg sc)" using Cons.prems x by simp
  then have "isolate_run_failure (sc\<lparr>sc_clk := \<lambda>_. t\<rparr>) run e (h, st) = (Some e, h, st)"
    using assms(1) by (simp add: isolate_run_failure_def failing_since_def)
  then show ?case using Cons x by simp
qed simp

section \<open>Properties\<close>

lemma by_id_mem: "by_id_map steps d = Some x \<Longrightarrow> x \<in> set steps \<and> sr_step x = d"
  unfolding by_id_map_def by (auto dest!: map_of_SomeD)

text \<open>Admission decides every pending step exactly. Under a held term, the pass over the steps of
  a run succeeds and leaves each step in the status its row decides: \<open>Failed\<close> when its needs have
  succeeded and a service it uses has failed, \<open>Pending\<close> while one is not ready, \<open>Succeeded\<close> when its inputs
  are unchanged, \<open>Ready\<close> otherwise; \<open>Skipped\<close> when a need can never succeed. In particular a step is made
  \<open>Ready\<close> only when it is no gate, everything it needs has succeeded and every service it uses is
  ready; and no row of another run moves.\<close>

theorem admission_decides:
  assumes "reachable c" "holds_leader_term (cf_store c) leader"
    and "steps = steps_of_run run (cf_store c)" "services = service_statuses (run_services run (cf_store c))"
    and "sigs = signatures run steps (cf_store c)"
  shows "\<exists>st'. forP steps (admit_step sc leader run services sigs steps) (cf_store c) = (Inr (), st')
    \<and> (\<forall>s \<in> set steps. \<forall>rec. step_of (cf_store c) run (sr_step s) = Some rec \<longrightarrow>
         step_status_of run (sr_step s) st' = Some (admit_target services sigs steps s rec)
         \<and> (sr_status s = SPending \<and> step_status_of run (sr_step s) st' = Some SReady \<longrightarrow>
              \<not> is_gate s \<and> (\<forall>d \<in> set (sr_needs s). step_status_of run d st' = Some SSucceeded)
              \<and> (\<forall>spec. rc_spec rec = Some spec \<longrightarrow> (\<forall>n \<in> set (ss_uses spec). services n \<in> {Some SvReady, Some SvRunning}))))
    \<and> (\<forall>r x. r \<noteq> run \<longrightarrow> step_of st' r x = step_of (cf_store c) r x)"
proof -
  let ?st = "cf_store c"
  let ?st' = "snd (forP steps (admit_step sc leader run services sigs steps) ?st)"
  have ok: "store_ok ?st" by (rule reachable_store [OF assms(1)])
  have l: "fst (forP steps (admit_step sc leader run services sigs steps) ?st) = Inr ()"
    "touches ((\<lambda>s. (run, sr_step s)) ` set steps) ?st ?st'"
    "\<And>s. s \<in> set steps \<Longrightarrow> step_status_of run (sr_step s) ?st' = map_option (admit_target services sigs steps s) (step_of ?st run (sr_step s))"
    using admit_loop.loop_ok [of ?st leader steps run sc services sigs steps] ok assms(2,3) steps_of_run_ids [OF ok]
    by (auto simp: step_status_of_def)
  have kept: "step_status_of run d ?st' = Some SSucceeded" if d: "map_option sr_status (by_id_map steps d) = Some SSucceeded" for d
  proof -
    obtain x where x: "x \<in> set steps" "sr_step x = d" "sr_status x = SSucceeded" using d by_id_mem by fastforce
    moreover obtain rec where "step_of ?st run d = Some rec" using steps_of_run_row [OF ok] x assms(3) by blast
    ultimately show ?thesis using l(3) [OF x(1)] by (simp add: admit_target_def)
  qed
  have ready: "\<not> is_gate s \<and> needs_succeeded steps s \<and> (\<exists>cur. row_decision services sigs s rec = AdmitPromote cur)"
    if "sr_status s = SPending" "admit_target services sigs steps s rec = SReady" for s rec
    using that by (auto simp: admit_target_def split: if_splits admit_decision.splits)
  have used: "services n \<in> {Some SvReady, Some SvRunning}"
    if "row_decision services sigs s rec = AdmitPromote cur" "rc_spec rec = Some spec" "n \<in> set (ss_uses spec)" for s rec cur spec n
    using that by (auto simp: row_decision_def Let_def list_all_iff split: if_splits)
  have "\<forall>s \<in> set steps. \<forall>rec. step_of ?st run (sr_step s) = Some rec \<longrightarrow>
         step_status_of run (sr_step s) ?st' = Some (admit_target services sigs steps s rec)
         \<and> (sr_status s = SPending \<and> step_status_of run (sr_step s) ?st' = Some SReady \<longrightarrow>
              \<not> is_gate s \<and> (\<forall>d \<in> set (sr_needs s). step_status_of run d ?st' = Some SSucceeded)
              \<and> (\<forall>spec. rc_spec rec = Some spec \<longrightarrow> (\<forall>n \<in> set (ss_uses spec). services n \<in> {Some SvReady, Some SvRunning})))"
  proof (intro ballI allI impI)
    fix s rec assume s: "s \<in> set steps" "step_of ?st run (sr_step s) = Some rec"
    then have t: "step_status_of run (sr_step s) ?st' = Some (admit_target services sigs steps s rec)" using l(3) by simp
    moreover have "\<not> is_gate s \<and> (\<forall>d \<in> set (sr_needs s). step_status_of run d ?st' = Some SSucceeded)
        \<and> (\<forall>spec. rc_spec rec = Some spec \<longrightarrow> (\<forall>n \<in> set (ss_uses spec). services n \<in> {Some SvReady, Some SvRunning}))"
      if "sr_status s = SPending" "step_status_of run (sr_step s) ?st' = Some SReady"
      using ready [OF that(1), of rec] t that(2) used kept by (simp add: needs_succeeded_def list_all_iff) blast
    ultimately show "step_status_of run (sr_step s) ?st' = Some (admit_target services sigs steps s rec)
         \<and> (sr_status s = SPending \<and> step_status_of run (sr_step s) ?st' = Some SReady \<longrightarrow>
              \<not> is_gate s \<and> (\<forall>d \<in> set (sr_needs s). step_status_of run d ?st' = Some SSucceeded)
              \<and> (\<forall>spec. rc_spec rec = Some spec \<longrightarrow> (\<forall>n \<in> set (ss_uses spec). services n \<in> {Some SvReady, Some SvRunning})))"
      by blast
  qed
  moreover have "\<forall>r x. r \<noteq> run \<longrightarrow> step_of ?st' r x = step_of ?st r x" using touches_other [OF l(2)] by auto
  ultimately show ?thesis using l(1) by (intro exI [of _ ?st']) (auto intro: prod_eqI)
qed

theorem admission_decides_witness:
  "\<exists>s st'. forP (steps_of_run ''r'' demo_created) (admit_step (demo_sched 5) demo_leader ''r''
       (service_statuses (run_services ''r'' demo_created)) (signatures ''r'' (steps_of_run ''r'' demo_created) demo_created)
       (steps_of_run ''r'' demo_created)) demo_created = (Inr (), st')
     \<and> steps_of_run ''r'' demo_created = [s] \<and> sr_status s = SPending \<and> step_status_of ''r'' ''build'' st' = Some SReady"
proof -
  obtain c where c: "reachable c" "cf_store c = demo_created" using demo_created_reachable by blast
  obtain s where s: "steps_of_run ''r'' demo_created = [s]" "sr_step s = ''build''" "sr_status s = SPending" "\<not> is_gate s" "sr_needs s = []"
    using demo_created_read by blast
  have row: "step_of demo_created ''r'' ''build'' = Some (new_step_rec None [])" by (simp add: demo_created_tables)
  have out: "signatures ''r'' [s] demo_created ''build'' = None"
    using row by (simp add: signatures_def step_output_identity_def s(2) new_step_rec_def)
  have "admit_target v (signatures ''r'' [s] demo_created) [s] s (new_step_rec None []) = SReady" for v
    using s(2-5) out by (simp add: admit_target_def row_decision_def needs_succeeded_def new_step_rec_def)
  with admission_decides [OF c(1), of demo_leader "[s]" "''r''" _ _ "demo_sched 5"] demo_created_leader s row show ?thesis
    unfolding c(2) by fastforce
qed


definition demo_waiting :: store where
  "demo_waiting = set_run_concurrency ''r'' ''g'' Queue (create_run ''r'' 0 demo_created)"

lemma demo_waiting_facts:
  "run_status_of ''r'' demo_waiting = Some RPending" "st_concurrency demo_waiting ''r'' = Some (''g'', Queue)"
  "holds_leader_term demo_waiting demo_leader" "superseded_by ''r'' demo_waiting = []" "count_in_flight_runs None demo_waiting = 0"
  "slot_open ''r'' ''g'' demo_waiting"
  using demo_created_leader
  by (simp_all add: demo_waiting_def set_run_concurrency_def run_status_of_def holds_leader_term_def superseded_by_def
      count_in_flight_runs_def slot_open_def create_run_def Let_def demo_leader_def) (simp_all add: demo_created_def create_step_run_def lease_def empty_store_def put_step_def)


text \<open>C18: a run whose cycle keeps failing is given up at the deadline, and never sooner. Take a
  failing tick of a run with no streak, any later failing ticks within the deadline of the first, and
  one more at or past it. Every tick before the last hands its error back and writes nothing; the last,
  under a held term, ends the run \<open>DeadLettered\<close>, reports no error and closes the streak. Any success in
  between forgets the streak, so a tick after it counts from itself.\<close>

theorem tick_failure_bound:
  assumes "al_get h run = None" "0 < cfg_tick_failure_deadline_ms (sc_cfg sc)"
    and "\<forall>x \<in> set ticks. fst x - t0 < cfg_tick_failure_deadline_ms (sc_cfg sc)"
    and "cfg_tick_failure_deadline_ms (sc_cfg sc) \<le> t - t0"
    and "reachable c" "holds_leader_term_if (cf_store c) (sc_leader sc)"
    and "run_status_of run (cf_store c) = Some current" "\<not> run_is_terminal current"
  shows "\<exists>h' h'' st'. failing_ticks sc run ((t0, e0, st0) # ticks) h = ((Some e0, st0) # map (\<lambda>(t, e, st). (Some e, st)) ticks, h')
    \<and> isolate_run_failure (sc\<lparr>sc_clk := \<lambda>_. t\<rparr>) run e (h', cf_store c) = (None, h'', st')
    \<and> run_status_of run st' = Some RDeadLettered
    \<and> (\<forall>s \<in> set (steps_of_run run st'). step_is_terminal (sr_status s))
    \<and> al_get h'' run = None \<and> al_get (healthy run h') run = None"
proof -
  let ?h = "al_put run t0 h" and ?sc = "sc\<lparr>sc_clk := \<lambda>_. t\<rparr>"
  have ticks: "failing_ticks sc run ((t0, e0, st0) # ticks) h = ((Some e0, st0) # map (\<lambda>(t, e, st). (Some e, st)) ticks, ?h)"
    using failing_below [of ?h run t0 ticks sc] assms(1-3) by (auto simp: isolate_run_failure_def failing_since_def)
  obtain st' where st': "dead_letter_run ?sc run (tick_failed_reason ?sc (t - t0) e) (cf_store c) = (Inr (), st')"
    "run_status_of run st' = Some RDeadLettered" "\<forall>s \<in> set (steps_of_run run st'). step_is_terminal (sr_status s)"
    using dead_letter_effect [OF assms(5) _ assms(7,8), of ?sc] assms(6) by (metis sched.select_convs(5) sched.surjective sched.update_convs(1))
  then have "isolate_run_failure ?sc run e (?h, cf_store c) = (None, healthy run ?h, st')"
    using assms(4) by (simp add: isolate_run_failure_def failing_since_def)
  then show ?thesis using ticks st' by (auto simp: healthy_def)
qed

theorem tick_failure_bound_witness:
  "\<exists>h' h'' st'. failing_ticks (demo_sched 0) ''r'' [(10, RunNotFound ''r'', demo_live)] [] = ([(Some (RunNotFound ''r''), demo_live)], h')
    \<and> isolate_run_failure ((demo_sched 0)\<lparr>sc_clk := \<lambda>_. 10000000\<rparr>) ''r'' (RunNotFound ''r'') (h', demo_live) = (None, h'', st')
    \<and> run_status_of ''r'' st' = Some RDeadLettered"
proof -
  obtain c where c: "reachable c" "cf_store c = demo_live" using demo_live_reachable by force
  have "run_status_of ''r'' demo_live = Some RPending" by (simp add: run_status_of_def demo_live_tables)
  with tick_failure_bound [of "[]" "''r''" "demo_sched 0" "[]" 10 10000000 c RPending "RunNotFound ''r''" demo_live "RunNotFound ''r''"] c
  show ?thesis by (auto simp: demo_sched_def default_config_def holds_leader_term_if_def)
qed

end
