(* ===== verification/Services.thy ===== *)
theory Services
  imports Admission_Laws
begin

text \<open>
  The reconciliation of a run's shared services (\<^verbatim>\<open>crates/scarab-engine/src/scheduler.rs\<close>): the services the
  stored IR declares are born with the run and with every rerun (a new \<^emph>\<open>take\<close>), launched, polled for
  readiness under one deadline, and failed closed when they do not come up or when they die; the
  services of earlier takes are torn down. \<open>decode\<close> stands for the decoder of one declared service.
\<close>

section \<open>The services a run declares\<close>

record shared_service =
  sh_name :: string
  sh_spec :: json

definition pipeline_services :: "(json \<Rightarrow> shared_service option) \<Rightarrow> run_id \<Rightarrow> store \<Rightarrow> shared_service list" where
  "pipeline_services decode run st =
     (case st_ir st run of
        None \<Rightarrow> []
      | Some ir \<Rightarrow>
          (case Option.bind (json_get ''services'' ir) json_as_array of
             Some arr \<Rightarrow> List.map_filter decode arr
           | None \<Rightarrow> []))"

section \<open>One pass\<close>

abbreviation set_service :: "sched \<Rightarrow> run_id \<Rightarrow> int \<Rightarrow> string \<Rightarrow> service_status \<Rightarrow> string option \<Rightarrow> unit sched_prog" where
  "set_service sc run tk name status handle \<equiv> mapErrP SchedDb (set_run_service (sc_leader sc) run tk name status handle)"

definition launch_service_bounded ::
  "sched \<Rightarrow> run_id \<Rightarrow> int \<Rightarrow> shared_service \<Rightarrow> timestamp \<Rightarrow> timestamp \<Rightarrow> string option sched_prog" where
  "launch_service_bounded sc run tk svc created_at now =
     bindP (readP (ex_launch_service (sc_exec sc) run tk (sh_name svc) (sh_spec svc))) (\<lambda>launched.
     case launched of
       Inr h \<Rightarrow> bindP (set_service sc run tk (sh_name svc) SvStarting (Some h)) (\<lambda>_. returnP (Some h))
     | Inl _ \<Rightarrow>
         if cfg_service_ready_timeout_ms (sc_cfg sc) < now - created_at
         then bindP (set_service sc run tk (sh_name svc) SvFailed None) (\<lambda>_. returnP None)
         else returnP None)"

definition retire_take :: "sched \<Rightarrow> run_id \<Rightarrow> int \<Rightarrow> run_service \<Rightarrow> unit sched_prog" where
  "retire_take sc run tk r =
     (if sv_take r < tk \<and> \<not> service_status_is_terminal (sv_status r) then
        bindP (case sv_handle r of Some h \<Rightarrow> execP (ex_teardown_service (sc_exec sc) h) | None \<Rightarrow> returnP ()) (\<lambda>_.
        set_service sc run (sv_take r) (sv_name r) SvTornDown None)
      else returnP ())"

definition poll_service ::
  "sched \<Rightarrow> run_id \<Rightarrow> int \<Rightarrow> shared_service \<Rightarrow> run_service \<Rightarrow> timestamp \<Rightarrow> string \<Rightarrow> unit sched_prog" where
  "poll_service sc run tk svc r now h =
     bindP (execP (ex_service_ready (sc_exec sc) h)) (\<lambda>ready.
     if ready then set_service sc run tk (sh_name svc) SvReady None
     else if cfg_service_ready_timeout_ms (sc_cfg sc) < now - sv_created_at r
     then set_service sc run tk (sh_name svc) SvFailed None
     else returnP ())"

definition reconcile_service ::
  "sched \<Rightarrow> run_id \<Rightarrow> int \<Rightarrow> run_service list \<Rightarrow> timestamp \<Rightarrow> shared_service \<Rightarrow> unit sched_prog" where
  "reconcile_service sc run tk rows now svc =
     (case List.find (\<lambda>r. sv_take r = tk \<and> sv_name r = sh_name svc) rows of
        None \<Rightarrow>
          bindP (mapErrP SchedDb (create_run_service (sc_leader sc) run tk (sh_name svc) now)) (\<lambda>_.
          bindP (launch_service_bounded sc run tk svc now now) (\<lambda>_. returnP ()))
      | Some r \<Rightarrow>
          if sv_status r = SvStarting then
            bindP (case sv_handle r of
                     Some h \<Rightarrow> returnP (Some h)
                   | None \<Rightarrow> launch_service_bounded sc run tk svc (sv_created_at r) now) (\<lambda>handle.
            case handle of None \<Rightarrow> returnP () | Some h \<Rightarrow> poll_service sc run tk svc r now h)
          else if sv_status r \<in> {SvReady, SvRunning} then
            (case sv_handle r of
               None \<Rightarrow> returnP ()
             | Some h \<Rightarrow>
                 bindP (execP (ex_service_ready (sc_exec sc) h)) (\<lambda>ready.
                 if ready then returnP () else set_service sc run tk (sh_name svc) SvFailed None))
          else returnP ())"

definition reconcile_services_as_leader ::
  "sched \<Rightarrow> (json \<Rightarrow> shared_service option) \<Rightarrow> run_id \<Rightarrow> unit sched_prog" where
  "reconcile_services_as_leader sc decode run =
     bindP (readP (pipeline_services decode run)) (\<lambda>services.
     if services = [] then returnP ()
     else
       bindP (readP (run_status_of run)) (\<lambda>status.
       case status of
         None \<Rightarrow> throwP (RunNotFound run)
       | Some status \<Rightarrow>
           if run_is_terminal status then teardown_services sc run
           else
             bindP (readP (run_services run)) (\<lambda>rows.
             bindP (readP (sc_clk sc)) (\<lambda>now.
             bindP (forP rows (retire_take sc run (current_service_take rows))) (\<lambda>_.
             forP services (reconcile_service sc run (current_service_take rows) rows now))))))"

definition reconcile_services_leg :: "sched \<Rightarrow> (json \<Rightarrow> shared_service option) \<Rightarrow> run_id \<Rightarrow> leg sched_prog" where
  "reconcile_services_leg sc decode run =
     bindP (leader_term_now sc) (\<lambda>term'.
     case term' of
       None \<Rightarrow> returnP LegDone
     | Some t \<Rightarrow> leader_leg (reconcile_services_as_leader (as_leader t sc) decode run))"

section \<open>The next row of a service\<close>

type_synonym service_row = "service_status \<times> string option \<times> timestamp"

text \<open>The life of one service within a take, as one function of its row: \<open>timeout\<close> the deadline, \<open>ready\<close>
  the backend's answer for a handle, \<open>launched\<close> the handle a launch gives, if it gives one.\<close>

definition polled :: "int \<Rightarrow> timestamp \<Rightarrow> (string \<Rightarrow> bool) \<Rightarrow> string \<Rightarrow> timestamp \<Rightarrow> service_status" where
  "polled timeout now ready h created = (if ready h then SvReady else if timeout < now - created then SvFailed else SvStarting)"

fun service_next :: "int \<Rightarrow> timestamp \<Rightarrow> (string \<Rightarrow> bool) \<Rightarrow> string option \<Rightarrow> service_row option \<Rightarrow> service_row" where
  "service_next timeout now ready launched None =
     (if launched = None \<and> timeout < 0 then SvFailed else SvStarting, launched, now)"
| "service_next timeout now ready launched (Some (SvStarting, Some h, created)) =
     (polled timeout now ready h created, Some h, created)"
| "service_next timeout now ready launched (Some (SvStarting, None, created)) =
     (case launched of
        Some h \<Rightarrow> (polled timeout now ready h created, Some h, created)
      | None \<Rightarrow> (if timeout < now - created then SvFailed else SvStarting, None, created))"
| "service_next timeout now ready launched (Some (status, handle, created)) =
     (if status \<in> {SvReady, SvRunning} \<and> (\<exists>h. handle = Some h \<and> \<not> ready h) then SvFailed else status, handle, created)"

section \<open>A loop over service rows\<close>

text \<open>An operation per item that, with the term held, rewrites the row of the item's key and nothing
  else; over items with distinct keys the rewritings add up.\<close>

locale service_loop =
  fixes sc :: sched
    and key :: "'a \<Rightarrow> run_id \<times> int \<times> string"
    and upd :: "'a \<Rightarrow> service_row option \<Rightarrow> service_row option"
    and fits :: "'a \<Rightarrow> service_row option \<Rightarrow> bool"
    and op :: "'a \<Rightarrow> unit sched_prog"
  assumes op_ok: "holds_leader_term_if st (sc_leader sc) \<Longrightarrow> fits x (al_get (st_services st) (key x)) \<Longrightarrow>
    \<exists>st'. op x st = (Inr (), st') \<and> beside_services st st'
      \<and> al_get (st_services st') = (al_get (st_services st))(key x := upd x (al_get (st_services st) (key x)))"
begin

lemma rows_ok:
  assumes "holds_leader_term_if st (sc_leader sc)" "distinct (map key xs)" "\<And>x. x \<in> set xs \<Longrightarrow> fits x (al_get (st_services st) (key x))"
  shows "\<exists>st'. forP xs op st = (Inr (), st') \<and> beside_services st st'
    \<and> (\<forall>x \<in> set xs. al_get (st_services st') (key x) = upd x (al_get (st_services st) (key x)))
    \<and> (\<forall>k. k \<notin> key ` set xs \<longrightarrow> al_get (st_services st') k = al_get (st_services st) k)"
  using assms
proof (induction xs arbitrary: st)
  case (Cons x xs)
  obtain st1 where st1: "op x st = (Inr (), st1)" "beside_services st st1"
    "al_get (st_services st1) = (al_get (st_services st))(key x := upd x (al_get (st_services st) (key x)))"
    using op_ok [OF Cons.prems(1)] Cons.prems(3) by fastforce
  have h: "holds_leader_term_if st1 (sc_leader sc)"
    using Cons.prems(1) holds_cong [OF beside_services_sel(7) [OF st1(2)]] by simp
  have other: "al_get (st_services st1) (key y) = al_get (st_services st) (key y)" if "y \<in> set xs" for y
  proof -
    have "key y \<in> key ` set xs" using that by (rule imageI)
    then have "key y \<noteq> key x" using Cons.prems(2) by auto
    then show ?thesis by (simp add: st1(3))
  qed
  then have "\<And>y. y \<in> set xs \<Longrightarrow> fits y (al_get (st_services st1) (key y))" using Cons.prems(3) by simp
  from Cons.IH [OF h _ this] Cons.prems(2) obtain st2 where st2: "forP xs op st1 = (Inr (), st2)" "beside_services st1 st2"
    "\<forall>y \<in> set xs. al_get (st_services st2) (key y) = upd y (al_get (st_services st1) (key y))"
    "\<forall>k. k \<notin> key ` set xs \<longrightarrow> al_get (st_services st2) k = al_get (st_services st1) k" by auto
  have "forP (x # xs) op st = (Inr (), st2)" using st1(1) st2(1) by simp
  moreover have "al_get (st_services st2) (key x) = upd x (al_get (st_services st) (key x))"
    using st2(4) [rule_format, of "key x"] Cons.prems(2) by (simp add: st1(3))
  moreover have rest: "al_get (st_services st2) k = al_get (st_services st) k" if "k \<notin> key ` set (x # xs)" for k
    using that st2(4) [rule_format, of k] by (simp add: st1(3))
  ultimately show ?case
    using beside_services_trans [OF st1(2) st2(2)] st2(3) other rest by (intro exI [of _ st2]) simp
qed (simp add: returnP_def)

end

section \<open>Its two uses\<close>

lemma set_service_held:
  assumes "holds_leader_term_if st (sc_leader sc)"
  shows "set_service sc run tk name status handle st = (Inr (), case service_of st run tk name of None \<Rightarrow> st
    | Some (_, h, at) \<Rightarrow> st\<lparr>st_services := al_put (run, tk, name)
         (status, case handle of Some h' \<Rightarrow> Some h' | None \<Rightarrow> h, at) (st_services st)\<rparr>)"
  using assms by (auto simp: mapErrP_def set_run_service_def fenced_def split: option.splits)

lemma put_service_beside: "beside_services st (st\<lparr>st_services := rows\<rparr>)"
  by (simp add: beside_services_def)

definition retired_row :: "int \<Rightarrow> run_service \<Rightarrow> service_row option \<Rightarrow> service_row option" where
  "retired_row tk r old =
     (if sv_take r < tk \<and> \<not> service_status_is_terminal (sv_status r)
      then map_option (\<lambda>(_, h, at). (SvTornDown, h, at)) old else old)"

text \<open>An executor whose answers do not change while one pass runs.\<close>

definition steady :: "sched \<Rightarrow> run_id \<Rightarrow> int \<Rightarrow> (string \<Rightarrow> bool) \<Rightarrow> (shared_service \<Rightarrow> string option) \<Rightarrow> bool" where
  "steady sc run tk ready launched \<longleftrightarrow>
     (\<forall>h t. ex_service_ready (sc_exec sc) h t = Inr (ready h) \<and> ex_teardown_service (sc_exec sc) h t = Inr ())
     \<and> (\<forall>svc t. case launched svc of
          Some h \<Rightarrow> ex_launch_service (sc_exec sc) run tk (sh_name svc) (sh_spec svc) t = Inr h
        | None \<Rightarrow> isl (ex_launch_service (sc_exec sc) run tk (sh_name svc) (sh_spec svc) t))"

definition row_of :: "run_id \<Rightarrow> int \<Rightarrow> string \<Rightarrow> service_row \<Rightarrow> run_service" where
  "row_of run tk name row =
     (case row of (status, h, at) \<Rightarrow> \<lparr>sv_run = run, sv_take = tk, sv_name = name, sv_status = status, sv_handle = h, sv_created_at = at\<rparr>)"

lemma steadyD:
  assumes "steady sc run tk ready launched"
  shows "ex_service_ready (sc_exec sc) h t = Inr (ready h)" "ex_teardown_service (sc_exec sc) h t = Inr ()"
    "launched svc = Some h' \<Longrightarrow> ex_launch_service (sc_exec sc) run tk (sh_name svc) (sh_spec svc) t = Inr h'"
    "launched svc = None \<Longrightarrow> isl (ex_launch_service (sc_exec sc) run tk (sh_name svc) (sh_spec svc) t)"
proof -
  have "case launched svc of
          Some h \<Rightarrow> ex_launch_service (sc_exec sc) run tk (sh_name svc) (sh_spec svc) t = Inr h
        | None \<Rightarrow> isl (ex_launch_service (sc_exec sc) run tk (sh_name svc) (sh_spec svc) t)"
    using assms by (simp add: steady_def)
  then show "launched svc = Some h' \<Longrightarrow> ex_launch_service (sc_exec sc) run tk (sh_name svc) (sh_spec svc) t = Inr h'"
    "launched svc = None \<Longrightarrow> isl (ex_launch_service (sc_exec sc) run tk (sh_name svc) (sh_spec svc) t)" by simp_all
qed (use assms in \<open>simp_all add: steady_def\<close>)

lemma service_retire_ok:
  assumes "steady sc run tk ready launched" "holds_leader_term_if st (sc_leader sc)"
  shows "\<exists>st'. retire_take sc run tk r st = (Inr (), st') \<and> beside_services st st'
    \<and> al_get (st_services st') = (al_get (st_services st))((run, sv_take r, sv_name r) :=
        retired_row tk r (al_get (st_services st) (run, sv_take r, sv_name r)))"
  using set_service_held [OF assms(2), of run "sv_take r" "sv_name r" SvTornDown None] steadyD(2) [OF assms(1)]
  by (auto simp: retire_take_def retired_row_def bindP_def execP_def returnP_def put_service_beside
      split: option.splits)

lemma launch_ok:
  assumes "steady sc run tk ready launched" "holds_leader_term_if st (sc_leader sc)"
    and "service_of st run tk (sh_name svc) = Some (SvStarting, None, created)"
  shows "launch_service_bounded sc run tk svc created now st = (Inr (launched svc),
    case launched svc of
      Some h \<Rightarrow> st\<lparr>st_services := al_put (run, tk, sh_name svc) (SvStarting, Some h, created) (st_services st)\<rparr>
    | None \<Rightarrow> if cfg_service_ready_timeout_ms (sc_cfg sc) < now - created
        then st\<lparr>st_services := al_put (run, tk, sh_name svc) (SvFailed, None, created) (st_services st)\<rparr> else st)"
proof (cases "launched svc")
  case None
  then obtain e where "ex_launch_service (sc_exec sc) run tk (sh_name svc) (sh_spec svc) st = Inl e"
    using steadyD(4) [OF assms(1)] isl_def by metis
  then show ?thesis using None set_service_held [OF assms(2), of run tk "sh_name svc" SvFailed None] assms(3)
    by (simp add: launch_service_bounded_def bindP_def readP_def returnP_def)
next
  case (Some h)
  then show ?thesis using steadyD(3) [OF assms(1) Some] set_service_held [OF assms(2), of run tk "sh_name svc" SvStarting "Some h"] assms(3)
    by (simp add: launch_service_bounded_def bindP_def readP_def returnP_def)
qed

lemma poll_ok:
  assumes "steady sc run tk ready launched" "holds_leader_term_if st (sc_leader sc)"
    and "service_of st run tk (sh_name svc) = Some (SvStarting, Some h, created)" "sv_created_at r = created"
  shows "\<exists>st'. poll_service sc run tk svc r now h st = (Inr (), st') \<and> beside_services st st'
    \<and> al_get (st_services st') = (al_get (st_services st))((run, tk, sh_name svc) \<mapsto>
        (polled (cfg_service_ready_timeout_ms (sc_cfg sc)) now ready h created, Some h, created))"
  using steadyD(1) [OF assms(1)] set_service_held [OF assms(2), of run tk "sh_name svc"] assms(3,4)
  by (auto simp: poll_service_def bindP_def execP_def returnP_def polled_def put_service_beside)

lemma beside_held: "beside_services st st' \<Longrightarrow> holds_leader_term_if st l \<Longrightarrow> holds_leader_term_if st' l"
  using holds_cong beside_services_sel(7) by metis

lemma reconcile_service_ok:
  assumes st: "steady sc run tk ready launched" and held: "holds_leader_term_if st (sc_leader sc)"
    and row: "List.find (\<lambda>r. sv_take r = tk \<and> sv_name r = sh_name svc) rows
      = map_option (row_of run tk (sh_name svc)) (al_get (st_services st) (run, tk, sh_name svc))"
  shows "\<exists>st'. reconcile_service sc run tk rows now svc st = (Inr (), st') \<and> beside_services st st'
    \<and> al_get (st_services st') = (al_get (st_services st))((run, tk, sh_name svc) \<mapsto>
        service_next (cfg_service_ready_timeout_ms (sc_cfg sc)) now ready (launched svc) (al_get (st_services st) (run, tk, sh_name svc)))"
proof (cases "al_get (st_services st) (run, tk, sh_name svc)")
  case None
  let ?st = "st\<lparr>st_services := al_put (run, tk, sh_name svc) (SvStarting, None, now) (st_services st)\<rparr>"
  have create: "mapErrP SchedDb (create_run_service (sc_leader sc) run tk (sh_name svc) now) st = (Inr (), ?st)"
    using held None by (simp add: mapErrP_def create_run_service_def fenced_def)
  have "holds_leader_term_if ?st (sc_leader sc)" using beside_held [OF put_service_beside held] .
  note l = launch_ok [OF st this, of svc now now]
  show ?thesis using row None create l
    by (auto simp: reconcile_service_def bindP_def returnP_def put_service_beside split: option.splits)
next
  case (Some old)
  obtain status handle created where old: "old = (status, handle, created)" by (cases old)
  let ?r = "row_of run tk (sh_name svc) old"
  have r: "List.find (\<lambda>r. sv_take r = tk \<and> sv_name r = sh_name svc) rows = Some ?r" using row Some by simp
  have sel: "sv_status ?r = status" "sv_handle ?r = handle" "sv_created_at ?r = created" by (simp_all add: row_of_def old)
  show ?thesis
  proof (cases "status = SvStarting")
    case False
    then show ?thesis using r sel Some old steadyD(1) [OF st] set_service_held [OF held, of run tk "sh_name svc" SvFailed None]
      by (cases status; cases handle) (auto simp: reconcile_service_def bindP_def execP_def returnP_def put_service_beside)
  next
    case starting: True
    show ?thesis
    proof (cases handle)
      case (Some h)
      then show ?thesis using poll_ok [OF st held, of svc h created ?r now] r sel \<open>al_get _ _ = Some old\<close> old starting
        by (simp add: reconcile_service_def bindP_def returnP_def)
    next
      case None
      have held1: "service_of st run tk (sh_name svc) = Some (SvStarting, None, created)"
        using \<open>al_get _ _ = Some old\<close> old starting None by simp
      note l = launch_ok [OF st held held1, of now]
      show ?thesis
      proof (cases "launched svc")
        case no: None
        then show ?thesis using l r sel held1 starting None
          by (auto simp: reconcile_service_def bindP_def returnP_def put_service_beside)
      next
        case (Some h)
        let ?st = "st\<lparr>st_services := al_put (run, tk, sh_name svc) (SvStarting, Some h, created) (st_services st)\<rparr>"
        have "holds_leader_term_if ?st (sc_leader sc)" using beside_held [OF put_service_beside held] .
        from poll_ok [OF st this, of svc h created ?r now] sel(3) obtain st' where st': "poll_service sc run tk svc ?r now h ?st = (Inr (), st')"
          "beside_services ?st st'" "al_get (st_services st') = (al_get (st_services ?st))((run, tk, sh_name svc) \<mapsto>
             (polled (cfg_service_ready_timeout_ms (sc_cfg sc)) now ready h created, Some h, created))" by auto
        have "reconcile_service sc run tk rows now svc st = (Inr (), st')"
          using l r sel starting None Some st'(1) by (simp add: reconcile_service_def bindP_def)
        then show ?thesis using st'(2,3) held1 Some beside_services_trans [OF put_service_beside st'(2)]
          by (intro exI [of _ st']) (auto simp: fun_eq_iff)
      qed
    qed
  qed
qed

interpretation retire_loop: service_loop sc "\<lambda>r. (run, sv_take r, sv_name r)" "retired_row tk"
  "\<lambda>_ _. steady sc run tk ready launched" "retire_take sc run tk" for sc run tk ready launched
  by unfold_locales (rule service_retire_ok)

interpretation reconcile_loop: service_loop sc "\<lambda>svc. (run, tk, sh_name svc)"
  "\<lambda>svc old. Some (service_next (cfg_service_ready_timeout_ms (sc_cfg sc)) now ready (launched svc) old)"
  "\<lambda>svc old. steady sc run tk ready launched
     \<and> List.find (\<lambda>r. sv_take r = tk \<and> sv_name r = sh_name svc) rows = map_option (row_of run tk (sh_name svc)) old"
  "reconcile_service sc run tk rows now" for sc run tk ready launched rows now
  by unfold_locales (use reconcile_service_ok in blast)

section \<open>The rows a pass reads\<close>

lemma run_services_rows:
  "sv \<in> set (run_services run st) \<Longrightarrow> al_wf (st_services st) \<Longrightarrow>
     \<exists>row. service_of st run (sv_take sv) (sv_name sv) = Some row \<and> sv = row_of run (sv_take sv) (sv_name sv) row"
  by (auto simp: run_services_mem al_get_mem row_of_def)

lemma run_services_has:
  "service_of st run tk name = Some row \<Longrightarrow> row_of run tk name row \<in> set (run_services run st)"
  by (cases row) (auto simp: run_services_mem row_of_def dest: map_of_SomeD)

lemma run_services_distinct:
  assumes "al_wf (st_services st)"
  shows "distinct (map (\<lambda>r. (run, sv_take r, sv_name r)) (run_services run st))"
proof -
  have "distinct (map (\<lambda>r. (run, sv_take r, sv_name r)) (List.map_filter (\<lambda>((r, tk, name), (status, handle, created)).
          if r = run then Some \<lparr>sv_run = r, sv_take = tk, sv_name = name, sv_status = status,
                                sv_handle = handle, sv_created_at = created\<rparr> else None) rows))"
    if "distinct (map fst rows)" for rows :: "((run_id \<times> int \<times> string) \<times> service_status \<times> string option \<times> timestamp) list"
    using that by (induction rows) (force simp: List.map_filter_simps map_filter_set split: option.splits if_splits)+
  then show ?thesis using assms by (simp add: run_services_def al_wf_def distinct_map inj_on_def)
qed

lemma find_row:
  assumes "al_wf (st_services st)"
  shows "List.find (\<lambda>r. sv_take r = tk \<and> sv_name r = name) (run_services run st)
    = map_option (row_of run tk name) (service_of st run tk name)"
proof (cases "List.find (\<lambda>r. sv_take r = tk \<and> sv_name r = name) (run_services run st)")
  case None
  then have no: "\<not> (\<exists>r. r \<in> set (run_services run st) \<and> sv_take r = tk \<and> sv_name r = name)" by (auto simp: find_None_iff)
  have "service_of st run tk name = None"
  proof (rule ccontr)
    assume "service_of st run tk name \<noteq> None"
    then obtain row where "service_of st run tk name = Some row" by blast
    from run_services_has [OF this] no show False by (cases row) (simp add: row_of_def, force)
  qed
  then show ?thesis using None by simp
next
  case (Some r)
  then have "r \<in> set (run_services run st)" "sv_take r = tk" "sv_name r = name" by (auto simp: find_Some_iff)
  then show ?thesis using run_services_rows [OF _ assms, of r run] Some by auto
qed

lemma current_take_bound: "r \<in> set rows \<Longrightarrow> sv_take r \<le> current_service_take rows"
  by (auto simp: current_service_take_def)

section \<open>A concrete run with a service\<close>

definition demo_serving :: store where
  "demo_serving = store_run_ir ''r'' (JObj [(''services'', JArr [JStr ''db''])]) (begin_run_creation ''r'' 0 empty_store)"

definition demo_decode :: "json \<Rightarrow> shared_service option" where
  "demo_decode j = (case j of JStr n \<Rightarrow> Some \<lparr>sh_name = n, sh_spec = JNull\<rparr> | _ \<Rightarrow> None)"

lemma demo_serving_reachable: "\<exists>c. reachable c \<and> cf_store c = demo_serving"
  using runs_as_reachable [OF _ reach_init, of demo_serving] runs_trans [OF runs_aux [OF aux_begin] runs_aux [OF aux_ir]]
  by (simp add: demo_serving_def init_cfg_def)

lemma demo_serving_tables:
  "run_status_of ''r'' demo_serving = Some RPending" "run_services ''r'' demo_serving = []" "service_of demo_serving ''r'' 1 ''db'' = None"
  "pipeline_services demo_decode ''r'' demo_serving = [\<lparr>sh_name = ''db'', sh_spec = JNull\<rparr>]"
  by (simp_all add: demo_serving_def store_run_ir_def begin_run_creation_def create_run_def Let_def empty_store_def run_status_of_def
      run_services_def List.map_filter_simps pipeline_services_def demo_decode_def)

section \<open>Properties\<close>

text \<open>C20: the shared services of a run, one pass. From any reachable configuration, with the term
  held, for an open run with declared services under distinct names and an executor whose answers do
  not change during the pass: the pass succeeds, touches nothing but service rows of this run, and
  every declared service of the current take moves as \<open>service_next\<close> says. It is born \<open>Starting\<close>, becomes
  \<open>Ready\<close> when the backend says so, and \<open>Failed\<close> past the deadline or when it was ready and no longer is;
  \<open>Failed\<close> and \<open>TornDown\<close> are final for the take. No service of an earlier take is left alive.\<close>

theorem services_fail_closed:
  assumes "reachable c" "holds_leader_term_if (cf_store c) (sc_leader sc)"
    and "run_status_of run (cf_store c) = Some status" "\<not> run_is_terminal status"
    and "services = pipeline_services decode run (cf_store c)" "services \<noteq> []" "distinct (map sh_name services)"
    and "tk = current_service_take (run_services run (cf_store c))" "steady sc run tk ready launched"
  shows "\<exists>st'. reconcile_services_as_leader sc decode run (cf_store c) = (Inr (), st') \<and> beside_services (cf_store c) st'
    \<and> (\<forall>svc \<in> set services. service_of st' run tk (sh_name svc) =
         Some (service_next (cfg_service_ready_timeout_ms (sc_cfg sc)) (sc_clk sc (cf_store c)) ready (launched svc)
           (service_of (cf_store c) run tk (sh_name svc))))
    \<and> (\<forall>t name row. t < tk \<and> service_of st' run t name = Some row \<longrightarrow> service_status_is_terminal (fst row))
    \<and> (\<forall>r t name. r \<noteq> run \<longrightarrow> service_of st' r t name = service_of (cf_store c) r t name)"
proof -
  let ?st = "cf_store c" and ?rows = "run_services run (cf_store c)"
  have wf: "al_wf (st_services ?st)" by (rule reachable_services [OF assms(1)])
  obtain st1 where st1: "forP ?rows (retire_take sc run tk) ?st = (Inr (), st1)" "beside_services ?st st1"
    "\<forall>r \<in> set ?rows. service_of st1 run (sv_take r) (sv_name r) = retired_row tk r (service_of ?st run (sv_take r) (sv_name r))"
    "\<forall>k. k \<notin> (\<lambda>r. (run, sv_take r, sv_name r)) ` set ?rows \<longrightarrow> al_get (st_services st1) k = al_get (st_services ?st) k"
    using retire_loop.rows_ok [OF assms(2) run_services_distinct [OF wf] assms(9)] by blast
  have same: "service_of st1 run tk name = service_of ?st run tk name" for name
  proof (cases "(run, tk, name) \<in> (\<lambda>r. (run, sv_take r, sv_name r)) ` set ?rows")
    case True
    then show ?thesis using st1(3) by (auto simp: retired_row_def)
  qed (use st1(4) in blast)
  have early: "service_status_is_terminal (fst row)" if "t < tk" "service_of st1 run t name = Some row" for t name row
  proof -
    have in_rows: "(run, t, name) \<in> (\<lambda>r. (run, sv_take r, sv_name r)) ` set ?rows" if "service_of ?st run t name = Some row" for row
      using run_services_has [OF that] by (force simp: row_of_def split: prod.splits)
    show ?thesis
    proof (cases "service_of ?st run t name")
      case None
      then have "(run, t, name) \<notin> (\<lambda>r. (run, sv_take r, sv_name r)) ` set ?rows"
        using run_services_rows [OF _ wf] by fastforce
      then show ?thesis using None st1(4) that(2) by simp
    next
      case (Some old)
      let ?r = "row_of run t name old"
      have "?r \<in> set ?rows" by (rule run_services_has [OF Some])
      then have "service_of st1 run t name = retired_row tk ?r (Some old)" using st1(3) Some by (force simp: row_of_def split: prod.splits)
      then show ?thesis using that by (auto simp: retired_row_def row_of_def service_status_is_terminal_def split: prod.splits if_splits)
    qed
  qed
  have h1: "holds_leader_term_if st1 (sc_leader sc)" by (rule beside_held [OF st1(2) assms(2)])
  have d: "distinct (map (\<lambda>svc. (run, tk, sh_name svc)) services)" using assms(7) by (simp add: distinct_map inj_on_def)
  obtain st' where st': "forP services (reconcile_service sc run tk ?rows (sc_clk sc ?st)) st1 = (Inr (), st')" "beside_services st1 st'"
    "\<forall>svc \<in> set services. service_of st' run tk (sh_name svc) = Some (service_next (cfg_service_ready_timeout_ms (sc_cfg sc))
       (sc_clk sc ?st) ready (launched svc) (service_of st1 run tk (sh_name svc)))"
    "\<forall>k. k \<notin> (\<lambda>svc. (run, tk, sh_name svc)) ` set services \<longrightarrow> al_get (st_services st') k = al_get (st_services st1) k"
    using reconcile_loop.rows_ok [OF h1 d, of ready launched ?rows "sc_clk sc ?st"] assms(9) find_row [OF wf, of tk _ run] same by auto
  have "reconcile_services_as_leader sc decode run ?st = (Inr (), st')"
    using assms(3-6,8) st1(1) st'(1) by (simp add: reconcile_services_as_leader_def bindP_def readP_def)
  moreover have "service_of st' run t name = service_of st1 run t name" if "t < tk" for t name using that st'(4) [THEN spec, of "(run, t, name)"] by auto
  moreover have "service_of st' r t name = service_of ?st r t name" if "r \<noteq> run" for r t name
    using that st'(4) [THEN spec, of "(r, t, name)"] st1(4) [THEN spec, of "(r, t, name)"] by auto
  ultimately show ?thesis using beside_services_trans [OF st1(2) st'(2)] st'(3) same early
    by (intro exI [of _ st']) auto
qed

theorem services_fail_closed_witness:
  "\<exists>st'. reconcile_services_as_leader (demo_sched 5) demo_decode ''r'' demo_serving = (Inr (), st')
     \<and> service_of st' ''r'' 1 ''db'' = Some (SvStarting, Some ''service'', 5)"
proof -
  obtain c where c: "reachable c" "cf_store c = demo_serving" using demo_serving_reachable by blast
  have "steady (demo_sched 5) ''r'' 1 (\<lambda>_. True) (\<lambda>_. Some ''service'')" by (simp add: steady_def demo_sched_def demo_exec_def)
  moreover have "current_service_take (run_services ''r'' demo_serving) = 1" by (simp add: demo_serving_tables(2) current_service_take_def)
  ultimately show ?thesis
    using services_fail_closed [OF c(1), of "demo_sched 5" "''r''" RPending _ demo_decode 1 "\<lambda>_. True" "\<lambda>_. Some ''service''"] demo_serving_tables
    unfolding c(2) by (auto simp: demo_sched_def holds_leader_term_if_def)
qed

end
