(* ===== verification/Launch.thy ===== *)
theory Launch
  imports Services
begin

text \<open>
  The drain of launch intents (\<^verbatim>\<open>crates/scarab-engine/src/scheduler.rs\<close>: \<^verbatim>\<open>reconcile\<close>,
  \<^verbatim>\<open>process_launch_intent\<close> and what it calls): launch a wanted attempt once, adopt a unit another process
  launched, record what a finished unit leaves behind, settle the attempt, and count deliveries that
  fail.

  A launch takes time. What every other actor makes of the store while the call is under way is the
  parameter \<open>le_meanwhile\<close>, an arbitrary function of the store: the code looks at the attempt again when
  the call returns, and so does the model. The renderer of a launch specification, the snapshot oracle
  and SHA-256 are parameters too. The loop that renews the claim of a message beside the work is not
  modelled: a claim lost half way stops the work at an await point, like a crash there.
\<close>

section \<open>Supervision\<close>

text \<open>The attempts this process has launched or polled.\<close>

type_synonym supervised = "string list"
type_synonym 'a drive = "(store \<times> supervised, sched_error, 'a) prog"

definition liftS :: "'a sched_prog \<Rightarrow> 'a drive" where
  "liftS m w = (case m (fst w) of (r, st') \<Rightarrow> (r, (st', snd w)))"

definition first_contact :: "string \<Rightarrow> bool drive" where
  "first_contact key w = (Inr (key \<notin> set (snd w)), (fst w, List.insert key (snd w)))"

definition supervision_key :: "run_id \<Rightarrow> step_id \<Rightarrow> attempt_id \<Rightarrow> string" where
  "supervision_key run step att = run @ '':'' @ step @ '':'' @ att"

section \<open>The specification of a launch\<close>

type_synonym snap_oracle = "string \<Rightarrow> string \<Rightarrow> store \<Rightarrow> unit + string option"

record launch_env =
  le_render :: "run_id \<Rightarrow> step_id \<Rightarrow> step_spec \<Rightarrow> store \<Rightarrow> db_error + (string + step_spec)"
  le_snapshots :: "snap_oracle option"
  le_sha256_hex :: "string \<Rightarrow> string"
  le_meanwhile :: "store \<Rightarrow> store"

definition outputs_of :: "run_id \<Rightarrow> step_run list \<Rightarrow> store \<Rightarrow> step_id \<rightharpoonup> string" where
  "outputs_of run all st = (\<lambda>x. if x \<in> sr_step ` set all then step_output_of run x st else None)"

definition upstream :: "step_run \<Rightarrow> step_id list option \<Rightarrow> step_id list" where
  "upstream me explicit = remdups_adj (sort (consumed (sr_needs me) explicit @ sr_needs me))"

definition consumed_attempts :: "run_id \<Rightarrow> step_id list \<Rightarrow> store \<Rightarrow> (string \<times> string) list" where
  "consumed_attempts run ups st = List.map_filter (\<lambda>up. map_option (\<lambda>a. (up, a)) (step_evidence_attempt run up st)) ups"

text \<open>The workspaces the step consumes, and what is stamped of them on the attempt.\<close>

definition stamp_inputs :: "run_id \<Rightarrow> step_id \<Rightarrow> attempt_id \<Rightarrow> step_spec \<Rightarrow> step_spec sched_prog" where
  "stamp_inputs run step att spec =
     bindP (readP (steps_of_run run)) (\<lambda>all.
     case find_step step all of
       None \<Rightarrow> returnP spec
     | Some me \<Rightarrow>
         bindP (readP (step_inputs_of run step)) (\<lambda>explicit.
         bindP (readP (outputs_of run all)) (\<lambda>output_of.
         let input_steps = workspace_input_steps (sr_needs me) explicit output_of in
         bindP (if input_steps = [] then returnP ()
                else writeP (set_attempt_workspace_input_steps run step att input_steps)) (\<lambda>_.
         bindP (readP (consumed_attempts run (upstream me explicit))) (\<lambda>cons.
         bindP (if cons = [] then returnP () else writeP (set_attempt_consumed run step att cons)) (\<lambda>_.
         returnP (spec\<lparr>ss_workspace_inputs := workspace_inputs (sr_needs me) explicit output_of\<rparr>)))))))"

text \<open>The last input root that holds a file owns it; a failed probe proves nothing.\<close>

fun probe_file :: "snap_oracle \<Rightarrow> string list \<Rightarrow> string \<Rightarrow> store \<Rightarrow> unit + string option" where
  "probe_file oracle [] path st = Inr None"
| "probe_file oracle (root # roots) path st =
     (case oracle root path st of
        Inr (Some hash) \<Rightarrow> Inr (Some hash)
      | Inr None \<Rightarrow> probe_file oracle roots path st
      | Inl _ \<Rightarrow> Inl ())"

fun resolve_files :: "snap_oracle \<Rightarrow> string list \<Rightarrow> string list \<Rightarrow> store \<Rightarrow> (string \<times> string) list option" where
  "resolve_files oracle roots [] st = Some []"
| "resolve_files oracle roots (path # paths) st =
     (case probe_file oracle (rev roots) path st of
        Inr (Some hash) \<Rightarrow> map_option ((#) (path, hash)) (resolve_files oracle roots paths st)
      | _ \<Rightarrow> None)"

definition restore_of :: "string \<Rightarrow> string list \<Rightarrow> store \<Rightarrow> string \<Rightarrow> (string \<times> string) list" where
  "restore_of project dirs st key =
     (let rows = cache_lookup project key st in
      List.map_filter (\<lambda>dir. map_option (\<lambda>root. (dir, root)) (map_of rows dir)) dirs)"

definition project_of :: "run_id \<Rightarrow> store \<Rightarrow> string option" where
  "project_of run st = (case st_project st run of Some p \<Rightarrow> if p = [] then None else Some p | None \<Rightarrow> None)"

definition enrich_cache :: "launch_env \<Rightarrow> run_id \<Rightarrow> step_spec \<Rightarrow> store \<Rightarrow> step_spec" where
  "enrich_cache env run spec st =
     (case (ss_cache spec, le_snapshots env, project_of run st, st_cache_scope st run) of
        (Some cache, Some oracle, Some project, Some scope) \<Rightarrow>
          if cc_dirs cache = [] \<or> cc_key_files cache = [] then spec
          else
            (case resolve_files oracle (ss_workspace_inputs spec) (cc_key_files cache) st of
               None \<Rightarrow> spec
             | Some resolved \<Rightarrow>
                 let key = cache_key (le_sha256_hex env) project (cs_own scope) resolved;
                     fallback = map_option (\<lambda>f. cache_key (le_sha256_hex env) project f resolved) (cs_fallback scope);
                     own = restore_of project (cc_dirs cache) st key;
                     other = (case fallback of Some f \<Rightarrow> restore_of project (cc_dirs cache) st f | None \<Rightarrow> [])
                 in spec\<lparr>ss_cache := Some (cache\<lparr>cc_key := Some key,
                      cc_restore := (if own \<noteq> [] then own else other),
                      cc_fallback_key := (if own = [] \<and> other \<noteq> [] then fallback else None)\<rparr>)\<rparr>)
      | _ \<Rightarrow> spec)"

section \<open>Launching\<close>

definition fenced_step :: "run_id \<Rightarrow> step_id \<Rightarrow> attempt_id \<Rightarrow> timestamp \<Rightarrow> step_run" where
  "fenced_step run step att now =
     \<lparr>sr_run = run, sr_step = step, sr_status = SRunning,
      sr_attempts = [\<lparr>at_id = att, at_started_at = now, at_failure = None, at_failure_detail = None, at_outcome = AORunning\<rparr>],
      sr_needs = [], sr_gate_kind = None\<rparr>"

text \<open>The call of the backend: its answer, and the store the others leave while it runs.\<close>

definition call_launch :: "sched \<Rightarrow> launch_env \<Rightarrow> step_run \<Rightarrow> step_spec \<Rightarrow> (exec_error + string) sched_prog" where
  "call_launch sc env step spec st = (Inr (ex_launch (sc_exec sc) step spec st), le_meanwhile env st)"

definition dispatched :: "outbox_message \<Rightarrow> unit sched_prog" where
  "dispatched msg = writeP (mark_dispatched (om_id msg))"

text \<open>A permanent refusal before the start is the step's verdict.\<close>

definition refuse_launch :: "sched \<Rightarrow> outbox_message \<Rightarrow> run_id \<Rightarrow> step_id \<Rightarrow> attempt_id \<Rightarrow> string \<Rightarrow> string option sched_prog" where
  "refuse_launch sc msg run step att reason =
     bindP (finalize_step (sc_clk sc) run step att SFailed (Some FConfig) (Some reason)) (\<lambda>_.
     bindP (dispatched msg) (\<lambda>_. returnP None))"

text \<open>The handle to poll, or \<open>None\<close> when the message is done with.\<close>

definition launch_unit ::
  "sched \<Rightarrow> launch_env \<Rightarrow> outbox_message \<Rightarrow> run_id \<Rightarrow> step_id \<Rightarrow> attempt_id \<Rightarrow> string option sched_prog" where
  "launch_unit sc env msg run step att =
     bindP (readP (launch_still_wanted run step att)) (\<lambda>wanted.
     if \<not> wanted then
       bindP (adopt_unit_of_refused_launch sc run step att) (\<lambda>_.
       bindP (dispatched msg) (\<lambda>_. returnP None))
     else
       bindP (readP (\<lambda>st. Option.bind (step_of st run step) rc_spec)) (\<lambda>spec.
       case spec of
         None \<Rightarrow> throwP (MissingSpec step)
       | Some spec \<Rightarrow>
           bindP (stamp_inputs run step att spec) (\<lambda>spec.
           bindP (readP (enrich_cache env run spec)) (\<lambda>spec.
           bindP (readP (le_render env run step spec)) (\<lambda>rendered.
           case rendered of
             Inl e \<Rightarrow> throwP (SchedDb e)
           | Inr (Inl reason) \<Rightarrow> refuse_launch sc msg run step att reason
           | Inr (Inr spec) \<Rightarrow>
               bindP (readP (sc_clk sc)) (\<lambda>now.
               bindP (call_launch sc env (fenced_step run step att now) spec) (\<lambda>answer.
               case answer of
                 Inl (Refused reason) \<Rightarrow> refuse_launch sc msg run step att reason
               | Inl e \<Rightarrow> throwP (SchedExec e)
               | Inr handle \<Rightarrow>
                   bindP (writeP (set_attempt_handle run step att handle)) (\<lambda>_.
                   bindP (readP (launch_still_wanted run step att)) (\<lambda>still.
                   if still then returnP (Some handle)
                   else
                     bindP (enqueue_late_launch_teardown sc run step att) (\<lambda>_.
                     bindP (dispatched msg) (\<lambda>_. returnP None)))))))))))"

section \<open>What a finished unit leaves\<close>

definition record_cache_saves :: "sched \<Rightarrow> run_id \<Rightarrow> step_id \<Rightarrow> attempt_id \<Rightarrow> string \<Rightarrow> unit sched_prog" where
  "record_cache_saves sc run step att handle =
     bindP (readP (ex_cache_saves (sc_exec sc) handle)) (\<lambda>saves.
     case saves of
       Inr (Some saves) \<Rightarrow>
         if sa_key saves = [] \<or> sa_roots saves = [] then returnP ()
         else
           bindP (readP (project_of run)) (\<lambda>project.
           case project of
             None \<Rightarrow> returnP ()
           | Some project \<Rightarrow>
               bindP (readP (sc_clk sc)) (\<lambda>now.
               forP (sa_roots saves) (\<lambda>(dir, root).
                 writeP (cache_record project (sa_key saves) dir root (run, step, att) now))))
     | _ \<Rightarrow> returnP ())"

definition launched_inputs :: "run_id \<Rightarrow> step_id \<Rightarrow> attempt_id \<Rightarrow> store \<Rightarrow> step_id list option" where
  "launched_inputs run step att st =
     (case attempt_workspace_input_steps run step att st of
        Some steps \<Rightarrow> Some steps
      | None \<Rightarrow>
          (let all = steps_of_run run st in
           map_option (\<lambda>me. workspace_input_steps (sr_needs me) (step_inputs_of run step st) (outputs_of run all st))
             (find_step step all)))"

definition resolve_collision :: "step_id list \<Rightarrow> provisioning_collision \<Rightarrow> workspace_collision option" where
  "resolve_collision ordered c =
     (if pc_winner c < length ordered \<and> pc_loser c < length ordered
      then Some \<lparr>wc_path = pc_path c, wc_winner = ordered ! pc_winner c, wc_loser = ordered ! pc_loser c\<rparr>
      else None)"

definition record_workspace_collisions :: "sched \<Rightarrow> run_id \<Rightarrow> step_id \<Rightarrow> attempt_id \<Rightarrow> string \<Rightarrow> unit sched_prog" where
  "record_workspace_collisions sc run step att handle =
     bindP (readP (ex_provisioning (sc_exec sc) handle)) (\<lambda>report.
     case report of
       Inr (Some r) \<Rightarrow>
         if pr_collisions r = 0 then returnP ()
         else
           bindP (readP (launched_inputs run step att)) (\<lambda>ordered.
           case ordered of
             None \<Rightarrow> returnP ()
           | Some ordered \<Rightarrow>
               bindP (readP (sc_clk sc)) (\<lambda>now.
               append_log run (WorkspaceInputCollisions step att (pr_collisions r)
                 (List.map_filter (resolve_collision ordered) (pr_sample r))) now))
     | _ \<Rightarrow> returnP ())"

definition record_output :: "sched \<Rightarrow> run_id \<Rightarrow> step_id \<Rightarrow> attempt_id \<Rightarrow> string \<Rightarrow> unit sched_prog" where
  "record_output sc run step att handle =
     bindP (execP (ex_output (sc_exec sc) handle)) (\<lambda>out.
     case out of
       None \<Rightarrow> returnP ()
     | Some root \<Rightarrow>
         bindP (execP (ex_output_identity (sc_exec sc) handle)) (\<lambda>identity.
         mapErrP SchedDb (commitP (set_step_output run step att root identity))))"

definition record_results :: "sched \<Rightarrow> run_id \<Rightarrow> step_id \<Rightarrow> attempt_id \<Rightarrow> string \<Rightarrow> unit sched_prog" where
  "record_results sc run step att handle =
     bindP (execP (ex_results (sc_exec sc) handle)) (\<lambda>results.
     if results = [] then returnP () else mapErrP SchedDb (commitP (set_step_results run step att results)))"

definition record_artifacts :: "sched \<Rightarrow> run_id \<Rightarrow> step_id \<Rightarrow> attempt_id \<Rightarrow> bool \<Rightarrow> string \<Rightarrow> unit sched_prog" where
  "record_artifacts sc run step att succeeded handle =
     bindP (execP (ex_artifacts (sc_exec sc) handle)) (\<lambda>artifacts.
     if artifacts = [] then returnP ()
     else bindP (readP (sc_clk sc)) (\<lambda>now. writeP (put_artifacts run step att succeeded artifacts now)))"

section \<open>Settling a polled unit\<close>

definition succeed_unit :: "sched \<Rightarrow> run_id \<Rightarrow> step_id \<Rightarrow> attempt_id \<Rightarrow> string \<Rightarrow> unit sched_prog" where
  "succeed_unit sc run step att handle =
     bindP (record_output sc run step att handle) (\<lambda>_.
     bindP (record_results sc run step att handle) (\<lambda>_.
     bindP (record_artifacts sc run step att True handle) (\<lambda>_.
     bindP (record_cache_saves sc run step att handle) (\<lambda>_.
     bindP (record_workspace_collisions sc run step att handle) (\<lambda>_.
     succeed_step (sc_clk sc) run step att)))))"

definition kind_of_class :: "failure_class \<Rightarrow> failure_kind" where
  "kind_of_class cl =
     (case cl of
        ClInfra b \<Rightarrow> FInfra b | ClStep \<Rightarrow> FStep | ClTimeout \<Rightarrow> FTimeout
      | ClConfig \<Rightarrow> FConfig | ClMissingInputs \<Rightarrow> FMissingInputs)"

definition fail_unit ::
  "sched \<Rightarrow> run_id \<Rightarrow> step_id \<Rightarrow> attempt_id \<Rightarrow> failure_class \<Rightarrow> string option \<Rightarrow> string \<Rightarrow> unit sched_prog" where
  "fail_unit sc run step att cl cause handle =
     bindP (record_artifacts sc run step att False handle) (\<lambda>_.
     bindP (if cl = ClStep then record_workspace_collisions sc run step att handle else returnP ()) (\<lambda>_.
     settle_failed_attempt (sc_clk sc) run step att (kind_of_class cl) cause))"

text \<open>Whether the attempt has outlived its deadline and its grace.\<close>

definition timed_out :: "sched \<Rightarrow> run_id \<Rightarrow> step_id \<Rightarrow> attempt_id \<Rightarrow> store \<Rightarrow> bool" where
  "timed_out sc run step att st =
     (case List.find (\<lambda>a. at_id a = att) (attempts_of_step run step st) of
        None \<Rightarrow> False
      | Some a \<Rightarrow>
          at_started_at a + step_timeout_ms (cfg_default_step_timeout_ms (sc_cfg sc)) run step st + TIMEOUT_BACKSTOP_GRACE_MS
            \<le> sc_clk sc st)"

definition drive_unit ::
  "sched \<Rightarrow> outbox_message \<Rightarrow> run_id \<Rightarrow> step_id \<Rightarrow> attempt_id \<Rightarrow> string \<Rightarrow> unit sched_prog" where
  "drive_unit sc msg run step att handle =
     bindP (execP (ex_poll (sc_exec sc) handle)) (\<lambda>state.
     case state of
       ExSucceeded \<Rightarrow> bindP (succeed_unit sc run step att handle) (\<lambda>_. dispatched msg)
     | ExFailed _ cl cause \<Rightarrow> bindP (fail_unit sc run step att cl cause handle) (\<lambda>_. dispatched msg)
     | ExLost \<Rightarrow> bindP (settle_failed_attempt (sc_clk sc) run step att FLost None) (\<lambda>_. dispatched msg)
     | _ \<Rightarrow>
         bindP (readP (timed_out sc run step att)) (\<lambda>late.
         if late then
           bindP (readP (ex_cancel (sc_exec sc) handle)) (\<lambda>_.
           bindP (settle_failed_attempt (sc_clk sc) run step att FTimeout None) (\<lambda>_. dispatched msg))
         else returnP ()))"

section \<open>One intent\<close>

definition process_launch_intent :: "sched \<Rightarrow> launch_env \<Rightarrow> outbox_message \<Rightarrow> unit drive" where
  "process_launch_intent sc env msg =
     (case om_payload msg of
        LaunchIntent run step att \<Rightarrow>
          bindP (liftS (readP (\<lambda>st. st_handles st (run, step, att)))) (\<lambda>handle.
          bindP (case handle of
                   Some h \<Rightarrow>
                     bindP (first_contact (supervision_key run step att)) (\<lambda>fresh.
                     bindP (if fresh then liftS (bindP (readP (sc_clk sc)) (append_log run (AttemptReadopted step att)))
                            else returnP ()) (\<lambda>_. returnP (Some h)))
                 | None \<Rightarrow>
                     bindP (liftS (launch_unit sc env msg run step att)) (\<lambda>launched.
                     case launched of
                       None \<Rightarrow> returnP None
                     | Some h \<Rightarrow> bindP (first_contact (supervision_key run step att)) (\<lambda>_. returnP (Some h)))) (\<lambda>handle.
          case handle of
            None \<Rightarrow> returnP ()
          | Some h \<Rightarrow> liftS (drive_unit sc msg run step att h)))
      | p \<Rightarrow> throwP (BadPayload (sc_decode_error sc p)))"

section \<open>The drain\<close>

definition poison_reason :: "sched \<Rightarrow> outbox_message \<Rightarrow> sched_error \<Rightarrow> string" where
  "poison_reason sc msg e =
     ''outbox message `'' @ om_kind msg @ ''` (id '' @ int_str (om_id msg) @ '') exceeded '' @ max_str @
     '' failed deliveries '' @ dash @ '' poison; last error: '' @ sc_show sc e"

definition count_launch_failure :: "sched \<Rightarrow> outbox_message \<Rightarrow> sched_error \<Rightarrow> unit sched_prog" where
  "count_launch_failure sc msg e =
     bindP (mapErrP SchedDb (record_outbox_failure (om_id msg))) (\<lambda>failures.
     if MAX_DELIVERY_ATTEMPTS \<le> failures then
       bindP (writeP (dead_letter_outbox (om_id msg))) (\<lambda>_.
       dead_letter_run sc (om_run msg) (poison_reason sc msg e))
     else returnP ())"

text \<open>\<open>None\<close> when the claim was lost before the work started; the result of the work, an error
  included, otherwise.\<close>

definition while_claimed :: "sched \<Rightarrow> outbox_message \<Rightarrow> 'a drive \<Rightarrow> (sched_error + 'a) option drive" where
  "while_claimed sc msg work =
     (let window = cfg_outbox_visibility_ms (sc_cfg sc);
          run_it = (\<lambda>w. case work w of (r, w') \<Rightarrow> (Inr (Some r), w')) in
      if window \<le> 0 then run_it
      else
        bindP (liftS (bindP (readP (sc_instant sc)) (\<lambda>now.
          mapErrP SchedDb (renew_outbox_claim now (om_id msg) (sc_owner sc) window)))) (\<lambda>mine.
        if mine then run_it else returnP None))"

definition reconcile_message :: "sched \<Rightarrow> launch_env \<Rightarrow> outbox_message \<Rightarrow> unit drive" where
  "reconcile_message sc env msg =
     bindP (while_claimed sc msg (process_launch_intent sc env msg)) (\<lambda>outcome.
     case outcome of
       Some (Inl e) \<Rightarrow> liftS (count_launch_failure sc msg e)
     | _ \<Rightarrow> returnP ())"

definition reconcile :: "sched \<Rightarrow> launch_env \<Rightarrow> unit drive" where
  "reconcile sc env =
     bindP (liftS (claim_kind sc LAUNCH_STEP)) (\<lambda>msgs. forP msgs (reconcile_message sc env))"

end
