(* ===== verification/Launch_Laws.thy ===== *)
theory Launch_Laws
  imports Launch
begin

text \<open>
  What the drain of launch intents guarantees: a unit that was created is either driven or owed a
  teardown, whatever happened while it was being created; a message is retired exactly when its
  attempt is settled; and a success reported for an attempt that no longer counts.
\<close>

section \<open>Outbox\<close>

definition late_key :: "run_id \<Rightarrow> step_id \<Rightarrow> attempt_id \<Rightarrow> string" where
  "late_key run step att = cancel_key run step att @ '':launch''"

definition key_used :: "string \<Rightarrow> store \<Rightarrow> bool" where
  "key_used key st \<longleftrightarrow> (\<exists>e \<in> set (st_outbox st). om_idempotency_key (oe_msg e) = key)"

text \<open>A teardown of exactly this attempt is waiting to be delivered.\<close>

definition teardown_owed :: "run_id \<Rightarrow> step_id \<Rightarrow> attempt_id \<Rightarrow> store \<Rightarrow> bool" where
  "teardown_owed run step att st \<longleftrightarrow>
     (\<exists>e \<in> set (st_outbox st). om_run (oe_msg e) = run \<and> om_kind (oe_msg e) = CANCEL_ATTEMPT
        \<and> om_payload (oe_msg e) = AttemptTeardown [\<lparr>td_step = step, td_attempt = att\<rparr>]
        \<and> \<not> oe_dispatched e \<and> \<not> oe_dead_lettered e)"

lemma update_first_before: "\<exists>x \<in> set xs. P x \<Longrightarrow> update_first P f (xs @ ys) = update_first P f xs @ ys"
  by (induction xs) auto

lemma late_teardown_owed:
  assumes "find_entry oid st \<noteq> None" "\<not> key_used (late_key run step att) st"
  shows "\<exists>st'. enqueue_late_launch_teardown sc run step att st = (Inr (), st') \<and> teardown_owed run step att (mark_dispatched oid st')
    \<and> st_handles st' = st_handles st \<and> st_steps st' = st_steps st \<and> st_runs st' = st_runs st"
proof -
  have "\<exists>e \<in> set (st_outbox st). om_id (oe_msg e) = oid"
    using assms(1) by (auto simp: find_entry_def find_None_iff)
  then show ?thesis using assms(2)
    by (auto simp: enqueue_late_launch_teardown_def bindP_def readP_def writeP_def Let_def enqueue_outbox_def key_used_def late_key_def
        cancel_attempt_intent_def message_def list_ex_iff teardown_owed_def mark_dispatched_def update_first_before)
qed

lemma teardown_owed_cong: "st_outbox st' = st_outbox st \<Longrightarrow> teardown_owed run step att st' = teardown_owed run step att st"
  by (simp add: teardown_owed_def)

lemma wanted_cong:
  assumes "st_steps st' = st_steps st" "st_runs st' = st_runs st"
  shows "launch_still_wanted run step att st' = launch_still_wanted run step att st"
  using steps_of_run_cong [OF assms(1), of run] assms(2) by (simp add: launch_still_wanted_def run_status_of_def)

lemma mark_dispatched_sel [simp]:
  "st_handles (mark_dispatched oid st) = st_handles st" "st_steps (mark_dispatched oid st) = st_steps st"
  "st_runs (mark_dispatched oid st) = st_runs st"
  by (simp_all add: mark_dispatched_def)

section \<open>Stamping\<close>

lemma stamp_inputs_quiet:
  "\<exists>spec' st'. stamp_inputs run step att spec st = (Inr spec', st')
     \<and> st_outbox st' = st_outbox st \<and> st_handles st' = st_handles st \<and> st_steps st' = st_steps st \<and> st_runs st' = st_runs st"
  by (cases "find_step step (steps_of_run run st)")
     (auto simp: stamp_inputs_def bindP_def readP_def writeP_def returnP_def Let_def set_attempt_workspace_input_steps_def
       set_attempt_consumed_def modify_evidence_def)

section \<open>A launch\<close>

lemma launch_refused:
  assumes "\<not> launch_still_wanted run step att st" "find_entry (om_id msg) st \<noteq> None" "\<not> key_used (late_key run step att) st"
  shows "\<exists>st'. launch_unit sc env msg run step att st = (Inr None, st')
    \<and> (\<forall>h. ex_unit_handle (sc_exec sc) (fenced_step run step att 0) = Some h \<longrightarrow>
         st_handles st' (run, step, att) = Some h \<and> teardown_owed run step att st')"
proof (cases "ex_unit_handle (sc_exec sc) (fenced_step run step att 0)")
  case None
  then show ?thesis using assms(1)
    by (simp add: launch_unit_def adopt_unit_of_refused_launch_def fenced_step_def dispatched_def bindP_def readP_def returnP_def writeP_def)
next
  case (Some h)
  let ?st = "set_attempt_handle run step att h st"
  have "find_entry (om_id msg) ?st \<noteq> None" "\<not> key_used (late_key run step att) ?st"
    using assms(2,3) by (simp_all add: set_attempt_handle_def find_entry_def key_used_def)
  from late_teardown_owed [OF this, of sc] obtain st' where st': "enqueue_late_launch_teardown sc run step att ?st = (Inr (), st')"
    "teardown_owed run step att (mark_dispatched (om_id msg) st')" "st_handles st' = st_handles ?st" by blast
  have "launch_unit sc env msg run step att st = (Inr None, mark_dispatched (om_id msg) st')"
    using assms(1) Some st'(1)
    by (simp add: launch_unit_def adopt_unit_of_refused_launch_def fenced_step_def dispatched_def bindP_def readP_def returnP_def writeP_def)
  then show ?thesis using Some st'(2,3) by (simp add: set_attempt_handle_def)
qed

lemma launch_created:
  assumes wanted: "launch_still_wanted run step att st" and spec: "Option.bind (step_of st run step) rc_spec = Some spec"
    and render: "\<And>sp t. \<exists>sp'. le_render env run step sp t = Inr (Inr sp')"
    and created: "\<And>s sp t. ex_launch (sc_exec sc) s sp t = Inr h"
    and row: "find_entry (om_id msg) st \<noteq> None" "\<And>t. find_entry (om_id msg) t \<noteq> None \<Longrightarrow> find_entry (om_id msg) (le_meanwhile env t) \<noteq> None"
    and key: "\<not> key_used (late_key run step att) st"
      "\<And>t. \<not> key_used (late_key run step att) t \<Longrightarrow> \<not> key_used (late_key run step att) (le_meanwhile env t)"
  shows "\<exists>res st'. launch_unit sc env msg run step att st = (Inr res, st') \<and> st_handles st' (run, step, att) = Some h
    \<and> (if launch_still_wanted run step att st' then res = Some h else res = None \<and> teardown_owed run step att st')"
proof -
  obtain spec1 st1 where st1: "stamp_inputs run step att spec st = (Inr spec1, st1)" "st_outbox st1 = st_outbox st"
    using stamp_inputs_quiet by blast
  obtain spec2 where spec2: "le_render env run step (enrich_cache env run spec1 st1) st1 = Inr (Inr spec2)" using render by blast
  define st2 where "st2 = set_attempt_handle run step att h (le_meanwhile env st1)"
  have "find_entry (om_id msg) st1 \<noteq> None" "\<not> key_used (late_key run step att) st1"
    using row(1) key(1) st1(2) by (simp_all add: find_entry_def key_used_def)
  then have st2: "find_entry (om_id msg) st2 \<noteq> None" "\<not> key_used (late_key run step att) st2" "st_handles st2 (run, step, att) = Some h"
    using row(2) [of st1] key(2) [of st1] by (simp_all add: st2_def set_attempt_handle_def find_entry_def key_used_def)
  have run: "launch_unit sc env msg run step att st =
      (if launch_still_wanted run step att st2 then returnP (Some h)
       else bindP (enqueue_late_launch_teardown sc run step att) (\<lambda>_. bindP (dispatched msg) (\<lambda>_. returnP None))) st2"
    using wanted spec st1(1) spec2 created
    by (simp add: launch_unit_def bindP_def readP_def call_launch_def writeP_def st2_def)
  show ?thesis
  proof (cases "launch_still_wanted run step att st2")
    case True
    then show ?thesis using run st2(3) by (simp add: returnP_def)
  next
    case False
    obtain st3 where st3: "enqueue_late_launch_teardown sc run step att st2 = (Inr (), st3)"
      "teardown_owed run step att (mark_dispatched (om_id msg) st3)" "st_handles st3 = st_handles st2"
      "st_steps st3 = st_steps st2" "st_runs st3 = st_runs st2"
      using late_teardown_owed [OF st2(1,2), of sc] by blast
    let ?st = "mark_dispatched (om_id msg) st3"
    have "launch_unit sc env msg run step att st = (Inr None, ?st)"
      using run False st3(1) by (simp add: bindP_def dispatched_def writeP_def returnP_def)
    moreover have "\<not> launch_still_wanted run step att ?st"
      using False wanted_cong [of ?st st2] st3(4,5) by simp
    ultimately show ?thesis using st2(3) st3(2,3) by simp
  qed
qed

section \<open>Recording evidence\<close>

text \<open>What the records of a finished unit leave alone: the outbox, and of every row all that decides a
  verdict.\<close>

definition row_kept :: "attempt_id \<Rightarrow> step_rec \<Rightarrow> step_rec \<Rightarrow> bool" where
  "row_kept att rec rec' \<longleftrightarrow> rc_status rec' = rc_status rec \<and> rc_attempts rec' = rc_attempts rec
     \<and> rc_output rec' = rc_output rec \<and> rc_evidence_attempt rec' \<in> {rc_evidence_attempt rec, Some att}"

definition evidence_kept :: "attempt_id \<Rightarrow> store \<Rightarrow> store \<Rightarrow> bool" where
  "evidence_kept att st st' \<longleftrightarrow> st_outbox st' = st_outbox st \<and>
     (\<forall>r x. (step_of st' r x = None \<longleftrightarrow> step_of st r x = None) \<and>
        (\<forall>rec rec'. step_of st r x = Some rec \<and> step_of st' r x = Some rec' \<longrightarrow> row_kept att rec rec'))"

lemma evidence_kept_same: "st_outbox st' = st_outbox st \<Longrightarrow> st_steps st' = st_steps st \<Longrightarrow> evidence_kept att st st'"
  by (auto simp: evidence_kept_def row_kept_def)

interpretation evidence: program_frame "evidence_kept att" for att
proof
  show "evidence_kept att st st" for st by (rule evidence_kept_same) simp_all
next
  fix a b d assume ab: "evidence_kept att a b" and bd: "evidence_kept att b d"
  have "row_kept att rec rec''" if "step_of a r x = Some rec" "step_of d r x = Some rec''" for r x rec rec''
  proof -
    have "step_of b r x \<noteq> None" using ab that(1) by (simp add: evidence_kept_def)
    then obtain rec' where "step_of b r x = Some rec'" by blast
    then have "row_kept att rec rec'" "row_kept att rec' rec''" using ab bd that unfolding evidence_kept_def by blast+
    then show ?thesis by (auto simp: row_kept_def)
  qed
  then have "\<forall>r x rec rec''. step_of a r x = Some rec \<and> step_of d r x = Some rec'' \<longrightarrow> row_kept att rec rec''" by blast
  then show "evidence_kept att a d" using ab bd by (simp add: evidence_kept_def)
qed

lemma kept_results: "set_step_results run step att rs st = Inr st' \<Longrightarrow> evidence_kept att st st'"
  by (auto simp: set_step_results_def write_results_def modify_evidence_def put_step_def evidence_kept_def row_kept_def split: option.splits if_splits)

lemma kept_writes:
  "evidence_kept att st (put_artifacts run step att' ok as at st)" "evidence_kept att st (cache_record p k d r key at st)"
  "evidence_kept att st (append_events es st)"
  by (rule evidence_kept_same; simp add: put_artifacts_def cache_record_def)+

lemmas evidence_intros = evidence.keeps_bind evidence.keeps_return evidence.keeps_mapErr evidence.keeps_for kept_writes

lemma exec_kept: "evidence_kept att st (snd (execP f st))"
  by (simp add: evidence.keeps_refl)

lemma write_kept: "evidence_kept att st (f st) \<Longrightarrow> evidence_kept att st (snd (writeP f st))"
  by (simp add: writeP_def)

lemma evidence_recorded:
  "evidence_kept att st (snd (record_results sc run step att h st))"
  "evidence_kept att st (snd (record_artifacts sc run step att ok h st))"
  "evidence_kept att st (snd (record_cache_saves sc run step att h st))"
  "evidence_kept att st (snd (record_workspace_collisions sc run step att h st))"
proof -
  have commit: "evidence_kept att st (snd (commitP (set_step_results run step att rs) st))" for rs st
    using kept_results by (simp add: commitP_def evidence.keeps_refl split: sum.splits)
  show "evidence_kept att st (snd (record_results sc run step att h st))"
    unfolding record_results_def by (intro evidence.keeps_bind exec_kept) (auto intro!: evidence_intros commit)
  show "evidence_kept att st (snd (record_artifacts sc run step att ok h st))"
    unfolding record_artifacts_def by (intro evidence.keeps_bind exec_kept) (auto intro!: evidence_intros write_kept simp del: bind_read)
  show "evidence_kept att st (snd (record_cache_saves sc run step att h st))"
    unfolding record_cache_saves_def
    by (auto intro!: evidence_intros write_kept split: sum.splits option.splits simp del: bind_read)
  show "evidence_kept att st (snd (record_workspace_collisions sc run step att h st))"
    unfolding record_workspace_collisions_def append_log_def append_eventP_def
    by (auto intro!: evidence_intros write_kept split: sum.splits option.splits simp del: bind_read)
qed

text \<open>A backend that answers for the evidence of a unit.\<close>

definition answers :: "sched \<Rightarrow> string \<Rightarrow> bool" where
  "answers sc h \<longleftrightarrow> (\<forall>t. \<not> isl (ex_output (sc_exec sc) h t) \<and> \<not> isl (ex_output_identity (sc_exec sc) h t)
     \<and> \<not> isl (ex_results (sc_exec sc) h t) \<and> \<not> isl (ex_artifacts (sc_exec sc) h t))"

lemma exec_answer: "\<not> isl (f st) \<Longrightarrow> execP f st = (Inr (projr (f st)), st)"
  by (cases "f st") (simp_all add: execP_def)

lemma answersD:
  assumes "answers sc h"
  shows "execP (ex_output (sc_exec sc) h) st = (Inr (projr (ex_output (sc_exec sc) h st)), st)"
    "execP (ex_output_identity (sc_exec sc) h) st = (Inr (projr (ex_output_identity (sc_exec sc) h st)), st)"
    "execP (ex_results (sc_exec sc) h) st = (Inr (projr (ex_results (sc_exec sc) h st)), st)"
    "execP (ex_artifacts (sc_exec sc) h) st = (Inr (projr (ex_artifacts (sc_exec sc) h st)), st)"
  using assms by (simp_all add: answers_def exec_answer)

lemma kept_row: "evidence_kept att st st' \<Longrightarrow> step_of st r x = Some rec \<Longrightarrow> \<exists>rec'. step_of st' r x = Some rec' \<and> row_kept att rec rec'"
proof -
  assume a: "evidence_kept att st st'" "step_of st r x = Some rec"
  then have "step_of st' r x \<noteq> None" by (simp add: evidence_kept_def)
  then show ?thesis using a unfolding evidence_kept_def by blast
qed

lemma evidence_total:
  assumes "answers sc h"
  shows "step_of st run step \<noteq> None \<Longrightarrow> fst (record_output sc run step att h st) = Inr ()"
    "step_of st run step \<noteq> None \<Longrightarrow> fst (record_results sc run step att h st) = Inr ()"
    "fst (record_artifacts sc run step att ok h st) = Inr ()" "fst (record_cache_saves sc run step att h st) = Inr ()"
    "fst (record_workspace_collisions sc run step att h st) = Inr ()"
proof -
  show "step_of st run step \<noteq> None \<Longrightarrow> fst (record_output sc run step att h st) = Inr ()"
    "step_of st run step \<noteq> None \<Longrightarrow> fst (record_results sc run step att h st) = Inr ()"
    "fst (record_artifacts sc run step att ok h st) = Inr ()"
    by (auto simp: record_output_def record_results_def record_artifacts_def bindP_def answersD [OF assms] readP_def writeP_def returnP_def
        mapErrP_def commitP_def set_step_output_def set_step_results_def split: option.splits)
  show "fst (record_cache_saves sc run step att h st) = Inr ()"
    by (auto simp: record_cache_saves_def returnP_def writeP_def split: sum.splits option.splits intro!: forP_no_error)
  show "fst (record_workspace_collisions sc run step att h st) = Inr ()"
    by (auto simp: record_workspace_collisions_def returnP_def writeP_def append_log_def append_eventP_def split: sum.splits option.splits)
qed

lemma output_written:
  assumes "answers sc h" "step_of st run step = Some rec"
  shows "\<exists>st' rec'. record_output sc run step att h st = (Inr (), st') \<and> st_outbox st' = st_outbox st
    \<and> step_of st' run step = Some rec' \<and> rc_status rec' = rc_status rec \<and> rc_attempts rec' = rc_attempts rec
    \<and> (\<forall>root. ex_output (sc_exec sc) h st = Inr (Some root) \<longrightarrow> rc_output rec' = Some root \<and> rc_evidence_attempt rec' = Some att)"
proof (cases "projr (ex_output (sc_exec sc) h st)")
  case None
  then show ?thesis using assms(2) by (auto simp: record_output_def bindP_def answersD [OF assms(1)] returnP_def)
next
  case (Some root)
  then show ?thesis using assms(2)
    by (auto simp: record_output_def bindP_def answersD [OF assms(1)] mapErrP_def commitP_def set_step_output_def modify_evidence_def put_step_def)
qed

section \<open>The drain follows the step relation\<close>

lemma runs_writes:
  "runs_as seen st (snd (writeP (cache_record p k d r key at) st))"
  "runs_as seen st (snd (writeP (put_artifacts run step att ok as at) st))" "runs_as seen st (snd (writeP (mark_dispatched oid) st))"
  by (simp_all add: writeP_def runs_aux [OF aux_cache] runs_aux [OF aux_artifacts] runs_aux [OF aux_dispatched])

lemma runs_evidence [runs_intros]:
  "runs_as seen st (snd (record_output sc run step att h st))" "runs_as seen st (snd (record_results sc run step att h st))"
  "runs_as seen st (snd (record_artifacts sc run step att ok h st))" "runs_as seen st (snd (record_cache_saves sc run step att h st))"
  "runs_as seen st (snd (record_workspace_collisions sc run step att h st))"
proof -
  have out: "runs_as seen st (snd (mapErrP SchedDb (commitP (set_step_output run step att root identity)) st))" for root identity st
    using runs_aux [OF aux_output] by (intro runs_mapErr runs_commitP) blast
  have results: "runs_as seen st (snd (mapErrP SchedDb (commitP (set_step_results run step att rs)) st))" for rs st
    using runs_aux [OF aux_step_results] by (intro runs_mapErr runs_commitP) blast
  show "runs_as seen st (snd (record_output sc run step att h st))"
    unfolding record_output_def by (auto intro!: runs_bind runs_exec runs_return out split: option.splits)
  show "runs_as seen st (snd (record_results sc run step att h st))"
    unfolding record_results_def by (auto intro!: runs_bind runs_exec runs_return results)
  show "runs_as seen st (snd (record_artifacts sc run step att ok h st))"
    unfolding record_artifacts_def
    by (intro runs_bind runs_exec) (auto intro!: runs_bind runs_return runs_writes(2) simp del: bind_read)
  show "runs_as seen st (snd (record_cache_saves sc run step att h st))"
    unfolding record_cache_saves_def
    by (auto intro!: runs_bind runs_return runs_for runs_writes(1) split: sum.splits option.splits simp del: bind_read)
  show "runs_as seen st (snd (record_workspace_collisions sc run step att h st))"
    unfolding record_workspace_collisions_def append_log_def
    by (auto intro!: runs_bind runs_return runs_write_event split: sum.splits option.splits simp del: bind_read)
qed

lemma runs_drive: "runs_as seen st (snd (drive_unit sc msg run step att h st))"
  unfolding drive_unit_def succeed_unit_def fail_unit_def dispatched_def
  by (intro runs_bind runs_exec)
     (auto split: exec_state.splits intro!: runs_bind runs_evidence runs_return runs_succeed runs_settle runs_writes(3))

section \<open>A reported success\<close>

lemma bind_total: "fst (m st) = Inr a \<Longrightarrow> bindP m f st = f a (snd (m st))"
  by (cases "m st") (simp add: bindP_def)

text \<open>Everything a success records, before its verdict.\<close>

lemma success_recorded:
  assumes "answers sc h" "step_of st run step = Some rec"
  shows "\<exists>st' rec'. succeed_unit sc run step att h st = succeed_step (sc_clk sc) run step att st' \<and> st_outbox st' = st_outbox st
    \<and> step_of st' run step = Some rec' \<and> rc_status rec' = rc_status rec \<and> rc_attempts rec' = rc_attempts rec
    \<and> (\<forall>root. ex_output (sc_exec sc) h st = Inr (Some root) \<longrightarrow> rc_output rec' = Some root \<and> rc_evidence_attempt rec' = Some att)
    \<and> runs_as {} st st'"
proof -
  obtain st1 rec1 where st1: "record_output sc run step att h st = (Inr (), st1)" "st_outbox st1 = st_outbox st"
    "step_of st1 run step = Some rec1" "rc_status rec1 = rc_status rec" "rc_attempts rec1 = rc_attempts rec"
    "\<forall>root. ex_output (sc_exec sc) h st = Inr (Some root) \<longrightarrow> rc_output rec1 = Some root \<and> rc_evidence_attempt rec1 = Some att"
    using output_written [OF assms] by blast
  define st2 where "st2 = snd (record_results sc run step att h st1)"
  define st3 where "st3 = snd (record_artifacts sc run step att True h st2)"
  define st4 where "st4 = snd (record_cache_saves sc run step att h st3)"
  define st5 where "st5 = snd (record_workspace_collisions sc run step att h st4)"
  have "evidence_kept att st1 st5"
    unfolding st5_def st4_def st3_def st2_def by (meson evidence_recorded evidence.keeps_trans)
  then obtain rec5 where rec5: "step_of st5 run step = Some rec5" "row_kept att rec1 rec5" "st_outbox st5 = st_outbox st"
    using kept_row st1(2,3) by (fastforce simp: evidence_kept_def)
  have "succeed_unit sc run step att h st = succeed_step (sc_clk sc) run step att st5"
    using st1(1,3) evidence_total [OF assms(1)]
    by (simp add: succeed_unit_def bind_total st2_def [symmetric] st3_def [symmetric] st4_def [symmetric] st5_def [symmetric])
  moreover have "runs_as {} st st5"
    unfolding st5_def st4_def st3_def st2_def
    by (intro runs_trans [OF _ runs_evidence(5)] runs_trans [OF _ runs_evidence(4)] runs_trans [OF _ runs_evidence(3)] runs_trans [OF _ runs_evidence(2)])
       (use runs_evidence(1) [of "{}" st sc run step att h] st1(1) in simp)
  moreover have "rc_status rec5 = rc_status rec" "rc_attempts rec5 = rc_attempts rec" "rc_output rec5 = rc_output rec1"
    "rc_evidence_attempt rec5 \<in> {rc_evidence_attempt rec1, Some att}"
    using rec5(2) st1(4,5) by (simp_all add: row_kept_def)
  ultimately show ?thesis using rec5(1,3) st1(6) by (intro exI [of _ st5] exI [of _ rec5]) auto
qed

lemma stale_cong:
  assumes "step_of st run step = Some rec" "step_of st' run step = Some rec'" "rc_attempts rec' = rc_attempts rec"
  shows "stale_observation run step att st' = stale_observation run step att st"
  using assms by (simp add: stale_observation_def attempts_of_step_def)

lemma marked_entry: "find_entry oid st = Some e \<Longrightarrow> find_entry oid (mark_dispatched oid st) = Some (e\<lparr>oe_dispatched := True\<rparr>)"
  using find_entry_update [of oid st e "\<lambda>e. e\<lparr>oe_dispatched := True\<rparr>"] by (simp add: find_entry_def mark_dispatched_def)

lemma poll_answer: "ex_poll (sc_exec sc) h st = Inr x \<Longrightarrow> execP (ex_poll (sc_exec sc) h) st = (Inr x, st)"
  by (simp add: execP_def)

section \<open>Concrete launches\<close>

definition demo_spec :: step_spec where
  "demo_spec = \<lparr>ss_image = ''rust'', ss_command = [''cargo''], ss_env = [], ss_timeout_seconds = None, ss_workspace_inputs = [],
     ss_workspace_outputs = [], ss_cache = None, ss_uses = [], ss_other = JNull\<rparr>"

definition demo_intent :: outbox_message where
  "demo_intent = \<lparr>om_id = 1, om_run = ''r'', om_kind = LAUNCH_STEP, om_payload = LaunchIntent ''r'' ''build'' (attempt_name 1),
     om_idempotency_key = ''launch'', om_at = 0\<rparr>"

text \<open>A wanted attempt with its intent; while the backend works the run is cancelled.\<close>

definition demo_wanted :: store where
  "demo_wanted = empty_store\<lparr>st_runs := [(''r'', RRunning)],
     st_steps := [((''r'', ''build''), (demo_row SRunning [demo_attempt AORunning])\<lparr>rc_spec := Some demo_spec\<rparr>)],
     st_outbox := [\<lparr>oe_msg = demo_intent, oe_claimed_until = None, oe_claimed_by = None, oe_dispatched = False,
       oe_delivery_attempts = 0, oe_dead_lettered = False\<rparr>]\<rparr>"

definition demo_env :: launch_env where
  "demo_env = \<lparr>le_render = \<lambda>_ _ sp _. Inr (Inr sp), le_snapshots = None, le_sha256_hex = id,
     le_meanwhile = \<lambda>st. st\<lparr>st_runs := al_put ''r'' RCancelled (st_runs st)\<rparr>\<rparr>"

lemma demo_wanted_facts:
  "launch_still_wanted ''r'' ''build'' (attempt_name 1) demo_wanted" "find_entry 1 demo_wanted \<noteq> None"
  "\<not> key_used (late_key ''r'' ''build'' (attempt_name 1)) demo_wanted"
  "Option.bind (step_of demo_wanted ''r'' ''build'') rc_spec \<noteq> None"
  by (simp_all add: demo_wanted_def launch_still_wanted_def find_step_def steps_of_run_def List.map_filter_simps step_run_of_def
      sorted_attempts_def demo_attempt_def new_step_rec_def run_status_of_def find_entry_def demo_intent_def key_used_def late_key_def
      cancel_key_def empty_store_def last_opt_def run_is_terminal_def)

lemma demo_answers: "answers (demo_sched 5) h"
  by (simp add: answers_def demo_sched_def demo_exec_def)

lemma demo_live_entry: "\<exists>e. find_entry 1 demo_live = Some e"
  by (simp add: find_entry_def demo_live_def finish_run_creation_def begin_run_creation_def create_run_def Let_def
      demo_claimed_def claim_ready_steps_def fenced_def holds_leader_term_if_def holds_leader_term_def
      demo_leader_def demo_promoted_tables ready_keys_def claimed_step_def step_run_of_def sorted_attempts_def
      List.map_filter_def mint_launch_def launch_one_def modify_step_def add_attempt_def new_step_rec_def
      put_step_def append_events_def enqueue_outbox_def message_def)

section \<open>Properties\<close>



text \<open>An intent is retired exactly when its attempt is settled. For the attempt a running step waits
  for, with a backend that answers for the unit's evidence: a unit that has succeeded succeeds the step;
  one that failed, was lost, or ran past its deadline and grace leaves the step \<open>Ready\<close> for another
  attempt or \<open>Failed\<close>; in all these cases the message is dispatched. A unit that is still pending or
  running within its time changes nothing at all, and the message stays to be delivered again.\<close>

theorem launch_retired_iff_settled:
  assumes "reachable c" "step_status_of run step (cf_store c) = Some SRunning" "\<not> stale_observation run step att (cf_store c)"
    and "answers sc h" "find_entry (om_id msg) (cf_store c) = Some e" "ex_poll (sc_exec sc) h (cf_store c) = Inr state"
  shows "\<exists>st'. drive_unit sc msg run step att h (cf_store c) = (Inr (), st') \<and>
    (if state \<in> {ExPending, ExRunning} \<and> \<not> timed_out sc run step att (cf_store c) then st' = cf_store c
     else find_entry (om_id msg) st' = Some (e\<lparr>oe_dispatched := True\<rparr>) \<and>
       (if state = ExSucceeded then step_status_of run step st' = Some SSucceeded
        else step_status_of run step st' \<in> {Some SReady, Some SFailed}))"
proof -
  let ?st = "cf_store c" and ?clk = "sc_clk sc"
  obtain rec where row: "step_of ?st run step = Some rec" "rc_status rec = Some SRunning" using assms(2) by (auto simp: status_row)
  have entry: "find_entry (om_id msg) t = Some e" if "st_outbox t = st_outbox ?st" for t
    using assms(5) that by (simp add: find_entry_def)
  have failed: "\<exists>st'. bindP (settle_failed_attempt ?clk run step att kind cause) (\<lambda>_. dispatched msg) t = (Inr (), st')
      \<and> find_entry (om_id msg) st' = Some (e\<lparr>oe_dispatched := True\<rparr>) \<and> step_status_of run step st' \<in> {Some SReady, Some SFailed}"
    if t: "runs_as {} ?st t" "evidence_kept att ?st t" for t kind cause
  proof -
    obtain c' where c': "reachable c'" "cf_store c' = t" using runs_as_reachable [OF t(1) assms(1)] by blast
    obtain rec' where rec': "step_of t run step = Some rec'" "row_kept att rec rec'" using kept_row [OF t(2) row(1)] by blast
    then have live: "rc_status rec' = Some SRunning" "\<not> stale_observation run step att t"
      using row stale_cong [OF row(1) rec'(1)] assms(3) by (simp_all add: row_kept_def)
    have ok: "store_ok t" using reachable_store [OF c'(1)] c'(2) by simp
    obtain st' rec'' where st': "settle_failed_attempt ?clk run step att kind cause t = (Inr (), st')" "st_outbox st' = st_outbox t"
      "step_of st' run step = Some rec''" "rc_status rec'' = Some (settle_target run step kind t)"
      using settle_effect [OF ok rec'(1) live refl, of ?clk kind cause] by blast
    have "find_entry (om_id msg) st' = Some e" using entry st'(2) t(2) by (simp add: evidence_kept_def)
    then show ?thesis using st' marked_entry
      by (auto simp: bindP_def dispatched_def writeP_def step_status_of_def settle_target_def)
  qed
  show ?thesis
  proof (cases state)
    case ExSucceeded
    obtain st1 rec1 where st1: "succeed_unit sc run step att h ?st = succeed_step ?clk run step att st1" "st_outbox st1 = st_outbox ?st"
      "step_of st1 run step = Some rec1" "rc_status rec1 = rc_status rec" "rc_attempts rec1 = rc_attempts rec" "runs_as {} ?st st1"
      using success_recorded [OF assms(4) row(1), of att] by blast
    obtain c' where c': "reachable c'" "cf_store c' = st1" using runs_as_reachable [OF st1(6) assms(1)] by blast
    have ok: "store_ok st1" using reachable_store [OF c'(1)] c'(2) by simp
    have "\<not> stale_observation run step att st1" using stale_cong [OF row(1) st1(3,5)] assms(3) by simp
    from succeed_effect [OF ok st1(3) _ this, of ?clk] st1(4) row(2) obtain st' rec'' where
      st': "succeed_step ?clk run step att st1 = (Inr (), st')" "step_of st' run step = Some rec''" "rc_status rec'' = Some SSucceeded"
      "st_outbox st' = st_outbox st1" by auto
    have "find_entry (om_id msg) st' = Some e" using entry st'(4) st1(2) by simp
    then show ?thesis using ExSucceeded st' st1(1) poll_answer [OF assms(6)] marked_entry
      by (auto simp: drive_unit_def bindP_def dispatched_def writeP_def step_status_of_def)
  next
    case (ExFailed code cl cause)
    define t1 where "t1 = snd (record_artifacts sc run step att False h ?st)"
    define t2 where "t2 = snd ((if cl = ClStep then record_workspace_collisions sc run step att h else returnP ()) t1)"
    have t: "runs_as {} ?st t2" "evidence_kept att ?st t2"
      unfolding t2_def t1_def
      by (auto intro: runs_trans [OF runs_evidence(3) runs_evidence(5)] runs_evidence(3) evidence_recorded(2)
          evidence.keeps_trans [OF evidence_recorded(2) evidence_recorded(4)] simp: returnP_def)
    have "fail_unit sc run step att cl cause h ?st = settle_failed_attempt ?clk run step att (kind_of_class cl) cause t2"
      using evidence_total(3,5) [OF assms(4)]
      by (simp add: fail_unit_def bind_total t1_def [symmetric] t2_def returnP_def)
    then show ?thesis using failed [OF t, of "kind_of_class cl" cause] ExFailed poll_answer [OF assms(6)]
      by (auto simp: drive_unit_def bindP_def)
  next
    case ExLost
    then show ?thesis using failed [OF runs_refl evidence.keeps_refl, of FLost None] poll_answer [OF assms(6)]
      by (auto simp: drive_unit_def bindP_def)
  qed (use failed [OF runs_refl evidence.keeps_refl, of FTimeout None] poll_answer [OF assms(6)]
    in \<open>auto simp: drive_unit_def bindP_def [of "execP _"] returnP_def\<close>)
qed

theorem launch_retired_iff_settled_witness:
  "\<exists>st' e. drive_unit (demo_sched 5) demo_intent ''r'' ''build'' (attempt_name 1) ''unit'' demo_live = (Inr (), st')
     \<and> step_status_of ''r'' ''build'' st' = Some SSucceeded \<and> find_entry 1 st' = Some (e\<lparr>oe_dispatched := True\<rparr>)"
proof -
  obtain e where e: "find_entry (om_id demo_intent) demo_live = Some e" using demo_live_entry by (auto simp: demo_intent_def)
  have "ex_poll (sc_exec (demo_sched 5)) ''unit'' demo_live = Inr ExSucceeded" by (simp add: demo_sched_def demo_exec_def)
  with launch_retired_iff_settled [OF demo_live_reachable, of "''r''" "''build''" "attempt_name 1" "demo_sched 5" "''unit''" demo_intent e ExSucceeded]
    demo_live_running demo_live_fresh demo_answers e show ?thesis by (auto simp: demo_intent_def)
qed

text \<open>An attempt that no longer counts can still replace the step's output. When the unit of a
  superseded or outdated attempt reports success, the verdict is ignored: the status of the step and
  all of its attempts stay as they are. The output snapshot of that unit, though, becomes the output of
  the step, in place of whatever the current attempt has produced, and the stale attempt is named as
  its origin.\<close>

theorem stale_success_overwrites_output:
  assumes "answers sc h" "step_of st run step = Some rec" "stale_observation run step att st"
    and "ex_poll (sc_exec sc) h st = Inr ExSucceeded" "ex_output (sc_exec sc) h st = Inr (Some root)"
  shows "\<exists>st' rec'. drive_unit sc msg run step att h st = (Inr (), st') \<and> step_of st' run step = Some rec'
    \<and> rc_status rec' = rc_status rec \<and> rc_attempts rec' = rc_attempts rec
    \<and> rc_output rec' = Some root \<and> rc_evidence_attempt rec' = Some att"
proof -
  obtain st1 rec1 where st1: "succeed_unit sc run step att h st = succeed_step (sc_clk sc) run step att st1"
    "step_of st1 run step = Some rec1" "rc_status rec1 = rc_status rec" "rc_attempts rec1 = rc_attempts rec"
    "rc_output rec1 = Some root" "rc_evidence_attempt rec1 = Some att"
    using success_recorded [OF assms(1,2), of att] assms(5) by blast
  have "succeed_step (sc_clk sc) run step att st1 = (Inr (), st1)"
    using stale_cong [OF assms(2) st1(2,4)] assms(3) by (simp add: succeed_step_def returnP_def)
  then have "drive_unit sc msg run step att h st = (Inr (), mark_dispatched (om_id msg) st1)"
    using poll_answer [OF assms(4)] st1(1) by (simp add: drive_unit_def bindP_def dispatched_def writeP_def)
  then show ?thesis using st1 by simp
qed

theorem stale_success_overwrites_output_witness:
  "\<exists>st' rec'. drive_unit (demo_sched 5) demo_intent ''r'' ''build'' (attempt_name 1) ''unit'' demo_rearmed = (Inr (), st')
     \<and> step_of st' ''r'' ''build'' = Some rec' \<and> rc_status rec' = Some SPending
     \<and> rc_output rec' = Some ''root'' \<and> rc_evidence_attempt rec' = Some (attempt_name 1)"
proof -
  have "stale_observation ''r'' ''build'' (attempt_name 1) demo_rearmed"
    by (simp add: stale_observation_def attempts_of_step_def demo_rearmed_tables sorted_attempts_def new_step_rec_def demo_attempt_def
        torn_down_def last_opt_def)
  then show ?thesis
    using stale_success_overwrites_output [OF demo_answers, of demo_rearmed "''r''" "''build''" _ "attempt_name 1" "''unit''" "''root''" demo_intent]
    by (auto simp: demo_rearmed_tables demo_sched_def demo_exec_def)
qed

end
