(* ===== verification/Glob.thy ===== *)
theory Glob
  imports Prelude
begin

text \<open>
  Patterns with the one wildcard \<^verbatim>\<open>*\<close>. The repository has two matchers, \<^verbatim>\<open>glob_matches\<close> of scarab-policy
  and \<^verbatim>\<open>glob_match\<close> of scarab-project: both scan pattern and text with two indices and return to the last
  \<^verbatim>\<open>*\<close> on a mismatch, but they test the wildcard and the literal character in opposite orders. Both are
  related here to \<open>denotes\<close>, the pattern's meaning; \<open>glob_matcher\<close> is what the clients use of either.
\<close>

section \<open>The meaning of a pattern\<close>

abbreviation star :: char where
  "star \<equiv> CHR ''*''"

fun denotes :: "string \<Rightarrow> string \<Rightarrow> bool" where
  "denotes [] t = (t = [])"
| "denotes (c # p) t =
     (if c = star then list_ex (\<lambda>k. denotes p (drop k t)) [0..<Suc (length t)]
      else (case t of [] \<Rightarrow> False | d # ds \<Rightarrow> d = c \<and> denotes p ds))"

section \<open>The matcher of policies\<close>

text \<open>\<open>marked\<close> is the last wildcard seen and the value position it was tried at.\<close>

function glob_scan :: "string \<Rightarrow> string \<Rightarrow> nat \<Rightarrow> nat \<Rightarrow> (nat \<times> nat) option \<Rightarrow> bool" where
  "glob_scan g v gi vi marked =
     (if vi < length v then
        if gi < length g \<and> g ! gi = star then glob_scan g v (gi + 1) vi (Some (gi, vi))
        else if gi < length g \<and> g ! gi = v ! vi then glob_scan g v (gi + 1) (vi + 1) marked
        else (case marked of
                Some (sg, sv) \<Rightarrow> glob_scan g v (sg + 1) (sv + 1) (Some (sg, sv + 1))
              | None \<Rightarrow> False)
      else list_all (\<lambda>c. c = star) (drop gi g))"
  by pat_completeness auto

text \<open>\<open>trailing\<close> holds of every state the scan reaches: the mark lies behind both indices.\<close>

definition trailing :: "nat \<Rightarrow> nat \<Rightarrow> (nat \<times> nat) option \<Rightarrow> bool" where
  "trailing gi vi marked = (case marked of None \<Rightarrow> True | Some (sg, sv) \<Rightarrow> sg < gi \<and> sv \<le> vi)"

termination glob_scan
  by (relation "measures
      [\<lambda>(g, v, gi, vi, marked). if trailing gi vi marked then 0 else 1,
       \<lambda>(g, v, gi, vi, marked). case marked of None \<Rightarrow> length g + 1 | Some (sg, _) \<Rightarrow> length g - sg,
       \<lambda>(g, v, gi, vi, marked). case marked of None \<Rightarrow> 0 | Some (_, sv) \<Rightarrow> length v - sv,
       \<lambda>(g, v, gi, vi, marked). (length g - gi) + (length v - vi)]")
    (auto simp: trailing_def split: option.splits)

declare glob_scan.simps [simp del]

definition glob_matches :: "string \<Rightarrow> string \<Rightarrow> bool" where
  "glob_matches glob value = glob_scan glob value 0 0 None"

text \<open>A typed setting's pattern: an exact name, or a prefix that ends in the wildcard.\<close>

definition pattern_matches :: "string \<Rightarrow> string \<Rightarrow> bool" where
  "pattern_matches pattern value =
     (if pattern \<noteq> [] \<and> last pattern = star
      then take (length (butlast pattern)) value = butlast pattern
      else pattern = value)"

section \<open>The matcher of environments\<close>

function glob_walk :: "string \<Rightarrow> string \<Rightarrow> nat \<Rightarrow> nat \<Rightarrow> nat option \<Rightarrow> nat \<Rightarrow> bool" where
  "glob_walk p t pi ti starred mark =
     (if ti < length t then
        if pi < length p \<and> p ! pi = t ! ti then glob_walk p t (pi + 1) (ti + 1) starred mark
        else if pi < length p \<and> p ! pi = star then glob_walk p t (pi + 1) ti (Some pi) ti
        else (case starred of
                Some s \<Rightarrow> glob_walk p t (s + 1) (mark + 1) (Some s) (mark + 1)
              | None \<Rightarrow> False)
      else dropWhile (\<lambda>c. c = star) (drop pi p) = [])"
  by pat_completeness auto

termination glob_walk
  by (relation "measures
      [\<lambda>(p, t, pi, ti, starred, mark). if trailing pi ti (map_option (\<lambda>s. (s, mark)) starred) then 0 else 1,
       \<lambda>(p, t, pi, ti, starred, mark). case starred of None \<Rightarrow> length p + 1 | Some s \<Rightarrow> length p - s,
       \<lambda>(p, t, pi, ti, starred, mark). length t - mark,
       \<lambda>(p, t, pi, ti, starred, mark). (length p - pi) + (length t - ti)]")
    (auto simp: trailing_def split: option.splits)

declare glob_walk.simps [simp del]

definition glob_match :: "string \<Rightarrow> string \<Rightarrow> bool" where
  "glob_match pattern text = glob_walk pattern text 0 0 None 0"

section \<open>Both decide the meaning\<close>

lemma denotes_star: "denotes (star # p) t \<longleftrightarrow> (\<exists>k. denotes p (drop k t))"
proof
  assume "\<exists>k. denotes p (drop k t)"
  then obtain k where "denotes p (drop k t)" by blast
  then have "denotes p (drop (min k (length t)) t)" by (cases "k \<le> length t") (auto simp: min_def)
  then show "denotes (star # p) t"
    by (auto simp: list_ex_iff simp del: upt_Suc intro!: bexI [of _ "min k (length t)"])
qed (auto simp: list_ex_iff simp del: upt_Suc)

lemma denotes_lit: "c \<noteq> star \<Longrightarrow> denotes (c # p) t \<longleftrightarrow> (\<exists>ds. t = c # ds \<and> denotes p ds)"
  by (cases t) auto

lemma denotes_Nil [simp]: "denotes p [] \<longleftrightarrow> list_all (\<lambda>c. c = star) p"
  by (induction p) auto

declare denotes.simps(2) [simp del]

lemma denotes_same: "denotes p t \<Longrightarrow> denotes (c # p) (c # t)"
  by (cases "c = star") (auto simp: denotes_star denotes_lit intro: exI [of _ 1])

text \<open>Under a prefix without wildcard, a match is the prefix followed by a match of the rest.\<close>

lemma denotes_literal:
  "star \<notin> set q \<Longrightarrow> denotes (q @ p) t \<longleftrightarrow> take (length q) t = q \<and> denotes p (drop (length q) t)"
proof (induction q arbitrary: t)
  case (Cons c q)
  have "c \<noteq> star" "star \<notin> set q" using Cons.prems by auto
  then show ?case using Cons.IH [of "tl t"] by (cases t) (simp_all add: denotes_lit)
qed simp

text \<open>\<open>retries\<close>: the pattern behind the marked wildcard matches further on. \<open>aligned\<close> is what the scan
  keeps: between the wildcard and the index the pattern has only literals, as many as the text passed
  since the mark. So a later wildcard makes the earlier one irrelevant.\<close>

definition retries :: "string \<Rightarrow> string \<Rightarrow> (nat \<times> nat) option \<Rightarrow> bool" where
  "retries g v marked =
     (case marked of None \<Rightarrow> False
      | Some (sg, sv) \<Rightarrow> \<exists>k. sv < k \<and> denotes (drop (Suc sg) g) (drop k v))"

definition aligned :: "string \<Rightarrow> nat \<Rightarrow> nat \<Rightarrow> (nat \<times> nat) option \<Rightarrow> bool" where
  "aligned g gi vi marked =
     (case marked of None \<Rightarrow> True
      | Some (sg, sv) \<Rightarrow> sg < length g \<and> (\<exists>q. star \<notin> set q \<and> drop (Suc sg) g = q @ drop gi g \<and> vi = sv + length q))"

lemma aligned_step:
  "aligned g gi vi marked \<Longrightarrow> gi < length g \<Longrightarrow> g ! gi \<noteq> star \<Longrightarrow> aligned g (Suc gi) (Suc vi) marked"
  unfolding aligned_def
  by (auto split: option.splits simp: Cons_nth_drop_Suc [symmetric] intro!: exI [of _ "_ @ [g ! gi]"])

lemma retries_subsumed:
  assumes al: "aligned g gi vi marked" and r: "retries g v marked"
    and gi: "gi < length g" "g ! gi = star"
  shows "denotes (drop gi g) (drop vi v)"
proof -
  obtain sg sv k where m: "marked = Some (sg, sv)" and k: "sv < k"
    and d: "denotes (drop (Suc sg) g) (drop k v)"
    using r by (auto simp: retries_def split: option.splits)
  obtain q where q: "star \<notin> set q" "drop (Suc sg) g = q @ drop gi g" "vi = sv + length q"
    using al m by (auto simp: aligned_def)
  have rest: "drop gi g = star # drop (Suc gi) g" using gi by (simp add: Cons_nth_drop_Suc [symmetric])
  obtain j where "denotes (drop (Suc gi) g) (drop (j + (length q + k)) v)"
    using d q rest by (auto simp: denotes_literal denotes_star add.assoc)
  moreover have "j + (length q + k) = (j + k - sv) + vi" using q(3) k by simp
  ultimately show ?thesis unfolding rest denotes_star by (metis drop_drop)
qed

lemma ex_above_Suc: "(\<exists>k>n. P k) \<longleftrightarrow> P (Suc n) \<or> (\<exists>k>Suc n. P k)"
  by (metis Suc_lessD Suc_lessI lessI)

lemma ex_offset: "(\<exists>k. P (k + n)) \<longleftrightarrow> P n \<or> (\<exists>k>n::nat. P k)"
proof
  assume "\<exists>k. P (k + n)"
  then obtain k where "P (k + n)" ..
  then show "P n \<or> (\<exists>k>n. P k)" by (cases k) (auto intro!: exI [of _ "k + n"])
next
  assume "P n \<or> (\<exists>k>n. P k)"
  then obtain k where "n \<le> k" "P k" by (auto dest: less_imp_le)
  then show "\<exists>k. P (k + n)" by (intro exI [of _ "k - n"]) simp
qed

lemma retries_mark:
  "retries g v (Some (sg, sv)) \<longleftrightarrow> denotes (drop (Suc sg) g) (drop (Suc sv) v) \<or> retries g v (Some (sg, Suc sv))"
  unfolding retries_def by (simp add: ex_above_Suc [of sv])

lemma denotes_or_retries:
  assumes "gi < length g" "g ! gi = star"
  shows "denotes (drop gi g) (drop vi v) \<longleftrightarrow> denotes (drop (Suc gi) g) (drop vi v) \<or> retries g v (Some (gi, vi))"
proof -
  have "drop gi g = star # drop (Suc gi) g" using assms by (simp add: Cons_nth_drop_Suc [symmetric])
  then show ?thesis
    using ex_offset [of "\<lambda>k. denotes (drop (Suc gi) g) (drop k v)" vi] by (simp add: denotes_star retries_def)
qed

lemma denotes_step:
  "gi < length g \<Longrightarrow> vi < length v \<Longrightarrow> g ! gi \<noteq> star \<Longrightarrow>
     denotes (drop gi g) (drop vi v) \<longleftrightarrow> g ! gi = v ! vi \<and> denotes (drop (Suc gi) g) (drop (Suc vi) v)"
  by (auto simp: Cons_nth_drop_Suc [symmetric] denotes_lit)

lemma glob_scan_spec:
  "aligned g gi vi marked \<Longrightarrow> gi \<le> length g \<Longrightarrow>
     glob_scan g v gi vi marked \<longleftrightarrow> denotes (drop gi g) (drop vi v) \<or> retries g v marked"
proof (induction g v gi vi marked rule: glob_scan.induct)
  case (1 g v gi vi marked)
  consider (fin) "\<not> vi < length v" | (wild) "vi < length v" "gi < length g" "g ! gi = star"
    | (lit) "vi < length v" "gi < length g" "g ! gi \<noteq> star" "g ! gi = v ! vi"
    | (miss) "vi < length v" "\<not> (gi < length g \<and> g ! gi = star)" "\<not> (gi < length g \<and> g ! gi = v ! vi)"
    by blast
  then show ?case
  proof cases
    case fin
    have "retries g v marked \<Longrightarrow> list_all (\<lambda>c. c = star) (drop gi g)"
      using fin "1.prems" by (auto simp: retries_def aligned_def denotes_literal split: option.splits)
    then show ?thesis using fin by (auto simp: glob_scan.simps)
  next
    case wild
    have "aligned g (Suc gi) vi (Some (gi, vi))" using wild by (simp add: aligned_def)
    then have "glob_scan g v gi vi marked
        \<longleftrightarrow> denotes (drop (Suc gi) g) (drop vi v) \<or> retries g v (Some (gi, vi))"
      using "1.IH"(1) wild by (simp add: glob_scan.simps [of g v gi])
    then show ?thesis
      using retries_subsumed [OF "1.prems"(1)] wild denotes_or_retries by metis
  next
    case lit
    then show ?thesis
      using "1.IH"(2) aligned_step [OF "1.prems"(1)] by (simp add: glob_scan.simps [of g v gi] denotes_step)
  next
    case miss
    have no: "\<not> denotes (drop gi g) (drop vi v)"
      using miss by (cases "gi < length g") (auto simp: denotes_step)
    show ?thesis
    proof (cases marked)
      case None
      then show ?thesis using miss no by (auto simp: glob_scan.simps [of g v gi] retries_def)
    next
      case (Some m)
      obtain sg sv where m: "marked = Some (sg, sv)" using Some by (cases m) simp
      have "sg < length g" using "1.prems" m miss by (auto simp: aligned_def)
      then have "glob_scan g v (Suc sg) (Suc sv) (Some (sg, Suc sv)) \<longleftrightarrow> retries g v marked"
        using "1.IH"(3) [OF miss m refl] retries_mark [of g v sg sv] m by (simp add: aligned_def)
      then show ?thesis using m miss no by (subst glob_scan.simps) auto
    qed
  qed
qed

lemma glob_matches_denotes: "glob_matches g v \<longleftrightarrow> denotes g v"
  using glob_scan_spec [of g 0 0 None v] by (simp add: glob_matches_def aligned_def retries_def)

text \<open>The environments' matcher never claims too much, and on a text without the character \<^verbatim>\<open>*\<close> it makes
  the same moves as the policies' matcher.\<close>

lemma glob_walk_sound:
  "glob_walk p t pi ti starred mark \<Longrightarrow>
     denotes (drop pi p) (drop ti t) \<or> retries p t (map_option (\<lambda>s. (s, mark)) starred)"
proof (induction p t pi ti starred mark rule: glob_walk.induct)
  case (1 p t pi ti starred mark)
  consider (fin) "\<not> ti < length t" | (lit) "ti < length t" "pi < length p" "p ! pi = t ! ti"
    | (wild) "ti < length t" "pi < length p" "p ! pi \<noteq> t ! ti" "p ! pi = star"
    | (miss) "ti < length t" "\<not> (pi < length p \<and> p ! pi = star)" "\<not> (pi < length p \<and> p ! pi = t ! ti)"
    by blast
  then show ?case
  proof cases
    case fin
    then show ?thesis using "1.prems" by (simp add: glob_walk.simps list_all_iff)
  next
    case lit
    have "drop pi p = p ! pi # drop (Suc pi) p" "drop ti t = p ! pi # drop (Suc ti) t"
      using lit Cons_nth_drop_Suc [of ti t] Cons_nth_drop_Suc [of pi p] by metis+
    then have "denotes (drop (Suc pi) p) (drop (Suc ti) t) \<Longrightarrow> denotes (drop pi p) (drop ti t)"
      by (simp add: denotes_same)
    then show ?thesis using "1.IH"(1) "1.prems" lit by (auto simp: glob_walk.simps [of p t pi])
  next
    case wild
    then show ?thesis
      using "1.IH"(2) "1.prems" denotes_or_retries [OF wild(2,4), of ti t]
      by (simp add: glob_walk.simps [of p t pi])
  next
    case miss
    obtain s where s: "starred = Some s" and w: "glob_walk p t (s + 1) (mark + 1) (Some s) (mark + 1)"
      using "1.prems" miss by (auto simp: glob_walk.simps [of p t pi] split: option.splits if_splits)
    show ?thesis using "1.IH"(3) [OF miss(1,3,2) s] w s retries_mark [of p t s mark] by simp
  qed
qed

lemma glob_match_sound: "glob_match p t \<Longrightarrow> denotes p t"
  using glob_walk_sound [of p t 0 0 None 0] by (simp add: glob_match_def retries_def)

lemma glob_walk_scan:
  "star \<notin> set t \<Longrightarrow>
     glob_walk p t pi ti starred mark = glob_scan p t pi ti (map_option (\<lambda>s. (s, mark)) starred)"
proof (induction p t pi ti starred mark rule: glob_walk.induct)
  case (1 p t pi ti starred mark)
  have plain: "ti < length t \<Longrightarrow> t ! ti \<noteq> star" using "1.prems" by (auto simp: in_set_conv_nth)
  show ?case
    using "1.IH" "1.prems" plain
    by (auto simp: glob_walk.simps [of p t pi] glob_scan.simps [of p t pi] list_all_iff split: option.splits)
qed

lemma glob_match_denotes: "star \<notin> set t \<Longrightarrow> glob_match p t \<longleftrightarrow> denotes p t"
  using glob_walk_scan [of t p 0 0 None 0] glob_matches_denotes [of p t]
  by (simp add: glob_match_def glob_matches_def)

text \<open>A pattern read as text: every wildcard of it can only have been taken by a wildcard.\<close>

lemma denotes_suffix: "denotes (p @ q) t \<Longrightarrow> \<exists>k. denotes q (drop k t)"
proof (induction p arbitrary: t)
  case Nil
  then show ?case by (auto intro: exI [of _ 0])
next
  case (Cons c p)
  show ?case
  proof (cases "c = star")
    case True
    then obtain k where "denotes (p @ q) (drop k t)" using Cons.prems by (auto simp: denotes_star)
    then show ?thesis using Cons.IH by (metis drop_drop)
  next
    case False
    then obtain ds where "t = c # ds" "denotes (p @ q) ds" using Cons.prems by (auto simp: denotes_lit)
    then show ?thesis using Cons.IH by (metis drop_Suc_Cons)
  qed
qed

lemma denotes_trans: "denotes outer inner \<Longrightarrow> denotes inner t \<Longrightarrow> denotes outer t"
proof (induction outer arbitrary: inner t)
  case (Cons c outer)
  show ?case
  proof (cases "c = star")
    case True
    then obtain k where k: "denotes outer (drop k inner)" using Cons.prems by (auto simp: denotes_star)
    obtain j where "denotes (drop k inner) (drop j t)"
      using denotes_suffix [of "take k inner" "drop k inner"] Cons.prems(2) by auto
    then have "denotes outer (drop j t)" using Cons.IH k by blast
    then show ?thesis using True by (auto simp: denotes_star)
  next
    case False
    then obtain ds where "inner = c # ds" "denotes outer ds" using Cons.prems by (auto simp: denotes_lit)
    then show ?thesis using Cons.IH Cons.prems(2) False by (auto simp: denotes_lit)
  qed
qed simp

section \<open>What the clients use\<close>

text \<open>A matcher that decides the meaning of a pattern on every text of a class, and claims no more
  elsewhere. \<open>any_of\<close> is membership in a list of patterns.\<close>

locale glob_matcher =
  fixes gm :: "string \<Rightarrow> string \<Rightarrow> bool" and plain :: "string \<Rightarrow> bool"
  assumes sound: "gm p t \<Longrightarrow> denotes p t"
    and complete: "plain t \<Longrightarrow> denotes p t \<Longrightarrow> gm p t"
begin

definition any_of :: "string list \<Rightarrow> string \<Rightarrow> bool" where
  "any_of ps t = list_ex (\<lambda>p. gm p t) ps"

lemma any_of_mono: "any_of ps t \<Longrightarrow> set ps \<subseteq> set qs \<Longrightarrow> any_of qs t"
  by (auto simp: any_of_def list_ex_iff)

lemma covered_any_of:
  assumes cov: "\<And>p. p \<in> set new \<Longrightarrow> \<exists>q \<in> set old. q = p \<or> gm q p"
    and hit: "any_of new t" and plain: "plain t"
  shows "any_of old t"
proof -
  obtain p where p: "p \<in> set new" "gm p t" using hit by (auto simp: any_of_def list_ex_iff)
  obtain q where q: "q \<in> set old" "q = p \<or> gm q p" using cov p(1) by blast
  then have "denotes q t" using sound p(2) denotes_trans by blast
  then show ?thesis using complete plain q(1) by (auto simp: any_of_def list_ex_iff)
qed

end

interpretation policy_glob: glob_matcher glob_matches "\<lambda>_. True"
  by unfold_locales (simp_all add: glob_matches_denotes)

interpretation env_glob: glob_matcher glob_match "\<lambda>t. star \<notin> set t"
  by unfold_locales (simp_all add: glob_match_sound glob_match_denotes)

section \<open>Properties\<close>

text \<open>C40: both matchers decide the meaning of a pattern, in which \<^verbatim>\<open>*\<close> stands for any run of characters:
  the policies' matcher on every text, the environments' matcher on every text in which the
  character \<^verbatim>\<open>*\<close> does not occur.\<close>

theorem globs_decide_meaning:
  "(glob_matches p t \<longleftrightarrow> denotes p t) \<and> (star \<notin> set t \<longrightarrow> (glob_match p t \<longleftrightarrow> denotes p t))
   \<and> (glob_match p t \<longrightarrow> denotes p t)"
  by (simp add: glob_matches_denotes glob_match_denotes glob_match_sound)

theorem globs_decide_meaning_witness:
  "glob_matches ''a*b*c'' ''aXXbYYc'' \<and> glob_match ''refs/heads/*'' ''refs/heads/main''
   \<and> \<not> glob_match ''refs/heads/*'' ''refs/tags/v1''"
proof -
  have "denotes ''a*b*c'' ''aXXbYYc''" "denotes ''refs/heads/*'' ''refs/heads/main''"
    "\<not> denotes ''refs/heads/*'' ''refs/tags/v1''"
    by code_simp+
  then show ?thesis
    using globs_decide_meaning [of "''a*b*c''" "''aXXbYYc''"]
      globs_decide_meaning [of "''refs/heads/*''" "''refs/heads/main''"]
      globs_decide_meaning [of "''refs/heads/*''" "''refs/tags/v1''"]
    by simp
qed

text \<open>The environments' matcher does not match every text with the pattern \<^verbatim>\<open>*\<close>: where the text itself
  begins with that character, the literal comparison comes first and the wildcard is spent on it.\<close>

theorem star_text_unmatched: "\<not> glob_match ''*'' ''*x'' \<and> glob_matches ''*'' ''*x'' \<and> denotes ''*'' ''*x''"
  by code_simp

end
