(* ===== verification/Governance.thy ===== *)
theory Governance
  imports Glob
begin

text \<open>
  The governance of org-level environments (\<^verbatim>\<open>scarab-project\<close>): the protection rules an environment's
  admin sets as its baseline, the overlay a project tightens it with, the rules admission enforces
  (\<^verbatim>\<open>effective_protection\<close>), which projects are eligible, the privileges of a project, the migration of
  the per-project environments before it, and \<^verbatim>\<open>step_up_loosening.rs\<close>: which edits loosen and therefore
  need a step-up. Counts and seconds are \<^verbatim>\<open>u32\<close>; no operation on them here can overflow.
\<close>

section \<open>Rules\<close>

datatype missing_gate_mode = MGAdd | MGRefuse

definition missing_gate_str :: "missing_gate_mode \<Rightarrow> string" where
  "missing_gate_str m = (case m of MGAdd \<Rightarrow> ''add'' | MGRefuse \<Rightarrow> ''refuse'')"

definition missing_gate_parse :: "string \<Rightarrow> missing_gate_mode option" where
  "missing_gate_parse s = (if s = ''add'' then Some MGAdd else if s = ''refuse'' then Some MGRefuse else None)"

record approval_gate_rules =
  ag_missing_gate :: missing_gate_mode
  ag_added_gate_expiry_s :: "nat option"
  ag_required_approvals :: "nat option"
  ag_max_approval_age_s :: nat

definition DEFAULT_MAX_APPROVAL_AGE_S :: nat where
  "DEFAULT_MAX_APPROVAL_AGE_S = 24 * 60 * 60"

definition default_approval_gate :: approval_gate_rules where
  "default_approval_gate = \<lparr>ag_missing_gate = MGAdd, ag_added_gate_expiry_s = None,
     ag_required_approvals = None, ag_max_approval_age_s = DEFAULT_MAX_APPROVAL_AGE_S\<rparr>"

record env_rules =
  er_approvers :: "string list"
  er_allowed_refs :: "string list"
  er_wait_timer_s :: nat
  er_require_reason :: bool
  er_approval_gate :: approval_gate_rules

definition permissive :: env_rules where
  "permissive = \<lparr>er_approvers = [], er_allowed_refs = [], er_wait_timer_s = 0, er_require_reason = False,
     er_approval_gate = default_approval_gate\<rparr>"

text \<open>\<^verbatim>\<open>ApprovalGateRules::validate\<close>: the message of the first rule broken.\<close>

definition validate_approval_gate :: "approval_gate_rules \<Rightarrow> string list \<Rightarrow> string + unit" where
  "validate_approval_gate ag approvers =
     (if ag_required_approvals ag = Some 0 then Inl ''required approvals must be at least 1''
      else if (case ag_required_approvals ag of None \<Rightarrow> False | Some n \<Rightarrow> length approvers < n)
      then Inl (''required approvals is '' @ nat_str (the (ag_required_approvals ag))
                @ '', but the baseline lists '' @ nat_str (length approvers) @ '' approver(s)'')
      else if ag_added_gate_expiry_s ag = Some 0 then Inl ''the added gate's expiry must be at least 1 second''
      else if ag_max_approval_age_s ag = 0 then Inl ''the maximum approval age must be at least 1 second''
      else Inr ())"

record overlay =
  ov_org :: string
  ov_environment :: string
  ov_project :: string
  ov_rules :: env_rules

datatype eligibility = AllProjects | Projects "string list"

definition eligibility_admits :: "eligibility \<Rightarrow> string \<Rightarrow> bool" where
  "eligibility_admits e project =
     (case e of AllProjects \<Rightarrow> True | Projects patterns \<Rightarrow> list_ex (\<lambda>p. glob_match p project) patterns)"

section \<open>Privileges\<close>

record image_grant =
  ig_image_digest :: string
  ig_privileged :: bool
  ig_capabilities :: "string list"

record grant_request =
  gq_run_as_root :: bool
  gq_add_capabilities :: "string list"
  gq_privileged :: bool

record admitted_grants =
  ad_run_as_root :: bool
  ad_add_capabilities :: "string list"
  ad_privileged :: bool

text \<open>\<^verbatim>\<open>rsplit_once('@')\<close>: the text behind the last separator, when there is one.\<close>

definition after_last_char :: "char \<Rightarrow> string \<Rightarrow> string option" where
  "after_last_char c s = (if c \<in> set s then Some (rev (takeWhile (\<lambda>d. d \<noteq> c) (rev s))) else None)"

definition starts_with :: "string \<Rightarrow> string \<Rightarrow> bool" where
  "starts_with prefix s = (take (length prefix) s = prefix)"

definition image_digest :: "string \<Rightarrow> string option" where
  "image_digest img =
     (case after_last_char (CHR ''@'') img of
        Some d \<Rightarrow> if starts_with ''sha256:'' d then Some d else None
      | None \<Rightarrow> None)"

definition capability_violations :: "image_grant \<Rightarrow> string list \<Rightarrow> string list" where
  "capability_violations entry caps =
     map (\<lambda>cap. ''capability '' @ quoted cap @ '' is not granted to this image digest'')
       (filter (\<lambda>cap. cap \<notin> set (ig_capabilities entry)) caps)"

definition admit_grants_against_whitelist ::
  "image_grant list \<Rightarrow> grant_request \<Rightarrow> string \<Rightarrow> bool \<Rightarrow> string list + admitted_grants" where
  "admit_grants_against_whitelist whitelist req img locked_out =
     (let plain = \<lparr>ad_run_as_root = gq_run_as_root req, ad_add_capabilities = [], ad_privileged = False\<rparr> in
      if \<not> gq_privileged req \<and> gq_add_capabilities req = [] then Inr plain
      else if locked_out then
        Inl [''fork-PR run is locked out of governed grants (add-capabilities/privileged)'']
      else
        (case image_digest img of
           None \<Rightarrow> Inl [''image '' @ quoted img
                     @ '' requests a governed grant but is not pinned to a digest (repo@sha256:''
                     @ [CHR 0xE2, CHR 0x80, CHR 0xA6] @ '')'']
         | Some d \<Rightarrow>
             (case List.find (\<lambda>g. ig_image_digest g = d) whitelist of
                None \<Rightarrow> Inl [''image digest '' @ quoted d
                          @ '' is not whitelisted for governed grants in this environment'']
              | Some entry \<Rightarrow>
                  (let violations =
                         (if gq_privileged req \<and> \<not> ig_privileged entry
                          then [quoted ''privileged'' @ '' is not granted to this image digest''] else [])
                         @ capability_violations entry (gq_add_capabilities req)
                   in if violations = []
                      then Inr (plain\<lparr>ad_privileged := gq_privileged req \<and> ig_privileged entry,
                                ad_add_capabilities :=
                                  filter (\<lambda>cap. cap \<in> set (ig_capabilities entry)) (gq_add_capabilities req)\<rparr>)
                      else Inl violations))))"

record privilege_grant =
  pg_org :: string
  pg_environment :: string
  pg_project :: string
  pg_privileged_images :: "image_grant list"
  pg_permit_k8s_overlay :: bool

definition grant_images :: "privilege_grant option \<Rightarrow> image_grant list" where
  "grant_images grant = (case grant of None \<Rightarrow> [] | Some g \<Rightarrow> pg_privileged_images g)"

definition admit_grants ::
  "privilege_grant option \<Rightarrow> grant_request \<Rightarrow> string \<Rightarrow> bool \<Rightarrow> string list + admitted_grants" where
  "admit_grants grant req img locked_out =
     admit_grants_against_whitelist (grant_images grant) req img locked_out"

definition permits_k8s_overlay :: "privilege_grant option \<Rightarrow> bool" where
  "permits_k8s_overlay grant = (case grant of None \<Rightarrow> False | Some g \<Rightarrow> pg_permit_k8s_overlay g)"

section \<open>The rules admission enforces\<close>

record effective_protection =
  ep_approvers :: "string list"
  ep_baseline_approvers :: "string list"
  ep_overlay_approvers :: "string list"
  ep_allowed_refs :: "string list list"
  ep_wait_timer_s :: nat
  ep_require_reason :: bool
  ep_approval_gate :: approval_gate_rules

text \<open>The loop over the approvers of both layers keeps the first occurrence of each.\<close>

fun add_new :: "string list \<Rightarrow> string list \<Rightarrow> string list" where
  "add_new acc [] = acc"
| "add_new acc (a # as) = add_new (if a \<in> set acc then acc else acc @ [a]) as"

lemma set_add_new [simp]: "set (add_new acc xs) = set acc \<union> set xs"
  by (induction acc xs rule: add_new.induct) auto

definition effective_protection :: "env_rules \<Rightarrow> overlay option \<Rightarrow> effective_protection" where
  "effective_protection baseline ov =
     (let rules = map_option ov_rules ov;
          ov_approvers = (case rules of None \<Rightarrow> [] | Some r \<Rightarrow> er_approvers r)
      in \<lparr>ep_approvers = add_new [] (er_approvers baseline @ ov_approvers),
          ep_baseline_approvers = er_approvers baseline,
          ep_overlay_approvers = ov_approvers,
          ep_allowed_refs = er_allowed_refs baseline
            # (case rules of None \<Rightarrow> [] | Some r \<Rightarrow> [er_allowed_refs r]),
          ep_wait_timer_s = (case rules of None \<Rightarrow> er_wait_timer_s baseline
             | Some r \<Rightarrow> max (er_wait_timer_s baseline) (er_wait_timer_s r)),
          ep_require_reason = (case rules of None \<Rightarrow> er_require_reason baseline
             | Some r \<Rightarrow> er_require_reason baseline \<or> er_require_reason r),
          ep_approval_gate = er_approval_gate baseline\<rparr>)"

definition layer_allows :: "string \<Rightarrow> string list \<Rightarrow> bool" where
  "layer_allows git_ref layer = (layer = [] \<or> list_ex (\<lambda>p. glob_match p git_ref) layer)"

definition ref_allowed :: "effective_protection \<Rightarrow> string \<Rightarrow> bool" where
  "ref_allowed p git_ref = list_all (layer_allows git_ref) (ep_allowed_refs p)"

definition unrestricted_refs :: "effective_protection \<Rightarrow> bool" where
  "unrestricted_refs p = list_all (\<lambda>layer. layer = []) (ep_allowed_refs p)"

definition admits_protection_ref :: "effective_protection \<Rightarrow> string option \<Rightarrow> bool" where
  "admits_protection_ref p protection_ref =
     (case protection_ref of Some git_ref \<Rightarrow> ref_allowed p git_ref | None \<Rightarrow> unrestricted_refs p)"

definition missing_approval :: "string \<Rightarrow> string" where
  "missing_approval who = ''missing required approval from '' @ quoted who"

definition missing_approvals :: "string list \<Rightarrow> string list \<Rightarrow> string list" where
  "missing_approvals approvals whos = map missing_approval (filter (\<lambda>a. a \<notin> set approvals) whos)"

definition approval_violations :: "effective_protection \<Rightarrow> string list \<Rightarrow> string list" where
  "approval_violations p approvals =
     (case ag_required_approvals (ep_approval_gate p) of
        None \<Rightarrow> missing_approvals approvals (ep_approvers p)
      | Some n \<Rightarrow>
          (let have = length (filter (\<lambda>a. a \<in> set approvals) (ep_baseline_approvers p));
               need = min n (length (ep_baseline_approvers p))
           in missing_approvals approvals (ep_overlay_approvers p)
              @ (if have < need
                 then [''needs '' @ nat_str need @ '' approval(s) from ''
                       @ join_with '', '' (map (\<lambda>a. quoted a) (ep_baseline_approvers p))
                       @ ''; has '' @ nat_str have]
                 else [])))"

definition ref_refused :: "string \<Rightarrow> string" where
  "ref_refused git_ref = ''ref '' @ quoted git_ref @ '' is not allowed to deploy here''"

definition admits :: "effective_protection \<Rightarrow> string \<Rightarrow> string list \<Rightarrow> string list + unit" where
  "admits p git_ref approvals =
     (let violations = (if ref_allowed p git_ref then [] else [ref_refused git_ref])
                       @ approval_violations p approvals
      in if violations = [] then Inr () else Inl violations)"

definition effective_wait_timer_s :: "effective_protection \<Rightarrow> nat" where
  "effective_wait_timer_s p = (if ep_approvers p = [] then 0 else ep_wait_timer_s p)"

definition approver_set :: "effective_protection \<Rightarrow> string list \<times> nat option" where
  "approver_set p = (sort (ep_approvers p), ag_required_approvals (ep_approval_gate p))"

definition reason_required :: "string list" where
  "reason_required = [''a reason is required to dispatch a run into this environment'']"

definition admits_reason :: "effective_protection \<Rightarrow> bool \<Rightarrow> bool \<Rightarrow> string list + unit" where
  "admits_reason p is_human_dispatch has_reason =
     (if ep_require_reason p \<and> is_human_dispatch \<and> \<not> has_reason then Inl reason_required else Inr ())"

section \<open>The per-project environments before\<close>

text \<open>\<^verbatim>\<open>ProtectionRules\<close>, less the secret scope and the OIDC subject, which no decision reads.\<close>

record legacy_rules =
  lr_approvers :: "string list"
  lr_wait_timer :: nat
  lr_allowed_refs :: "string list"
  lr_concurrency :: nat
  lr_privileged_images :: "image_grant list"
  lr_permit_k8s_overlay :: bool
  lr_require_reason :: bool

record legacy_environment =
  le_name :: string
  le_protection :: legacy_rules

definition legacy_ref_allowed :: "legacy_rules \<Rightarrow> string \<Rightarrow> bool" where
  "legacy_ref_allowed r git_ref = layer_allows git_ref (lr_allowed_refs r)"

definition legacy_admits :: "legacy_rules \<Rightarrow> string \<Rightarrow> string list \<Rightarrow> string list + unit" where
  "legacy_admits r git_ref approvals =
     (let violations = (if legacy_ref_allowed r git_ref then [] else [ref_refused git_ref])
                       @ missing_approvals approvals (lr_approvers r)
      in if violations = [] then Inr () else Inl violations)"

definition legacy_admits_reason :: "legacy_rules \<Rightarrow> bool \<Rightarrow> bool \<Rightarrow> string list + unit" where
  "legacy_admits_reason r is_human_dispatch has_reason =
     (if lr_require_reason r \<and> is_human_dispatch \<and> \<not> has_reason then Inl reason_required else Inr ())"

definition legacy_admit_grants ::
  "legacy_rules \<Rightarrow> grant_request \<Rightarrow> string \<Rightarrow> bool \<Rightarrow> string list + admitted_grants" where
  "legacy_admit_grants r req img locked_out =
     admit_grants_against_whitelist (lr_privileged_images r) req img locked_out"

definition migrate_legacy_environment ::
  "string \<Rightarrow> string \<Rightarrow> legacy_environment \<Rightarrow> overlay \<times> privilege_grant option" where
  "migrate_legacy_environment org project legacy =
     (let old = le_protection legacy in
      (\<lparr>ov_org = org, ov_environment = le_name legacy, ov_project = project,
        ov_rules = \<lparr>er_approvers = lr_approvers old, er_allowed_refs = lr_allowed_refs old,
                    er_wait_timer_s = lr_wait_timer old, er_require_reason = lr_require_reason old,
                    er_approval_gate = default_approval_gate\<rparr>\<rparr>,
       if lr_privileged_images old \<noteq> [] \<or> lr_permit_k8s_overlay old
       then Some \<lparr>pg_org = org, pg_environment = le_name legacy, pg_project = project,
                  pg_privileged_images = lr_privileged_images old,
                  pg_permit_k8s_overlay = lr_permit_k8s_overlay old\<rparr>
       else None))"

section \<open>Which edits loosen\<close>

definition glob_subsumes :: "string \<Rightarrow> string \<Rightarrow> bool" where
  "glob_subsumes outer inner = (outer = inner \<or> glob_match outer inner)"

definition covered :: "string list \<Rightarrow> string \<Rightarrow> bool" where
  "covered old pattern = list_ex (\<lambda>q. glob_subsumes q pattern) old"

definition required_of :: "env_rules \<Rightarrow> nat" where
  "required_of r =
     (case ag_required_approvals (er_approval_gate r) of None \<Rightarrow> length (er_approvers r) | Some n \<Rightarrow> n)"

definition approval_gate_loosenings :: "env_rules \<Rightarrow> env_rules \<Rightarrow> string list" where
  "approval_gate_loosenings old new =
     (let ag = er_approval_gate old; ag' = er_approval_gate new in
      (if ag_required_approvals ag \<noteq> ag_required_approvals ag' \<and> required_of new < required_of old
       then [''lowers the approvals an approval gate needs from '' @ nat_str (required_of old)
             @ '' to '' @ nat_str (required_of new)]
       else [])
      @ (case ag_required_approvals ag' of
           None \<Rightarrow> []
         | Some count \<Rightarrow>
             map (\<lambda>a. ''adds approver '' @ quoted a @ '', and only '' @ nat_str count
                      @ '' of the approvers must approve'')
               (filter (\<lambda>a. a \<notin> set (er_approvers old)) (er_approvers new)))
      @ (if ag_max_approval_age_s ag < ag_max_approval_age_s ag'
         then [''raises the maximum approval age from '' @ nat_str (ag_max_approval_age_s ag)
               @ '' s to '' @ nat_str (ag_max_approval_age_s ag') @ '' s'']
         else [])
      @ (case (ag_added_gate_expiry_s ag, ag_added_gate_expiry_s ag') of
           (Some _, None) \<Rightarrow> [''removes the added gate's expiry'']
         | (Some a, Some b) \<Rightarrow>
             (if a < b then [''lengthens the added gate's expiry from '' @ nat_str a @ '' s to ''
                             @ nat_str b @ '' s''] else [])
         | _ \<Rightarrow> []))"

definition protection_loosenings :: "env_rules \<Rightarrow> env_rules \<Rightarrow> string list" where
  "protection_loosenings old new =
     map (\<lambda>a. ''removes approver '' @ quoted a)
       (filter (\<lambda>a. a \<notin> set (er_approvers new)) (er_approvers old))
     @ (if er_allowed_refs old = [] then []
        else if er_allowed_refs new = [] then [''allows any ref'']
        else map (\<lambda>g. ''widens allowed refs: '' @ quoted g)
               (filter (\<lambda>g. \<not> covered (er_allowed_refs old) g) (er_allowed_refs new)))
     @ (if er_wait_timer_s new < er_wait_timer_s old
        then [''shortens the wait timer from '' @ nat_str (er_wait_timer_s old) @ '' s to ''
              @ nat_str (er_wait_timer_s new) @ '' s'']
        else [])
     @ (if er_require_reason old \<and> \<not> er_require_reason new then [''no longer requires a reason''] else [])
     @ approval_gate_loosenings old new"

definition overlay_loosenings :: "overlay option \<Rightarrow> overlay \<Rightarrow> string list" where
  "overlay_loosenings old new =
     protection_loosenings (case old of None \<Rightarrow> permissive | Some o' \<Rightarrow> ov_rules o') (ov_rules new)"

definition eligibility_loosenings :: "eligibility \<Rightarrow> eligibility \<Rightarrow> string list" where
  "eligibility_loosenings old new =
     (case (old, new) of
        (AllProjects, _) \<Rightarrow> []
      | (Projects _, AllProjects) \<Rightarrow> [''admits every project'']
      | (Projects p, Projects q) \<Rightarrow>
          map (\<lambda>g. ''admits projects matching '' @ quoted g) (filter (\<lambda>g. \<not> covered p g) q))"

definition image_loosenings :: "image_grant list \<Rightarrow> image_grant \<Rightarrow> string list" where
  "image_loosenings old_images img =
     (let digest = ig_image_digest img;
          before = filter (\<lambda>g. ig_image_digest g = digest) old_images
      in if before = [] then [''grants image '' @ quoted digest]
         else (if ig_privileged img \<and> \<not> list_ex ig_privileged before
               then [''lets image '' @ quoted digest @ '' run privileged''] else [])
              @ map (\<lambda>cap. ''lets image '' @ quoted digest @ '' add capability '' @ quoted cap)
                  (filter (\<lambda>cap. \<not> list_ex (\<lambda>g. cap \<in> set (ig_capabilities g)) before)
                    (ig_capabilities img)))"

definition privilege_grant_loosenings :: "privilege_grant option \<Rightarrow> privilege_grant \<Rightarrow> string list" where
  "privilege_grant_loosenings old new =
     remdups_adj
       (concat (map (image_loosenings (grant_images old)) (pg_privileged_images new))
        @ (if pg_permit_k8s_overlay new \<and> \<not> permits_k8s_overlay old
           then [''permits a raw k8s_overlay''] else []))"

end
