(* ===== verification/Governance_Laws.thy ===== *)
theory Governance_Laws
  imports Governance
begin

text \<open>
  What the governance of environments guarantees: an overlay only tightens; an edit for which
  \<^verbatim>\<open>step_up_loosening.rs\<close> reports no loosening admits nothing that was refused before, for every ref,
  every set of approvals, every project and every request for privileges; the migration of the
  per-project environments preserves every decision. Refs and project names are texts without the
  character \<^verbatim>\<open>*\<close>, which neither git nor a forge allows in them (\<open>globs_decide_meaning\<close> says why that matters).
\<close>

section \<open>Decisions\<close>

lemma add_new_empty [simp]: "add_new acc xs = [] \<longleftrightarrow> acc = [] \<and> xs = []"
proof -
  have "add_new acc xs = [] \<longleftrightarrow> set (add_new acc xs) = {}" by (metis set_empty)
  then show ?thesis by simp
qed

lemma missing_approvals_Nil [simp]: "missing_approvals approvals whos = [] \<longleftrightarrow> set whos \<subseteq> set approvals"
  by (auto simp: missing_approvals_def filter_empty_conv)

definition enough :: "effective_protection \<Rightarrow> string list \<Rightarrow> bool" where
  "enough p approvals =
     (case ag_required_approvals (ep_approval_gate p) of
        None \<Rightarrow> set (ep_approvers p) \<subseteq> set approvals
      | Some n \<Rightarrow> set (ep_overlay_approvers p) \<subseteq> set approvals
          \<and> min n (length (ep_baseline_approvers p))
              \<le> length (filter (\<lambda>a. a \<in> set approvals) (ep_baseline_approvers p)))"

lemma admits_iff: "admits p git_ref approvals = Inr () \<longleftrightarrow> ref_allowed p git_ref \<and> enough p approvals"
  by (auto simp: admits_def approval_violations_def enough_def Let_def not_less split: option.splits)

lemma layer_allows_any: "layer_allows git_ref layer \<longleftrightarrow> layer = [] \<or> env_glob.any_of layer git_ref"
  by (simp add: layer_allows_def env_glob.any_of_def)

lemma ref_allowed_effective:
  "ref_allowed (effective_protection b ov) git_ref \<longleftrightarrow>
     layer_allows git_ref (er_allowed_refs b)
     \<and> (\<forall>o'. ov = Some o' \<longrightarrow> layer_allows git_ref (er_allowed_refs (ov_rules o')))"
  by (cases ov) (auto simp: ref_allowed_def effective_protection_def Let_def)

definition overlay_approvers :: "overlay option \<Rightarrow> string list" where
  "overlay_approvers ov = (case ov of None \<Rightarrow> [] | Some o' \<Rightarrow> er_approvers (ov_rules o'))"

lemma effective_sel [simp]:
  "ep_baseline_approvers (effective_protection b ov) = er_approvers b"
  "ep_overlay_approvers (effective_protection b ov) = overlay_approvers ov"
  "ep_approvers (effective_protection b ov) = add_new [] (er_approvers b @ overlay_approvers ov)"
  "ep_approval_gate (effective_protection b ov) = er_approval_gate b"
  by (cases ov; simp add: effective_protection_def overlay_approvers_def Let_def)+

lemma enough_effective:
  "enough (effective_protection b ov) approvals \<longleftrightarrow>
     set (overlay_approvers ov) \<subseteq> set approvals
     \<and> (case ag_required_approvals (er_approval_gate b) of
          None \<Rightarrow> set (er_approvers b) \<subseteq> set approvals
        | Some n \<Rightarrow> min n (length (er_approvers b))
            \<le> length (filter (\<lambda>a. a \<in> set approvals) (er_approvers b)))"
  by (auto simp: enough_def split: option.splits)

section \<open>Edits that loosen nothing\<close>

text \<open>What an empty list of loosenings says, field by field.\<close>

lemma loosenings_Nil:
  assumes "protection_loosenings old new = []"
  shows "set (er_approvers old) \<subseteq> set (er_approvers new)"
    and "er_allowed_refs old \<noteq> [] \<Longrightarrow> er_allowed_refs new \<noteq> []"
    and "er_allowed_refs old \<noteq> [] \<Longrightarrow> g \<in> set (er_allowed_refs new) \<Longrightarrow> covered (er_allowed_refs old) g"
    and "er_wait_timer_s old \<le> er_wait_timer_s new"
    and "er_require_reason old \<Longrightarrow> er_require_reason new"
    and "ag_max_approval_age_s (er_approval_gate new) \<le> ag_max_approval_age_s (er_approval_gate old)"
    and "ag_required_approvals (er_approval_gate new) = Some n \<Longrightarrow> set (er_approvers new) \<subseteq> set (er_approvers old)"
    and "ag_required_approvals (er_approval_gate old) \<noteq> ag_required_approvals (er_approval_gate new)
          \<Longrightarrow> required_of old \<le> required_of new"
  using assms
  by (auto simp: protection_loosenings_def approval_gate_loosenings_def Let_def filter_empty_conv not_less
      split: if_splits)

lemma layer_no_wider:
  assumes keep: "old \<noteq> [] \<Longrightarrow> new \<noteq> []" and cov: "\<And>g. old \<noteq> [] \<Longrightarrow> g \<in> set new \<Longrightarrow> covered old g"
    and plain: "star \<notin> set git_ref" and ok: "layer_allows git_ref new"
  shows "layer_allows git_ref old"
proof (cases "old = []")
  case False
  have "env_glob.any_of old git_ref"
  proof (rule env_glob.covered_any_of [OF _ _ plain])
    show "env_glob.any_of new git_ref" using ok keep False by (simp add: layer_allows_any)
    show "\<exists>q \<in> set old. q = p \<or> glob_match q p" if "p \<in> set new" for p
      using cov [OF False that] by (auto simp: covered_def glob_subsumes_def list_ex_iff)
  qed
  then show ?thesis by (simp add: layer_allows_any)
qed (simp add: layer_allows_def)

text \<open>Counting approvals over a list of approvers, each of whom is listed once, counts people.\<close>

lemma approvals_counted:
  assumes "distinct new" and "set new = set old"
  shows "length (filter P new) \<le> length (filter P old)" and "length new \<le> length old"
proof -
  have "card (set (filter P new)) \<le> length (filter P old)"
    using assms(2) card_length [of "filter P old"] by simp
  then show "length (filter P new) \<le> length (filter P old)"
    using distinct_card [of "filter P new"] assms(1) by simp
  show "length new \<le> length old" using assms card_length [of old] by (simp add: distinct_card [symmetric])
qed

lemma enough_no_wider:
  assumes nil: "protection_loosenings old new = []" and d: "distinct (er_approvers new)"
    and ok: "enough (effective_protection new ov) approvals"
  shows "enough (effective_protection old ov) approvals"
proof -
  note lo = loosenings_Nil [OF nil]
  let ?P = "\<lambda>a. a \<in> set approvals"
  have all: "set (er_approvers old) \<subseteq> set approvals \<Longrightarrow> ?thesis"
    using ok by (auto simp: enough_effective filter_id_conv subset_iff split: option.splits)
  show ?thesis
  proof (cases "ag_required_approvals (er_approval_gate new)")
    case None
    then show ?thesis using ok lo(1) all by (auto simp: enough_effective)
  next
    case (Some n)
    have same: "set (er_approvers new) = set (er_approvers old)" using lo(1) lo(7) [OF Some] by blast
    note counted = approvals_counted [OF d same]
    have need: "min n (length (er_approvers new)) \<le> length (filter ?P (er_approvers new))"
      using ok Some by (simp add: enough_effective)
    show ?thesis
    proof (cases "length (er_approvers new) \<le> n")
      case True
      then have "filter ?P (er_approvers new) = er_approvers new"
        using need by (metis filter_id_conv length_filter_less linorder_not_less min_def order_antisym_conv)
      then show ?thesis using all same by (metis filter_id_conv subsetI)
    next
      case False
      then have n: "n \<le> length (filter ?P (er_approvers old))" using need counted(1) [of ?P] by simp
      obtain m where m: "ag_required_approvals (er_approval_gate old) = Some m" "m \<le> n"
        using lo(8) Some False counted(2)
        by (cases "ag_required_approvals (er_approval_gate old)") (auto simp: required_of_def)
      then show ?thesis using n ok Some by (simp add: enough_effective)
    qed
  qed
qed

lemma wait_timer_no_wider:
  "protection_loosenings old new = [] \<Longrightarrow>
     effective_wait_timer_s (effective_protection old ov) \<le> effective_wait_timer_s (effective_protection new ov)"
  using loosenings_Nil(1,4) [of old new]
  by (cases ov) (auto simp: effective_wait_timer_s_def effective_protection_def Let_def overlay_approvers_def)

lemma reason_no_wider:
  "protection_loosenings old new = [] \<Longrightarrow> ep_require_reason (effective_protection old ov)
     \<Longrightarrow> ep_require_reason (effective_protection new ov)"
  using loosenings_Nil(5) [of old new] by (cases ov) (auto simp: effective_protection_def Let_def)

text \<open>The same for a project's overlay, over one baseline.\<close>

abbreviation overlay_rules :: "overlay option \<Rightarrow> env_rules" where
  "overlay_rules ov \<equiv> (case ov of None \<Rightarrow> permissive | Some o' \<Rightarrow> ov_rules o')"

lemma overlay_as_rules:
  "overlay_approvers ov = er_approvers (overlay_rules ov)"
  by (cases ov) (simp_all add: overlay_approvers_def permissive_def)

lemma ref_allowed_layers:
  "ref_allowed (effective_protection b ov) git_ref \<longleftrightarrow>
     layer_allows git_ref (er_allowed_refs b) \<and> layer_allows git_ref (er_allowed_refs (overlay_rules ov))"
  by (cases ov) (simp_all add: ref_allowed_effective permissive_def layer_allows_def)

lemma overlay_no_wider:
  assumes nil: "overlay_loosenings ov new = []" and plain: "star \<notin> set git_ref"
    and ok: "admits (effective_protection b (Some new)) git_ref approvals = Inr ()"
  shows "admits (effective_protection b ov) git_ref approvals = Inr ()"
proof -
  have nil': "protection_loosenings (overlay_rules ov) (ov_rules new) = []"
    using nil by (simp add: overlay_loosenings_def)
  note lo = loosenings_Nil [OF nil']
  have "layer_allows git_ref (er_allowed_refs (ov_rules new))"
    using ok by (simp add: admits_iff ref_allowed_effective)
  then have "layer_allows git_ref (er_allowed_refs (overlay_rules ov))"
    using layer_no_wider [OF _ _ plain] lo(2,3) by blast
  moreover have "set (overlay_approvers ov) \<subseteq> set (overlay_approvers (Some new))"
    using lo(1) by (simp add: overlay_as_rules)
  ultimately show ?thesis
    using ok by (auto simp: admits_iff ref_allowed_layers enough_effective)
qed

lemma eligibility_no_wider:
  assumes nil: "eligibility_loosenings old new = []" and plain: "star \<notin> set project"
    and ok: "eligibility_admits new project"
  shows "eligibility_admits old project"
proof (cases old)
  case (Projects p)
  then obtain q where q: "new = Projects q" "\<forall>g \<in> set q. covered p g"
    using nil by (cases new) (auto simp: eligibility_loosenings_def filter_empty_conv)
  have "env_glob.any_of p project"
    by (rule env_glob.covered_any_of [of q]) (use q ok plain in
        \<open>auto simp: eligibility_admits_def env_glob.any_of_def covered_def glob_subsumes_def list_ex_iff\<close>)
  then show ?thesis using Projects by (simp add: eligibility_admits_def env_glob.any_of_def)
qed (simp add: eligibility_admits_def)

section \<open>Privileges\<close>

lemma admit_governed:
  assumes "gq_privileged req \<or> gq_add_capabilities req \<noteq> []"
  shows "admit_grants_against_whitelist whitelist req img locked_out = Inr a \<longleftrightarrow>
     \<not> locked_out \<and> (\<exists>d entry. image_digest img = Some d
        \<and> List.find (\<lambda>g. ig_image_digest g = d) whitelist = Some entry
        \<and> (gq_privileged req \<longrightarrow> ig_privileged entry)
        \<and> set (gq_add_capabilities req) \<subseteq> set (ig_capabilities entry))
     \<and> a = \<lparr>ad_run_as_root = gq_run_as_root req, ad_add_capabilities = gq_add_capabilities req,
            ad_privileged = gq_privileged req\<rparr>"
  using assms
  by (auto simp: admit_grants_against_whitelist_def capability_violations_def Let_def filter_empty_conv
      filter_id_conv subset_iff split: option.splits if_splits)

lemma admit_ungoverned:
  "\<not> (gq_privileged req \<or> gq_add_capabilities req \<noteq> []) \<Longrightarrow>
     admit_grants_against_whitelist whitelist req img locked_out
       = Inr \<lparr>ad_run_as_root = gq_run_as_root req, ad_add_capabilities = [], ad_privileged = False\<rparr>"
  by (simp add: admit_grants_against_whitelist_def)

lemma find_digest:
  "distinct (map ig_image_digest images) \<Longrightarrow> g \<in> set images \<Longrightarrow>
     List.find (\<lambda>h. ig_image_digest h = ig_image_digest g) images = Some g"
  by (induction images) (auto simp: image_iff)

lemma image_no_wider:
  assumes d: "distinct (map ig_image_digest old)" and nil: "image_loosenings old entry = []"
  obtains g where "g \<in> set old" "ig_image_digest g = ig_image_digest entry"
    "ig_privileged entry \<Longrightarrow> ig_privileged g" "set (ig_capabilities entry) \<subseteq> set (ig_capabilities g)"
proof -
  let ?before = "filter (\<lambda>g. ig_image_digest g = ig_image_digest entry) old"
  have "?before \<noteq> []" using nil by (auto simp: image_loosenings_def Let_def)
  then obtain g where g: "g \<in> set old" "ig_image_digest g = ig_image_digest entry"
    by (auto simp: filter_empty_conv)
  have only: "h = g" if "h \<in> set ?before" for h
    using that g d by (auto simp: distinct_map inj_on_def)
  have "ig_privileged entry \<Longrightarrow> ig_privileged g"
    using nil \<open>?before \<noteq> []\<close> only by (fastforce simp: image_loosenings_def Let_def list_ex_iff split: if_splits)
  moreover have "set (ig_capabilities entry) \<subseteq> set (ig_capabilities g)"
    using nil \<open>?before \<noteq> []\<close> only
    by (fastforce simp: image_loosenings_def Let_def list_ex_iff filter_empty_conv split: if_splits)
  ultimately show ?thesis using g that by blast
qed

lemma grants_Nil:
  "privilege_grant_loosenings old new = [] \<longleftrightarrow>
     (\<forall>g \<in> set (pg_privileged_images new). image_loosenings (grant_images old) g = [])
     \<and> (pg_permit_k8s_overlay new \<longrightarrow> permits_k8s_overlay old)"
  by (auto simp: privilege_grant_loosenings_def)

lemma privileges_kept:
  assumes d: "distinct (map ig_image_digest (grant_images old))"
    and nil: "privilege_grant_loosenings old new = []"
    and ok: "admit_grants (Some new) req img locked_out = Inr a"
  shows "admit_grants old req img locked_out = Inr a"
proof (cases "gq_privileged req \<or> gq_add_capabilities req \<noteq> []")
  case True
  obtain dg entry where e: "image_digest img = Some dg"
      "List.find (\<lambda>g. ig_image_digest g = dg) (pg_privileged_images new) = Some entry"
      "gq_privileged req \<longrightarrow> ig_privileged entry"
      "set (gq_add_capabilities req) \<subseteq> set (ig_capabilities entry)"
    using ok by (auto simp: admit_grants_def grant_images_def admit_governed [OF True])
  then have m: "entry \<in> set (pg_privileged_images new)" "ig_image_digest entry = dg"
    by (auto dest!: find_Some_mem)
  obtain g where g: "g \<in> set (grant_images old)" "ig_image_digest g = dg"
      "ig_privileged entry \<Longrightarrow> ig_privileged g" "set (ig_capabilities entry) \<subseteq> set (ig_capabilities g)"
    using image_no_wider [OF d, of entry] nil m by (auto simp: grants_Nil)
  then have "List.find (\<lambda>h. ig_image_digest h = dg) (grant_images old) = Some g"
    using find_digest [OF d g(1)] by simp
  then show ?thesis
    using ok e g by (auto simp: admit_grants_def admit_governed [OF True])
next
  case False
  then show ?thesis using ok by (simp add: admit_grants_def admit_ungoverned)
qed

section \<open>Migration\<close>

lemma migrated_overlay:
  "er_approvers (ov_rules (fst (migrate_legacy_environment org project legacy))) = lr_approvers (le_protection legacy)"
  "er_allowed_refs (ov_rules (fst (migrate_legacy_environment org project legacy))) = lr_allowed_refs (le_protection legacy)"
  "er_require_reason (ov_rules (fst (migrate_legacy_environment org project legacy))) = lr_require_reason (le_protection legacy)"
  by (simp_all add: migrate_legacy_environment_def Let_def)

lemma migrated_images:
  "grant_images (snd (migrate_legacy_environment org project legacy)) = lr_privileged_images (le_protection legacy)"
  by (auto simp: migrate_legacy_environment_def grant_images_def Let_def)

lemma migrated_admits:
  "admits (effective_protection permissive (Some (fst (migrate_legacy_environment org project legacy)))) git_ref approvals = Inr ()
     \<longleftrightarrow> legacy_admits (le_protection legacy) git_ref approvals = Inr ()"
  by (auto simp: admits_iff ref_allowed_layers enough_effective overlay_approvers_def migrated_overlay
      legacy_admits_def legacy_ref_allowed_def permissive_def default_approval_gate_def layer_allows_def [of _ "[]"])

section \<open>Properties\<close>

definition demo_rules :: "string list \<Rightarrow> nat option \<Rightarrow> env_rules" where
  "demo_rules refs required = \<lparr>er_approvers = [''amy'', ''bo''], er_allowed_refs = refs, er_wait_timer_s = 6,
     er_require_reason = False,
     er_approval_gate = \<lparr>ag_missing_gate = MGAdd, ag_added_gate_expiry_s = None,
       ag_required_approvals = required, ag_max_approval_age_s = 9\<rparr>\<rparr>"

definition demo_old_rules :: env_rules where
  "demo_old_rules = demo_rules [''refs/heads/*''] None"

definition demo_new_rules :: env_rules where
  "demo_new_rules = demo_rules [''refs/heads/release-*'', ''refs/heads/main''] (Some 2)"



text \<open>A project's overlay only tightens the baseline, an edit of the overlay for which no loosening is
  reported admits no deploy that was refused before, and an edit of the eligibility for which none is
  reported admits no new project.\<close>

theorem overlay_and_eligibility_tighten:
  assumes "star \<notin> set name"
  shows "(admits (effective_protection b (Some new)) name approvals = Inr ()
           \<longrightarrow> admits (effective_protection b None) name approvals = Inr ())
    \<and> (overlay_loosenings ov new = [] \<longrightarrow> admits (effective_protection b (Some new)) name approvals = Inr ()
           \<longrightarrow> admits (effective_protection b ov) name approvals = Inr ())
    \<and> (eligibility_loosenings e e' = [] \<longrightarrow> eligibility_admits e' name \<longrightarrow> eligibility_admits e name)"
proof (intro conjI impI)
  show "admits (effective_protection b None) name approvals = Inr ()"
    if "admits (effective_protection b (Some new)) name approvals = Inr ()"
    using that by (simp add: admits_iff ref_allowed_effective enough_effective overlay_approvers_def)
qed (blast intro: overlay_no_wider [OF _ assms] eligibility_no_wider [OF _ assms])+

theorem overlay_and_eligibility_tighten_witness:
  "eligibility_loosenings (Projects [''pay-*'']) (Projects [''pay-api'', ''pay-web-*'']) = []
   \<and> eligibility_admits (Projects [''pay-api'', ''pay-web-*'']) ''pay-web-eu''
   \<and> eligibility_admits (Projects [''pay-*'']) ''pay-web-eu''"
proof -
  have "eligibility_loosenings (Projects [''pay-*'']) (Projects [''pay-api'', ''pay-web-*'']) = []"
    and "eligibility_admits (Projects [''pay-api'', ''pay-web-*'']) ''pay-web-eu''"
    and "star \<notin> set ''pay-web-eu''"
    by code_simp+
  then show ?thesis using overlay_and_eligibility_tighten by blast
qed

text \<open>Where every image digest is listed once, an edit of a project's privileges for which no
  loosening is reported grants no request that was refused before, and grants the same as before to the
  requests it still admits; a raw overlay is not newly permitted.\<close>

theorem unflagged_privileges_widen_nothing:
  assumes "privilege_grant_loosenings old new = []" and "distinct (map ig_image_digest (grant_images old))"
  shows "(admit_grants (Some new) req img locked_out = Inr a \<longrightarrow> admit_grants old req img locked_out = Inr a)
    \<and> (permits_k8s_overlay (Some new) \<longrightarrow> permits_k8s_overlay old)"
  using privileges_kept [OF assms(2,1)] assms(1) by (auto simp: grants_Nil permits_k8s_overlay_def)

definition demo_grant :: "image_grant list \<Rightarrow> privilege_grant" where
  "demo_grant images = \<lparr>pg_org = ''acme'', pg_environment = ''prod'', pg_project = ''api'',
     pg_privileged_images = images, pg_permit_k8s_overlay = False\<rparr>"

definition demo_request :: grant_request where
  "demo_request = \<lparr>gq_run_as_root = False, gq_add_capabilities = [], gq_privileged = True\<rparr>"

definition demo_image :: "bool \<Rightarrow> image_grant" where
  "demo_image priv = \<lparr>ig_image_digest = ''sha256:aa'', ig_privileged = priv, ig_capabilities = [''SYS_TIME'']\<rparr>"

lemma demo_digest: "image_digest ''repo@sha256:aa'' = Some ''sha256:aa''"
  by (simp add: image_digest_def after_last_char_def starts_with_def)

lemmas demo_grants = demo_digest demo_grant_def demo_image_def demo_request_def admit_grants_def
  admit_grants_against_whitelist_def capability_violations_def grant_images_def grants_Nil image_loosenings_def
  permits_k8s_overlay_def Let_def

theorem unflagged_privileges_widen_nothing_witness:
  "admit_grants (Some (demo_grant [demo_image True])) demo_request ''repo@sha256:aa'' False
     = Inr \<lparr>ad_run_as_root = False, ad_add_capabilities = [], ad_privileged = True\<rparr>"
proof -
  have "privilege_grant_loosenings (Some (demo_grant [demo_image True]))
      (demo_grant [(demo_image True)\<lparr>ig_capabilities := []\<rparr>]) = []"
    and "distinct (map ig_image_digest (grant_images (Some (demo_grant [demo_image True]))))"
    and "admit_grants (Some (demo_grant [(demo_image True)\<lparr>ig_capabilities := []\<rparr>])) demo_request ''repo@sha256:aa'' False
      = Inr \<lparr>ad_run_as_root = False, ad_add_capabilities = [], ad_privileged = True\<rparr>"
    by (simp_all add: demo_grants)
  then show ?thesis using unflagged_privileges_widen_nothing by blast
qed

text \<open>Where a digest is listed twice, an edit can widen a project's privileges and report nothing: the
  report reads the two entries as their union, admission reads the first. With the unprivileged entry
  first, removing it makes the image privileged.\<close>

theorem duplicate_digest_hides_loosening:
  "\<exists>old new req img. privilege_grant_loosenings (Some old) new = []
     \<and> \<not> isl (admit_grants (Some new) req img False) \<and> isl (admit_grants (Some old) req img False)"
proof (intro exI conjI)
  show "privilege_grant_loosenings (Some (demo_grant [demo_image False, demo_image True])) (demo_grant [demo_image True]) = []"
    by (simp add: demo_grants)
  show "\<not> isl (admit_grants (Some (demo_grant [demo_image True])) demo_request ''repo@sha256:aa'' False)"
    by (simp add: demo_grants)
  show "isl (admit_grants (Some (demo_grant [demo_image False, demo_image True])) demo_request ''repo@sha256:aa'' False)"
    by (simp add: demo_grants)
qed

text \<open>C25: migration preserves decisions: over the permissive baseline, a project's migrated overlay admits
  exactly the deploys its own environment admitted and asks for a reason exactly where it did, and its
  migrated grant answers every request for privileges as the old whitelist did, refusals included.\<close>

theorem migration_preserves_decisions:
  "case migrate_legacy_environment org project legacy of (ov, grant) \<Rightarrow>
     (admits (effective_protection permissive (Some ov)) git_ref approvals = Inr ()
        \<longleftrightarrow> legacy_admits (le_protection legacy) git_ref approvals = Inr ())
     \<and> admits_reason (effective_protection permissive (Some ov)) human has_reason
        = legacy_admits_reason (le_protection legacy) human has_reason
     \<and> admit_grants grant req img locked_out = legacy_admit_grants (le_protection legacy) req img locked_out
     \<and> permits_k8s_overlay grant = lr_permit_k8s_overlay (le_protection legacy)"
  using migrated_admits [of org project legacy] migrated_images [of org project legacy]
    migrated_overlay(3) [of org project legacy]
  by (auto simp: admit_grants_def legacy_admit_grants_def admits_reason_def legacy_admits_reason_def
      effective_protection_def permissive_def Let_def permits_k8s_overlay_def migrate_legacy_environment_def
      split: prod.splits)

end
