(* ===== verification/Approval_Gate.thy ===== *)
theory Approval_Gate
  imports Governance
begin

text \<open>
  The environment approval gate (\<^verbatim>\<open>scarab-policy/src/approval_gate.rs\<close>): which manual gates of a run
  guard a step that uses the environment's authority, which such steps have no manual gate upstream,
  and the one gate the environment adds in front of them; and the gate requirement at run creation
  (\<^verbatim>\<open>environment_rules.rs\<close>). The walks over \<^verbatim>\<open>needs\<close> are the code's: a stack, of which the head is the top
  (\<^verbatim>\<open>Vec::pop\<close> takes the last), and a set of ids seen.

  The records carry the fields of a compiled step that the policy crate reads or writes; every other
  field of \<^verbatim>\<open>StepSpec\<close> and \<^verbatim>\<open>PipelineIr\<close> is untouched by it.
\<close>

section \<open>Compiled pipelines\<close>

datatype origin_kind = OFile | OLibrary | OPlugin | OEnvironment

record origin_entry =
  oe_kind :: origin_kind
  oe_name :: string
  oe_source :: "string option"
  oe_content_hash :: string

datatype forge_token = FTRead | FTWrite

record step_security =
  ss_run_as_root :: bool
  ss_add_capabilities :: "string list"
  ss_privileged :: bool

record pipe_step =
  ps_id :: string
  ps_image :: string
  ps_gate :: "string option"
  ps_forge_token :: "forge_token option"
  ps_gate_expires_after :: "nat option"
  ps_deploy :: bool
  ps_secrets :: "string list"
  ps_security :: "step_security option"
  ps_needs :: "string list"
  ps_placement_profiles :: "string list"
  ps_k8s_overlay :: "string option"
  ps_origin :: "origin_entry list"
  ps_environment_approval_gate :: "bool option"

record pipeline_ir =
  ir_name :: "string option"
  ir_deploy :: bool
  ir_steps :: "pipe_step list"

definition is_gate :: "pipe_step \<Rightarrow> bool" where
  "is_gate s = (ps_gate s \<noteq> None)"

definition is_manual_gate :: "pipe_step \<Rightarrow> bool" where
  "is_manual_gate s = (ps_gate s = Some ''manual'')"

definition counts_as_environment_approval_gate :: "pipe_step \<Rightarrow> bool" where
  "counts_as_environment_approval_gate s =
     (ps_gate s = Some ''manual'' \<and> ps_environment_approval_gate s \<noteq> Some False)"

definition uses_environment_authority :: "pipeline_ir \<Rightarrow> pipe_step \<Rightarrow> bool" where
  "uses_environment_authority ir s =
     (if is_gate s then False
      else ps_secrets s \<noteq> []
        \<or> (case ps_security s of None \<Rightarrow> False | Some sec \<Rightarrow> ss_privileged sec \<or> ss_add_capabilities sec \<noteq> [])
        \<or> ps_k8s_overlay s \<noteq> None \<or> ps_deploy s \<or> ir_deploy ir \<or> ps_forge_token s = Some FTWrite)"

section \<open>Walks over the graph\<close>

text \<open>A graph as the code's hash maps have it; a later entry for an id replaces an earlier one.\<close>

type_synonym graph = "(string \<times> string list) list"

definition succs :: "graph \<Rightarrow> string \<Rightarrow> string list" where
  "succs g x = (case map_of g x of None \<Rightarrow> [] | Some ys \<Rightarrow> ys)"

function explore :: "graph \<Rightarrow> string list \<Rightarrow> string list \<Rightarrow> string list" where
  "explore g seen [] = seen"
| "explore g seen (x # rest) =
     (if x \<in> set seen then explore g seen rest else explore g (x # seen) (rev (succs g x) @ rest))"
  by pat_completeness auto

text \<open>Every visit marks an id of the graph, or puts nothing on the stack.\<close>

lemma unseen_less:
  "x \<in> dom (map_of g) \<Longrightarrow> x \<notin> set seen \<Longrightarrow>
     card (dom (map_of g) - insert x (set seen)) < card (dom (map_of g) - set seen)"
  by (intro psubset_card_mono) (auto simp: finite_dom_map_of)

lemma unseen_same: "x \<notin> dom (map_of g) \<Longrightarrow> dom (map_of g) - insert x (set seen) = dom (map_of g) - set seen"
  by auto

termination explore
proof (relation "measures [\<lambda>(g, seen, stack). card (dom (map_of g) - set seen), \<lambda>(g, seen, stack). length stack]",
    goal_cases)
  case (3 g seen x rest)
  then show ?case using unseen_less [of x g seen]
    by (cases "x \<in> dom (map_of g)") (auto simp: unseen_same succs_def domIff)
qed auto

definition upgraph :: "pipeline_ir \<Rightarrow> graph" where
  "upgraph ir = map (\<lambda>s. (ps_id s, ps_needs s)) (rev (ir_steps ir))"

definition by_id :: "pipeline_ir \<Rightarrow> string \<Rightarrow> pipe_step option" where
  "by_id ir x = List.find (\<lambda>s. ps_id s = x) (rev (ir_steps ir))"

definition needs_of :: "pipeline_ir \<Rightarrow> string \<Rightarrow> string list" where
  "needs_of ir x = (case by_id ir x of None \<Rightarrow> [] | Some s \<Rightarrow> ps_needs s)"

function find_manual :: "pipeline_ir \<Rightarrow> string list \<Rightarrow> string list \<Rightarrow> bool" where
  "find_manual ir seen [] = False"
| "find_manual ir seen (x # rest) =
     (if x \<in> set seen then find_manual ir seen rest
      else case by_id ir x of
          None \<Rightarrow> find_manual ir (x # seen) rest
        | Some s \<Rightarrow> if is_manual_gate s then True else find_manual ir (x # seen) (rev (ps_needs s) @ rest))"
  by pat_completeness auto

lemma by_id_map: "map_of (upgraph ir) x = map_option ps_needs (by_id ir x)"
proof -
  have "map_of (map (\<lambda>s. (ps_id s, ps_needs s)) xs) x = map_option ps_needs (List.find (\<lambda>s. ps_id s = x) xs)" for xs
    by (induction xs) auto
  then show ?thesis by (simp only: upgraph_def by_id_def)
qed

lemma dom_upgraph: "by_id ir x = Some s \<Longrightarrow> x \<in> dom (map_of (upgraph ir))"
  by (simp add: by_id_map domIff)

termination find_manual
proof (relation "measures [\<lambda>(ir, seen, stack). card (dom (map_of (upgraph ir)) - set seen),
      \<lambda>(ir, seen, stack). length stack]", goal_cases)
  case (3 ir seen x rest)
  then show ?case by (simp add: unseen_same by_id_map domIff)
next
  case (4 ir seen x rest s)
  then show ?case using unseen_less [OF dom_upgraph [of ir x s], of seen] by auto
qed auto

definition manual_gate_upstream :: "pipeline_ir \<Rightarrow> string \<Rightarrow> bool" where
  "manual_gate_upstream ir step = find_manual ir [] (rev (needs_of ir step))"

definition upstream_approval_gates :: "pipeline_ir \<Rightarrow> string \<Rightarrow> pipe_step list" where
  "upstream_approval_gates ir step =
     (let seen = explore (upgraph ir) [] (rev (needs_of ir step))
      in filter counts_as_environment_approval_gate (filter (\<lambda>s. ps_id s \<in> set seen) (ir_steps ir)))"

text \<open>\<^verbatim>\<open>needed_by\<close>: one entry per need, the steps that name it in pipeline order.\<close>

definition needed_by :: "pipeline_ir \<Rightarrow> graph" where
  "needed_by ir =
     map (\<lambda>n. (n, concat (map (\<lambda>s. map (\<lambda>_. ps_id s) (filter (\<lambda>m. m = n) (ps_needs s))) (ir_steps ir))))
       (remdups (concat (map ps_needs (ir_steps ir))))"

definition downstream :: "pipeline_ir \<Rightarrow> string \<Rightarrow> string list" where
  "downstream ir step = explore (needed_by ir) [] (rev (succs (needed_by ir) step))"

definition environment_approval_gates :: "pipeline_ir \<Rightarrow> string list" where
  "environment_approval_gates ir =
     map ps_id
       (filter (\<lambda>g. list_ex (\<lambda>d. case by_id ir d of None \<Rightarrow> False | Some s \<Rightarrow> uses_environment_authority ir s)
                      (downstream ir (ps_id g)))
         (filter is_manual_gate (ir_steps ir)))"

definition mark_environment_approval_gates :: "pipeline_ir \<Rightarrow> pipeline_ir" where
  "mark_environment_approval_gates ir =
     (let approval = environment_approval_gates ir in
      ir\<lparr>ir_steps := map (\<lambda>s. if is_manual_gate s
           then s\<lparr>ps_environment_approval_gate := Some (ps_id s \<in> set approval)\<rparr> else s) (ir_steps ir)\<rparr>)"

definition dead_steps :: "pipeline_ir \<Rightarrow> string list \<Rightarrow> string list" where
  "dead_steps ir excluded =
     concat (map (\<lambda>s. ps_id s # downstream ir (ps_id s))
       (filter (\<lambda>s. ps_id s \<in> set excluded) (ir_steps ir)))"

definition steps_missing_approval_gate :: "pipeline_ir \<Rightarrow> string list \<Rightarrow> string list" where
  "steps_missing_approval_gate ir excluded =
     (let dead = dead_steps ir excluded in
      map ps_id
        (filter (\<lambda>s. \<not> manual_gate_upstream ir (ps_id s))
          (filter (\<lambda>s. ps_id s \<notin> set dead) (filter (uses_environment_authority ir) (ir_steps ir)))))"

section \<open>The added gate\<close>

definition ADDED_GATE_ID :: string where
  "ADDED_GATE_ID = ''environment-approval''"

definition taken :: "pipeline_ir \<Rightarrow> string \<Rightarrow> bool" where
  "taken ir x = list_ex (\<lambda>s. ps_id s = x) (ir_steps ir)"

definition suffixed :: "nat \<Rightarrow> string" where
  "suffixed n = ADDED_GATE_ID @ ''-'' @ nat_str n"

lemma suffixed_inject [simp]: "suffixed m = suffixed n \<longleftrightarrow> m = n"
  by (simp add: suffixed_def)

lemma finite_taken: "finite {n. taken ir (suffixed n)}"
proof -
  have "suffixed ` {n. taken ir (suffixed n)} \<subseteq> ps_id ` set (ir_steps ir)"
    by (auto simp: taken_def list_ex_iff) (metis imageI)
  then have "finite (suffixed ` {n. taken ir (suffixed n)})" by (rule finite_subset) simp
  then show ?thesis by (rule finite_imageD) (simp add: inj_on_def)
qed

function first_free :: "pipeline_ir \<Rightarrow> nat \<Rightarrow> string" where
  "first_free ir n = (if taken ir (suffixed n) then first_free ir (n + 1) else suffixed n)"
  by pat_completeness auto

termination first_free
proof (relation "measure (\<lambda>(ir, n). card {m. n \<le> m \<and> taken ir (suffixed m)})", goal_cases)
  case (2 ir n)
  have "{m. n \<le> m \<and> taken ir (suffixed m)} = insert n {m. n + 1 \<le> m \<and> taken ir (suffixed m)}"
    using 2 by (auto simp: Suc_le_eq dest: le_neq_implies_less)
  moreover have "finite {m. n + 1 \<le> m \<and> taken ir (suffixed m)}"
    by (rule finite_subset [OF _ finite_taken [of ir]]) auto
  ultimately show ?case by simp
qed simp

declare first_free.simps [simp del]

definition added_gate_id :: "pipeline_ir \<Rightarrow> string" where
  "added_gate_id ir = (if \<not> taken ir ADDED_GATE_ID then ADDED_GATE_ID else first_free ir 2)"

record added_gate =
  ga_id :: string
  ga_fronts :: "string list"

definition bare_manual_gate :: "string \<Rightarrow> pipe_step" where
  "bare_manual_gate x = \<lparr>ps_id = x, ps_image = [], ps_gate = Some ''manual'', ps_forge_token = None,
     ps_gate_expires_after = None, ps_deploy = False, ps_secrets = [], ps_security = None, ps_needs = [],
     ps_placement_profiles = [], ps_k8s_overlay = None, ps_origin = [], ps_environment_approval_gate = None\<rparr>"

text \<open>The fronts: the steps without a gate that are behind no other such step.\<close>

definition gate_fronts :: "pipeline_ir \<Rightarrow> string list \<Rightarrow> string list" where
  "gate_fronts ir missing =
     (let behind_another = filter (\<lambda>d. d \<in> set missing) (concat (map (downstream ir) missing))
      in filter (\<lambda>m. m \<notin> set behind_another) missing)"

text \<open>The fronts' needs combined, and the gate put in the needs of each.\<close>

definition combined_needs :: "pipeline_ir \<Rightarrow> string list \<Rightarrow> string list" where
  "combined_needs ir fronts =
     add_new [] (concat (map ps_needs (filter (\<lambda>s. ps_id s \<in> set fronts) (ir_steps ir))))"

definition need_gate :: "string list \<Rightarrow> string \<Rightarrow> pipe_step \<Rightarrow> pipe_step" where
  "need_gate fronts gid s = (if ps_id s \<in> set fronts then s\<lparr>ps_needs := ps_needs s @ [gid]\<rparr> else s)"

definition environment_gate :: "string \<Rightarrow> string \<Rightarrow> nat option \<Rightarrow> string list \<Rightarrow> pipe_step" where
  "environment_gate gid environment expires_after needs =
     (bare_manual_gate gid)\<lparr>ps_gate_expires_after := expires_after, ps_needs := needs,
        ps_origin := [\<lparr>oe_kind = OEnvironment, oe_name = environment, oe_source = None, oe_content_hash = []\<rparr>],
        ps_environment_approval_gate := Some True\<rparr>"

definition add_environment_approval_gate ::
  "pipeline_ir \<Rightarrow> string \<Rightarrow> nat option \<Rightarrow> string list \<Rightarrow> (added_gate \<times> pipeline_ir) option" where
  "add_environment_approval_gate ir environment expires_after excluded =
     (let missing = steps_missing_approval_gate ir excluded in
      if missing = [] then None
      else
        (let fronts = gate_fronts ir missing;
             needs = combined_needs ir fronts;
             gid = added_gate_id ir;
             at_pos = length (takeWhile (\<lambda>s. ps_id s \<notin> set fronts) (ir_steps ir));
             steps = map (need_gate fronts gid) (ir_steps ir);
             gate = environment_gate gid environment expires_after needs
         in Some (\<lparr>ga_id = gid, ga_fronts = fronts\<rparr>,
                  ir\<lparr>ir_steps := take at_pos steps @ gate # drop at_pos steps\<rparr>)))"

end
