(* ===== verification/Policy.thy ===== *)
theory Policy
  imports Approval_Gate
begin

text \<open>
  Authored policies (\<^verbatim>\<open>scarab-policy/src/policy.rs\<close>), the checkpoints they attach to and their wire
  shape, and stored policies (\<^verbatim>\<open>store.rs\<close>). SHA-256 and the JSON rendering of a policy are parameters.
\<close>

section \<open>Policies\<close>

datatype checkpoint = RunCreate | StepAdmit | GateResolve

definition checkpoint_all :: "checkpoint list" where
  "checkpoint_all = [RunCreate, StepAdmit, GateResolve]"

definition checkpoint_str :: "checkpoint \<Rightarrow> string" where
  "checkpoint_str c = (case c of RunCreate \<Rightarrow> ''run.create'' | StepAdmit \<Rightarrow> ''step.admit'' | GateResolve \<Rightarrow> ''gate.resolve'')"

definition checkpoint_parse :: "string \<Rightarrow> checkpoint option" where
  "checkpoint_parse s = List.find (\<lambda>c. checkpoint_str c = s) checkpoint_all"

definition is_consulted :: "checkpoint \<Rightarrow> bool" where
  "is_consulted c = (c \<in> {RunCreate, GateResolve, StepAdmit})"

datatype effect = Deny | RequireApproval "string list" nat | RequireStepUp

definition effect_name :: "effect \<Rightarrow> string" where
  "effect_name e = (case e of Deny \<Rightarrow> ''deny'' | RequireApproval _ _ \<Rightarrow> ''require_approval''
     | RequireStepUp \<Rightarrow> ''require_step_up'')"

definition checkpoint_allows :: "checkpoint \<Rightarrow> effect \<Rightarrow> bool" where
  "checkpoint_allows c e = (e = Deny \<or> c = GateResolve)"

datatype policy_mode = Enforce | Audit

datatype policy_level = LOrg | LProject

datatype trigger_kind = TKPush | TKPullRequest | TKTag | TKRelease | TKComment | TKCron | TKManual | TKApi | TKUpstream

record match_sel =
  ma_projects :: "string list"
  ma_except_projects :: "string list"
  ma_environments :: "string list"
  ma_trigger_kinds :: "trigger_kind list"

record rule =
  ru_when :: string
  ru_effect :: effect
  ru_message :: string

datatype typed_setting =
    LibrariesAllowed "string list"
  | LibrariesBlocked "string list"
  | PluginsAllowed "string list"

definition setting_name :: "typed_setting \<Rightarrow> string" where
  "setting_name s = (case s of LibrariesAllowed _ \<Rightarrow> ''libraries_allowed''
     | LibrariesBlocked _ \<Rightarrow> ''libraries_blocked'' | PluginsAllowed _ \<Rightarrow> ''plugins_allowed'')"

datatype body = Rules "rule list" | Setting typed_setting

record policy =
  po_name :: string
  po_checkpoint :: checkpoint
  po_match :: match_sel
  po_mode :: policy_mode
  po_body :: body

definition is_typed_setting :: "policy \<Rightarrow> bool" where
  "is_typed_setting p = (case po_body p of Setting _ \<Rightarrow> True | Rules _ \<Rightarrow> False)"

section \<open>The wire shape\<close>

record policy_wire =
  pw_kind :: "string option"
  pw_name :: string
  pw_checkpoint :: checkpoint
  pw_match :: match_sel
  pw_mode :: policy_mode
  pw_rules :: "rule list option"
  pw_setting :: "typed_setting option"

definition policy_try_from :: "policy_wire \<Rightarrow> string + policy" where
  "policy_try_from w =
     (if pw_kind w \<noteq> None \<and> pw_kind w \<noteq> Some ''policy''
      then Inl (quoted ''kind'' @ '' is '' @ quoted (the (pw_kind w)) @ ''; a Policy's kind is '' @ quoted ''policy'')
      else
        (case (pw_rules w, pw_setting w) of
           (Some rules, None) \<Rightarrow> Inr \<lparr>po_name = pw_name w, po_checkpoint = pw_checkpoint w, po_match = pw_match w,
              po_mode = pw_mode w, po_body = Rules rules\<rparr>
         | (None, Some setting) \<Rightarrow> Inr \<lparr>po_name = pw_name w, po_checkpoint = pw_checkpoint w,
              po_match = pw_match w, po_mode = pw_mode w, po_body = Setting setting\<rparr>
         | (Some _, Some _) \<Rightarrow> Inl (''a Policy has '' @ quoted ''rules'' @ '' or a '' @ quoted ''setting'' @ '', not both'')
         | (None, None) \<Rightarrow> Inl (''a Policy needs '' @ quoted ''rules'' @ '' or a '' @ quoted ''setting'')))"

definition policy_to_wire :: "policy \<Rightarrow> policy_wire" where
  "policy_to_wire p =
     \<lparr>pw_kind = None, pw_name = po_name p, pw_checkpoint = po_checkpoint p, pw_match = po_match p, pw_mode = po_mode p,
      pw_rules = (case po_body p of Rules rules \<Rightarrow> Some rules | Setting _ \<Rightarrow> None),
      pw_setting = (case po_body p of Rules _ \<Rightarrow> None | Setting s \<Rightarrow> Some s)\<rparr>"

section \<open>Stored policies\<close>

datatype policy_scope = ScopeOrg string | ScopeProject string string

definition scope_org :: "policy_scope \<Rightarrow> string" where
  "scope_org s = (case s of ScopeOrg org \<Rightarrow> org | ScopeProject org _ \<Rightarrow> org)"

definition scope_project :: "policy_scope \<Rightarrow> string option" where
  "scope_project s = (case s of ScopeOrg _ \<Rightarrow> None | ScopeProject _ project \<Rightarrow> Some project)"

definition scope_level :: "policy_scope \<Rightarrow> policy_level" where
  "scope_level s = (case s of ScopeOrg _ \<Rightarrow> LOrg | ScopeProject _ _ \<Rightarrow> LProject)"

record stored_policy =
  sp_id :: string
  sp_scope :: policy_scope
  sp_name :: string
  sp_version :: nat
  sp_body :: policy
  sp_content_hash :: string
  sp_created_at :: int
  sp_updated_at :: int
  sp_deleted :: bool

section \<open>Matching\<close>

record match_context =
  mc_project :: string
  mc_environment :: "string option"
  mc_trigger_kind :: trigger_kind

definition any_glob :: "string list \<Rightarrow> string \<Rightarrow> bool" where
  "any_glob globs v = list_ex (\<lambda>g. glob_matches g v) globs"

definition policy_matches :: "match_sel \<Rightarrow> match_context \<Rightarrow> bool" where
  "policy_matches m ctx =
     ((ma_projects m = [] \<or> any_glob (ma_projects m) (mc_project ctx))
      \<and> \<not> any_glob (ma_except_projects m) (mc_project ctx)
      \<and> (ma_environments m = []
         \<or> (case mc_environment ctx of None \<Rightarrow> False | Some e \<Rightarrow> any_glob (ma_environments m) e))
      \<and> (ma_trigger_kinds m = [] \<or> mc_trigger_kind ctx \<in> set (ma_trigger_kinds m)))"

section \<open>Decisions\<close>

datatype policy_outcome =
    NotMatched
  | Passed
  | Denied "string list"
  | WouldDeny "string list"
  | OutcomeError string
  | GateAdded string "string list"
  | Requires "string list"

record policy_result =
  pr_policy_id :: string
  pr_version :: nat
  pr_name :: string
  pr_level :: policy_level
  pr_mode :: policy_mode
  pr_outcome :: policy_outcome

datatype decision_outcome = Allow | DenyDecision "string list"

section \<open>Properties\<close>

lemma checkpoint_parse_str: "checkpoint_parse (checkpoint_str c) = Some c"
  by (cases c) (simp_all add: checkpoint_parse_def checkpoint_all_def checkpoint_str_def)

text \<open>C39: the wire shape of a policy loses nothing: writing a policy and reading it back gives the policy,
  and whatever is read, written again, is what was read, less the optional kind. A wire value with both
  bodies, with none, or of another kind is refused. A checkpoint's name parses to it.\<close>

theorem policy_wire_roundtrip:
  "policy_try_from (policy_to_wire p) = Inr p
   \<and> (policy_try_from w = Inr q \<longrightarrow> policy_to_wire q = w\<lparr>pw_kind := None\<rparr>)
   \<and> (\<not> isl (policy_try_from w) \<longleftrightarrow>
        (pw_kind w = None \<or> pw_kind w = Some ''policy'') \<and> (pw_rules w = None) \<noteq> (pw_setting w = None))
   \<and> checkpoint_parse (checkpoint_str c) = Some c"
proof (intro conjI impI)
  show "policy_try_from (policy_to_wire p) = Inr p"
    by (cases "po_body p") (simp_all add: policy_try_from_def policy_to_wire_def)
  show "policy_to_wire q = w\<lparr>pw_kind := None\<rparr>" if "policy_try_from w = Inr q"
    using that by (cases w) (auto simp: policy_try_from_def policy_to_wire_def split: option.splits if_splits)
  show "\<not> isl (policy_try_from w) \<longleftrightarrow>
        (pw_kind w = None \<or> pw_kind w = Some ''policy'') \<and> (pw_rules w = None) \<noteq> (pw_setting w = None)"
    by (auto simp: policy_try_from_def split: option.splits)
qed (rule checkpoint_parse_str)

definition demo_policy :: policy where
  "demo_policy = \<lparr>po_name = ''libs'', po_checkpoint = RunCreate,
     po_match = \<lparr>ma_projects = [''pay-*''], ma_except_projects = [], ma_environments = [], ma_trigger_kinds = []\<rparr>,
     po_mode = Enforce, po_body = Setting (LibrariesAllowed [''github.com/acme/*''])\<rparr>"

theorem policy_wire_roundtrip_witness:
  "policy_to_wire demo_policy = (policy_to_wire demo_policy)\<lparr>pw_kind := None\<rparr>"
  using policy_wire_roundtrip [of demo_policy "policy_to_wire demo_policy" demo_policy RunCreate] by simp

end
