(* ===== verification/Approval_Gate_Laws.thy ===== *)
theory Approval_Gate_Laws
  imports Approval_Gate
begin

text \<open>
  The walks decide reachability over \<^verbatim>\<open>needs\<close>; the gate an environment adds keeps the pipeline a graph
  without cycles, guards every live step that uses the environment's authority, and is itself never
  skipped. Pipelines are as \<^verbatim>\<open>validate\<close> leaves them: unique ids, no need that names no step, no cycle.
\<close>

section \<open>Walks decide reachability\<close>

definition edges :: "graph \<Rightarrow> (string \<times> string) set" where
  "edges g = {(x, y). y \<in> set (succs g x)}"

lemma explore_reaches:
  "(\<And>x. x \<in> set seen \<Longrightarrow> set (succs g x) \<subseteq> set seen \<union> set stack) \<Longrightarrow>
     set (explore g seen stack) = set seen \<union> (edges g)\<^sup>* `` set stack"
proof (induction g seen stack rule: explore.induct)
  case (2 g seen x rest)
  show ?case
  proof (cases "x \<in> set seen")
    case True
    let ?R = "set seen \<union> (edges g)\<^sup>* `` set rest"
    have "y \<in> ?R" if "y \<in> set (succs g z)" "z \<in> set seen" for y z
      using "2.prems" [OF that(2)] that(1) True by auto
    then have closed: "edges g `` ?R \<subseteq> ?R"
      by (auto simp: edges_def intro: rtrancl.rtrancl_into_rtrancl)
    then have "(edges g)\<^sup>* `` ?R = ?R" by (rule Image_closed_trancl)
    then have "(edges g)\<^sup>* `` {x} \<subseteq> ?R" using True by blast
    moreover have "set (explore g seen rest) = ?R"
      using "2.IH"(1) [OF True] "2.prems" True by auto
    ultimately show ?thesis using True by auto
  next
    case False
    have "set (explore g (x # seen) (rev (succs g x) @ rest))
        = set (x # seen) \<union> (edges g)\<^sup>* `` set (rev (succs g x) @ rest)"
      using "2.IH"(2) [OF False] "2.prems" by fastforce
    moreover have "(edges g)\<^sup>* `` {x} = insert x ((edges g)\<^sup>* `` set (succs g x))"
      by (auto simp: edges_def elim: converse_rtranclE intro: converse_rtrancl_into_rtrancl)
    ultimately show ?thesis using False by auto
  qed
qed simp

lemma explore_from: "set (explore g [] (rev (succs g x))) = (edges g)\<^sup>+ `` {x}"
proof -
  have "(edges g)\<^sup>* `` set (succs g x) = (edges g)\<^sup>+ `` {x}"
    by (auto simp: edges_def trancl_unfold_left)
  then show ?thesis using explore_reaches [of "[]" g "rev (succs g x)"] by simp
qed

definition needs_rel :: "pipeline_ir \<Rightarrow> (string \<times> string) set" where
  "needs_rel ir = {(x, y). \<exists>s \<in> set (ir_steps ir). ps_id s = x \<and> y \<in> set (ps_needs s)}"

definition step_ids :: "pipeline_ir \<Rightarrow> string set" where
  "step_ids ir = ps_id ` set (ir_steps ir)"

definition valid_ir :: "pipeline_ir \<Rightarrow> bool" where
  "valid_ir ir = (distinct (map ps_id (ir_steps ir)) \<and> snd ` needs_rel ir \<subseteq> step_ids ir \<and> acyclic (needs_rel ir))"

lemma by_id_iff:
  assumes "distinct (map ps_id (ir_steps ir))"
  shows "by_id ir x = Some s \<longleftrightarrow> s \<in> set (ir_steps ir) \<and> ps_id s = x"
proof -
  have "distinct (map ps_id xs) \<Longrightarrow> List.find (\<lambda>s. ps_id s = x) xs = Some s \<longleftrightarrow> s \<in> set xs \<and> ps_id s = x" for xs
    by (induction xs) (auto simp: image_iff)
  then show ?thesis using assms by (simp add: by_id_def rev_map [symmetric])
qed

lemma by_id_self [simp]: "distinct (map ps_id (ir_steps ir)) \<Longrightarrow> s \<in> set (ir_steps ir) \<Longrightarrow> by_id ir (ps_id s) = Some s"
  by (simp add: by_id_iff)

lemma same_id:
  "distinct (map ps_id (ir_steps ir)) \<Longrightarrow> a \<in> set (ir_steps ir) \<Longrightarrow> s \<in> set (ir_steps ir) \<Longrightarrow> ps_id s = ps_id a \<Longrightarrow> s = a"
  by (auto simp: distinct_map dest: inj_onD)

lemma edges_upgraph:
  assumes "distinct (map ps_id (ir_steps ir))"
  shows "edges (upgraph ir) = needs_rel ir"
proof -
  have "y \<in> set (succs (upgraph ir) x) \<longleftrightarrow> (x, y) \<in> needs_rel ir" for x y
    using assms by (cases "by_id ir x") (auto simp: succs_def by_id_map needs_rel_def by_id_iff dest: same_id)
  then show ?thesis by (auto simp: edges_def)
qed

lemma map_of_graph: "map_of (map (\<lambda>n. (n, f n)) xs) x = (if x \<in> set xs then Some (f x) else None)"
  by (induction xs) auto

lemma edges_needed_by: "edges (needed_by ir) = (needs_rel ir)\<inverse>"
proof -
  have "y \<in> set (succs (needed_by ir) x) \<longleftrightarrow> (y, x) \<in> needs_rel ir" for x y
  proof (cases "\<exists>s \<in> set (ir_steps ir). x \<in> set (ps_needs s)")
    case True
    have "set (map (\<lambda>_. ps_id s) (filter (\<lambda>m. m = x) ns)) = (if x \<in> set ns then {ps_id s} else {})" for s ns
      by auto
    then show ?thesis using True by (auto simp: succs_def needed_by_def map_of_graph needs_rel_def split: if_splits)
  next
    case False
    then show ?thesis by (auto simp: succs_def needed_by_def map_of_graph needs_rel_def)
  qed
  then show ?thesis by (auto simp: edges_def)
qed

lemma downstream_iff: "y \<in> set (downstream ir x) \<longleftrightarrow> (y, x) \<in> (needs_rel ir)\<^sup>+"
  by (simp add: downstream_def explore_from edges_needed_by trancl_converse)

lemma needs_of_succs: "needs_of ir x = succs (upgraph ir) x"
  by (simp add: needs_of_def succs_def by_id_map split: option.splits)

lemma upstream_iff:
  "distinct (map ps_id (ir_steps ir)) \<Longrightarrow>
     s \<in> set (upstream_approval_gates ir x) \<longleftrightarrow>
       s \<in> set (ir_steps ir) \<and> (x, ps_id s) \<in> (needs_rel ir)\<^sup>+ \<and> counts_as_environment_approval_gate s"
  by (auto simp: upstream_approval_gates_def needs_of_succs explore_from edges_upgraph)

text \<open>The search for a manual gate stops early, and otherwise makes the moves of \<open>explore\<close>.\<close>

lemma explore_keeps: "set seen \<subseteq> set (explore g seen stack)"
  by (induction g seen stack rule: explore.induct) auto

definition manual_id :: "pipeline_ir \<Rightarrow> string \<Rightarrow> bool" where
  "manual_id ir x = (case by_id ir x of None \<Rightarrow> False | Some s \<Rightarrow> is_manual_gate s)"

lemma find_manual_explores:
  "find_manual ir seen stack \<longleftrightarrow> (\<exists>x \<in> set (explore (upgraph ir) seen stack) - set seen. manual_id ir x)"
proof (induction ir seen stack rule: find_manual.induct)
  case (2 ir seen x rest)
  show ?case
  proof (cases "x \<in> set seen")
    case False
    have kept: "x \<in> set (explore (upgraph ir) (x # seen) stack')" for stack'
      using explore_keeps [of "x # seen"] by auto
    show ?thesis
    proof (cases "by_id ir x")
      case None
      then have "succs (upgraph ir) x = []" "\<not> manual_id ir x"
        by (simp_all add: succs_def by_id_map manual_id_def)
      then show ?thesis using "2.IH"(2) [OF False None] None False by auto
    next
      case (Some s)
      then have su: "succs (upgraph ir) x = ps_needs s" and m: "manual_id ir x = is_manual_gate s"
        by (simp_all add: succs_def by_id_map manual_id_def)
      show ?thesis
      proof (cases "is_manual_gate s")
        case True
        then show ?thesis using Some False m kept by auto
      next
        case not: False
        then show ?thesis using "2.IH"(3) [OF False Some not] Some False m su by auto
      qed
    qed
  qed (use 2 in simp)
qed simp

lemma by_id_case:
  assumes d: "distinct (map ps_id (ir_steps ir))"
  shows "(case by_id ir x of None \<Rightarrow> False | Some s \<Rightarrow> P s) \<longleftrightarrow> (\<exists>s \<in> set (ir_steps ir). ps_id s = x \<and> P s)"
proof
  assume "case by_id ir x of None \<Rightarrow> False | Some s \<Rightarrow> P s"
  then obtain s where "by_id ir x = Some s" "P s" by (auto split: option.splits)
  then show "\<exists>s \<in> set (ir_steps ir). ps_id s = x \<and> P s" using by_id_iff [OF d] by blast
next
  assume "\<exists>s \<in> set (ir_steps ir). ps_id s = x \<and> P s"
  then show "case by_id ir x of None \<Rightarrow> False | Some s \<Rightarrow> P s" using by_id_self [OF d] by auto
qed

lemma manual_upstream_iff:
  "distinct (map ps_id (ir_steps ir)) \<Longrightarrow>
     manual_gate_upstream ir x \<longleftrightarrow>
       (\<exists>s \<in> set (ir_steps ir). (x, ps_id s) \<in> (needs_rel ir)\<^sup>+ \<and> is_manual_gate s)"
  by (auto simp: manual_gate_upstream_def find_manual_explores needs_of_succs explore_from edges_upgraph
      manual_id_def by_id_case)

lemma dead_iff:
  "x \<in> set (dead_steps ir excluded) \<longleftrightarrow> (\<exists>e \<in> set excluded \<inter> step_ids ir. (x, e) \<in> (needs_rel ir)\<^sup>*)"
  by (auto simp: dead_steps_def downstream_iff step_ids_def rtrancl_eq_or_trancl)

lemma missing_iff:
  "x \<in> set (steps_missing_approval_gate ir excluded) \<longleftrightarrow>
     (\<exists>s \<in> set (ir_steps ir). ps_id s = x \<and> uses_environment_authority ir s)
     \<and> x \<notin> set (dead_steps ir excluded) \<and> \<not> manual_gate_upstream ir x"
  by (auto simp: steps_missing_approval_gate_def Let_def)

section \<open>The added gate\<close>

lemma first_free_fresh: "\<not> taken ir (first_free ir n)"
  by (induction ir n rule: first_free.induct) (simp add: first_free.simps)

lemma taken_iff: "taken ir x \<longleftrightarrow> x \<in> step_ids ir"
  by (auto simp: taken_def step_ids_def list_ex_iff)

lemma added_gate_id_fresh: "added_gate_id ir \<notin> step_ids ir"
  using first_free_fresh [of ir 2] by (simp add: added_gate_id_def taken_iff)

lemma fronts_iff:
  "f \<in> set (gate_fronts ir missing) \<longleftrightarrow> f \<in> set missing \<and> (\<forall>m \<in> set missing. (f, m) \<notin> (needs_rel ir)\<^sup>+)"
  by (auto simp: gate_fronts_def downstream_iff)

lemma fronts_unrelated:
  "f \<in> set (gate_fronts ir missing) \<Longrightarrow> f' \<in> set (gate_fronts ir missing) \<Longrightarrow> (f', f) \<notin> (needs_rel ir)\<^sup>+"
  by (auto simp: fronts_iff)

text \<open>Every step without a gate is a front or behind one: follow the chain of such steps upstream,
  which ends because the graph has no cycle.\<close>

lemma finite_needs_rel: "finite (needs_rel ir)"
proof -
  have "needs_rel ir \<subseteq> (\<Union>s \<in> set (ir_steps ir). {ps_id s} \<times> set (ps_needs s))" by (auto simp: needs_rel_def)
  then show ?thesis by (rule finite_subset) auto
qed

lemma missing_behind_front:
  assumes acy: "acyclic (needs_rel ir)" and m: "m \<in> set missing"
  shows "\<exists>f \<in> set (gate_fronts ir missing). (m, f) \<in> (needs_rel ir)\<^sup>*"
proof -
  have "wf (((needs_rel ir)\<inverse>)\<^sup>+)"
    using finite_acyclic_wf_converse [OF finite_needs_rel acy] by (rule wf_trancl)
  then show ?thesis using m
  proof (induction m rule: wf_induct_rule)
    case (less m)
    show ?case
    proof (cases "m \<in> set (gate_fronts ir missing)")
      case False
      then obtain m' where m': "m' \<in> set missing" "(m, m') \<in> (needs_rel ir)\<^sup>+"
        using less.prems by (auto simp: fronts_iff)
      then have "\<exists>f \<in> set (gate_fronts ir missing). (m', f) \<in> (needs_rel ir)\<^sup>*"
        using less.IH by (simp add: trancl_converse)
      then show ?thesis using m'(2) by (meson rtrancl_trans trancl_into_rtrancl)
    qed blast
  qed
qed

text \<open>A graph with one node more, between some sources and everything the sources need.\<close>

definition fronted :: "('a \<times> 'a) set \<Rightarrow> 'a set \<Rightarrow> 'a \<Rightarrow> bool" where
  "fronted N F g = (g \<notin> Field N \<and> g \<notin> F \<and> (\<forall>f \<in> F. \<forall>f' \<in> F. (f', f) \<notin> N\<^sup>+) \<and> acyclic N)"

definition fronted_rel :: "('a \<times> 'a) set \<Rightarrow> 'a set \<Rightarrow> 'a \<Rightarrow> ('a \<times> 'a) set" where
  "fronted_rel N F g = N \<union> F \<times> {g} \<union> {g} \<times> (N `` F)"

lemma fronted_grows: "N \<subseteq> fronted_rel N F g" by (auto simp: fronted_rel_def)

lemma fronted_paths:
  assumes fr: "fronted N F g" and path: "(x, y) \<in> (fronted_rel N F g)\<^sup>+"
  shows "(x, y) \<in> N\<^sup>+ \<or> ((x = g \<or> (\<exists>f \<in> F. (x, f) \<in> N\<^sup>*)) \<and> (y = g \<or> (\<exists>f \<in> F. (f, y) \<in> N\<^sup>+)))"
  using path
proof (induction rule: trancl_induct)
  case (base y)
  then show ?case by (auto simp: fronted_rel_def)
next
  case (step y z)
  have fresh: "g \<notin> Field N" using fr by (simp add: fronted_def)
  have g: "(w, g) \<notin> N\<^sup>+" for w using fresh by (metis FieldI2 tranclE)
  have g': "(g, w) \<notin> N" for w using fresh by (metis FieldI1)
  consider "(y, z) \<in> N" | "y \<in> F" "z = g" | f where "y = g" "f \<in> F" "(f, z) \<in> N"
    using step.hyps(2) by (auto simp: fronted_rel_def)
  then show ?case
  proof cases
    case 1
    then show ?thesis using step.IH g' by (blast intro: trancl_into_trancl)
  next
    case 2
    then show ?thesis using step.IH by (blast intro: trancl_into_rtrancl)
  next
    case 3
    then show ?thesis using step.IH g by blast
  qed
qed

lemma fronted_acyclic:
  assumes fr: "fronted N F g"
  shows "acyclic (fronted_rel N F g)"
proof -
  let ?N = "fronted_rel N F g"
  have no: "(a, a) \<notin> ?N\<^sup>+" if ne: "a \<noteq> g" for a
  proof
    assume "(a, a) \<in> ?N\<^sup>+"
    then obtain f f' where "f \<in> F" "f' \<in> F" "(a, f) \<in> N\<^sup>*" "(f', a) \<in> N\<^sup>+"
      using fronted_paths [OF fr, of a a] ne fr by (auto simp: fronted_def acyclic_def)
    then show False using fr unfolding fronted_def by (meson trancl_rtrancl_trancl)
  qed
  have "(g, g) \<notin> ?N\<^sup>+"
  proof
    assume "(g, g) \<in> ?N\<^sup>+"
    then obtain n where n: "(g, n) \<in> ?N" "(n, g) \<in> ?N\<^sup>*" by (meson tranclD)
    then have "n \<noteq> g" using fr by (auto simp: fronted_rel_def fronted_def Field_def)
    moreover have "(n, n) \<in> ?N\<^sup>+" using n by (meson rtrancl_into_trancl1)
    ultimately show False using no by blast
  qed
  then show ?thesis using no unfolding acyclic_def by metis
qed

lemma fronted_gate_reaches:
  "fronted N F g \<Longrightarrow> (g, e) \<in> (fronted_rel N F g)\<^sup>+ \<Longrightarrow> e \<noteq> g \<Longrightarrow> \<exists>f \<in> F. (f, e) \<in> N\<^sup>+"
  using fronted_paths [of N F g g e] unfolding fronted_def by (metis FieldI1 tranclD)

lemma fronted_behind: "f \<in> F \<Longrightarrow> (x, f) \<in> N\<^sup>* \<Longrightarrow> (x, g) \<in> (fronted_rel N F g)\<^sup>+"
  using rtrancl_mono [OF fronted_grows [of N F g]]
  by (auto simp: fronted_rel_def intro!: rtrancl_into_trancl1 [of x f])

text \<open>What adding the gate does to the steps and to the graph.\<close>

lemma need_gate_sel [simp]:
  "ps_id (need_gate fronts gid s) = ps_id s" "ps_gate (need_gate fronts gid s) = ps_gate s"
  "uses_environment_authority ir (need_gate fronts gid s) = uses_environment_authority ir s"
  "is_manual_gate (need_gate fronts gid s) = is_manual_gate s"
  by (auto simp: need_gate_def uses_environment_authority_def is_gate_def is_manual_gate_def)

lemma set_need_gate:
  "set (ps_needs (need_gate fronts gid s)) = set (ps_needs s) \<union> (if ps_id s \<in> set fronts then {gid} else {})"
  by (simp add: need_gate_def)

lemma environment_gate_sel [simp]:
  "ps_id (environment_gate gid env ex ns) = gid" "ps_needs (environment_gate gid env ex ns) = ns"
  "is_manual_gate (environment_gate gid env ex ns)" "is_gate (environment_gate gid env ex ns)"
  by (simp_all add: environment_gate_def bare_manual_gate_def is_manual_gate_def is_gate_def)

lemma gate_added:
  assumes "add_environment_approval_gate ir env expires excluded = Some (added, ir')"
    and "missing = steps_missing_approval_gate ir excluded" and "fronts = gate_fronts ir missing"
    and "gid = added_gate_id ir"
  shows "ga_id added = gid" and "ga_fronts added = fronts" and "ir_deploy ir' = ir_deploy ir"
    and "set (ir_steps ir') = insert (environment_gate gid env expires (combined_needs ir fronts))
           (need_gate fronts gid ` set (ir_steps ir))"
    and "distinct (map ps_id (ir_steps ir)) \<Longrightarrow> distinct (map ps_id (ir_steps ir'))"
proof -
  let ?n = "length (takeWhile (\<lambda>s. ps_id s \<notin> set fronts) (ir_steps ir))"
  let ?steps = "map (need_gate fronts gid) (ir_steps ir)"
  let ?gate = "environment_gate gid env expires (combined_needs ir fronts)"
  have eqs: "added = \<lparr>ga_id = gid, ga_fronts = fronts\<rparr>" "ir' = ir\<lparr>ir_steps := take ?n ?steps @ ?gate # drop ?n ?steps\<rparr>"
    using assms by (auto simp: add_environment_approval_gate_def Let_def split: if_splits)
  then show "ga_id added = gid" "ga_fronts added = fronts" "ir_deploy ir' = ir_deploy ir" by simp_all
  have "set (take ?n ?steps) \<union> set (drop ?n ?steps) = set ?steps"
    by (simp only: set_append [symmetric] append_take_drop_id)
  then show "set (ir_steps ir') = insert ?gate (need_gate fronts gid ` set (ir_steps ir))"
    using eqs(2) by auto
  assume d: "distinct (map ps_id (ir_steps ir))"
  have ids: "map ps_id (ir_steps ir') = take ?n (map ps_id (ir_steps ir)) @ gid # drop ?n (map ps_id (ir_steps ir))"
    using eqs(2) by (simp add: take_map drop_map comp_def)
  have "distinct (take ?n (map ps_id (ir_steps ir)) @ drop ?n (map ps_id (ir_steps ir)))" using d by simp
  moreover have "gid \<notin> set (take ?n (map ps_id (ir_steps ir)) @ drop ?n (map ps_id (ir_steps ir)))"
    using added_gate_id_fresh [of ir] assms(4) by (simp only: append_take_drop_id) (simp add: step_ids_def)
  ultimately show "distinct (map ps_id (ir_steps ir'))" unfolding ids by (simp del: append_take_drop_id)
qed

lemma set_combined: "set (combined_needs ir fronts) = needs_rel ir `` set fronts"
  by (auto simp: combined_needs_def needs_rel_def)

lemma needs_rel_added:
  assumes add: "add_environment_approval_gate ir env expires excluded = Some (added, ir')"
  shows "needs_rel ir' = fronted_rel (needs_rel ir) (set (ga_fronts added)) (ga_id added)"
proof -
  note ga = gate_added [OF add refl refl refl]
  have fr: "set (ga_fronts added) \<subseteq> step_ids ir"
    unfolding ga(2) by (auto simp: fronts_iff missing_iff step_ids_def)
  have "(x, y) \<in> needs_rel ir' \<longleftrightarrow> (x, y) \<in> fronted_rel (needs_rel ir) (set (ga_fronts added)) (ga_id added)" for x y
    using fr unfolding needs_rel_def [of ir'] ga(4) ga(1,2) [symmetric]
    by (auto simp: set_need_gate set_combined fronted_rel_def needs_rel_def step_ids_def split: if_splits)
  then show ?thesis by auto
qed

lemma added_fronted:
  assumes v: "valid_ir ir" and add: "add_environment_approval_gate ir env expires excluded = Some (added, ir')"
  shows "fronted (needs_rel ir) (set (ga_fronts added)) (ga_id added)"
proof -
  note ga = gate_added [OF add refl refl refl]
  have "fst ` needs_rel ir \<subseteq> step_ids ir" by (auto simp: needs_rel_def step_ids_def)
  then have ids: "Field (needs_rel ir) \<subseteq> step_ids ir"
    using v by (simp add: valid_ir_def Field_def Domain_fst Range_snd)
  have "set (ga_fronts added) \<subseteq> step_ids ir"
    unfolding ga(2) by (auto simp: step_ids_def fronts_iff missing_iff)
  then show ?thesis
    using ids added_gate_id_fresh [of ir] fronts_unrelated [of _ ir] v ga(1,2)
    by (auto simp: fronted_def valid_ir_def)
qed

lemma authority_cong: "ir_deploy ir' = ir_deploy ir \<Longrightarrow> uses_environment_authority ir' s = uses_environment_authority ir s"
  by (simp add: uses_environment_authority_def)

lemma gate_no_authority [simp]: "is_gate s \<Longrightarrow> \<not> uses_environment_authority ir s"
  by (simp add: uses_environment_authority_def)

lemma added_steps:
  assumes "add_environment_approval_gate ir env expires excluded = Some (added, ir')"
  shows "step_ids ir' = insert (ga_id added) (step_ids ir)"
    and "s \<in> set (ir_steps ir) \<Longrightarrow> \<exists>s' \<in> set (ir_steps ir'). ps_id s' = ps_id s \<and> is_manual_gate s' = is_manual_gate s"
    and "\<exists>s' \<in> set (ir_steps ir'). ps_id s' = ga_id added \<and> is_manual_gate s'"
    and "s' \<in> set (ir_steps ir') \<Longrightarrow> uses_environment_authority ir' s' \<Longrightarrow>
           \<exists>s \<in> set (ir_steps ir). ps_id s = ps_id s' \<and> uses_environment_authority ir s"
proof -
  note ga = gate_added [OF assms refl refl refl]
  show "step_ids ir' = insert (ga_id added) (step_ids ir)"
    unfolding step_ids_def ga(4) ga(1) by (simp add: image_image)
  show "\<exists>s' \<in> set (ir_steps ir'). ps_id s' = ps_id s \<and> is_manual_gate s' = is_manual_gate s"
    if "s \<in> set (ir_steps ir)" using that unfolding ga(4) by auto
  show "\<exists>s' \<in> set (ir_steps ir'). ps_id s' = ga_id added \<and> is_manual_gate s'"
    unfolding ga(4) ga(1) by auto
  show "\<exists>s \<in> set (ir_steps ir). ps_id s = ps_id s' \<and> uses_environment_authority ir s"
    if "s' \<in> set (ir_steps ir')" "uses_environment_authority ir' s'"
    using that unfolding ga(4) authority_cong [OF ga(3)] by auto
qed

lemma missing_after_adding:
  assumes v: "valid_ir ir" and add: "add_environment_approval_gate ir env expires excluded = Some (added, ir')"
  shows "steps_missing_approval_gate ir' excluded = []"
proof -
  note ga = gate_added [OF add refl refl refl]
  let ?N = "needs_rel ir" and ?N' = "needs_rel ir'"
  have d: "distinct (map ps_id (ir_steps ir))" "acyclic ?N" using v by (simp_all add: valid_ir_def)
  have grow: "?N\<^sup>+ \<subseteq> ?N'\<^sup>+" "?N\<^sup>* \<subseteq> ?N'\<^sup>*"
    unfolding needs_rel_added [OF add] by (simp_all add: fronted_grows trancl_mono_subset rtrancl_mono)
  have "manual_gate_upstream ir' x"
    if x: "s' \<in> set (ir_steps ir')" "ps_id s' = x" "uses_environment_authority ir' s'"
      and live: "x \<notin> set (dead_steps ir' excluded)" for s' x
  proof (cases "manual_gate_upstream ir x")
    case True
    then obtain s where "s \<in> set (ir_steps ir)" "(x, ps_id s) \<in> ?N\<^sup>+" "is_manual_gate s"
      using manual_upstream_iff [OF d(1)] by blast
    then show ?thesis
      using added_steps(2) [OF add] grow(1) manual_upstream_iff [OF ga(5) [OF d(1)]] by (metis subsetD)
  next
    case False
    have "x \<notin> set (dead_steps ir excluded)"
      using live grow(2) added_steps(1) [OF add] by (auto simp: dead_iff)
    then have "x \<in> set (steps_missing_approval_gate ir excluded)"
      using False added_steps(4) [OF add x(1,3)] x(2) by (auto simp: missing_iff)
    then obtain f where "f \<in> set (ga_fronts added)" "(x, f) \<in> ?N\<^sup>*"
      using missing_behind_front [OF d(2)] ga(2) by metis
    then have "(x, ga_id added) \<in> ?N'\<^sup>+" unfolding needs_rel_added [OF add] by (rule fronted_behind)
    then show ?thesis using added_steps(3) [OF add] manual_upstream_iff [OF ga(5) [OF d(1)]] by metis
  qed
  then have "x \<notin> set (steps_missing_approval_gate ir' excluded)" for x by (auto simp: missing_iff)
  then show ?thesis by (metis list.set_intros(1) neq_Nil_conv)
qed

lemma gate_never_dead:
  assumes v: "valid_ir ir" and add: "add_environment_approval_gate ir env expires excluded = Some (added, ir')"
    and ex: "set excluded \<subseteq> step_ids ir"
  shows "ga_id added \<notin> set (dead_steps ir' excluded)"
proof
  note ga = gate_added [OF add refl refl refl]
  assume "ga_id added \<in> set (dead_steps ir' excluded)"
  then obtain e where e: "e \<in> set excluded" "(ga_id added, e) \<in> (needs_rel ir')\<^sup>*" by (auto simp: dead_iff)
  have ne: "e \<noteq> ga_id added" using e(1) ex added_gate_id_fresh [of ir] ga(1) by auto
  then have "(ga_id added, e) \<in> (needs_rel ir')\<^sup>+" using e(2) by (metis rtranclD)
  then obtain f where f: "f \<in> set (ga_fronts added)" "(f, e) \<in> (needs_rel ir)\<^sup>+"
    using fronted_gate_reaches [OF added_fronted [OF v add]] ne unfolding needs_rel_added [OF add] by blast
  then have "f \<in> set (dead_steps ir excluded)" using e(1) ex by (auto simp: dead_iff)
  then show False using f(1) unfolding ga(2) by (auto simp: fronts_iff missing_iff)
qed

lemma valid_after_adding:
  assumes v: "valid_ir ir" and add: "add_environment_approval_gate ir env expires excluded = Some (added, ir')"
  shows "valid_ir ir'"
proof -
  note ga = gate_added [OF add refl refl refl]
  have "acyclic (needs_rel ir')"
    unfolding needs_rel_added [OF add] by (rule fronted_acyclic [OF added_fronted [OF v add]])
  moreover have "snd ` needs_rel ir' \<subseteq> step_ids ir'"
    using v unfolding needs_rel_added [OF add] added_steps(1) [OF add] valid_ir_def fronted_rel_def
    by (auto simp: image_iff subset_iff)
  ultimately show ?thesis using ga(5) v by (simp add: valid_ir_def)
qed

section \<open>Marks\<close>

definition mark_step :: "string list \<Rightarrow> pipe_step \<Rightarrow> pipe_step" where
  "mark_step approval s =
     (if is_manual_gate s then s\<lparr>ps_environment_approval_gate := Some (ps_id s \<in> set approval)\<rparr> else s)"

lemma marked_steps: "ir_steps (mark_environment_approval_gates ir) = map (mark_step (environment_approval_gates ir)) (ir_steps ir)"
  by (simp add: mark_environment_approval_gates_def mark_step_def Let_def)

lemma mark_step_sel [simp]:
  "ps_id (mark_step approval s) = ps_id s" "ps_needs (mark_step approval s) = ps_needs s"
  "ps_gate (mark_step approval s) = ps_gate s" "is_manual_gate (mark_step approval s) = is_manual_gate s"
  by (simp_all add: mark_step_def is_manual_gate_def)

lemma needs_rel_marked [simp]: "needs_rel (mark_environment_approval_gates ir) = needs_rel ir"
  by (auto simp: needs_rel_def marked_steps)

lemma ids_marked [simp]: "map ps_id (ir_steps (mark_environment_approval_gates ir)) = map ps_id (ir_steps ir)"
  by (simp add: marked_steps comp_def)

lemma step_ids_marked [simp]: "step_ids (mark_environment_approval_gates ir) = step_ids ir"
  by (metis ids_marked set_map step_ids_def)

lemma approval_gate_iff:
  assumes d: "distinct (map ps_id (ir_steps ir))"
  shows "g \<in> set (environment_approval_gates ir) \<longleftrightarrow>
     (\<exists>s \<in> set (ir_steps ir). ps_id s = g \<and> is_manual_gate s)
     \<and> (\<exists>s \<in> set (ir_steps ir). uses_environment_authority ir s \<and> (ps_id s, g) \<in> (needs_rel ir)\<^sup>+)"
proof -
  have "(\<exists>x \<in> set (downstream ir g). \<exists>s \<in> set (ir_steps ir). ps_id s = x \<and> uses_environment_authority ir s)
      \<longleftrightarrow> (\<exists>s \<in> set (ir_steps ir). uses_environment_authority ir s \<and> (ps_id s, g) \<in> (needs_rel ir)\<^sup>+)"
    using downstream_iff by blast
  moreover have "g \<in> set (environment_approval_gates ir) \<longleftrightarrow>
     (\<exists>s \<in> set (ir_steps ir). ps_id s = g \<and> is_manual_gate s)
     \<and> (\<exists>x \<in> set (downstream ir g). \<exists>s \<in> set (ir_steps ir). ps_id s = x \<and> uses_environment_authority ir s)"
    by (auto simp: environment_approval_gates_def list_ex_iff by_id_case [OF d] image_iff)
  ultimately show ?thesis by simp
qed

lemma marked_gate_upstream:
  assumes d: "distinct (map ps_id (ir_steps ir))" and s: "s \<in> set (ir_steps ir)" "uses_environment_authority ir s"
    and up: "manual_gate_upstream ir (ps_id s)"
  shows "upstream_approval_gates (mark_environment_approval_gates ir) (ps_id s) \<noteq> []"
proof -
  obtain g where g: "g \<in> set (ir_steps ir)" "(ps_id s, ps_id g) \<in> (needs_rel ir)\<^sup>+" "is_manual_gate g"
    using up manual_upstream_iff [OF d] by blast
  have "ps_id g \<in> set (environment_approval_gates ir)" using g s approval_gate_iff [OF d] by blast
  then have "counts_as_environment_approval_gate (mark_step (environment_approval_gates ir) g)"
    using g(3) by (simp add: counts_as_environment_approval_gate_def mark_step_def is_manual_gate_def)
  then have "mark_step (environment_approval_gates ir) g
      \<in> set (upstream_approval_gates (mark_environment_approval_gates ir) (ps_id s))"
    using g d by (subst upstream_iff) (auto simp: marked_steps comp_def)
  then show ?thesis by auto
qed

end
