(* ===== verification/Environment_Rules.thy ===== *)
theory Environment_Rules
  imports Policy Approval_Gate_Laws
begin

text \<open>
  The approval-gate rules of an environment as built-in rules of the policy engine
  (\<^verbatim>\<open>scarab-policy/src/environment_rules.rs\<close>): the gate requirement at \<^verbatim>\<open>run.create\<close>, the release rules at
  \<^verbatim>\<open>gate.resolve\<close> and the re-check at \<^verbatim>\<open>step.admit\<close>. Times are unix milliseconds in \<^verbatim>\<open>i64\<close>; additions saturate as
  the code's do. Only the seconds named in a message are computed without saturation.
\<close>

section \<open>The gate requirement\<close>

definition GATE_REQUIREMENT_ID :: string where
  "GATE_REQUIREMENT_ID = ''builtin:environment_approval_gate''"

definition GATE_RELEASE_ID :: string where
  "GATE_RELEASE_ID = ''builtin:environment_approval_release''"

definition LAUNCH_RECHECK_ID :: string where
  "LAUNCH_RECHECK_ID = ''builtin:environment_approval_recheck''"

definition builtin :: "string \<Rightarrow> string \<Rightarrow> policy_outcome \<Rightarrow> policy_result" where
  "builtin rid name outcome = \<lparr>pr_policy_id = rid, pr_version = 0, pr_name = name, pr_level = LOrg,
     pr_mode = Enforce, pr_outcome = outcome\<rparr>"

record gate_req =
  gr_ir :: pipeline_ir
  gr_result :: "policy_result option"
  gr_refusal :: "string option"

definition quote_ids :: "string list \<Rightarrow> string" where
  "quote_ids ids = join_with '', '' (map (\<lambda>i. quoted i) ids)"

definition gate_refusal :: "string \<Rightarrow> string list \<Rightarrow> string list \<Rightarrow> string list \<Rightarrow> string" where
  "gate_refusal environment missing needs fronts =
     ''environment '' @ quoted environment @ '' has approvers, and these Steps use its authority with no ''
     @ quoted ''gate: manual'' @ '' upstream: '' @ quote_ids missing
     @ ''. It refuses such a Run rather than add a gate: add ''
     @ quoted (''- { id: approve, gate: manual, needs: ['' @ join_with '', '' needs @ ''] }'')
     @ '' and put '' @ quoted ''approve'' @ '' in the '' @ quoted ''needs'' @ '' of '' @ quote_ids fronts"

definition gate_requirement ::
  "pipeline_ir \<Rightarrow> string \<Rightarrow> effective_protection option \<Rightarrow> string list \<Rightarrow> gate_req" where
  "gate_requirement ir environment protection excluded =
     (let finish = (\<lambda>ir' result. \<lparr>gr_ir = mark_environment_approval_gates ir', gr_result = result, gr_refusal = None\<rparr>);
          rule = builtin GATE_REQUIREMENT_ID ''environment-approval-gate'' in
      case protection of
        None \<Rightarrow> finish ir None
      | Some p \<Rightarrow>
          if ep_approvers p = [] then finish ir None
          else
            (case add_environment_approval_gate ir environment (ag_added_gate_expiry_s (ep_approval_gate p)) excluded of
               None \<Rightarrow> finish ir (Some (rule Passed))
             | Some (added, with_gate) \<Rightarrow>
                 if ag_missing_gate (ep_approval_gate p) = MGRefuse then
                   (let needs = (case List.find (\<lambda>s. ps_id s = ga_id added) (ir_steps with_gate) of
                                   None \<Rightarrow> [] | Some g \<Rightarrow> ps_needs g);
                        refusal = gate_refusal environment (steps_missing_approval_gate ir excluded) needs (ga_fronts added)
                    in \<lparr>gr_ir = mark_environment_approval_gates ir, gr_result = Some (rule (Denied [refusal])),
                        gr_refusal = Some refusal\<rparr>)
                 else finish with_gate (Some (rule (GateAdded (ga_id added) (ga_fronts added))))))"

section \<open>The release rules\<close>

record release_facts =
  rf_git_ref :: string
  rf_protection :: effective_protection
  rf_approvals :: "string list"
  rf_wait_began_ms :: int
  rf_now_ms :: int

record approval_met =
  am_approvers :: "string list"
  am_required :: "nat option"
  am_release_at :: int

record gate_release =
  gl_result :: policy_result
  gl_met :: "approval_met option"

definition release_at :: "release_facts \<Rightarrow> int" where
  "release_at f =
     saturating_add (rf_wait_began_ms f) (saturating_mul (int (effective_wait_timer_s (rf_protection f))) 1000)"

definition timer_message :: "nat \<Rightarrow> int \<Rightarrow> string" where
  "timer_message timer_s left_ms =
     ''the approvals are in; the wait timer of '' @ nat_str timer_s @ '' s runs for ''
     @ nat_str (nat ((left_ms + 999) div 1000)) @ '' s more''"

definition gate_release :: "release_facts \<Rightarrow> gate_release" where
  "gate_release f =
     (let rule = builtin GATE_RELEASE_ID ''environment-approval-release'' in
      case admits (rf_protection f) (rf_git_ref f) (rf_approvals f) of
        Inl violations \<Rightarrow> \<lparr>gl_result = rule (Requires violations), gl_met = None\<rparr>
      | Inr _ \<Rightarrow>
          (let at_ms = release_at f; (approvers, required) = approver_set (rf_protection f) in
           \<lparr>gl_result = rule (if rf_now_ms f < at_ms
              then Requires [timer_message (effective_wait_timer_s (rf_protection f)) (at_ms - rf_now_ms f)] else Passed),
            gl_met = Some \<lparr>am_approvers = approvers, am_required = required, am_release_at = at_ms\<rparr>\<rparr>))"

section \<open>The re-check at launch\<close>

record upstream_gate_facts =
  ug_gate :: string
  ug_released_at :: "int option"
  ug_met :: "(string list \<times> nat option) option"

record launch_facts =
  lf_environment :: string
  lf_git_ref :: string
  lf_protection :: effective_protection
  lf_step :: string
  lf_uses_authority :: "bool option"
  lf_approval_gates :: "upstream_gate_facts list"
  lf_now_ms :: int

record launch_check =
  lc_result :: "policy_result option"
  lc_refusal :: "string option"
  lc_before_approval :: bool

definition saturating_sub :: "int \<Rightarrow> int \<Rightarrow> int" where
  "saturating_sub a b = saturate_i64 (a - b)"

definition max_age_ms :: "effective_protection \<Rightarrow> int" where
  "max_age_ms p = int (ag_max_approval_age_s (ep_approval_gate p)) * 1000"

text \<open>Why one gate does not admit the step; none when it does.\<close>

definition gate_why :: "launch_facts \<Rightarrow> upstream_gate_facts \<Rightarrow> string option" where
  "gate_why f gate =
     (let p = lf_protection f in
      case ug_released_at gate of
        None \<Rightarrow> Some (''Environment approval gate '' @ quoted (ug_gate gate) @ '' upstream of step ''
                      @ quoted (lf_step f) @ '' has not released'')
      | Some released \<Rightarrow>
          (let age_ms = saturating_sub (lf_now_ms f) released in
           if age_ms > max_age_ms p
           then Some (''Environment approval gate '' @ quoted (ug_gate gate) @ '' released ''
                      @ nat_str (nat (age_ms div 1000)) @ '' s ago, longer than environment ''
                      @ quoted (lf_environment f) @ '''s maximum approval age of ''
                      @ nat_str (ag_max_approval_age_s (ep_approval_gate p))
                      @ '' s; rerun the gate to ask the approvers again'')
           else if (case ug_met gate of None \<Rightarrow> False | Some m \<Rightarrow> m \<noteq> approver_set p)
           then Some (''environment '' @ quoted (lf_environment f)
                      @ '''s approvers changed since Environment approval gate '' @ quoted (ug_gate gate)
                      @ '' released; rerun the gate to ask the approvers again'')
           else None))"

fun first_refusal :: "launch_facts \<Rightarrow> string option \<Rightarrow> upstream_gate_facts list \<Rightarrow> string option" where
  "first_refusal f refusal [] = refusal"
| "first_refusal f refusal (gate # gates) =
     (case gate_why f gate of
        None \<Rightarrow> None
      | Some why \<Rightarrow> first_refusal f (case refusal of None \<Rightarrow> Some why | Some r \<Rightarrow> Some r) gates)"

definition refusal :: "launch_facts \<Rightarrow> string option" where
  "refusal f =
     (if lf_approval_gates f = []
      then Some (''step '' @ quoted (lf_step f) @ '' uses environment '' @ quoted (lf_environment f)
             @ '''s authority, and no Environment approval gate is upstream of it: the Run was created before ''
             @ quoted (lf_environment f) @ '' had approvers, or no '' @ quoted ''gate: manual''
             @ '' guards the step; start a new Run so '' @ quoted (lf_environment f) @ '' can add its gate'')
      else if \<not> ref_allowed (lf_protection f) (lf_git_ref f)
      then Some (''ref '' @ quoted (lf_git_ref f) @ '' is no longer allowed to deploy to environment ''
             @ quoted (lf_environment f))
      else first_refusal f None (rev (lf_approval_gates f)))"

definition launch_recheck :: "launch_facts \<Rightarrow> launch_check" where
  "launch_recheck f =
     (if ep_approvers (lf_protection f) = [] then \<lparr>lc_result = None, lc_refusal = None, lc_before_approval = False\<rparr>
      else
        (let unqualified = refusal f;
             refused = (if lf_uses_authority f = Some True then unqualified else None);
             outcome = (case refused of None \<Rightarrow> Passed | Some r \<Rightarrow> Denied [r])
         in \<lparr>lc_result = Some (builtin LAUNCH_RECHECK_ID ''environment-approval-recheck'' outcome),
             lc_refusal = refused, lc_before_approval = unqualified \<noteq> None\<rparr>))"

section \<open>Laws\<close>

lemma first_refusal_None: "first_refusal f r gates = None \<longleftrightarrow> (\<exists>g \<in> set gates. gate_why f g = None) \<or> r = None \<and> gates = []"
  by (induction f r gates rule: first_refusal.induct) (auto split: option.splits)

text \<open>A gate qualifies when it released, not longer ago than the maximum age, under the approver set of now.\<close>

definition qualifies :: "launch_facts \<Rightarrow> upstream_gate_facts \<Rightarrow> bool" where
  "qualifies f g =
     (case ug_released_at g of None \<Rightarrow> False
      | Some t \<Rightarrow> saturating_sub (lf_now_ms f) t \<le> max_age_ms (lf_protection f)
          \<and> (ug_met g = None \<or> ug_met g = Some (approver_set (lf_protection f))))"

lemma gate_why_None: "gate_why f g = None \<longleftrightarrow> qualifies f g"
  by (auto simp: gate_why_def qualifies_def Let_def split: option.splits)

lemma refusal_None:
  "refusal f = None \<longleftrightarrow> ref_allowed (lf_protection f) (lf_git_ref f) \<and> (\<exists>g \<in> set (lf_approval_gates f). qualifies f g)"
  by (auto simp: refusal_def first_refusal_None gate_why_None)

text \<open>What the gate requirement leaves: the pipeline itself or the pipeline with the gate.\<close>

lemma add_gate_None:
  "add_environment_approval_gate ir env ex excluded = None \<longleftrightarrow> steps_missing_approval_gate ir excluded = []"
  by (simp add: add_environment_approval_gate_def Let_def)

lemma requirement_cases:
  assumes "ep_approvers p \<noteq> []" and "gr_refusal (gate_requirement ir env (Some p) excluded) = None"
  obtains ir' where "gr_ir (gate_requirement ir env (Some p) excluded) = mark_environment_approval_gates ir'"
    "ir' = ir \<and> steps_missing_approval_gate ir excluded = []
     \<or> (\<exists>added. add_environment_approval_gate ir env (ag_added_gate_expiry_s (ep_approval_gate p)) excluded = Some (added, ir'))"
  using assms
  by (auto simp: gate_requirement_def Let_def add_gate_None split: option.splits if_splits prod.splits intro: that)

lemma valid_marked: "valid_ir ir \<Longrightarrow> valid_ir (mark_environment_approval_gates ir)"
  by (simp add: valid_ir_def)

lemma authority_marked [simp]:
  "uses_environment_authority (mark_environment_approval_gates ir) (mark_step approval s) = uses_environment_authority ir s"
  by (simp add: uses_environment_authority_def mark_environment_approval_gates_def mark_step_def is_gate_def is_manual_gate_def Let_def)

lemma dead_marked [simp]: "set (dead_steps (mark_environment_approval_gates ir) excluded) = set (dead_steps ir excluded)"
  by (auto simp: dead_iff)

lemma no_missing_guarded:
  assumes v: "valid_ir ir" and none: "steps_missing_approval_gate ir excluded = []"
    and s: "s \<in> set (ir_steps (mark_environment_approval_gates ir))"
      "uses_environment_authority (mark_environment_approval_gates ir) s" "ps_id s \<notin> set (dead_steps ir excluded)"
  shows "upstream_approval_gates (mark_environment_approval_gates ir) (ps_id s) \<noteq> []"
proof -
  have d: "distinct (map ps_id (ir_steps ir))" using v by (simp add: valid_ir_def)
  obtain a where a: "a \<in> set (ir_steps ir)" "s = mark_step (environment_approval_gates ir) a"
    using s(1) by (auto simp: marked_steps)
  have auth: "uses_environment_authority ir a" using s(2) by (simp add: a(2))
  have "ps_id a \<notin> set (steps_missing_approval_gate ir excluded)" by (simp add: none)
  then have "manual_gate_upstream ir (ps_id a)"
    using a auth s(3) by (auto simp: missing_iff)
  then show ?thesis using marked_gate_upstream [OF d a(1) auth] by (simp add: a(2))
qed

section \<open>Properties\<close>

text \<open>C23: in an environment with approvers, a run that the gate requirement does not refuse is stored as a
  valid pipeline (distinct ids, needs that exist, no cycle) in which every step that uses the
  environment's authority and that is not excluded by a false condition has an environment approval
  gate upstream. A run is refused exactly when the environment refuses missing gates and some such step
  has no manual gate upstream, and the steps of the pipeline are kept.\<close>
theorem authority_is_gated:
  assumes v: "valid_ir ir" and ap: "ep_approvers p \<noteq> []"
    and gr: "gr = gate_requirement ir env (Some p) excluded"
  shows "(gr_refusal gr = None \<longrightarrow>
      valid_ir (gr_ir gr) \<and> step_ids ir \<subseteq> step_ids (gr_ir gr)
      \<and> (\<forall>s \<in> set (ir_steps (gr_ir gr)).
           uses_environment_authority (gr_ir gr) s \<and> ps_id s \<notin> set (dead_steps (gr_ir gr) excluded) \<longrightarrow>
           upstream_approval_gates (gr_ir gr) (ps_id s) \<noteq> []))
    \<and> (gr_refusal gr \<noteq> None \<longleftrightarrow>
        ag_missing_gate (ep_approval_gate p) = MGRefuse \<and> steps_missing_approval_gate ir excluded \<noteq> [])"
proof (intro conjI impI)
  assume "gr_refusal gr = None"
  then obtain ir' where marked: "gr_ir gr = mark_environment_approval_gates ir'"
    and ir': "ir' = ir \<and> steps_missing_approval_gate ir excluded = []
      \<or> (\<exists>added. add_environment_approval_gate ir env (ag_added_gate_expiry_s (ep_approval_gate p)) excluded = Some (added, ir'))"
    using requirement_cases [OF ap, of ir env excluded] by (auto simp: gr)
  have v': "valid_ir ir'" using ir' v by (auto intro: valid_after_adding)
  have none: "steps_missing_approval_gate ir' excluded = []" using ir' by (auto intro: missing_after_adding [OF v])
  show "valid_ir (gr_ir gr)" using v' by (simp add: marked valid_marked)
  show "step_ids ir \<subseteq> step_ids (gr_ir gr)" using ir' by (auto simp: marked dest!: added_steps(1))
  show "\<forall>s \<in> set (ir_steps (gr_ir gr)).
      uses_environment_authority (gr_ir gr) s \<and> ps_id s \<notin> set (dead_steps (gr_ir gr) excluded) \<longrightarrow>
      upstream_approval_gates (gr_ir gr) (ps_id s) \<noteq> []"
    using no_missing_guarded [OF v' none] by (simp add: marked)
next
  show "gr_refusal gr \<noteq> None \<longleftrightarrow>
      ag_missing_gate (ep_approval_gate p) = MGRefuse \<and> steps_missing_approval_gate ir excluded \<noteq> []"
    using ap add_gate_None [of ir env "ag_added_gate_expiry_s (ep_approval_gate p)" excluded]
    by (auto simp: gr gate_requirement_def Let_def split: option.splits if_splits)
qed

text \<open>A pipeline that builds and deploys, with nothing between the two.\<close>

definition ungated :: pipeline_ir where
  "ungated = \<lparr>ir_name = None, ir_deploy = False, ir_steps =
     [(bare_manual_gate ''build'')\<lparr>ps_gate := None\<rparr>,
      (bare_manual_gate ''deploy'')\<lparr>ps_gate := None, ps_deploy := True, ps_needs := [''build'']\<rparr>]\<rparr>"

definition approved_by_amy :: effective_protection where
  "approved_by_amy = effective_protection (permissive\<lparr>er_approvers := [''amy''], er_wait_timer_s := 1\<rparr>) None"

lemma needs_ungated: "needs_rel ungated = {(''deploy'', ''build'')}"
  by (auto simp: needs_rel_def ungated_def bare_manual_gate_def)

lemma ungated_valid: "valid_ir ungated"
proof -
  have "acyclic {(''deploy'', ''build'')}"
    unfolding acyclic_insert by (simp add: acyclic_def)
  then show ?thesis
    unfolding valid_ir_def needs_ungated by (simp add: ungated_def bare_manual_gate_def step_ids_def)
qed

theorem authority_is_gated_witness:
  "valid_ir (gr_ir (gate_requirement ungated ''prod'' (Some approved_by_amy) []))
   \<and> step_ids ungated \<subseteq> step_ids (gr_ir (gate_requirement ungated ''prod'' (Some approved_by_amy) []))"
proof -
  have ap: "ep_approvers approved_by_amy \<noteq> []"
    by (simp add: approved_by_amy_def effective_protection_def permissive_def)
  have mode: "ag_missing_gate (ep_approval_gate approved_by_amy) = MGAdd"
    by (simp add: approved_by_amy_def effective_protection_def permissive_def default_approval_gate_def)
  show ?thesis
    using authority_is_gated [OF ungated_valid ap refl, of "''prod''" "[]"] by (simp add: mode)
qed

text \<open>An environment approval gate releases exactly when the ref is allowed, the approvals meet the
  environment's approvers, and the wait timer has run out since the gate's wait began; otherwise what it
  still lacks is named. Once the approvals meet the rules, the approver set they met is recorded, also
  while the timer still holds the gate, and the timer is never cut short by the arithmetic: the time of
  release is the sum of the two, or the largest time there is.\<close>
theorem release_exact:
  assumes "i64_min \<le> rf_wait_began_ms f" and "rf_wait_began_ms f \<le> i64_max"
    and "effective_wait_timer_s (rf_protection f) < 2 ^ 32"
  shows "(pr_outcome (gl_result (gate_release f)) = Passed \<longleftrightarrow>
        admits (rf_protection f) (rf_git_ref f) (rf_approvals f) = Inr ()
        \<and> min i64_max (rf_wait_began_ms f + 1000 * int (effective_wait_timer_s (rf_protection f))) \<le> rf_now_ms f)
    \<and> (pr_outcome (gl_result (gate_release f)) \<noteq> Passed \<longrightarrow>
        (\<exists>m ms. pr_outcome (gl_result (gate_release f)) = Requires (m # ms)))
    \<and> (gl_met (gate_release f) \<noteq> None \<longleftrightarrow> admits (rf_protection f) (rf_git_ref f) (rf_approvals f) = Inr ())
    \<and> (\<forall>m. gl_met (gate_release f) = Some m \<longrightarrow> (am_approvers m, am_required m) = approver_set (rf_protection f))"
proof -
  let ?t = "int (effective_wait_timer_s (rf_protection f))"
  have "saturating_mul ?t 1000 = 1000 * ?t"
    using assms(3) by (simp add: saturating_mul_def saturate_i64_def i64_min_def i64_max_def)
  then have at: "release_at f = min i64_max (rf_wait_began_ms f + 1000 * ?t)"
    using assms(1,2) by (simp add: release_at_def saturating_add_def saturate_i64_def i64_max_def i64_min_def)
  have lacking: "\<exists>m ms. v = m # ms" if "admits (rf_protection f) (rf_git_ref f) (rf_approvals f) = Inl v" for v
    using that by (cases v) (auto simp: admits_def Let_def split: if_splits)
  show ?thesis
    by (cases "admits (rf_protection f) (rf_git_ref f) (rf_approvals f)")
      (auto simp: gate_release_def builtin_def at not_less Let_def dest!: lacking split: prod.splits)
qed

definition amy_approves :: release_facts where
  "amy_approves = \<lparr>rf_git_ref = ''refs/heads/main'', rf_protection = approved_by_amy, rf_approvals = [''amy''],
     rf_wait_began_ms = 5, rf_now_ms = 1005\<rparr>"

theorem release_exact_witness: "pr_outcome (gl_result (gate_release amy_approves)) = Passed"
proof -
  have "admits approved_by_amy ''refs/heads/main'' [''amy''] = Inr ()"
    by (simp add: admits_def approved_by_amy_def effective_protection_def permissive_def ref_allowed_def layer_allows_def
        approval_violations_def default_approval_gate_def missing_approvals_def)
  moreover have "effective_wait_timer_s approved_by_amy = 1"
    by (simp add: effective_wait_timer_s_def approved_by_amy_def effective_protection_def permissive_def)
  ultimately show ?thesis
    using release_exact [of amy_approves] by (simp add: amy_approves_def i64_min_def i64_max_def)
qed

text \<open>At launch, in an environment with approvers, a step that uses its authority is refused unless the
  ref is allowed now and some environment approval gate upstream of it released, recorded no other
  approver set than the one of now, and did so no longer ago than the maximum approval age; the refusal
  is what the decision records. Every step no such gate admits is marked as before approval, so that it
  launches with the subject of no environment, also when it is not refused.\<close>
theorem launch_recheck_exact:
  assumes ap: "ep_approvers (lf_protection f) \<noteq> []"
    and admitted: "admitted = (ref_allowed (lf_protection f) (lf_git_ref f)
      \<and> (\<exists>g \<in> set (lf_approval_gates f). \<exists>t. ug_released_at g = Some t
           \<and> saturating_sub (lf_now_ms f) t \<le> 1000 * int (ag_max_approval_age_s (ep_approval_gate (lf_protection f)))
           \<and> (ug_met g = None \<or> ug_met g = Some (approver_set (lf_protection f)))))"
  shows "(lc_before_approval (launch_recheck f) \<longleftrightarrow> \<not> admitted)
    \<and> (lc_refusal (launch_recheck f) \<noteq> None \<longleftrightarrow> lf_uses_authority f = Some True \<and> \<not> admitted)
    \<and> map_option pr_outcome (lc_result (launch_recheck f))
        = Some (case lc_refusal (launch_recheck f) of None \<Rightarrow> Passed | Some r \<Rightarrow> Denied [r])"
proof -
  have "(\<exists>t. ug_released_at g = Some t
      \<and> saturating_sub (lf_now_ms f) t \<le> 1000 * int (ag_max_approval_age_s (ep_approval_gate (lf_protection f)))
      \<and> (ug_met g = None \<or> ug_met g = Some (approver_set (lf_protection f)))) \<longleftrightarrow> qualifies f g" for g
    by (auto simp: qualifies_def max_age_ms_def mult.commute split: option.splits)
  then have "admitted \<longleftrightarrow> refusal f = None" by (simp add: admitted refusal_None)
  then show ?thesis using ap by (simp add: launch_recheck_def Let_def builtin_def)
qed

definition launch_of_deploy :: "int \<Rightarrow> launch_facts" where
  "launch_of_deploy now = \<lparr>lf_environment = ''prod'', lf_git_ref = ''refs/heads/main'', lf_protection = approved_by_amy,
     lf_step = ''deploy'', lf_uses_authority = Some True,
     lf_approval_gates = [\<lparr>ug_gate = ''approve'', ug_released_at = Some 0, ug_met = Some ([''amy''], None)\<rparr>],
     lf_now_ms = now\<rparr>"

theorem launch_recheck_exact_witness:
  "lc_refusal (launch_recheck (launch_of_deploy 86400000)) = None
   \<and> lc_refusal (launch_recheck (launch_of_deploy 86400001)) \<noteq> None"
proof -
  note sample = launch_of_deploy_def approved_by_amy_def effective_protection_def permissive_def default_approval_gate_def
    DEFAULT_MAX_APPROVAL_AGE_S_def
  have ap: "ep_approvers (lf_protection (launch_of_deploy t)) \<noteq> []" for t by (simp add: sample)
  have sub: "saturating_sub 86400000 0 = 86400000" "saturating_sub 86400001 0 = 86400001"
    by (simp_all add: saturating_sub_def i64_min_def i64_max_def)
  show ?thesis
    using launch_recheck_exact [OF ap refl, of 86400000] launch_recheck_exact [OF ap refl, of 86400001]
    by (simp add: sample sub ref_allowed_def layer_allows_def approver_set_def)
qed

end
