(* ===== verification/Policy_Schema.thy ===== *)
theory Policy_Schema
  imports Policy
begin

text \<open>
  The typed input schema of a checkpoint (\<^verbatim>\<open>scarab-policy/src/schema.rs\<close>), the caps of an input, and the
  binding of an input as CEL variables (\<^verbatim>\<open>eval.rs\<close>). JSON and CEL values are the shapes of \<^verbatim>\<open>serde_json\<close>
  and \<^verbatim>\<open>cel\<close>; how a JSON value prints and how a timestamp parses are parameters (\<open>json_env\<close>). A struct
  or enum name that a schema does not declare makes the code panic; the schemas of the three
  checkpoints declare every name they use, which is proved below.
\<close>

section \<open>Types and schemas\<close>

datatype ty =
    TBool | TInt | TUint | TDouble | TString | TBytes | TNull | TTimestamp | TDuration
  | TEnum string | TList ty nat | TMap ty ty nat | TStruct string | TDyn

fun type_str :: "ty \<Rightarrow> string" where
  "type_str TBool = ''bool''"
| "type_str TInt = ''int''"
| "type_str TUint = ''uint''"
| "type_str TDouble = ''double''"
| "type_str TString = ''string''"
| "type_str TBytes = ''bytes''"
| "type_str TNull = ''null''"
| "type_str TTimestamp = ''timestamp''"
| "type_str TDuration = ''duration''"
| "type_str (TEnum name) = name @ '' (a string)''"
| "type_str (TList elem _) = ''list<'' @ type_str elem @ ''>''"
| "type_str (TMap key value _) = ''map<'' @ type_str key @ '', '' @ type_str value @ ''>''"
| "type_str (TStruct name) = name"
| "type_str TDyn = ''dyn''"

record field =
  fd_name :: string
  fd_ty :: ty
  fd_optional :: bool
  fd_max_len :: nat

definition MAX_STRING_LEN :: nat where "MAX_STRING_LEN = 1024"

definition MAX_FREE_TEXT_LEN :: nat where "MAX_FREE_TEXT_LEN = 4096"

record schema =
  sc_checkpoint :: string
  sc_version :: nat
  sc_variables :: "field list"
  sc_structs :: "(string \<times> field list) list"
  sc_enums :: "(string \<times> string list) list"

definition struct_fields :: "schema \<Rightarrow> string \<Rightarrow> field list" where
  "struct_fields sc name = (case map_of (sc_structs sc) name of Some fs \<Rightarrow> fs | None \<Rightarrow> [])"

definition enum_variants :: "schema \<Rightarrow> string \<Rightarrow> string list" where
  "enum_variants sc name = (case map_of (sc_enums sc) name of Some vs \<Rightarrow> vs | None \<Rightarrow> [])"

definition schema_variable :: "schema \<Rightarrow> string \<Rightarrow> field option" where
  "schema_variable sc name = List.find (\<lambda>f. fd_name f = name) (sc_variables sc)"

section \<open>JSON and CEL values\<close>

datatype json_num = PosInt nat | NegInt int | JFloat string

datatype json =
    JNull | JBool bool | JNumber json_num | JString string | JArray "json list"
  | JObject "(string \<times> json) list"

text \<open>A CEL timestamp is the instant, a float the JSON number it was read from.\<close>

datatype cel =
    CBool bool | CString string | CInt int | CUInt nat | CFloat json_num | CTimestamp int | CNull
  | CList "cel list" | CMap "(string \<times> cel) list"

record json_env =
  je_show :: "json \<Rightarrow> string"
  je_timestamp :: "string \<Rightarrow> string + int"

definition num_is_i64 :: "json_num \<Rightarrow> bool" where
  "num_is_i64 n = (case n of PosInt k \<Rightarrow> int k \<le> i64_max | NegInt _ \<Rightarrow> True | JFloat _ \<Rightarrow> False)"

definition num_int :: "json_num \<Rightarrow> int" where
  "num_int n = (case n of PosInt k \<Rightarrow> int k | NegInt i \<Rightarrow> i | JFloat _ \<Rightarrow> 0)"

section \<open>Caps\<close>

datatype over_cap = StringTooLong string nat nat | ListTooLong string nat nat

definition at_index :: "string \<Rightarrow> nat \<Rightarrow> string" where
  "at_index path i = path @ ''['' @ nat_str i @ '']''"

lemma size_map_of: "map_of obj x = Some v \<Longrightarrow> size v < size_list (size_prod (\<lambda>_. 0) size) obj"
proof (induction obj)
  case (Cons p obj)
  then show ?case by (cases p) (auto split: if_splits)
qed simp

function walk_value :: "schema \<Rightarrow> bool \<Rightarrow> ty \<Rightarrow> nat \<Rightarrow> json \<Rightarrow> string \<Rightarrow> over_cap + unit"
  and walk_items :: "schema \<Rightarrow> bool \<Rightarrow> ty \<Rightarrow> nat \<Rightarrow> nat \<Rightarrow> json list \<Rightarrow> string \<Rightarrow> over_cap + unit"
  and walk_fields :: "schema \<Rightarrow> bool \<Rightarrow> field list \<Rightarrow> (string \<times> json) list \<Rightarrow> string \<Rightarrow> over_cap + unit" where
  "walk_value sc capped ty max_len (JString s) path =
     (if length s > max_len then Inl (StringTooLong path (length s) max_len) else Inr ())"
| "walk_value sc capped ty max_len (JArray items) path =
     (case ty of
        TList elem cap \<Rightarrow>
          (if capped \<and> length items > cap then Inl (ListTooLong path (length items) cap)
           else walk_items sc capped elem max_len 0 items path)
      | _ \<Rightarrow> Inr ())"
| "walk_value sc capped ty max_len (JObject obj) path =
     (case ty of TStruct name \<Rightarrow> walk_fields sc capped (struct_fields sc name) obj path | _ \<Rightarrow> Inr ())"
| "walk_value sc capped ty max_len JNull path = Inr ()"
| "walk_value sc capped ty max_len (JBool b) path = Inr ()"
| "walk_value sc capped ty max_len (JNumber n) path = Inr ()"
| "walk_items sc capped elem max_len i [] path = Inr ()"
| "walk_items sc capped elem max_len i (v # vs) path =
     (case walk_value sc capped elem max_len v (at_index path i) of
        Inl e \<Rightarrow> Inl e | Inr _ \<Rightarrow> walk_items sc capped elem max_len (Suc i) vs path)"
| "walk_fields sc capped [] obj path = Inr ()"
| "walk_fields sc capped (f # fs) obj path =
     (case (case map_of obj (fd_name f) of
              None \<Rightarrow> Inr ()
            | Some v \<Rightarrow> walk_value sc capped (fd_ty f) (fd_max_len f) v (path @ ''.'' @ fd_name f)) of
        Inl e \<Rightarrow> Inl e | Inr _ \<Rightarrow> walk_fields sc capped fs obj path)"
  by pat_completeness auto

termination
  by (relation "measures
      [\<lambda>x. case x of Inl (sc, capped, ty, ml, v, path) \<Rightarrow> size v
         | Inr (Inl (sc, capped, ty, ml, i, vs, path)) \<Rightarrow> size_list size vs
         | Inr (Inr (sc, capped, fs, obj, path)) \<Rightarrow> size_list (size_prod (\<lambda>_. 0) size) obj,
       \<lambda>x. case x of Inl _ \<Rightarrow> 0 | Inr (Inl _) \<Rightarrow> 0 | Inr (Inr (sc, capped, fs, obj, path)) \<Rightarrow> Suc (length fs)]")
    (auto simp: size_map_of)

text \<open>\<^verbatim>\<open>walk_input\<close> and its two callers.\<close>

fun walk_input :: "schema \<Rightarrow> bool \<Rightarrow> field list \<Rightarrow> json \<Rightarrow> over_cap + unit" where
  "walk_input sc capped [] input = Inr ()"
| "walk_input sc capped (var # vars) input =
     (case (case input of
              JObject obj \<Rightarrow>
                (case map_of obj (fd_name var) of
                   None \<Rightarrow> Inr ()
                 | Some v \<Rightarrow> walk_value sc capped (fd_ty var) (fd_max_len var) v (fd_name var))
            | _ \<Rightarrow> Inr ()) of
        Inl e \<Rightarrow> Inl e | Inr _ \<Rightarrow> walk_input sc capped vars input)"

definition check_caps :: "schema \<Rightarrow> json \<Rightarrow> over_cap + unit" where
  "check_caps sc input = walk_input sc True (sc_variables sc) input"

definition check_string_lengths :: "schema \<Rightarrow> json \<Rightarrow> over_cap + unit" where
  "check_string_lengths sc input = walk_input sc False (sc_variables sc) input"

section \<open>Binding\<close>

definition too_long :: "nat \<Rightarrow> nat \<Rightarrow> string" where
  "too_long len max_len = '': '' @ nat_str len @ '' bytes, more than the '' @ nat_str max_len
     @ '' a Policy input string may hold''"

definition mismatch :: "json_env \<Rightarrow> ty \<Rightarrow> json \<Rightarrow> string" where
  "mismatch je ty v = '': expected '' @ type_str ty @ '', got '' @ je_show je v"

function to_value :: "json_env \<Rightarrow> schema \<Rightarrow> ty \<Rightarrow> nat \<Rightarrow> json \<Rightarrow> string + cel"
  and to_items :: "json_env \<Rightarrow> schema \<Rightarrow> ty \<Rightarrow> nat \<Rightarrow> nat \<Rightarrow> json list \<Rightarrow> string + cel list"
  and to_fields :: "json_env \<Rightarrow> schema \<Rightarrow> field list \<Rightarrow> (string \<times> json) list \<Rightarrow> string + (string \<times> cel) list" where
  "to_value je sc ty max_len (JString s) =
     (if length s > max_len then Inl (too_long (length s) max_len)
      else case ty of
          TString \<Rightarrow> Inr (CString s)
        | TTimestamp \<Rightarrow>
            (case je_timestamp je s of Inl e \<Rightarrow> Inl ('': '' @ e) | Inr t \<Rightarrow> Inr (CTimestamp t))
        | TEnum name \<Rightarrow>
            (if s \<in> set (enum_variants sc name) then Inr (CString s)
             else Inl ('': \"'' @ s @ ''\" is not a '' @ name))
        | _ \<Rightarrow> Inl (mismatch je ty (JString s)))"
| "to_value je sc ty max_len (JBool b) = (case ty of TBool \<Rightarrow> Inr (CBool b) | _ \<Rightarrow> Inl (mismatch je ty (JBool b)))"
| "to_value je sc ty max_len (JNumber n) =
     (case ty of
        TInt \<Rightarrow> if num_is_i64 n then Inr (CInt (num_int n)) else Inl (mismatch je ty (JNumber n))
      | TUint \<Rightarrow> (case n of PosInt k \<Rightarrow> Inr (CUInt k) | _ \<Rightarrow> Inl (mismatch je ty (JNumber n)))
      | TDouble \<Rightarrow> Inr (CFloat n)
      | _ \<Rightarrow> Inl (mismatch je ty (JNumber n)))"
| "to_value je sc ty max_len (JArray items) =
     (case ty of
        TList elem cap \<Rightarrow>
          (if length items > cap
           then Inl ('': '' @ nat_str (length items) @ '' items, above the cap of '' @ nat_str cap)
           else case to_items je sc elem max_len 0 items of Inl e \<Rightarrow> Inl e | Inr vs \<Rightarrow> Inr (CList vs))
      | _ \<Rightarrow> Inl (mismatch je ty (JArray items)))"
| "to_value je sc ty max_len (JObject obj) =
     (case ty of
        TStruct name \<Rightarrow>
          (case to_fields je sc (struct_fields sc name) obj of Inl e \<Rightarrow> Inl e | Inr m \<Rightarrow> Inr (CMap m))
      | _ \<Rightarrow> Inl (mismatch je ty (JObject obj)))"
| "to_value je sc ty max_len JNull = Inl (mismatch je ty JNull)"
| "to_items je sc elem max_len i [] = Inr []"
| "to_items je sc elem max_len i (v # vs) =
     (case to_value je sc elem max_len v of
        Inl e \<Rightarrow> Inl (at_index [] i @ e)
      | Inr w \<Rightarrow> (case to_items je sc elem max_len (Suc i) vs of Inl e \<Rightarrow> Inl e | Inr ws \<Rightarrow> Inr (w # ws)))"
| "to_fields je sc [] obj = Inr []"
| "to_fields je sc (f # fs) obj =
     (case map_of obj (fd_name f) of
        None \<Rightarrow>
          (if fd_optional f then to_fields je sc fs obj else Inl (''.'' @ fd_name f @ '': required''))
      | Some v \<Rightarrow>
          (if v = JNull then
             (if fd_optional f then to_fields je sc fs obj else Inl (''.'' @ fd_name f @ '': required''))
           else
             (case to_value je sc (fd_ty f) (fd_max_len f) v of
                Inl e \<Rightarrow> Inl (''.'' @ fd_name f @ e)
              | Inr w \<Rightarrow>
                  (case to_fields je sc fs obj of Inl e \<Rightarrow> Inl e | Inr m \<Rightarrow> Inr (al_put (fd_name f) w m)))))"
  by pat_completeness auto

termination
  by (relation "measures
      [\<lambda>x. case x of Inl (je, sc, ty, ml, v) \<Rightarrow> size v
         | Inr (Inl (je, sc, ty, ml, i, vs)) \<Rightarrow> size_list size vs
         | Inr (Inr (je, sc, fs, obj)) \<Rightarrow> size_list (size_prod (\<lambda>_. 0) size) obj,
       \<lambda>x. case x of Inl _ \<Rightarrow> 0 | Inr (Inl _) \<Rightarrow> 0 | Inr (Inr (je, sc, fs, obj)) \<Rightarrow> Suc (length fs)]")
    (auto simp: size_map_of)

fun bind_vars :: "json_env \<Rightarrow> schema \<Rightarrow> field list \<Rightarrow> (string \<times> json) list \<Rightarrow> string + (string \<times> cel) list" where
  "bind_vars je sc [] obj = Inr []"
| "bind_vars je sc (var # vars) obj =
     (case (case map_of obj (fd_name var) of
              None \<Rightarrow> if fd_optional var then Inr CNull else Inl (quoted (fd_name var) @ '' is required'')
            | Some v \<Rightarrow>
                (if v = JNull then
                   (if fd_optional var then Inr CNull else Inl (quoted (fd_name var) @ '' is required''))
                 else
                   (case to_value je sc (fd_ty var) (fd_max_len var) v of
                      Inl e \<Rightarrow> Inl (fd_name var @ e) | Inr w \<Rightarrow> Inr w))) of
        Inl e \<Rightarrow> Inl e
      | Inr w \<Rightarrow>
          (case bind_vars je sc vars obj of Inl e \<Rightarrow> Inl e | Inr ctx \<Rightarrow> Inr (al_put (fd_name var) w ctx)))"

definition bind_input :: "json_env \<Rightarrow> schema \<Rightarrow> json \<Rightarrow> string + (string \<times> cel) list" where
  "bind_input je sc input =
     (case input of
        JObject obj \<Rightarrow> bind_vars je sc (sc_variables sc) obj
      | _ \<Rightarrow> Inl ''the input is not a struct'')"

section \<open>The checkpoints' schemas\<close>

definition MAX_STEPS :: nat where "MAX_STEPS = 512"

definition MAX_GATES :: nat where "MAX_GATES = 32"

definition MAX_ORIGIN :: nat where "MAX_ORIGIN = 8"

definition MAX_UPSTREAM_GATES :: nat where "MAX_UPSTREAM_GATES = MAX_GATES"

definition MAX_GRANTS :: nat where "MAX_GRANTS = 16"

definition MAX_SECRETS :: nat where "MAX_SECRETS = 32"

definition MAX_PLACEMENT_PROFILES :: nat where "MAX_PLACEMENT_PROFILES = 8"

definition MAX_APPROVALS :: nat where "MAX_APPROVALS = 64"

definition MAX_APPROVERS :: nat where "MAX_APPROVERS = 64"

text \<open>A field as the macro writes it: required, optional, and a field of free text.\<close>

definition fld :: "string \<Rightarrow> ty \<Rightarrow> field" where
  "fld name ty = \<lparr>fd_name = name, fd_ty = ty, fd_optional = False, fd_max_len = MAX_STRING_LEN\<rparr>"

definition opt :: "string \<Rightarrow> ty \<Rightarrow> field" where
  "opt name ty = \<lparr>fd_name = name, fd_ty = ty, fd_optional = True, fd_max_len = MAX_STRING_LEN\<rparr>"

definition opt_text :: "string \<Rightarrow> field" where
  "opt_text name = \<lparr>fd_name = name, fd_ty = TString, fd_optional = True, fd_max_len = MAX_FREE_TEXT_LEN\<rparr>"

definition trigger_kinds :: "string \<times> string list" where
  "trigger_kinds = (''TriggerKind'', [''push'', ''pull_request'', ''tag'', ''release'', ''comment'', ''cron'',
     ''manual'', ''api'', ''upstream''])"

definition origin_kinds :: "string \<times> string list" where
  "origin_kinds = (''OriginKind'', [''file'', ''library'', ''plugin'', ''environment''])"

definition gate_kinds :: "string \<times> string list" where
  "gate_kinds = (''GateKind'', [''manual'', ''timer'', ''external'', ''plugin''])"

definition forge_tokens :: "string \<times> string list" where
  "forge_tokens = (''ForgeToken'', [''read'', ''write''])"

definition verdicts :: "string \<times> string list" where
  "verdicts = (''Verdict'', [''release''])"

definition org_struct :: "string \<times> field list" where
  "org_struct = (''Org'', [fld ''name'' TString])"

definition project_struct :: "string \<times> field list" where
  "project_struct = (''Project'', [fld ''name'' TString])"

definition trigger_struct :: "string \<times> field list" where
  "trigger_struct = (''Trigger'', [fld ''kind'' (TEnum ''TriggerKind''), opt ''ref'' TString, opt ''sha'' TString,
     fld ''fork'' TBool, opt ''actor'' TString, opt ''principal'' TString, opt_text ''reason''])"

definition pipeline_struct :: "string \<times> field list" where
  "pipeline_struct = (''Pipeline'', [fld ''name'' TString, opt ''environment'' TString, fld ''deploy'' TBool])"

definition origin_struct :: "string \<times> field list" where
  "origin_struct = (''Origin'', [fld ''kind'' (TEnum ''OriginKind''), fld ''name'' TString, opt ''source'' TString,
     fld ''content_hash'' TString])"

definition upstream_gate_struct :: "string \<times> field list" where
  "upstream_gate_struct = (''UpstreamGate'', [fld ''id'' TString, fld ''kind'' (TEnum ''GateKind'')])"

definition step_struct :: "string \<times> field list" where
  "step_struct = (''Step'', [fld ''id'' TString, fld ''image'' TString, opt ''digest'' TString,
     fld ''grants'' (TList TString MAX_GRANTS), fld ''k8s_overlay'' TBool, fld ''secrets'' (TList TString MAX_SECRETS),
     fld ''placement_profiles'' (TList TString MAX_PLACEMENT_PROFILES), fld ''deploy'' TBool,
     opt ''forge_token'' (TEnum ''ForgeToken''), fld ''uses_environment_authority'' TBool,
     fld ''origin'' (TList (TStruct ''Origin'') MAX_ORIGIN),
     fld ''upstream_gates'' (TList (TStruct ''UpstreamGate'') MAX_UPSTREAM_GATES)])"

definition gate_struct :: "string \<times> field list" where
  "gate_struct = (''Gate'', [fld ''id'' TString, fld ''kind'' (TEnum ''GateKind''),
     fld ''origin'' (TList (TStruct ''Origin'') MAX_ORIGIN), fld ''dependents'' (TList TString MAX_STEPS)])"

definition run_create_fields :: "field list" where
  "run_create_fields = [fld ''org'' (TStruct ''Org''), fld ''project'' (TStruct ''Project''),
     fld ''trigger'' (TStruct ''Trigger''), fld ''pipeline'' (TStruct ''Pipeline''),
     fld ''steps'' (TList (TStruct ''Step'') MAX_STEPS), fld ''gates'' (TList (TStruct ''Gate'') MAX_GATES),
     opt ''principal'' TString, fld ''time'' TTimestamp]"

definition run_create_schema :: schema where
  "run_create_schema = \<lparr>sc_checkpoint = ''run.create'', sc_version = 1, sc_variables = run_create_fields,
     sc_structs = [org_struct, project_struct, trigger_struct, pipeline_struct, origin_struct, upstream_gate_struct,
       step_struct, gate_struct, (''RunCreateInput'', run_create_fields)],
     sc_enums = [trigger_kinds, origin_kinds, gate_kinds, forge_tokens]\<rparr>"

definition gate_under_resolve_struct :: "string \<times> field list" where
  "gate_under_resolve_struct = (''GateUnderResolve'', [fld ''id'' TString, fld ''kind'' (TEnum ''GateKind''),
     fld ''origin'' (TList (TStruct ''Origin'') MAX_ORIGIN), fld ''environment_approval_gate'' TBool,
     fld ''dependents'' (TList TString MAX_STEPS)])"

definition actor_struct :: "string \<times> field list" where
  "actor_struct = (''Actor'', [fld ''principal'' TString])"

definition gate_run_struct :: "string \<times> field list" where
  "gate_run_struct = (''GateRun'', [fld ''id'' TString, opt ''ref'' TString, opt ''environment'' TString])"

definition gate_resolve_fields :: "field list" where
  "gate_resolve_fields = [fld ''org'' (TStruct ''Org''), fld ''project'' (TStruct ''Project''),
     fld ''gate'' (TStruct ''GateUnderResolve''), fld ''verdict'' (TEnum ''Verdict''), fld ''actor'' (TStruct ''Actor''),
     fld ''approvals'' (TList TString MAX_APPROVALS), fld ''run'' (TStruct ''GateRun''), fld ''time'' TTimestamp]"

definition gate_resolve_schema :: schema where
  "gate_resolve_schema = \<lparr>sc_checkpoint = ''gate.resolve'', sc_version = 1, sc_variables = gate_resolve_fields,
     sc_structs = [org_struct, project_struct, origin_struct, gate_under_resolve_struct, actor_struct, gate_run_struct,
       (''GateResolveInput'', gate_resolve_fields)],
     sc_enums = [gate_kinds, origin_kinds, verdicts]\<rparr>"

definition admitted_step_struct :: "string \<times> field list" where
  "admitted_step_struct = (''AdmittedStep'', [fld ''id'' TString, fld ''image'' TString, fld ''deploy'' TBool,
     fld ''secrets'' (TList TString MAX_SECRETS), opt ''forge_token'' (TEnum ''ForgeToken''),
     fld ''uses_environment_authority'' TBool, fld ''origin'' (TList (TStruct ''Origin'') MAX_ORIGIN)])"

definition admitted_run_struct :: "string \<times> field list" where
  "admitted_run_struct = (''AdmittedRun'', [fld ''id'' TString, opt ''ref'' TString, opt ''environment'' TString])"

definition environment_now_struct :: "string \<times> field list" where
  "environment_now_struct = (''EnvironmentNow'', [fld ''has_approvers'' TBool, fld ''ref_allowed'' TBool,
     fld ''max_approval_age_s'' TUint])"

definition upstream_approval_struct :: "string \<times> field list" where
  "upstream_approval_struct = (''UpstreamApproval'', [fld ''gate'' TString, opt ''released_at'' TTimestamp,
     fld ''approvers'' (TList TString MAX_APPROVERS), opt ''required'' TUint])"

definition step_admit_fields :: "field list" where
  "step_admit_fields = [fld ''org'' (TStruct ''Org''), fld ''project'' (TStruct ''Project''),
     fld ''step'' (TStruct ''AdmittedStep''), fld ''attempt'' TUint, fld ''run'' (TStruct ''AdmittedRun''),
     opt ''environment'' (TStruct ''EnvironmentNow''),
     fld ''approvals'' (TList (TStruct ''UpstreamApproval'') MAX_GATES), fld ''time'' TTimestamp]"

definition step_admit_schema :: schema where
  "step_admit_schema = \<lparr>sc_checkpoint = ''step.admit'', sc_version = 1, sc_variables = step_admit_fields,
     sc_structs = [org_struct, project_struct, origin_struct, admitted_step_struct, admitted_run_struct,
       environment_now_struct, upstream_approval_struct, (''StepAdmitInput'', step_admit_fields)],
     sc_enums = [forge_tokens, origin_kinds]\<rparr>"

definition schema_for :: "checkpoint \<Rightarrow> nat \<Rightarrow> schema option" where
  "schema_for c version =
     (if version \<noteq> 1 then None
      else case c of RunCreate \<Rightarrow> Some run_create_schema | GateResolve \<Rightarrow> Some gate_resolve_schema
        | StepAdmit \<Rightarrow> Some step_admit_schema)"

definition schema_version :: "checkpoint \<Rightarrow> nat option" where
  "schema_version c = Some 1"

section \<open>What binding gives\<close>

fun declared :: "schema \<Rightarrow> ty \<Rightarrow> bool" where
  "declared sc (TEnum name) = (map_of (sc_enums sc) name \<noteq> None)"
| "declared sc (TStruct name) = (map_of (sc_structs sc) name \<noteq> None)"
| "declared sc (TList elem _) = declared sc elem"
| "declared sc (TMap key value _) = (declared sc key \<and> declared sc value)"
| "declared sc _ = True"

definition closed_schema :: "schema \<Rightarrow> bool" where
  "closed_schema sc =
     (list_all (\<lambda>f. declared sc (fd_ty f)) (sc_variables sc)
      \<and> list_all (\<lambda>(_, fs). list_all (\<lambda>f. declared sc (fd_ty f)) fs) (sc_structs sc)
      \<and> distinct (map fd_name (sc_variables sc)) \<and> list_all (\<lambda>(_, fs). distinct (map fd_name fs)) (sc_structs sc))"

lemmas schema_defs = fld_def opt_def opt_text_def trigger_kinds_def origin_kinds_def gate_kinds_def forge_tokens_def
  verdicts_def org_struct_def project_struct_def trigger_struct_def pipeline_struct_def origin_struct_def
  upstream_gate_struct_def step_struct_def gate_struct_def run_create_fields_def run_create_schema_def
  gate_under_resolve_struct_def actor_struct_def gate_run_struct_def gate_resolve_fields_def gate_resolve_schema_def
  admitted_step_struct_def admitted_run_struct_def environment_now_struct_def upstream_approval_struct_def
  step_admit_fields_def step_admit_schema_def

lemma schemas_closed: "schema_for c version = Some sc \<Longrightarrow> closed_schema sc"
  by (cases c) (auto simp: schema_for_def closed_schema_def schema_defs split: if_splits)

text \<open>A CEL value has a type: every field of a struct that is present has the type its declaration gives,
  every required field is present, no list is over its cap and no string over its field's length.\<close>

fun has_type :: "schema \<Rightarrow> ty \<Rightarrow> nat \<Rightarrow> cel \<Rightarrow> bool" where
  "has_type sc ty max_len (CBool b) = (ty = TBool)"
| "has_type sc ty max_len (CString s) =
     (length s \<le> max_len \<and> (case ty of TString \<Rightarrow> True | TEnum name \<Rightarrow> s \<in> set (enum_variants sc name) | _ \<Rightarrow> False))"
| "has_type sc ty max_len (CInt i) = (ty = TInt)"
| "has_type sc ty max_len (CUInt n) = (ty = TUint)"
| "has_type sc ty max_len (CFloat n) = (ty = TDouble)"
| "has_type sc ty max_len (CTimestamp t) = (ty = TTimestamp)"
| "has_type sc ty max_len CNull = False"
| "has_type sc ty max_len (CList vs) =
     (case ty of TList elem cap \<Rightarrow> length vs \<le> cap \<and> list_all (\<lambda>v. has_type sc elem max_len v) vs | _ \<Rightarrow> False)"
| "has_type sc ty max_len (CMap m) =
     (case ty of
        TStruct name \<Rightarrow>
          list_all (\<lambda>(k, v). list_ex (\<lambda>f. fd_name f = k \<and> has_type sc (fd_ty f) (fd_max_len f) v)
                      (struct_fields sc name)) m
          \<and> list_all (\<lambda>f. fd_optional f \<or> fd_name f \<in> fst ` set m) (struct_fields sc name)
      | _ \<Rightarrow> False)"

lemma set_al_put: "set (al_put k v m) \<subseteq> insert (k, v) (set m)"
  by (induction k v m rule: al_put.induct) auto

text \<open>The fields of a bound struct are typed by the declarations they came from.\<close>

abbreviation typed_by :: "schema \<Rightarrow> field list \<Rightarrow> string \<times> cel \<Rightarrow> bool" where
  "typed_by sc fs kv \<equiv> list_ex (\<lambda>f. fd_name f = fst kv \<and> has_type sc (fd_ty f) (fd_max_len f) (snd kv)) fs"

lemma binding_typed_values:
  "to_value je sc ty max_len v = Inr w \<Longrightarrow> has_type sc ty max_len w"
  "to_items je sc elem max_len i vs = Inr ws \<Longrightarrow> length ws = length vs \<and> list_all (has_type sc elem max_len) ws"
  "to_fields je sc fs obj = Inr m \<Longrightarrow>
     list_all (typed_by sc fs) m \<and> list_all (\<lambda>f. fd_optional f \<or> fd_name f \<in> fst ` set m) fs"
proof (induction je sc ty max_len v and je sc elem max_len i vs and je sc fs obj
    arbitrary: w and ws and m rule: to_value_to_items_to_fields.induct)
  case (10 je sc f fs obj)
  show ?case
  proof (cases "map_of obj (fd_name f)")
    case None
    then show ?thesis
      using 10 by (fastforce simp: list_all_iff list_ex_iff split: if_splits)
  next
    case (Some v)
    show ?thesis
    proof (cases "v = JNull")
      case True
      then show ?thesis
        using 10 Some by (fastforce simp: list_all_iff list_ex_iff split: if_splits)
    next
      case False
      then obtain u m' where u: "to_value je sc (fd_ty f) (fd_max_len f) v = Inr u"
        and m': "to_fields je sc fs obj = Inr m'" "m = al_put (fd_name f) u m'"
        using 10(5) Some by (auto split: sum.splits)
      have "has_type sc (fd_ty f) (fd_max_len f) u" by (rule 10(3)[OF Some False u])
      moreover have "list_all (typed_by sc fs) m' \<and> list_all (\<lambda>f. fd_optional f \<or> fd_name f \<in> fst ` set m') fs"
        by (rule 10(4)[OF Some False u m'(1)])
      ultimately show ?thesis
        using set_al_put[of "fd_name f" u m'] by (fastforce simp: m'(2) list_all_iff list_ex_iff)
    qed
  qed
qed (auto split: ty.splits sum.splits if_splits json_num.splits simp: case_prod_unfold)

lemma bind_vars_ConsE:
  assumes "bind_vars je sc (var # vars) obj = Inr ctx"
  obtains w ctx' where "bind_vars je sc vars obj = Inr ctx'" "ctx = al_put (fd_name var) w ctx'"
    "map_of obj (fd_name var) = None \<and> fd_optional var \<and> w = CNull
     \<or> map_of obj (fd_name var) = Some JNull \<and> fd_optional var \<and> w = CNull
     \<or> (\<exists>v. map_of obj (fd_name var) = Some v \<and> to_value je sc (fd_ty var) (fd_max_len var) v = Inr w)"
proof (cases "map_of obj (fd_name var)")
  case None
  then show ?thesis using assms by (auto split: sum.splits if_splits intro: that)
next
  case (Some v)
  show ?thesis
  proof (cases "v = JNull")
    case True
    then show ?thesis using assms Some by (auto split: sum.splits if_splits intro: that)
  next
    case False
    then obtain w where w: "to_value je sc (fd_ty var) (fd_max_len var) v = Inr w"
      using assms Some by (cases "to_value je sc (fd_ty var) (fd_max_len var) v") simp_all
    then show ?thesis using assms Some False by (auto split: sum.splits intro: that)
  qed
qed

lemma bind_vars_typed:
  "bind_vars je sc vars obj = Inr ctx \<Longrightarrow>
     fst ` set ctx = fd_name ` set vars
     \<and> (\<forall>(k, w) \<in> set ctx. \<exists>f \<in> set vars. fd_name f = k
          \<and> (has_type sc (fd_ty f) (fd_max_len f) w \<or> fd_optional f \<and> w = CNull))"
proof (induction vars arbitrary: ctx)
  case (Cons var vars)
  from Cons.prems obtain w ctx' where rest: "bind_vars je sc vars obj = Inr ctx'"
    and ctx: "ctx = al_put (fd_name var) w ctx'"
    and w: "has_type sc (fd_ty var) (fd_max_len var) w \<or> fd_optional var \<and> w = CNull"
    by (rule bind_vars_ConsE) (blast dest: binding_typed_values(1))
  have "set ctx \<subseteq> insert (fd_name var, w) (set ctx')"
    by (simp add: ctx set_al_put)
  then show ?case
    using Cons.IH[OF rest] w by (auto simp: ctx dest!: subsetD)
qed simp

text \<open>A value that binds is within every cap that \<open>check_caps\<close> walks: binding is the stricter of the two.\<close>

lemma binding_capped_values:
  "to_value je sc ty max_len v = Inr w \<Longrightarrow> walk_value sc capped ty max_len v path = Inr ()"
  "to_items je sc elem max_len i vs = Inr ws \<Longrightarrow> walk_items sc capped elem max_len j vs path = Inr ()"
  "to_fields je sc fs obj = Inr m \<Longrightarrow> walk_fields sc capped fs obj path = Inr ()"
proof (induction je sc ty max_len v and je sc elem max_len i vs and je sc fs obj
    arbitrary: w path and ws j path and m path rule: to_value_to_items_to_fields.induct)
  case (10 je sc f fs obj)
  then show ?case
    by (auto split: option.splits sum.splits if_splits)
qed (auto split: ty.splits sum.splits if_splits)

lemma bind_vars_capped: "bind_vars je sc vars obj = Inr ctx \<Longrightarrow> walk_input sc capped vars (JObject obj) = Inr ()"
proof (induction vars arbitrary: ctx)
  case (Cons var vars)
  from Cons.prems show ?case
    by (rule bind_vars_ConsE) (auto simp: Cons.IH binding_capped_values(1))
qed simp

text \<open>An input that binds gives CEL exactly the variables of the schema, each a value of the type its
  declaration names (or null, for an optional variable that is absent): enum values among the declared
  variants, every struct with its required fields and no other than declared ones, every list within its
  cap and every string within its field's length. Such an input also passes the caps that are checked
  before it is stored.\<close>
theorem binding_typed:
  assumes "bind_input je sc input = Inr ctx"
  shows "fst ` set ctx = fd_name ` set (sc_variables sc)
     \<and> (\<forall>(k, w) \<in> set ctx. \<exists>f \<in> set (sc_variables sc). fd_name f = k
          \<and> (has_type sc (fd_ty f) (fd_max_len f) w \<or> fd_optional f \<and> w = CNull))
     \<and> check_caps sc input = Inr () \<and> check_string_lengths sc input = Inr ()"
proof -
  obtain obj where obj: "input = JObject obj" "bind_vars je sc (sc_variables sc) obj = Inr ctx"
    using assms by (auto simp: bind_input_def split: json.splits)
  have "check_caps sc input = Inr ()" "check_string_lengths sc input = Inr ()"
    using bind_vars_capped[OF obj(2)] by (simp_all add: obj(1) check_caps_def check_string_lengths_def)
  then show ?thesis using bind_vars_typed[OF obj(2)] by blast
qed

text \<open>A consultation of \<^verbatim>\<open>gate.resolve\<close>.\<close>

definition sample_gate_resolve :: json where
  "sample_gate_resolve = JObject
     [(''org'', JObject [(''name'', JString ''o'')]), (''project'', JObject [(''name'', JString ''p'')]),
      (''gate'', JObject [(''id'', JString ''g''), (''kind'', JString ''manual''), (''origin'', JArray []),
         (''environment_approval_gate'', JBool True), (''dependents'', JArray [JString ''d''])]),
      (''verdict'', JString ''release''), (''actor'', JObject [(''principal'', JString ''u'')]),
      (''approvals'', JArray [JString ''u'']), (''run'', JObject [(''id'', JString ''r''), (''ref'', JNull)]),
      (''time'', JString ''t'')]"

definition sample_json_env :: json_env where
  "sample_json_env = \<lparr>je_show = \<lambda>_. ''...'', je_timestamp = \<lambda>_. Inr 0\<rparr>"

theorem binding_typed_witness:
  "\<exists>ctx. bind_input sample_json_env gate_resolve_schema sample_gate_resolve = Inr ctx
     \<and> check_caps gate_resolve_schema sample_gate_resolve = Inr ()"
proof -
  have "\<exists>ctx. bind_input sample_json_env gate_resolve_schema sample_gate_resolve = Inr ctx"
    by (simp add: bind_input_def sample_gate_resolve_def sample_json_env_def schema_defs struct_fields_def
        enum_variants_def MAX_STRING_LEN_def MAX_STEPS_def MAX_ORIGIN_def MAX_APPROVALS_def)
  then show ?thesis using binding_typed by blast
qed

end
