(* ===== verification/Cel_Text.thy ===== *)
theory Cel_Text
  imports Policy_Schema
begin

text \<open>
  CEL rules as text and as syntax. The syntax is the tree the \<^verbatim>\<open>cel\<close> crate parses, macros expanded; the
  names of its operators are the constructors of \<open>op\<close>, any other function is named. This theory holds
  the bracket pre-check (\<^verbatim>\<open>scarab-pipeline/src/cel.rs\<close>), and the findings of the checker of
  \<^verbatim>\<open>scarab-policy/src/check.rs\<close>: rendering, positions, suggestions. A character of a text is a group of
  bytes: a leading byte and the continuation bytes after it. How Rust prints a string, bytes or a
  double for debugging is a parameter.
\<close>

section \<open>Characters\<close>

definition is_continuation :: "char \<Rightarrow> bool" where
  "is_continuation c = (let n = (of_char c :: nat) in 128 \<le> n \<and> n < 192)"

function utf8_chars :: "string \<Rightarrow> string list" where
  "utf8_chars [] = []"
| "utf8_chars (c # cs) = (c # takeWhile is_continuation cs) # utf8_chars (dropWhile is_continuation cs)"
  by pat_completeness auto

termination utf8_chars
  by (relation "measure length") (auto simp: le_imp_less_Suc length_dropWhile_le)

definition is_ascii_alphanumeric :: "char \<Rightarrow> bool" where
  "is_ascii_alphanumeric c =
     (let n = (of_char c :: nat) in 48 \<le> n \<and> n \<le> 57 \<or> 65 \<le> n \<and> n \<le> 90 \<or> 97 \<le> n \<and> n \<le> 122)"

section \<open>Bracket nesting\<close>

text \<open>\<^verbatim>\<open>b.get(i)\<close>.\<close>

definition byte_at :: "string \<Rightarrow> nat \<Rightarrow> char option" where
  "byte_at b i = (if i < length b then Some (b ! i) else None)"

definition open_brackets :: "char list" where "open_brackets = ''([{''"

definition close_brackets :: "char list" where "close_brackets = '')]}''"

text \<open>The start of the prefix letters before the quote, at most two.\<close>

fun prefix_start :: "string \<Rightarrow> nat \<Rightarrow> nat \<Rightarrow> nat" where
  "prefix_start b opened 0 = 0"
| "prefix_start b opened (Suc p) =
     (if opened - Suc p < 2 \<and> b ! p \<in> set ''rRbB'' then prefix_start b opened p else Suc p)"

definition is_raw :: "string \<Rightarrow> nat \<Rightarrow> bool" where
  "is_raw b opened =
     (let p = prefix_start b opened opened;
          prefix_ok = (p = 0 \<or> \<not> (is_ascii_alphanumeric (b ! (p - 1)) \<or> b ! (p - 1) = CHR ''_''))
      in prefix_ok \<and> list_ex (\<lambda>c. c \<in> set ''rR'') (take (opened - p) (drop p b)))"

function literal_end :: "string \<Rightarrow> char \<Rightarrow> bool \<Rightarrow> bool \<Rightarrow> nat \<Rightarrow> nat" where
  "literal_end b q raw triple i =
     (if i < length b then
        (let c = b ! i in
         if c = CHR 0x5C \<and> \<not> raw then literal_end b q raw triple (i + 2)
         else if c = q \<and> (\<not> triple \<or> byte_at b (i + 1) = Some q \<and> byte_at b (i + 2) = Some q)
         then i + (if triple then 3 else 1)
         else if \<not> triple \<and> (c = CHR 0x0A \<or> c = CHR 0x0D) then i
         else literal_end b q raw triple (i + 1))
      else length b)"
  by pat_completeness auto

termination literal_end
  by (relation "measure (\<lambda>(b, q, raw, triple, i). length b - i)") auto

declare literal_end.simps [simp del]

definition skip_string :: "string \<Rightarrow> nat \<Rightarrow> char \<Rightarrow> nat" where
  "skip_string b opened q =
     (let triple = (byte_at b (opened + 1) = Some q \<and> byte_at b (opened + 2) = Some q)
      in literal_end b q (is_raw b opened) triple (opened + (if triple then 3 else 1)))"

lemma literal_end_ge: "i \<le> length b \<Longrightarrow> i \<le> literal_end b q raw triple i"
proof (induction b q raw triple i rule: literal_end.induct)
  case (1 b q raw triple i)
  show ?case
  proof (cases "i < length b \<and> b ! i = CHR 0x5C \<and> \<not> raw \<and> length b < i + 2")
    case True
    then have "literal_end b q raw triple (i + 2) = length b" by (subst literal_end.simps) simp
    then show ?thesis using True "1.prems" by (subst literal_end.simps) simp
  next
    case False
    then show ?thesis using "1.IH" "1.prems"
      by (subst literal_end.simps) (auto simp: Let_def)
  qed
qed

lemma skip_string_gt:
  assumes "opened < length b"
  shows "opened < skip_string b opened q"
proof -
  define triple where "triple = (byte_at b (opened + 1) = Some q \<and> byte_at b (opened + 2) = Some q)"
  define start where "start = opened + (if triple then 3 else 1)"
  have "start \<le> length b"
    using assms by (auto simp: start_def triple_def byte_at_def split: if_splits)
  then have "start \<le> skip_string b opened q"
    unfolding skip_string_def Let_def triple_def [symmetric] start_def [symmetric] by (rule literal_end_ge)
  then show ?thesis by (simp add: start_def split: if_splits)
qed

text \<open>Past the comment that starts here.\<close>

fun comment_end :: "string \<Rightarrow> nat" where
  "comment_end rest = length (takeWhile (\<lambda>c. c \<noteq> CHR 0x0A) rest)"

function nesting :: "string \<Rightarrow> nat \<Rightarrow> nat \<Rightarrow> nat \<Rightarrow> nat" where
  "nesting b i depth deepest =
     (if i < length b then
        (let c = b ! i in
         if c \<in> set open_brackets then nesting b (i + 1) (depth + 1) (max deepest (depth + 1))
         else if c \<in> set close_brackets then nesting b (i + 1) (depth - 1) deepest
         else if c = CHR ''/'' \<and> byte_at b (i + 1) = Some (CHR ''/'')
         then nesting b (i + comment_end (drop i b)) depth deepest
         else if c = CHR 0x27 \<or> c = CHR 0x22 then nesting b (skip_string b i c) depth deepest
         else nesting b (i + 1) depth deepest)
      else deepest)"
  by pat_completeness auto

lemma comment_end_pos: "i < length b \<Longrightarrow> b ! i = CHR ''/'' \<Longrightarrow> 0 < comment_end (drop i b)"
  by (simp add: Cons_nth_drop_Suc [symmetric])

termination nesting
proof (relation "measure (\<lambda>(b, i, depth, deepest). length b - i)", goal_cases)
  case (4 b i depth deepest c)
  then have "0 < comment_end (drop i b)" by (intro comment_end_pos) auto
  then show ?case using 4(1) by (simp del: comment_end.simps)
next
  case (5 b i depth deepest c)
  then show ?case using skip_string_gt [of i b c] by simp
qed auto

declare nesting.simps [simp del]

definition max_nesting :: "string \<Rightarrow> nat" where
  "max_nesting b = nesting b 0 0 0"

section \<open>Syntax\<close>

datatype op =
    LogicalAnd | LogicalOr | LogicalNot | Conditional | Equals | NotEquals | OpLess | LessEquals | OpGreater
  | GreaterEquals | OpIn | OpAdd | Substract | Negate | Multiply | OpDivide | Modulo | OpIndex | OptIndex | OptSelect

datatype func = Op op | Fn string

datatype lit = LBool bool | LBytes string | LDouble string | LInt int | LNull | LString string | LUInt nat

datatype expr =
    ELiteral nat lit
  | EIdent nat string
  | ESelect nat expr string bool
  | ECall nat func "expr option" "expr list"
  | EComp nat expr string "string option" expr expr expr expr
  | EList nat "expr list" "nat list"
  | EMap nat "entry list"
  | EStruct nat string "entry list"
  | EUnspecified nat
and entry = MapEntry expr expr bool | StructField string expr bool

definition expr_id :: "expr \<Rightarrow> nat" where
  "expr_id e = (case e of ELiteral i _ \<Rightarrow> i | EIdent i _ \<Rightarrow> i | ESelect i _ _ _ \<Rightarrow> i | ECall i _ _ _ \<Rightarrow> i
     | EComp i _ _ _ _ _ _ _ \<Rightarrow> i | EList i _ _ \<Rightarrow> i | EMap i _ \<Rightarrow> i | EStruct i _ _ \<Rightarrow> i | EUnspecified i \<Rightarrow> i)"

text \<open>The parts of a comprehension, in the order of \<^verbatim>\<open>ComprehensionExpr\<close>: range, variable, second variable,
  the accumulator's start, the loop condition, the loop step and the result.\<close>

datatype macro_kind = MExists | MAll | MExistsOne | MMapOrFilter

definition macro_of :: "expr \<Rightarrow> macro_kind option" where
  "macro_of accu_init =
     (case accu_init of
        ELiteral _ (LBool b) \<Rightarrow> Some (if b then MAll else MExists)
      | ELiteral _ (LInt _) \<Rightarrow> Some MExistsOne
      | EList _ _ _ \<Rightarrow> Some MMapOrFilter
      | _ \<Rightarrow> None)"

definition macro_name :: "macro_kind \<Rightarrow> string" where
  "macro_name k = (case k of MExists \<Rightarrow> ''exists'' | MAll \<Rightarrow> ''all'' | MExistsOne \<Rightarrow> ''exists_one'' | MMapOrFilter \<Rightarrow> ''map/filter'')"

definition macro_predicate :: "macro_kind \<Rightarrow> expr \<Rightarrow> expr option" where
  "macro_predicate k loop_step =
     (case loop_step of
        ECall _ f _ args \<Rightarrow>
          (if k = MExists \<and> f = Op LogicalOr \<or> k = MAll \<and> f = Op LogicalAnd
           then (case args of _ # p # _ \<Rightarrow> Some p | _ \<Rightarrow> None)
           else if k = MExistsOne \<and> f = Op Conditional
           then (case args of p # _ \<Rightarrow> Some p | _ \<Rightarrow> None)
           else None)
      | _ \<Rightarrow> None)"

lemma macro_predicate_size: "macro_predicate k loop_step = Some p \<Longrightarrow> size p < size loop_step"
  by (auto simp: macro_predicate_def split: expr.splits if_splits list.splits)

section \<open>Rendering\<close>

record render_env =
  rn_string :: "string \<Rightarrow> string"
  rn_bytes :: "string \<Rightarrow> string"
  rn_double :: "string \<Rightarrow> string"
  rn_func :: "op \<Rightarrow> string"

definition operator_symbol :: "func \<Rightarrow> string option" where
  "operator_symbol f =
     (case f of
        Fn _ \<Rightarrow> None
      | Op o' \<Rightarrow> Some (case o' of
            OpAdd \<Rightarrow> ''+'' | Substract \<Rightarrow> ''-'' | Negate \<Rightarrow> ''-'' | Multiply \<Rightarrow> ''*'' | OpDivide \<Rightarrow> ''/'' | Modulo \<Rightarrow> ''%''
          | OpIndex \<Rightarrow> ''[]'' | OptIndex \<Rightarrow> ''[?]'' | OptSelect \<Rightarrow> ''.?'' | Equals \<Rightarrow> ''=='' | NotEquals \<Rightarrow> ''!='' | OpLess \<Rightarrow> ''<''
          | LessEquals \<Rightarrow> ''<='' | OpGreater \<Rightarrow> ''>'' | GreaterEquals \<Rightarrow> ''>='' | LogicalAnd \<Rightarrow> ''&&'' | LogicalOr \<Rightarrow> ''||''
          | LogicalNot \<Rightarrow> ''!'' | Conditional \<Rightarrow> ''?:'' | OpIn \<Rightarrow> ''in''))"

definition int_str :: "int \<Rightarrow> string" where
  "int_str i = (if i < 0 then ''-'' @ nat_str (nat (- i)) else nat_str (nat i))"

definition render_literal :: "render_env \<Rightarrow> lit \<Rightarrow> string" where
  "render_literal rn l =
     (case l of LBool b \<Rightarrow> if b then ''true'' else ''false'' | LInt i \<Rightarrow> int_str i | LUInt n \<Rightarrow> nat_str n @ ''u''
      | LDouble d \<Rightarrow> rn_double rn d | LNull \<Rightarrow> ''null'' | LString s \<Rightarrow> rn_string rn s | LBytes b \<Rightarrow> ''b'' @ rn_bytes rn b)"

definition func_name :: "render_env \<Rightarrow> func \<Rightarrow> string" where
  "func_name rn f = (case f of Op o' \<Rightarrow> rn_func rn o' | Fn s \<Rightarrow> s)"

text \<open>Parenthesises an operand that is itself an operator call.\<close>

definition as_operand :: "expr \<Rightarrow> string \<Rightarrow> string" where
  "as_operand e s =
     (case e of ECall _ f None _ \<Rightarrow> if operator_symbol f \<noteq> None then ''('' @ s @ '')'' else s | _ \<Rightarrow> s)"

text \<open>\<^verbatim>\<open>render_call\<close>, over the arguments rendered plainly and as operands.\<close>

definition render_call :: "render_env \<Rightarrow> func \<Rightarrow> string option \<Rightarrow> string list \<Rightarrow> string list \<Rightarrow> string" where
  "render_call rn f target plain operands =
     (case target of
        Some t \<Rightarrow> t @ ''.'' @ func_name rn f @ ''('' @ join_with '', '' plain @ '')''
      | None \<Rightarrow>
          (case (f, operands) of
             (Op Conditional, [c, t, e]) \<Rightarrow> c @ '' ? '' @ t @ '' : '' @ e
           | (Op OpIndex, [a, _]) \<Rightarrow> a @ ''['' @ (plain ! 1) @ '']''
           | (Op LogicalNot, [a]) \<Rightarrow> ''!'' @ a
           | (Op Negate, [a]) \<Rightarrow> ''-'' @ a
           | (_, [a, b]) \<Rightarrow>
               (case operator_symbol f of
                  Some s \<Rightarrow> a @ '' '' @ s @ '' '' @ b
                | None \<Rightarrow> func_name rn f @ ''('' @ join_with '', '' plain @ '')'')
           | _ \<Rightarrow> func_name rn f @ ''('' @ join_with '', '' plain @ '')''))"

definition is_conditional_call :: "expr \<Rightarrow> bool" where
  "is_conditional_call e = (case e of ECall _ f _ _ \<Rightarrow> f = Op Conditional | _ \<Rightarrow> False)"

definition render_comp :: "string \<Rightarrow> string \<Rightarrow> macro_kind option \<Rightarrow> string option \<Rightarrow> expr \<Rightarrow> string" where
  "render_comp rng var kind predicate loop_step =
     (case (kind, predicate) of
        (Some k, Some p) \<Rightarrow> rng @ ''.'' @ macro_name k @ ''('' @ var @ '', '' @ p @ '')''
      | _ \<Rightarrow> rng @ ''.'' @ (if is_conditional_call loop_step then ''filter'' else ''map'') @ ''('' @ var @ '', ...)'')"

function render :: "render_env \<Rightarrow> expr \<Rightarrow> string" and render_entry :: "render_env \<Rightarrow> entry \<Rightarrow> string option" where
  "render rn (ELiteral i l) = render_literal rn l"
| "render rn (EIdent i name) = name"
| "render rn (ESelect i operand field test) =
     (if test then ''has('' @ render rn operand @ ''.'' @ field @ '')''
      else as_operand operand (render rn operand) @ ''.'' @ field)"
| "render rn (ECall i f target args) =
     render_call rn f (map_option (\<lambda>t. as_operand t (render rn t)) target)
       (map (\<lambda>a. render rn a) args) (map (\<lambda>a. as_operand a (render rn a)) args)"
| "render rn (EComp i rng var var2 accu cond step res) =
     (let kind = macro_of accu in
      render_comp (as_operand rng (render rn rng)) var kind
        (case kind of None \<Rightarrow> None
         | Some k \<Rightarrow> (case macro_predicate k step of None \<Rightarrow> None | Some p \<Rightarrow> Some (render rn p))) step)"
| "render rn (EList i elements optional) = ''['' @ join_with '', '' (map (\<lambda>a. render rn a) elements) @ '']''"
| "render rn (EMap i entries) = ''{'' @ join_with '', '' (List.map_filter id (map (\<lambda>en. render_entry rn en) entries)) @ ''}''"
| "render rn (EStruct i name entries) = name @ ''{...}''"
| "render rn (EUnspecified i) = ''?''"
| "render_entry rn (MapEntry k v optional) = Some (render rn k @ '': '' @ render rn v)"
| "render_entry rn (StructField name v optional) = None"
  by pat_completeness auto

termination
  by (relation "measure (\<lambda>x. case x of Inl (rn, e) \<Rightarrow> size e | Inr (rn, en) \<Rightarrow> size en)")
    (auto simp: less_Suc_eq_le dest!: macro_predicate_size intro: size_list_estimation' trans_le_add1 trans_le_add2)

end
