(* ===== verification/Policy_Check.thy ===== *)
theory Policy_Check
  imports Cel_Text
begin

text \<open>
  The type checker of policy rules (\<^verbatim>\<open>scarab-policy/src/check.rs\<close>). A check is a program over what the
  checker accumulates: the patterns the policy's rules have used with the error each compiled to, the
  warnings, the fields read, the patterns of this rule. The scopes, the guards and the depth are
  restored on the way out, so they are part of the environment of a check. The parser, the regular
  expression compiler and the probe of a literal are parameters (\<open>cel_env\<close>): third-party code.

  A sub-expression's check is passed to the rule of its parent as a function of the environment, so that
  the rule decides under which guards and when it runs.
\<close>

section \<open>Findings\<close>

record diagnostic =
  dg_at :: string
  dg_line :: nat
  dg_column :: nat
  dg_expr :: string
  dg_message :: string

definition diagnostic_at :: "string \<Rightarrow> string \<Rightarrow> diagnostic" where
  "diagnostic_at loc message = \<lparr>dg_at = loc, dg_line = 0, dg_column = 0, dg_expr = [], dg_message = message\<rparr>"

definition diagnostic_str :: "diagnostic \<Rightarrow> string" where
  "diagnostic_str d =
     (if dg_at d = [] then [] else dg_at d @ '': '')
     @ (if dg_line d = 0 then dg_message d
        else nat_str (dg_line d) @ '':'' @ nat_str (dg_column d) @ '': '' @ quoted (dg_expr d) @ '': '' @ dg_message d)"

definition at_start :: "string \<Rightarrow> string \<Rightarrow> diagnostic" where
  "at_start source message = \<lparr>dg_at = [], dg_line = 1, dg_column = 1,
     dg_expr = concat (take 60 (utf8_chars source)), dg_message = message\<rparr>"

definition line_col :: "string \<Rightarrow> nat \<Rightarrow> nat \<times> nat" where
  "line_col source offset =
     (let before = take (min offset (length source)) source
      in (length (filter (\<lambda>c. c = CHR 0x0A) before) + 1,
          length (utf8_chars (rev (takeWhile (\<lambda>c. c \<noteq> CHR 0x0A) (rev before)))) + 1))"

text \<open>The edit distance, row by row; \<open>prev\<close> is the value of the row above and to the left.\<close>

fun edit_row :: "string \<Rightarrow> nat \<Rightarrow> nat \<Rightarrow> string list \<Rightarrow> nat list \<Rightarrow> nat list" where
  "edit_row ca prev left (cb # bs) (cur # row) =
     (let v = min (min (prev + (if ca \<noteq> cb then 1 else 0)) (left + 1)) (cur + 1)
      in v # edit_row ca cur v bs row)"
| "edit_row ca prev left _ _ = []"

fun edit_rows :: "nat \<Rightarrow> string list \<Rightarrow> string list \<Rightarrow> nat list \<Rightarrow> nat list" where
  "edit_rows i [] bs row = row"
| "edit_rows i (ca # cs) bs row = edit_rows (Suc i) cs bs (Suc i # edit_row ca (hd row) (Suc i) bs (tl row))"

definition edit_distance :: "string \<Rightarrow> string \<Rightarrow> nat" where
  "edit_distance a b =
     (let bs = utf8_chars b in edit_rows 0 (utf8_chars a) bs [0..<Suc (length bs)] ! length bs)"

text \<open>The least pair of distance and candidate.\<close>

definition nearer :: "nat \<times> string \<Rightarrow> (nat \<times> string) option \<Rightarrow> (nat \<times> string) option" where
  "nearer p best =
     (case best of None \<Rightarrow> Some p
      | Some q \<Rightarrow> Some (if fst p < fst q \<or> fst p = fst q \<and> snd p < snd q then p else q))"

definition did_you_mean :: "string \<Rightarrow> string list \<Rightarrow> string" where
  "did_you_mean name candidates =
     (case fold nearer (filter (\<lambda>(d, c). d \<le> max 2 (length c div 4)) (map (\<lambda>c. (edit_distance name c, c)) candidates)) None of
        None \<Rightarrow> []
      | Some (_, c) \<Rightarrow> '' (did you mean '' @ quoted c @ ''?)'')"

section \<open>Types\<close>

definition u64_max :: nat where "u64_max = u64_bound - 1"

definition sat_add :: "nat \<Rightarrow> nat \<Rightarrow> nat" where "sat_add a b = min u64_max (a + b)"

definition sat_mul :: "nat \<Rightarrow> nat \<Rightarrow> nat" where "sat_mul a b = min u64_max (a * b)"

definition add_costs :: "nat list \<Rightarrow> nat" where "add_costs parts = foldl sat_add 0 parts"

definition literal_type :: "lit \<Rightarrow> ty" where
  "literal_type l = (case l of LBool _ \<Rightarrow> TBool | LBytes _ \<Rightarrow> TBytes | LDouble _ \<Rightarrow> TDouble | LInt _ \<Rightarrow> TInt | LNull \<Rightarrow> TNull
     | LString _ \<Rightarrow> TString | LUInt _ \<Rightarrow> TUint)"

definition composite :: "ty \<Rightarrow> string option" where
  "composite t = (case t of TList _ _ \<Rightarrow> Some ''lists'' | TMap _ _ _ \<Rightarrow> Some ''maps'' | TStruct _ \<Rightarrow> Some ''structs'' | _ \<Rightarrow> None)"

definition is_stringy :: "ty \<Rightarrow> bool" where
  "is_stringy t = (case t of TString \<Rightarrow> True | TEnum _ \<Rightarrow> True | _ \<Rightarrow> False)"

fun shape :: "ty \<Rightarrow> ty" where
  "shape (TEnum _) = TString"
| "shape (TList elem _) = TList (shape elem) 0"
| "shape (TMap key value _) = TMap (shape key) (shape value) 0"
| "shape t = t"

text \<open>The common type of two values that must share one, keeping the larger cap.\<close>

fun unify :: "ty \<Rightarrow> ty \<Rightarrow> ty option" where
  "unify a b =
     (if a = TDyn then Some b else if b = TDyn then Some a
      else case (a, b) of
          (TEnum x, TEnum y) \<Rightarrow> if x = y then Some a else None
        | (TEnum _, TString) \<Rightarrow> Some TString
        | (TString, TEnum _) \<Rightarrow> Some TString
        | (TList x cx, TList y cy) \<Rightarrow> map_option (\<lambda>e. TList e (max cx cy)) (unify x y)
        | (TMap kx vx cx, TMap ky vy cy) \<Rightarrow>
            (case unify kx ky of None \<Rightarrow> None
             | Some k \<Rightarrow> map_option (\<lambda>v. TMap k v (max cx cy)) (unify vx vy))
        | _ \<Rightarrow> if a = b then Some a else None)"

declare unify.simps [simp del]

definition equatable :: "ty \<Rightarrow> ty \<Rightarrow> bool" where
  "equatable a b = (a = TDyn \<or> b = TDyn \<or> unify a b \<noteq> None)"

definition assignable :: "ty \<Rightarrow> ty \<Rightarrow> bool" where
  "assignable expected actual = (expected = TDyn \<or> actual = TDyn \<or> shape expected = shape actual)"

definition ordered :: "ty \<Rightarrow> bool" where
  "ordered t = (t \<in> {TBool, TInt, TUint, TDouble, TString, TBytes, TTimestamp, TDuration, TDyn})"

section \<open>Guards\<close>

fun path_of :: "expr \<Rightarrow> string option" where
  "path_of (EIdent _ name) = Some name"
| "path_of (ESelect _ operand field _) = map_option (\<lambda>p. p @ ''.'' @ field) (path_of operand)"
| "path_of _ = None"

definition is_null :: "expr \<Rightarrow> bool" where
  "is_null e = (case e of ELiteral _ LNull \<Rightarrow> True | _ \<Rightarrow> False)"

definition some_path :: "expr \<Rightarrow> string list" where
  "some_path e = (case path_of e of None \<Rightarrow> [] | Some p \<Rightarrow> [p])"

fun facts_if_true :: "expr \<Rightarrow> string list" and facts_if_false :: "expr \<Rightarrow> string list" where
  "facts_if_true e =
     (case e of
        ESelect _ _ _ test \<Rightarrow> if test then some_path e else []
      | ECall _ f _ [a, b] \<Rightarrow>
          (if f = Op LogicalAnd then facts_if_true a @ facts_if_true b
           else if f = Op NotEquals \<and> is_null b then some_path a
           else if f = Op NotEquals \<and> is_null a then some_path b
           else [])
      | ECall _ f _ [a] \<Rightarrow> if f = Op LogicalNot then facts_if_false a else []
      | _ \<Rightarrow> [])"
| "facts_if_false e =
     (case e of
        ECall _ f _ [a, b] \<Rightarrow>
          (if f = Op LogicalOr then facts_if_false a @ facts_if_false b
           else if f = Op Equals \<and> is_null b then some_path a
           else if f = Op Equals \<and> is_null a then some_path b
           else [])
      | ECall _ f _ [a] \<Rightarrow> if f = Op LogicalNot then facts_if_true a else []
      | _ \<Rightarrow> [])"

declare facts_if_true.simps [simp del] facts_if_false.simps [simp del]

section \<open>The checker\<close>

definition MAX_COST :: nat where "MAX_COST = 100000"

definition MAX_SOURCE_LEN :: nat where "MAX_SOURCE_LEN = 4096"

definition MAX_DEPTH :: nat where "MAX_DEPTH = 64"

definition MAX_PATTERNS :: nat where "MAX_PATTERNS = 8"

definition MAX_POLICY_PATTERNS :: nat where "MAX_POLICY_PATTERNS = 32"

definition TYPE_NAMES :: "string list" where
  "TYPE_NAMES = [''bool'', ''int'', ''uint'', ''double'', ''string'', ''bytes'', ''list'', ''map'', ''null_type'', ''type'', ''google'']"

text \<open>The parser gives an expression and the offset of each node, or its errors, or panics (\<open>Inl None\<close>);
  the thread with the large stack runs, or fails with a reason.\<close>

record cel_env =
  cc_parse :: "string \<Rightarrow> string option + expr \<times> (nat \<Rightarrow> nat option)"
  cc_thread :: "string option"
  cc_regex :: "string \<Rightarrow> string option"
  cc_probe :: "string \<Rightarrow> bool"
  cc_render :: render_env

record check_env =
  ck_schema :: schema
  ck_cel :: cel_env
  ck_source :: string
  ck_offset :: "nat \<Rightarrow> nat option"
  ck_scopes :: "(string \<times> ty) list"
  ck_guards :: "string list"
  ck_depth :: nat

record check_state =
  cs_seen :: "(string \<times> string option) list"
  cs_warnings :: "diagnostic list"
  cs_reads :: "string set"
  cs_patterns :: "string set"

type_synonym 'a check = "(check_state, diagnostic, 'a) prog"

type_synonym sub = "check_env \<Rightarrow> (ty \<times> nat) check"

definition updateP :: "('s \<Rightarrow> 's) \<Rightarrow> ('s, 'e, unit) prog" where
  "updateP f = commitP (\<lambda>s. Inr (f s))"

definition render_in :: "check_env \<Rightarrow> expr \<Rightarrow> string" where
  "render_in env e = render (cc_render (ck_cel env)) e"

definition diag :: "check_env \<Rightarrow> expr \<Rightarrow> string \<Rightarrow> diagnostic" where
  "diag env e message =
     (let (line, column) = (case ck_offset env (expr_id e) of Some start \<Rightarrow> line_col (ck_source env) start | None \<Rightarrow> (1, 1))
      in \<lparr>dg_at = [], dg_line = line, dg_column = column, dg_expr = render_in env e, dg_message = message\<rparr>)"

definition unsupported :: "check_env \<Rightarrow> expr \<Rightarrow> string \<Rightarrow> diagnostic" where
  "unsupported env e what = diag env e (what @ '' is not supported in policies'')"

definition warn :: "diagnostic \<Rightarrow> unit check" where
  "warn d = updateP (\<lambda>s. s\<lparr>cs_warnings := cs_warnings s @ [d]\<rparr>)"

definition shadowed :: "check_env \<Rightarrow> string \<Rightarrow> bool" where
  "shadowed env name = list_ex (\<lambda>(n, _). n = name) (ck_scopes env)"

definition guarded :: "check_env \<Rightarrow> string \<Rightarrow> bool" where
  "guarded env path = (path \<in> set (ck_guards env))"

definition with_guards :: "string list \<Rightarrow> check_env \<Rightarrow> check_env" where
  "with_guards facts env = env\<lparr>ck_guards := ck_guards env @ facts\<rparr>"

definition require :: "bool \<Rightarrow> diagnostic \<Rightarrow> unit check" where
  "require ok d = (if ok then returnP () else throwP d)"

definition expect :: "check_env \<Rightarrow> expr \<Rightarrow> ty \<Rightarrow> ty \<Rightarrow> unit check" where
  "expect env e actual expected =
     require (assignable expected actual) (diag env e (''expected '' @ type_str expected @ '', got '' @ type_str actual))"

definition ident_type :: "check_env \<Rightarrow> expr \<Rightarrow> string \<Rightarrow> (ty \<times> nat) check" where
  "ident_type env e name =
     (case List.find (\<lambda>(n, _). n = name) (rev (ck_scopes env)) of
        Some (_, t) \<Rightarrow> returnP (t, 1)
      | None \<Rightarrow>
          (case schema_variable (ck_schema env) name of
             Some var \<Rightarrow>
               bindP (updateP (\<lambda>s. s\<lparr>cs_reads := insert name (cs_reads s)\<rparr>)) (\<lambda>_. returnP (fd_ty var, 1))
           | None \<Rightarrow>
               (if name \<in> set TYPE_NAMES then throwP (unsupported env e (''the type name '' @ quoted name))
                else
                  (let names = map fd_name (sc_variables (ck_schema env))
                   in throwP (diag env e (''no variable '' @ quoted name @ '' at '' @ sc_checkpoint (ck_schema env)
                        @ did_you_mean name names @ ''; variables are '' @ join_with '', '' names))))))"

definition ident :: "check_env \<Rightarrow> expr \<Rightarrow> string \<Rightarrow> (ty \<times> nat) check" where
  "ident env e name =
     bindP
       (if \<not> shadowed env name
           \<and> (case schema_variable (ck_schema env) name of Some v \<Rightarrow> fd_optional v | None \<Rightarrow> False)
           \<and> \<not> guarded env name
        then warn (diag env e (quoted name @ '' may be null; guard the read with '' @ quoted (name @ '' != null && ...'')
               @ '', or a missing value fails the rule closed''))
        else returnP ())
       (\<lambda>_. ident_type env e name)"

definition read_field :: "check_env \<Rightarrow> expr \<Rightarrow> string \<Rightarrow> unit check" where
  "read_field env operand field =
     (case operand of
        EIdent _ name \<Rightarrow>
          (if \<not> shadowed env name \<and> schema_variable (ck_schema env) name \<noteq> None
           then updateP (\<lambda>s. s\<lparr>cs_reads := insert (name @ ''.'' @ field) (cs_reads s)\<rparr>) else returnP ())
      | _ \<Rightarrow> returnP ())"

definition no_field :: "check_env \<Rightarrow> expr \<Rightarrow> string \<Rightarrow> string \<Rightarrow> diagnostic" where
  "no_field env e name field =
     (let names = map fd_name (struct_fields (ck_schema env) name)
      in diag env e (''no field '' @ quoted field @ '' on '' @ name @ did_you_mean field names
           @ ''; fields are '' @ join_with '', '' names))"

definition struct_field :: "schema \<Rightarrow> string \<Rightarrow> string \<Rightarrow> field option" where
  "struct_field sc name field = List.find (\<lambda>f. fd_name f = field) (struct_fields sc name)"

text \<open>What \<^verbatim>\<open>select\<close> and \<^verbatim>\<open>has\<close> do with the type of the operand.\<close>

definition selected :: "check_env \<Rightarrow> expr \<Rightarrow> string \<Rightarrow> ty \<Rightarrow> nat \<Rightarrow> (ty \<times> nat) check" where
  "selected env e field t cost =
     (case t of
        TStruct name \<Rightarrow>
          (case struct_field (ck_schema env) name field of
             None \<Rightarrow> throwP (no_field env e name field)
           | Some f \<Rightarrow>
               bindP
                 (if fd_optional f \<and> \<not> (case path_of e of None \<Rightarrow> False | Some p \<Rightarrow> guarded env p)
                  then warn (diag env e (quoted field @ '' is optional; guard the read with ''
                         @ quoted (''has('' @ render_in env e @ '') && ...'')
                         @ '', or a missing value fails the rule closed''))
                  else returnP ())
                 (\<lambda>_. returnP (fd_ty f, add_costs [cost, 1])))
      | TMap key value _ \<Rightarrow>
          (if key = TString \<or> key = TDyn then returnP (value, add_costs [cost, 1])
           else throwP (diag env e (''cannot select a field from '' @ type_str t)))
      | _ \<Rightarrow> throwP (diag env e (''cannot select a field from '' @ type_str t)))"

definition select :: "check_env \<Rightarrow> expr \<Rightarrow> expr \<Rightarrow> sub \<Rightarrow> string \<Rightarrow> (ty \<times> nat) check" where
  "select env e operand sub field =
     bindP (sub env) (\<lambda>(t, cost). bindP (read_field env operand field) (\<lambda>_. selected env e field t cost))"

definition tested :: "check_env \<Rightarrow> expr \<Rightarrow> string \<Rightarrow> ty \<Rightarrow> nat \<Rightarrow> (ty \<times> nat) check" where
  "tested env e field t cost =
     (case t of
        TStruct name \<Rightarrow>
          (if struct_field (ck_schema env) name field = None then throwP (no_field env e name field)
           else returnP (TBool, add_costs [cost, 1]))
      | TMap key value _ \<Rightarrow>
          (if key = TString \<or> key = TDyn then returnP (TBool, add_costs [cost, 1])
           else throwP (diag env e (''has() needs a struct or map field, not '' @ type_str t)))
      | _ \<Rightarrow> throwP (diag env e (''has() needs a struct or map field, not '' @ type_str t)))"

definition has_field :: "check_env \<Rightarrow> expr \<Rightarrow> expr \<Rightarrow> sub \<Rightarrow> string \<Rightarrow> (ty \<times> nat) check" where
  "has_field env e operand sub field =
     bindP (sub env) (\<lambda>(t, cost). bindP (read_field env operand field) (\<lambda>_. tested env e field t cost))"

definition equality_side :: "check_env \<Rightarrow> expr \<times> sub \<Rightarrow> (ty \<times> nat) check" where
  "equality_side env side =
     (case fst side of EIdent _ name \<Rightarrow> ident_type env (fst side) name | _ \<Rightarrow> snd side env)"

text \<open>A string literal compared with an enum must be one of its values.\<close>

definition enum_literal :: "check_env \<Rightarrow> expr \<Rightarrow> string \<Rightarrow> unit check" where
  "enum_literal env e name =
     (case e of
        ELiteral _ (LString s) \<Rightarrow>
          (let names = enum_variants (ck_schema env) name
           in require (s \<in> set names)
                (diag env e ([CHR 0x22] @ s @ [CHR 0x22] @ '' is not a '' @ name @ did_you_mean s names
                   @ ''; values are '' @ join_with '', '' names)))
      | _ \<Rightarrow> returnP ())"

definition optional_var :: "check_env \<Rightarrow> expr \<Rightarrow> bool" where
  "optional_var env side =
     (case side of
        EIdent _ n \<Rightarrow> (case schema_variable (ck_schema env) n of Some v \<Rightarrow> fd_optional v | None \<Rightarrow> False)
      | _ \<Rightarrow> False)"

definition never_null :: "check_env \<Rightarrow> expr \<Rightarrow> expr \<Rightarrow> ty \<Rightarrow> diagnostic" where
  "never_null env e side t =
     diag env e (render_in env side @ '' is '' @ type_str t @ '' and is never null''
       @ (case side of ESelect _ _ _ test \<Rightarrow> if test then [] else ''; test presence with has('' @ render_in env side @ '')''
          | _ \<Rightarrow> []))"

text \<open>What \<^verbatim>\<open>Checker::equatable\<close> answers when one side is null; none when it goes on.\<close>

definition null_side :: "check_env \<Rightarrow> expr \<Rightarrow> expr \<Rightarrow> ty \<Rightarrow> ty \<Rightarrow> unit check option" where
  "null_side env e side t other =
     (if other = TNull \<and> t \<noteq> TNull then Some (require (optional_var env side) (never_null env e side t)) else None)"

definition check_equatable :: "check_env \<Rightarrow> expr \<Rightarrow> expr \<Rightarrow> ty \<Rightarrow> expr \<Rightarrow> ty \<Rightarrow> unit check" where
  "check_equatable env e a ta b tb =
     (case null_side env e a ta tb of
        Some r \<Rightarrow> r
      | None \<Rightarrow>
          (case null_side env e b tb ta of
             Some r \<Rightarrow> r
           | None \<Rightarrow>
               (case (case composite ta of Some w \<Rightarrow> Some w | None \<Rightarrow> composite tb) of
                  Some what \<Rightarrow> throwP (unsupported env e (''comparing '' @ what))
                | None \<Rightarrow>
                    bindP (require (equatable ta tb)
                             (diag env e (''cannot compare '' @ type_str ta @ '' with '' @ type_str tb)))
                      (\<lambda>_. bindP (case ta of TEnum name \<Rightarrow> enum_literal env b name | _ \<Rightarrow> returnP ())
                        (\<lambda>_. case tb of TEnum name \<Rightarrow> enum_literal env a name | _ \<Rightarrow> returnP ())))))"

section \<open>Calls\<close>

definition logical_call :: "check_env \<Rightarrow> func \<Rightarrow> expr \<times> sub \<Rightarrow> expr \<times> sub \<Rightarrow> (ty \<times> nat) check" where
  "logical_call env f a b =
     bindP (snd a env) (\<lambda>(ta, ca). bindP (expect env (fst a) ta TBool) (\<lambda>_.
       bindP (snd b (with_guards (if f = Op LogicalAnd then facts_if_true (fst a) else facts_if_false (fst a)) env))
         (\<lambda>(tb, cb). bindP (expect env (fst b) tb TBool) (\<lambda>_. returnP (TBool, add_costs [ca, cb, 1])))))"

definition not_call :: "check_env \<Rightarrow> expr \<times> sub \<Rightarrow> (ty \<times> nat) check" where
  "not_call env a =
     bindP (snd a env) (\<lambda>(t, c). bindP (expect env (fst a) t TBool) (\<lambda>_. returnP (TBool, add_costs [c, 1])))"

definition conditional_call :: "check_env \<Rightarrow> expr \<Rightarrow> expr \<times> sub \<Rightarrow> expr \<times> sub \<Rightarrow> expr \<times> sub \<Rightarrow> (ty \<times> nat) check" where
  "conditional_call env e cond thn els =
     bindP (snd cond env) (\<lambda>(tc, cc). bindP (expect env (fst cond) tc TBool) (\<lambda>_.
       bindP (snd thn (with_guards (facts_if_true (fst cond)) env)) (\<lambda>(tt, ct).
         bindP (snd els (with_guards (facts_if_false (fst cond)) env)) (\<lambda>(te, ce).
           case unify tt te of
             None \<Rightarrow> throwP (diag env e (''both branches must have one type: '' @ type_str tt @ '' and '' @ type_str te))
           | Some t \<Rightarrow> returnP (t, add_costs [cc, max ct ce, 1])))))"

definition equality_call :: "check_env \<Rightarrow> expr \<Rightarrow> expr \<times> sub \<Rightarrow> expr \<times> sub \<Rightarrow> (ty \<times> nat) check" where
  "equality_call env e a b =
     bindP (equality_side env a) (\<lambda>(ta, ca). bindP (equality_side env b) (\<lambda>(tb, cb).
       bindP (check_equatable env e (fst a) ta (fst b) tb) (\<lambda>_. returnP (TBool, add_costs [ca, cb, 1]))))"

definition order_call :: "check_env \<Rightarrow> expr \<Rightarrow> expr \<times> sub \<Rightarrow> expr \<times> sub \<Rightarrow> (ty \<times> nat) check" where
  "order_call env e a b =
     bindP (snd a env) (\<lambda>(ta, ca). bindP (snd b env) (\<lambda>(tb, cb).
       if \<not> ordered ta \<or> \<not> ordered tb \<or> \<not> (ta = tb \<or> ta = TDyn \<or> tb = TDyn)
       then throwP (diag env e (''cannot order '' @ type_str ta @ '' against '' @ type_str tb))
       else returnP (TBool, add_costs [ca, cb, 1])))"

definition in_call :: "check_env \<Rightarrow> expr \<Rightarrow> expr \<times> sub \<Rightarrow> expr \<times> sub \<Rightarrow> (ty \<times> nat) check" where
  "in_call env e needle haystack =
     bindP (snd needle env) (\<lambda>(tn, cn). bindP (snd haystack env) (\<lambda>(th, ch).
       bindP (case th of TList elem cap \<Rightarrow> returnP (elem, cap) | TMap key _ _ \<Rightarrow> returnP (key, 1)
              | _ \<Rightarrow> throwP (diag env (fst haystack) (quoted ''in'' @ '' needs a list or map, not '' @ type_str th)))
         (\<lambda>(elem, cap).
           case composite tn of
             Some what \<Rightarrow> throwP (unsupported env e (''comparing '' @ what @ '' (with '' @ quoted ''in'' @ '')''))
           | None \<Rightarrow>
               bindP (require (equatable tn elem) (diag env e (''cannot look for '' @ type_str tn @ '' in '' @ type_str th)))
                 (\<lambda>_. bindP (case (tn, fst haystack) of
                               (TEnum name, EList _ items _) \<Rightarrow> forP items (\<lambda>item. enum_literal env item name)
                             | _ \<Rightarrow> returnP ())
                        (\<lambda>_. returnP (TBool, add_costs [cn, ch, cap, 1]))))))"

definition sized :: "ty \<Rightarrow> bool" where
  "sized t = (case t of TString \<Rightarrow> True | TEnum _ \<Rightarrow> True | TBytes \<Rightarrow> True | TList _ _ \<Rightarrow> True | TMap _ _ _ \<Rightarrow> True | _ \<Rightarrow> False)"

definition size_call :: "check_env \<Rightarrow> expr \<Rightarrow> expr \<times> sub \<Rightarrow> (ty \<times> nat) check" where
  "size_call env e x =
     bindP (snd x env) (\<lambda>(t, c).
       bindP (require (sized t) (diag env e (''size() needs a string, bytes, list or map, not '' @ type_str t)))
         (\<lambda>_. returnP (TInt, add_costs [c, 1])))"

definition string_call :: "check_env \<Rightarrow> expr \<Rightarrow> string \<Rightarrow> expr \<times> sub \<Rightarrow> expr \<times> sub \<Rightarrow> (ty \<times> nat) check" where
  "string_call env e f recv arg =
     bindP (snd recv env) (\<lambda>(tr, cr). bindP (snd arg env) (\<lambda>(ta, ca).
       bindP (require (is_stringy tr \<and> is_stringy ta)
                (diag env e (f @ ''() is a string function: called on '' @ type_str tr @ '' with '' @ type_str ta)))
         (\<lambda>_. returnP (TBool, add_costs [cr, ca, 1]))))"

text \<open>The error a pattern compiles to; it is compiled when no rule of the policy used it before.\<close>

definition compiled_pattern :: "check_env \<Rightarrow> expr \<Rightarrow> string \<Rightarrow> string option check" where
  "compiled_pattern env pat p =
     bindP (readP cs_seen) (\<lambda>seen.
       case al_get seen p of
         Some compiled \<Rightarrow> returnP compiled
       | None \<Rightarrow>
           bindP (require (length seen < MAX_POLICY_PATTERNS)
                    (diag env pat (''a Policy uses at most '' @ nat_str MAX_POLICY_PATTERNS
                       @ '' distinct matches() patterns across its rules'')))
             (\<lambda>_. let compiled = cc_regex (ck_cel env) p
                  in bindP (updateP (\<lambda>s. s\<lparr>cs_seen := al_put p compiled (cs_seen s)\<rparr>)) (\<lambda>_. returnP compiled)))"

definition use_pattern :: "check_env \<Rightarrow> expr \<Rightarrow> string \<Rightarrow> unit check" where
  "use_pattern env pat p =
     bindP (readP cs_patterns) (\<lambda>patterns.
       if p \<in> patterns then returnP ()
       else
         bindP (require (card patterns < MAX_PATTERNS)
                  (diag env pat (''a rule uses at most '' @ nat_str MAX_PATTERNS @ '' distinct matches() patterns'')))
           (\<lambda>_. bindP (compiled_pattern env pat p) (\<lambda>compiled.
              case compiled of
                Some err \<Rightarrow> throwP (diag env pat (''invalid pattern: '' @ err))
              | None \<Rightarrow> updateP (\<lambda>s. s\<lparr>cs_patterns := insert p (cs_patterns s)\<rparr>))))"

definition matches_call :: "check_env \<Rightarrow> expr \<Rightarrow> expr \<times> sub \<Rightarrow> expr \<Rightarrow> (ty \<times> nat) check" where
  "matches_call env e recv pat =
     bindP (snd recv env) (\<lambda>(tr, cr).
       bindP (require (is_stringy tr) (diag env e (''matches() is a string function, not '' @ type_str tr @ '''s'')))
         (\<lambda>_. case pat of
            ELiteral _ (LString p) \<Rightarrow> bindP (use_pattern env pat p) (\<lambda>_. returnP (TBool, add_costs [cr, 2]))
          | _ \<Rightarrow> throwP (diag env pat ''matches() takes a string literal pattern in policies'')))"

definition convert_call :: "check_env \<Rightarrow> expr \<Rightarrow> string \<Rightarrow> expr \<Rightarrow> (ty \<times> nat) check" where
  "convert_call env e conv arg =
     (case arg of
        ELiteral _ (LString s) \<Rightarrow>
          bindP (require (cc_probe (ck_cel env) (conv @ ''('' @ render_in env arg @ '')''))
                   (diag env arg (''not a valid '' @ conv @ '': '' @ s)))
            (\<lambda>_. returnP (if conv = ''timestamp'' then TTimestamp else TDuration, 1))
      | _ \<Rightarrow> throwP (unsupported env e (conv @ ''() of anything but a string literal'')))"

definition unsupported_call :: "check_env \<Rightarrow> expr \<Rightarrow> func \<Rightarrow> (ty \<times> nat) check" where
  "unsupported_call env e f =
     throwP (unsupported env e (case operator_symbol f of
        Some s \<Rightarrow> ''the '' @ quoted s @ '' operator''
      | None \<Rightarrow> ''the function '' @ quoted (func_name (cc_render (ck_cel env)) f)))"

definition check_call :: "check_env \<Rightarrow> expr \<Rightarrow> func \<Rightarrow> (expr \<times> sub) option \<Rightarrow> (expr \<times> sub) list \<Rightarrow> (ty \<times> nat) check" where
  "check_call env e f target args =
     (case (target, args) of
        (None, [a]) \<Rightarrow>
          (if f = Op LogicalNot then not_call env a
           else if f = Fn ''size'' then size_call env e a
           else if f = Fn ''timestamp'' then convert_call env e ''timestamp'' (fst a)
           else if f = Fn ''duration'' then convert_call env e ''duration'' (fst a)
           else unsupported_call env e f)
      | (None, [a, b]) \<Rightarrow>
          (if f = Op LogicalAnd \<or> f = Op LogicalOr then logical_call env f a b
           else if f = Op Equals \<or> f = Op NotEquals then equality_call env e a b
           else if f = Op OpLess \<or> f = Op LessEquals \<or> f = Op OpGreater \<or> f = Op GreaterEquals then order_call env e a b
           else if f = Op OpIn then in_call env e a b
           else unsupported_call env e f)
      | (None, [a, b, c]) \<Rightarrow> if f = Op Conditional then conditional_call env e a b c else unsupported_call env e f
      | (Some x, []) \<Rightarrow> if f = Fn ''size'' then size_call env e x else unsupported_call env e f
      | (Some recv, [a]) \<Rightarrow>
          (if f = Fn ''startsWith'' then string_call env e ''startsWith'' recv a
           else if f = Fn ''endsWith'' then string_call env e ''endsWith'' recv a
           else if f = Fn ''contains'' then string_call env e ''contains'' recv a
           else if f = Fn ''matches'' then matches_call env e recv (fst a)
           else unsupported_call env e f)
      | _ \<Rightarrow> unsupported_call env e f)"

section \<open>Expressions\<close>

fun check_elements :: "check_env \<Rightarrow> ty \<Rightarrow> nat \<Rightarrow> (expr \<times> sub) list \<Rightarrow> (ty \<times> nat) check" where
  "check_elements env elem cost [] = returnP (elem, cost)"
| "check_elements env elem cost (item # items) =
     bindP (snd item env) (\<lambda>(t, c).
       case unify elem t of
         None \<Rightarrow> throwP (unsupported env (fst item) (''a list mixing '' @ type_str elem @ '' and '' @ type_str t))
       | Some elem' \<Rightarrow> check_elements env elem' (sat_add cost c) items)"

definition is_key :: "ty \<Rightarrow> bool" where
  "is_key t = (t \<in> {TString, TInt, TUint, TBool})"

text \<open>A map entry: its key, its value and whether it is optional; none for the entry of a struct.\<close>

type_synonym sub_entry = "((expr \<times> sub) \<times> (expr \<times> sub) \<times> bool) option"

fun check_entries :: "check_env \<Rightarrow> expr \<Rightarrow> ty \<Rightarrow> ty \<Rightarrow> nat \<Rightarrow> sub_entry list \<Rightarrow> (ty \<times> ty \<times> nat) check" where
  "check_entries env e key value cost [] = returnP (key, value, cost)"
| "check_entries env e key value cost (None # entries) = throwP (unsupported env e ''a struct entry'')"
| "check_entries env e key value cost (Some (k, v, optional) # entries) =
     (if optional then throwP (unsupported env e ''an optional map entry'')
      else
        bindP (snd k env) (\<lambda>(tk, kc).
          bindP (require (is_key tk) (diag env (fst k) (''a map key cannot be '' @ type_str tk))) (\<lambda>_.
            bindP (snd v env) (\<lambda>(tv, vc).
              case unify key tk of
                None \<Rightarrow> throwP (unsupported env (fst k) (''a map mixing '' @ type_str key @ '' and '' @ type_str tk @ '' keys''))
              | Some key' \<Rightarrow>
                  (case unify value tv of
                     None \<Rightarrow> throwP (unsupported env (fst v) (''a map mixing '' @ type_str value @ '' and '' @ type_str tv @ '' values''))
                   | Some value' \<Rightarrow> check_entries env e key' value' (add_costs [cost, kc, vc]) entries)))))"

definition comprehension ::
  "check_env \<Rightarrow> expr \<Rightarrow> expr \<times> sub \<Rightarrow> string \<Rightarrow> bool \<Rightarrow> macro_kind option \<Rightarrow> (expr \<times> sub) option \<Rightarrow> (ty \<times> nat) check" where
  "comprehension env e rng var two_vars kind predicate =
     (case kind of
        None \<Rightarrow> throwP (unsupported env e ''this comprehension'')
      | Some k \<Rightarrow>
          (if two_vars then throwP (unsupported env e ''this comprehension'')
           else
             (case predicate of
                None \<Rightarrow> throwP (unsupported env e (''the '' @ quoted (macro_name k) @ '' macro''))
              | Some p \<Rightarrow>
                  bindP (snd rng env) (\<lambda>(tr, rc).
                    case tr of
                      TList elem cap \<Rightarrow>
                        bindP (snd p (env\<lparr>ck_guards := filter (\<lambda>g. g \<noteq> var \<and> \<not> starts_with (var @ ''.'') g) (ck_guards env),
                                        ck_scopes := ck_scopes env @ [(var, elem)]\<rparr>))
                          (\<lambda>(tp, cp). bindP (expect env (fst p) tp TBool)
                             (\<lambda>_. returnP (TBool, add_costs [rc, sat_mul cap (add_costs [cp, 1])])))
                    | TMap _ _ _ \<Rightarrow> throwP (unsupported env (fst rng) (quoted (macro_name k) @ '' over a map''))
                    | _ \<Rightarrow> throwP (diag env (fst rng) (quoted (macro_name k) @ '' needs a list, not '' @ type_str tr))))))"

definition deeper :: "check_env \<Rightarrow> check_env" where
  "deeper env = env\<lparr>ck_depth := ck_depth env + 1\<rparr>"

function check_expr :: "expr \<Rightarrow> check_env \<Rightarrow> (ty \<times> nat) check" where
  "check_expr e env0 =
     (if ck_depth env0 + 1 > MAX_DEPTH
      then throwP (diag env0 e (''nested more than '' @ nat_str MAX_DEPTH @ '' deep''))
      else
        (let env = deeper env0 in
         case e of
           ELiteral _ l \<Rightarrow> returnP (literal_type l, 1)
         | EIdent _ name \<Rightarrow> ident env e name
         | ESelect _ operand field test \<Rightarrow>
             (if test then has_field env e operand (\<lambda>env'. check_expr operand env') field
              else select env e operand (\<lambda>env'. check_expr operand env') field)
         | ECall _ f target args \<Rightarrow>
             check_call env e f
               (case target of None \<Rightarrow> None | Some t \<Rightarrow> Some (t, \<lambda>env'. check_expr t env'))
               (map (\<lambda>a. (a, \<lambda>env'. check_expr a env')) args)
         | EComp _ rng var var2 accu _ step _ \<Rightarrow>
             comprehension env e (rng, \<lambda>env'. check_expr rng env') var (var2 \<noteq> None) (macro_of accu)
               (case macro_of accu of None \<Rightarrow> None
                | Some k \<Rightarrow> (case macro_predicate k step of None \<Rightarrow> None | Some p \<Rightarrow> Some (p, \<lambda>env'. check_expr p env')))
         | EList _ elements optional \<Rightarrow>
             (if optional \<noteq> [] then throwP (unsupported env e ''an optional list element'')
              else bindP (check_elements env TDyn 1 (map (\<lambda>a. (a, \<lambda>env'. check_expr a env')) elements))
                     (\<lambda>(elem, cost). returnP (TList elem (length elements), cost)))
         | EMap _ entries \<Rightarrow>
             bindP (check_entries env e TDyn TDyn 1
                      (map (\<lambda>en. case en of MapEntry k v optional \<Rightarrow>
                                    Some ((k, \<lambda>env'. check_expr k env'), (v, \<lambda>env'. check_expr v env'), optional)
                                  | StructField _ _ _ \<Rightarrow> None) entries))
               (\<lambda>(key, value, cost). returnP (TMap key value (length entries), cost))
         | EStruct _ _ _ \<Rightarrow> throwP (unsupported env e ''a message literal'')
         | EUnspecified _ \<Rightarrow> throwP (unsupported env e ''this expression'')))"
  by pat_completeness auto

lemma entry_size: "MapEntry k v optional \<in> set entries \<Longrightarrow> size k < size (EMap i entries) \<and> size v < size (EMap i entries)"
  by (induction entries) auto

termination check_expr
  by (relation "measure (\<lambda>(e, env). size e)")
    (auto simp: less_Suc_eq_le dest!: macro_predicate_size entry_size intro: size_list_estimation' trans_le_add1 trans_le_add2)

declare check_expr.simps [simp del]

section \<open>Rules\<close>

record checked =
  cd_source :: string
  cd_result :: ty
  cd_cost :: nat
  cd_warnings :: "diagnostic list"
  cd_reads :: "string set"
  cd_patterns :: "string set"

definition check_limits :: "string \<Rightarrow> diagnostic list + unit" where
  "check_limits source =
     (if length source > MAX_SOURCE_LEN
      then Inl [at_start source (''a rule is at most '' @ nat_str MAX_SOURCE_LEN @ '' bytes; this one is '' @ nat_str (length source))]
      else if max_nesting source > MAX_DEPTH
      then Inl [at_start source (''brackets nest '' @ nat_str (max_nesting source) @ '' deep; the limit is '' @ nat_str MAX_DEPTH)]
      else Inr ())"

definition parse_rule :: "cel_env \<Rightarrow> string \<Rightarrow> diagnostic list + expr \<times> (nat \<Rightarrow> nat option)" where
  "parse_rule cel source =
     (case cc_parse cel source of
        Inr program \<Rightarrow> Inr program
      | Inl (Some errors) \<Rightarrow> Inl [at_start source (''does not parse: '' @ errors)]
      | Inl None \<Rightarrow> Inl [at_start source ''does not parse''])"

text \<open>A check of one rule and the patterns of the policy after it, which it keeps also on an error.\<close>

definition check_on_this_thread ::
  "cel_env \<Rightarrow> schema \<Rightarrow> string \<Rightarrow> ty \<Rightarrow> (string \<times> string option) list \<Rightarrow>
     (diagnostic list + checked) \<times> (string \<times> string option) list" where
  "check_on_this_thread cel sc source expected seen =
     (case parse_rule cel source of
        Inl ds \<Rightarrow> (Inl ds, seen)
      | Inr (root, offsets) \<Rightarrow>
          (let env = \<lparr>ck_schema = sc, ck_cel = cel, ck_source = source, ck_offset = offsets, ck_scopes = [],
                      ck_guards = [], ck_depth = 0\<rparr>
           in case check_expr root env \<lparr>cs_seen = seen, cs_warnings = [], cs_reads = {}, cs_patterns = {}\<rparr> of
                (Inl d, s) \<Rightarrow> (Inl [d], cs_seen s)
              | (Inr (result, cost), s) \<Rightarrow>
                  ((if \<not> assignable expected result
                    then Inl [diag env root (''the rule must return '' @ type_str expected @ '', but this returns '' @ type_str result)]
                    else if cost > MAX_COST
                    then Inl [diag env root (''worst-case cost is '' @ nat_str cost @ '', above the limit of '' @ nat_str MAX_COST
                           @ ''; nested macros multiply by each list's size cap'')]
                    else Inr \<lparr>cd_source = source, cd_result = result, cd_cost = cost, cd_warnings = cs_warnings s,
                              cd_reads = cs_reads s, cd_patterns = cs_patterns s\<rparr>),
                   cs_seen s)))"

definition check_in ::
  "cel_env \<Rightarrow> schema \<Rightarrow> string \<Rightarrow> ty \<Rightarrow> (string \<times> string option) list \<Rightarrow>
     (diagnostic list + checked) \<times> (string \<times> string option) list" where
  "check_in cel sc source expected seen =
     (case check_limits source of
        Inl ds \<Rightarrow> (Inl ds, seen)
      | Inr _ \<Rightarrow>
          (case cc_thread cel of
             Some e \<Rightarrow> (Inl [at_start source (''does not parse: '' @ e)], seen)
           | None \<Rightarrow> check_on_this_thread cel sc source expected seen))"

end
