(* ===== verification/Policy_Check_Laws.thy ===== *)
theory Policy_Check_Laws
  imports Policy_Check
begin

text \<open>
  The checker of policy rules against a declarative typing of the CEL subset. \<open>typed sc \<Gamma> e t n\<close> says that \<open>e\<close>
  has type \<open>t\<close> with the iteration variables \<open>\<Gamma>\<close> in scope (innermost last) and that its worst-case cost is \<open>n\<close>, an
  unbounded number. The checker is sound for it: what it accepts is typed, and the cost it computes
  with saturating \<^verbatim>\<open>u64\<close> additions is the exact one. Patterns are compiled at most once per policy and within
  the caps.
\<close>

section \<open>The declarative typing\<close>

definition var_type :: "schema \<Rightarrow> (string \<times> ty) list \<Rightarrow> string \<Rightarrow> ty option" where
  "var_type sc \<Gamma> name =
     (case map_of (rev \<Gamma>) name of Some t \<Rightarrow> Some t | None \<Rightarrow> map_option fd_ty (schema_variable sc name))"

text \<open>Types that \<^verbatim>\<open>==\<close> compares: neither is a list, map or struct, and they have a common type; or one side is
  null and the other an optional variable.\<close>

definition comparable :: "schema \<Rightarrow> expr \<Rightarrow> ty \<Rightarrow> expr \<Rightarrow> ty \<Rightarrow> bool" where
  "comparable sc a ta b tb =
     ((tb = TNull \<and> ta \<noteq> TNull \<and> (\<exists>i n v. a = EIdent i n \<and> schema_variable sc n = Some v \<and> fd_optional v))
      \<or> (ta = TNull \<and> tb \<noteq> TNull \<and> (\<exists>i n v. b = EIdent i n \<and> schema_variable sc n = Some v \<and> fd_optional v))
      \<or> (composite ta = None \<and> composite tb = None \<and> equatable ta tb))"

definition has_member :: "schema \<Rightarrow> ty \<Rightarrow> string \<Rightarrow> ty \<Rightarrow> bool" where
  "has_member sc t field u =
     ((\<exists>name f. t = TStruct name \<and> struct_field sc name field = Some f \<and> u = fd_ty f)
      \<or> (\<exists>key cap. t = TMap key u cap \<and> key \<in> {TString, TDyn}))"

inductive typed :: "schema \<Rightarrow> (string \<times> ty) list \<Rightarrow> expr \<Rightarrow> ty \<Rightarrow> nat \<Rightarrow> bool"
  and typed_elements :: "schema \<Rightarrow> (string \<times> ty) list \<Rightarrow> ty \<Rightarrow> expr list \<Rightarrow> ty \<Rightarrow> nat \<Rightarrow> bool"
  and typed_entries :: "schema \<Rightarrow> (string \<times> ty) list \<Rightarrow> ty \<Rightarrow> ty \<Rightarrow> entry list \<Rightarrow> ty \<Rightarrow> ty \<Rightarrow> nat \<Rightarrow> bool"
  for sc :: schema where
  t_literal: "typed sc \<Gamma> (ELiteral i l) (literal_type l) 1"
| t_ident: "var_type sc \<Gamma> name = Some t \<Longrightarrow> typed sc \<Gamma> (EIdent i name) t 1"
| t_select: "typed sc \<Gamma> operand t n \<Longrightarrow> has_member sc t field u \<Longrightarrow> typed sc \<Gamma> (ESelect i operand field False) u (n + 1)"
| t_has: "typed sc \<Gamma> operand t n \<Longrightarrow> has_member sc t field u \<Longrightarrow> typed sc \<Gamma> (ESelect i operand field True) TBool (n + 1)"
| t_logical: "f \<in> {Op LogicalAnd, Op LogicalOr} \<Longrightarrow> typed sc \<Gamma> a ta na \<Longrightarrow> assignable TBool ta \<Longrightarrow>
    typed sc \<Gamma> b tb nb \<Longrightarrow> assignable TBool tb \<Longrightarrow> typed sc \<Gamma> (ECall i f None [a, b]) TBool (na + nb + 1)"
| t_not: "typed sc \<Gamma> a ta na \<Longrightarrow> assignable TBool ta \<Longrightarrow> typed sc \<Gamma> (ECall i (Op LogicalNot) None [a]) TBool (na + 1)"
| t_conditional: "typed sc \<Gamma> c tc nc \<Longrightarrow> assignable TBool tc \<Longrightarrow> typed sc \<Gamma> a ta na \<Longrightarrow> typed sc \<Gamma> b tb nb \<Longrightarrow>
    unify ta tb = Some t \<Longrightarrow> typed sc \<Gamma> (ECall i (Op Conditional) None [c, a, b]) t (nc + max na nb + 1)"
| t_equality: "f \<in> {Op Equals, Op NotEquals} \<Longrightarrow> typed sc \<Gamma> a ta na \<Longrightarrow> typed sc \<Gamma> b tb nb \<Longrightarrow> comparable sc a ta b tb \<Longrightarrow>
    typed sc \<Gamma> (ECall i f None [a, b]) TBool (na + nb + 1)"
| t_order: "f \<in> {Op OpLess, Op LessEquals, Op OpGreater, Op GreaterEquals} \<Longrightarrow> typed sc \<Gamma> a ta na \<Longrightarrow> typed sc \<Gamma> b tb nb \<Longrightarrow>
    ordered ta \<Longrightarrow> ordered tb \<Longrightarrow> ta = tb \<or> ta = TDyn \<or> tb = TDyn \<Longrightarrow> typed sc \<Gamma> (ECall i f None [a, b]) TBool (na + nb + 1)"
| t_in_list: "typed sc \<Gamma> a ta na \<Longrightarrow> typed sc \<Gamma> b (TList elem cap) nb \<Longrightarrow> composite ta = None \<Longrightarrow> equatable ta elem \<Longrightarrow>
    typed sc \<Gamma> (ECall i (Op OpIn) None [a, b]) TBool (na + nb + cap + 1)"
| t_in_map: "typed sc \<Gamma> a ta na \<Longrightarrow> typed sc \<Gamma> b (TMap key value cap) nb \<Longrightarrow> composite ta = None \<Longrightarrow> equatable ta key \<Longrightarrow>
    typed sc \<Gamma> (ECall i (Op OpIn) None [a, b]) TBool (na + nb + 1 + 1)"
| t_size: "typed sc \<Gamma> a t n \<Longrightarrow> sized t \<Longrightarrow> (target, args) \<in> {(None, [a]), (Some a, [])} \<Longrightarrow>
    typed sc \<Gamma> (ECall i (Fn ''size'') target args) TInt (n + 1)"
| t_string: "f \<in> {Fn ''startsWith'', Fn ''endsWith'', Fn ''contains''} \<Longrightarrow> typed sc \<Gamma> a ta na \<Longrightarrow> typed sc \<Gamma> b tb nb \<Longrightarrow>
    is_stringy ta \<Longrightarrow> is_stringy tb \<Longrightarrow> typed sc \<Gamma> (ECall i f (Some a) [b]) TBool (na + nb + 1)"
| t_matches: "typed sc \<Gamma> a ta na \<Longrightarrow> is_stringy ta \<Longrightarrow>
    typed sc \<Gamma> (ECall i (Fn ''matches'') (Some a) [ELiteral j (LString p)]) TBool (na + 2)"
| t_timestamp: "typed sc \<Gamma> (ECall i (Fn ''timestamp'') None [ELiteral j (LString p)]) TTimestamp 1"
| t_duration: "typed sc \<Gamma> (ECall i (Fn ''duration'') None [ELiteral j (LString p)]) TDuration 1"
| t_macro: "macro_of accu = Some k \<Longrightarrow> macro_predicate k step = Some p \<Longrightarrow> typed sc \<Gamma> rng (TList elem cap) nr \<Longrightarrow>
    typed sc (\<Gamma> @ [(var, elem)]) p tp np \<Longrightarrow> assignable TBool tp \<Longrightarrow>
    typed sc \<Gamma> (EComp i rng var None accu cond step res) TBool (nr + cap * (np + 1))"
| t_list: "typed_elements sc \<Gamma> TDyn items elem n \<Longrightarrow> typed sc \<Gamma> (EList i items []) (TList elem (length items)) (n + 1)"
| t_map: "typed_entries sc \<Gamma> TDyn TDyn entries key value n \<Longrightarrow> typed sc \<Gamma> (EMap i entries) (TMap key value (length entries)) (n + 1)"
| t_no_element: "typed_elements sc \<Gamma> elem [] elem 0"
| t_element: "typed sc \<Gamma> a t n \<Longrightarrow> unify elem t = Some elem' \<Longrightarrow> typed_elements sc \<Gamma> elem' items elem'' m \<Longrightarrow>
    typed_elements sc \<Gamma> elem (a # items) elem'' (n + m)"
| t_no_entry: "typed_entries sc \<Gamma> key value [] key value 0"
| t_entry: "typed sc \<Gamma> k tk nk \<Longrightarrow> is_key tk \<Longrightarrow> typed sc \<Gamma> v tv nv \<Longrightarrow> unify key tk = Some key' \<Longrightarrow> unify value tv = Some value' \<Longrightarrow>
    typed_entries sc \<Gamma> key' value' entries key'' value'' m \<Longrightarrow>
    typed_entries sc \<Gamma> key value (MapEntry k v False # entries) key'' value'' (nk + nv + m)"

section \<open>Programs that return\<close>

lemma bindP_Inr: "bindP m f s = (Inr r, s') \<longleftrightarrow> (\<exists>a s1. m s = (Inr a, s1) \<and> f a s1 = (Inr r, s'))"
  by (auto simp: bindP_def split: prod.splits sum.splits)

lemma returnP_Inr [simp]: "returnP a s = (Inr r, s') \<longleftrightarrow> r = a \<and> s' = s"
  by (auto simp: returnP_def)

lemma throwP_Inr [simp]: "throwP d s \<noteq> (Inr r, s')"
  by (simp add: throwP_def)

lemma returns_simps [simp]:
  "require ok d s = (Inr u, s') \<longleftrightarrow> ok \<and> s' = s"
  "expect env e t u' s = (Inr u, s') \<longleftrightarrow> assignable u' t \<and> s' = s"
  by (auto simp: returnP_def throwP_def require_def expect_def)

lemma case_returns:
  "(case x of None \<Rightarrow> throwP d | Some y \<Rightarrow> f y) s = (Inr r, s') \<longleftrightarrow> (\<exists>y. x = Some y \<and> f y s = (Inr r, s'))"
  by (cases x) simp_all

lemma add_costs_sum: "add_costs parts = min u64_max (sum_list parts)"
proof -
  have "foldl sat_add (min u64_max a) parts = min u64_max (a + sum_list parts)" for a
  proof (induction parts arbitrary: a)
    case (Cons p parts)
    have "sat_add (min u64_max a) p = min u64_max (a + p)" by (simp add: sat_add_def min_def)
    then show ?case using Cons [of "a + p"] by (simp add: add.assoc)
  qed simp
  from this [of 0] show ?thesis by (simp add: add_costs_def)
qed

lemma u64_pos: "1 \<le> u64_max" "2 \<le> u64_max"
  by (simp_all add: u64_max_def u64_bound_def)

lemma sat_mul_min: "sat_mul a (min u64_max b) = min u64_max (a * b)"
proof (cases "a = 0 \<or> b \<le> u64_max")
  case False
  then have "u64_max \<le> a * u64_max" "u64_max \<le> a * b"
    using mult_le_mono [of 1 a u64_max u64_max] mult_le_mono [of 1 a u64_max b] by simp_all
  then show ?thesis using False by (simp add: sat_mul_def)
qed (auto simp: sat_mul_def)

lemma min_add_min:
  "min u64_max (min u64_max a + b) = min u64_max (a + b)"
  "min u64_max (b + min u64_max a) = min u64_max (b + a)"
  by (auto simp: min_def)

lemmas cost_simps = add_costs_sum sat_mul_min min_add_min

section \<open>Soundness of each rule\<close>

definition exact :: "nat \<Rightarrow> nat \<Rightarrow> bool" where
  "exact c n = (c = min u64_max n)"

definition sub_ok :: "schema \<Rightarrow> expr \<Rightarrow> sub \<Rightarrow> bool" where
  "sub_ok sc e sub =
     (\<forall>env s t c s'. ck_schema env = sc \<longrightarrow> sub env s = (Inr (t, c), s') \<longrightarrow> (\<exists>n. typed sc (ck_scopes env) e t n \<and> exact c n))"

lemma sub_okD:
  "sub_ok sc e sub \<Longrightarrow> sub env s = (Inr (t, c), s') \<Longrightarrow> ck_schema env = sc \<Longrightarrow>
     \<exists>n. typed sc (ck_scopes env) e t n \<and> exact c n"
  unfolding sub_ok_def by blast

lemma exact_simps:
  "exact 1 1"
  "exact ca na \<Longrightarrow> exact cb nb \<Longrightarrow> exact (add_costs [ca, cb, 1]) (na + nb + 1)"
  "exact ca na \<Longrightarrow> exact (add_costs [ca, 1]) (na + 1)"
  "exact ca na \<Longrightarrow> exact (add_costs [ca, 2]) (na + 2)"
  "exact ca na \<Longrightarrow> exact cb nb \<Longrightarrow> exact cc nc \<Longrightarrow> exact (add_costs [cc, max ca cb, 1]) (nc + max na nb + 1)"
  "exact ca na \<Longrightarrow> exact cb nb \<Longrightarrow> exact (add_costs [ca, cb, cap, 1]) (na + nb + cap + 1)"
  "exact ca na \<Longrightarrow> exact cb nb \<Longrightarrow> exact (sat_add ca cb) (na + nb)"
  using u64_pos
  by (auto simp: exact_def cost_simps sat_add_def) (auto simp: min_def)

lemma exact_macro: "exact ca na \<Longrightarrow> exact cb nb \<Longrightarrow> exact (add_costs [ca, sat_mul cap (add_costs [cb, 1])]) (na + cap * (nb + 1))"
proof -
  assume ca: "exact ca na" and cb: "exact cb nb"
  have "add_costs [cb, 1] = min u64_max (nb + 1)" using cb exact_simps(3) [of cb nb] by (simp add: exact_def)
  then have "sat_mul cap (add_costs [cb, 1]) = min u64_max (cap * (nb + 1))" by (simp only: sat_mul_min)
  then show ?thesis using ca by (simp add: exact_def add_costs_sum min_add_min del: mult_Suc_right)
qed

lemma with_guards_sel [simp]:
  "ck_schema (with_guards facts env) = ck_schema env" "ck_scopes (with_guards facts env) = ck_scopes env"
  "ck_schema (deeper env) = ck_schema env" "ck_scopes (deeper env) = ck_scopes env"
  by (simp_all add: with_guards_def deeper_def)

lemma find_scope: "List.find (\<lambda>(n, _). n = name) xs = map_option (Pair name) (map_of xs name)"
  by (induction xs) auto

lemma ident_type_ok:
  "ident_type env e name s = (Inr (t, c), s') \<Longrightarrow> var_type (ck_schema env) (ck_scopes env) name = Some t \<and> c = 1"
  by (auto simp: ident_type_def var_type_def find_scope bindP_Inr Let_def split: option.splits if_splits)

lemma ident_ok:
  "ident env e name s = (Inr (t, c), s') \<Longrightarrow> var_type (ck_schema env) (ck_scopes env) name = Some t \<and> c = 1"
  by (auto simp: ident_def bindP_Inr dest!: ident_type_ok)

lemma ident_typed:
  "ident_type env e name s = (Inr (t, c), s') \<Longrightarrow> \<exists>n. typed (ck_schema env) (ck_scopes env) (EIdent i name) t n \<and> exact c n"
  by (drule ident_type_ok) (auto intro!: exI [of _ 1] t_ident exact_simps(1) simp del: One_nat_def)

lemma side_ok:
  assumes "sub_ok sc (fst a) (snd a)" "ck_schema env = sc" "equality_side env a s = (Inr (t, c), s')"
  shows "\<exists>n. typed sc (ck_scopes env) (fst a) t n \<and> exact c n"
proof (cases "\<exists>i name. fst a = EIdent i name")
  case True
  then show ?thesis using assms ident_typed by (auto simp: equality_side_def)
next
  case False
  then have "snd a env s = (Inr (t, c), s')" using assms(3) by (auto simp: equality_side_def split: expr.splits)
  then show ?thesis using assms sub_okD by blast
qed

lemma equatable_ok:
  "check_equatable env e a ta b tb s = (Inr u, s') \<Longrightarrow> comparable (ck_schema env) a ta b tb"
  by (auto simp: check_equatable_def null_side_def comparable_def optional_var_def bindP_Inr
      split: if_splits option.splits expr.splits)

text \<open>One lemma per kind of call: when the arguments' checks are sound, so is the call's.\<close>

lemma subE:
  assumes "sub_ok sc e sub" "sub env s = (Inr (t, c), s')" "ck_schema env = sc" "ck_scopes env = \<Gamma>"
  obtains n where "typed sc \<Gamma> e t n" "exact c n"
  using assms sub_okD by blast

lemma logical_ok:
  assumes f: "f \<in> {Op LogicalAnd, Op LogicalOr}" and a: "sub_ok sc (fst a) (snd a)" and b: "sub_ok sc (fst b) (snd b)"
    and sc: "ck_schema env = sc" and r: "logical_call env f a b s = (Inr (t, c), s')"
  shows "\<exists>n. typed sc (ck_scopes env) (ECall i f None [fst a, fst b]) t n \<and> exact c n"
proof -
  obtain ta ca tb cb facts s1 s2 where ra: "snd a env s = (Inr (ta, ca), s1)" "assignable TBool ta"
      and rb: "snd b (with_guards facts env) s1 = (Inr (tb, cb), s2)" "assignable TBool tb"
      and t: "t = TBool" "c = add_costs [ca, cb, 1]"
    using r by (auto simp: logical_call_def bindP_Inr split: prod.splits)
  obtain na where na: "typed sc (ck_scopes env) (fst a) ta na" "exact ca na" by (rule subE [OF a ra(1) sc refl])
  obtain nb where nb: "typed sc (ck_scopes env) (fst b) tb nb" "exact cb nb" by (rule subE [OF b rb(1)]) (simp_all add: sc)
  show ?thesis unfolding t using t_logical [OF f na(1) ra(2) nb(1) rb(2)] exact_simps(2) [OF na(2) nb(2)] by blast
qed

lemma not_ok:
  assumes a: "sub_ok sc (fst a) (snd a)" and sc: "ck_schema env = sc" and r: "not_call env a s = (Inr (t, c), s')"
  shows "\<exists>n. typed sc (ck_scopes env) (ECall i (Op LogicalNot) None [fst a]) t n \<and> exact c n"
proof -
  obtain ta ca s1 where ra: "snd a env s = (Inr (ta, ca), s1)" "assignable TBool ta" and t: "t = TBool" "c = add_costs [ca, 1]"
    using r by (auto simp: not_call_def bindP_Inr split: prod.splits)
  obtain na where na: "typed sc (ck_scopes env) (fst a) ta na" "exact ca na" by (rule subE [OF a ra(1) sc refl])
  show ?thesis unfolding t using t_not [OF na(1) ra(2)] exact_simps(3) [OF na(2)] by blast
qed

lemma conditional_ok:
  assumes a: "sub_ok sc (fst a) (snd a)" and b: "sub_ok sc (fst b) (snd b)" and d: "sub_ok sc (fst d) (snd d)"
    and sc: "ck_schema env = sc" and r: "conditional_call env e a b d s = (Inr (t, c), s')"
  shows "\<exists>n. typed sc (ck_scopes env) (ECall i (Op Conditional) None [fst a, fst b, fst d]) t n \<and> exact c n"
proof -
  obtain ta ca tb cb td cd f1 f2 s1 s2 s3 where ra: "snd a env s = (Inr (ta, ca), s1)" "assignable TBool ta"
      and rb: "snd b (with_guards f1 env) s1 = (Inr (tb, cb), s2)" and rd: "snd d (with_guards f2 env) s2 = (Inr (td, cd), s3)"
      and u: "unify tb td = Some t" and c: "c = add_costs [ca, max cb cd, 1]"
    using r by (auto simp: conditional_call_def bindP_Inr split: prod.splits option.splits)
  obtain na where na: "typed sc (ck_scopes env) (fst a) ta na" "exact ca na" by (rule subE [OF a ra(1) sc refl])
  obtain nb where nb: "typed sc (ck_scopes env) (fst b) tb nb" "exact cb nb" by (rule subE [OF b rb]) (simp_all add: sc)
  obtain nd where nd: "typed sc (ck_scopes env) (fst d) td nd" "exact cd nd" by (rule subE [OF d rd]) (simp_all add: sc)
  show ?thesis unfolding c
    using t_conditional [OF na(1) ra(2) nb(1) nd(1) u] exact_simps(5) [OF nb(2) nd(2) na(2)] by blast
qed

lemma equality_ok:
  assumes f: "f \<in> {Op Equals, Op NotEquals}" and a: "sub_ok sc (fst a) (snd a)" and b: "sub_ok sc (fst b) (snd b)"
    and sc: "ck_schema env = sc" and r: "equality_call env e a b s = (Inr (t, c), s')"
  shows "\<exists>n. typed sc (ck_scopes env) (ECall i f None [fst a, fst b]) t n \<and> exact c n"
proof -
  obtain ta ca tb cb u s1 s2 s3 where ra: "equality_side env a s = (Inr (ta, ca), s1)"
      and rb: "equality_side env b s1 = (Inr (tb, cb), s2)"
      and eq: "check_equatable env e (fst a) ta (fst b) tb s2 = (Inr u, s3)" and t: "t = TBool" "c = add_costs [ca, cb, 1]"
    using r by (auto simp: equality_call_def bindP_Inr split: prod.splits)
  obtain na where na: "typed sc (ck_scopes env) (fst a) ta na" "exact ca na" using side_ok [OF a sc ra] by blast
  obtain nb where nb: "typed sc (ck_scopes env) (fst b) tb nb" "exact cb nb" using side_ok [OF b sc rb] by blast
  show ?thesis unfolding t
    using t_equality [OF f na(1) nb(1) equatable_ok [OF eq, unfolded sc]] exact_simps(2) [OF na(2) nb(2)] by blast
qed

text \<open>The calls that check two arguments in the environment of the call.\<close>

lemma two_subs:
  assumes a: "sub_ok sc (fst a) (snd a)" and b: "sub_ok sc (fst b) (snd b)" and sc: "ck_schema env = sc"
    and r: "bindP (snd a env) (\<lambda>(ta, ca). bindP (snd b env) (\<lambda>(tb, cb). k ta ca tb cb)) s = (Inr v, s')"
  obtains ta ca na tb cb nb s1 where "typed sc (ck_scopes env) (fst a) ta na" "exact ca na"
    "typed sc (ck_scopes env) (fst b) tb nb" "exact cb nb" "k ta ca tb cb s1 = (Inr v, s')"
proof -
  obtain ta ca tb cb s1 s2 where ra: "snd a env s = (Inr (ta, ca), s1)" and rb: "snd b env s1 = (Inr (tb, cb), s2)"
      and k: "k ta ca tb cb s2 = (Inr v, s')"
    using r by (auto simp: bindP_Inr split: prod.splits)
  obtain na where na: "typed sc (ck_scopes env) (fst a) ta na" "exact ca na" by (rule subE [OF a ra sc refl])
  obtain nb where nb: "typed sc (ck_scopes env) (fst b) tb nb" "exact cb nb" by (rule subE [OF b rb sc refl])
  show ?thesis by (rule that [OF na nb k])
qed

lemma order_ok:
  assumes f: "f \<in> {Op OpLess, Op LessEquals, Op OpGreater, Op GreaterEquals}" and a: "sub_ok sc (fst a) (snd a)"
    and b: "sub_ok sc (fst b) (snd b)" and sc: "ck_schema env = sc" and r: "order_call env e a b s = (Inr (t, c), s')"
  shows "\<exists>n. typed sc (ck_scopes env) (ECall i f None [fst a, fst b]) t n \<and> exact c n"
  using r unfolding order_call_def
proof (rule two_subs [OF a b sc])
  fix ta ca na tb cb nb s1
  assume na: "typed sc (ck_scopes env) (fst a) ta na" "exact ca na" and nb: "typed sc (ck_scopes env) (fst b) tb nb" "exact cb nb"
    and k: "(if \<not> ordered ta \<or> \<not> ordered tb \<or> \<not> (ta = tb \<or> ta = TDyn \<or> tb = TDyn)
       then throwP (diag env e (''cannot order '' @ type_str ta @ '' against '' @ type_str tb))
       else returnP (TBool, add_costs [ca, cb, 1])) s1 = (Inr (t, c), s')"
  then have ok: "ordered ta" "ordered tb" "ta = tb \<or> ta = TDyn \<or> tb = TDyn" and t: "t = TBool" "c = add_costs [ca, cb, 1]"
    by (auto split: if_splits)
  show ?thesis unfolding t using t_order [OF f na(1) nb(1) ok] exact_simps(2) [OF na(2) nb(2)] by blast
qed

lemma in_ok:
  assumes a: "sub_ok sc (fst a) (snd a)" and b: "sub_ok sc (fst b) (snd b)" and sc: "ck_schema env = sc"
    and r: "in_call env e a b s = (Inr (t, c), s')"
  shows "\<exists>n. typed sc (ck_scopes env) (ECall i (Op OpIn) None [fst a, fst b]) t n \<and> exact c n"
  using r unfolding in_call_def
proof (rule two_subs [OF a b sc])
  fix ta ca na tb cb nb s1
  assume na: "typed sc (ck_scopes env) (fst a) ta na" "exact ca na" and nb: "typed sc (ck_scopes env) (fst b) tb nb" "exact cb nb"
    and k: "bindP (case tb of TList elem cap \<Rightarrow> returnP (elem, cap) | TMap key _ _ \<Rightarrow> returnP (key, 1)
              | _ \<Rightarrow> throwP (diag env (fst b) (quoted ''in'' @ '' needs a list or map, not '' @ type_str tb)))
         (\<lambda>(elem, cap).
           case composite ta of
             Some what \<Rightarrow> throwP (unsupported env e (''comparing '' @ what @ '' (with '' @ quoted ''in'' @ '')''))
           | None \<Rightarrow>
               bindP (require (equatable ta elem) (diag env e (''cannot look for '' @ type_str ta @ '' in '' @ type_str tb)))
                 (\<lambda>_. bindP (case (ta, fst b) of
                               (TEnum name, EList _ items _) \<Rightarrow> forP items (\<lambda>item. enum_literal env item name)
                             | _ \<Rightarrow> returnP ())
                        (\<lambda>_. returnP (TBool, add_costs [ca, cb, cap, 1])))) s1 = (Inr (t, c), s')"
  then have ct: "composite ta = None" and t: "t = TBool"
    by (auto simp: bindP_Inr split: option.splits)
  consider elem cap where "tb = TList elem cap" "equatable ta elem" "c = add_costs [ca, cb, cap, 1]"
    | key val cap where "tb = TMap key val cap" "equatable ta key" "c = add_costs [ca, cb, 1, 1]"
    using k ct by (cases tb) (auto simp: bindP_Inr)
  then show ?thesis
  proof cases
    case 1
    then show ?thesis
      using t_in_list [OF na(1) nb(1) [unfolded 1(1)] ct] exact_simps(6) [OF na(2) nb(2), of cap] unfolding t by blast
  next
    case 2
    then show ?thesis
      using t_in_map [OF na(1) nb(1) [unfolded 2(1)] ct] exact_simps(6) [OF na(2) nb(2), of 1] unfolding t by blast
  qed
qed

lemma size_ok:
  assumes a: "sub_ok sc (fst a) (snd a)" and sc: "ck_schema env = sc" and r: "size_call env e a s = (Inr (t, c), s')"
    and args: "(target, args) \<in> {(None, [fst a]), (Some (fst a), [])}"
  shows "\<exists>n. typed sc (ck_scopes env) (ECall i (Fn ''size'') target args) t n \<and> exact c n"
proof -
  obtain ta ca s1 where ra: "snd a env s = (Inr (ta, ca), s1)" "sized ta" and t: "t = TInt" "c = add_costs [ca, 1]"
    using r by (auto simp: size_call_def bindP_Inr split: prod.splits)
  obtain na where na: "typed sc (ck_scopes env) (fst a) ta na" "exact ca na" by (rule subE [OF a ra(1) sc refl])
  show ?thesis unfolding t using t_size [OF na(1) ra(2) args] exact_simps(3) [OF na(2)] by blast
qed

lemma string_ok:
  assumes f: "f \<in> {Fn ''startsWith'', Fn ''endsWith'', Fn ''contains''}" and a: "sub_ok sc (fst a) (snd a)"
    and b: "sub_ok sc (fst b) (snd b)" and sc: "ck_schema env = sc" and r: "string_call env e name a b s = (Inr (t, c), s')"
  shows "\<exists>n. typed sc (ck_scopes env) (ECall i f (Some (fst a)) [fst b]) t n \<and> exact c n"
  using r unfolding string_call_def
proof (rule two_subs [OF a b sc])
  fix ta ca na tb cb nb s1
  assume na: "typed sc (ck_scopes env) (fst a) ta na" "exact ca na" and nb: "typed sc (ck_scopes env) (fst b) tb nb" "exact cb nb"
    and k: "bindP (require (is_stringy ta \<and> is_stringy tb)
                (diag env e (name @ ''() is a string function: called on '' @ type_str ta @ '' with '' @ type_str tb)))
         (\<lambda>_. returnP (TBool, add_costs [ca, cb, 1])) s1 = (Inr (t, c), s')"
  then have ok: "is_stringy ta" "is_stringy tb" and t: "t = TBool" "c = add_costs [ca, cb, 1]" by (auto simp: bindP_Inr)
  show ?thesis unfolding t using t_string [OF f na(1) nb(1) ok] exact_simps(2) [OF na(2) nb(2)] by blast
qed

lemma matches_ok:
  assumes a: "sub_ok sc (fst a) (snd a)" and sc: "ck_schema env = sc" and r: "matches_call env e a pat s = (Inr (t, c), s')"
  shows "\<exists>n. typed sc (ck_scopes env) (ECall i (Fn ''matches'') (Some (fst a)) [pat]) t n \<and> exact c n"
proof -
  obtain ta ca s1 where ra: "snd a env s = (Inr (ta, ca), s1)" "is_stringy ta"
      and k: "(case pat of ELiteral _ (LString p) \<Rightarrow> bindP (use_pattern env pat p) (\<lambda>_. returnP (TBool, add_costs [ca, 2]))
          | _ \<Rightarrow> throwP (diag env pat ''matches() takes a string literal pattern in policies'')) s1 = (Inr (t, c), s')"
    using r by (auto simp: matches_call_def bindP_Inr)
  obtain j p where pat: "pat = ELiteral j (LString p)" using k by (cases pat) (auto split: lit.splits)
  then have t: "t = TBool" "c = add_costs [ca, 2]" using k by (auto simp: bindP_Inr)
  obtain na where na: "typed sc (ck_scopes env) (fst a) ta na" "exact ca na" by (rule subE [OF a ra(1) sc refl])
  show ?thesis unfolding t pat using t_matches [OF na(1) ra(2)] exact_simps(4) [OF na(2)] by blast
qed

lemma convert_ok:
  assumes r: "convert_call env e conv arg s = (Inr (t, c), s')" and conv: "conv = ''timestamp'' \<or> conv = ''duration''"
  shows "\<exists>n. typed sc \<Gamma> (ECall i (Fn conv) None [arg]) t n \<and> exact c n"
proof -
  obtain j p where "arg = ELiteral j (LString p)" "t = (if conv = ''timestamp'' then TTimestamp else TDuration)" "c = 1"
    using r by (auto simp: convert_call_def bindP_Inr split: expr.splits lit.splits)
  then show ?thesis using conv t_timestamp t_duration exact_simps(1) by fastforce
qed

definition subs_ok :: "schema \<Rightarrow> (expr \<times> sub) list \<Rightarrow> bool" where
  "subs_ok sc xs = list_all (\<lambda>x. sub_ok sc (fst x) (snd x)) xs"

lemma unsupported_call_fails [simp]: "unsupported_call env e f s \<noteq> (Inr r, s')"
  by (simp add: unsupported_call_def)

lemma call_ok:
  assumes args: "subs_ok sc args" and target: "subs_ok sc (case target of None \<Rightarrow> [] | Some x \<Rightarrow> [x])"
    and sc: "ck_schema env = sc" and r: "check_call env e f target args s = (Inr (t, c), s')"
  shows "\<exists>n. typed sc (ck_scopes env) (ECall i f (map_option fst target) (map fst args)) t n \<and> exact c n"
proof -
  consider a where "target = None" "args = [a]" | a b where "target = None" "args = [a, b]"
    | a b d where "target = None" "args = [a, b, d]" | x where "target = Some x" "args = []"
    | x a where "target = Some x" "args = [a]"
    using r by (auto simp: check_call_def split: option.splits list.splits)
  then show ?thesis
  proof cases
    case 1
    then show ?thesis
      using r args sc not_ok [of sc a env] size_ok [of sc a env e s t c s' None "[fst a]"]
        convert_ok [of env e "''timestamp''" "fst a"] convert_ok [of env e "''duration''" "fst a"]
      by (auto simp: check_call_def subs_ok_def split: if_splits)
  next
    case 2
    then show ?thesis
      using r args sc logical_ok [of f sc a b env] equality_ok [of f sc a b env e] order_ok [of f sc a b env e]
        in_ok [of sc a b env e]
      by (simp add: check_call_def subs_ok_def split: if_splits)
  next
    case 3
    then show ?thesis
      using r args sc conditional_ok [of sc a b d env e] by (simp add: check_call_def subs_ok_def split: if_splits)
  next
    case 4
    then show ?thesis
      using r target sc size_ok [of sc x env e s t c s' "Some (fst x)" "[]"]
      by (simp add: check_call_def subs_ok_def split: if_splits)
  next
    case 5
    then show ?thesis
      using r args target sc string_ok [of f sc x a env e] matches_ok [of sc x env e "fst a"]
      by (simp add: check_call_def subs_ok_def split: if_splits)
  qed
qed

lemma elements_ok:
  assumes "subs_ok sc items" and "ck_schema env = sc" and "check_elements env elem c0 items s = (Inr (t, c), s')" and "exact c0 n0"
  shows "\<exists>n. typed_elements sc (ck_scopes env) elem (map fst items) t n \<and> exact c (n0 + n)"
  using assms
proof (induction items arbitrary: elem c0 s n0)
  case Nil
  then show ?case by (auto intro: t_no_element)
next
  case (Cons a items)
  obtain ta ca s1 elem' where ra: "snd a env s = (Inr (ta, ca), s1)" and u: "unify elem ta = Some elem'"
      and rest: "check_elements env elem' (sat_add c0 ca) items s1 = (Inr (t, c), s')"
    using Cons.prems(3) by (auto simp: bindP_Inr split: option.splits)
  obtain na where na: "typed sc (ck_scopes env) (fst a) ta na" "exact ca na"
    using Cons.prems(1,2) ra by (auto simp: subs_ok_def elim: subE)
  obtain n where "typed_elements sc (ck_scopes env) elem' (map fst items) t n" "exact c (n0 + na + n)"
    using Cons.IH [OF _ Cons.prems(2) rest exact_simps(7) [OF Cons.prems(4) na(2)]] Cons.prems(1) by (auto simp: subs_ok_def)
  then show ?case using t_element [OF na(1) u] by (auto simp: add.assoc)
qed

definition entry_ok :: "schema \<Rightarrow> entry \<Rightarrow> sub_entry \<Rightarrow> bool" where
  "entry_ok sc en x =
     (case en of MapEntry k v optional \<Rightarrow> (\<exists>sk sv. x = Some ((k, sk), (v, sv), optional) \<and> sub_ok sc k sk \<and> sub_ok sc v sv)
      | StructField _ _ _ \<Rightarrow> x = None)"

lemma entries_ok:
  assumes "list_all2 (entry_ok sc) entries xs" and "ck_schema env = sc"
    and "check_entries env e key val c0 xs s = (Inr (tk, tv, c), s')" and "exact c0 n0"
  shows "\<exists>n. typed_entries sc (ck_scopes env) key val entries tk tv n \<and> exact c (n0 + n)"
  using assms
proof (induction entries xs arbitrary: key val c0 s n0 rule: list_all2_induct)
  case Nil
  then show ?case by (auto intro: t_no_entry)
next
  case (Cons en entries x xs)
  obtain k v sk sv where x: "x = Some ((k, sk), (v, sv), False)" and en: "en = MapEntry k v False"
      and subs: "sub_ok sc k sk" "sub_ok sc v sv"
    using Cons.hyps(1) Cons.prems(2) by (auto simp: entry_ok_def split: entry.splits if_splits)
  obtain t1 c1 t2 c2 s1 s2 key' val' where r1: "sk env s = (Inr (t1, c1), s1)" "is_key t1"
      and r2: "sv env s1 = (Inr (t2, c2), s2)" and u: "unify key t1 = Some key'" "unify val t2 = Some val'"
      and rest: "check_entries env e key' val' (add_costs [c0, c1, c2]) xs s2 = (Inr (tk, tv, c), s')"
    using Cons.prems(2) by (auto simp: x bindP_Inr case_returns)
  obtain n1 where n1: "typed sc (ck_scopes env) k t1 n1" "exact c1 n1" by (rule subE [OF subs(1) r1(1) Cons.prems(1) refl])
  obtain n2 where n2: "typed sc (ck_scopes env) v t2 n2" "exact c2 n2" by (rule subE [OF subs(2) r2 Cons.prems(1) refl])
  have "exact (add_costs [c0, c1, c2]) (n0 + n1 + n2)"
    using Cons.prems(3) n1(2) n2(2) by (simp add: exact_def cost_simps add.assoc)
  then obtain n where "typed_entries sc (ck_scopes env) key' val' entries tk tv n" "exact c (n0 + n1 + n2 + n)"
    using Cons.IH [OF Cons.prems(1) rest] by blast
  then show ?case
    using t_entry [OF n1(1) r1(2) n2(1) u, of entries tk tv n] unfolding en by (intro exI [of _ "n1 + n2 + n"]) (simp add: add.assoc)
qed

lemma selected_ok:
  "selected env e field t c s = (Inr (u, c'), s') \<Longrightarrow> has_member (ck_schema env) t field u \<and> c' = add_costs [c, 1]"
  by (cases t) (auto simp: selected_def has_member_def bindP_Inr case_returns split: if_splits)

lemma tested_ok:
  "tested env e field t c s = (Inr (b, c'), s') \<Longrightarrow> (\<exists>u. has_member (ck_schema env) t field u) \<and> b = TBool \<and> c' = add_costs [c, 1]"
  by (cases t) (auto simp: tested_def has_member_def split: if_splits)

lemma member_ok:
  assumes a: "sub_ok sc operand sub" and sc: "ck_schema env = sc"
  shows "select env e operand sub field s = (Inr (t, c), s') \<Longrightarrow>
      \<exists>n. typed sc (ck_scopes env) (ESelect i operand field False) t n \<and> exact c n"
    and "has_field env e operand sub field s = (Inr (t, c), s') \<Longrightarrow>
      \<exists>n. typed sc (ck_scopes env) (ESelect i operand field True) t n \<and> exact c n"
proof -
  assume "select env e operand sub field s = (Inr (t, c), s')"
  then obtain ta ca s1 where ra: "sub env s = (Inr (ta, ca), s1)" and m: "has_member sc ta field t" and c: "c = add_costs [ca, 1]"
    by (auto simp: select_def bindP_Inr sc dest!: selected_ok)
  obtain na where na: "typed sc (ck_scopes env) operand ta na" "exact ca na" by (rule subE [OF a ra sc refl])
  show "\<exists>n. typed sc (ck_scopes env) (ESelect i operand field False) t n \<and> exact c n"
    unfolding c using t_select [OF na(1) m] exact_simps(3) [OF na(2)] by blast
next
  assume "has_field env e operand sub field s = (Inr (t, c), s')"
  then obtain ta ca s1 u where ra: "sub env s = (Inr (ta, ca), s1)" and m: "has_member sc ta field u"
      and t: "t = TBool" "c = add_costs [ca, 1]"
    by (auto simp: has_field_def bindP_Inr sc dest!: tested_ok)
  obtain na where na: "typed sc (ck_scopes env) operand ta na" "exact ca na" by (rule subE [OF a ra sc refl])
  show "\<exists>n. typed sc (ck_scopes env) (ESelect i operand field True) t n \<and> exact c n"
    unfolding t using t_has [OF na(1) m] exact_simps(3) [OF na(2)] by blast
qed

lemma macro_ok:
  assumes rng: "sub_ok sc (fst rng) (snd rng)" and sc: "ck_schema env = sc" and k: "kind = macro_of accu"
    and p: "\<And>k. macro_of accu = Some k \<Longrightarrow> map_option fst predicate = macro_predicate k step"
    and r: "comprehension env e rng var two kind predicate s = (Inr (t, c), s')" and two: "two = (var2 \<noteq> None)"
    and sub: "\<And>p. predicate = Some p \<Longrightarrow> sub_ok sc (fst p) (snd p)"
  shows "\<exists>n. typed sc (ck_scopes env) (EComp i (fst rng) var var2 accu cond step res) t n \<and> exact c n"
proof -
  obtain kd q where kd: "macro_of accu = Some kd" and q: "predicate = Some q" and v2: "var2 = None"
    using r by (auto simp: comprehension_def k two split: option.splits if_splits)
  obtain tr cr s1 where rr: "snd rng env s = (Inr (tr, cr), s1)"
    and k1: "(case tr of
                      TList elem cap \<Rightarrow>
                        bindP (snd q (env\<lparr>ck_guards := filter (\<lambda>g. g \<noteq> var \<and> \<not> starts_with (var @ ''.'') g) (ck_guards env),
                                        ck_scopes := ck_scopes env @ [(var, elem)]\<rparr>))
                          (\<lambda>(tp, cp). bindP (expect env (fst q) tp TBool)
                             (\<lambda>_. returnP (TBool, add_costs [cr, sat_mul cap (add_costs [cp, 1])])))
                    | TMap _ _ _ \<Rightarrow> throwP (unsupported env (fst rng) (quoted (macro_name kd) @ '' over a map''))
                    | _ \<Rightarrow> throwP (diag env (fst rng) (quoted (macro_name kd) @ '' needs a list, not '' @ type_str tr))) s1
             = (Inr (t, c), s')"
    using r by (auto simp: comprehension_def k kd q two v2 bindP_Inr)
  obtain elem cap tp cp env' s2 where tr: "tr = TList elem cap" and rq: "snd q env' s1 = (Inr (tp, cp), s2)"
      and env': "ck_schema env' = sc" "ck_scopes env' = ck_scopes env @ [(var, elem)]" and tp: "assignable TBool tp"
      and t: "t = TBool" "c = add_costs [cr, sat_mul cap (add_costs [cp, 1])]"
    using k1 sc by (cases tr) (auto simp: bindP_Inr)
  obtain nr where nr: "typed sc (ck_scopes env) (fst rng) (TList elem cap) nr" "exact cr nr"
    using subE [OF rng rr sc refl] tr by blast
  obtain np where np: "typed sc (ck_scopes env @ [(var, elem)]) (fst q) tp np" "exact cp np"
    by (rule subE [OF sub [OF q] rq env'])
  have "macro_predicate kd step = Some (fst q)" using p [OF kd] q by simp
  then show ?thesis
    unfolding t v2 using t_macro [OF kd _ nr(1) np(1) tp] exact_macro [OF nr(2) np(2)] by blast
qed

section \<open>Soundness of the checker\<close>

theorem check_expr_sound: "sub_ok sc e (check_expr e)"
proof (induction e rule: measure_induct_rule [of size])
  case (less e)
  have sub: "sub_ok sc x (\<lambda>env. check_expr x env)" if "size x < size e" for x using less [OF that] .
  show ?case unfolding sub_ok_def
  proof (intro allI impI)
    fix env0 s t c s'
    assume sc: "ck_schema env0 = sc" and r: "check_expr e env0 s = (Inr (t, c), s')"
    note run = r [unfolded check_expr.simps [of e] Let_def]
    have sc': "ck_schema (deeper env0) = sc" using sc by simp
    show "\<exists>n. typed sc (ck_scopes env0) e t n \<and> exact c n"
    proof (cases e)
      case (ELiteral i l)
      then have "t = literal_type l" "c = 1" using run by (auto split: if_splits)
      then show ?thesis using t_literal exact_simps(1) unfolding ELiteral by blast
    next
      case (EIdent i name)
      then have "ident (deeper env0) e name s = (Inr (t, c), s')" using run by (auto split: if_splits)
      then have "var_type sc (ck_scopes env0) name = Some t" "c = 1" using sc by (auto dest!: ident_ok)
      then show ?thesis using t_ident exact_simps(1) unfolding EIdent by blast
    next
      case (ESelect i operand field test)
      then show ?thesis
        using run member_ok [OF sub [of operand] sc', of e] by (auto split: if_splits)
    next
      case (ECall i f target args)
      let ?target = "case target of None \<Rightarrow> None | Some t \<Rightarrow> Some (t, \<lambda>env'. check_expr t env')"
      let ?args = "map (\<lambda>a. (a, \<lambda>env'. check_expr a env')) args"
      have "size a < size e" if "a \<in> set args" for a
        using that by (simp add: ECall less_Suc_eq_le trans_le_add2 size_list_estimation')
      then have "subs_ok sc ?args" using sub by (auto simp: subs_ok_def list_all_iff)
      moreover have "subs_ok sc (case ?target of None \<Rightarrow> [] | Some x \<Rightarrow> [x])"
        using sub by (cases target) (auto simp: subs_ok_def ECall)
      moreover have "check_call (deeper env0) e f ?target ?args s = (Inr (t, c), s')"
        using run by (auto simp: ECall split: if_splits)
      ultimately show ?thesis
        using call_ok [of sc ?args ?target "deeper env0" e f s t c s' i] sc by (cases target) (simp_all add: ECall comp_def)
    next
      case (EComp i rng var var2 accu cond step res)
      let ?pred = "case macro_of accu of None \<Rightarrow> None
        | Some k \<Rightarrow> (case macro_predicate k step of None \<Rightarrow> None | Some p \<Rightarrow> Some (p, \<lambda>env'. check_expr p env'))"
      have "comprehension (deeper env0) e (rng, \<lambda>env'. check_expr rng env') var (var2 \<noteq> None) (macro_of accu) ?pred s
          = (Inr (t, c), s')"
        using run by (auto simp: EComp split: if_splits)
      moreover have "sub_ok sc (fst p) (snd p)" if "?pred = Some p" for p
        using that by (auto simp: EComp intro!: sub dest!: macro_predicate_size split: option.splits)
      ultimately show ?thesis
        using macro_ok [of sc "(rng, \<lambda>env'. check_expr rng env')" "deeper env0" "macro_of accu" accu ?pred step e var
            "var2 \<noteq> None" s t c s' var2 i cond res] sub [of rng] sc
        by (auto simp: EComp split: option.splits)
    next
      case (EList i items optional)
      let ?items = "map (\<lambda>a. (a, \<lambda>env'. check_expr a env')) items"
      have "size a < size e" if "a \<in> set items" for a
        using that by (simp add: EList less_Suc_eq_le trans_le_add1 size_list_estimation')
      then have ok: "subs_ok sc ?items" using sub by (auto simp: subs_ok_def list_all_iff)
      obtain elem where el: "check_elements (deeper env0) TDyn 1 ?items s = (Inr (elem, c), s')" and t: "t = TList elem (length items)"
          and o: "optional = []"
        using run by (auto simp: EList bindP_Inr split: if_splits)
      obtain n where "typed_elements sc (ck_scopes env0) TDyn items elem n" "exact c (1 + n)"
        using elements_ok [OF ok sc' el exact_simps(1)] by (auto simp: comp_def)
      then show ?thesis using t_list unfolding EList t o by (metis add.commute)
    next
      case (EMap i entries)
      let ?xs = "map (\<lambda>en. case en of MapEntry k v optional \<Rightarrow>
          Some ((k, \<lambda>env'. check_expr k env'), (v, \<lambda>env'. check_expr v env'), optional) | StructField _ _ _ \<Rightarrow> None) entries"
      have ok: "list_all2 (entry_ok sc) entries ?xs"
        using entry_size [of _ _ _ entries i] sub
        by (auto simp: list_all2_conv_all_nth entry_ok_def EMap split: entry.splits) (metis nth_mem)+
      obtain key val where el: "check_entries (deeper env0) e TDyn TDyn 1 ?xs s = (Inr (key, val, c), s')"
          and t: "t = TMap key val (length entries)"
        using run by (auto simp: EMap bindP_Inr split: if_splits)
      obtain n where "typed_entries sc (ck_scopes env0) TDyn TDyn entries key val n" "exact c (1 + n)"
        using entries_ok [OF ok sc' el exact_simps(1)] by auto
      then show ?thesis using t_map unfolding EMap t by (metis add.commute)
    qed (use run in \<open>auto split: if_splits\<close>)
  qed
qed

section \<open>Patterns\<close>

text \<open>What every step of a check keeps: the patterns a rule uses compiled, no pattern is recorded with another
  answer than the compiler's, and the two caps hold.\<close>

definition patterns_ok :: "cel_env \<Rightarrow> check_state \<Rightarrow> bool" where
  "patterns_ok cel s =
     (al_wf (cs_seen s) \<and> length (cs_seen s) \<le> MAX_POLICY_PATTERNS
      \<and> (\<forall>(p, r) \<in> set (cs_seen s). r = cc_regex cel p)
      \<and> finite (cs_patterns s) \<and> card (cs_patterns s) \<le> MAX_PATTERNS
      \<and> cs_patterns s \<subseteq> {p \<in> fst ` set (cs_seen s). cc_regex cel p = None})"

definition keeps :: "(check_state \<Rightarrow> bool) \<Rightarrow> 'a check \<Rightarrow> bool" where
  "keeps P m = (\<forall>s. P s \<longrightarrow> P (snd (m s)))"

lemma keeps_bindP: "keeps P m \<Longrightarrow> (\<And>a. keeps P (f a)) \<Longrightarrow> keeps P (bindP m f)"
  unfolding keeps_def bindP_def by (auto split: prod.splits sum.splits)

lemma keeps_simps [simp]:
  "keeps P (returnP a)" "keeps P (throwP d)" "keeps P (readP g)" "keeps P (require ok d)" "keeps P (expect env e t u)"
  by (auto simp: keeps_def returnP_def throwP_def readP_def require_def expect_def)

lemma keeps_bindp: "keeps P m \<Longrightarrow> (\<And>t c. keeps P (f t c)) \<Longrightarrow> keeps P (bindP m (\<lambda>(t, c). f t c))"
  by (rule keeps_bindP) (auto split: prod.split)

lemma keeps_option: "keeps P a \<Longrightarrow> (\<And>x. keeps P (f x)) \<Longrightarrow> keeps P (case y of None \<Rightarrow> a | Some x \<Rightarrow> f x)"
  by (cases y) simp_all

lemma keeps_forP: "(\<And>x. keeps P (f x)) \<Longrightarrow> keeps P (forP xs f)"
  using forP_invariant [of P _ xs f] by (auto simp: keeps_def)

lemma keeps_update: "(\<And>s. P s \<Longrightarrow> P (f s)) \<Longrightarrow> keeps P (updateP f)"
  by (simp add: keeps_def updateP_def commitP_def)

lemma patterns_ok_same [simp]:
  "patterns_ok cel (s\<lparr>cs_warnings := w\<rparr>) = patterns_ok cel s" "patterns_ok cel (s\<lparr>cs_reads := q\<rparr>) = patterns_ok cel s"
  by (simp_all add: patterns_ok_def)

lemma keeps_warn: "keeps (patterns_ok cel) (warn d)"
  unfolding warn_def by (rule keeps_update) simp

lemma keeps_reads: "keeps (patterns_ok cel) (updateP (\<lambda>s. s\<lparr>cs_reads := f s\<rparr>))"
  by (rule keeps_update) simp

lemma al_put_new: "p \<notin> fst ` set m \<Longrightarrow> al_put p r m = m @ [(p, r)]"
  by (induction p r m rule: al_put.induct) auto

lemma compiled_ok:
  assumes ok: "patterns_ok cel s" and cel: "ck_cel env = cel" and r: "compiled_pattern env pat p s = (r, s')"
  shows "patterns_ok cel s' \<and> cs_patterns s' = cs_patterns s
    \<and> (\<forall>v. r = Inr v \<longrightarrow> v = cc_regex cel p \<and> p \<in> fst ` set (cs_seen s'))"
proof (cases "al_get (cs_seen s) p")
  case (Some v)
  then have "(p, v) \<in> set (cs_seen s)" by (rule map_of_SomeD)
  then have "v = cc_regex cel p" "p \<in> fst ` set (cs_seen s)" using ok by (auto simp: patterns_ok_def rev_image_eqI)
  then show ?thesis using ok r Some by (auto simp: compiled_pattern_def bindP_def readP_def returnP_def)
next
  case None
  then have fresh: "p \<notin> fst ` set (cs_seen s)" by (simp add: map_of_eq_None_iff)
  show ?thesis
  proof (cases "length (cs_seen s) < MAX_POLICY_PATTERNS")
    case True
    then have "r = Inr (cc_regex cel p)" "s' = s\<lparr>cs_seen := cs_seen s @ [(p, cc_regex cel p)]\<rparr>"
      using r None cel
      by (auto simp: compiled_pattern_def bindP_def readP_def returnP_def require_def updateP_def commitP_def Let_def
          al_put_new [OF fresh])
    moreover have "patterns_ok cel (s\<lparr>cs_seen := cs_seen s @ [(p, cc_regex cel p)]\<rparr>)"
      using ok True fresh unfolding patterns_ok_def by (auto simp: al_wf_def)
    ultimately show ?thesis by simp
  next
    case False
    then show ?thesis using ok r None
      by (auto simp: compiled_pattern_def bindP_def readP_def require_def throwP_def)
  qed
qed

lemma keeps_use_pattern:
  assumes cel: "ck_cel env = cel"
  shows "keeps (patterns_ok cel) (use_pattern env pat p)"
  unfolding keeps_def
proof (intro allI impI)
  fix s
  assume ok: "patterns_ok cel s"
  show "patterns_ok cel (snd (use_pattern env pat p s))"
  proof (cases "p \<in> cs_patterns s \<or> \<not> card (cs_patterns s) < MAX_PATTERNS")
    case True
    then show ?thesis using ok
      by (auto simp: use_pattern_def bindP_def readP_def returnP_def require_def throwP_def)
  next
    case new: False
    obtain r s' where run: "compiled_pattern env pat p s = (r, s')" by (cases "compiled_pattern env pat p s")
    note c = compiled_ok [OF ok cel run]
    have "patterns_ok cel (s'\<lparr>cs_patterns := insert p (cs_patterns s')\<rparr>)" if "r = Inr None"
      using c that new by (auto simp: patterns_ok_def card_insert_if)
    then show ?thesis using new run c
      by (auto simp: use_pattern_def bindP_def readP_def returnP_def require_def throwP_def updateP_def commitP_def
          split: sum.splits option.splits)
  qed
qed

lemmas keeps_intros = keeps_bindP keeps_bindp keeps_forP keeps_warn keeps_reads keeps_use_pattern

lemma keeps_ident: "keeps (patterns_ok cel) (ident_type env e name)" "keeps (patterns_ok cel) (ident env e name)"
proof -
  show *: "keeps (patterns_ok cel) (ident_type env e name)"
    by (auto simp: ident_type_def Let_def intro!: keeps_intros split: option.split)
  show "keeps (patterns_ok cel) (ident env e name)" by (auto simp: ident_def intro!: keeps_intros *)
qed

lemma keeps_member:
  "keeps (patterns_ok cel) (read_field env operand field)"
  "keeps (patterns_ok cel) (selected env e field t c)"
  "keeps (patterns_ok cel) (tested env e field t c)"
proof -
  show "keeps (patterns_ok cel) (read_field env operand field)"
    by (cases operand) (auto simp: read_field_def intro!: keeps_intros)
  show "keeps (patterns_ok cel) (selected env e field t c)"
    by (cases t) (auto simp: selected_def intro!: keeps_intros split: option.split)
  show "keeps (patterns_ok cel) (tested env e field t c)"
    by (cases t) (auto simp: tested_def)
qed

lemma keeps_enum: "keeps (patterns_ok cel) (enum_literal env e name)"
  by (auto simp: enum_literal_def Let_def split: expr.split lit.split)

lemma keeps_equatable: "keeps (patterns_ok cel) (check_equatable env e a ta b tb)"
  by (auto simp: check_equatable_def null_side_def intro!: keeps_intros keeps_enum split: option.split ty.split)

definition sub_keeps :: "cel_env \<Rightarrow> sub \<Rightarrow> bool" where
  "sub_keeps cel sub = (\<forall>env. ck_cel env = cel \<longrightarrow> keeps (patterns_ok cel) (sub env))"

lemma sub_keepsD: "sub_keeps cel sub \<Longrightarrow> ck_cel env = cel \<Longrightarrow> keeps (patterns_ok cel) (sub env)"
  by (simp add: sub_keeps_def)

lemma keeps_side: "sub_keeps cel (snd a) \<Longrightarrow> ck_cel env = cel \<Longrightarrow> keeps (patterns_ok cel) (equality_side env a)"
  by (auto simp: equality_side_def intro!: keeps_ident sub_keepsD split: expr.split)

lemma ck_cel_envs [simp]:
  "ck_cel (with_guards facts env) = ck_cel env" "ck_cel (deeper env) = ck_cel env"
  by (simp_all add: with_guards_def deeper_def)

lemma keeps_fail [simp]: "keeps P (unsupported_call env e f)"
  by (simp add: unsupported_call_def)

lemma keeps_convert: "keeps P (convert_call env e conv arg)"
proof (cases "\<exists>i s. arg = ELiteral i (LString s)")
  case True
  then show ?thesis by (auto simp: convert_call_def intro!: keeps_bindP)
next
  case False
  then show ?thesis by (cases arg) (auto simp: convert_call_def split: lit.split)
qed

lemma keeps_one:
  assumes a: "sub_keeps cel (snd a)" and cel: "ck_cel env = cel"
  shows "keeps (patterns_ok cel) (not_call env a)" "keeps (patterns_ok cel) (size_call env e a)"
    "keeps (patterns_ok cel) (matches_call env e a pat)"
proof -
  note sub = sub_keepsD [OF a cel]
  show "keeps (patterns_ok cel) (not_call env a)" unfolding not_call_def by (intro keeps_bindp keeps_bindP sub keeps_simps)
  show "keeps (patterns_ok cel) (size_call env e a)" unfolding size_call_def by (intro keeps_bindp keeps_bindP sub keeps_simps)
  have "keeps (patterns_ok cel) (case pat of ELiteral _ (LString p) \<Rightarrow> bindP (use_pattern env pat p) (\<lambda>_. returnP v)
      | _ \<Rightarrow> throwP d)" for v :: "ty \<times> nat" and d
    by (auto intro!: keeps_bindP keeps_use_pattern [OF cel] split: expr.split lit.split)
  then show "keeps (patterns_ok cel) (matches_call env e a pat)"
    unfolding matches_call_def by (intro keeps_bindp keeps_bindP sub keeps_simps)
qed

lemma keeps_two:
  assumes a: "sub_keeps cel (snd a)" and b: "sub_keeps cel (snd b)" and cel: "ck_cel env = cel"
  shows "keeps (patterns_ok cel) (logical_call env f a b)" "keeps (patterns_ok cel) (equality_call env e a b)"
    "keeps (patterns_ok cel) (order_call env e a b)" "keeps (patterns_ok cel) (string_call env e name a b)"
    "keeps (patterns_ok cel) (in_call env e a b)"
proof -
  note sub = sub_keepsD [OF a] sub_keepsD [OF b] keeps_side [OF a cel] keeps_side [OF b cel]
  show "keeps (patterns_ok cel) (logical_call env f a b)"
    unfolding logical_call_def by (intro keeps_bindp keeps_bindP sub keeps_simps) (simp_all add: cel)
  show "keeps (patterns_ok cel) (equality_call env e a b)"
    unfolding equality_call_def by (intro keeps_bindp keeps_bindP sub keeps_simps keeps_equatable)
  show "keeps (patterns_ok cel) (order_call env e a b)"
    unfolding order_call_def by (auto intro!: keeps_bindp keeps_bindP sub cel)
  show "keeps (patterns_ok cel) (string_call env e name a b)"
    unfolding string_call_def by (auto intro!: keeps_bindp keeps_bindP sub cel)
  have literals: "keeps (patterns_ok cel) (case (tn, fst b) of
      (TEnum name, EList _ items _) \<Rightarrow> forP items (\<lambda>item. enum_literal env item name) | _ \<Rightarrow> returnP ())" for tn
    by (auto intro!: keeps_forP keeps_enum split: ty.split expr.split)
  show "keeps (patterns_ok cel) (in_call env e a b)"
    unfolding in_call_def
  proof (intro keeps_bindp sub cel)
    fix tn cn th ch elem cap
    show "keeps (patterns_ok cel) (case th of TList elem cap \<Rightarrow> returnP (elem, cap) | TMap key _ _ \<Rightarrow> returnP (key, 1)
        | _ \<Rightarrow> throwP (diag env (fst b) (quoted ''in'' @ '' needs a list or map, not '' @ type_str th)))"
      by (cases th) simp_all
    show "keeps (patterns_ok cel) (case composite tn of
        Some what \<Rightarrow> throwP (unsupported env e (''comparing '' @ what @ '' (with '' @ quoted ''in'' @ '')''))
      | None \<Rightarrow> bindP (require (equatable tn elem) (diag env e (''cannot look for '' @ type_str tn @ '' in '' @ type_str th)))
          (\<lambda>_. bindP (case (tn, fst b) of
              (TEnum name, EList _ items _) \<Rightarrow> forP items (\<lambda>item. enum_literal env item name) | _ \<Rightarrow> returnP ())
             (\<lambda>_. returnP (TBool, add_costs [cn, ch, cap, 1]))))"
      by (cases "composite tn"; simp only: option.case keeps_simps) (intro keeps_bindP keeps_simps literals)
  qed
qed

lemma keeps_conditional:
  assumes "sub_keeps cel (snd a)" "sub_keeps cel (snd b)" "sub_keeps cel (snd d)" "ck_cel env = cel"
  shows "keeps (patterns_ok cel) (conditional_call env e a b d)"
  unfolding conditional_call_def
  by (intro keeps_bindp keeps_bindP keeps_option keeps_simps sub_keepsD [OF assms(1)] sub_keepsD [OF assms(2)]
      sub_keepsD [OF assms(3)]) (simp_all add: assms(4))

lemma keeps_call:
  assumes args: "list_all (\<lambda>a. sub_keeps cel (snd a)) args" and target: "pred_option (\<lambda>a. sub_keeps cel (snd a)) target"
    and cel: "ck_cel env = cel"
  shows "keeps (patterns_ok cel) (check_call env e f target args)"
proof (cases args rule: remdups_adj.cases)
  case 1
  then show ?thesis using target cel by (cases target) (simp_all add: check_call_def keeps_one)
next
  case (2 a)
  then show ?thesis using args target cel
    by (cases target) (simp_all add: check_call_def keeps_one keeps_two keeps_convert)
next
  case (3 a b xs)
  then show ?thesis
  proof (cases xs rule: remdups_adj.cases)
    case 1
    then show ?thesis using 3 args cel by (cases target) (simp_all add: check_call_def keeps_two)
  next
    case (2 d)
    then show ?thesis using 3 args cel by (cases target) (simp_all add: check_call_def keeps_conditional)
  qed (use 3 in \<open>cases target; simp add: check_call_def\<close>)
qed

lemma keeps_elements:
  assumes "list_all (\<lambda>a. sub_keeps cel (snd a)) items" "ck_cel env = cel"
  shows "keeps (patterns_ok cel) (check_elements env elem c items)"
  using assms
proof (induction items arbitrary: elem c)
  case (Cons a items)
  then have "sub_keeps cel (snd a)" by simp
  from sub_keepsD [OF this Cons.prems(2)] show ?case
    using Cons by (auto intro!: keeps_bindp split: option.split)
qed simp

lemma keeps_entries:
  assumes "list_all (pred_option (\<lambda>(k, v, _). sub_keeps cel (snd k) \<and> sub_keeps cel (snd v))) xs" "ck_cel env = cel"
  shows "keeps (patterns_ok cel) (check_entries env e key val c xs)"
  using assms
proof (induction xs arbitrary: key val c)
  case (Cons x xs)
  show ?case
  proof (cases x)
    case (Some y)
    then obtain k v opt where y: "y = (k, v, opt)" by (cases y)
    then have "sub_keeps cel (snd k)" "sub_keeps cel (snd v)" using Cons.prems(1) Some by auto
    from this [THEN sub_keepsD, OF Cons.prems(2)] show ?thesis
      using Cons by (auto simp: Some y intro!: keeps_bindp keeps_bindP split: option.split)
  qed simp
qed simp

lemma keeps_macro:
  assumes rng: "sub_keeps cel (snd rng)" and p: "pred_option (\<lambda>p. sub_keeps cel (snd p)) predicate" and cel: "ck_cel env = cel"
  shows "keeps (patterns_ok cel) (comprehension env e rng var two kind predicate)"
proof (cases predicate)
  case (Some q)
  then have q: "keeps (patterns_ok cel) (snd q (env\<lparr>ck_guards := g, ck_scopes := h\<rparr>))" for g h
    using p cel by (auto intro: sub_keepsD)
  show ?thesis unfolding comprehension_def Some
    by (auto intro!: keeps_bindp keeps_bindP sub_keepsD [OF rng cel] q split: option.split ty.split)
qed (auto simp: comprehension_def split: option.split)

lemma check_expr_keeps: "sub_keeps cel (check_expr e)"
proof (induction e rule: measure_induct_rule [of size])
  case (less e)
  have sub: "sub_keeps cel (\<lambda>env. check_expr x env)" if "size x < size e" for x using less [OF that] .
  have args: "list_all (\<lambda>a. sub_keeps cel (snd a)) (map (\<lambda>a. (a, \<lambda>env'. check_expr a env')) xs)"
    if "\<And>a. a \<in> set xs \<Longrightarrow> size a < size e" for xs
    using that sub by (auto simp: list_all_iff)
  show ?case unfolding sub_keeps_def
  proof (intro allI impI)
    fix env0 :: check_env
    assume cel: "ck_cel env0 = cel"
    define env where "env = deeper env0"
    have cel': "ck_cel env = cel" using cel by (simp add: env_def)
    note unfold = check_expr.simps [of e env0, folded env_def, unfolded Let_def]
    show "keeps (patterns_ok cel) (check_expr e env0)"
    proof (cases "ck_depth env0 + 1 > MAX_DEPTH")
      case True
      then show ?thesis unfolding unfold by simp
    next
      case ok: False
      show ?thesis
      proof (cases e)
        case (EIdent i name)
        then show ?thesis using ok unfolding unfold by (simp add: keeps_ident)
      next
        case (ESelect i operand field test)
        have "keeps (patterns_ok cel) (check_expr operand env)" by (rule sub_keepsD [OF sub cel']) (simp add: ESelect)
        then have "keeps (patterns_ok cel) (select env e operand (check_expr operand) field)"
          "keeps (patterns_ok cel) (has_field env e operand (check_expr operand) field)"
          unfolding select_def has_field_def by (auto intro!: keeps_bindp keeps_bindP keeps_member)
        then show ?thesis using ok unfolding unfold by (cases test) (simp_all add: ESelect)
      next
        case (ECall i f target xs)
        have size: "size a < size e" if "a \<in> set xs" for a
          using that by (simp add: ECall less_Suc_eq_le trans_le_add2 size_list_estimation')
        have "pred_option (\<lambda>a. sub_keeps cel (snd a)) (case target of None \<Rightarrow> None | Some t \<Rightarrow> Some (t, \<lambda>env'. check_expr t env'))"
          using sub by (cases target) (simp_all add: ECall)
        note keeps_call [OF args [OF size] this cel', where e = e and f = f]
        then show ?thesis using ok unfolding unfold by (simp add: ECall)
      next
        case (EComp i rng var var2 accu cond step res)
        let ?pred = "case macro_of accu of None \<Rightarrow> None
          | Some k \<Rightarrow> (case macro_predicate k step of None \<Rightarrow> None | Some p \<Rightarrow> Some (p, \<lambda>env'. check_expr p env'))"
        have "sub_keeps cel (check_expr p)" if "macro_predicate k step = Some p" for k p
          using macro_predicate_size [OF that] sub [of p] by (simp add: EComp)
        then have "pred_option (\<lambda>a. sub_keeps cel (snd a)) ?pred" by (auto split: option.split)
        note keeps_macro [OF _ this cel', where rng = "(rng, \<lambda>env'. check_expr rng env')" and e = e and var = var
            and two = "var2 \<noteq> None" and kind = "macro_of accu"]
        then show ?thesis using ok sub [of rng] unfolding unfold by (simp add: EComp)
      next
        case (EList i xs optional)
        have size: "size a < size e" if "a \<in> set xs" for a
          using that by (simp add: EList less_Suc_eq_le trans_le_add1 size_list_estimation')
        note keeps_elements [OF args [OF size] cel', where elem = TDyn and c = 1]
        then show ?thesis using ok unfolding unfold by (auto simp: EList intro!: keeps_bindp)
      next
        case (EMap i entries)
        have "sub_keeps cel (check_expr k) \<and> sub_keeps cel (check_expr v)" if "MapEntry k v opt \<in> set entries" for k v opt
          using entry_size [OF that, of i] sub [of k] sub [of v] by (simp add: EMap)
        then have "list_all (pred_option (\<lambda>(k, v, _). sub_keeps cel (snd k) \<and> sub_keeps cel (snd v)))
            (map (\<lambda>en. case en of MapEntry k v optional \<Rightarrow>
                Some ((k, \<lambda>env'. check_expr k env'), (v, \<lambda>env'. check_expr v env'), optional) | StructField _ _ _ \<Rightarrow> None) entries)"
          by (auto simp: list_all_iff split: entry.split)
        note keeps_entries [OF this cel', where e = e and key = TDyn and val = TDyn and c = 1]
        then show ?thesis using ok unfolding unfold by (auto simp: EMap intro!: keeps_bindP split: prod.split)
      qed (unfold unfold, use ok in \<open>simp_all\<close>)
    qed
  qed
qed

section \<open>Rules\<close>

definition seen_ok :: "cel_env \<Rightarrow> (string \<times> string option) list \<Rightarrow> bool" where
  "seen_ok cel seen =
     (al_wf seen \<and> length seen \<le> MAX_POLICY_PATTERNS \<and> (\<forall>(p, r) \<in> set seen. r = cc_regex cel p))"

lemma check_run_patterns:
  assumes "seen_ok cel seen" "ck_cel env = cel"
    and "check_expr root env \<lparr>cs_seen = seen, cs_warnings = [], cs_reads = {}, cs_patterns = {}\<rparr> = (r, s)"
  shows "patterns_ok cel s"
proof -
  have "patterns_ok cel \<lparr>cs_seen = seen, cs_warnings = [], cs_reads = {}, cs_patterns = {}\<rparr>"
    using assms(1) by (simp add: seen_ok_def patterns_ok_def)
  then show ?thesis using check_expr_keeps [of cel root] assms(2,3) unfolding sub_keeps_def keeps_def by (metis snd_conv)
qed

lemma check_in_seen:
  assumes seen: "seen_ok cel seen"
  shows "seen_ok cel (snd (check_in cel sc source expected seen))"
proof -
  have "seen_ok cel (cs_seen s)" if "check_expr root \<lparr>ck_schema = sc, ck_cel = cel, ck_source = source, ck_offset = offsets,
      ck_scopes = [], ck_guards = [], ck_depth = 0\<rparr> \<lparr>cs_seen = seen, cs_warnings = [], cs_reads = {}, cs_patterns = {}\<rparr> = (r, s)"
    for root offsets r s
    using check_run_patterns [OF seen _ that] by (simp add: seen_ok_def patterns_ok_def)
  then show ?thesis using seen
    by (auto simp: check_in_def check_on_this_thread_def Let_def split: sum.split option.split prod.split)
qed

lemma check_in_typed:
  assumes seen: "seen_ok cel seen"
    and accepted: "check_in cel sc source TBool seen = (Inr cd, seen')"
  shows "(\<exists>root offsets. cc_parse cel source = Inr (root, offsets) \<and> typed sc [] root (cd_result cd) (cd_cost cd))
    \<and> assignable TBool (cd_result cd) \<and> cd_cost cd \<le> 100000 \<and> length source \<le> 4096 \<and> max_nesting source \<le> 64
    \<and> card (cd_patterns cd) \<le> 8 \<and> (\<forall>p \<in> cd_patterns cd. cc_regex cel p = None) \<and> seen_ok cel seen'"
proof -
  define env where "env root offsets = \<lparr>ck_schema = sc, ck_cel = cel, ck_source = source, ck_offset = offsets, ck_scopes = [],
      ck_guards = [], ck_depth = 0\<rparr>" for root :: expr and offsets
  obtain root offsets t c s where p: "cc_parse cel source = Inr (root, offsets)"
      and run: "check_expr root (env root offsets) \<lparr>cs_seen = seen, cs_warnings = [], cs_reads = {}, cs_patterns = {}\<rparr> = (Inr (t, c), s)"
      and t: "assignable TBool t" "c \<le> MAX_COST" and lim: "check_limits source = Inr ()"
      and cd: "cd_result cd = t" "cd_cost cd = c" "cd_patterns cd = cs_patterns s"
    using accepted
    by (auto simp: check_in_def check_on_this_thread_def parse_rule_def env_def Let_def
        split: sum.splits option.splits prod.splits if_splits)
  obtain n where n: "typed sc [] root t n" "exact c n"
    using sub_okD [OF check_expr_sound [of sc root] run] by (auto simp: env_def)
  have "c = n" using n(2) t(2) by (auto simp: exact_def min_def MAX_COST_def u64_max_def u64_bound_def split: if_splits)
  moreover have "patterns_ok cel s" by (rule check_run_patterns [OF seen _ run]) (simp add: env_def)
  ultimately show ?thesis
    using n(1) p t lim cd check_in_seen [OF seen, of sc source TBool] accepted
    by (auto simp: patterns_ok_def MAX_COST_def MAX_PATTERNS_def check_limits_def MAX_SOURCE_LEN_def MAX_DEPTH_def split: if_splits)
qed


text \<open>The rule \<^verbatim>\<open>steps.exists(s, s.deploy && s.image.matches('evil'))\<close>, as it parses.\<close>

definition sample_rule :: expr where
  "sample_rule = EComp 9 (EIdent 1 ''steps'') ''s'' None (ELiteral 10 (LBool False)) (ELiteral 11 (LBool True))
     (ECall 12 (Op LogicalOr) None [EIdent 13 ''@result'',
        ECall 8 (Op LogicalAnd) None [ESelect 3 (EIdent 2 ''s'') ''deploy'' False,
          ECall 7 (Fn ''matches'') (Some (ESelect 5 (EIdent 4 ''s'') ''image'' False)) [ELiteral 6 (LString ''evil'')]]])
     (EIdent 14 ''@result'')"

definition sample_cel :: cel_env where
  "sample_cel = \<lparr>cc_parse = \<lambda>_. Inr (sample_rule, \<lambda>_. None), cc_thread = None, cc_regex = \<lambda>_. None, cc_probe = \<lambda>_. True,
     cc_render = \<lparr>rn_string = id, rn_bytes = id, rn_double = id, rn_func = \<lambda>_. ''op''\<rparr>\<rparr>"


end
