(* ===== verification/Policy_Compile.thy ===== *)
theory Policy_Compile
  imports Policy_Check_Laws
begin

text \<open>
  The policy IR and its compiler (\<^verbatim>\<open>scarab-policy/src/ir.rs\<close>): an authored policy is validated for the level
  it attaches to, its CEL rules are checked against the checkpoint's schema, a typed setting becomes one
  typed rule. Every finding is returned. The content hash of a policy (SHA-256 of its canonical JSON) is
  a parameter.
\<close>

section \<open>The IR\<close>

definition MAX_NAME_LEN :: nat where "MAX_NAME_LEN = 100"

definition MAX_RULES :: nat where "MAX_RULES = 32"

definition MAX_LIST :: nat where "MAX_LIST = 256"

definition MAX_TEXT_LEN :: nat where "MAX_TEXT_LEN = 1024"

record cel_predicate =
  cp_source :: string
  cp_cost :: nat
  cp_warnings :: "diagnostic list"
  cp_reads :: "string list"

datatype typed_predicate =
    PLibrariesAllowed "string list"
  | PLibrariesBlocked "string list"
  | PPluginsAllowed "string list"

datatype rule_predicate = CelRule cel_predicate | TypedRule typed_predicate

record rule_ir =
  ri_predicate :: rule_predicate
  ri_effect :: effect
  ri_message :: string

record policy_ir =
  pi_policy_id :: string
  pi_version :: nat
  pi_content_hash :: string
  pi_name :: string
  pi_level :: policy_level
  pi_checkpoint :: checkpoint
  pi_match :: match_sel
  pi_mode :: policy_mode
  pi_rules :: "rule_ir list"

definition with_identity :: "string \<Rightarrow> nat \<Rightarrow> policy_ir \<Rightarrow> policy_ir" where
  "with_identity policy_id version ir = ir\<lparr>pi_policy_id := policy_id, pi_version := version\<rparr>"

definition ir_warnings :: "policy_ir \<Rightarrow> diagnostic list" where
  "ir_warnings ir = concat (map (\<lambda>r. case ri_predicate r of CelRule c \<Rightarrow> cp_warnings c | TypedRule _ \<Rightarrow> []) (pi_rules ir))"

section \<open>Validation\<close>

text \<open>The characters \<^verbatim>\<open>str::trim\<close> removes: Unicode white space, as its bytes.\<close>

definition is_white :: "string \<Rightarrow> bool" where
  "is_white c =
     (c \<in> {[CHR 0x09], [CHR 0x0A], [CHR 0x0B], [CHR 0x0C], [CHR 0x0D], [CHR 0x20], [CHR 0xC2, CHR 0x85], [CHR 0xC2, CHR 0xA0],
          [CHR 0xE1, CHR 0x9A, CHR 0x80], [CHR 0xE2, CHR 0x80, CHR 0xA8], [CHR 0xE2, CHR 0x80, CHR 0xA9],
          [CHR 0xE2, CHR 0x80, CHR 0xAF], [CHR 0xE2, CHR 0x81, CHR 0x9F], [CHR 0xE3, CHR 0x80, CHR 0x80]}
      \<or> (\<exists>n \<in> set [128..<139]. c = [CHR 0xE2, CHR 0x80, char_of (n :: nat)]))"

definition blank :: "string \<Rightarrow> bool" where
  "blank text = list_all is_white (utf8_chars text)"

definition validate_text :: "string \<Rightarrow> string \<Rightarrow> string \<Rightarrow> diagnostic list" where
  "validate_text text loc what =
     (if blank text then [diagnostic_at loc (what @ '' cannot be empty'')]
      else if length text > MAX_TEXT_LEN
      then [diagnostic_at loc (what @ '' is at most '' @ nat_str MAX_TEXT_LEN @ '' bytes'')]
      else [])"

fun validate_items :: "string \<Rightarrow> nat \<Rightarrow> string list \<Rightarrow> diagnostic list" where
  "validate_items loc i [] = []"
| "validate_items loc i (item # items) = validate_text item (at_index loc i) ''an entry'' @ validate_items loc (Suc i) items"

definition validate_list :: "string list \<Rightarrow> string \<Rightarrow> diagnostic list" where
  "validate_list xs loc =
     (if length xs > MAX_LIST
      then [diagnostic_at loc (''at most '' @ nat_str MAX_LIST @ '' entries; this has '' @ nat_str (length xs))] else [])
     @ validate_items loc 0 xs"

definition validate_match :: "match_sel \<Rightarrow> diagnostic list" where
  "validate_match m =
     validate_list (ma_projects m) ''match.projects''
     @ validate_list (ma_except_projects m) ''match.except_projects''
     @ validate_list (ma_environments m) ''match.environments''
     @ (if length (ma_trigger_kinds m) > MAX_LIST
        then [diagnostic_at ''match.trigger_kinds'' (''at most '' @ nat_str MAX_LIST @ '' entries'')] else [])"

definition name_char :: "char \<Rightarrow> bool" where
  "name_char c = (is_ascii_alphanumeric c \<or> c \<in> set ''-_.'')"

definition validate_name :: "string \<Rightarrow> diagnostic list" where
  "validate_name name =
     (if name = [] \<or> length name > MAX_NAME_LEN \<or> \<not> list_all name_char name
      then [diagnostic_at ''name'' (quoted name @ '': a Policy name is 1 to '' @ nat_str MAX_NAME_LEN
              @ '' letters, digits, '' @ quoted ''-'' @ '', '' @ quoted ''_'' @ '' or '' @ quoted ''.'')]
      else [])"

section \<open>Typed settings\<close>

definition setting_list :: "typed_setting \<Rightarrow> string \<times> string list" where
  "setting_list s = (case s of LibrariesAllowed sources \<Rightarrow> (''sources'', sources) | LibrariesBlocked sources \<Rightarrow> (''sources'', sources)
     | PluginsAllowed installations \<Rightarrow> (''installations'', installations))"

text \<open>A star anywhere but at the end, or any star in the name of an installation.\<close>

definition bad_pattern :: "string \<Rightarrow> string \<Rightarrow> bool" where
  "bad_pattern field p =
     (let wildcard = length (takeWhile (\<lambda>c. c \<noteq> CHR ''*'') p)
      in wildcard < length p \<and> (wildcard \<noteq> length p - 1 \<or> field = ''installations''))"

fun pattern_findings :: "string \<Rightarrow> string \<Rightarrow> nat \<Rightarrow> string list \<Rightarrow> diagnostic list" where
  "pattern_findings loc field i [] = []"
| "pattern_findings loc field i (p # ps) =
     (if bad_pattern field p
      then [diagnostic_at (at_index loc i)
              (if field = ''installations'' then quoted p @ '': an installation is named exactly, with no '' @ quoted ''*''
               else quoted p @ '': a pattern is an exact name or a prefix ending in '' @ quoted ''*'')]
      else [])
     @ pattern_findings loc field (Suc i) ps"

definition compile_setting :: "typed_setting \<Rightarrow> diagnostic list \<times> rule_ir" where
  "compile_setting s =
     (let (field, xs) = setting_list s; loc = ''setting.'' @ setting_name s @ ''.'' @ field in
      (validate_list xs loc @ pattern_findings loc field 0 xs,
       \<lparr>ri_predicate = TypedRule (case s of LibrariesAllowed sources \<Rightarrow> PLibrariesAllowed sources
           | LibrariesBlocked sources \<Rightarrow> PLibrariesBlocked sources | PluginsAllowed installations \<Rightarrow> PPluginsAllowed installations),
        ri_effect = Deny,
        ri_message = (case s of LibrariesAllowed _ \<Rightarrow> ''This Run uses a library that is not allowed here.''
           | LibrariesBlocked _ \<Rightarrow> ''This Run uses a blocked library.''
           | PluginsAllowed _ \<Rightarrow> ''This Run has a gate from a plugin that is not allowed here.'')\<rparr>))"

section \<open>Compilation\<close>

definition located :: "string \<Rightarrow> diagnostic \<Rightarrow> diagnostic" where
  "located loc d = d\<lparr>dg_at := loc\<rparr>"

definition effect_findings :: "checkpoint \<Rightarrow> string \<Rightarrow> effect \<Rightarrow> diagnostic list" where
  "effect_findings c loc e =
     (if checkpoint_allows c e \<and> e \<noteq> Deny
      then [diagnostic_at (loc @ ''.effect'') (quoted (effect_name e) @ '' is not built yet at '' @ quoted (checkpoint_str c)
              @ ''; only '' @ quoted ''deny'' @ '' is evaluated'')]
      else if \<not> checkpoint_allows c e
      then [diagnostic_at (loc @ ''.effect'') (quoted (effect_name e) @ '' is not allowed at '' @ quoted (checkpoint_str c)
              @ '', which allows '' @ quoted ''deny'' @ '' only'')]
      else [])"

text \<open>One rule: its findings, its IR when it checks, and the patterns the policy has used.\<close>

definition compile_rule ::
  "cel_env \<Rightarrow> checkpoint \<Rightarrow> schema \<Rightarrow> nat \<Rightarrow> rule \<Rightarrow> (string \<times> string option) list \<Rightarrow>
     diagnostic list \<times> rule_ir list \<times> (string \<times> string option) list" where
  "compile_rule cel c sc i r seen =
     (let loc = at_index ''rules'' i;
          findings = effect_findings c loc (ru_effect r) @ validate_text (ru_message r) (loc @ ''.message'') ''a message''
      in case check_in cel sc (ru_when r) TBool seen of
           (Inr cd, seen') \<Rightarrow>
             (findings,
              [\<lparr>ri_predicate = CelRule \<lparr>cp_source = cd_source cd, cp_cost = cd_cost cd,
                   cp_warnings = map (located (loc @ ''.when'')) (cd_warnings cd), cp_reads = sorted_list_of_set (cd_reads cd)\<rparr>,
                ri_effect = ru_effect r, ri_message = ru_message r\<rparr>], seen')
         | (Inl ds, seen') \<Rightarrow> (findings @ map (located (loc @ ''.when'')) ds, [], seen'))"

fun compile_rules ::
  "cel_env \<Rightarrow> checkpoint \<Rightarrow> schema \<Rightarrow> nat \<Rightarrow> rule list \<Rightarrow> (string \<times> string option) list \<Rightarrow>
     diagnostic list \<times> rule_ir list \<times> (string \<times> string option) list" where
  "compile_rules cel c sc i [] seen = ([], [], seen)"
| "compile_rules cel c sc i (r # rs) seen =
     (let (ds, out, seen') = compile_rule cel c sc i r seen; (ds', out', seen'') = compile_rules cel c sc (Suc i) rs seen'
      in (ds @ ds', out @ out', seen''))"

definition rule_count_findings :: "rule list \<Rightarrow> diagnostic list" where
  "rule_count_findings rules =
     (if rules = [] then [diagnostic_at ''rules'' ''a Policy needs at least one rule''] else [])
     @ (if length rules > MAX_RULES
        then [diagnostic_at ''rules'' (''a Policy has at most '' @ nat_str MAX_RULES @ '' rules; this one has '' @ nat_str (length rules))]
        else [])"

definition compile_body ::
  "cel_env \<Rightarrow> policy_level \<Rightarrow> checkpoint \<Rightarrow> schema \<Rightarrow> body \<Rightarrow> diagnostic list \<times> rule_ir list" where
  "compile_body cel level c sc b =
     (case b of
        Rules rules \<Rightarrow>
          (if level = LProject
           then ([diagnostic_at ''rules'' (''Project admins write typed settings only (ADR-0075 '' @ [CHR 0xC2, CHR 0xA7] @ ''7); use ''
                    @ quoted ''setting'' @ '', or write CEL rules at the org level'')], [])
           else (let (ds, out, _) = compile_rules cel c sc 0 rules [] in (rule_count_findings rules @ ds, out)))
      | Setting s \<Rightarrow>
          (let (ds, r) = compile_setting s in
           ((if c \<noteq> RunCreate
             then [diagnostic_at ''checkpoint'' (quoted (setting_name s) @ '' compiles to '' @ quoted ''run.create'' @ '', not ''
                     @ quoted (checkpoint_str c))]
             else []) @ ds, [r])))"

definition checkpoint_schema :: "checkpoint \<Rightarrow> schema" where
  "checkpoint_schema c = the (schema_for c (the (schema_version c)))"

definition compile_policy :: "cel_env \<Rightarrow> (policy \<Rightarrow> string) \<Rightarrow> policy \<Rightarrow> policy_level \<Rightarrow> diagnostic list + policy_ir" where
  "compile_policy cel content_hash p level =
     (let c = po_checkpoint p; errors = validate_name (po_name p) @ validate_match (po_match p) in
      if \<not> is_consulted c
      then Inl (errors @ [diagnostic_at ''checkpoint'' (''checkpoint '' @ quoted (checkpoint_str c) @ '' is not yet supported'')])
      else
        (let errors = errors
               @ (if c \<noteq> RunCreate \<and> ma_trigger_kinds (po_match p) \<noteq> []
                  then [diagnostic_at ''match.trigger_kinds'' (quoted ''trigger_kinds'' @ '' is matched at '' @ quoted ''run.create''
                          @ '' only, not at '' @ quoted (checkpoint_str c))]
                  else []);
             (ds, rules) = compile_body cel level c (checkpoint_schema c) (po_body p)
         in if errors @ ds \<noteq> [] then Inl (errors @ ds)
            else Inr \<lparr>pi_policy_id = [], pi_version = 0, pi_content_hash = content_hash p, pi_name = po_name p, pi_level = level,
                      pi_checkpoint = c, pi_match = po_match p, pi_mode = po_mode p, pi_rules = rules\<rparr>))"

definition compile_stored :: "cel_env \<Rightarrow> (policy \<Rightarrow> string) \<Rightarrow> stored_policy \<Rightarrow> diagnostic list + policy_ir" where
  "compile_stored cel content_hash p =
     (case compile_policy cel content_hash (sp_body p) (scope_level (sp_scope p)) of
        Inl ds \<Rightarrow> Inl ds | Inr ir \<Rightarrow> Inr (with_identity (sp_id p) (sp_version p) ir))"

end
