(* ===== verification/Policy_Eval.thy ===== *)
theory Policy_Eval
  imports Policy_Compile
begin

text \<open>
  The evaluator of policies (\<^verbatim>\<open>scarab-policy/src/evaluate.rs\<close>, \<^verbatim>\<open>eval.rs\<close>): every policy whose checkpoint and \<^verbatim>\<open>match\<close>
  fit is evaluated, an enforced deny or error denies, an audit hit is recorded only, and at \<^verbatim>\<open>run.create\<close>
  no plugin's gate runs until an org-level setting lists the plugin. The interpreter of the \<^verbatim>\<open>cel\<close> crate, regular
  expressions, SHA-256 and whether the interpreter's thread starts are parameters.
\<close>

section \<open>Evaluating a rule\<close>

definition MATCHES_FN :: string where
  "MATCHES_FN = ''@scarab.matches''"

primrec route_matches :: "expr \<Rightarrow> expr" and route_entry :: "entry \<Rightarrow> entry" where
  "route_matches (ELiteral i l) = ELiteral i l"
| "route_matches (EIdent i n) = EIdent i n"
| "route_matches (ESelect i operand f test) = ESelect i (route_matches operand) f test"
| "route_matches (ECall i f target args) =
     ECall i (if f = Fn ''matches'' \<and> target \<noteq> None \<and> length args = 1 then Fn MATCHES_FN else f)
       (map_option route_matches target) (map route_matches args)"
| "route_matches (EComp i rng var var2 accu cond step res) =
     EComp i (route_matches rng) var var2 (route_matches accu) (route_matches cond) (route_matches step) (route_matches res)"
| "route_matches (EList i elements optional) = EList i (map route_matches elements) optional"
| "route_matches (EMap i entries) = EMap i (map route_entry entries)"
| "route_matches (EStruct i name entries) = EStruct i name (map route_entry entries)"
| "route_matches (EUnspecified i) = EUnspecified i"
| "route_entry (MapEntry k v optional) = MapEntry (route_matches k) (route_matches v) optional"
| "route_entry (StructField f v optional) = StructField f (route_matches v) optional"

text \<open>What the interpreter returns: a boolean, or the debug form of another value.\<close>

datatype answer = ABool bool | AOther string

text \<open>
  \<open>ev_resolve\<close> is the interpreter, given the function bound to \<^const>\<open>MATCHES_FN\<close> and the variables; \<open>ev_is_match\<close> is
  a compiled pattern's search; \<open>ev_thread\<close> is why the interpreter's thread could not run, if it could not.
\<close>

record eval_env =
  ev_cel :: cel_env
  ev_json :: json_env
  ev_resolve :: "(string \<Rightarrow> string \<Rightarrow> string \<times> string + bool) \<Rightarrow> (string \<times> cel) list \<Rightarrow> expr \<Rightarrow> string + answer"
  ev_is_match :: "string \<Rightarrow> string \<Rightarrow> bool"
  ev_thread :: "string option"
  ev_sha256_hex :: "string \<Rightarrow> string"
  ev_content_hash :: "policy \<Rightarrow> string"

text \<open>A rule's \<^verbatim>\<open>matches\<close>. The cache of compiled patterns holds what the compiler answers for each.\<close>

definition matches_fn :: "eval_env \<Rightarrow> string \<Rightarrow> string \<Rightarrow> string \<times> string + bool" where
  "matches_fn ev text pattern =
     (case cc_regex (ev_cel ev) pattern of
        None \<Rightarrow> Inr (ev_is_match ev pattern text)
      | Some e \<Rightarrow> Inl (''matches'', [CHR 0x27] @ pattern @ [CHR 0x27] @ '' is not a valid regex: '' @ e))"

definition evaluate_when :: "eval_env \<Rightarrow> string \<Rightarrow> (string \<times> cel) list \<Rightarrow> string + bool" where
  "evaluate_when ev source context =
     (case check_limits source of
        Inl ds \<Rightarrow> Inl (dg_message (hd ds))
      | Inr _ \<Rightarrow>
          (case parse_rule (ev_cel ev) source of
             Inl ds \<Rightarrow> Inl (dg_message (hd ds))
           | Inr (root, _) \<Rightarrow>
               (case ev_resolve ev (matches_fn ev) context (route_matches root) of
                  Inl e \<Rightarrow> Inl e
                | Inr (ABool b) \<Rightarrow> Inr b
                | Inr (AOther v) \<Rightarrow> Inl (quoted ''when'' @ '' returned '' @ v @ '', not a bool''))))"

section \<open>Steps and gates of an input\<close>

definition MAX_TYPED_MESSAGES :: nat where "MAX_TYPED_MESSAGES = 10"

record origin_ref =
  or_kind :: string
  or_name :: string
  or_source :: "string option"

definition origin_key :: "origin_ref \<Rightarrow> string" where
  "origin_key o' = (case or_source o' of Some s \<Rightarrow> s | None \<Rightarrow> or_name o')"

definition origin_describe :: "origin_ref \<Rightarrow> string" where
  "origin_describe o' =
     (if or_kind o' = ''file'' then ''file '' @ quoted (or_name o')
      else if or_kind o' = ''plugin'' then ''plugin '' @ quoted (or_name o')
      else ''library '' @ quoted (origin_key o'))"

record input_unit =
  un_what :: string
  un_id :: string
  un_origins :: "origin_ref list"

definition json_get :: "json \<Rightarrow> string \<Rightarrow> json option" where
  "json_get v k = (case v of JObject obj \<Rightarrow> map_of obj k | _ \<Rightarrow> None)"

definition json_str :: "json option \<Rightarrow> string option" where
  "json_str v = (case v of Some (JString s) \<Rightarrow> Some s | _ \<Rightarrow> None)"

definition json_array :: "json option \<Rightarrow> json list option" where
  "json_array v = (case v of Some (JArray vs) \<Rightarrow> Some vs | _ \<Rightarrow> None)"

fun origin_refs :: "string \<Rightarrow> nat \<Rightarrow> json list \<Rightarrow> string + origin_ref list" where
  "origin_refs path j [] = Inr []"
| "origin_refs path j (o' # chain) =
     (case (json_str (json_get o' ''kind''), json_str (json_get o' ''name'')) of
        (None, _) \<Rightarrow> Inl (quoted (at_index (path @ ''.origin'') j) @ '' has no kind'')
      | (Some _, None) \<Rightarrow> Inl (quoted (at_index (path @ ''.origin'') j) @ '' has no name'')
      | (Some kind, Some name) \<Rightarrow>
          (case origin_refs path (Suc j) chain of
             Inl e \<Rightarrow> Inl e
           | Inr refs \<Rightarrow> Inr (\<lparr>or_kind = kind, or_name = name, or_source = json_str (json_get o' ''source'')\<rparr> # refs)))"

definition unit_origins :: "string \<Rightarrow> json option \<Rightarrow> string + origin_ref list" where
  "unit_origins path v =
     (case v of
        None \<Rightarrow> Inr []
      | Some JNull \<Rightarrow> Inr []
      | Some (JArray chain) \<Rightarrow> origin_refs path 0 chain
      | Some _ \<Rightarrow> Inl (quoted (path @ ''.origin'') @ '' is not a list''))"

fun unit_items :: "string \<Rightarrow> string \<Rightarrow> nat \<Rightarrow> json list \<Rightarrow> string + input_unit list" where
  "unit_items what list i [] = Inr []"
| "unit_items what list i (item # items) =
     (case json_str (json_get item ''id'') of
        None \<Rightarrow> Inl (quoted (at_index list i) @ '' has no id'')
      | Some uid \<Rightarrow>
          (case unit_origins (at_index list i) (json_get item ''origin'') of
             Inl e \<Rightarrow> Inl e
           | Inr origins \<Rightarrow>
               (case unit_items what list (Suc i) items of
                  Inl e \<Rightarrow> Inl e
                | Inr us \<Rightarrow> Inr (\<lparr>un_what = what, un_id = uid, un_origins = origins\<rparr> # us))))"

definition unit_list :: "json \<Rightarrow> string \<Rightarrow> string \<Rightarrow> string + input_unit list" where
  "unit_list input list what =
     (case json_array (json_get input list) of
        None \<Rightarrow> Inl (''the input has no '' @ quoted list @ '' list'')
      | Some items \<Rightarrow> unit_items what list 0 items)"

definition units :: "json \<Rightarrow> string + input_unit list" where
  "units input =
     (case unit_list input ''steps'' ''Step'' of
        Inl e \<Rightarrow> Inl e
      | Inr steps \<Rightarrow> (case unit_list input ''gates'' ''Gate'' of Inl e \<Rightarrow> Inl e | Inr gates \<Rightarrow> Inr (steps @ gates)))"

section \<open>Typed predicates\<close>

definition offends :: "typed_predicate \<Rightarrow> string \<Rightarrow> origin_ref \<Rightarrow> bool" where
  "offends t what o' =
     (case t of
        PLibrariesAllowed sources \<Rightarrow>
          or_kind o' \<in> {''library'', ''file''} \<and> \<not> list_ex (\<lambda>p. pattern_matches p (origin_key o')) sources
      | PLibrariesBlocked sources \<Rightarrow> list_ex (\<lambda>p. pattern_matches p (origin_key o')) sources
      | PPluginsAllowed installations \<Rightarrow>
          what = ''Gate'' \<and> or_kind o' = ''plugin'' \<and> \<not> list_ex (\<lambda>n. n = or_name o') installations)"

definition offence :: "typed_predicate \<Rightarrow> string" where
  "offence t =
     (case t of
        PLibrariesAllowed _ \<Rightarrow> ''which is not in the libraries allowed here''
      | PLibrariesBlocked _ \<Rightarrow> ''which is blocked here''
      | PPluginsAllowed _ \<Rightarrow> ''which is not in the plugins whose gates may run here'')"

definition unit_message :: "typed_predicate \<Rightarrow> input_unit \<Rightarrow> string list" where
  "unit_message t u =
     (case List.find (offends t (un_what u)) (un_origins u) of
        None \<Rightarrow> []
      | Some o' \<Rightarrow> [un_what u @ '' '' @ quoted (un_id u) @ '' comes from '' @ origin_describe o' @ '', '' @ offence t @ ''.''])"

text \<open>The first messages, and how many more there are; the text starts with an ellipsis.\<close>

definition cut_messages :: "string \<Rightarrow> string list \<Rightarrow> string list" where
  "cut_messages tail messages =
     (if length messages > MAX_TYPED_MESSAGES
      then take MAX_TYPED_MESSAGES messages
        @ [[CHR 0xE2, CHR 0x80, CHR 0xA6] @ ''and '' @ nat_str (length messages - MAX_TYPED_MESSAGES) @ tail]
      else messages)"

definition typed_messages :: "typed_predicate \<Rightarrow> json \<Rightarrow> string + string list" where
  "typed_messages t input =
     (case units input of
        Inl e \<Rightarrow> Inl e
      | Inr us \<Rightarrow> Inr (cut_messages '' more Steps or gates.'' (concat (map (unit_message t) us))))"

section \<open>Evaluating policies\<close>

record policy_decision =
  pd_checkpoint :: checkpoint
  pd_schema_version :: nat
  pd_input :: json
  pd_policy_set_digest :: string
  pd_results :: "policy_result list"
  pd_outcome :: decision_outcome

definition is_denied :: "policy_decision \<Rightarrow> bool" where
  "is_denied d = (case pd_outcome d of DenyDecision _ \<Rightarrow> True | Allow \<Rightarrow> False)"

definition decision_messages :: "policy_decision \<Rightarrow> string list" where
  "decision_messages d = (case pd_outcome d of Allow \<Rightarrow> [] | DenyDecision messages \<Rightarrow> messages)"

definition unmet_requirements :: "policy_decision \<Rightarrow> string list" where
  "unmet_requirements d =
     concat (map (\<lambda>r. case pr_outcome r of Requires messages \<Rightarrow> messages | _ \<Rightarrow> [])
       (filter (\<lambda>r. pr_mode r = Enforce) (pd_results d)))"

definition attributed_messages :: "policy_decision \<Rightarrow> string list" where
  "attributed_messages d =
     concat (map (\<lambda>r. case pr_outcome r of
                        Denied m \<Rightarrow> map (\<lambda>m. ''policy '' @ quoted (pr_name r) @ '': '' @ m) m
                      | OutcomeError m \<Rightarrow> [''policy '' @ quoted (pr_name r) @ '': '' @ m]
                      | _ \<Rightarrow> [])
       (filter (\<lambda>r. pr_mode r = Enforce) (pd_results d)))"

definition any_matched :: "policy_decision \<Rightarrow> bool" where
  "any_matched d = list_ex (\<lambda>r. pr_outcome r \<noteq> NotMatched) (pd_results d)"

definition digest_line :: "policy_ir \<Rightarrow> string" where
  "digest_line p = pi_policy_id p @ ''@'' @ nat_str (pi_version p) @ '':'' @ pi_content_hash p"

definition policy_set_digest :: "eval_env \<Rightarrow> checkpoint \<Rightarrow> policy_ir list \<Rightarrow> string" where
  "policy_set_digest ev c policies =
     ev_sha256_hex ev (join_with [CHR 0x0A] (sort (map digest_line (filter (\<lambda>p. pi_checkpoint p = c) policies))))"

text \<open>The messages with which a result denies: an enforced deny's, or an enforced error's.\<close>

definition denial :: "policy_result \<Rightarrow> string list" where
  "denial r =
     (if pr_mode r \<noteq> Enforce then []
      else case pr_outcome r of Denied m \<Rightarrow> m | OutcomeError m \<Rightarrow> [m] | _ \<Rightarrow> [])"

definition combine :: "policy_result list \<Rightarrow> decision_outcome" where
  "combine results = (let messages = concat (map denial results) in if messages = [] then Allow else DenyDecision messages)"

definition result_of :: "policy_ir \<Rightarrow> policy_outcome \<Rightarrow> policy_result" where
  "result_of p oc = \<lparr>pr_policy_id = pi_policy_id p, pr_version = pi_version p, pr_name = pi_name p, pr_level = pi_level p,
     pr_mode = pi_mode p, pr_outcome = oc\<rparr>"

text \<open>The context of an input. The code binds it on first use and keeps the answer.\<close>

definition cel_context :: "eval_env \<Rightarrow> checkpoint \<Rightarrow> nat \<Rightarrow> json \<Rightarrow> string + (string \<times> cel) list" where
  "cel_context ev c version input =
     (case schema_for c version of
        None \<Rightarrow> Inl (''no input schema for '' @ checkpoint_str c @ '' version '' @ nat_str version)
      | Some sc \<Rightarrow>
          (case bind_input (ev_json ev) sc input of
             Inl e \<Rightarrow> Inl (''input does not match the schema: '' @ e)
           | Inr ctx \<Rightarrow> Inr ctx))"

definition rule_hit :: "eval_env \<Rightarrow> checkpoint \<Rightarrow> nat \<Rightarrow> json \<Rightarrow> rule_ir \<Rightarrow> string + string list" where
  "rule_hit ev c version input r =
     (case cel_context ev c version input of
        Inl e \<Rightarrow> Inl e
      | Inr ctx \<Rightarrow>
          (case ri_predicate r of
             CelRule cp \<Rightarrow>
               (case evaluate_when ev (cp_source cp) ctx of
                  Inl e \<Rightarrow> Inl e | Inr b \<Rightarrow> Inr (if b then [ri_message r] else []))
           | TypedRule t \<Rightarrow> typed_messages t input))"

text \<open>The errors and the deny messages of a policy's rules.\<close>

fun rule_hits ::
  "eval_env \<Rightarrow> checkpoint \<Rightarrow> nat \<Rightarrow> json \<Rightarrow> nat \<Rightarrow> rule_ir list \<Rightarrow> string list \<times> string list" where
  "rule_hits ev c version input i [] = ([], [])"
| "rule_hits ev c version input i (r # rules) =
     (let (errors, denies) = rule_hits ev c version input (Suc i) rules in
      if \<not> checkpoint_allows c (ri_effect r) \<or> ri_effect r \<noteq> Deny
      then ((''rule '' @ nat_str i @ '': '' @ quoted (effect_name (ri_effect r)) @ '' is not evaluated at '' @ checkpoint_str c) # errors,
            denies)
      else
        (case rule_hit ev c version input r of
           Inr m \<Rightarrow> (errors, m @ denies)
         | Inl e \<Rightarrow>
             ((ri_message r @ '' (the rule could not be evaluated, so it denies: '' @ e @ '')'') # errors, denies)))"

definition evaluate_policy :: "eval_env \<Rightarrow> checkpoint \<Rightarrow> nat \<Rightarrow> json \<Rightarrow> match_context \<Rightarrow> policy_ir \<Rightarrow> policy_outcome" where
  "evaluate_policy ev c version input ctx p =
     (if \<not> policy_matches (pi_match p) ctx then NotMatched
      else
        (let (errors, denies) = rule_hits ev c version input 0 (pi_rules p) in
         if errors \<noteq> [] then OutcomeError (join_with ''; '' (errors @ denies))
         else if denies = [] then Passed
         else if pi_mode p = Audit then WouldDeny denies
         else Denied denies))"

definition evaluate_all ::
  "eval_env \<Rightarrow> checkpoint \<Rightarrow> nat \<Rightarrow> json \<Rightarrow> match_context \<Rightarrow> policy_ir list \<Rightarrow> policy_result list" where
  "evaluate_all ev c version input ctx policies = map (\<lambda>p. result_of p (evaluate_policy ev c version input ctx p)) policies"

text \<open>The result of every policy that could not be evaluated.\<close>

definition failed_results :: "match_context \<Rightarrow> (policy_ir \<Rightarrow> string) \<Rightarrow> policy_ir list \<Rightarrow> policy_result list" where
  "failed_results ctx message policies =
     map (\<lambda>p. result_of p (if policy_matches (pi_match p) ctx then OutcomeError (message p) else NotMatched)) policies"

definition evaluate ::
  "eval_env \<Rightarrow> checkpoint \<Rightarrow> nat \<Rightarrow> json \<Rightarrow> match_context \<Rightarrow> policy_ir list \<Rightarrow> policy_decision" where
  "evaluate ev c version input ctx policies =
     (let here = filter (\<lambda>p. pi_checkpoint p = c) policies;
          results = (case ev_thread ev of
              None \<Rightarrow> evaluate_all ev c version input ctx here
            | Some e \<Rightarrow> failed_results ctx
                (\<lambda>p. ''policy '' @ quoted (pi_name p) @ '' could not be evaluated: '' @ e) here)
      in \<lparr>pd_checkpoint = c, pd_schema_version = version, pd_input = input,
          pd_policy_set_digest = policy_set_digest ev c policies, pd_results = results, pd_outcome = combine results\<rparr>)"

section \<open>The closed default for plugins\<close>

definition PLUGINS_DEFAULT_ID :: string where
  "PLUGINS_DEFAULT_ID = ''builtin:plugins_allowed''"

record plugin_gate =
  pg_gate :: string
  pg_plugin :: string

definition plugin_gates :: "pipeline_ir \<Rightarrow> plugin_gate list" where
  "plugin_gates ir =
     concat (map (\<lambda>s. map (\<lambda>o'. \<lparr>pg_gate = ps_id s, pg_plugin = oe_name o'\<rparr>)
                        (filter (\<lambda>o'. oe_kind o' = OPlugin) (ps_origin s)))
       (filter is_gate (ir_steps ir)))"

definition has_plugin_gate :: "pipeline_ir \<Rightarrow> bool" where
  "has_plugin_gate ir = list_ex (\<lambda>s. is_gate s \<and> list_ex (\<lambda>o'. oe_kind o' = OPlugin) (ps_origin s)) (ir_steps ir)"

definition listed_plugins :: "match_context \<Rightarrow> policy_ir list \<Rightarrow> string list" where
  "listed_plugins ctx policies =
     concat (map (\<lambda>p. concat (map (\<lambda>r. case ri_predicate r of TypedRule (PPluginsAllowed installations) \<Rightarrow> installations | _ \<Rightarrow> [])
                                  (pi_rules p)))
       (filter (\<lambda>p. pi_level p = LOrg \<and> pi_mode p = Enforce \<and> policy_matches (pi_match p) ctx) policies))"

definition unlisted_message :: "plugin_gate \<Rightarrow> string" where
  "unlisted_message g =
     ''Gate '' @ quoted (pg_gate g) @ '' comes from plugin '' @ quoted (pg_plugin g)
     @ '', which no org-level plugins_allowed setting lists; no plugin's gates run until an org admin lists the plugin.''"

definition plugin_outcome :: "string option \<Rightarrow> string list \<Rightarrow> plugin_gate list \<Rightarrow> policy_outcome" where
  "plugin_outcome unbuilt listed gates =
     (let messages = cut_messages '' more from unlisted plugins.''
            (remdups_adj (map unlisted_message (filter (\<lambda>g. pg_plugin g \<notin> set listed) gates)))
      in if messages = [] then Passed
         else Denied (messages
           @ (case unbuilt of None \<Rightarrow> []
              | Some reason \<Rightarrow> [''The Run's input could not be built either, so no Policy checked it: '' @ reason])))"

definition plugin_default ::
  "string + plugin_gate list \<Rightarrow> string option \<Rightarrow> match_context \<Rightarrow> policy_ir list \<Rightarrow> policy_result option" where
  "plugin_default gates unbuilt ctx policies =
     (let result = \<lambda>oc. \<lparr>pr_policy_id = PLUGINS_DEFAULT_ID, pr_version = 0, pr_name = ''plugins-allowed-default'',
                          pr_level = LOrg, pr_mode = Enforce, pr_outcome = oc\<rparr>
      in case gates of
           Inl e \<Rightarrow> Some (result (OutcomeError (''the plugin default could not be evaluated, so it denies: '' @ e)))
         | Inr gs \<Rightarrow>
             (if gs = [] then None else Some (result (plugin_outcome unbuilt (listed_plugins ctx policies) gs))))"

definition unit_plugin_gates :: "input_unit list \<Rightarrow> plugin_gate list" where
  "unit_plugin_gates us =
     concat (map (\<lambda>u. map (\<lambda>o'. \<lparr>pg_gate = un_id u, pg_plugin = or_name o'\<rparr>)
                        (filter (\<lambda>o'. or_kind o' = ''plugin'') (un_origins u)))
       (filter (\<lambda>u. un_what u = ''Gate'') us))"

definition plugins_closed_default :: "json \<Rightarrow> match_context \<Rightarrow> policy_ir list \<Rightarrow> policy_result option" where
  "plugins_closed_default input ctx policies =
     (case units input of
        Inl e \<Rightarrow>
          (if json_array (json_get input ''gates'') = Some [] then None else plugin_default (Inl e) None ctx policies)
      | Inr us \<Rightarrow> plugin_default (Inr (unit_plugin_gates us)) None ctx policies)"

section \<open>Evaluating stored policies\<close>

definition no_longer_compiles :: "stored_policy \<Rightarrow> diagnostic list \<Rightarrow> string" where
  "no_longer_compiles p ds =
     ''version '' @ nat_str (sp_version p) @ '' of this policy no longer compiles, so it denies: ''
     @ join_with ''; '' (map diagnostic_str ds)"

definition compile_here :: "eval_env \<Rightarrow> checkpoint \<Rightarrow> stored_policy list \<Rightarrow> (stored_policy \<times> (string + policy_ir)) list" where
  "compile_here ev c stored =
     map (\<lambda>p. (p, case compile_stored (ev_cel ev) (ev_content_hash ev) p of
                    Inl ds \<Rightarrow> Inl (no_longer_compiles p ds) | Inr ir \<Rightarrow> Inr ir))
       (filter (\<lambda>p. po_checkpoint (sp_body p) = c) stored)"

text \<open>What the digest and the result need of a policy without an IR.\<close>

definition stub_ir :: "checkpoint \<Rightarrow> stored_policy \<Rightarrow> policy_ir" where
  "stub_ir c p = \<lparr>pi_policy_id = sp_id p, pi_version = sp_version p, pi_content_hash = sp_content_hash p, pi_name = sp_name p,
     pi_level = scope_level (sp_scope p), pi_checkpoint = c, pi_match = po_match (sp_body p), pi_mode = po_mode (sp_body p),
     pi_rules = []\<rparr>"

text \<open>
  The results in the order of the stored policies, with the policies the digest covers. \<open>None\<close> is the panic
  of a compiled policy that has no result.
\<close>

fun assemble ::
  "checkpoint \<Rightarrow> match_context \<Rightarrow> (stored_policy \<times> (string + policy_ir)) list \<Rightarrow> policy_result list \<Rightarrow>
     (policy_result list \<times> policy_ir list) option" where
  "assemble c ctx [] evaluated = Some ([], [])"
| "assemble c ctx ((p, Inr ir) # compiled) evaluated =
     (case evaluated of
        [] \<Rightarrow> None
      | r # evaluated' \<Rightarrow> map_option (\<lambda>(rs, irs). (r # rs, ir # irs)) (assemble c ctx compiled evaluated'))"
| "assemble c ctx ((p, Inl message) # compiled) evaluated =
     (let stub = stub_ir c p;
          r = result_of stub (if policy_matches (pi_match stub) ctx then OutcomeError message else NotMatched)
      in map_option (\<lambda>(rs, irs). (r # rs, stub # irs)) (assemble c ctx compiled evaluated))"

definition evaluate_with_builtins ::
  "eval_env \<Rightarrow> checkpoint \<Rightarrow> nat \<Rightarrow> string + json \<Rightarrow> plugin_gate list option \<Rightarrow> match_context \<Rightarrow> stored_policy list \<Rightarrow>
     policy_result list \<Rightarrow> policy_decision option" where
  "evaluate_with_builtins ev c version input gates ctx stored builtins =
     (let compiled = compile_here ev c stored;
          irs = List.map_filter (\<lambda>(_, ir). case ir of Inr ir \<Rightarrow> Some ir | Inl _ \<Rightarrow> None) compiled;
          evaluated = (case input of
              Inr v \<Rightarrow> pd_results (evaluate ev c version v ctx irs)
            | Inl reason \<Rightarrow> failed_results ctx (\<lambda>_. reason) irs)
      in case assemble c ctx compiled evaluated of
           None \<Rightarrow> None
         | Some (rs, digest_set) \<Rightarrow>
             (let plugins =
                    (if c \<noteq> RunCreate then None
                     else case (gates, input) of
                            (Some gs, _) \<Rightarrow>
                              plugin_default (Inr gs) (case input of Inl reason \<Rightarrow> Some reason | Inr _ \<Rightarrow> None) ctx digest_set
                          | (None, Inr v) \<Rightarrow> plugins_closed_default v ctx digest_set
                          | (None, Inl _) \<Rightarrow> None);
                  results = builtins @ rs @ (case plugins of None \<Rightarrow> [] | Some r \<Rightarrow> [r])
              in Some \<lparr>pd_checkpoint = c, pd_schema_version = version,
                       pd_input = (case input of Inr v \<Rightarrow> v | Inl _ \<Rightarrow> JNull),
                       pd_policy_set_digest = policy_set_digest ev c digest_set, pd_results = results,
                       pd_outcome = combine results\<rparr>))"

definition evaluate_stored ::
  "eval_env \<Rightarrow> checkpoint \<Rightarrow> nat \<Rightarrow> string + json \<Rightarrow> plugin_gate list option \<Rightarrow> match_context \<Rightarrow> stored_policy list \<Rightarrow>
     policy_decision option" where
  "evaluate_stored ev c version input gates ctx stored = evaluate_with_builtins ev c version input gates ctx stored []"

end
