(* ===== verification/Policy_Eval_Laws.thy ===== *)
theory Policy_Eval_Laws
  imports Policy_Eval
begin

text \<open>
  What the compiler and the evaluator of policies guarantee. A policy that compiles has only checked rules
  with the deny effect. A decision allows exactly when every enforced policy that matches compiled, its input
  was built and bound, the interpreter ran and no rule held, when no built-in rule denies, and when every
  plugin gate is listed: whatever fails on the way denies.
\<close>

section \<open>Compiled policies\<close>

text \<open>A compiled rule denies, and a CEL rule is typed against the schema within the cost limit.\<close>

definition rule_checked :: "cel_env \<Rightarrow> schema \<Rightarrow> rule_ir \<Rightarrow> bool" where
  "rule_checked cel sc r =
     (ri_effect r = Deny
      \<and> (case ri_predicate r of
           TypedRule _ \<Rightarrow> True
         | CelRule cp \<Rightarrow> cp_cost cp \<le> 100000
             \<and> (\<exists>root offsets t. cc_parse cel (cp_source cp) = Inr (root, offsets) \<and> typed sc [] root t (cp_cost cp)
                  \<and> assignable TBool t)))"

lemma effect_findings_none: "effect_findings c loc e = [] \<longleftrightarrow> e = Deny"
  by (auto simp: effect_findings_def checkpoint_allows_def)

lemma check_in_source: "check_in cel sc source t seen = (Inr cd, seen') \<Longrightarrow> cd_source cd = source"
  by (auto simp: check_in_def check_on_this_thread_def Let_def split: sum.splits option.splits prod.splits if_splits)

lemma check_in_finds: "check_in cel sc source t seen = (Inl ds, seen') \<Longrightarrow> ds \<noteq> []"
  by (auto simp: check_in_def check_on_this_thread_def parse_rule_def check_limits_def Let_def
      split: sum.splits option.splits prod.splits if_splits)

lemma compile_rule_checked:
  assumes seen: "seen_ok cel seen" and clean: "compile_rule cel c sc i r seen = ([], out, seen')"
  shows "seen_ok cel seen' \<and> length out = 1 \<and> list_all (rule_checked cel sc) out"
proof -
  have eff: "ru_effect r = Deny"
    using clean by (auto simp: compile_rule_def Let_def effect_findings_none split: prod.splits sum.splits)
  obtain x seen1 where chk: "check_in cel sc (ru_when r) TBool seen = (x, seen1)" by (cases "check_in cel sc (ru_when r) TBool seen")
  show ?thesis
  proof (cases x)
    case (Inl ds)
    then show ?thesis using clean chk check_in_finds [OF chk [unfolded Inl]] by (auto simp: compile_rule_def Let_def)
  next
    case (Inr cd)
    note ok = check_in_typed [OF seen chk [unfolded Inr]] check_in_source [OF chk [unfolded Inr]]
    show ?thesis using clean chk Inr ok eff by (auto simp: compile_rule_def Let_def rule_checked_def)
  qed
qed

lemma compile_rules_checked:
  assumes "seen_ok cel seen" "compile_rules cel c sc i rules seen = ([], out, seen')"
  shows "length out = length rules \<and> list_all (rule_checked cel sc) out"
  using assms
proof (induction rules arbitrary: i seen out)
  case (Cons r rules)
  then obtain out1 seen1 out2 where one: "compile_rule cel c sc i r seen = ([], out1, seen1)"
      and rest: "compile_rules cel c sc (Suc i) rules seen1 = ([], out2, seen')" and out: "out = out1 @ out2"
    by (auto simp: Let_def split: prod.splits)
  show ?case using Cons.IH [OF _ rest] compile_rule_checked [OF Cons.prems(1) one] out by simp
qed simp

lemma seen_none: "seen_ok cel []"
  by (simp add: seen_ok_def al_wf_def)

lemma compile_rules_cel:
  "compile_rules cel c sc i rules seen = (ds, out, seen') \<Longrightarrow> r \<in> set out \<Longrightarrow> \<exists>cp. ri_predicate r = CelRule cp"
proof (induction rules arbitrary: i seen ds out)
  case (Cons a rules)
  obtain ds1 out1 seen1 where one: "compile_rule cel c sc i a seen = (ds1, out1, seen1)" by (metis prod_cases3)
  obtain ds2 out2 where rest: "compile_rules cel c sc (Suc i) rules seen1 = (ds2, out2, seen')" and out: "out = out1 @ out2"
    using Cons.prems(1) one by (auto simp: Let_def split: prod.splits)
  have "\<exists>cp. ri_predicate r = CelRule cp" if "r \<in> set out1"
    using one that by (auto simp: compile_rule_def Let_def split: prod.splits sum.splits)
  then show ?case using Cons.IH [OF rest] Cons.prems(2) out by auto
qed simp

lemma setting_predicate:
  "ri_predicate (snd (compile_setting s)) = TypedRule (case s of LibrariesAllowed xs \<Rightarrow> PLibrariesAllowed xs
     | LibrariesBlocked xs \<Rightarrow> PLibrariesBlocked xs | PluginsAllowed xs \<Rightarrow> PPluginsAllowed xs)"
  by (simp add: compile_setting_def Let_def split: prod.split)

lemma compile_body_checked:
  assumes "compile_body cel level c sc b = ([], out)"
  shows "out \<noteq> [] \<and> length out \<le> 32 \<and> list_all (rule_checked cel sc) out
    \<and> (case b of Rules rules \<Rightarrow> level = LOrg \<and> length out = length rules
       | Setting s \<Rightarrow> c = RunCreate \<and> out = [snd (compile_setting s)])"
proof (cases b)
  case (Rules rules)
  then have org: "level = LOrg" using assms by (cases level) (auto simp: compile_body_def)
  with Rules assms obtain seen' where "rule_count_findings rules = []" and run: "compile_rules cel c sc 0 rules [] = ([], out, seen')"
    by (auto simp: compile_body_def Let_def split: prod.splits)
  then have "rules \<noteq> []" "length rules \<le> 32" by (auto simp: rule_count_findings_def MAX_RULES_def split: if_splits)
  then show ?thesis using compile_rules_checked [OF seen_none run] Rules org by auto
next
  case (Setting s)
  then have "c = RunCreate" "out = [snd (compile_setting s)]"
    using assms by (auto simp: compile_body_def Let_def split: prod.splits if_splits)
  moreover have "rule_checked cel sc (snd (compile_setting s))"
    by (cases s) (simp_all add: compile_setting_def setting_list_def rule_checked_def Let_def)
  ultimately show ?thesis using Setting by simp
qed

lemma compile_policyD:
  assumes "compile_policy cel h p level = Inr ir"
  shows "compile_body cel level (po_checkpoint p) (checkpoint_schema (po_checkpoint p)) (po_body p) = ([], pi_rules ir)"
    and "pi_name ir = po_name p" "pi_match ir = po_match p" "pi_mode ir = po_mode p" "pi_level ir = level"
    and "pi_checkpoint ir = po_checkpoint p" "pi_content_hash ir = h p"
    and "validate_name (po_name p) = []" "validate_match (po_match p) = []"
  using assms by (auto simp: compile_policy_def Let_def split: prod.splits if_splits)

lemma compile_storedD:
  assumes "compile_stored cel h p = Inr ir"
  shows "compile_body cel (scope_level (sp_scope p)) (po_checkpoint (sp_body p)) (checkpoint_schema (po_checkpoint (sp_body p)))
           (po_body (sp_body p)) = ([], pi_rules ir)"
    and "pi_match ir = po_match (sp_body p)" "pi_mode ir = po_mode (sp_body p)" "pi_level ir = scope_level (sp_scope p)"
    and "pi_checkpoint ir = po_checkpoint (sp_body p)" "pi_policy_id ir = sp_id p" "pi_version ir = sp_version p"
proof -
  obtain ir' where c: "compile_policy cel h (sp_body p) (scope_level (sp_scope p)) = Inr ir'"
      and ir: "ir = with_identity (sp_id p) (sp_version p) ir'"
    using assms by (auto simp: compile_stored_def split: sum.splits)
  show "compile_body cel (scope_level (sp_scope p)) (po_checkpoint (sp_body p)) (checkpoint_schema (po_checkpoint (sp_body p)))
           (po_body (sp_body p)) = ([], pi_rules ir)"
    and "pi_match ir = po_match (sp_body p)" "pi_mode ir = po_mode (sp_body p)" "pi_level ir = scope_level (sp_scope p)"
    and "pi_checkpoint ir = po_checkpoint (sp_body p)" "pi_policy_id ir = sp_id p" "pi_version ir = sp_version p"
    using compile_policyD [OF c] by (simp_all add: ir with_identity_def)
qed

lemma compiled_rules:
  assumes "compile_stored cel h p = Inr ir"
  shows "pi_rules ir \<noteq> [] \<and> (\<forall>r \<in> set (pi_rules ir). ri_effect r = Deny)"
  using compile_body_checked [OF compile_storedD(1) [OF assms]] by (auto simp: list_all_iff rule_checked_def)

text \<open>A policy that compiles has between one and 32 rules, each with the effect deny; each CEL rule parses, is
  typed with a boolean result against the schema of the policy's checkpoint, and costs at most 100,000. A
  project's policy has typed settings only, and a typed setting compiles to one rule, at run creation only.
  The name has 1 to 100 bytes of the name alphabet, and identity, match, mode and level are the stored ones.\<close>
theorem compiled_policy_checked:
  assumes "compile_stored cel h p = Inr ir"
  shows "1 \<le> length (pi_rules ir) \<and> length (pi_rules ir) \<le> 32
    \<and> list_all (rule_checked cel (checkpoint_schema (pi_checkpoint ir))) (pi_rules ir)
    \<and> (scope_level (sp_scope p) = LProject \<longrightarrow> is_typed_setting (sp_body p))
    \<and> (is_typed_setting (sp_body p) \<longrightarrow> pi_checkpoint ir = RunCreate \<and> length (pi_rules ir) = 1
         \<and> (\<exists>t. ri_predicate (hd (pi_rules ir)) = TypedRule t))
    \<and> pi_policy_id ir = sp_id p \<and> pi_version ir = sp_version p \<and> pi_level ir = scope_level (sp_scope p)
    \<and> pi_match ir = po_match (sp_body p) \<and> pi_mode ir = po_mode (sp_body p)
    \<and> po_name (sp_body p) \<noteq> [] \<and> length (po_name (sp_body p)) \<le> 100 \<and> list_all name_char (po_name (sp_body p))"
proof -
  note D = compile_storedD [OF assms]
  have "validate_name (po_name (sp_body p)) = []"
    using assms compile_policyD(8) by (fastforce simp: compile_stored_def split: sum.splits)
  moreover have "\<exists>t. ri_predicate (snd (compile_setting s)) = TypedRule t" for s
    by (simp add: compile_setting_def Let_def split: prod.split)
  ultimately show ?thesis
    using D compile_body_checked [OF D(1)]
    by (cases "po_body (sp_body p)")
      (auto simp: is_typed_setting_def validate_name_def MAX_NAME_LEN_def Suc_le_eq split: if_splits)
qed

section \<open>Rules that do not hold\<close>

text \<open>The input binds and the rule does not hold: its expression is false, or no origin of a step or a gate offends
  the typed setting.\<close>

definition rule_clear :: "eval_env \<Rightarrow> checkpoint \<Rightarrow> nat \<Rightarrow> json \<Rightarrow> rule_ir \<Rightarrow> bool" where
  "rule_clear ev c version v r =
     (\<exists>sc ctx. schema_for c version = Some sc \<and> bind_input (ev_json ev) sc v = Inr ctx
        \<and> (case ri_predicate r of
             CelRule cp \<Rightarrow> evaluate_when ev (cp_source cp) ctx = Inr False
           | TypedRule t \<Rightarrow> (\<exists>us. units v = Inr us \<and> (\<forall>u \<in> set us. \<forall>o' \<in> set (un_origins u). \<not> offends t (un_what u) o'))))"

lemma cut_messages_none [simp]: "cut_messages text ms = [] \<longleftrightarrow> ms = []"
  by (auto simp: cut_messages_def)

lemma unit_message_none: "unit_message t u = [] \<longleftrightarrow> (\<forall>o' \<in> set (un_origins u). \<not> offends t (un_what u) o')"
  by (auto simp: unit_message_def find_None_iff split: option.split dest!: find_Some_iff [THEN iffD1])

lemma rule_clear_hit: "rule_clear ev c version v r \<longleftrightarrow> rule_hit ev c version v r = Inr []"
  by (auto simp: rule_clear_def rule_hit_def cel_context_def typed_messages_def unit_message_none
      split: option.splits sum.splits rule_predicate.splits)

lemma rule_hits_clear:
  assumes "\<forall>r \<in> set rules. ri_effect r = Deny"
  shows "rule_hits ev c version v i rules = ([], []) \<longleftrightarrow> (\<forall>r \<in> set rules. rule_clear ev c version v r)"
  using assms
  by (induction rules arbitrary: i) (auto simp: rule_clear_hit checkpoint_allows_def Let_def split: prod.splits sum.splits)

text \<open>An enforced policy with the deny effect denies unless it does not match or none of its rules holds.\<close>

lemma evaluate_policy_denial:
  assumes "\<forall>r \<in> set (pi_rules p). ri_effect r = Deny" "pi_mode p = Enforce" "policy_matches (pi_match p) ctx"
  shows "denial (result_of p (evaluate_policy ev c version v ctx p)) = []
    \<longleftrightarrow> (\<forall>r \<in> set (pi_rules p). rule_clear ev c version v r)"
  using assms rule_hits_clear [OF assms(1), of ev c version v 0]
  by (auto simp: evaluate_policy_def denial_def result_of_def split: prod.splits)

section \<open>The results of stored policies\<close>

definition compiled_result ::
  "eval_env \<Rightarrow> checkpoint \<Rightarrow> nat \<Rightarrow> string + json \<Rightarrow> match_context \<Rightarrow> policy_ir \<Rightarrow> policy_result" where
  "compiled_result ev c version input ctx p =
     result_of p
       (case (input, ev_thread ev) of
          (Inr v, None) \<Rightarrow> evaluate_policy ev c version v ctx p
        | (Inr v, Some e) \<Rightarrow>
            (if policy_matches (pi_match p) ctx
             then OutcomeError (''policy '' @ quoted (pi_name p) @ '' could not be evaluated: '' @ e) else NotMatched)
        | (Inl reason, _) \<Rightarrow> (if policy_matches (pi_match p) ctx then OutcomeError reason else NotMatched))"

definition stored_result ::
  "eval_env \<Rightarrow> checkpoint \<Rightarrow> nat \<Rightarrow> string + json \<Rightarrow> match_context \<Rightarrow> stored_policy \<times> (string + policy_ir) \<Rightarrow> policy_result" where
  "stored_result ev c version input ctx px =
     (case px of
        (p, Inr ir) \<Rightarrow> compiled_result ev c version input ctx ir
      | (p, Inl message) \<Rightarrow>
          result_of (stub_ir c p) (if policy_matches (po_match (sp_body p)) ctx then OutcomeError message else NotMatched))"

definition stored_ir :: "checkpoint \<Rightarrow> stored_policy \<times> (string + policy_ir) \<Rightarrow> policy_ir" where
  "stored_ir c px = (case px of (p, Inr ir) \<Rightarrow> ir | (p, Inl _) \<Rightarrow> stub_ir c p)"

lemma assemble_all:
  "assemble c ctx compiled (map (compiled_result ev c version input ctx)
       (List.map_filter (\<lambda>(_, ir). case ir of Inr ir \<Rightarrow> Some ir | Inl _ \<Rightarrow> None) compiled))
   = Some (map (stored_result ev c version input ctx) compiled, map (stored_ir c) compiled)"
proof (induction compiled)
  case (Cons px compiled)
  then show ?case
    by (cases px; cases "snd px")
      (simp_all add: List.map_filter_def stored_result_def stored_ir_def Let_def stub_ir_def)
qed (simp add: List.map_filter_def)

lemma compile_here_checkpoint:
  "(p, Inr ir) \<in> set (compile_here ev c stored) \<Longrightarrow>
     p \<in> set stored \<and> po_checkpoint (sp_body p) = c \<and> compile_stored (ev_cel ev) (ev_content_hash ev) p = Inr ir \<and> pi_checkpoint ir = c"
  by (auto simp: compile_here_def compile_storedD(5) split: sum.splits)

lemma evaluated_all:
  assumes "\<forall>p \<in> set irs. pi_checkpoint p = c"
  shows "(case input of Inr v \<Rightarrow> pd_results (evaluate ev c version v ctx irs) | Inl reason \<Rightarrow> failed_results ctx (\<lambda>_. reason) irs)
    = map (compiled_result ev c version input ctx) irs"
  using assms
  by (auto simp: evaluate_def Let_def evaluate_all_def failed_results_def compiled_result_def split: sum.split option.split)

text \<open>The plugin default of a consultation.\<close>

definition plugin_results ::
  "checkpoint \<Rightarrow> string + json \<Rightarrow> plugin_gate list option \<Rightarrow> match_context \<Rightarrow> policy_ir list \<Rightarrow> policy_result list" where
  "plugin_results c input gates ctx irs =
     (let plugins = (if c \<noteq> RunCreate then None
        else case (gates, input) of
               (Some gs, _) \<Rightarrow> plugin_default (Inr gs) (case input of Inl reason \<Rightarrow> Some reason | Inr _ \<Rightarrow> None) ctx irs
             | (None, Inr v) \<Rightarrow> plugins_closed_default v ctx irs
             | (None, Inl _) \<Rightarrow> None)
      in case plugins of None \<Rightarrow> [] | Some r \<Rightarrow> [r])"

lemma decision_of_stored:
  fixes c stored ev
  defines "compiled \<equiv> compile_here ev c stored"
  shows "\<exists>d. evaluate_with_builtins ev c version input gates ctx stored builtins = Some d
    \<and> pd_results d = builtins @ map (stored_result ev c version input ctx) compiled
        @ plugin_results c input gates ctx (map (stored_ir c) compiled)
    \<and> pd_outcome d = combine (pd_results d)
    \<and> pd_policy_set_digest d = policy_set_digest ev c (map (stored_ir c) compiled)"
proof -
  define irs where "irs = List.map_filter (\<lambda>(_, ir). case ir of Inr ir \<Rightarrow> Some ir | Inl _ \<Rightarrow> None) compiled"
  have "\<forall>p \<in> set irs. pi_checkpoint p = c"
    by (auto simp: irs_def compiled_def List.map_filter_def split: sum.splits dest!: compile_here_checkpoint)
  note ev = evaluated_all [OF this, where input = input and ev = ev and version = version and ctx = ctx]
  show ?thesis
    unfolding evaluate_with_builtins_def Let_def compiled_def [symmetric] irs_def [symmetric] ev
    unfolding irs_def assemble_all plugin_results_def Let_def by simp
qed

section \<open>The closed default\<close>

text \<open>An org-level enforced policy that matches and compiled is the setting that lists the plugin.\<close>

definition plugin_listed :: "eval_env \<Rightarrow> match_context \<Rightarrow> stored_policy list \<Rightarrow> string \<Rightarrow> bool" where
  "plugin_listed ev ctx stored n =
     (\<exists>p \<in> set stored. po_checkpoint (sp_body p) = RunCreate \<and> scope_level (sp_scope p) = LOrg \<and> po_mode (sp_body p) = Enforce
        \<and> policy_matches (po_match (sp_body p)) ctx \<and> \<not> isl (compile_stored (ev_cel ev) (ev_content_hash ev) p)
        \<and> (\<exists>installations. po_body (sp_body p) = Setting (PluginsAllowed installations) \<and> n \<in> set installations))"

lemma compiled_lists:
  assumes "compile_stored cel h p = Inr ir"
  shows "(\<exists>r \<in> set (pi_rules ir). \<exists>xs. ri_predicate r = TypedRule (PPluginsAllowed xs) \<and> n \<in> set xs)
    \<longleftrightarrow> (\<exists>xs. po_body (sp_body p) = Setting (PluginsAllowed xs) \<and> n \<in> set xs)"
proof (cases "po_body (sp_body p)")
  case (Rules rules)
  have "\<exists>cp. ri_predicate r = CelRule cp" if "r \<in> set (pi_rules ir)" for r
    using that compile_storedD(1) [OF assms] Rules
    by (auto simp: compile_body_def Let_def split: prod.splits if_splits dest: compile_rules_cel)
  then show ?thesis using Rules by fastforce
next
  case (Setting s)
  then have "pi_rules ir = [snd (compile_setting s)]" using compile_body_checked [OF compile_storedD(1) [OF assms]] by simp
  then show ?thesis using Setting by (cases s) (auto simp: setting_predicate)
qed

lemma set_listed_plugins:
  "n \<in> set (listed_plugins ctx irs) \<longleftrightarrow>
     (\<exists>p \<in> set irs. pi_level p = LOrg \<and> pi_mode p = Enforce \<and> policy_matches (pi_match p) ctx
        \<and> (\<exists>r \<in> set (pi_rules p). \<exists>xs. ri_predicate r = TypedRule (PPluginsAllowed xs) \<and> n \<in> set xs))"
proof -
  have "n \<in> set (case q of TypedRule (PPluginsAllowed xs) \<Rightarrow> xs | _ \<Rightarrow> []) \<longleftrightarrow> (\<exists>xs. q = TypedRule (PPluginsAllowed xs) \<and> n \<in> set xs)" for q
    by (auto split: rule_predicate.splits typed_predicate.splits)
  then show ?thesis by (auto simp: listed_plugins_def)
qed

lemma listed_iff:
  "n \<in> set (listed_plugins ctx (map (stored_ir RunCreate) (compile_here ev RunCreate stored))) \<longleftrightarrow> plugin_listed ev ctx stored n"
proof -
  let ?compile = "compile_stored (ev_cel ev) (ev_content_hash ev)"
  let ?ir = "\<lambda>p. case ?compile p of Inr ir \<Rightarrow> ir | Inl _ \<Rightarrow> stub_ir RunCreate p"
  have irs: "stored_ir RunCreate ` set (compile_here ev RunCreate stored)
      = ?ir ` {p \<in> set stored. po_checkpoint (sp_body p) = RunCreate}"
    by (auto simp: compile_here_def stored_ir_def image_image split: sum.split intro!: image_cong)
  have "pi_level (?ir p) = LOrg \<and> pi_mode (?ir p) = Enforce \<and> policy_matches (pi_match (?ir p)) ctx
        \<and> (\<exists>r \<in> set (pi_rules (?ir p)). \<exists>xs. ri_predicate r = TypedRule (PPluginsAllowed xs) \<and> n \<in> set xs)
      \<longleftrightarrow> scope_level (sp_scope p) = LOrg \<and> po_mode (sp_body p) = Enforce \<and> policy_matches (po_match (sp_body p)) ctx
        \<and> \<not> isl (?compile p) \<and> (\<exists>xs. po_body (sp_body p) = Setting (PluginsAllowed xs) \<and> n \<in> set xs)" for p
  proof (cases "?compile p")
    case (Inr ir)
    then show ?thesis by (simp add: compile_storedD [OF Inr] compiled_lists [OF Inr])
  qed (simp add: stub_ir_def)
  then show ?thesis unfolding set_listed_plugins plugin_listed_def set_map irs by auto
qed

definition plugins_clear ::
  "eval_env \<Rightarrow> string + json \<Rightarrow> plugin_gate list option \<Rightarrow> match_context \<Rightarrow> stored_policy list \<Rightarrow> bool" where
  "plugins_clear ev input gates ctx stored =
     (case (gates, input) of
        (Some gs, _) \<Rightarrow> \<forall>g \<in> set gs. plugin_listed ev ctx stored (pg_plugin g)
      | (None, Inl _) \<Rightarrow> True
      | (None, Inr v) \<Rightarrow>
          (case units v of
             Inl _ \<Rightarrow> json_array (json_get v ''gates'') = Some []
           | Inr us \<Rightarrow> \<forall>g \<in> set (unit_plugin_gates us). plugin_listed ev ctx stored (pg_plugin g)))"

lemma plugin_default_denial:
  "(\<forall>r. plugin_default (Inr gs) unbuilt ctx irs = Some r \<longrightarrow> denial r = [])
   \<longleftrightarrow> (\<forall>g \<in> set gs. pg_plugin g \<in> set (listed_plugins ctx irs))"
  by (auto simp: plugin_default_def plugin_outcome_def denial_def Let_def filter_empty_conv)

lemma plugin_error_denies: "\<exists>r. plugin_default (Inl e) unbuilt ctx irs = Some r \<and> denial r \<noteq> []"
  by (simp add: plugin_default_def denial_def)

lemma plugin_results_denial:
  "concat (map denial (plugin_results RunCreate input gates ctx (map (stored_ir RunCreate) (compile_here ev RunCreate stored)))) = []
   \<longleftrightarrow> plugins_clear ev input gates ctx stored"
proof -
  let ?irs = "map (stored_ir RunCreate) (compile_here ev RunCreate stored)"
  have some: "concat (map denial (case x of None \<Rightarrow> [] | Some r \<Rightarrow> [r])) = [] \<longleftrightarrow> (\<forall>r. x = Some r \<longrightarrow> denial r = [])" for x
    by (cases x) auto
  show ?thesis
    unfolding plugin_results_def Let_def some plugins_clear_def plugins_closed_default_def listed_iff [symmetric]
    using plugin_error_denies [of _ None ctx ?irs]
    by (auto simp: plugin_default_denial split: option.split sum.split)
qed

section \<open>Decisions\<close>

text \<open>An enforced policy lets the consultation pass.\<close>

definition policy_clear :: "eval_env \<Rightarrow> checkpoint \<Rightarrow> nat \<Rightarrow> string + json \<Rightarrow> stored_policy \<Rightarrow> bool" where
  "policy_clear ev c version input p =
     (\<exists>ir v. compile_stored (ev_cel ev) (ev_content_hash ev) p = Inr ir \<and> input = Inr v \<and> ev_thread ev = None
        \<and> (\<forall>r \<in> set (pi_rules ir). rule_clear ev c version v r))"

lemma denial_unless: "denial (result_of p oc) = [] \<longleftrightarrow>
    pi_mode p \<noteq> Enforce \<or> (\<forall>m. oc \<noteq> OutcomeError m) \<and> (\<forall>m. oc = Denied m \<longrightarrow> m = [])"
  by (cases oc) (auto simp: denial_def result_of_def)

lemma compiled_result_denial:
  assumes "compile_stored (ev_cel ev) (ev_content_hash ev) p = Inr ir"
  shows "denial (compiled_result ev c version input ctx ir) = [] \<longleftrightarrow>
    (po_mode (sp_body p) = Enforce \<and> policy_matches (po_match (sp_body p)) ctx \<longrightarrow> policy_clear ev c version input p)"
proof (cases "pi_mode ir = Enforce \<and> policy_matches (pi_match ir) ctx")
  case True
  show ?thesis
  proof (cases "\<exists>v. input = Inr v \<and> ev_thread ev = None")
    case run: True
    then show ?thesis
      using True evaluate_policy_denial [of ir ctx ev c version] compiled_rules [OF assms] assms
      by (auto simp: compiled_result_def policy_clear_def compile_storedD [OF assms])
  next
    case False
    then show ?thesis using True assms
      by (auto simp: compiled_result_def policy_clear_def denial_unless compile_storedD [OF assms] split: sum.splits option.splits)
  qed
next
  case False
  then show ?thesis
    by (auto simp: compiled_result_def denial_unless evaluate_policy_def compile_storedD [OF assms] split: sum.splits option.splits)
qed

lemma stored_results_denial:
  "concat (map denial (map (stored_result ev c version input ctx) (compile_here ev c stored))) = [] \<longleftrightarrow>
     (\<forall>p \<in> set stored. po_checkpoint (sp_body p) = c \<and> po_mode (sp_body p) = Enforce \<and> policy_matches (po_match (sp_body p)) ctx
        \<longrightarrow> policy_clear ev c version input p)"
proof -
  have "denial (stored_result ev c version input ctx (p, case compile_stored (ev_cel ev) (ev_content_hash ev) p of
          Inl ds \<Rightarrow> Inl (no_longer_compiles p ds) | Inr ir \<Rightarrow> Inr ir)) = [] \<longleftrightarrow>
      (po_mode (sp_body p) = Enforce \<and> policy_matches (po_match (sp_body p)) ctx \<longrightarrow> policy_clear ev c version input p)" for p
    by (cases "compile_stored (ev_cel ev) (ev_content_hash ev) p")
      (auto simp: stored_result_def compiled_result_denial denial_unless policy_clear_def stub_ir_def)
  then show ?thesis by (auto simp: compile_here_def)
qed

lemma combine_denied: "combine rs = Allow \<longleftrightarrow> concat (map denial rs) = []"
  by (auto simp: combine_def Let_def)

lemma decision_allows:
  assumes "evaluate_with_builtins ev c version input gates ctx stored builtins = Some d"
  shows "\<not> is_denied d \<longleftrightarrow>
    (\<forall>r \<in> set builtins. denial r = [])
    \<and> (\<forall>p \<in> set stored. po_checkpoint (sp_body p) = c \<and> po_mode (sp_body p) = Enforce \<and> policy_matches (po_match (sp_body p)) ctx
         \<longrightarrow> policy_clear ev c version input p)
    \<and> (c = RunCreate \<longrightarrow> plugins_clear ev input gates ctx stored)"
proof -
  let ?compiled = "compile_here ev c stored"
  have d: "pd_results d = builtins @ map (stored_result ev c version input ctx) ?compiled
        @ plugin_results c input gates ctx (map (stored_ir c) ?compiled)" "pd_outcome d = combine (pd_results d)"
    using decision_of_stored [of ev c version input gates ctx stored builtins] assms by auto
  have "\<not> is_denied d \<longleftrightarrow> concat (map denial (pd_results d)) = []"
    unfolding is_denied_def d(2) combine_denied [symmetric] by (simp split: decision_outcome.split)
  also have "\<dots> \<longleftrightarrow> (\<forall>r \<in> set builtins. denial r = [])
      \<and> concat (map denial (map (stored_result ev c version input ctx) ?compiled)) = []
      \<and> concat (map denial (plugin_results c input gates ctx (map (stored_ir c) ?compiled))) = []"
    by (auto simp: d(1))
  also have "concat (map denial (plugin_results c input gates ctx (map (stored_ir c) ?compiled))) = []
      \<longleftrightarrow> (c = RunCreate \<longrightarrow> plugins_clear ev input gates ctx stored)"
    using plugin_results_denial [of input gates ctx ev stored] by (cases "c = RunCreate") (simp_all add: plugin_results_def)
  finally show ?thesis unfolding stored_results_denial .
qed


definition sample_eval :: eval_env where
  "sample_eval = \<lparr>ev_cel = sample_cel, ev_json = sample_json_env, ev_resolve = \<lambda>_ _ _. Inr (ABool False), ev_is_match = \<lambda>_ _. False,
     ev_thread = None, ev_sha256_hex = id, ev_content_hash = \<lambda>p. po_name p\<rparr>"

definition plugins_policy :: stored_policy where
  "plugins_policy = \<lparr>sp_id = ''p1'', sp_scope = ScopeOrg ''o'', sp_name = ''plugins'', sp_version = 1,
     sp_body = \<lparr>po_name = ''plugins'', po_checkpoint = RunCreate,
       po_match = \<lparr>ma_projects = [], ma_except_projects = [], ma_environments = [], ma_trigger_kinds = []\<rparr>,
       po_mode = Enforce, po_body = Setting (PluginsAllowed [''argo''])\<rparr>,
     sp_content_hash = ''h'', sp_created_at = 0, sp_updated_at = 0, sp_deleted = False\<rparr>"

definition sample_match :: match_context where
  "sample_match = \<lparr>mc_project = ''p'', mc_environment = None, mc_trigger_kind = TKPush\<rparr>"

lemma utf8_plain: "is_white [c] \<longleftrightarrow> c \<in> {CHR 0x09, CHR 0x0A, CHR 0x0B, CHR 0x0C, CHR 0x0D, CHR 0x20}"
  by (auto simp: is_white_def)

lemma plugins_policy_compiles:
  obtains ir where "compile_stored (ev_cel sample_eval) (ev_content_hash sample_eval) plugins_policy = Inr ir"
    "pi_rules ir = [snd (compile_setting (PluginsAllowed [''argo'']))]"
proof -
  have "\<exists>ir. compile_stored (ev_cel sample_eval) (ev_content_hash sample_eval) plugins_policy = Inr ir"
    by (simp add: compile_stored_def compile_policy_def plugins_policy_def validate_name_def validate_match_def validate_list_def
        is_consulted_def compile_body_def compile_setting_def setting_list_def bad_pattern_def validate_text_def blank_def utf8_plain
        MAX_TEXT_LEN_def MAX_LIST_def MAX_NAME_LEN_def name_char_def is_ascii_alphanumeric_def
        is_continuation_def scope_level_def Let_def)
  then obtain ir where ir: "compile_stored (ev_cel sample_eval) (ev_content_hash sample_eval) plugins_policy = Inr ir" ..
  moreover have "pi_rules ir = [snd (compile_setting (PluginsAllowed [''argo'']))]"
    using compile_body_checked [OF compile_storedD(1) [OF ir]] by (simp add: plugins_policy_def)
  ultimately show ?thesis by (rule that)
qed

theorem compiled_policy_checked_witness:
  "\<exists>ir. compile_stored (ev_cel sample_eval) (ev_content_hash sample_eval) plugins_policy = Inr ir
     \<and> length (pi_rules ir) = 1 \<and> pi_checkpoint ir = RunCreate"
proof (rule plugins_policy_compiles)
  fix ir
  assume ir: "compile_stored (ev_cel sample_eval) (ev_content_hash sample_eval) plugins_policy = Inr ir"
  have "is_typed_setting (sp_body plugins_policy)" by (simp add: is_typed_setting_def plugins_policy_def)
  then show ?thesis using compiled_policy_checked [OF ir] ir by blast
qed


text \<open>C28: at run creation no plugin's gate runs until an org admin lists the plugin: when a decision over the gates of
  the compiled pipeline allows, each gate that comes from a plugin comes from one that an org-level, enforced
  \<^verbatim>\<open>plugins_allowed\<close> setting, which matches this run and compiles, lists by name. A project's setting or one in
  audit mode lists nothing, and the default holds also when the input could not be built or read.\<close>
theorem plugin_gates_closed:
  assumes "evaluate_with_builtins ev RunCreate version input (Some (plugin_gates ir)) ctx stored builtins = Some d" "\<not> is_denied d"
    and "s \<in> set (ir_steps ir)" "is_gate s" "o' \<in> set (ps_origin s)" "oe_kind o' = OPlugin"
  shows "has_plugin_gate ir \<and> plugin_listed ev ctx stored (oe_name o')"
proof -
  have "\<lparr>pg_gate = ps_id s, pg_plugin = oe_name o'\<rparr> \<in> set (plugin_gates ir)"
    using assms(3-6) by (auto simp: plugin_gates_def)
  then show ?thesis
    using assms decision_allows [OF assms(1)] by (fastforce simp: plugins_clear_def has_plugin_gate_def list_ex_iff)
qed

text \<open>A run whose only step is a gate of the plugin \<^verbatim>\<open>argo\<close>, and its input.\<close>

definition argo_pipeline :: pipeline_ir where
  "argo_pipeline = \<lparr>ir_name = None, ir_deploy = False, ir_steps = [
     \<lparr>ps_id = ''g'', ps_image = [], ps_gate = Some ''plugin'', ps_forge_token = None, ps_gate_expires_after = None, ps_deploy = False,
      ps_secrets = [], ps_security = None, ps_needs = [], ps_placement_profiles = [], ps_k8s_overlay = None,
      ps_origin = [\<lparr>oe_kind = OPlugin, oe_name = ''argo'', oe_source = None, oe_content_hash = ''h''\<rparr>],
      ps_environment_approval_gate = None\<rparr>]\<rparr>"

definition argo_input :: json where
  "argo_input = JObject
     [(''org'', JObject [(''name'', JString ''o'')]), (''project'', JObject [(''name'', JString ''p'')]),
      (''trigger'', JObject [(''kind'', JString ''push''), (''fork'', JBool False)]),
      (''pipeline'', JObject [(''name'', JString ''ci''), (''deploy'', JBool False)]),
      (''steps'', JArray []),
      (''gates'', JArray [JObject [(''id'', JString ''g''), (''kind'', JString ''plugin''),
         (''origin'', JArray [JObject [(''kind'', JString ''plugin''), (''name'', JString ''argo''), (''content_hash'', JString ''h'')]]),
         (''dependents'', JArray [])]]),
      (''time'', JString ''t'')]"

theorem plugin_gates_closed_witness:
  "\<exists>d. evaluate_with_builtins sample_eval RunCreate 1 (Inr argo_input) (Some (plugin_gates argo_pipeline)) sample_match [plugins_policy] [] = Some d
     \<and> \<not> is_denied d \<and> plugin_listed sample_eval sample_match [plugins_policy] ''argo''"
proof -
  let ?w = "evaluate_with_builtins sample_eval RunCreate 1 (Inr argo_input) (Some (plugin_gates argo_pipeline)) sample_match [plugins_policy] []"
  have m: "policy_matches (po_match (sp_body plugins_policy)) sample_match"
    by (simp add: policy_matches_def plugins_policy_def any_glob_def)
  obtain ir where ir: "compile_stored (ev_cel sample_eval) (ev_content_hash sample_eval) plugins_policy = Inr ir"
      "pi_rules ir = [snd (compile_setting (PluginsAllowed [''argo'']))]" by (rule plugins_policy_compiles)
  have l: "plugin_listed sample_eval sample_match [plugins_policy] ''argo''"
    using m by (simp add: plugin_listed_def ir) (simp add: plugins_policy_def scope_level_def)
  have "\<exists>ctx. bind_input (ev_json sample_eval) run_create_schema argo_input = Inr ctx"
    by (simp add: bind_input_def argo_input_def sample_eval_def sample_json_env_def schema_defs struct_fields_def
        enum_variants_def MAX_STRING_LEN_def MAX_STEPS_def MAX_GATES_def MAX_ORIGIN_def)
  moreover have "units argo_input = Inr [\<lparr>un_what = ''Gate'', un_id = ''g'', un_origins = [\<lparr>or_kind = ''plugin'', or_name = ''argo'', or_source = None\<rparr>]\<rparr>]"
    by (simp add: units_def unit_list_def argo_input_def json_get_def json_array_def json_str_def unit_origins_def)
  ultimately have "rule_clear sample_eval RunCreate 1 argo_input (snd (compile_setting (PluginsAllowed [''argo''])))"
    by (auto simp: rule_clear_def setting_predicate schema_for_def offends_def)
  then have "policy_clear sample_eval RunCreate 1 (Inr argo_input) plugins_policy"
    by (auto simp: policy_clear_def ir) (simp add: sample_eval_def)
  then obtain d where d: "?w = Some d" "\<not> is_denied d"
    using decision_allows [of sample_eval RunCreate 1 "Inr argo_input" "Some (plugin_gates argo_pipeline)" sample_match "[plugins_policy]" "[]"]
      decision_of_stored [of sample_eval RunCreate 1 "Inr argo_input" "Some (plugin_gates argo_pipeline)" sample_match "[plugins_policy]" "[]"] l
    by (auto simp: plugins_clear_def plugin_gates_def argo_pipeline_def)
  then show ?thesis
    using plugin_gates_closed [OF d, of "hd (ir_steps argo_pipeline)" "hd (ps_origin (hd (ir_steps argo_pipeline)))"]
    by (auto simp: argo_pipeline_def is_gate_def)
qed

section \<open>Audit mode\<close>

lemma compile_here_Cons:
  "compile_here ev c (p # stored) =
     (if po_checkpoint (sp_body p) = c
      then (p, case compile_stored (ev_cel ev) (ev_content_hash ev) p of Inl ds \<Rightarrow> Inl (no_longer_compiles p ds) | Inr ir \<Rightarrow> Inr ir)
           # compile_here ev c stored
      else compile_here ev c stored)"
  by (simp add: compile_here_def)

lemma stored_mode:
  fixes p ev
  defines "px \<equiv> (p, case compile_stored (ev_cel ev) (ev_content_hash ev) p of Inl ds \<Rightarrow> Inl (no_longer_compiles p ds) | Inr ir \<Rightarrow> Inr ir)"
  shows "pr_mode (stored_result ev c version input ctx px) = po_mode (sp_body p) \<and> pi_mode (stored_ir c px) = po_mode (sp_body p)"
proof (cases "compile_stored (ev_cel ev) (ev_content_hash ev) p")
  case (Inr ir)
  then show ?thesis by (simp add: px_def stored_result_def compiled_result_def result_of_def stored_ir_def compile_storedD [OF Inr])
qed (simp add: px_def stored_result_def stored_ir_def stub_ir_def result_of_def)

lemma audit_denials:
  "concat (map denial (map (stored_result ev c version input ctx) (compile_here ev c (filter (\<lambda>p. po_mode (sp_body p) = Enforce) stored))))
   = concat (map denial (map (stored_result ev c version input ctx) (compile_here ev c stored)))"
  by (induction stored) (auto simp: compile_here_Cons stored_mode denial_def) 

lemma audit_listed:
  "listed_plugins ctx (map (stored_ir c) (compile_here ev c (filter (\<lambda>p. po_mode (sp_body p) = Enforce) stored)))
   = listed_plugins ctx (map (stored_ir c) (compile_here ev c stored))"
  by (induction stored) (auto simp: compile_here_Cons stored_mode listed_plugins_def)

lemma plugin_default_listed: "listed_plugins ctx irs = listed_plugins ctx irs' \<Longrightarrow> plugin_default gs unbuilt ctx irs = plugin_default gs unbuilt ctx irs'"
  by (cases gs) (simp_all add: plugin_default_def)

text \<open>A policy in audit mode changes no decision: without the audit policies the outcome is the same, messages
  included, whether they would have denied, failed to compile or could not be evaluated. A decision denies
  exactly with the messages of its enforced denies and errors, in the order of its results, and a refusal
  that shows where each comes from has one line for each.\<close>
theorem audit_changes_nothing:
  "\<exists>d d'. evaluate_with_builtins ev c version input gates ctx stored builtins = Some d
     \<and> evaluate_with_builtins ev c version input gates ctx (filter (\<lambda>p. po_mode (sp_body p) = Enforce) stored) builtins = Some d'
     \<and> pd_outcome d = pd_outcome d'
     \<and> decision_messages d = concat (map denial (pd_results d)) \<and> length (attributed_messages d) = length (decision_messages d)"
proof -
  let ?enforced = "filter (\<lambda>p. po_mode (sp_body p) = Enforce) stored"
  obtain d where d: "evaluate_with_builtins ev c version input gates ctx stored builtins = Some d"
      "pd_results d = builtins @ map (stored_result ev c version input ctx) (compile_here ev c stored)
        @ plugin_results c input gates ctx (map (stored_ir c) (compile_here ev c stored))" "pd_outcome d = combine (pd_results d)"
    using decision_of_stored by blast
  obtain d' where d': "evaluate_with_builtins ev c version input gates ctx ?enforced builtins = Some d'"
      "pd_results d' = builtins @ map (stored_result ev c version input ctx) (compile_here ev c ?enforced)
        @ plugin_results c input gates ctx (map (stored_ir c) (compile_here ev c ?enforced))" "pd_outcome d' = combine (pd_results d')"
    using decision_of_stored by blast
  have "plugin_results c input gates ctx (map (stored_ir c) (compile_here ev c ?enforced))
      = plugin_results c input gates ctx (map (stored_ir c) (compile_here ev c stored))"
    unfolding plugin_results_def plugins_closed_default_def by (simp only: plugin_default_listed [OF audit_listed])
  then have "pd_outcome d = pd_outcome d'"
    using audit_denials [of ev c version input ctx stored] by (simp add: d d' combine_def)
  moreover have m: "decision_messages d = concat (map denial (pd_results d))"
    by (simp add: decision_messages_def d(3) combine_def Let_def)
  moreover have "length (attributed_messages d) = length (concat (map denial (pd_results d)))"
  proof -
    have "length (concat (map (\<lambda>r. case pr_outcome r of Denied m \<Rightarrow> map (\<lambda>m. ''policy '' @ quoted (pr_name r) @ '': '' @ m) m
            | OutcomeError m \<Rightarrow> [''policy '' @ quoted (pr_name r) @ '': '' @ m] | _ \<Rightarrow> []) (filter (\<lambda>r. pr_mode r = Enforce) rs)))
        = length (concat (map denial rs))" for rs
      by (induction rs) (auto simp: denial_def split: policy_outcome.split)
    then show ?thesis by (simp add: attributed_messages_def)
  qed
  ultimately show ?thesis using d(1) d'(1) by auto
qed

end
