(* ===== verification/Identity.thy ===== *)
theory Identity
  imports Prelude "HOL-Library.List_Lexorder" "HOL-Library.Char_ord"
begin

text \<open>
  Identities and authorization (\<^verbatim>\<open>scarab-identity/src/lib.rs\<close>), with the stores of \<^verbatim>\<open>scarab-testkit/src/lib.rs\<close>: roles
  and scopes, sessions, API tokens, role bindings with their origin, and principals pinned to the
  accounts of login providers. SHA-256 is a function parameter.
\<close>

section \<open>Roles and scopes\<close>

datatype role = Viewer | Member | Admin | Owner

definition role_rank :: "role \<Rightarrow> nat" where
  "role_rank r = (case r of Viewer \<Rightarrow> 0 | Member \<Rightarrow> 1 | Admin \<Rightarrow> 2 | Owner \<Rightarrow> 3)"

lemma role_rank_inject [simp]: "role_rank a = role_rank b \<longleftrightarrow> a = b"
  by (cases a; cases b) (simp_all add: role_rank_def)

instantiation role :: linorder
begin

definition less_eq_role_def: "a \<le> b \<longleftrightarrow> role_rank a \<le> role_rank b"

definition less_role_def: "(a :: role) < b \<longleftrightarrow> role_rank a < role_rank b"

instance
  by standard (auto simp: less_eq_role_def less_role_def)

end

datatype action = Read | Write | Administer

definition role_allows :: "role \<Rightarrow> action \<Rightarrow> bool" where
  "role_allows r a = (case a of Read \<Rightarrow> True | Write \<Rightarrow> r \<ge> Member | Administer \<Rightarrow> r \<ge> Admin)"

lemma role_allows_mono: "role_allows r a \<Longrightarrow> r \<le> r' \<Longrightarrow> role_allows r' a"
  by (cases a) (auto simp: role_allows_def)

record principal =
  pn_subject :: string
  pn_display_name :: "string option"
  pn_roles :: "role list"

definition principal_can :: "principal \<Rightarrow> action \<Rightarrow> bool" where
  "principal_can p a = list_ex (\<lambda>r. role_allows r a) (pn_roles p)"

datatype scope = SOrg string | SProject string string

definition scope_org_of :: "scope \<Rightarrow> string" where
  "scope_org_of s = (case s of SOrg org \<Rightarrow> org | SProject org _ \<Rightarrow> org)"

text \<open>The greatest of some roles; \<open>None\<close> is below every role, as in Rust's order on options.\<close>

definition max_of :: "role list \<Rightarrow> role option" where
  "max_of rs = (if rs = [] then None else Some (Max (set rs)))"

definition max_opt :: "role option \<Rightarrow> role option \<Rightarrow> role option" where
  "max_opt a b = (case (a, b) of (None, _) \<Rightarrow> b | (_, None) \<Rightarrow> a | (Some x, Some y) \<Rightarrow> Some (max x y))"

lemma max_of_Some: "max_of rs = Some r \<longleftrightarrow> r \<in> set rs \<and> (\<forall>r' \<in> set rs. r' \<le> r)"
  by (auto simp: max_of_def Max_eq_iff)

lemma max_of_None [simp]: "max_of rs = None \<longleftrightarrow> rs = []"
  by (simp add: max_of_def)

lemma max_of_append: "max_of (xs @ ys) = max_opt (max_of xs) (max_of ys)"
  by (auto simp: max_of_def max_opt_def Max_Un)

section \<open>Role bindings\<close>

record binding =
  bn_subject :: string
  bn_scope :: scope
  bn_role :: role

datatype binding_origin = Native | Import

definition rbac_role_of :: "binding list \<Rightarrow> string \<Rightarrow> scope \<Rightarrow> role option" where
  "rbac_role_of bindings subject sc =
     max_of (map bn_role (filter (\<lambda>b. bn_subject b = subject \<and> (bn_scope b = sc \<or> bn_scope b = SOrg (scope_org_of sc))) bindings))"

definition rbac_can :: "binding list \<Rightarrow> string \<Rightarrow> scope \<Rightarrow> action \<Rightarrow> bool" where
  "rbac_can bindings subject sc a = (case rbac_role_of bindings subject sc of None \<Rightarrow> False | Some r \<Rightarrow> role_allows r a)"

text \<open>A key is a subject, an org and a project; the project is empty for the scope of an org. A row without
  a role is the tombstone of a native revoke.\<close>

type_synonym rbac_key = "string \<times> string \<times> string"

type_synonym rbac_row = "role option \<times> binding_origin"

record rbac_store =
  rb_rows :: "(rbac_key \<times> rbac_row) list"
  rb_via :: "(rbac_key \<times> string) list"

definition rbac_key :: "string \<Rightarrow> scope \<Rightarrow> rbac_key" where
  "rbac_key subject sc = (case sc of SOrg org \<Rightarrow> (subject, org, []) | SProject org name \<Rightarrow> (subject, org, name))"

definition native_owned :: "(rbac_key \<times> rbac_row) list \<Rightarrow> rbac_key \<Rightarrow> bool" where
  "native_owned rows k = (case al_get rows k of Some (_, Native) \<Rightarrow> True | _ \<Rightarrow> False)"

definition rbac_grant :: "binding \<Rightarrow> binding_origin \<Rightarrow> rbac_store \<Rightarrow> rbac_store" where
  "rbac_grant b org st =
     (let k = rbac_key (bn_subject b) (bn_scope b) in
      case org of
        Native \<Rightarrow> st\<lparr>rb_rows := al_put k (Some (bn_role b), Native) (rb_rows st)\<rparr>
      | Import \<Rightarrow> (if native_owned (rb_rows st) k then st
                   else st\<lparr>rb_rows := al_put k (Some (bn_role b), Import) (rb_rows st)\<rparr>))"

definition rbac_revoke :: "string \<Rightarrow> scope \<Rightarrow> rbac_store \<Rightarrow> rbac_store" where
  "rbac_revoke subject sc st = st\<lparr>rb_rows := al_put (rbac_key subject sc) (None, Native) (rb_rows st)\<rparr>"

definition row_role :: "rbac_store \<Rightarrow> rbac_key \<Rightarrow> role option" where
  "row_role st k = (case al_get (rb_rows st) k of None \<Rightarrow> None | Some (r, _) \<Rightarrow> r)"

definition store_role_of :: "rbac_store \<Rightarrow> string \<Rightarrow> scope \<Rightarrow> role option" where
  "store_role_of st subject sc =
     max_opt (row_role st (rbac_key subject sc)) (row_role st (rbac_key subject (SOrg (scope_org_of sc))))"

definition store_max_role :: "rbac_store \<Rightarrow> string \<Rightarrow> role option" where
  "store_max_role st subject =
     max_of (List.map_filter (\<lambda>((s, _, _), r, _). if s = subject then r else None) (rb_rows st))"

definition row_scope :: "string \<Rightarrow> string \<Rightarrow> scope" where
  "row_scope org project = (if project = [] then SOrg org else SProject org project)"

definition store_bindings :: "rbac_store \<Rightarrow> string \<Rightarrow> binding list" where
  "store_bindings st org =
     sort_key bn_subject
       (List.map_filter (\<lambda>((s, oo, p), r, _). if oo = org
           then map_option (\<lambda>r. \<lparr>bn_subject = s, bn_scope = row_scope oo p, bn_role = r\<rparr>) r else None) (rb_rows st))"

definition store_orgs_of :: "rbac_store \<Rightarrow> string \<Rightarrow> string list" where
  "store_orgs_of st subject =
     sorted_list_of_set (set (List.map_filter (\<lambda>((s, org, _), r, _). if s = subject \<and> r \<noteq> None then Some org else None) (rb_rows st)))"

definition seed_one :: "scope \<Rightarrow> string \<Rightarrow> string \<times> role \<Rightarrow> rbac_store \<Rightarrow> rbac_store" where
  "seed_one sc via seed st =
     (let k = rbac_key (fst seed) sc in
      if native_owned (rb_rows st) k then st
      else st\<lparr>rb_rows := al_put k (Some (snd seed), Import) (rb_rows st), rb_via := al_put k via (rb_via st)\<rparr>)"

definition delete_keys :: "rbac_key list \<Rightarrow> rbac_store \<Rightarrow> rbac_store" where
  "delete_keys ks st = st\<lparr>rb_rows := fold al_del ks (rb_rows st), rb_via := fold al_del ks (rb_via st)\<rparr>"

definition pruned_keys :: "rbac_store \<Rightarrow> scope \<Rightarrow> string \<Rightarrow> (string \<times> role) list \<Rightarrow> rbac_key list" where
  "pruned_keys st sc via seeds =
     (let (_, org, project) = rbac_key [] sc in
      map fst (filter (\<lambda>((s, oo, p), _, origin). oo = org \<and> p = project \<and> origin = Import
                         \<and> (case al_get (rb_via st) (s, oo, p) of None \<Rightarrow> True | Some v \<Rightarrow> v = via)
                         \<and> s \<notin> fst ` set seeds) (rb_rows st)))"

definition import_seeds :: "scope \<Rightarrow> string \<Rightarrow> (string \<times> role) list \<Rightarrow> bool \<Rightarrow> rbac_store \<Rightarrow> nat \<times> rbac_store" where
  "import_seeds sc via seeds prune st =
     (let st1 = fold (seed_one sc via) seeds st;
          doomed = (if prune then pruned_keys st1 sc via seeds else [])
      in (length doomed, delete_keys doomed st1))"

definition dropped_keys :: "rbac_store \<Rightarrow> string \<Rightarrow> string \<Rightarrow> rbac_key list" where
  "dropped_keys st subject via =
     map fst (filter (\<lambda>((s, oo, p), _, origin). s = subject \<and> origin = Import \<and> al_get (rb_via st) (s, oo, p) = Some via) (rb_rows st))"

definition drop_imports :: "string \<Rightarrow> string \<Rightarrow> rbac_store \<Rightarrow> nat \<times> rbac_store" where
  "drop_imports subject via st = (let doomed = dropped_keys st subject via in (length doomed, delete_keys doomed st))"

section \<open>Sessions\<close>

definition LOGIN_KIND_BROWSER :: string where "LOGIN_KIND_BROWSER = ''browser''"

definition LOGIN_KIND_API :: string where "LOGIN_KIND_API = ''api''"

definition FRESH_LOGIN_MS :: int where "FRESH_LOGIN_MS = 5 * 60 * 1000"

record session =
  sn_id :: string
  sn_principal :: principal
  sn_expires_at :: int
  sn_csrf_hash :: string
  sn_created_at :: int
  sn_login_kind :: string

text \<open>The comparison looks at every byte: the differences are collected with exclusive or.\<close>

unbundle bit_operations_syntax

definition ct_eq :: "string \<Rightarrow> string \<Rightarrow> bool" where
  "ct_eq a b =
     (length a = length b
      \<and> foldl (\<lambda>acc (x, y). acc OR (of_char x XOR of_char y)) (0 :: nat) (zip a b) = 0)"

definition csrf_matches :: "(string \<Rightarrow> string) \<Rightarrow> session \<Rightarrow> string option \<Rightarrow> bool" where
  "csrf_matches sha256_hex s presented =
     (case presented of
        None \<Rightarrow> False
      | Some token \<Rightarrow> sn_csrf_hash s \<noteq> [] \<and> ct_eq (sha256_hex token) (sn_csrf_hash s))"

definition session_is_valid :: "session \<Rightarrow> int \<Rightarrow> bool" where
  "session_is_valid s now = (now < sn_expires_at s)"

definition fresh_login_until :: "session \<Rightarrow> int option" where
  "fresh_login_until s =
     (if sn_login_kind s = LOGIN_KIND_BROWSER \<and> sn_created_at s > 0 then Some (sn_created_at s + FRESH_LOGIN_MS) else None)"

text \<open>Sessions are kept under the hash of their id, without it.\<close>

definition session_put :: "(string \<Rightarrow> string) \<Rightarrow> session \<Rightarrow> (string \<times> session) list \<Rightarrow> (string \<times> session) list" where
  "session_put sha256_hex s m = al_put (sha256_hex (sn_id s)) (s\<lparr>sn_id := []\<rparr>) m"

definition session_get :: "(string \<Rightarrow> string) \<Rightarrow> (string \<times> session) list \<Rightarrow> string \<Rightarrow> session option" where
  "session_get sha256_hex m sid = map_option (\<lambda>s. s\<lparr>sn_id := sid\<rparr>) (al_get m (sha256_hex sid))"

definition session_delete :: "(string \<Rightarrow> string) \<Rightarrow> string \<Rightarrow> (string \<times> session) list \<Rightarrow> (string \<times> session) list" where
  "session_delete sha256_hex sid m = al_del (sha256_hex sid) m"

section \<open>API tokens\<close>

definition API_TOKEN_PREFIX :: string where "API_TOKEN_PREFIX = ''scarab_pat_''"

record api_token =
  tk_id :: string
  tk_name :: string
  tk_owner_subject :: string
  tk_scope :: scope
  tk_role :: role
  tk_expires_at :: int
  tk_created_by :: string
  tk_created_at :: int
  tk_last_used_at :: "int option"
  tk_use_count :: nat
  tk_revoked_at :: "int option"

definition token_is_live :: "api_token \<Rightarrow> int \<Rightarrow> bool" where
  "token_is_live t now = (tk_revoked_at t = None \<and> now < tk_expires_at t)"

definition token_covers :: "api_token \<Rightarrow> scope \<Rightarrow> bool" where
  "token_covers t sc =
     (case tk_scope t of
        SOrg org \<Rightarrow> scope_org_of sc = org
      | SProject org name \<Rightarrow> sc = SProject org name)"

definition effective_role :: "api_token \<Rightarrow> role option \<Rightarrow> role option" where
  "effective_role t live = map_option (\<lambda>r. min r (tk_role t)) live"

type_synonym tokens = "(string \<times> api_token) list"

definition token_put :: "api_token \<Rightarrow> string \<Rightarrow> tokens \<Rightarrow> tokens" where
  "token_put t hash m = al_put hash t m"

definition token_by_id :: "tokens \<Rightarrow> string \<Rightarrow> api_token option" where
  "token_by_id m x = List.find (\<lambda>t. tk_id t = x) (map snd m)"

text \<open>The update of the first row with an id.\<close>

fun update_token :: "string \<Rightarrow> (api_token \<Rightarrow> api_token) \<Rightarrow> tokens \<Rightarrow> tokens" where
  "update_token x f [] = []"
| "update_token x f ((h, t) # m) = (if tk_id t = x then (h, f t) # m else (h, t) # update_token x f m)"

definition token_revoke :: "string \<Rightarrow> int \<Rightarrow> tokens \<Rightarrow> bool \<times> tokens" where
  "token_revoke x now m =
     (case token_by_id m x of
        None \<Rightarrow> (False, m)
      | Some t \<Rightarrow> (if tk_revoked_at t \<noteq> None then (False, m)
                   else (True, update_token x (\<lambda>t. t\<lparr>tk_revoked_at := Some now\<rparr>) m)))"

definition token_touch :: "string \<Rightarrow> int \<Rightarrow> nat \<Rightarrow> tokens \<Rightarrow> tokens" where
  "token_touch x now uses m =
     update_token x (\<lambda>t. t\<lparr>tk_last_used_at := (case tk_last_used_at t of
            None \<Rightarrow> Some now | Some prev \<Rightarrow> Some (if prev < now then now else prev)),
          tk_use_count := min (u64_bound - 1) (tk_use_count t + uses)\<rparr>) m"

definition token_list :: "(api_token \<Rightarrow> bool) \<Rightarrow> tokens \<Rightarrow> api_token list" where
  "token_list keep m = sort_key (\<lambda>t. - tk_created_at t) (sort_key tk_id (filter keep (map snd m)))"

definition token_list_org :: "tokens \<Rightarrow> string \<Rightarrow> api_token list" where
  "token_list_org m org = token_list (\<lambda>t. scope_org_of (tk_scope t) = org) m"

definition token_list_owned :: "tokens \<Rightarrow> string \<Rightarrow> api_token list" where
  "token_list_owned m owner = token_list (\<lambda>t. tk_owner_subject t = owner) m"

section \<open>Principals and provider identities\<close>

record provider_identity =
  vi_provider :: string
  vi_external_id :: string
  vi_handle :: string
  vi_email :: "string option"
  vi_email_verified :: bool
  vi_display_name :: "string option"

record principal_record =
  pc_id :: string
  pc_display_name :: "string option"
  pc_created_at :: int
  pc_claimed_at :: "int option"
  pc_merged_into :: "string option"

datatype identity_error = AuthFailed | Issuance string | IdentityDenied | IdentityConflict string

datatype link_outcome = Attached | AlreadyLinked | LinkMerged string "string list" | PasskeysWouldMove string nat

definition handle_char :: "char \<Rightarrow> bool" where
  "handle_char c = ((let n = of_char c :: nat in 48 \<le> n \<and> n \<le> 57 \<or> 65 \<le> n \<and> n \<le> 90 \<or> 97 \<le> n \<and> n \<le> 122)
     \<or> c \<in> set ''._@+-'')"

definition is_clean_handle :: "string \<Rightarrow> bool" where
  "is_clean_handle s = (s \<noteq> [] \<and> list_all handle_char s)"

definition escape_tilde :: "string \<Rightarrow> string" where
  "escape_tilde s = concat (map (\<lambda>c. if c = CHR ''~'' then ''%7E'' else [c]) s)"

definition base_principal_id :: "provider_identity \<Rightarrow> string option \<Rightarrow> string" where
  "base_principal_id i unqualified =
     (case unqualified of
        Some legacy \<Rightarrow> if legacy \<noteq> [] \<and> CHR '':'' \<notin> set legacy \<and> CHR ''~'' \<notin> set legacy then legacy
          else vi_provider i @ '':'' @ (if is_clean_handle (vi_handle i) then vi_handle i else escape_tilde (vi_external_id i))
      | None \<Rightarrow> vi_provider i @ '':'' @ (if is_clean_handle (vi_handle i) then vi_handle i else escape_tilde (vi_external_id i)))"

definition principal_id_candidate :: "string \<Rightarrow> nat \<Rightarrow> string" where
  "principal_id_candidate base n = (if n \<le> 1 then base else base @ ''~'' @ nat_str n)"

definition like_literal :: "string \<Rightarrow> string" where
  "like_literal q = concat (map (\<lambda>c. if c \<in> {CHR 0x5C, CHR ''%'', CHR ''_''} then [CHR 0x5C, c] else [c]) q)"

record identities =
  is_principals :: "(string \<times> principal_record) list"
  is_identities :: "((string \<times> string) \<times> (string \<times> provider_identity)) list"

lemma candidate_inject [simp]:
  "1 \<le> m \<Longrightarrow> 1 \<le> n \<Longrightarrow> principal_id_candidate base m = principal_id_candidate base n \<longleftrightarrow> m = n"
  by (auto simp: principal_id_candidate_def)

lemma finite_candidates: "finite {n. 1 \<le> n \<and> principal_id_candidate base n \<in> set taken}"
proof -
  let ?N = "{n. 1 \<le> n \<and> principal_id_candidate base n \<in> set taken}"
  have "finite (principal_id_candidate base ` ?N)" by (rule finite_subset [of _ "set taken"]) auto
  then show ?thesis by (rule finite_imageD) (auto simp: inj_on_def)
qed

text \<open>The first candidate that no principal has, from the \<open>n\<close>th on.\<close>

function mint_id :: "string list \<Rightarrow> string \<Rightarrow> nat \<Rightarrow> string" where
  "mint_id taken base n =
     (if 1 \<le> n \<and> principal_id_candidate base n \<in> set taken then mint_id taken base (n + 1) else principal_id_candidate base n)"
  by pat_completeness auto

termination mint_id
proof (relation "measure (\<lambda>(taken, base, n). card {m. n \<le> m \<and> 1 \<le> m \<and> principal_id_candidate base m \<in> set taken})", goal_cases)
  case (2 taken base n)
  let ?N = "\<lambda>k. {m. k \<le> m \<and> 1 \<le> m \<and> principal_id_candidate base m \<in> set taken}"
  have "?N n = insert n (?N (n + 1))" using 2 by (auto simp: Suc_le_eq dest: le_neq_implies_less)
  moreover have "finite (?N (n + 1))" by (rule finite_subset [OF _ finite_candidates [of base taken]]) auto
  ultimately show ?case by simp
qed simp

declare mint_id.simps [simp del]

lemma mint_id_free: "1 \<le> n \<Longrightarrow> mint_id taken base n \<notin> set taken \<and> (\<exists>m \<ge> n. mint_id taken base n = principal_id_candidate base m)"
proof (induction taken base n rule: mint_id.induct)
  case (1 taken base n)
  show ?case
  proof (cases "principal_id_candidate base n \<in> set taken")
    case True
    then have step: "mint_id taken base n = mint_id taken base (n + 1)" using 1(2) by (subst mint_id.simps) simp
    obtain m where "m \<ge> n + 1" "mint_id taken base (n + 1) = principal_id_candidate base m"
      using 1 True by auto
    then show ?thesis using 1 True by (auto simp: step intro: exI [of _ m])
  next
    case False
    then have "mint_id taken base n = principal_id_candidate base n" by (subst mint_id.simps) simp
    then show ?thesis using False by auto
  qed
qed

text \<open>A sign-in claims the principal; a forge import only pins it.\<close>

definition pin_or_mint :: "provider_identity \<Rightarrow> string \<Rightarrow> int \<Rightarrow> bool \<Rightarrow> identities \<Rightarrow> string \<times> identities" where
  "pin_or_mint i base now claim st =
     (let k = (vi_provider i, vi_external_id i) in
      case al_get (is_identities st) k of
        Some (pid, held) \<Rightarrow>
          (pid,
           \<lparr>is_principals =
              (if claim then
                 (case al_get (is_principals st) pid of
                    None \<Rightarrow> is_principals st
                  | Some p \<Rightarrow> al_put pid
                      (p\<lparr>pc_display_name := (if vi_display_name i \<noteq> None then vi_display_name i else pc_display_name p),
                         pc_claimed_at := (case pc_claimed_at p of None \<Rightarrow> Some now | Some t \<Rightarrow> Some t)\<rparr>) (is_principals st))
               else is_principals st),
            is_identities = al_put k (pid, if claim then i else held\<lparr>vi_handle := vi_handle i\<rparr>) (is_identities st)\<rparr>)
      | None \<Rightarrow>
          (let pid = mint_id (map fst (is_principals st)) base 1 in
           (pid,
            \<lparr>is_principals = al_put pid \<lparr>pc_id = pid, pc_display_name = vi_display_name i, pc_created_at = now,
                pc_claimed_at = (if claim then Some now else None), pc_merged_into = None\<rparr> (is_principals st),
             is_identities = al_put k (pid, i) (is_identities st)\<rparr>)))"

definition sign_in :: "provider_identity \<Rightarrow> string \<Rightarrow> int \<Rightarrow> identities \<Rightarrow> string \<times> identities" where
  "sign_in i base now st = pin_or_mint i base now True st"

definition pin :: "provider_identity \<Rightarrow> string \<Rightarrow> int \<Rightarrow> identities \<Rightarrow> string \<times> identities" where
  "pin i base now st = pin_or_mint i base now False st"

definition pinned :: "identities \<Rightarrow> string \<Rightarrow> string \<Rightarrow> string option" where
  "pinned st provider external_id = map_option fst (al_get (is_identities st) (provider, external_id))"

definition link :: "string \<Rightarrow> provider_identity \<Rightarrow> identities \<Rightarrow> (identity_error + link_outcome) \<times> identities" where
  "link pid i st =
     (let k = (vi_provider i, vi_external_id i); holder = map_option fst (al_get (is_identities st) k) in
      if holder = Some pid then (Inr AlreadyLinked, st)
      else case List.find (\<lambda>((prov, _), p, _). prov = vi_provider i \<and> p = pid) (is_identities st) of
             Some (_, _, held) \<Rightarrow>
               (Inl (IdentityConflict (''you already have a '' @ vi_provider i @ '' account linked ('' @ quoted (vi_handle held)
                  @ '') '' @ [CHR 0xE2, CHR 0x80, CHR 0x94] @ '' unlink it first'')), st)
           | None \<Rightarrow>
               (case holder of
                  None \<Rightarrow> (Inr Attached, st\<lparr>is_identities := al_put k (pid, i) (is_identities st)\<rparr>)
                | Some from' \<Rightarrow>
                    (if length (filter (\<lambda>(_, p, _). p = from') (is_identities st)) > 1
                     then (Inl (IdentityConflict (''that '' @ vi_provider i @ '' account belongs to '' @ quoted from'
                             @ '', which also signs in another way'')), st)
                     else (Inl (Issuance ''merging Principals needs the Postgres adapter (one transaction across bindings, approvers, tokens and sessions)''), st))))"

definition unlink :: "string \<Rightarrow> string \<Rightarrow> identities \<Rightarrow> (identity_error + unit) \<times> identities" where
  "unlink pid provider st =
     (let mine = map fst (filter (\<lambda>(_, p, _). p = pid) (is_identities st)) in
      case List.find (\<lambda>(prov, _). prov = provider) mine of
        None \<Rightarrow> (Inl (IdentityConflict (''no '' @ provider @ '' account is linked'')), st)
      | Some k \<Rightarrow>
          (if length mine = 1
           then (Inl (IdentityConflict (provider @ '' is your only way to sign in '' @ [CHR 0xE2, CHR 0x80, CHR 0x94]
                   @ '' link another account first'')), st)
           else (Inr (), st\<lparr>is_identities := al_del k (is_identities st)\<rparr>)))"

definition identities_of :: "identities \<Rightarrow> string \<Rightarrow> provider_identity list" where
  "identities_of st pid = sort_key vi_provider (map (snd \<circ> snd) (filter (\<lambda>(_, p, _). p = pid) (is_identities st)))"

text \<open>The ids folded into one, transitively: a stack of targets and the ids found so far.\<close>

fun merged_new :: "string \<Rightarrow> string list \<Rightarrow> principal_record list \<Rightarrow> string list" where
  "merged_new target out [] = []"
| "merged_new target out (p # ps) =
     (if pc_merged_into p = Some target \<and> pc_id p \<notin> set out then pc_id p # merged_new target (out @ [pc_id p]) ps
      else merged_new target out ps)"

lemma merged_new_set: "set (merged_new target out ps) \<subseteq> pc_id ` set ps - set out"
  by (induction ps arbitrary: out) (auto, fastforce+)

function alias_walk :: "principal_record list \<Rightarrow> string list \<Rightarrow> string list \<Rightarrow> string list" where
  "alias_walk ps frontier out =
     (case frontier of
        [] \<Rightarrow> out
      | target # rest \<Rightarrow> (let new = merged_new target out ps in alias_walk ps (rev new @ rest) (out @ new)))"
  by pat_completeness auto

termination alias_walk
proof (relation "measures [\<lambda>(ps, frontier, out). card (pc_id ` set ps - set out), \<lambda>(ps, frontier, out). length frontier]", goal_cases)
  case (2 ps frontier out target rest new)
  show ?case
  proof (cases new)
    case (Cons x xs)
    then have "x \<in> pc_id ` set ps - set out" using 2 merged_new_set [of target out ps] by auto
    then have "pc_id ` set ps - set (out @ new) \<subset> pc_id ` set ps - set out" using Cons by auto
    then show ?thesis by (simp add: psubset_card_mono)
  qed (use 2 in auto)
qed simp

declare alias_walk.simps [simp del]

definition aliases_of :: "identities \<Rightarrow> string \<Rightarrow> string list" where
  "aliases_of st pid = sort (alias_walk (map snd (is_principals st)) [pid] [])"

text \<open>A merge target can itself be merged; the code follows at most 16 links.\<close>

fun resolve_from :: "nat \<Rightarrow> identities \<Rightarrow> string \<Rightarrow> string \<Rightarrow> identity_error + string option" where
  "resolve_from 0 st subject pid = Inl (Issuance (''principal '' @ quoted subject @ '' has a merge chain that does not end''))"
| "resolve_from (Suc n) st subject pid =
     (case al_get (is_principals st) pid of
        None \<Rightarrow> Inr None
      | Some p \<Rightarrow> (case pc_merged_into p of Some next' \<Rightarrow> resolve_from n st subject next' | None \<Rightarrow> Inr (Some pid)))"

definition resolve_principal :: "identities \<Rightarrow> string \<Rightarrow> identity_error + string option" where
  "resolve_principal st subject = resolve_from 16 st subject subject"

section \<open>Bindings: what imports may change\<close>

lemma native_owned_iff: "native_owned rows k \<longleftrightarrow> (\<exists>r. al_get rows k = Some (r, Native))"
  by (auto simp: native_owned_def split: option.split binding_origin.split)

lemma get_delete_keys: "al_get (rb_rows (delete_keys ks st)) k = (if k \<in> set ks then None else al_get (rb_rows st) k)"
proof -
  have "al_get (fold al_del ks rows) k = (if k \<in> set ks then None else al_get rows k)" for rows :: "(rbac_key \<times> rbac_row) list"
    by (induction ks arbitrary: rows) auto
  then show ?thesis by (simp add: delete_keys_def)
qed

lemma wf_delete_keys: "al_wf (rb_rows st) \<Longrightarrow> al_wf (rb_rows (delete_keys ks st))"
proof -
  have "al_wf rows \<Longrightarrow> al_wf (fold al_del ks rows)" for rows :: "(rbac_key \<times> rbac_row) list"
    by (induction ks arbitrary: rows) auto
  then show "al_wf (rb_rows st) \<Longrightarrow> al_wf (rb_rows (delete_keys ks st))" by (simp add: delete_keys_def)
qed

lemma seed_one_native: "native_owned (rb_rows st) k \<Longrightarrow> al_get (rb_rows (seed_one sc via s st)) k = al_get (rb_rows st) k"
  by (auto simp: seed_one_def Let_def)

lemma seeds_native:
  "native_owned (rb_rows st) k \<Longrightarrow> al_get (rb_rows (fold (seed_one sc via) seeds st)) k = al_get (rb_rows st) k"
proof (induction seeds arbitrary: st)
  case (Cons s seeds)
  then show ?case using seed_one_native [of st k sc via s] by (auto simp: native_owned_def)
qed simp

lemma seeds_wf: "al_wf (rb_rows st) \<Longrightarrow> al_wf (rb_rows (fold (seed_one sc via) seeds st))"
  by (induction seeds arbitrary: st) (auto simp: seed_one_def Let_def)

lemma pruned_not_native: "al_wf (rb_rows st) \<Longrightarrow> native_owned (rb_rows st) k \<Longrightarrow> k \<notin> set (pruned_keys st sc via seeds)"
  by (cases k) (auto simp: pruned_keys_def native_owned_iff al_get_mem split: prod.splits, auto simp: al_wf_def dest: eq_key_imp_eq_value)

lemma dropped_not_native: "al_wf (rb_rows st) \<Longrightarrow> native_owned (rb_rows st) k \<Longrightarrow> k \<notin> set (dropped_keys st subject via)"
  by (cases k) (auto simp: dropped_keys_def native_owned_iff al_get_mem, auto simp: al_wf_def dest: eq_key_imp_eq_value)

text \<open>What a forge sync and an unlink do to the bindings.\<close>

datatype import_op = ImportGrant binding | ImportSeeds scope string "(string \<times> role) list" bool | DropImports string string

definition import_run :: "import_op \<Rightarrow> rbac_store \<Rightarrow> rbac_store" where
  "import_run op st =
     (case op of
        ImportGrant b \<Rightarrow> rbac_grant b Import st
      | ImportSeeds sc via seeds prune \<Rightarrow> snd (import_seeds sc via seeds prune st)
      | DropImports subject via \<Rightarrow> snd (drop_imports subject via st))"

lemma import_keeps_native:
  assumes wf: "al_wf (rb_rows st)" and native: "native_owned (rb_rows st) k"
  shows "al_wf (rb_rows (import_run op st)) \<and> al_get (rb_rows (import_run op st)) k = al_get (rb_rows st) k"
proof (cases op)
  case (ImportSeeds sc via seeds prune)
  let ?st1 = "fold (seed_one sc via) seeds st"
  have get: "al_get (rb_rows ?st1) k = al_get (rb_rows st) k" by (rule seeds_native [OF native])
  moreover have "native_owned (rb_rows ?st1) k" using get native by (simp add: native_owned_def)
  ultimately show ?thesis using ImportSeeds seeds_wf [OF wf] pruned_not_native
    by (auto simp: import_run_def import_seeds_def Let_def get_delete_keys intro: wf_delete_keys)
qed (use assms in \<open>auto simp: import_run_def rbac_grant_def drop_imports_def Let_def get_delete_keys dropped_not_native intro: wf_delete_keys\<close>)

text \<open>A live row is a binding of the specification.\<close>

definition live_bindings :: "rbac_store \<Rightarrow> binding list" where
  "live_bindings st =
     List.map_filter (\<lambda>((s, oo, p), r, _). map_option (\<lambda>r. \<lparr>bn_subject = s, bn_scope = row_scope oo p, bn_role = r\<rparr>) r) (rb_rows st)"

definition proper_scope :: "scope \<Rightarrow> bool" where
  "proper_scope sc = (case sc of SOrg _ \<Rightarrow> True | SProject _ name \<Rightarrow> name \<noteq> [])"

lemma set_live_bindings:
  assumes "al_wf (rb_rows st)"
  shows "b \<in> set (live_bindings st) \<longleftrightarrow> (proper_scope (bn_scope b) \<and> row_role st (rbac_key (bn_subject b) (bn_scope b)) = Some (bn_role b))"
proof -
  have "b \<in> set (live_bindings st) \<longleftrightarrow>
      (\<exists>s oo p r origin. ((s, oo, p), Some r, origin) \<in> set (rb_rows st) \<and> b = \<lparr>bn_subject = s, bn_scope = row_scope oo p, bn_role = r\<rparr>)"
    by (force simp: live_bindings_def List.map_filter_def)
  also have "\<dots> \<longleftrightarrow> (\<exists>s oo p r. row_role st (s, oo, p) = Some r \<and> b = \<lparr>bn_subject = s, bn_scope = row_scope oo p, bn_role = r\<rparr>)"
    by (force simp: row_role_def al_get_mem [OF assms, symmetric] split: option.splits prod.splits)
  also have "\<dots> \<longleftrightarrow> proper_scope (bn_scope b) \<and> row_role st (rbac_key (bn_subject b) (bn_scope b)) = Some (bn_role b)"
  proof (cases "bn_scope b")
    case (SOrg org)
    then show ?thesis by (cases b) (auto simp: proper_scope_def rbac_key_def row_scope_def split: if_splits)
  next
    case (SProject org name)
    then show ?thesis by (cases b) (auto simp: proper_scope_def rbac_key_def row_scope_def split: if_splits)
  qed
  finally show ?thesis .
qed

lemma max_of_set: "set xs = set ys \<Longrightarrow> max_of xs = max_of ys"
  by (auto simp: max_of_def)

lemma store_role_refines:
  assumes wf: "al_wf (rb_rows st)" and sc: "proper_scope sc"
  shows "store_role_of st subject sc = rbac_role_of (live_bindings st) subject sc"
proof -
  let ?at = "\<lambda>s. case row_role st (rbac_key subject s) of None \<Rightarrow> [] | Some r \<Rightarrow> [r]"
  let ?org = "SOrg (scope_org_of sc)"
  have org: "proper_scope ?org" by (simp add: proper_scope_def)
  have "set (map bn_role (filter (\<lambda>b. bn_subject b = subject \<and> (bn_scope b = sc \<or> bn_scope b = ?org)) (live_bindings st)))
      = set (?at sc @ ?at ?org)"
  proof (intro set_eqI iffI)
    fix r
    assume "r \<in> set (?at sc @ ?at ?org)"
    then obtain s where s: "s \<in> {sc, ?org}" "row_role st (rbac_key subject s) = Some r"
      unfolding set_append Un_iff by (elim disjE) (force split: option.splits)+
    then have "\<lparr>bn_subject = subject, bn_scope = s, bn_role = r\<rparr> \<in> set (live_bindings st)"
      using sc org by (auto simp: set_live_bindings [OF wf])
    then show "r \<in> set (map bn_role (filter (\<lambda>b. bn_subject b = subject \<and> (bn_scope b = sc \<or> bn_scope b = ?org)) (live_bindings st)))"
      using s(1) by force
  qed (auto simp: set_live_bindings [OF wf])
  from max_of_set [OF this] show ?thesis
    by (simp add: rbac_role_of_def store_role_of_def max_of_append) (auto simp: max_of_def split: option.split)
qed

text \<open>C37: the store of role bindings implements the specification, in which an org's role inherits down to its
  projects and the highest wins; and native decisions are authoritative. Whatever imports, prunes and
  unlinks follow, a native revoke stays a revoke and a native grant keeps its role.\<close>
theorem native_bindings_authoritative:
  assumes "al_wf (rb_rows st)"
  shows "(proper_scope sc \<longrightarrow> store_role_of st subject sc = rbac_role_of (live_bindings st) subject sc)
    \<and> row_role (fold import_run ops (rbac_revoke subject sc st)) (rbac_key subject sc) = None
    \<and> row_role (fold import_run ops (rbac_grant \<lparr>bn_subject = subject, bn_scope = sc, bn_role = r\<rparr> Native st)) (rbac_key subject sc) = Some r"
proof -
  have keep: "al_get (rb_rows (fold import_run ops s)) k = al_get (rb_rows s) k"
    if "al_wf (rb_rows s)" "native_owned (rb_rows s) k" for s k
    using that
  proof (induction ops arbitrary: s)
    case (Cons op ops)
    note step = import_keeps_native [OF Cons.prems]
    then have "native_owned (rb_rows (import_run op s)) k" using Cons.prems(2) by (simp add: native_owned_def)
    then show ?case using Cons.IH step by simp
  qed simp
  show ?thesis
    using store_role_refines [OF assms] keep [of "rbac_revoke subject sc st" "rbac_key subject sc"]
      keep [of "rbac_grant \<lparr>bn_subject = subject, bn_scope = sc, bn_role = r\<rparr> Native st" "rbac_key subject sc"] assms
    by (auto simp: row_role_def rbac_revoke_def rbac_grant_def native_owned_def Let_def)
qed

theorem native_bindings_authoritative_witness:
  "row_role (fold import_run [ImportSeeds (SOrg ''o'') ''github'' [(''amy'', Owner)] True]
     (rbac_revoke ''amy'' (SOrg ''o'') \<lparr>rb_rows = [], rb_via = []\<rparr>)) (''amy'', ''o'', []) = None"
  using native_bindings_authoritative [of "\<lparr>rb_rows = [], rb_via = []\<rparr>" "SOrg ''o''" "''amy''"
      "[ImportSeeds (SOrg ''o'') ''github'' [(''amy'', Owner)] True]" Viewer]
  by (simp add: al_wf_def rbac_key_def)

section \<open>Identities: who a sign-in becomes\<close>

datatype identity_op = SignIn provider_identity string int | Pin provider_identity string int
  | Link string provider_identity | Unlink string string

definition identity_run :: "identity_op \<Rightarrow> identities \<Rightarrow> identities" where
  "identity_run op st =
     (case op of
        SignIn i base now \<Rightarrow> snd (sign_in i base now st)
      | Pin i base now \<Rightarrow> snd (pin i base now st)
      | Link pid i \<Rightarrow> snd (link pid i st)
      | Unlink pid provider \<Rightarrow> snd (unlink pid provider st))"

lemma pin_or_mint_pinned:
  "pinned (snd (pin_or_mint i base now claim st)) prov ext =
     (if (prov, ext) = (vi_provider i, vi_external_id i) then Some (fst (pin_or_mint i base now claim st)) else pinned st prov ext)
   \<and> (case pinned st (vi_provider i) (vi_external_id i) of
        Some pid \<Rightarrow> fst (pin_or_mint i base now claim st) = pid
      | None \<Rightarrow> fst (pin_or_mint i base now claim st) \<notin> fst ` set (is_principals st))"
  using mint_id_free [of 1 "map fst (is_principals st)" base]
  by (auto simp: pin_or_mint_def pinned_def Let_def split: option.split prod.split)

lemma unlink_pinned:
  assumes "al_wf (is_identities st)"
  shows "is_principals (snd (unlink pid' provider st)) = is_principals st
   \<and> (pinned (snd (unlink pid' provider st)) prov ext = pinned st prov ext
      \<or> (pinned st prov ext = Some pid' \<and> prov = provider \<and> pinned (snd (unlink pid' provider st)) prov ext = None))"
proof -
  let ?mine = "map fst (filter (\<lambda>(_, p, _). p = pid') (is_identities st))"
  have held: "pinned st (fst k) (snd k) = Some pid' \<and> fst k = provider"
    if find: "List.find (\<lambda>(prov, _). prov = provider) ?mine = Some k" for k
  proof -
    have "k \<in> set ?mine" "fst k = provider" using find_Some_mem [OF find] by (auto simp: case_prod_beta)
    then obtain x where "(k, pid', x) \<in> set (is_identities st)" by auto
    then have "al_get (is_identities st) k = Some (pid', x)" by (simp add: al_get_mem [OF assms])
    with \<open>fst k = provider\<close> show ?thesis by (cases k) (auto simp: pinned_def)
  qed
  show ?thesis
  proof (cases "List.find (\<lambda>(prov, _). prov = provider) ?mine")
    case None
    then show ?thesis by (simp add: unlink_def)
  next
    case (Some k)
    then show ?thesis using held [OF Some] by (cases k) (auto simp: unlink_def pinned_def)
  qed
qed

lemma pin_or_mint_principals: "fst ` set (is_principals st) \<subseteq> fst ` set (is_principals (snd (pin_or_mint i base now claim st)))"
  by (auto simp: pin_or_mint_def Let_def split: option.split prod.split)


definition gh_amy :: "string \<Rightarrow> provider_identity" where
  "gh_amy ext = \<lparr>vi_provider = ''github'', vi_external_id = ext, vi_handle = ''amy'', vi_email = None, vi_email_verified = False,
     vi_display_name = None\<rparr>"

definition one_amy :: identities where
  "one_amy = snd (sign_in (gh_amy ''7'') ''amy'' 0 \<lparr>is_principals = [], is_identities = []\<rparr>)"


end
