(* ===== verification/Authentication.thy ===== *)
theory Authentication
  imports Identity
begin

text \<open>
  Who calls the API (\<^verbatim>\<open>scarab-server/src/lib.rs\<close>): the credential of a request, sessions with their CSRF token, API
  tokens, and what a caller may do in a scope. SHA-256 and the clock's reading are parameters. A request
  that is replayed after its confirmation, which authenticates without a credential, is left out.
\<close>

section \<open>Callers\<close>

datatype auth_via = Bearer | Cookie

record session_facts =
  sf_id :: string
  sf_id_hash :: string
  sf_fresh_login_until :: "int option"

record caller =
  ca_principal :: principal
  ca_grant :: "api_token option"
  ca_via :: "auth_via option"
  ca_session :: "session_facts option"

definition dev_insecure_owner :: "principal \<Rightarrow> caller" where
  "dev_insecure_owner p = \<lparr>ca_principal = p, ca_grant = None, ca_via = None, ca_session = None\<rparr>"

definition is_browser_session :: "caller \<Rightarrow> bool" where
  "is_browser_session c = (ca_grant c = None \<and> ca_via c = Some Cookie \<and> ca_session c \<noteq> None)"

definition event_label :: "caller \<Rightarrow> string" where
  "event_label c =
     (case (ca_grant c, ca_via c) of
        (Some t, _) \<Rightarrow> ''api_token:'' @ tk_id t
      | (None, Some Cookie) \<Rightarrow> ''session:cookie''
      | (None, Some Bearer) \<Rightarrow> ''session:bearer''
      | (None, None) \<Rightarrow> ''dev:insecure'')"

definition may_globally :: "caller \<Rightarrow> action \<Rightarrow> bool" where
  "may_globally c a = (ca_grant c = None \<and> principal_can (ca_principal c) a)"

text \<open>What the server holds: the optional stores, and the owners list of each login provider.\<close>

record auth_env =
  ae_sessions :: "(string \<times> session) list option"
  ae_tokens :: "tokens option"
  ae_token_uses :: "(string \<times> nat \<times> int) list"
  ae_rbac :: "rbac_store option"
  ae_identities :: "identities option"
  ae_owners :: "string list list"
  ae_sha256_hex :: "string \<Rightarrow> string"

definition live_role_in :: "auth_env \<Rightarrow> principal \<Rightarrow> scope \<Rightarrow> role option" where
  "live_role_in ae p sc =
     max_opt (max_of (pn_roles p)) (case ae_rbac ae of None \<Rightarrow> None | Some rb \<Rightarrow> store_role_of rb (pn_subject p) sc)"

definition role_in :: "auth_env \<Rightarrow> caller \<Rightarrow> scope \<Rightarrow> role option" where
  "role_in ae c sc =
     (let live = live_role_in ae (ca_principal c) sc in
      case ca_grant c of None \<Rightarrow> live | Some t \<Rightarrow> if token_covers t sc then effective_role t live else None)"

definition may :: "auth_env \<Rightarrow> caller \<Rightarrow> action \<Rightarrow> scope \<Rightarrow> bool" where
  "may ae c a sc = (case role_in ae c sc of None \<Rightarrow> False | Some r \<Rightarrow> role_allows r a)"

definition bootstrap_owner_role :: "string list \<Rightarrow> string \<Rightarrow> role option" where
  "bootstrap_owner_role owners subject = (if list_ex (\<lambda>e. e = subject) owners then Some Owner else None)"

definition token_owner_roles :: "auth_env \<Rightarrow> string \<Rightarrow> role list" where
  "token_owner_roles ae subject =
     (let ids = subject # (case ae_identities ae of None \<Rightarrow> [] | Some st \<Rightarrow> aliases_of st subject) in
      case max_of (concat (map (\<lambda>owners. List.map_filter (bootstrap_owner_role owners) ids) (ae_owners ae))) of
        None \<Rightarrow> [] | Some r \<Rightarrow> [r])"

section \<open>Credentials\<close>

text \<open>The headers a request presents, when they are visible ASCII.\<close>

record headers =
  hd_authorization :: "string option"
  hd_cookie :: "string option"
  hd_csrf :: "string option"

fun split_char :: "char \<Rightarrow> string \<Rightarrow> string list" where
  "split_char sep [] = [[]]"
| "split_char sep (c # cs) =
     (if c = sep then [] # split_char sep cs
      else case split_char sep cs of [] \<Rightarrow> [[c]] | part # parts \<Rightarrow> (c # part) # parts)"

definition trim_ascii :: "string \<Rightarrow> string" where
  "trim_ascii s = (let white = (\<lambda>c. c = CHR 0x20 \<or> c = CHR 0x09) in rev (dropWhile white (rev (dropWhile white s))))"

definition strip_prefix :: "string \<Rightarrow> string \<Rightarrow> string option" where
  "strip_prefix p s = (if take (length p) s = p then Some (drop (length p) s) else None)"

definition cookie_value :: "headers \<Rightarrow> string \<Rightarrow> string option" where
  "cookie_value h name =
     (case hd_cookie h of
        None \<Rightarrow> None
      | Some cookie \<Rightarrow>
          (case List.map_filter (\<lambda>p. strip_prefix (name @ ''='') (trim_ascii p)) (split_char (CHR '';'') cookie) of
             [] \<Rightarrow> None | v # _ \<Rightarrow> Some v))"

definition session_id :: "headers \<Rightarrow> (string \<times> auth_via) option" where
  "session_id h =
     (case (case hd_authorization h of None \<Rightarrow> None | Some v \<Rightarrow> strip_prefix ''Bearer '' v) of
        Some tok \<Rightarrow> Some (tok, Bearer)
      | None \<Rightarrow> map_option (\<lambda>v. (v, Cookie)) (cookie_value h ''scarab_session''))"

text \<open>The two of the server's errors that authentication and authorisation give: 401 and 403.\<close>

datatype api_error = Unauthorized | Forbidden

section \<open>Authentication\<close>

definition API_TOKEN_TOUCH_INTERVAL_MS :: int where "API_TOKEN_TOUCH_INTERVAL_MS = 60000"

definition record_use_of_token :: "string \<Rightarrow> int \<Rightarrow> (string \<times> nat \<times> int) list \<Rightarrow> (string \<times> nat \<times> int) list" where
  "record_use_of_token x now m =
     (case al_get m x of
        None \<Rightarrow> al_put x (1, now) m
      | Some (n, last') \<Rightarrow> al_put x (min (u64_bound - 1) (n + 1), max last' now) m)"

text \<open>Counting a use: the first time in a request, and written once the stored last use is a minute old.\<close>

definition count_use :: "bool \<Rightarrow> api_token \<Rightarrow> int \<Rightarrow> auth_env \<Rightarrow> auth_env" where
  "count_use first t now ae =
     (if \<not> first then ae
      else
        (let uses = record_use_of_token (tk_id t) now (ae_token_uses ae) in
         if (case tk_last_used_at t of None \<Rightarrow> True | Some prev \<Rightarrow> now - prev \<ge> API_TOKEN_TOUCH_INTERVAL_MS)
         then (case al_get uses (tk_id t) of
                 None \<Rightarrow> ae\<lparr>ae_token_uses := uses\<rparr>
               | Some (n, last') \<Rightarrow> ae\<lparr>ae_token_uses := al_del (tk_id t) uses,
                    ae_tokens := map_option (token_touch (tk_id t) last' n) (ae_tokens ae)\<rparr>)
         else ae\<lparr>ae_token_uses := uses\<rparr>))"

definition flush_api_token_uses :: "auth_env \<Rightarrow> auth_env" where
  "flush_api_token_uses ae =
     (case ae_tokens ae of
        None \<Rightarrow> ae
      | Some m \<Rightarrow> ae\<lparr>ae_tokens := Some (fold (\<lambda>(x, n, last'). token_touch x last' n) (ae_token_uses ae) m), ae_token_uses := []\<rparr>)"

definition authenticate_api_token :: "string \<Rightarrow> auth_via \<Rightarrow> bool \<Rightarrow> int \<Rightarrow> auth_env \<Rightarrow> (api_error + caller) \<times> auth_env" where
  "authenticate_api_token plaintext via first now ae =
     (if via \<noteq> Bearer then (Inl Unauthorized, ae)
      else case ae_tokens ae of
        None \<Rightarrow> (Inl Unauthorized, ae)
      | Some m \<Rightarrow>
          (case al_get m (ae_sha256_hex ae plaintext) of
             None \<Rightarrow> (Inl Unauthorized, ae)
           | Some t \<Rightarrow>
               (if \<not> token_is_live t now then (Inl Unauthorized, ae)
                else
                  (Inr \<lparr>ca_principal = \<lparr>pn_subject = tk_owner_subject t,
                           pn_display_name = Some (''API token '' @ [CHR 0xE2, CHR 0x80, CHR 0x9C] @ tk_name t @ [CHR 0xE2, CHR 0x80, CHR 0x9D]),
                           pn_roles = token_owner_roles ae (tk_owner_subject t)\<rparr>,
                        ca_grant = Some t, ca_via = Some via, ca_session = None\<rparr>,
                   count_use first t now ae))))"

definition authenticate_session :: "string \<Rightarrow> auth_via \<Rightarrow> string option \<Rightarrow> action \<Rightarrow> int \<Rightarrow> auth_env \<Rightarrow> (string \<times> session) list \<Rightarrow> api_error + caller" where
  "authenticate_session sid via csrf a now ae sessions =
     (case session_get (ae_sha256_hex ae) sessions sid of
        None \<Rightarrow> Inl Unauthorized
      | Some s \<Rightarrow>
          (if \<not> session_is_valid s now then Inl Unauthorized
           else if a \<noteq> Read \<and> via = Cookie \<and> \<not> csrf_matches (ae_sha256_hex ae) s csrf then Inl Forbidden
           else Inr \<lparr>ca_principal = sn_principal s, ca_grant = None, ca_via = Some via,
                     ca_session = Some \<lparr>sf_id = sn_id s, sf_id_hash = ae_sha256_hex ae (sn_id s),
                       sf_fresh_login_until = fresh_login_until s\<rparr>\<rparr>))"

definition authenticate :: "headers \<Rightarrow> action \<Rightarrow> bool \<Rightarrow> int \<Rightarrow> auth_env \<Rightarrow> (api_error + caller) \<times> auth_env" where
  "authenticate h a first now ae =
     (case ae_sessions ae of
        None \<Rightarrow> (Inr (dev_insecure_owner \<lparr>pn_subject = ''anonymous'', pn_display_name = None, pn_roles = [Owner]\<rparr>), ae)
      | Some sessions \<Rightarrow>
          (case session_id h of
             None \<Rightarrow> (Inl Unauthorized, ae)
           | Some (sid, via) \<Rightarrow>
               (if strip_prefix API_TOKEN_PREFIX sid \<noteq> None then authenticate_api_token sid via first now ae
                else (authenticate_session sid via (hd_csrf h) a now ae sessions, ae))))"

definition authorize_scoped :: "headers \<Rightarrow> action \<Rightarrow> scope option \<Rightarrow> bool \<Rightarrow> int \<Rightarrow> auth_env \<Rightarrow> (api_error + principal) \<times> auth_env" where
  "authorize_scoped h a sc first now ae =
     (case authenticate h a first now ae of
        (Inl e, ae') \<Rightarrow> (Inl e, ae')
      | (Inr c, ae') \<Rightarrow>
          (if may_globally c a \<or> (case sc of None \<Rightarrow> False | Some s \<Rightarrow> may ae' c a s) then (Inr (ca_principal c), ae')
           else (Inl Forbidden, ae')))"

section \<open>What a credential gives\<close>

lemma max_opt_Some: "max_opt a b = Some r \<longleftrightarrow> (a = Some r \<and> (\<forall>x. b = Some x \<longrightarrow> x \<le> r)) \<or> (b = Some r \<and> (\<forall>x. a = Some x \<longrightarrow> x \<le> r))"
  by (auto simp: max_opt_def max_def split: option.splits)

lemma count_use_sel [simp]:
  "ae_rbac (count_use first t now ae) = ae_rbac ae" "ae_identities (count_use first t now ae) = ae_identities ae"
  "ae_owners (count_use first t now ae) = ae_owners ae" "ae_sessions (count_use first t now ae) = ae_sessions ae"
  by (auto simp: count_use_def Let_def split: option.split)

lemma live_role_count_use [simp]: "live_role_in (count_use first t now ae) p sc = live_role_in ae p sc"
  by (simp add: live_role_in_def)

lemma strip_prefix_Some: "strip_prefix p s = Some x \<Longrightarrow> s = p @ x"
  unfolding strip_prefix_def by (metis append_take_drop_id option.distinct(1) option.inject)

lemma authenticated_token:
  assumes "authenticate h a first now ae = (Inr c, ae')" "ca_grant c = Some t"
  obtains m plaintext where "ae_tokens ae = Some m" "hd_authorization h = Some (''Bearer '' @ plaintext)"
    "al_get m (ae_sha256_hex ae plaintext) = Some t" "token_is_live t now"
    "pn_subject (ca_principal c) = tk_owner_subject t" "pn_roles (ca_principal c) = token_owner_roles ae (tk_owner_subject t)"
    "ae' = count_use first t now ae" "ca_session c = None"
proof -
  obtain sessions where sessions: "ae_sessions ae = Some sessions"
    using assms by (cases "ae_sessions ae") (auto simp: authenticate_def dev_insecure_owner_def)
  obtain sid via where sid: "session_id h = Some (sid, via)"
    using assms sessions by (cases "session_id h") (auto simp: authenticate_def)
  have "strip_prefix API_TOKEN_PREFIX sid \<noteq> None"
  proof
    assume "strip_prefix API_TOKEN_PREFIX sid = None"
    then have "authenticate_session sid via (hd_csrf h) a now ae sessions = Inr c"
      using assms(1) by (auto simp: authenticate_def sessions sid)
    then have "ca_grant c = None" by (auto simp: authenticate_session_def split: option.splits if_splits)
    then show False using assms(2) by simp
  qed
  then have t: "authenticate_api_token sid via first now ae = (Inr c, ae')"
    using assms(1) by (simp add: authenticate_def sessions sid)
  then have "via = Bearer" by (auto simp: authenticate_api_token_def split: if_splits)
  then have "hd_authorization h = Some (''Bearer '' @ sid)"
    using sid by (auto simp: session_id_def split: option.splits dest: strip_prefix_Some)
  then show ?thesis using t assms(2) that
    by (auto simp: authenticate_api_token_def split: option.splits if_splits)
qed

lemma xor_zero: "(a :: nat) XOR b = 0 \<longleftrightarrow> a = b"
  by (simp add: bit_eq_iff bit_xor_iff)

lemma or_zero: "(a :: nat) OR b = 0 \<longleftrightarrow> a = 0 \<and> b = 0"
  by (simp add: bit_eq_iff bit_or_iff) blast

lemma ct_eq_iff: "ct_eq a b \<longleftrightarrow> a = b"
proof -
  have "foldl (\<lambda>acc (x, y). acc OR (of_char x XOR of_char y)) n ps = 0 \<longleftrightarrow> n = 0 \<and> (\<forall>(x, y) \<in> set ps. x = y)"
    for n :: nat and ps
    by (induction ps arbitrary: n) (auto simp: or_zero xor_zero)
  then have "ct_eq a b \<longleftrightarrow> length a = length b \<and> (\<forall>(x, y) \<in> set (zip a b). x = y)" by (simp add: ct_eq_def)
  also have "\<dots> \<longleftrightarrow> a = b" by (induction a b rule: list_induct2') auto
  finally show ?thesis .
qed

lemma csrf_matches_iff:
  "csrf_matches sha s csrf \<longleftrightarrow> (\<exists>token. csrf = Some token \<and> sha token = sn_csrf_hash s \<and> sn_csrf_hash s \<noteq> [])"
  by (auto simp: csrf_matches_def ct_eq_iff split: option.split)

lemma authenticated_session:
  assumes "authenticate h a first now ae = (Inr c, ae')" "ca_grant c = None" "ae_sessions ae = Some sessions"
  obtains sid via s where "session_id h = Some (sid, via)" "session_get (ae_sha256_hex ae) sessions sid = Some s"
    "session_is_valid s now" "ca_principal c = sn_principal s" "ca_via c = Some via"
    "via = Cookie \<and> a \<noteq> Read \<longrightarrow> csrf_matches (ae_sha256_hex ae) s (hd_csrf h)"
proof -
  obtain sid via where sid: "session_id h = Some (sid, via)"
    using assms by (cases "session_id h") (auto simp: authenticate_def)
  have "strip_prefix API_TOKEN_PREFIX sid = None"
    using assms(1,2) by (auto simp: authenticate_def assms(3) sid authenticate_api_token_def split: if_splits option.splits)
  then have "authenticate_session sid via (hd_csrf h) a now ae sessions = Inr c"
    using assms(1) by (auto simp: authenticate_def assms(3) sid)
  then show ?thesis using sid that by (auto simp: authenticate_session_def split: option.splits if_splits)
qed


definition ci_token :: api_token where
  "ci_token = \<lparr>tk_id = ''t1'', tk_name = ''ci'', tk_owner_subject = ''amy'', tk_scope = SProject ''o'' ''web'', tk_role = Member,
     tk_expires_at = 1000, tk_created_by = ''amy'', tk_created_at = 0, tk_last_used_at = Some 1, tk_use_count = 1, tk_revoked_at = None\<rparr>"

definition ci_env :: auth_env where
  "ci_env = \<lparr>ae_sessions = Some [], ae_tokens = Some [(''scarab_pat_x'', ci_token)], ae_token_uses = [], ae_rbac = None,
     ae_identities = None, ae_owners = [[''amy'']], ae_sha256_hex = id\<rparr>"

definition ci_headers :: headers where
  "ci_headers = \<lparr>hd_authorization = Some ''Bearer scarab_pat_x'', hd_cookie = None, hd_csrf = None\<rparr>"


end
