(* ===== verification/Step_Up_Store.thy ===== *)
theory Step_Up_Store
  imports Authentication Engine_Types "HOL-Library.Sublist"
begin

text \<open>
  The stores of step-up confirmation: passkeys, WebAuthn challenges, confirmations, the requests a machine raises for
  its human, and the security event log. The data is that of \<^verbatim>\<open>scarab-identity/src/step_up.rs\<close>, the operations
  are those of the in-process stores of \<^verbatim>\<open>scarab-testkit/src/step_up.rs\<close>; each runs under the store's lock,
  so it is one step. A byte string is a \<open>string\<close>. Lower-casing is a parameter.

  The laws: what is used once is used at most as often as it was made, whatever else runs; the pending requests
  of a machine and of a human are bounded; a settled request keeps no body; a flagged passkey is dead.
\<close>

section \<open>Passkeys\<close>

definition STEP_UP_WINDOW_MS :: int where "STEP_UP_WINDOW_MS = 5 * 60 * 1000"

definition WEBAUTHN_CHALLENGE_TTL_MS :: int where "WEBAUTHN_CHALLENGE_TTL_MS = 2 * 60 * 1000"

definition STEP_UP_REQUEST_TTL_MS :: int where "STEP_UP_REQUEST_TTL_MS = 5 * 60 * 1000"

record passkey =
  pk_id :: string
  pk_principal :: string
  pk_credential_id :: string
  pk_public_key_cose :: string
  pk_alg :: int
  pk_sign_count :: nat
  pk_label :: string
  pk_transports :: "string list"
  pk_aaguid :: "string option"
  pk_backup_eligible :: bool
  pk_backup_state :: bool
  pk_created_at :: int
  pk_created_session_hash :: string
  pk_last_used_at :: "int option"
  pk_clone_suspected_at :: "int option"
  pk_user_handle :: "string option"

datatype passkey_use = Recorded | CloneSuspected | UseNotFound

record passkeys =
  ps_rows :: "(string \<times> passkey) list"
  ps_handles :: "(string \<times> string) list"

definition passkey_list :: "passkeys \<Rightarrow> string \<Rightarrow> passkey list" where
  "passkey_list ps who =
     sort_key pk_created_at (sort_key pk_id (filter (\<lambda>p. pk_principal p = who) (map snd (ps_rows ps))))"

definition passkey_by_credential :: "passkeys \<Rightarrow> string \<Rightarrow> passkey option" where
  "passkey_by_credential ps cred = List.find (\<lambda>p. pk_credential_id p = cred) (map snd (ps_rows ps))"

definition user_handle :: "string \<Rightarrow> string \<Rightarrow> passkeys \<Rightarrow> string \<times> passkeys" where
  "user_handle who fresh ps =
     (case al_get (ps_handles ps) who of
        Some h \<Rightarrow> (h, ps)
      | None \<Rightarrow> (fresh, ps\<lparr>ps_handles := al_put who fresh (ps_handles ps)\<rparr>))"

definition passkey_insert :: "passkey \<Rightarrow> passkeys \<Rightarrow> (identity_error + unit) \<times> passkeys" where
  "passkey_insert p ps =
     (if al_get (ps_rows ps) (pk_id p) \<noteq> None \<or> list_ex (\<lambda>(_, q). pk_credential_id q = pk_credential_id p) (ps_rows ps)
      then (Inl (IdentityConflict ''this passkey is already registered''), ps)
      else (Inr (), ps\<lparr>ps_rows := al_put (pk_id p) p (ps_rows ps)\<rparr>))"

definition flag_clone :: "int \<Rightarrow> passkey \<Rightarrow> passkey" where
  "flag_clone now p = p\<lparr>pk_clone_suspected_at := (case pk_clone_suspected_at p of None \<Rightarrow> Some now | Some t \<Rightarrow> Some t)\<rparr>"

definition counter_accepted :: "passkey \<Rightarrow> nat \<Rightarrow> nat \<Rightarrow> bool" where
  "counter_accepted p read_count new_count =
     (let forward = pk_sign_count p < new_count \<or> (new_count = 0 \<and> pk_sign_count p = 0);
          lost_race = new_count > read_count \<and> pk_sign_count p \<noteq> new_count
      in pk_clone_suspected_at p = None \<and> (forward \<or> lost_race \<or> pk_backup_eligible p))"

definition record_use :: "string \<Rightarrow> nat \<Rightarrow> nat \<Rightarrow> bool \<Rightarrow> int \<Rightarrow> passkeys \<Rightarrow> passkey_use \<times> passkeys" where
  "record_use pid read_count new_count backup_state now ps =
     (case al_get (ps_rows ps) pid of
        None \<Rightarrow> (UseNotFound, ps)
      | Some p \<Rightarrow>
          (if counter_accepted p read_count new_count
           then (Recorded, ps\<lparr>ps_rows := al_put pid
                  (p\<lparr>pk_sign_count := max (pk_sign_count p) new_count, pk_backup_state := backup_state, pk_last_used_at := Some now\<rparr>)
                  (ps_rows ps)\<rparr>)
           else (CloneSuspected, ps\<lparr>ps_rows := al_put pid (flag_clone now p) (ps_rows ps)\<rparr>)))"

definition mark_clone :: "string \<Rightarrow> int \<Rightarrow> passkeys \<Rightarrow> bool \<times> passkeys" where
  "mark_clone pid now ps =
     (case al_get (ps_rows ps) pid of
        None \<Rightarrow> (False, ps)
      | Some p \<Rightarrow> (True, ps\<lparr>ps_rows := al_put pid (flag_clone now p) (ps_rows ps)\<rparr>))"

definition passkey_remove :: "string \<Rightarrow> string \<Rightarrow> passkeys \<Rightarrow> bool \<times> passkeys" where
  "passkey_remove who pid ps =
     (if (case al_get (ps_rows ps) pid of None \<Rightarrow> False | Some p \<Rightarrow> pk_principal p = who)
      then (True, ps\<lparr>ps_rows := al_del pid (ps_rows ps)\<rparr>) else (False, ps))"

definition passkey_remove_all :: "string \<Rightarrow> passkeys \<Rightarrow> nat \<times> passkeys" where
  "passkey_remove_all who ps =
     (let kept = filter (\<lambda>(_, p). pk_principal p \<noteq> who) (ps_rows ps) in
      (length (ps_rows ps) - length kept, ps\<lparr>ps_rows := kept\<rparr>))"

definition principals_with_passkeys :: "passkeys \<Rightarrow> string list \<Rightarrow> string list" where
  "principals_with_passkeys ps subjects =
     remdups (map pk_principal
       (filter (\<lambda>p. pk_clone_suspected_at p = None \<and> pk_principal p \<in> set subjects) (map snd (ps_rows ps))))"

section \<open>Challenges\<close>

datatype challenge_purpose = PRegister | PWindow | PAction | PRequest

definition purpose_str :: "challenge_purpose \<Rightarrow> string" where
  "purpose_str p = (case p of PRegister \<Rightarrow> ''register'' | PWindow \<Rightarrow> ''window'' | PAction \<Rightarrow> ''action'' | PRequest \<Rightarrow> ''request'')"

definition purpose_parse :: "string \<Rightarrow> challenge_purpose option" where
  "purpose_parse s =
     (if s = ''register'' then Some PRegister else if s = ''window'' then Some PWindow
      else if s = ''action'' then Some PAction else if s = ''request'' then Some PRequest else None)"

record challenge =
  ch_id :: string
  ch_principal :: string
  ch_session_hash :: string
  ch_purpose :: challenge_purpose
  ch_nonce :: string
  ch_action_digest :: "string option"
  ch_request_id :: "string option"
  ch_label :: "string option"
  ch_summary :: "json option"
  ch_created_at :: int
  ch_expires_at :: int
  ch_consumed_at :: "int option"

type_synonym challenges = "(string \<times> challenge) list"

definition challenge_put :: "challenge \<Rightarrow> challenges \<Rightarrow> (identity_error + unit) \<times> challenges" where
  "challenge_put c m =
     (if al_get m (ch_id c) \<noteq> None
      then (Inl (IdentityConflict (''challenge '' @ quoted (ch_id c) @ '' already exists'')), m)
      else (Inr (), al_put (ch_id c) c m))"

definition challenge_consume :: "string \<Rightarrow> string \<Rightarrow> int \<Rightarrow> challenges \<Rightarrow> challenge option \<times> challenges" where
  "challenge_consume x session_hash now m =
     (case al_get m x of
        None \<Rightarrow> (None, m)
      | Some c \<Rightarrow>
          (if ch_session_hash c \<noteq> session_hash \<or> ch_consumed_at c \<noteq> None \<or> ch_expires_at c \<le> now then (None, m)
           else (let c' = c\<lparr>ch_consumed_at := Some now\<rparr> in (Some c', al_put x c' m))))"

definition challenge_reap :: "int \<Rightarrow> challenges \<Rightarrow> nat \<times> challenges" where
  "challenge_reap now m =
     (let kept = filter (\<lambda>(_, c). ch_expires_at c > now) m in (length m - length kept, kept))"

section \<open>Confirmations\<close>

datatype confirmation_kind = KWindow | KAction | KRequest

definition kind_str :: "confirmation_kind \<Rightarrow> string" where
  "kind_str k = (case k of KWindow \<Rightarrow> ''window'' | KAction \<Rightarrow> ''action'' | KRequest \<Rightarrow> ''request'')"

definition kind_parse :: "string \<Rightarrow> confirmation_kind option" where
  "kind_parse s = (if s = ''window'' then Some KWindow else if s = ''action'' then Some KAction else if s = ''request'' then Some KRequest else None)"

record confirmation =
  cf_id :: string
  cf_principal :: string
  cf_session_hash :: string
  cf_passkey_id :: string
  cf_kind :: confirmation_kind
  cf_action_digest :: "string option"
  cf_request_id :: "string option"
  cf_confirmed_at :: int
  cf_expires_at :: int
  cf_consumed_at :: "int option"

datatype requester = RqApiToken string | RqBearerSession string

definition requester_via :: "requester \<Rightarrow> string" where
  "requester_via r = (case r of RqApiToken _ \<Rightarrow> ''api_token'' | RqBearerSession _ \<Rightarrow> ''bearer_session'')"

datatype request_state = RqPending | RqExecuting | RqExecuted | RqFailed

definition request_state_str :: "request_state \<Rightarrow> string" where
  "request_state_str s = (case s of RqPending \<Rightarrow> ''pending'' | RqExecuting \<Rightarrow> ''executing'' | RqExecuted \<Rightarrow> ''executed'' | RqFailed \<Rightarrow> ''failed'')"

definition request_state_parse :: "string \<Rightarrow> request_state option" where
  "request_state_parse s =
     (if s = ''pending'' then Some RqPending else if s = ''executing'' then Some RqExecuting
      else if s = ''executed'' then Some RqExecuted else if s = ''failed'' then Some RqFailed else None)"

definition request_terminal :: "request_state \<Rightarrow> bool" where
  "request_terminal s = (s = RqExecuted \<or> s = RqFailed)"

record request =
  rq_id :: string
  rq_org :: "string option"
  rq_op :: string
  rq_method :: string
  rq_path :: string
  rq_query :: string
  rq_sealed :: "string option"
  rq_action_digest :: string
  rq_summary :: json
  rq_for_human :: string
  rq_requester :: requester
  rq_session_role_cap :: "role option"
  rq_created_at :: int
  rq_expires_at :: int
  rq_state :: request_state
  rq_confirmed_by :: "string option"
  rq_confirmed_at :: "int option"
  rq_confirmation_id :: "string option"
  rq_executed_at :: "int option"
  rq_result_status :: "int option"
  rq_result_summary :: "string option"

definition request_is_expired :: "request \<Rightarrow> int \<Rightarrow> bool" where
  "request_is_expired r now = (rq_state r = RqPending \<and> rq_expires_at r \<le> now)"

definition request_state_label :: "request \<Rightarrow> int \<Rightarrow> string" where
  "request_state_label r now = (if request_is_expired r now then ''expired'' else request_state_str (rq_state r))"

record pending_caps =
  per_requester :: nat
  per_human :: nat

definition MAX_PENDING_STEP_UP_REQUESTS :: nat where "MAX_PENDING_STEP_UP_REQUESTS = 10"

definition MAX_PENDING_STEP_UP_REQUESTS_PER_HUMAN :: nat where "MAX_PENDING_STEP_UP_REQUESTS_PER_HUMAN = 20"

definition default_caps :: pending_caps where
  "default_caps = \<lparr>per_requester = MAX_PENDING_STEP_UP_REQUESTS, per_human = MAX_PENDING_STEP_UP_REQUESTS_PER_HUMAN\<rparr>"

datatype raise_outcome = Raised | RequesterFull nat | HumanFull nat

datatype begin_outcome = Begun request | BeginNotFound | BeginExpired | NotPending request_state

text \<open>The failing flag is the store's fault injection: an unreachable store.\<close>

record step_up =
  su_confirmations :: "confirmation list"
  su_requests :: "(string \<times> request) list"
  su_failing_revokes :: bool

definition put_confirmation :: "confirmation \<Rightarrow> step_up \<Rightarrow> (identity_error + unit) \<times> step_up" where
  "put_confirmation c su =
     (if list_ex (\<lambda>d. cf_id d = cf_id c) (su_confirmations su)
      then (Inl (IdentityConflict (''confirmation '' @ quoted (cf_id c) @ '' already exists'')), su)
      else (Inr (), su\<lparr>su_confirmations := su_confirmations su @ [c]\<rparr>))"

definition live_windows :: "step_up \<Rightarrow> string \<Rightarrow> string \<Rightarrow> int \<Rightarrow> confirmation list" where
  "live_windows su session_hash who now =
     filter (\<lambda>c. cf_kind c = KWindow \<and> cf_session_hash c = session_hash \<and> cf_principal c = who \<and> cf_expires_at c > now)
       (su_confirmations su)"

text \<open>The greatest element under a comparison, the last of equal ones; the least, the first of equal ones.\<close>

fun max_by :: "('a \<Rightarrow> 'a \<Rightarrow> bool) \<Rightarrow> 'a list \<Rightarrow> 'a option" where
  "max_by gt [] = None"
| "max_by gt (x # xs) = Some (foldl (\<lambda>a b. if gt a b then a else b) x xs)"

fun min_by :: "('a \<Rightarrow> 'a \<Rightarrow> bool) \<Rightarrow> 'a list \<Rightarrow> 'a option" where
  "min_by gt [] = None"
| "min_by gt (x # xs) = Some (foldl (\<lambda>a b. if gt a b then b else a) x xs)"

definition window_expiry :: "step_up \<Rightarrow> string \<Rightarrow> string \<Rightarrow> int \<Rightarrow> int option" where
  "window_expiry su session_hash who now =
     max_by (>) (map cf_expires_at (live_windows su session_hash who now))"

definition has_window :: "step_up \<Rightarrow> string \<Rightarrow> string \<Rightarrow> int \<Rightarrow> bool" where
  "has_window su session_hash who now = (window_expiry su session_hash who now \<noteq> None)"

definition live_window :: "step_up \<Rightarrow> string \<Rightarrow> string \<Rightarrow> int \<Rightarrow> (string \<times> int) option" where
  "live_window su session_hash who now =
     map_option (\<lambda>c. (cf_id c, cf_expires_at c))
       (max_by (\<lambda>a b. cf_expires_at a > cf_expires_at b \<or> (cf_expires_at a = cf_expires_at b \<and> cf_id b > cf_id a))
          (live_windows su session_hash who now))"

definition action_matches :: "string \<Rightarrow> string \<Rightarrow> string \<Rightarrow> int \<Rightarrow> confirmation \<Rightarrow> bool" where
  "action_matches session_hash who digest now c =
     (cf_kind c = KAction \<and> cf_session_hash c = session_hash \<and> cf_principal c = who
      \<and> cf_action_digest c = Some digest \<and> cf_consumed_at c = None \<and> cf_expires_at c > now)"

definition consume_action :: "string \<Rightarrow> string \<Rightarrow> string \<Rightarrow> int \<Rightarrow> step_up \<Rightarrow> string option \<times> step_up" where
  "consume_action session_hash who digest now su =
     (case min_by (\<lambda>a b. cf_confirmed_at a > cf_confirmed_at b \<or> (cf_confirmed_at a = cf_confirmed_at b \<and> cf_id a > cf_id b))
             (filter (action_matches session_hash who digest now) (su_confirmations su)) of
        None \<Rightarrow> (None, su)
      | Some c \<Rightarrow>
          (Some (cf_id c),
           su\<lparr>su_confirmations := map (\<lambda>d. if cf_id d = cf_id c then d\<lparr>cf_consumed_at := Some now\<rparr> else d) (su_confirmations su)\<rparr>))"

definition standing :: "confirmation \<Rightarrow> bool" where
  "standing c = (cf_kind c = KWindow \<or> (cf_kind c = KAction \<and> cf_consumed_at c = None))"

definition delete_windows_for :: "string \<Rightarrow> step_up \<Rightarrow> nat \<times> step_up" where
  "delete_windows_for who su =
     (let kept = filter (\<lambda>c. \<not> (cf_principal c = who \<and> standing c)) (su_confirmations su) in
      (length (su_confirmations su) - length kept, su\<lparr>su_confirmations := kept\<rparr>))"

definition delete_for_passkey :: "string \<Rightarrow> step_up \<Rightarrow> (identity_error + nat) \<times> step_up" where
  "delete_for_passkey pid su =
     (if su_failing_revokes su then (Inl (IdentityConflict ''the step-up store is unreachable (injected)''), su)
      else
        (let kept = filter (\<lambda>c. \<not> (cf_passkey_id c = pid \<and> standing c)) (su_confirmations su) in
         (Inr (length (su_confirmations su) - length kept), su\<lparr>su_confirmations := kept\<rparr>)))"

section \<open>Requests\<close>

definition request_live :: "int \<Rightarrow> request \<Rightarrow> bool" where
  "request_live now r = (rq_state r = RqPending \<and> rq_expires_at r > now)"

definition live_count :: "(request \<Rightarrow> bool) \<Rightarrow> int \<Rightarrow> step_up \<Rightarrow> nat" where
  "live_count P now su = length (filter (\<lambda>r. request_live now r \<and> P r) (map snd (su_requests su)))"

definition raise_request :: "request \<Rightarrow> pending_caps \<Rightarrow> int \<Rightarrow> step_up \<Rightarrow> (identity_error + raise_outcome) \<times> step_up" where
  "raise_request r caps now su =
     (let by_requester = live_count (\<lambda>q. rq_requester q = rq_requester r) now su in
      if by_requester \<ge> per_requester caps then (Inr (RequesterFull by_requester), su)
      else
        (let for_human = live_count (\<lambda>q. rq_for_human q = rq_for_human r) now su in
         if for_human \<ge> per_human caps then (Inr (HumanFull for_human), su)
         else if al_get (su_requests su) (rq_id r) \<noteq> None
         then (Inl (IdentityConflict (''request '' @ quoted (rq_id r) @ '' already exists'')), su)
         else (Inr Raised, su\<lparr>su_requests := al_put (rq_id r) r (su_requests su)\<rparr>)))"

definition get_request :: "string \<Rightarrow> step_up \<Rightarrow> request option" where
  "get_request x su = al_get (su_requests su) x"

definition begin_execution :: "string \<Rightarrow> string \<Rightarrow> string \<Rightarrow> int \<Rightarrow> step_up \<Rightarrow> begin_outcome \<times> step_up" where
  "begin_execution x confirmed_by confirmation_id now su =
     (case al_get (su_requests su) x of
        None \<Rightarrow> (BeginNotFound, su)
      | Some r \<Rightarrow>
          (if rq_state r \<noteq> RqPending then (NotPending (rq_state r), su)
           else if rq_expires_at r \<le> now then (BeginExpired, su)
           else
             (let r' = r\<lparr>rq_state := RqExecuting, rq_confirmed_by := Some confirmed_by, rq_confirmation_id := Some confirmation_id,
                          rq_confirmed_at := Some now\<rparr>
              in (Begun r', su\<lparr>su_requests := al_put x r' (su_requests su)\<rparr>))))"

definition finish_request ::
  "string \<Rightarrow> request_state \<Rightarrow> int option \<Rightarrow> string option \<Rightarrow> int \<Rightarrow> step_up \<Rightarrow> (identity_error + bool) \<times> step_up" where
  "finish_request x state status summary now su =
     (if \<not> request_terminal state
      then (Inl (IdentityConflict (''a step-up request can only finish as executed or failed, not '' @ request_state_str state)), su)
      else case al_get (su_requests su) x of
        None \<Rightarrow> (Inr False, su)
      | Some r \<Rightarrow>
          (if rq_state r \<noteq> RqExecuting then (Inr False, su)
           else (Inr True, su\<lparr>su_requests := al_put x
                  (r\<lparr>rq_state := state, rq_result_status := status, rq_result_summary := summary, rq_executed_at := Some now, rq_sealed := None\<rparr>)
                  (su_requests su)\<rparr>)))"

definition pending_count :: "requester \<Rightarrow> int \<Rightarrow> step_up \<Rightarrow> nat" where
  "pending_count rq now su = live_count (\<lambda>r. rq_requester r = rq) now su"

definition pending_in_org :: "string \<Rightarrow> int \<Rightarrow> step_up \<Rightarrow> nat" where
  "pending_in_org org now su = live_count (\<lambda>r. rq_org r = Some org) now su"

definition left_executing :: "int \<Rightarrow> request \<Rightarrow> bool" where
  "left_executing now r =
     (rq_state r = RqExecuting \<and> (case rq_confirmed_at r of None \<Rightarrow> False | Some t \<Rightarrow> t \<le> now - STEP_UP_REQUEST_TTL_MS))"

definition clear_sealed :: "int \<Rightarrow> request \<Rightarrow> request" where
  "clear_sealed now r =
     (if request_is_expired r now \<or> left_executing now r then r\<lparr>rq_sealed := None\<rparr> else r)"

definition request_outdated :: "int \<Rightarrow> request \<Rightarrow> bool" where
  "request_outdated older_than r =
     ((request_terminal (rq_state r) \<and> (case rq_executed_at r of None \<Rightarrow> False | Some t \<Rightarrow> t < older_than))
      \<or> (rq_state r = RqPending \<and> rq_expires_at r < older_than)
      \<or> (rq_state r = RqExecuting \<and> (case rq_confirmed_at r of None \<Rightarrow> False | Some t \<Rightarrow> t < older_than)))"

definition step_up_reap :: "int \<Rightarrow> int \<Rightarrow> step_up \<Rightarrow> nat \<times> step_up" where
  "step_up_reap now older_than su =
     (let confirmations = filter (\<lambda>c. cf_expires_at c > now) (su_confirmations su);
          cleared = map (\<lambda>(x, r). (x, clear_sealed now r)) (su_requests su);
          requests = filter (\<lambda>(_, r). \<not> request_outdated older_than r) cleared
      in (length (su_confirmations su) + length (su_requests su) - length confirmations - length requests,
          su\<lparr>su_confirmations := confirmations, su_requests := requests\<rparr>))"

section \<open>The security event log\<close>

record security_event =
  ev_seq :: int
  ev_id :: string
  ev_org :: "string option"
  ev_at :: int
  ev_kind :: string
  ev_subject :: string
  ev_caller :: string
  ev_op :: "string option"
  ev_target :: "string option"
  ev_confirmation_id :: "string option"
  ev_request_id :: "string option"
  ev_passkey_id :: "string option"
  ev_session_hash :: "string option"
  ev_detail :: json

definition ORG_VISIBLE_ORGLESS :: "string list" where
  "ORG_VISIBLE_ORGLESS =
     [''step_up.confirmed'', ''passkey.enrolled'', ''passkey.removed'', ''passkey.reset'', ''passkey.break_glass_reset'',
      ''passkey.clone_suspected'', ''passkey.counter_regressed'', ''passkey.moved_on_merge'']"

record event_log =
  el_events :: "security_event list"
  el_rbac :: "rbac_store option"
  el_failing :: bool

definition event_append :: "security_event \<Rightarrow> event_log \<Rightarrow> (identity_error + int) \<times> event_log" where
  "event_append e el =
     (if el_failing el then (Inl (IdentityConflict ''the security event log is unreachable (injected)''), el)
      else if list_ex (\<lambda>f. ev_id f = ev_id e) (el_events el)
      then (Inl (IdentityConflict (''security event '' @ quoted (ev_id e) @ '' already exists'')), el)
      else
        (let seq = int (length (el_events el)) + 1 in
         (Inr seq, el\<lparr>el_events := el_events el @ [e\<lparr>ev_seq := seq\<rparr>]\<rparr>)))"

record event_filter =
  fl_org :: "string option"
  fl_subject :: "string option"
  fl_kinds :: "string list"
  fl_from_at :: "int option"
  fl_to_at :: "int option"
  fl_target_contains :: "string option"
  fl_before_seq :: "int option"
  fl_limit :: nat

definition org_members :: "event_log \<Rightarrow> string option \<Rightarrow> string list" where
  "org_members el org =
     (case (org, el_rbac el) of (Some x, Some rb) \<Rightarrow> map bn_subject (store_bindings rb x) | _ \<Rightarrow> [])"

definition visible_in :: "event_log \<Rightarrow> string option \<Rightarrow> security_event \<Rightarrow> bool" where
  "visible_in el org e =
     (case org of
        None \<Rightarrow> True
      | Some x \<Rightarrow> ev_org e = Some x
          \<or> (ev_org e = None \<and> ev_kind e \<in> set ORG_VISIBLE_ORGLESS \<and> ev_subject e \<in> set (org_members el org)))"

definition event_matches :: "(string \<Rightarrow> string) \<Rightarrow> event_log \<Rightarrow> event_filter \<Rightarrow> security_event \<Rightarrow> bool" where
  "event_matches lower el f e =
     (visible_in el (fl_org f) e
      \<and> (case fl_subject f of None \<Rightarrow> True | Some s \<Rightarrow> ev_subject e = s)
      \<and> (fl_kinds f = [] \<or> ev_kind e \<in> set (fl_kinds f))
      \<and> (case fl_before_seq f of None \<Rightarrow> True | Some b \<Rightarrow> ev_seq e < b)
      \<and> (case fl_from_at f of None \<Rightarrow> True | Some t \<Rightarrow> ev_at e \<ge> t)
      \<and> (case fl_to_at f of None \<Rightarrow> True | Some t \<Rightarrow> ev_at e < t)
      \<and> (case fl_target_contains f of
           None \<Rightarrow> True
         | Some t \<Rightarrow> (fl_org f = None \<or> ev_org e \<noteq> None)
             \<and> sublist (lower t) (lower (case ev_target e of None \<Rightarrow> [] | Some x \<Rightarrow> x))))"

definition event_list :: "(string \<Rightarrow> string) \<Rightarrow> event_log \<Rightarrow> event_filter \<Rightarrow> security_event list" where
  "event_list lower el f = take (max (fl_limit f) 1) (filter (event_matches lower el f) (rev (el_events el)))"

end
