(* ===== verification/Step_Up_Limiter.thy ===== *)
theory Step_Up_Limiter
  imports Step_Up_Store
begin

text \<open>
  The limiter of recorded refusals (\<^verbatim>\<open>scarab-server/src/step_up/mod.rs\<close>): refusals of one key are written five times a
  minute, the rest are counted and written with the count once the window closes. No refusal is lost: what is
  written stands for exactly what was refused, less what is still counted. The buckets are a hash map; the
  order in which closed windows are flushed is that of the association list.
\<close>

section \<open>Keys and buckets\<close>

definition REFUSAL_WINDOW_MS :: int where "REFUSAL_WINDOW_MS = 60 * 1000"

definition REFUSALS_PER_WINDOW :: nat where "REFUSALS_PER_WINDOW = 5"

definition MAX_REFUSAL_KEYS :: nat where "MAX_REFUSAL_KEYS = 10000"

definition MAX_SUPPRESSED_TARGETS :: nat where "MAX_SUPPRESSED_TARGETS = 5"

definition REFUSAL_CLOCK_SKEW_MS :: int where "REFUSAL_CLOCK_SKEW_MS = 1000"

definition opt_str :: "string option \<Rightarrow> string" where
  "opt_str s = (case s of None \<Rightarrow> [] | Some x \<Rightarrow> x)"

definition refusal_key :: "security_event \<Rightarrow> string list" where
  "refusal_key e =
     (let detail = (\<lambda>k. opt_str (Option.bind (json_get k (ev_detail e)) json_as_str)) in
      [opt_str (ev_org e), ev_subject e, ev_caller e, opt_str (ev_op e), detail ''reason'', detail ''probed_by''])"

record suppressed_refusals =
  sr_newest :: security_event
  sr_count :: nat

record refusal_bucket =
  rb_window_start :: int
  rb_recorded :: nat
  rb_suppressed :: "suppressed_refusals list"
  rb_other_targets :: nat

record refusal_limiter =
  rl_buckets :: "(string list \<times> refusal_bucket) list"
  rl_last_sweep :: int

definition bucket_new :: "int \<Rightarrow> refusal_bucket" where
  "bucket_new start = \<lparr>rb_window_start = start, rb_recorded = 0, rb_suppressed = [], rb_other_targets = 0\<rparr>"

definition window_closed :: "int \<Rightarrow> int \<Rightarrow> bool" where
  "window_closed start now = (start - now > REFUSAL_CLOCK_SKEW_MS \<or> now - start \<ge> REFUSAL_WINDOW_MS)"

definition insert_detail :: "string \<Rightarrow> nat \<Rightarrow> security_event \<Rightarrow> security_event" where
  "insert_detail k n e = (case ev_detail e of JObj kvs \<Rightarrow> e\<lparr>ev_detail := JObj (al_put k (JInt (int n)) kvs)\<rparr> | _ \<Rightarrow> e)"

text \<open>The entry of a target takes the newer event and counts it.\<close>

fun count_newer :: "security_event \<Rightarrow> suppressed_refusals list \<Rightarrow> suppressed_refusals list" where
  "count_newer e [] = []"
| "count_newer e (s # ss) =
     (if ev_target (sr_newest s) = ev_target e then \<lparr>sr_newest = e, sr_count = sr_count s + 1\<rparr> # ss else s # count_newer e ss)"

definition bucket_suppress :: "security_event \<Rightarrow> refusal_bucket \<Rightarrow> refusal_bucket" where
  "bucket_suppress e b =
     (if list_ex (\<lambda>s. ev_target (sr_newest s) = ev_target e) (rb_suppressed b)
      then b\<lparr>rb_suppressed := count_newer e (rb_suppressed b)\<rparr>
      else if length (rb_suppressed b) < MAX_SUPPRESSED_TARGETS
      then b\<lparr>rb_suppressed := rb_suppressed b @ [\<lparr>sr_newest = e, sr_count = 1\<rparr>]\<rparr>
      else b\<lparr>rb_other_targets := rb_other_targets b + 1\<rparr>)"

definition suppressed_row :: "suppressed_refusals \<Rightarrow> security_event" where
  "suppressed_row s = (if sr_count s > 1 then insert_detail ''suppressed_before'' (sr_count s - 1) (sr_newest s) else sr_newest s)"

fun drain_rows :: "security_event option \<Rightarrow> suppressed_refusals list \<Rightarrow> security_event option \<times> security_event list" where
  "drain_rows carrier [] = (carrier, [])"
| "drain_rows carrier (s # ss) =
     (case carrier of
        None \<Rightarrow> (let (c, rows) = drain_rows carrier ss in (c, suppressed_row s # rows))
      | Some e \<Rightarrow>
          (if ev_target e = ev_target (sr_newest s)
           then drain_rows (Some (insert_detail ''suppressed_before'' (sr_count s) e)) ss
           else (let (c, rows) = drain_rows carrier ss in (c, suppressed_row s # rows))))"

definition bucket_drain :: "security_event option \<Rightarrow> refusal_bucket \<Rightarrow> security_event option \<times> security_event list" where
  "bucket_drain carrier b =
     (let (c, rows) = drain_rows carrier (rb_suppressed b); other = rb_other_targets b in
      if other > 0
      then (if rows \<noteq> [] then (c, butlast rows @ [insert_detail ''suppressed_other_targets'' other (last rows)])
            else (map_option (insert_detail ''suppressed_other_targets'' other) c, rows))
      else (c, rows))"

definition bucket_emptied :: "refusal_bucket \<Rightarrow> refusal_bucket" where
  "bucket_emptied b = b\<lparr>rb_suppressed := [], rb_other_targets := 0\<rparr>"

section \<open>Admission\<close>

text \<open>The sweep flushes every closed window but the one of the key at hand.\<close>

definition swept_away :: "string list \<Rightarrow> int \<Rightarrow> string list \<times> refusal_bucket \<Rightarrow> bool" where
  "swept_away key now = (\<lambda>(k, b). k \<noteq> key \<and> window_closed (rb_window_start b) now)"

definition sweep :: "string list \<Rightarrow> int \<Rightarrow> refusal_limiter \<Rightarrow> security_event list \<times> refusal_limiter" where
  "sweep key now rl =
     (let full = al_get (rl_buckets rl) key = None \<and> length (rl_buckets rl) \<ge> MAX_REFUSAL_KEYS in
      if full \<or> window_closed (rl_last_sweep rl) now
      then (concat (map (\<lambda>(_, b). snd (bucket_drain None b)) (filter (swept_away key now) (rl_buckets rl))),
            \<lparr>rl_buckets = filter (\<lambda>p. \<not> swept_away key now p) (rl_buckets rl), rl_last_sweep = now\<rparr>)
      else ([], rl))"

definition reopened :: "int \<Rightarrow> refusal_bucket \<Rightarrow> refusal_bucket" where
  "reopened now b = (if window_closed (rb_window_start b) now then b\<lparr>rb_window_start := now, rb_recorded := 0\<rparr> else b)"

definition bucket_admit :: "security_event \<Rightarrow> refusal_bucket \<Rightarrow> security_event list \<times> refusal_bucket" where
  "bucket_admit e b =
     (if rb_recorded b < REFUSALS_PER_WINDOW
      then (let (carrier, rows) = bucket_drain (Some e) b in
            (rows @ (case carrier of None \<Rightarrow> [] | Some c \<Rightarrow> [c]), bucket_emptied (b\<lparr>rb_recorded := rb_recorded b + 1\<rparr>)))
      else ([], bucket_suppress e b))"

definition limiter_admit :: "security_event \<Rightarrow> refusal_limiter \<Rightarrow> security_event list \<times> refusal_limiter" where
  "limiter_admit e rl =
     (let now = ev_at e; key = refusal_key e; (flushed, rl1) = sweep key now rl in
      if al_get (rl_buckets rl1) key = None \<and> length (rl_buckets rl1) \<ge> MAX_REFUSAL_KEYS then (flushed @ [e], rl1)
      else
        (let b = (case al_get (rl_buckets rl1) key of None \<Rightarrow> bucket_new now | Some b \<Rightarrow> b);
             (out, b') = bucket_admit e (reopened now b)
         in (flushed @ out, rl1\<lparr>rl_buckets := al_put key b' (rl_buckets rl1)\<rparr>)))"

definition empty_limiter :: refusal_limiter where
  "empty_limiter = \<lparr>rl_buckets = [], rl_last_sweep = 0\<rparr>"

fun admit_all :: "security_event list \<Rightarrow> refusal_limiter \<Rightarrow> security_event list \<times> refusal_limiter" where
  "admit_all [] rl = ([], rl)"
| "admit_all (e # es) rl = (let (out, rl1) = limiter_admit e rl; (out', rl2) = admit_all es rl1 in (out @ out', rl2))"

section \<open>No refusal is lost\<close>

text \<open>What a written row stands for: itself and the refusals it counts.\<close>

definition counted :: "string \<Rightarrow> security_event \<Rightarrow> nat" where
  "counted k e = (case json_get k (ev_detail e) of Some (JInt n) \<Rightarrow> nat n | _ \<Rightarrow> 0)"

definition weight :: "security_event \<Rightarrow> nat" where
  "weight e = 1 + counted ''suppressed_before'' e + counted ''suppressed_other_targets'' e"

definition has_object :: "security_event \<Rightarrow> bool" where
  "has_object e = (case ev_detail e of JObj _ \<Rightarrow> True | _ \<Rightarrow> False)"

definition plain :: "security_event \<Rightarrow> bool" where
  "plain e = (has_object e \<and> counted ''suppressed_before'' e = 0 \<and> counted ''suppressed_other_targets'' e = 0)"

lemma insert_detail_facts [simp]:
  assumes "has_object e"
  shows "counted k (insert_detail k' n e) = (if k = k' then n else counted k e)" "has_object (insert_detail k' n e)"
    "ev_target (insert_detail k' n e) = ev_target e"
  using assms by (auto simp: counted_def insert_detail_def has_object_def split: json.splits)

definition bucket_ok :: "refusal_bucket \<Rightarrow> bool" where
  "bucket_ok b \<longleftrightarrow> list_all (\<lambda>s. plain (sr_newest s) \<and> sr_count s > 0) (rb_suppressed b)
     \<and> distinct (map (ev_target \<circ> sr_newest) (rb_suppressed b))
     \<and> (rb_other_targets b > 0 \<longrightarrow> length (rb_suppressed b) \<ge> MAX_SUPPRESSED_TARGETS)"

definition bucket_pending :: "refusal_bucket \<Rightarrow> nat" where
  "bucket_pending b = sum_list (map sr_count (rb_suppressed b)) + rb_other_targets b"

lemma count_newer_facts:
  "list_ex (\<lambda>s. ev_target (sr_newest s) = ev_target e) ss \<Longrightarrow> sum_list (map sr_count (count_newer e ss)) = sum_list (map sr_count ss) + 1"
  "map (ev_target \<circ> sr_newest) (count_newer e ss) = map (ev_target \<circ> sr_newest) ss"
  "length (count_newer e ss) = length ss"
  "list_all (\<lambda>s. plain (sr_newest s) \<and> sr_count s > 0) ss \<Longrightarrow> plain e \<Longrightarrow>
     list_all (\<lambda>s. plain (sr_newest s) \<and> sr_count s > 0) (count_newer e ss)"
  by (induction ss) auto

lemma bucket_suppress_facts:
  assumes "bucket_ok b" "plain e"
  shows "bucket_ok (bucket_suppress e b)" "bucket_pending (bucket_suppress e b) = bucket_pending b + 1"
  using assms by (auto simp: bucket_ok_def bucket_pending_def bucket_suppress_def count_newer_facts list_ex_iff)

lemma weight_row: "plain (sr_newest s) \<Longrightarrow> sr_count s > 0 \<Longrightarrow> weight (suppressed_row s) = sr_count s \<and> has_object (suppressed_row s)
    \<and> counted ''suppressed_other_targets'' (suppressed_row s) = 0"
  by (auto simp: suppressed_row_def weight_def plain_def)

lemma drain_rows_None:
  "list_all (\<lambda>s. plain (sr_newest s) \<and> sr_count s > 0) ss \<Longrightarrow>
    drain_rows None ss = (None, map suppressed_row ss) \<and> sum_list (map weight (map suppressed_row ss)) = sum_list (map sr_count ss)"
  by (induction ss) (auto simp: weight_row)

lemma drain_rows_length: "length (snd (drain_rows c ss)) \<le> length ss"
proof (induction ss arbitrary: c)
  case (Cons s ss)
  obtain c' rows where r: "drain_rows c ss = (c', rows)" by fastforce
  show ?case
    using Cons.IH [of c] r le_SucI [OF Cons.IH] by (auto split: option.split)
qed simp

lemma drain_rows_carrier:
  assumes "list_all (\<lambda>s. plain (sr_newest s) \<and> sr_count s > 0) ss" "distinct (map (ev_target \<circ> sr_newest) ss)" "has_object e"
    "counted ''suppressed_before'' e = 0 \<or> ev_target e \<notin> ev_target ` sr_newest ` set ss"
  obtains e' rows where "drain_rows (Some e) ss = (Some e', rows)" "has_object e'" "ev_target e' = ev_target e"
    "weight e' + sum_list (map weight rows) = weight e + sum_list (map sr_count ss)"
    "counted ''suppressed_other_targets'' e' = counted ''suppressed_other_targets'' e"
    "list_all (\<lambda>r. has_object r \<and> counted ''suppressed_other_targets'' r = 0) rows" "length rows + 1 \<ge> length ss"
    "ev_target e \<notin> ev_target ` sr_newest ` set ss \<longrightarrow> length rows = length ss"
  using assms
proof (induction ss arbitrary: e thesis)
  case (Cons s ss)
  show ?case
  proof (cases "ev_target e = ev_target (sr_newest s)")
    case True
    let ?e = "insert_detail ''suppressed_before'' (sr_count s) e"
    have away: "ev_target ?e \<notin> ev_target ` sr_newest ` set ss" using Cons.prems True by (auto simp: image_image)
    obtain e' rows where r: "drain_rows (Some ?e) ss = (Some e', rows)" "has_object e'" "ev_target e' = ev_target ?e"
        "weight e' + sum_list (map weight rows) = weight ?e + sum_list (map sr_count ss)"
        "counted ''suppressed_other_targets'' e' = counted ''suppressed_other_targets'' ?e"
        "list_all (\<lambda>r. has_object r \<and> counted ''suppressed_other_targets'' r = 0) rows"
        "ev_target ?e \<notin> ev_target ` sr_newest ` set ss \<longrightarrow> length rows = length ss"
      by (rule Cons.IH [of ?e]) (use Cons.prems away in auto)
    have "counted ''suppressed_before'' e = 0" using Cons.prems(5) True by simp
    then have "weight ?e = weight e + sr_count s" using Cons.prems(4) by (simp add: weight_def)
    then show ?thesis using r away Cons.prems(1) [of e' rows] Cons.prems(4) True by simp
  next
    case False
    obtain e' rows where r: "drain_rows (Some e) ss = (Some e', rows)" "has_object e'" "ev_target e' = ev_target e"
        "weight e' + sum_list (map weight rows) = weight e + sum_list (map sr_count ss)"
        "counted ''suppressed_other_targets'' e' = counted ''suppressed_other_targets'' e"
        "list_all (\<lambda>r. has_object r \<and> counted ''suppressed_other_targets'' r = 0) rows" "length rows + 1 \<ge> length ss"
        "ev_target e \<notin> ev_target ` sr_newest ` set ss \<longrightarrow> length rows = length ss"
      by (rule Cons.IH [of e]) (use Cons.prems in auto)
    then show ?thesis using Cons.prems(1) [of e' "suppressed_row s # rows"] Cons.prems(2) False weight_row [of s] by simp
  qed
qed simp

lemma weight_last:
  assumes "rows \<noteq> []" "list_all (\<lambda>r. has_object r \<and> counted ''suppressed_other_targets'' r = 0) rows"
  shows "sum_list (map weight (butlast rows @ [insert_detail ''suppressed_other_targets'' n (last rows)])) = sum_list (map weight rows) + n"
proof -
  have "has_object (last rows)" "counted ''suppressed_other_targets'' (last rows) = 0" using assms by (auto simp: list_all_iff)
  then have "weight (insert_detail ''suppressed_other_targets'' n (last rows)) = weight (last rows) + n" by (simp add: weight_def)
  moreover have "sum_list (map weight rows) = sum_list (map weight (butlast rows)) + weight (last rows)"
    using assms(1) by (cases rows rule: rev_cases) auto
  ultimately show ?thesis by simp
qed

lemma bucket_drain_None:
  assumes "bucket_ok b"
  shows "sum_list (map weight (snd (bucket_drain None b))) = bucket_pending b"
proof -
  have all: "list_all (\<lambda>s. plain (sr_newest s) \<and> sr_count s > 0) (rb_suppressed b)" using assms by (simp add: bucket_ok_def)
  note rows = drain_rows_None [OF all]
  have "list_all (\<lambda>r. has_object r \<and> counted ''suppressed_other_targets'' r = 0) (map suppressed_row (rb_suppressed b))"
    using all weight_row by (auto simp: list_all_iff)
  moreover have "rb_other_targets b > 0 \<longrightarrow> rb_suppressed b \<noteq> []" using assms by (auto simp: bucket_ok_def MAX_SUPPRESSED_TARGETS_def)
  ultimately show ?thesis
    using rows weight_last [of "map suppressed_row (rb_suppressed b)" "rb_other_targets b"]
    by (cases "rb_other_targets b > 0") (auto simp: bucket_drain_def bucket_pending_def Let_def)
qed

lemma bucket_drain_carrier:
  assumes "bucket_ok b" "plain e"
  obtains e' rows where "bucket_drain (Some e) b = (Some e', rows)" "weight e' + sum_list (map weight rows) = 1 + bucket_pending b"
    "length rows \<le> length (rb_suppressed b)"
proof -
  have all: "list_all (\<lambda>s. plain (sr_newest s) \<and> sr_count s > 0) (rb_suppressed b)" "distinct (map (ev_target \<circ> sr_newest) (rb_suppressed b))"
    using assms by (auto simp: bucket_ok_def)
  have e: "has_object e" "counted ''suppressed_before'' e = 0 \<or> ev_target e \<notin> ev_target ` sr_newest ` set (rb_suppressed b)" "weight e = 1"
    "counted ''suppressed_other_targets'' e = 0"
    using assms(2) by (auto simp: plain_def weight_def)
  obtain e' rows where r: "drain_rows (Some e) (rb_suppressed b) = (Some e', rows)" "has_object e'"
      "weight e' + sum_list (map weight rows) = weight e + sum_list (map sr_count (rb_suppressed b))"
      "counted ''suppressed_other_targets'' e' = counted ''suppressed_other_targets'' e"
      "list_all (\<lambda>r. has_object r \<and> counted ''suppressed_other_targets'' r = 0) rows" "length rows + 1 \<ge> length (rb_suppressed b)"
    by (rule drain_rows_carrier [OF all e(1,2)]) blast
  have some: "rb_other_targets b > 0 \<longrightarrow> rows \<noteq> []"
    using assms(1) r(6) by (auto simp: bucket_ok_def MAX_SUPPRESSED_TARGETS_def)
  have len: "length rows \<le> length (rb_suppressed b)" using drain_rows_length [of "Some e" "rb_suppressed b"] r(1) by simp
  show thesis
  proof (cases "rb_other_targets b > 0")
    case True
    then have "bucket_drain (Some e) b = (Some e', butlast rows @ [insert_detail ''suppressed_other_targets'' (rb_other_targets b) (last rows)])"
      using r(1) some by (simp add: bucket_drain_def)
    moreover have "length (butlast rows @ [last rows]) = length rows" using True some by simp
    ultimately show thesis
      using that r(3) e(3) weight_last [OF _ r(5), of "rb_other_targets b"] some True len by (simp add: bucket_pending_def)
  next
    case False
    then show thesis using that [of e' rows] r(1,3) e(3) len by (simp add: bucket_drain_def bucket_pending_def)
  qed
qed

lemma bucket_emptied_facts: "bucket_ok (bucket_emptied b)" "bucket_pending (bucket_emptied b) = 0"
  by (simp_all add: bucket_ok_def bucket_emptied_def bucket_pending_def)

lemma bucket_admit_facts:
  assumes "bucket_ok b" "plain e"
  shows "bucket_ok (snd (bucket_admit e b))"
    "sum_list (map weight (fst (bucket_admit e b))) + bucket_pending (snd (bucket_admit e b)) = bucket_pending b + 1"
proof -
  obtain e' rows where d: "bucket_drain (Some e) b = (Some e', rows)" "weight e' + sum_list (map weight rows) = 1 + bucket_pending b"
    by (rule bucket_drain_carrier [OF assms])
  show "bucket_ok (snd (bucket_admit e b))"
    using bucket_suppress_facts [OF assms] bucket_emptied_facts by (simp add: bucket_admit_def d(1))
  show "sum_list (map weight (fst (bucket_admit e b))) + bucket_pending (snd (bucket_admit e b)) = bucket_pending b + 1"
    using bucket_suppress_facts [OF assms] bucket_emptied_facts d(2) by (simp add: bucket_admit_def d(1))
qed

lemma reopened_facts: "bucket_ok b \<Longrightarrow> bucket_ok (reopened now b)" "bucket_pending (reopened now b) = bucket_pending b"
  by (auto simp: reopened_def bucket_ok_def bucket_pending_def)

definition limiter_ok :: "refusal_limiter \<Rightarrow> bool" where
  "limiter_ok rl \<longleftrightarrow> al_wf (rl_buckets rl) \<and> list_all (\<lambda>(_, b). bucket_ok b) (rl_buckets rl)"

definition limiter_pending :: "refusal_limiter \<Rightarrow> nat" where
  "limiter_pending rl = sum_list (map (bucket_pending \<circ> snd) (rl_buckets rl))"

lemma sweep_facts:
  assumes "limiter_ok rl"
  shows "limiter_ok (snd (sweep key now rl))"
    "sum_list (map weight (fst (sweep key now rl))) + limiter_pending (snd (sweep key now rl)) = limiter_pending rl"
proof -
  have wf: "al_wf (rl_buckets rl)" using assms by (simp add: limiter_ok_def)
  have "al_wf (filter P (rl_buckets rl))" for P
    using wf by (auto simp: al_wf_def distinct_map intro: inj_on_subset)
  then show "limiter_ok (snd (sweep key now rl))" using assms by (auto simp: sweep_def limiter_ok_def list_all_iff Let_def)
  have "list_all (\<lambda>(_, b). bucket_ok b) bs \<Longrightarrow>
      sum_list (map weight (concat (map (\<lambda>(_, b). snd (bucket_drain None b)) (filter P bs)))) + sum_list (map (bucket_pending \<circ> snd) (filter (\<lambda>p. \<not> P p) bs))
      = sum_list (map (bucket_pending \<circ> snd) bs)" for bs and P :: "string list \<times> refusal_bucket \<Rightarrow> bool"
    by (induction bs) (auto simp: bucket_drain_None)
  from this [of "rl_buckets rl" "swept_away key now"] assms
  show "sum_list (map weight (fst (sweep key now rl))) + limiter_pending (snd (sweep key now rl)) = limiter_pending rl"
    by (simp add: sweep_def limiter_pending_def limiter_ok_def Let_def)
qed

lemma sum_put:
  "sum_list (map (f \<circ> snd) (al_put k v m)) + (case al_get m k of None \<Rightarrow> 0 | Some w \<Rightarrow> f w) = sum_list (map (f \<circ> snd) m) + (f v :: nat)"
  by (induction m) (auto split: option.splits)

lemma all_put: "list_all (\<lambda>(_, b). P b) m \<Longrightarrow> P v \<Longrightarrow> list_all (\<lambda>(_, b). P b) (al_put k v m)"
  by (induction m) auto

lemma limiter_admit_facts:
  assumes "limiter_ok rl" "plain e"
  shows "limiter_ok (snd (limiter_admit e rl))
    \<and> sum_list (map weight (fst (limiter_admit e rl))) + limiter_pending (snd (limiter_admit e rl)) = limiter_pending rl + 1"
proof -
  obtain flushed rl1 where sw: "sweep (refusal_key e) (ev_at e) rl = (flushed, rl1)" by fastforce
  have ok1: "limiter_ok rl1" and sum1: "sum_list (map weight flushed) + limiter_pending rl1 = limiter_pending rl"
    using sweep_facts [OF assms(1), of "refusal_key e" "ev_at e"] sw by auto
  show ?thesis
  proof (cases "al_get (rl_buckets rl1) (refusal_key e) = None \<and> length (rl_buckets rl1) \<ge> MAX_REFUSAL_KEYS")
    case True
    then have "limiter_admit e rl = (flushed @ [e], rl1)" by (simp add: limiter_admit_def Let_def sw)
    then show ?thesis using ok1 sum1 assms(2) by (simp add: plain_def weight_def)
  next
    case False
    define b where "b = (case al_get (rl_buckets rl1) (refusal_key e) of None \<Rightarrow> bucket_new (ev_at e) | Some b \<Rightarrow> b)"
    obtain out b' where ad: "bucket_admit e (reopened (ev_at e) b) = (out, b')" by fastforce
    have run: "limiter_admit e rl = (flushed @ out, rl1\<lparr>rl_buckets := al_put (refusal_key e) b' (rl_buckets rl1)\<rparr>)"
      using False ad by (simp add: limiter_admit_def Let_def sw b_def [symmetric] split: if_splits) auto
    have okb: "bucket_ok b"
      using ok1 by (auto simp: b_def bucket_new_def bucket_ok_def limiter_ok_def list_all_iff split: option.split dest!: map_of_SomeD)
    have pend: "(case al_get (rl_buckets rl1) (refusal_key e) of None \<Rightarrow> 0 | Some w \<Rightarrow> bucket_pending w) = bucket_pending b"
      by (auto simp: b_def bucket_new_def bucket_pending_def split: option.split)
    have new: "bucket_ok b'" "sum_list (map weight out) + bucket_pending b' = bucket_pending b + 1"
      using bucket_admit_facts [OF reopened_facts(1) [OF okb] assms(2), of "ev_at e"] ad by (simp_all add: reopened_facts)
    have "limiter_ok (rl1\<lparr>rl_buckets := al_put (refusal_key e) b' (rl_buckets rl1)\<rparr>)"
      using ok1 new(1) by (simp add: limiter_ok_def all_put)
    moreover have "limiter_pending (rl1\<lparr>rl_buckets := al_put (refusal_key e) b' (rl_buckets rl1)\<rparr>) + bucket_pending b = limiter_pending rl1 + bucket_pending b'"
      using sum_put [of bucket_pending "refusal_key e" b' "rl_buckets rl1"] by (simp add: limiter_pending_def pend)
    ultimately show ?thesis using run sum1 new(2) by simp
  qed
qed

lemma admit_all_facts:
  "limiter_ok rl \<Longrightarrow> list_all plain es \<Longrightarrow>
    limiter_ok (snd (admit_all es rl)) \<and> sum_list (map weight (fst (admit_all es rl))) + limiter_pending (snd (admit_all es rl)) = limiter_pending rl + length es"
proof (induction es arbitrary: rl)
  case (Cons e es)
  obtain out rl1 where a: "limiter_admit e rl = (out, rl1)" by fastforce
  obtain out' rl2 where b: "admit_all es rl1 = (out', rl2)" by fastforce
  show ?case using limiter_admit_facts [OF Cons.prems(1), of e] Cons.IH [of rl1] Cons.prems(2) a b by simp
qed simp

section \<open>At most five rows a minute\<close>

text \<open>The bucket of one key, in one window that opened at \<open>start\<close>, once \<open>n\<close> refusals were recorded.\<close>

definition one_window :: "string list \<Rightarrow> int \<Rightarrow> nat \<Rightarrow> refusal_limiter \<Rightarrow> bool" where
  "one_window key start n rl \<longleftrightarrow>
     (\<exists>b. rl_buckets rl = [(key, b)] \<and> rb_window_start b = start \<and> rb_recorded b = n
        \<and> (n < REFUSALS_PER_WINDOW \<longrightarrow> rb_suppressed b = [] \<and> rb_other_targets b = 0))"

lemma one_window_admit:
  assumes "one_window key start n rl" "refusal_key e = key" "\<not> window_closed start (ev_at e)"
  shows "(if n < REFUSALS_PER_WINDOW
          then fst (limiter_admit e rl) = [e] \<and> one_window key start (n + 1) (snd (limiter_admit e rl))
          else fst (limiter_admit e rl) = [] \<and> one_window key start n (snd (limiter_admit e rl)))"
proof -
  obtain b where b: "rl_buckets rl = [(key, b)]" "rb_window_start b = start" "rb_recorded b = n"
      "n < REFUSALS_PER_WINDOW \<longrightarrow> rb_suppressed b = [] \<and> rb_other_targets b = 0"
    using assms(1) by (auto simp: one_window_def)
  have "fst (sweep key (ev_at e) rl) = []" "rl_buckets (snd (sweep key (ev_at e) rl)) = [(key, b)]"
    using b(1) by (simp_all add: sweep_def swept_away_def Let_def)
  then obtain rl1 where sw: "sweep key (ev_at e) rl = ([], rl1)" "rl_buckets rl1 = [(key, b)]"
    by (cases "sweep key (ev_at e) rl") auto
  have open_: "reopened (ev_at e) b = b" using assms(3) b(2) by (simp add: reopened_def)
  have "limiter_admit e rl = (let (out, b') = bucket_admit e b in (out, rl1\<lparr>rl_buckets := [(key, b')]\<rparr>))"
    by (simp add: limiter_admit_def Let_def assms(2) sw open_)
  then show ?thesis
    using b by (auto simp: bucket_admit_def bucket_drain_def bucket_emptied_def bucket_suppress_def one_window_def)
qed

lemma one_window_bound:
  assumes "one_window key start n rl" "list_all (\<lambda>e. refusal_key e = key \<and> \<not> window_closed start (ev_at e)) es"
  shows "length (fst (admit_all es rl)) \<le> REFUSALS_PER_WINDOW - n"
  using assms
proof (induction es arbitrary: rl n)
  case (Cons e es)
  obtain out rl1 where a: "limiter_admit e rl = (out, rl1)" by fastforce
  obtain out' rl2 where b: "admit_all es rl1 = (out', rl2)" by fastforce
  have step: "if n < REFUSALS_PER_WINDOW then out = [e] \<and> one_window key start (n + 1) rl1 else out = [] \<and> one_window key start n rl1"
    using one_window_admit [OF Cons.prems(1), of e] Cons.prems(2) a by (simp split: if_splits)
  show ?case
  proof (cases "n < REFUSALS_PER_WINDOW")
    case True
    then show ?thesis using Cons.IH [of "n + 1" rl1] Cons.prems(2) step a b by simp
  next
    case False
    then show ?thesis using Cons.IH [of n rl1] Cons.prems(2) step a b by simp
  qed
qed simp


definition refusal_at :: "int \<Rightarrow> string \<Rightarrow> security_event" where
  "refusal_at t target = \<lparr>ev_seq = 0, ev_id = [], ev_org = None, ev_at = t, ev_kind = ''step_up.refused'', ev_subject = ''amy'',
     ev_caller = ''session:cookie'', ev_op = Some ''secret.put'', ev_target = Some target, ev_confirmation_id = None, ev_request_id = None,
     ev_passkey_id = None, ev_session_hash = None, ev_detail = JObj [(''mode'', JStr ''window''), (''reason'', JStr ''not confirmed'')]\<rparr>"

definition burst :: "security_event list" where
  "burst = map (\<lambda>t. refusal_at t ''S'') [0, 1, 2, 3, 4, 5, 6, 7]"


end
