(* ===== verification/Step_Up_Digest.thy ===== *)
theory Step_Up_Digest
  imports Step_Up_Store "HOL-Library.Product_Lexorder" "HOL-Library.Multiset"
begin

text \<open>
  What a confirmation commits to (\<^verbatim>\<open>scarab-server/src/step_up/guard.rs\<close>, \<^verbatim>\<open>scarab-webauthn/src/lib.rs\<close>): the parameters
  and the query of a request, its canonical form, and the challenge derived from its digest. The printing of
  JSON, SHA-256 and the replacement of bytes that are not UTF-8 are parameters.
\<close>

section \<open>Paths and queries\<close>

definition hex_digit :: "char \<Rightarrow> nat option" where
  "hex_digit c =
     (let n = of_char c in
      if 48 \<le> n \<and> n \<le> 57 then Some (n - 48)
      else if 65 \<le> n \<and> n \<le> 70 then Some (n - 55)
      else if 97 \<le> n \<and> n \<le> 102 then Some (n - 87) else None)"

fun decode_bytes :: "bool \<Rightarrow> string \<Rightarrow> string" where
  "decode_bytes form [] = []"
| "decode_bytes form (c # cs) =
     (if c = CHR ''+'' \<and> form then CHR '' '' # decode_bytes form cs
      else if c = CHR ''%''
      then (case cs of
              h # l # rest \<Rightarrow>
                (case (hex_digit h, hex_digit l) of
                   (Some a, Some b) \<Rightarrow> char_of (16 * a + b) # decode_bytes form rest
                 | _ \<Rightarrow> c # decode_bytes form cs)
            | _ \<Rightarrow> c # decode_bytes form cs)
      else c # decode_bytes form cs)"

definition percent_decode :: "(string \<Rightarrow> string) \<Rightarrow> bool \<Rightarrow> string \<Rightarrow> string" where
  "percent_decode utf8_lossy form s = utf8_lossy (decode_bytes form s)"

definition strip_suffix :: "string \<Rightarrow> string \<Rightarrow> string option" where
  "strip_suffix p s = map_option rev (strip_prefix (rev p) (rev s))"

definition braced :: "string \<Rightarrow> string \<Rightarrow> string option" where
  "braced opening p = Option.bind (strip_prefix opening p) (strip_suffix ''}'')"

fun params_from :: "(string \<Rightarrow> string) \<Rightarrow> string list \<Rightarrow> string list \<Rightarrow> (string \<times> string) list" where
  "params_from utf8_lossy [] segs = []"
| "params_from utf8_lossy (p # ps) segs =
     (case braced ''{*'' p of
        Some name \<Rightarrow> [(name, percent_decode utf8_lossy False (join_with ''/'' segs))]
      | None \<Rightarrow>
          (let seg = (case segs of [] \<Rightarrow> [] | s # _ \<Rightarrow> s); later = params_from utf8_lossy ps (drop 1 segs) in
           case braced ''{'' p of
             Some name \<Rightarrow> (name, percent_decode utf8_lossy False seg) # later
           | None \<Rightarrow> later))"

definition path_segments :: "string \<Rightarrow> string list" where
  "path_segments path = split_char (CHR ''/'') (dropWhile (\<lambda>c. c = CHR ''/'') path)"

definition path_params :: "(string \<Rightarrow> string) \<Rightarrow> string \<Rightarrow> string \<Rightarrow> (string \<times> string) list" where
  "path_params utf8_lossy pattern path = params_from utf8_lossy (path_segments pattern) (path_segments path)"

definition split_once :: "char \<Rightarrow> string \<Rightarrow> string \<times> string" where
  "split_once sep s = (takeWhile (\<lambda>c. c \<noteq> sep) s, drop 1 (dropWhile (\<lambda>c. c \<noteq> sep) s))"

definition query_pair :: "(string \<Rightarrow> string) \<Rightarrow> string \<Rightarrow> string \<times> string" where
  "query_pair utf8_lossy p = (let (k, v) = split_once (CHR ''='') p in (percent_decode utf8_lossy True k, percent_decode utf8_lossy True v))"

definition sorted_query :: "(string \<Rightarrow> string) \<Rightarrow> string \<Rightarrow> (string \<times> string) list" where
  "sorted_query utf8_lossy raw = sort (map (query_pair utf8_lossy) (filter (\<lambda>p. p \<noteq> []) (split_char (CHR ''&'') raw)))"

section \<open>The canonical form\<close>

fun json_sort :: "json \<Rightarrow> json" where
  "json_sort (JObj kvs) = JObj (sort_key fst (map (\<lambda>(k, v). (k, json_sort v)) kvs))"
| "json_sort (JArr vs) = JArr (map json_sort vs)"
| "json_sort v = v"

definition canonical_json :: "(json \<Rightarrow> string) \<Rightarrow> json \<Rightarrow> string" where
  "canonical_json json_str v = json_str (json_sort v)"

definition field :: "string \<Rightarrow> string \<Rightarrow> string" where
  "field tag bytes = tag @ '':'' @ nat_str (length bytes) @ '':'' @ bytes @ [CHR 0x0A]"

definition query_fields :: "(string \<times> string) list \<Rightarrow> string" where
  "query_fields q = concat (map (\<lambda>(k, v). field ''qk'' k @ field ''qv'' v) q)"

definition canonical_form :: "(json \<Rightarrow> string) \<Rightarrow> string \<Rightarrow> string \<Rightarrow> (string \<times> string) list \<Rightarrow> string \<Rightarrow> json option \<Rightarrow> string" where
  "canonical_form json_str verb path query raw_body json =
     ''scarab-step-up-canonical/v1'' @ [CHR 0x0A] @ field ''method'' verb @ field ''path'' path
     @ query_fields query
     @ (case json of Some v \<Rightarrow> field ''json'' (canonical_json json_str v) | None \<Rightarrow> field ''raw'' raw_body)"

definition ACTION_CHALLENGE_DOMAIN :: string where
  "ACTION_CHALLENGE_DOMAIN = ''scarab-step-up/v1'' @ [CHR 0x00]"

definition action_challenge :: "(string \<Rightarrow> string) \<Rightarrow> string \<Rightarrow> string option \<Rightarrow> string" where
  "action_challenge sha256 nonce digest =
     sha256 (ACTION_CHALLENGE_DOMAIN @ nonce @ (case digest of Some d \<Rightarrow> d | None \<Rightarrow> replicate 32 (CHR 0x00)))"

definition sent_challenge :: "(string \<Rightarrow> string) \<Rightarrow> challenge \<Rightarrow> string option" where
  "sent_challenge sha256 c =
     (if length (ch_nonce c) \<noteq> 32 then None
      else case ch_action_digest c of
             None \<Rightarrow> Some (action_challenge sha256 (ch_nonce c) None)
           | Some d \<Rightarrow> if length d = 32 then Some (action_challenge sha256 (ch_nonce c) (Some d)) else None)"

section \<open>What the form tells apart\<close>

lemma digit_not_colon: "d < 10 \<Longrightarrow> digit_char d \<noteq> CHR '':''"
proof
  assume "d < 10" "digit_char d = CHR '':''"
  then have "digit_val (CHR '':'') = Some d" using digit_val_char by metis
  then show False by (simp add: digit_val_def)
qed

lemma decimal_no_colon: "CHR '':'' \<notin> set (nat_str n)"
proof (induction n rule: nat_str.induct)
  case (1 n)
  then show ?case using digit_not_colon [of n] digit_not_colon [of "n mod 10"] by (subst nat_str.simps) auto
qed

lemma split_at_colon:
  assumes "a @ CHR '':'' # r = b @ CHR '':'' # s" "CHR '':'' \<notin> set a" "CHR '':'' \<notin> set b"
  shows "a = b \<and> r = s"
  using assms by (induction a arbitrary: b) (auto simp: Cons_eq_append_conv)

lemma field_unique:
  assumes "field t x @ r = field t' x' @ r'" "CHR '':'' \<notin> set t" "CHR '':'' \<notin> set t'"
  shows "t = t' \<and> x = x' \<and> r = r'"
proof -
  have "t @ CHR '':'' # (nat_str (length x) @ CHR '':'' # (x @ CHR 0x0A # r)) =
      t' @ CHR '':'' # (nat_str (length x') @ CHR '':'' # (x' @ CHR 0x0A # r'))"
    using assms(1) by (simp add: field_def)
  from split_at_colon [OF this assms(2,3)] have t: "t = t'"
    and rest: "nat_str (length x) @ CHR '':'' # (x @ CHR 0x0A # r) = nat_str (length x') @ CHR '':'' # (x' @ CHR 0x0A # r')" by auto
  from split_at_colon [OF rest decimal_no_colon decimal_no_colon]
  have "length x = length x'" "x @ CHR 0x0A # r = x' @ CHR 0x0A # r'" by simp_all
  then show ?thesis using t by simp
qed

lemma tags_no_colon [simp]:
  "CHR '':'' \<notin> set ''method''" "CHR '':'' \<notin> set ''path''" "CHR '':'' \<notin> set ''qk''" "CHR '':'' \<notin> set ''qv''"
  "CHR '':'' \<notin> set ''json''" "CHR '':'' \<notin> set ''raw''"
  by simp_all

definition body_field :: "(json \<Rightarrow> string) \<Rightarrow> string \<Rightarrow> json option \<Rightarrow> string \<times> string" where
  "body_field json_str raw json = (case json of Some v \<Rightarrow> (''json'', canonical_json json_str v) | None \<Rightarrow> (''raw'', raw))"

lemma query_fields_simps [simp]:
  "query_fields [] = []" "query_fields (kv # q) = field ''qk'' (fst kv) @ field ''qv'' (snd kv) @ query_fields q"
  by (simp_all add: query_fields_def case_prod_beta)

lemma body_tag:
  obtains t b where "body_field js raw j = (t, b)" "t = ''json'' \<or> t = ''raw''"
proof (cases j)
  case None
  then show thesis using that [of "''raw''" raw] by (simp add: body_field_def)
next
  case (Some v)
  then show thesis using that [of "''json''"] by (simp add: body_field_def)
qed

lemma query_unique:
  assumes "query_fields q @ case_prod field (body_field js raw j)
    = query_fields q' @ case_prod field (body_field js raw' j')"
  shows "q = q' \<and> body_field js raw j = body_field js raw' j'"
  using assms
proof (induction q arbitrary: q')
  case Nil
  obtain t b where b: "body_field js raw j = (t, b)" "t = ''json'' \<or> t = ''raw''" by (rule body_tag)
  obtain t' b' where b': "body_field js raw' j' = (t', b')" "t' = ''json'' \<or> t' = ''raw''" by (rule body_tag)
  show ?case
  proof (cases q')
    case Nil
    then show ?thesis using Nil.prems b b' field_unique [of t b "[]" t' b' "[]"] by auto
  next
    case (Cons kv rest)
    then have "field t b @ [] = field ''qk'' (fst kv) @ (field ''qv'' (snd kv) @ query_fields rest @ field t' b')"
      using Nil.prems b b' by (simp add: case_prod_beta)
    from field_unique [OF this] have "t = ''qk''" using b(2) by auto
    then show ?thesis using b(2) by simp
  qed
next
  case (Cons kv q)
  obtain t' b' where b': "body_field js raw' j' = (t', b')" "t' = ''json'' \<or> t' = ''raw''" by (rule body_tag)
  show ?case
  proof (cases q')
    case Nil
    then have "field ''qk'' (fst kv) @ (field ''qv'' (snd kv) @ query_fields q @ case_prod field (body_field js raw j)) = field t' b' @ []"
      using Cons.prems b' by (simp add: case_prod_beta)
    from field_unique [OF this] have "t' = ''qk''" using b'(2) by auto
    then show ?thesis using b'(2) by simp
  next
    case (Cons kv' rest)
    have "field ''qk'' (fst kv) @ (field ''qv'' (snd kv) @ (query_fields q @ case_prod field (body_field js raw j)))
        = field ''qk'' (fst kv') @ (field ''qv'' (snd kv') @ (query_fields rest @ case_prod field (body_field js raw' j')))"
      using Cons.prems Cons by (simp add: case_prod_beta)
    from field_unique [OF this] have k: "fst kv = fst kv'" and
      v: "field ''qv'' (snd kv) @ (query_fields q @ case_prod field (body_field js raw j))
        = field ''qv'' (snd kv') @ (query_fields rest @ case_prod field (body_field js raw' j'))"
      by simp_all
    from field_unique [OF v] Cons.IH [of rest] show ?thesis using k Cons by (simp add: prod_eq_iff)
  qed
qed

lemma canonical_fields:
  "canonical_form js verb path query raw j = ''scarab-step-up-canonical/v1'' @ [CHR 0x0A] @ field ''method'' verb @ field ''path'' path
     @ query_fields query @ case_prod field (body_field js raw j)"
  by (simp add: canonical_form_def body_field_def split: option.split)

lemma canonical_form_unique:
  assumes "canonical_form js verb path query raw j = canonical_form js verb' path' query' raw' j'"
  shows "verb = verb' \<and> path = path' \<and> query = query' \<and> body_field js raw j = body_field js raw' j'"
proof -
  have "field ''method'' verb @ (field ''path'' path @ (query_fields query @ case_prod field (body_field js raw j)))
      = field ''method'' verb' @ (field ''path'' path' @ (query_fields query' @ case_prod field (body_field js raw' j')))"
    using assms by (simp only: canonical_fields append.assoc same_append_eq append_Cons append_Nil list.inject simp_thms)
  from field_unique [OF this] have m: "verb = verb'" and
    p: "field ''path'' path @ (query_fields query @ case_prod field (body_field js raw j))
      = field ''path'' path' @ (query_fields query' @ case_prod field (body_field js raw' j'))" by simp_all
  from field_unique [OF p] have "path = path'" and
    q: "query_fields query @ case_prod field (body_field js raw j) = query_fields query' @ case_prod field (body_field js raw' j')" by simp_all
  with m query_unique [OF q] show ?thesis by simp
qed

section \<open>What the form leaves open\<close>

lemma json_sort_order:
  assumes "mset kvs = mset kvs'" "distinct (map fst kvs)"
  shows "json_sort (JObj kvs) = json_sort (JObj kvs')"
proof -
  let ?s = "\<lambda>kvs. map (\<lambda>(k, v). (k, json_sort v)) kvs"
  have "mset (?s kvs) = mset (?s kvs')" using assms(1) by simp
  moreover have "map fst (?s kvs) = map fst kvs" by (simp add: case_prod_beta comp_def)
  then have "inj_on fst (set (?s kvs))" using assms(2) by (metis distinct_map)
  ultimately have "sort_key fst (?s kvs) = sort_key fst (?s kvs')"
    by (intro sort_key_inj_key_eq) (auto simp: sorted_sort_key)
  then show ?thesis by simp
qed

lemma split_join:
  assumes "parts \<noteq> []" "list_all (\<lambda>p. sep \<notin> set p) parts"
  shows "split_char sep (join_with [sep] parts) = parts"
proof -
  have one: "split_char sep p = [p]" if "sep \<notin> set p" for p using that by (induction p) auto
  have more: "split_char sep (p @ sep # rest) = p # split_char sep rest" if "sep \<notin> set p" for p rest
    using that by (induction p) auto
  show ?thesis using assms
  proof (induction parts)
    case (Cons p ps)
    then show ?case by (cases ps) (simp_all add: one more)
  qed simp
qed

lemma sort_same: "mset xs = mset ys \<Longrightarrow> sort xs = sort ys"
  by (rule properties_for_sort) simp_all

lemma query_order:
  assumes "mset parts = mset parts'" "list_all (\<lambda>p. CHR ''&'' \<notin> set p) parts"
  shows "sorted_query lossy (join_with ''&'' parts) = sorted_query lossy (join_with ''&'' parts')"
proof (cases "parts = []")
  case False
  have same: "set parts' = set parts" "parts' \<noteq> []" using assms(1) False by (auto dest: mset_eq_setD)
  have "list_all (\<lambda>p. CHR ''&'' \<notin> set p) parts'" using assms(2) same by (simp add: list_all_iff)
  then have "mset (filter (\<lambda>p. p \<noteq> []) (split_char (CHR ''&'') (join_with ''&'' parts)))
      = mset (filter (\<lambda>p. p \<noteq> []) (split_char (CHR ''&'') (join_with ''&'' parts')))"
    using split_join [of parts "CHR ''&''"] split_join [of parts' "CHR ''&''"] assms False same(2) by (simp add: mset_filter)
  then have "mset (map (query_pair lossy) (filter (\<lambda>p. p \<noteq> []) (split_char (CHR ''&'') (join_with ''&'' parts))))
      = mset (map (query_pair lossy) (filter (\<lambda>p. p \<noteq> []) (split_char (CHR ''&'') (join_with ''&'' parts'))))"
    by (simp only: mset_map)
  then show ?thesis unfolding sorted_query_def by (rule sort_same)
next
  case True
  then show ?thesis using assms(1) by simp
qed



end
