(* ===== verification/Step_Up_Store_Laws.thy ===== *)
theory Step_Up_Store_Laws
  imports Step_Up_Store
begin

text \<open>
  The laws of the step-up stores over arbitrary sequences of operations, so over every interleaving of the handlers
  that use them. What may be used once is one locale, \<open>single_use\<close>, interpreted for challenges, for action
  confirmations and for the execution of requests.
\<close>

section \<open>Used at most once\<close>

text \<open>How many operations of a sequence satisfy a predicate on the operation and the state it meets.\<close>

fun occurrences :: "('op \<Rightarrow> 's \<Rightarrow> 's) \<Rightarrow> ('op \<Rightarrow> 's \<Rightarrow> bool) \<Rightarrow> 'op list \<Rightarrow> 's \<Rightarrow> nat" where
  "occurrences run P [] s = 0"
| "occurrences run P (op # ops) s = of_bool (P op s) + occurrences run P ops (run op s)"

locale single_use =
  fixes run :: "'op \<Rightarrow> 's \<Rightarrow> 's" and wf :: "'s \<Rightarrow> bool" and uses makes :: "'op \<Rightarrow> 's \<Rightarrow> bool" and ready :: "'s \<Rightarrow> bool"
  assumes keeps_wf: "wf s \<Longrightarrow> wf (run op s)"
    and use_ready: "wf s \<Longrightarrow> uses op s \<Longrightarrow> ready s"
    and use_spends: "wf s \<Longrightarrow> uses op s \<Longrightarrow> \<not> ready (run op s)"
    and ready_made: "wf s \<Longrightarrow> ready (run op s) \<Longrightarrow> ready s \<or> makes op s"
begin

lemma uses_within_makes:
  "wf s \<Longrightarrow> occurrences run uses ops s \<le> occurrences run makes ops s + of_bool (ready s)"
proof (induction ops arbitrary: s)
  case (Cons op ops)
  note rest = Cons.IH [OF keeps_wf [OF Cons.prems], of op]
  show ?case
  proof (cases "uses op s")
    case True
    then show ?thesis using rest use_ready [OF Cons.prems True] use_spends [OF Cons.prems True] by simp
  next
    case False
    then show ?thesis using rest ready_made [OF Cons.prems, of op] by (cases "ready (run op s)") auto
  qed
qed simp

end

section \<open>Challenges\<close>

datatype challenge_op = ChPut challenge | ChConsume string string int | ChReap int

definition challenge_run :: "challenge_op \<Rightarrow> challenges \<Rightarrow> challenges" where
  "challenge_run op m =
     (case op of
        ChPut c \<Rightarrow> snd (challenge_put c m)
      | ChConsume x session_hash now \<Rightarrow> snd (challenge_consume x session_hash now m)
      | ChReap now \<Rightarrow> snd (challenge_reap now m))"

definition challenge_made :: "string \<Rightarrow> challenge_op \<Rightarrow> challenges \<Rightarrow> bool" where
  "challenge_made x op m = (case op of ChPut c \<Rightarrow> ch_id c = x \<and> fst (challenge_put c m) = Inr () | _ \<Rightarrow> False)"

definition challenge_consumed :: "string \<Rightarrow> challenge_op \<Rightarrow> challenges \<Rightarrow> bool" where
  "challenge_consumed x op m =
     (case op of ChConsume y session_hash now \<Rightarrow> y = x \<and> fst (challenge_consume y session_hash now m) \<noteq> None | _ \<Rightarrow> False)"

definition challenge_open :: "string \<Rightarrow> challenges \<Rightarrow> bool" where
  "challenge_open x m = (case al_get m x of None \<Rightarrow> False | Some c \<Rightarrow> ch_consumed_at c = None)"

lemma al_wf_filter: "al_wf m \<Longrightarrow> al_wf (filter P m)"
  by (auto simp: al_wf_def distinct_map intro: inj_on_subset)

lemma al_get_filter: "al_wf m \<Longrightarrow> al_get (filter P m) x = (case al_get m x of None \<Rightarrow> None | Some v \<Rightarrow> if P (x, v) then Some v else None)"
proof (cases "al_get m x")
  case None
  then have "x \<notin> fst ` set (filter P m)" by (auto simp: map_of_eq_None_iff)
  then have "al_get (filter P m) x = None" by (simp only: map_of_eq_None_iff not_False_eq_True)
  then show ?thesis using None by simp
next
  case (Some v)
  assume wf: "al_wf m"
  show ?thesis
  proof (cases "P (x, v)")
    case True
    then have "al_get (filter P m) x = Some v" using Some by (simp add: al_get_mem [OF wf] al_get_mem [OF al_wf_filter [OF wf]])
    then show ?thesis using Some True by simp
  next
    case False
    then have "x \<notin> fst ` set (filter P m)" using Some wf by (auto simp: al_wf_def dest: eq_key_imp_eq_value)
    then have "al_get (filter P m) x = None" by (simp only: map_of_eq_None_iff not_False_eq_True)
    then show ?thesis using Some False by simp
  qed
qed

interpretation challenge_once: single_use challenge_run al_wf "challenge_consumed x" "challenge_made x" "challenge_open x" for x
proof
  fix m :: challenges and op
  assume wf: "al_wf m"
  show "al_wf (challenge_run op m)"
    using wf by (auto simp: challenge_run_def challenge_put_def challenge_consume_def challenge_reap_def Let_def al_wf_filter
        split: challenge_op.split option.split)
  show "challenge_open x m" if "challenge_consumed x op m"
    using that by (auto simp: challenge_consumed_def challenge_open_def challenge_consume_def split: challenge_op.splits option.splits if_splits)
  show "\<not> challenge_open x (challenge_run op m)" if "challenge_consumed x op m"
    using that by (auto simp: challenge_consumed_def challenge_open_def challenge_run_def challenge_consume_def Let_def
        split: challenge_op.splits option.splits if_splits)
  show "challenge_open x m \<or> challenge_made x op m" if "challenge_open x (challenge_run op m)"
    using that wf by (auto simp: challenge_made_def challenge_open_def challenge_run_def challenge_put_def challenge_consume_def
        challenge_reap_def al_get_filter Let_def split: challenge_op.splits option.splits if_splits)
qed

section \<open>Confirmations and requests\<close>

datatype step_up_op =
    PutConfirmation confirmation | ConsumeAction string string string int | DeleteWindows string | DeletePasskey string
  | RaiseRequest request int | BeginExecution string string string int
  | FinishRequest string request_state "int option" "string option" int | Reap int int | FailRevokes bool

definition step_up_run :: "step_up_op \<Rightarrow> step_up \<Rightarrow> step_up" where
  "step_up_run op su =
     (case op of
        PutConfirmation c \<Rightarrow> snd (put_confirmation c su)
      | ConsumeAction session_hash who digest now \<Rightarrow> snd (consume_action session_hash who digest now su)
      | DeleteWindows who \<Rightarrow> snd (delete_windows_for who su)
      | DeletePasskey pid \<Rightarrow> snd (delete_for_passkey pid su)
      | RaiseRequest r now \<Rightarrow> snd (raise_request r default_caps now su)
      | BeginExecution x by cid now \<Rightarrow> snd (begin_execution x by cid now su)
      | FinishRequest x state status summary now \<Rightarrow> snd (finish_request x state status summary now su)
      | Reap now older_than \<Rightarrow> snd (step_up_reap now older_than su)
      | FailRevokes on \<Rightarrow> su\<lparr>su_failing_revokes := on\<rparr>)"

definition no_step_up :: step_up where
  "no_step_up = \<lparr>su_confirmations = [], su_requests = [], su_failing_revokes = False\<rparr>"

definition confirmation_made :: "string \<Rightarrow> step_up_op \<Rightarrow> step_up \<Rightarrow> bool" where
  "confirmation_made x op su = (case op of PutConfirmation c \<Rightarrow> cf_id c = x \<and> fst (put_confirmation c su) = Inr () | _ \<Rightarrow> False)"

definition action_consumed :: "string \<Rightarrow> step_up_op \<Rightarrow> step_up \<Rightarrow> bool" where
  "action_consumed x op su =
     (case op of ConsumeAction session_hash who digest now \<Rightarrow> fst (consume_action session_hash who digest now su) = Some x | _ \<Rightarrow> False)"

definition confirmation_open :: "string \<Rightarrow> step_up \<Rightarrow> bool" where
  "confirmation_open x su = list_ex (\<lambda>c. cf_id c = x \<and> cf_consumed_at c = None) (su_confirmations su)"

definition request_raised :: "string \<Rightarrow> step_up_op \<Rightarrow> step_up \<Rightarrow> bool" where
  "request_raised x op su = (case op of RaiseRequest r now \<Rightarrow> rq_id r = x \<and> fst (raise_request r default_caps now su) = Inr Raised | _ \<Rightarrow> False)"

definition execution_begun :: "string \<Rightarrow> step_up_op \<Rightarrow> step_up \<Rightarrow> bool" where
  "execution_begun x op su =
     (case op of BeginExecution y by cid now \<Rightarrow> y = x \<and> (case fst (begin_execution y by cid now su) of Begun _ \<Rightarrow> True | _ \<Rightarrow> False) | _ \<Rightarrow> False)"

definition request_open :: "string \<Rightarrow> step_up \<Rightarrow> bool" where
  "request_open x su = (case al_get (su_requests su) x of None \<Rightarrow> False | Some r \<Rightarrow> rq_state r = RqPending)"

lemma min_by_mem: "min_by gt xs = Some x \<Longrightarrow> x \<in> set xs"
proof (cases xs)
  case (Cons y ys)
  have "foldl (\<lambda>a b. if gt a b then b else a) y ys \<in> set (y # ys)" by (induction ys arbitrary: y) auto
  then show "min_by gt xs = Some x \<Longrightarrow> x \<in> set xs" using Cons by auto
qed simp

lemma max_by_mem: "max_by gt xs = Some x \<Longrightarrow> x \<in> set xs"
proof (cases xs)
  case (Cons y ys)
  have "foldl (\<lambda>a b. if gt a b then a else b) y ys \<in> set (y # ys)" by (induction ys arbitrary: y) auto
  then show "max_by gt xs = Some x \<Longrightarrow> x \<in> set xs" using Cons by auto
qed simp

lemma consume_action_cases:
  obtains "consume_action session_hash who digest now su = (None, su)"
  | c where "c \<in> set (su_confirmations su)" "action_matches session_hash who digest now c"
      "consume_action session_hash who digest now su =
        (Some (cf_id c), su\<lparr>su_confirmations :=
           map (\<lambda>d. if cf_id d = cf_id c then d\<lparr>cf_consumed_at := Some now\<rparr> else d) (su_confirmations su)\<rparr>)"
proof (cases "min_by (\<lambda>a b. cf_confirmed_at a > cf_confirmed_at b \<or> (cf_confirmed_at a = cf_confirmed_at b \<and> cf_id a > cf_id b))
             (filter (action_matches session_hash who digest now) (su_confirmations su))")
  case None
  then show thesis using that by (simp add: consume_action_def)
next
  case (Some c)
  then show thesis using that(2) [of c] min_by_mem [OF Some] by (simp add: consume_action_def)
qed

lemma step_up_parts [simp]:
  "su_requests (snd (consume_action session_hash who digest now su)) = su_requests su"
  "su_requests (snd (put_confirmation c su)) = su_requests su"
  "su_requests (snd (delete_windows_for who su)) = su_requests su"
  "su_requests (snd (delete_for_passkey pid su)) = su_requests su"
  "su_confirmations (snd (raise_request r caps now su)) = su_confirmations su"
  "su_confirmations (snd (begin_execution x by cid now su)) = su_confirmations su"
  "su_confirmations (snd (finish_request x state status summary now su)) = su_confirmations su"
  by (auto simp: consume_action_def put_confirmation_def delete_windows_for_def delete_for_passkey_def raise_request_def
      begin_execution_def finish_request_def Let_def split: option.split)

lemma requests_wf: "al_wf (su_requests su) \<Longrightarrow> al_wf (su_requests (step_up_run op su))"
proof (cases op)
  case (Reap now older_than)
  assume wf: "al_wf (su_requests su)"
  have "al_wf (map (\<lambda>(x, r). (x, clear_sealed now r)) (su_requests su))"
    using wf by (simp add: al_wf_def comp_def case_prod_beta)
  then show ?thesis using Reap by (simp add: step_up_run_def step_up_reap_def Let_def al_wf_filter)
qed (auto simp: step_up_run_def raise_request_def begin_execution_def finish_request_def Let_def split: option.split)

interpretation action_once: single_use step_up_run "\<lambda>_. True" "action_consumed x" "confirmation_made x" "confirmation_open x" for x
proof
  fix su :: step_up and op
  show "confirmation_open x su" if "action_consumed x op su"
  proof (cases op)
    case (ConsumeAction session_hash who digest now)
    show ?thesis
      by (rule consume_action_cases [of session_hash who digest now su]) (use that ConsumeAction in \<open>auto simp: action_consumed_def confirmation_open_def list_ex_iff action_matches_def\<close>)
  qed (use that in \<open>auto simp: action_consumed_def\<close>)
  show "\<not> confirmation_open x (step_up_run op su)" if "action_consumed x op su"
  proof (cases op)
    case (ConsumeAction session_hash who digest now)
    show ?thesis
      by (rule consume_action_cases [of session_hash who digest now su]) (use that ConsumeAction in \<open>auto simp: action_consumed_def confirmation_open_def list_ex_iff step_up_run_def\<close>)
  qed (use that in \<open>auto simp: action_consumed_def\<close>)
  show "confirmation_open x su \<or> confirmation_made x op su" if "confirmation_open x (step_up_run op su)"
  proof (cases op)
    case (ConsumeAction session_hash who digest now)
    show ?thesis
      by (rule consume_action_cases [of session_hash who digest now su]) (use that ConsumeAction in \<open>auto simp: confirmation_open_def list_ex_iff step_up_run_def\<close>)
  qed (use that in \<open>auto simp: confirmation_open_def confirmation_made_def list_ex_iff step_up_run_def put_confirmation_def
        delete_windows_for_def delete_for_passkey_def step_up_reap_def Let_def split: if_splits\<close>)
qed simp

lemma al_get_reap:
  assumes "al_wf (su_requests su)"
  shows "al_get (su_requests (snd (step_up_reap now older_than su))) x =
    (case al_get (su_requests su) x of
       None \<Rightarrow> None
     | Some r \<Rightarrow> if request_outdated older_than (clear_sealed now r) then None else Some (clear_sealed now r))"
proof -
  let ?m = "map (\<lambda>(x, r). (x, clear_sealed now r)) (su_requests su)"
  have get: "al_get ?m x = map_option (clear_sealed now) (al_get (su_requests su) x)"
    by (simp add: map_of_map)
  have "al_wf ?m" using assms by (simp add: al_wf_def comp_def case_prod_beta)
  then show ?thesis by (simp add: step_up_reap_def Let_def al_get_filter get split: option.split)
qed

lemma clear_sealed_sel [simp]:
  "rq_state (clear_sealed now r) = rq_state r" "rq_requester (clear_sealed now r) = rq_requester r"
  "rq_for_human (clear_sealed now r) = rq_for_human r" "rq_expires_at (clear_sealed now r) = rq_expires_at r"
  "rq_confirmed_at (clear_sealed now r) = rq_confirmed_at r"
  by (auto simp: clear_sealed_def)

interpretation execution_once: single_use step_up_run "\<lambda>su. al_wf (su_requests su)" "execution_begun x" "request_raised x" "request_open x" for x
proof
  fix su :: step_up and op
  assume wf: "al_wf (su_requests su)"
  show "al_wf (su_requests (step_up_run op su))" by (rule requests_wf [OF wf])
  show "request_open x su" if "execution_begun x op su"
    using that by (auto simp: execution_begun_def request_open_def begin_execution_def split: step_up_op.splits option.splits if_splits)
  show "\<not> request_open x (step_up_run op su)" if "execution_begun x op su"
    using that by (auto simp: execution_begun_def request_open_def step_up_run_def begin_execution_def Let_def
        split: step_up_op.splits option.splits if_splits)
  show "request_open x su \<or> request_raised x op su" if "request_open x (step_up_run op su)"
  proof (cases op)
    case (RaiseRequest r now)
    then show ?thesis using that
      by (auto simp: request_open_def request_raised_def step_up_run_def raise_request_def Let_def split: if_splits option.splits)
  next
    case (FinishRequest y state status summary now)
    then show ?thesis using that
      by (auto simp: request_open_def step_up_run_def finish_request_def request_terminal_def split: if_splits option.splits)
  next
    case (BeginExecution y b cid now)
    then show ?thesis using that
      by (auto simp: request_open_def step_up_run_def begin_execution_def Let_def split: if_splits option.splits)
  next
    case (Reap now older_than)
    then show ?thesis using that wf by (auto simp: request_open_def step_up_run_def al_get_reap split: if_splits option.splits)
  qed (use that in \<open>auto simp: request_open_def step_up_run_def\<close>)
qed

text \<open>C31: what a passkey assertion may be used for once is used at most once. However the operations of all handlers
  interleave, a challenge is consumed at most as often as it was minted, an action confirmation authorises at
  most as many operations as were confirmed, and a request begins execution at most as often as it was
  raised. A challenge is consumed only in the session it was minted for and before it expires; an action
  confirmation only by its human, in its session, for exactly the digest it was made for, before it expires.\<close>
theorem step_up_single_use:
  "occurrences challenge_run (challenge_consumed x) ops [] \<le> occurrences challenge_run (challenge_made x) ops []
   \<and> occurrences step_up_run (action_consumed y) ops' no_step_up \<le> occurrences step_up_run (confirmation_made y) ops' no_step_up
   \<and> occurrences step_up_run (execution_begun z) ops' no_step_up \<le> occurrences step_up_run (request_raised z) ops' no_step_up
   \<and> (case fst (challenge_consume x session_hash now m) of
        None \<Rightarrow> True | Some c \<Rightarrow> ch_session_hash c = session_hash \<and> now < ch_expires_at c \<and> challenge_open x m)
   \<and> (case fst (consume_action session_hash who digest now su) of
        None \<Rightarrow> True
      | Some y' \<Rightarrow> \<exists>c. c \<in> set (su_confirmations su) \<and> cf_id c = y' \<and> action_matches session_hash who digest now c)"
proof (intro conjI)
  show "occurrences challenge_run (challenge_consumed x) ops [] \<le> occurrences challenge_run (challenge_made x) ops []"
    using challenge_once.uses_within_makes [of "[]" x ops] by (simp add: al_wf_def challenge_open_def)
  show "occurrences step_up_run (action_consumed y) ops' no_step_up \<le> occurrences step_up_run (confirmation_made y) ops' no_step_up"
    using action_once.uses_within_makes [where s = no_step_up and x = y and ops = ops'] by (simp add: confirmation_open_def no_step_up_def)
  show "occurrences step_up_run (execution_begun z) ops' no_step_up \<le> occurrences step_up_run (request_raised z) ops' no_step_up"
    using execution_once.uses_within_makes [of no_step_up z ops'] by (simp add: request_open_def no_step_up_def al_wf_def)
  show "case fst (challenge_consume x session_hash now m) of
        None \<Rightarrow> True | Some c \<Rightarrow> ch_session_hash c = session_hash \<and> now < ch_expires_at c \<and> challenge_open x m"
    by (auto simp: challenge_consume_def challenge_open_def Let_def split: option.split)
  show "case fst (consume_action session_hash who digest now su) of
        None \<Rightarrow> True
      | Some y' \<Rightarrow> \<exists>c. c \<in> set (su_confirmations su) \<and> cf_id c = y' \<and> action_matches session_hash who digest now c"
    by (rule consume_action_cases [of session_hash who digest now su]) auto
qed

section \<open>Bounded requests without bodies\<close>

definition op_time :: "step_up_op \<Rightarrow> int option" where
  "op_time op = (case op of RaiseRequest _ now \<Rightarrow> Some now | _ \<Rightarrow> None)"

definition raises_pending :: "step_up_op \<Rightarrow> bool" where
  "raises_pending op = (case op of RaiseRequest r _ \<Rightarrow> rq_state r = RqPending | _ \<Rightarrow> True)"

lemma filter_put_le:
  assumes "al_get m x = Some v" "\<not> P w"
  shows "length (filter P (map snd (al_put x w m))) \<le> length (filter P (map snd m))"
  using assms by (induction m) auto

lemma live_count_put:
  assumes "al_get (su_requests su) x = Some r" "rq_state r' \<noteq> RqPending"
  shows "live_count P now (su\<lparr>su_requests := al_put x r' (su_requests su)\<rparr>) \<le> live_count P now su"
  using filter_put_le [OF assms(1), of "\<lambda>r. request_live now r \<and> P r" r'] assms(2) by (simp add: live_count_def request_live_def)

lemma live_count_raise:
  "al_get (su_requests su) (rq_id r) = None \<Longrightarrow>
    live_count P now (su\<lparr>su_requests := al_put (rq_id r) r (su_requests su)\<rparr>) = live_count P now su + of_bool (request_live now r \<and> P r)"
proof -
  have "al_get m (rq_id r) = None \<Longrightarrow>
      length (filter Q (map snd (al_put (rq_id r) r m))) = length (filter Q (map snd m)) + of_bool (Q r)" for m and Q
    by (induction m) (auto split: if_splits)
  then show "al_get (su_requests su) (rq_id r) = None \<Longrightarrow> ?thesis" by (simp add: live_count_def)
qed

lemma live_count_Cons: "live_count P t (su\<lparr>su_requests := (x, r) # m\<rparr>) = of_bool (request_live t r \<and> P r) + live_count P t (su\<lparr>su_requests := m\<rparr>)"
  by (simp add: live_count_def)

lemma live_count_Nil: "live_count P t (su\<lparr>su_requests := []\<rparr>) = 0"
  by (simp add: live_count_def)

lemma request_live_clear [simp]: "request_live t (clear_sealed now r) = request_live t r"
  by (simp add: request_live_def)

lemma live_count_clear:
  assumes "\<And>r. P (clear_sealed now r) = P r"
  shows "live_count P t (su\<lparr>su_requests := filter Q (map (\<lambda>(x, r). (x, clear_sealed now r)) m)\<rparr>) \<le> live_count P t (su\<lparr>su_requests := m\<rparr>)"
proof (induction m)
  case (Cons xr m)
  then show ?case by (cases xr; cases "Q (fst xr, clear_sealed now (snd xr))") (simp_all add: live_count_Cons assms le_SucI)
qed (simp add: live_count_Nil)

lemma live_count_reap:
  assumes "\<And>r. P (clear_sealed now r) = P r"
  shows "live_count P t (snd (step_up_reap now older_than su)) \<le> live_count P t su"
  using live_count_clear [where P = P and now = now and t = t and m = "su_requests su" and su = su
      and Q = "\<lambda>(_, r). \<not> request_outdated older_than r"] assms
  by (simp add: live_count_def step_up_reap_def Let_def)

lemma live_count_mono: "t \<le> t' \<Longrightarrow> live_count P t' su \<le> live_count P t su"
proof -
  have "t \<le> t' \<Longrightarrow> length (filter (\<lambda>r. request_live t' r \<and> P r) rs) \<le> length (filter (\<lambda>r. request_live t r \<and> P r) rs)" for rs
    by (induction rs) (auto simp: request_live_def)
  then show "t \<le> t' \<Longrightarrow> ?thesis" by (simp only: live_count_def)
qed

definition within_caps :: "int \<Rightarrow> step_up \<Rightarrow> bool" where
  "within_caps t su \<longleftrightarrow> (\<forall>rq h. live_count (\<lambda>r. rq_requester r = rq) t su \<le> MAX_PENDING_STEP_UP_REQUESTS
     \<and> live_count (\<lambda>r. rq_for_human r = h) t su \<le> MAX_PENDING_STEP_UP_REQUESTS_PER_HUMAN)"

lemma within_caps_mono: "within_caps t su \<Longrightarrow> t \<le> t' \<Longrightarrow> within_caps t' su"
  unfolding within_caps_def using live_count_mono order_trans by blast

lemma within_caps_le:
  assumes "within_caps t su" "\<And>rq. live_count (\<lambda>r. rq_requester r = rq) t su' \<le> live_count (\<lambda>r. rq_requester r = rq) t su"
    "\<And>h. live_count (\<lambda>r. rq_for_human r = h) t su' \<le> live_count (\<lambda>r. rq_for_human r = h) t su"
  shows "within_caps t su'"
  using assms unfolding within_caps_def by (meson order_trans)

lemma within_caps_raise:
  assumes "within_caps t su"
  shows "within_caps t (snd (raise_request r default_caps t su))"
proof (cases "fst (raise_request r default_caps t su) = Inr Raised")
  case True
  then have fresh: "al_get (su_requests su) (rq_id r) = None"
      and room: "live_count (\<lambda>q. rq_requester q = rq_requester r) t su < MAX_PENDING_STEP_UP_REQUESTS"
        "live_count (\<lambda>q. rq_for_human q = rq_for_human r) t su < MAX_PENDING_STEP_UP_REQUESTS_PER_HUMAN"
      and st: "snd (raise_request r default_caps t su) = su\<lparr>su_requests := al_put (rq_id r) r (su_requests su)\<rparr>"
    by (auto simp: raise_request_def default_caps_def Let_def split: if_splits)
  show ?thesis
    using assms room unfolding st within_caps_def live_count_raise [OF fresh] by (auto simp: less_eq_Suc_le)
next
  case False
  then have "snd (raise_request r default_caps t su) = su" by (auto simp: raise_request_def Let_def split: if_splits)
  then show ?thesis using assms by simp
qed

lemma within_caps_run:
  assumes "within_caps t su" "op_time op = None"
  shows "within_caps t (step_up_run op su)"
proof (cases op)
  case (BeginExecution x b cid now)
  show ?thesis
    by (rule within_caps_le [OF assms(1)])
      (use BeginExecution in \<open>auto simp: step_up_run_def begin_execution_def Let_def live_count_put split: option.split\<close>)
next
  case (FinishRequest x state status summary now)
  show ?thesis
    by (rule within_caps_le [OF assms(1)])
      (use FinishRequest in \<open>auto simp: step_up_run_def finish_request_def request_terminal_def live_count_put split: option.split\<close>)
next
  case (Reap now older_than)
  show ?thesis
    by (rule within_caps_le [OF assms(1)]) (use Reap in \<open>auto simp: step_up_run_def live_count_reap\<close>)
qed (use assms in \<open>auto simp: op_time_def step_up_run_def within_caps_def live_count_def\<close>)

lemma caps_fold:
  assumes "within_caps t su" "sorted (t # List.map_filter op_time ops)"
  shows "within_caps (last (t # List.map_filter op_time ops)) (fold step_up_run ops su)"
  using assms
proof (induction ops arbitrary: t su)
  case (Cons op ops)
  show ?case
  proof (cases "op_time op")
    case None
    then show ?thesis using Cons.IH [OF within_caps_run [OF Cons.prems(1) None]] Cons.prems(2)
      by (simp add: List.map_filter_def)
  next
    case (Some now)
    then obtain r where op: "op = RaiseRequest r now" by (auto simp: op_time_def split: step_up_op.splits)
    have "within_caps now (step_up_run op su)"
      using within_caps_raise [OF within_caps_mono [OF Cons.prems(1)]] Cons.prems(2) Some op
      by (simp add: step_up_run_def List.map_filter_def)
    then show ?thesis using Cons.IH Cons.prems(2) Some by (simp add: List.map_filter_def)
  qed
qed (simp add: List.map_filter_def)

definition unsealed_when_settled :: "step_up \<Rightarrow> bool" where
  "unsealed_when_settled su \<longleftrightarrow> al_wf (su_requests su)
     \<and> (\<forall>x r. al_get (su_requests su) x = Some r \<longrightarrow> request_terminal (rq_state r) \<longrightarrow> rq_sealed r = None)"

lemma unsealed_run: "unsealed_when_settled su \<Longrightarrow> raises_pending op \<Longrightarrow> unsealed_when_settled (step_up_run op su)"
proof -
  assume a: "unsealed_when_settled su" "raises_pending op"
  then have wf: "al_wf (su_requests su)" by (simp add: unsealed_when_settled_def)
  have "rq_sealed r = None" if get: "al_get (su_requests (step_up_run op su)) x = Some r" and t: "request_terminal (rq_state r)" for x r
  proof (cases op)
    case (Reap now older_than)
    then show ?thesis using get t a(1)
      by (auto simp: step_up_run_def al_get_reap [OF wf] unsealed_when_settled_def clear_sealed_def split: option.splits if_splits)
  qed (use get t a in \<open>auto simp: step_up_run_def raise_request_def begin_execution_def finish_request_def unsealed_when_settled_def
        raises_pending_def request_terminal_def Let_def split: option.splits if_splits\<close>)
  then show ?thesis using requests_wf [OF wf] by (simp add: unsealed_when_settled_def)
qed

lemma unsealed_fold: "unsealed_when_settled su \<Longrightarrow> list_all raises_pending ops \<Longrightarrow> unsealed_when_settled (fold step_up_run ops su)"
  by (induction ops arbitrary: su) (auto intro: unsealed_run)

lemma unsealed_settled:
  "unsealed_when_settled su \<Longrightarrow> al_get (su_requests su) x = Some r \<Longrightarrow> request_terminal (rq_state r) \<Longrightarrow> rq_sealed r = None"
  unfolding unsealed_when_settled_def by metis

lemma reap_unseals:
  assumes "unsealed_when_settled su" "get_request x (snd (step_up_reap now older_than su)) = Some r"
    "request_is_expired r now \<or> left_executing now r \<or> request_terminal (rq_state r)"
  shows "rq_sealed r = None"
proof -
  have wf: "al_wf (su_requests su)" using assms(1) by (simp add: unsealed_when_settled_def)
  obtain r0 where r0: "al_get (su_requests su) x = Some r0" "r = clear_sealed now r0"
    using assms(2) by (auto simp: get_request_def al_get_reap [OF wf] split: option.splits if_splits)
  have same: "request_is_expired r now = request_is_expired r0 now" "left_executing now r = left_executing now r0"
    by (simp_all add: r0(2) request_is_expired_def left_executing_def)
  show ?thesis
  proof (cases "request_is_expired r0 now \<or> left_executing now r0")
    case True
    then show ?thesis by (simp add: r0(2) clear_sealed_def)
  next
    case False
    then have "request_terminal (rq_state r0)" "r = r0" using assms(3) same by (auto simp: r0(2) clear_sealed_def)
    then show ?thesis using assms(1) r0(1) by (simp add: unsealed_settled)
  qed
qed

text \<open>C32: parked requests are bounded and leave no secrets behind. Whatever operations run, when the clock does not go
  back between two raises, at no later moment does a machine hold more than 10 live requests nor does a human
  have more than 20 to answer; a request that settled keeps no sealed body; and after a reap no request that
  expired, or was left executing for its whole time to live, keeps one.\<close>
theorem requests_bounded_and_unsealed:
  assumes "sorted (List.map_filter op_time ops)" "list_all raises_pending ops" "list_all (\<lambda>t. t \<le> now) (List.map_filter op_time ops)"
  shows "pending_count rq now (fold step_up_run ops no_step_up) \<le> MAX_PENDING_STEP_UP_REQUESTS
    \<and> live_count (\<lambda>r. rq_for_human r = h) now (fold step_up_run ops no_step_up) \<le> MAX_PENDING_STEP_UP_REQUESTS_PER_HUMAN
    \<and> (get_request x (fold step_up_run ops no_step_up) = Some r \<and> request_terminal (rq_state r) \<longrightarrow> rq_sealed r = None)
    \<and> (get_request x (snd (step_up_reap now older_than (fold step_up_run ops no_step_up))) = Some r
         \<and> (request_is_expired r now \<or> left_executing now r \<or> request_terminal (rq_state r)) \<longrightarrow> rq_sealed r = None)"
proof -
  let ?su = "fold step_up_run ops no_step_up" and ?ts = "List.map_filter op_time ops"
  define t0 where "t0 = (if ?ts = [] then now else hd ?ts)"
  have start: "sorted (t0 # ?ts)" using assms(1) by (cases ?ts) (auto simp: t0_def)
  have "last (t0 # ?ts) \<le> now" using assms(3) by (cases "?ts = []") (auto simp: t0_def list_all_iff)
  moreover have "within_caps t0 no_step_up" by (simp add: within_caps_def live_count_def no_step_up_def)
  ultimately have caps: "within_caps now ?su" using caps_fold [OF _ start] within_caps_mono by blast
  have "unsealed_when_settled no_step_up" by (simp add: unsealed_when_settled_def no_step_up_def al_wf_def)
  from unsealed_fold [OF this assms(2)] have sealed: "unsealed_when_settled ?su" .
  then have wf: "al_wf (su_requests ?su)" by (simp add: unsealed_when_settled_def)
  show ?thesis
  proof (intro conjI impI)
    show "pending_count rq now ?su \<le> MAX_PENDING_STEP_UP_REQUESTS"
      "live_count (\<lambda>r. rq_for_human r = h) now ?su \<le> MAX_PENDING_STEP_UP_REQUESTS_PER_HUMAN"
      using caps by (simp_all add: within_caps_def pending_count_def)
    show "rq_sealed r = None" if "get_request x ?su = Some r \<and> request_terminal (rq_state r)"
      by (rule unsealed_settled [OF sealed, of x r]) (use that in \<open>simp_all add: get_request_def\<close>)
    show "rq_sealed r = None" if "get_request x (snd (step_up_reap now older_than ?su)) = Some r
        \<and> (request_is_expired r now \<or> left_executing now r \<or> request_terminal (rq_state r))"
      using reap_unseals [OF sealed] that by blast
  qed
qed

definition parked :: "string \<Rightarrow> request" where
  "parked x = \<lparr>rq_id = x, rq_org = None, rq_op = ''secret.put'', rq_method = ''POST'', rq_path = ''/v1/secrets'', rq_query = [],
     rq_sealed = Some ''body'', rq_action_digest = ''d'', rq_summary = JNull, rq_for_human = ''amy'', rq_requester = RqApiToken ''t'',
     rq_session_role_cap = None, rq_created_at = 0, rq_expires_at = 100, rq_state = RqPending, rq_confirmed_by = None,
     rq_confirmed_at = None, rq_confirmation_id = None, rq_executed_at = None, rq_result_status = None, rq_result_summary = None\<rparr>"

definition parked_ops :: "step_up_op list" where
  "parked_ops = [RaiseRequest (parked ''a'') 1, RaiseRequest (parked ''b'') 2, BeginExecution ''a'' ''amy'' ''c'' 3,
     FinishRequest ''a'' RqExecuted (Some 200) None 4]"

theorem requests_bounded_and_unsealed_witness:
  "pending_count (RqApiToken ''t'') 5 (fold step_up_run parked_ops no_step_up) \<le> 10
   \<and> map_option rq_sealed (get_request ''a'' (fold step_up_run parked_ops no_step_up)) = Some None"
proof -
  have times: "List.map_filter op_time parked_ops = [1, 2]" by (simp add: parked_ops_def op_time_def List.map_filter_def)
  have pending: "list_all raises_pending parked_ops" by (simp add: parked_ops_def raises_pending_def parked_def)
  have "\<exists>r. get_request ''a'' (fold step_up_run parked_ops no_step_up) = Some r \<and> rq_state r = RqExecuted"
    by (simp add: parked_ops_def step_up_run_def no_step_up_def raise_request_def begin_execution_def finish_request_def live_count_def
        request_live_def default_caps_def MAX_PENDING_STEP_UP_REQUESTS_def MAX_PENDING_STEP_UP_REQUESTS_PER_HUMAN_def parked_def
        get_request_def request_terminal_def Let_def)
  then obtain r where r: "get_request ''a'' (fold step_up_run parked_ops no_step_up) = Some r" "request_terminal (rq_state r)"
    by (auto simp: request_terminal_def)
  show ?thesis
    using requests_bounded_and_unsealed [of parked_ops 5 "RqApiToken ''t''" "''amy''" "''a''" r 0] pending r
    by (simp add: times MAX_PENDING_STEP_UP_REQUESTS_def)
qed

section \<open>Passkeys\<close>

datatype passkey_op =
    PkInsert passkey | PkUse string nat nat bool int | PkMark string int | PkRemove string string | PkRemoveAll string | PkHandle string string

definition passkey_run :: "passkey_op \<Rightarrow> passkeys \<Rightarrow> passkeys" where
  "passkey_run op ps =
     (case op of
        PkInsert p \<Rightarrow> snd (passkey_insert p ps)
      | PkUse pid read_count new_count bs now \<Rightarrow> snd (record_use pid read_count new_count bs now ps)
      | PkMark pid now \<Rightarrow> snd (mark_clone pid now ps)
      | PkRemove who pid \<Rightarrow> snd (passkey_remove who pid ps)
      | PkRemoveAll who \<Rightarrow> snd (passkey_remove_all who ps)
      | PkHandle who fresh \<Rightarrow> snd (user_handle who fresh ps))"

definition passkey_recorded :: "string \<Rightarrow> passkey_op \<Rightarrow> passkeys \<Rightarrow> bool" where
  "passkey_recorded x op ps =
     (case op of PkUse pid read_count new_count bs now \<Rightarrow> pid = x \<and> fst (record_use pid read_count new_count bs now ps) = Recorded | _ \<Rightarrow> False)"

definition passkeys_ok :: "passkeys \<Rightarrow> bool" where
  "passkeys_ok ps \<longleftrightarrow> al_wf (ps_rows ps) \<and> (\<forall>x p. al_get (ps_rows ps) x = Some p \<longrightarrow> pk_id p = x)
     \<and> (\<forall>x y p q. al_get (ps_rows ps) x = Some p \<longrightarrow> al_get (ps_rows ps) y = Some q \<longrightarrow> pk_credential_id p = pk_credential_id q \<longrightarrow> x = y)"

definition flagged :: "string \<Rightarrow> passkeys \<Rightarrow> bool" where
  "flagged x ps = (case al_get (ps_rows ps) x of None \<Rightarrow> True | Some p \<Rightarrow> pk_clone_suspected_at p \<noteq> None)"

text \<open>What no operation changes in a row that stays.\<close>

definition grown :: "passkey \<Rightarrow> passkey \<Rightarrow> bool" where
  "grown p q = (pk_id q = pk_id p \<and> pk_principal q = pk_principal p \<and> pk_credential_id q = pk_credential_id p
     \<and> pk_public_key_cose q = pk_public_key_cose p \<and> pk_sign_count p \<le> pk_sign_count q
     \<and> (pk_clone_suspected_at p \<noteq> None \<longrightarrow> pk_clone_suspected_at q = pk_clone_suspected_at p))"

lemma passkey_run_row:
  assumes wf: "al_wf (ps_rows ps)" and q: "al_get (ps_rows (passkey_run op ps)) x = Some q"
  shows "(\<exists>p. al_get (ps_rows ps) x = Some p \<and> grown p q)
    \<or> (\<exists>p. op = PkInsert p \<and> q = p \<and> x = pk_id p \<and> al_get (ps_rows ps) x = None
         \<and> (\<forall>y r. al_get (ps_rows ps) y = Some r \<longrightarrow> pk_credential_id r \<noteq> pk_credential_id p))"
proof (cases op)
  case (PkInsert p)
  then show ?thesis using q
    by (auto simp: passkey_run_def passkey_insert_def grown_def list_ex_iff split: if_splits dest!: map_of_SomeD)
next
  case (PkRemoveAll who)
  then show ?thesis using q
    by (auto simp: passkey_run_def passkey_remove_all_def grown_def al_get_filter [OF wf] Let_def split: option.splits if_splits)
qed (use q in \<open>auto simp: passkey_run_def record_use_def mark_clone_def passkey_remove_def user_handle_def grown_def flag_clone_def
      split: option.splits if_splits\<close>)

lemma passkey_run_wf: "al_wf (ps_rows ps) \<Longrightarrow> al_wf (ps_rows (passkey_run op ps))"
  by (auto simp: passkey_run_def passkey_insert_def record_use_def mark_clone_def passkey_remove_def passkey_remove_all_def
      user_handle_def al_wf_filter Let_def split: passkey_op.split option.split)

lemma grown_credential: "grown p q \<Longrightarrow> pk_credential_id q = pk_credential_id p"
  by (simp add: grown_def)

lemma passkeys_ok_run: "passkeys_ok ps \<Longrightarrow> passkeys_ok (passkey_run op ps)"
proof -
  assume ok: "passkeys_ok ps"
  then have wf: "al_wf (ps_rows ps)" by (simp add: passkeys_ok_def)
  note row = passkey_run_row [OF wf, of op]
  have "pk_id q = x" if "al_get (ps_rows (passkey_run op ps)) x = Some q" for x q
    using row [OF that] ok by (auto simp: passkeys_ok_def grown_def)
  moreover have "x = y" if "al_get (ps_rows (passkey_run op ps)) x = Some p" "al_get (ps_rows (passkey_run op ps)) y = Some q"
      "pk_credential_id p = pk_credential_id q" for x y p q
  proof -
    have unique: "x = y" if "al_get (ps_rows ps) x = Some p'" "al_get (ps_rows ps) y = Some q'" "pk_credential_id p' = pk_credential_id q'" for p' q'
      using that ok unfolding passkeys_ok_def by blast
    from row [OF that(1)] row [OF that(2)] show ?thesis
    proof (elim disjE exE conjE)
      fix p' q'
      assume "al_get (ps_rows ps) x = Some p'" "grown p' p" "al_get (ps_rows ps) y = Some q'" "grown q' q"
      then show "x = y" using unique that(3) grown_credential by metis
    next
      fix p' q'
      assume "al_get (ps_rows ps) x = Some p'" "grown p' p" "\<forall>y r. al_get (ps_rows ps) y = Some r \<longrightarrow> pk_credential_id r \<noteq> pk_credential_id q'" "q = q'"
      then show "x = y" using that(3) grown_credential by metis
    next
      fix p' q'
      assume "\<forall>y r. al_get (ps_rows ps) y = Some r \<longrightarrow> pk_credential_id r \<noteq> pk_credential_id p'" "p = p'" "al_get (ps_rows ps) y = Some q'" "grown q' q"
      then show "x = y" using that(3) grown_credential by metis
    qed simp
  qed
  ultimately show ?thesis using passkey_run_wf [OF wf] by (auto simp: passkeys_ok_def)
qed

lemma flagged_run: "al_wf (ps_rows ps) \<Longrightarrow> flagged x ps \<Longrightarrow> (\<forall>p. op = PkInsert p \<longrightarrow> pk_id p \<noteq> x) \<Longrightarrow> flagged x (passkey_run op ps)"
  using passkey_run_row [of ps op x] by (cases "al_get (ps_rows (passkey_run op ps)) x") (auto simp: flagged_def grown_def split: option.splits)

lemma flagged_not_recorded: "flagged x ps \<Longrightarrow> \<not> passkey_recorded x op ps"
  by (auto simp: flagged_def passkey_recorded_def record_use_def counter_accepted_def split: passkey_op.split option.splits if_splits)


definition yubi :: passkey where
  "yubi = \<lparr>pk_id = ''k'', pk_principal = ''amy'', pk_credential_id = ''cred'', pk_public_key_cose = ''pub'', pk_alg = -7, pk_sign_count = 4,
     pk_label = ''yubi'', pk_transports = [], pk_aaguid = None, pk_backup_eligible = False, pk_backup_state = False, pk_created_at = 0,
     pk_created_session_hash = ''s'', pk_last_used_at = None, pk_clone_suspected_at = None, pk_user_handle = None\<rparr>"

definition cloned :: passkeys where
  "cloned = passkey_run (PkUse ''k'' 4 4 False 10) \<lparr>ps_rows = [(''k'', yubi)], ps_handles = []\<rparr>"


end
