(* ===== verification/Step_Up.thy ===== *)
theory Step_Up
  imports Step_Up_Limiter Step_Up_Digest Step_Up_Store_Laws
begin

text \<open>
  The one step-up decision (\<^verbatim>\<open>scarab-server/src/step_up/mod.rs\<close>, \<^verbatim>\<open>requests.rs\<close>): what satisfies a governed operation,
  what a refusal carries, and the request a machine raises for its human. Random ids, the clock, sealing, the
  serialisation of a sealed body and SHA-256 are fields of an environment. A challenge is handed out as the data
  its options are rendered from. A handler runs to its end without another one in between; the laws of
  \<open>Step_Up_Store_Laws\<close> hold for every interleaving of the store's operations.
\<close>

section \<open>Operations\<close>

datatype mode = Window | AlwaysAsk

definition mode_str :: "mode \<Rightarrow> string" where
  "mode_str m = (case m of Window \<Rightarrow> ''window'' | AlwaysAsk \<Rightarrow> ''action'')"

datatype op_class = ClRead | CrownJewel mode | Conditional mode string | ClCeremony | ClExempt string | NotGoverned string

definition class_mode :: "op_class \<Rightarrow> mode option" where
  "class_mode c = (case c of CrownJewel m \<Rightarrow> Some m | Conditional m _ \<Rightarrow> Some m | _ \<Rightarrow> None)"

datatype org_of = OrgPath string | OrgBody string | OrgQuery string | OrgRun | OrgConnection | OrgNone

datatype project_of = ProjectNone | ProjectPath string | ProjectBody string | ProjectQuery string

datatype machine_use = Requestable | BrowserOnly | NotByToken

record op_input =
  in_method :: string
  in_path :: string
  in_params :: "(string \<times> string) list"
  in_query :: "(string \<times> string) list"
  in_body :: json

record op_summary =
  sm_operation :: string
  sm_target :: string
  sm_changes :: "string list"

text \<open>The describe function of an operation is applied to it already; the two fields only descriptions and documentation
  read are left out.\<close>

record operation =
  op_id :: string
  op_label :: string
  op_cls :: op_class
  op_min_role :: "role option"
  op_org_of :: org_of
  op_project_of :: project_of
  op_redact :: "string list"
  op_describe :: "op_input \<Rightarrow> op_summary"
  op_machine :: machine_use
  op_max_request_body :: nat

section \<open>The service\<close>

record service =
  sv_passkeys :: passkeys
  sv_challenges :: challenges
  sv_step_up :: step_up
  sv_events :: event_log
  sv_limiter :: refusal_limiter
  sv_drawn :: nat

record step_up_env =
  se_clock :: "service \<Rightarrow> int"
  se_random_id :: "nat \<Rightarrow> string"
  se_nonce :: "nat \<Rightarrow> string"
  se_sha256 :: "string \<Rightarrow> string"
  se_seal :: "string \<Rightarrow> string \<Rightarrow> string + string"
  se_sealed_request :: "string \<Rightarrow> string option \<Rightarrow> string"
  se_ui_url :: string

datatype replay_requester = ReplayApiToken string | ReplayBearerSession string

record replay_authority =
  ra_request_id :: string
  ra_confirmation_id :: string
  ra_op_id :: string
  ra_digest :: string
  ra_changes :: "string list"
  ra_requester :: replay_requester
  ra_for_human :: string
  ra_role_cap :: "role option"

record prepared =
  pr_caller :: caller
  pr_org :: "string option"
  pr_requested_scope :: "scope option"
  pr_summary :: op_summary
  pr_digest :: string
  pr_method :: string
  pr_path :: string
  pr_query :: string
  pr_body :: string

record challenge_dto =
  cd_id :: string
  cd_sent :: string
  cd_allow :: "(string \<times> string list) list"
  cd_expires_at :: int

record refusal =
  rf_message :: string
  rf_mode :: string
  rf_op :: string
  rf_summary :: op_summary
  rf_challenge :: "challenge_dto option"
  rf_enroll_url :: "string option"
  rf_fresh_login_until :: "int option"
  rf_confirmation_url :: "string option"
  rf_request_id :: "string option"
  rf_expires_at :: "int option"

datatype guard_error =
    StepUpRequired refusal | Ceremony nat string string | TooManyRequests string | Unavailable string | StoreFailed string
  | AuthError api_error

type_synonym 'a sprog = "(service, guard_error, 'a) prog"

definition identity_error_str :: "identity_error \<Rightarrow> string" where
  "identity_error_str e =
     (case e of AuthFailed \<Rightarrow> ''authentication failed'' | Issuance s \<Rightarrow> ''token issuance failed: '' @ s
      | IdentityDenied \<Rightarrow> ''access denied'' | IdentityConflict s \<Rightarrow> s)"

definition store_err :: "identity_error \<Rightarrow> guard_error" where
  "store_err e = StoreFailed (''step-up store: '' @ identity_error_str e)"

definition storeP :: "identity_error + 'a \<Rightarrow> 'a sprog" where
  "storeP r = (case r of Inl e \<Rightarrow> throwP (store_err e) | Inr a \<Rightarrow> returnP a)"

definition on_challenges :: "(challenges \<Rightarrow> 'a \<times> challenges) \<Rightarrow> 'a sprog" where
  "on_challenges f s = (let (a, x) = f (sv_challenges s) in (Inr a, s\<lparr>sv_challenges := x\<rparr>))"

definition on_step_up :: "(step_up \<Rightarrow> 'a \<times> step_up) \<Rightarrow> 'a sprog" where
  "on_step_up f s = (let (a, x) = f (sv_step_up s) in (Inr a, s\<lparr>sv_step_up := x\<rparr>))"

definition on_events :: "(event_log \<Rightarrow> 'a \<times> event_log) \<Rightarrow> 'a sprog" where
  "on_events f s = (let (a, x) = f (sv_events s) in (Inr a, s\<lparr>sv_events := x\<rparr>))"

definition on_limiter :: "(refusal_limiter \<Rightarrow> 'a \<times> refusal_limiter) \<Rightarrow> 'a sprog" where
  "on_limiter f s = (let (a, x) = f (sv_limiter s) in (Inr a, s\<lparr>sv_limiter := x\<rparr>))"

definition now_ms :: "step_up_env \<Rightarrow> int sprog" where
  "now_ms env = readP (se_clock env)"

definition draw :: "(nat \<Rightarrow> string) \<Rightarrow> string sprog" where
  "draw f s = (Inr (f (sv_drawn s)), s\<lparr>sv_drawn := sv_drawn s + 1\<rparr>)"

definition usable_passkeys :: "service \<Rightarrow> string \<Rightarrow> passkey list" where
  "usable_passkeys s who = filter (\<lambda>p. pk_clone_suspected_at p = None) (passkey_list (sv_passkeys s) who)"

definition descriptors :: "passkey list \<Rightarrow> (string \<times> string list) list" where
  "descriptors ps = map (\<lambda>p. (pk_credential_id p, pk_transports p)) ps"

definition mint_challenge ::
  "step_up_env \<Rightarrow> string \<Rightarrow> string \<Rightarrow> challenge_purpose \<Rightarrow> string option \<Rightarrow> string option \<Rightarrow> string option \<Rightarrow> json option \<Rightarrow> int
   \<Rightarrow> (challenge \<times> string) sprog" where
  "mint_challenge env who session_hash purpose digest request_id label summary now =
     bindP (draw (se_nonce env)) (\<lambda>nonce.
     bindP (draw (se_random_id env)) (\<lambda>x.
       let c = \<lparr>ch_id = x, ch_principal = who, ch_session_hash = session_hash, ch_purpose = purpose, ch_nonce = nonce,
                 ch_action_digest = digest, ch_request_id = request_id, ch_label = label, ch_summary = summary, ch_created_at = now,
                 ch_expires_at = now + WEBAUTHN_CHALLENGE_TTL_MS, ch_consumed_at = None\<rparr>
       in bindP (on_challenges (challenge_put c)) (\<lambda>r.
          bindP (storeP r) (\<lambda>_. returnP (c, action_challenge (se_sha256 env) nonce digest)))))"

section \<open>Events\<close>

definition new_event ::
  "step_up_env \<Rightarrow> replay_authority option \<Rightarrow> string \<Rightarrow> string \<Rightarrow> string \<Rightarrow> string option \<Rightarrow> int \<Rightarrow> security_event sprog" where
  "new_event env replay kind subject label org now =
     bindP (draw (se_random_id env)) (\<lambda>x. returnP
       \<lparr>ev_seq = 0, ev_id = x, ev_org = org, ev_at = now, ev_kind = kind, ev_subject = subject, ev_caller = label, ev_op = None,
        ev_target = None, ev_confirmation_id = None, ev_request_id = map_option ra_request_id replay, ev_passkey_id = None,
        ev_session_hash = None, ev_detail = JObj []\<rparr>)"

text \<open>Best-effort: a failure is only logged.\<close>

definition record_event :: "security_event \<Rightarrow> unit sprog" where
  "record_event e = bindP (on_events (event_append e)) (\<lambda>_. returnP ())"

definition record_refusal :: "security_event \<Rightarrow> unit sprog" where
  "record_refusal e = bindP (on_limiter (limiter_admit e)) (\<lambda>es. forP es record_event)"

definition session_hash_of :: "caller \<Rightarrow> string option" where
  "session_hash_of c = map_option sf_id_hash (ca_session c)"

text \<open>The event of an operation, with the target and the detail a caller of it fills in.\<close>

definition op_event ::
  "step_up_env \<Rightarrow> replay_authority option \<Rightarrow> string \<Rightarrow> operation \<Rightarrow> prepared \<Rightarrow> string \<Rightarrow> json \<Rightarrow> int \<Rightarrow> security_event sprog" where
  "op_event env replay kind op p target detail now =
     bindP (new_event env replay kind (pn_subject (ca_principal (pr_caller p))) (event_label (pr_caller p)) (pr_org p) now) (\<lambda>e.
       returnP (e\<lparr>ev_op := Some (op_id op), ev_target := Some target, ev_session_hash := session_hash_of (pr_caller p), ev_detail := detail\<rparr>))"

definition summary_json :: "op_summary \<Rightarrow> json" where
  "summary_json sm = JObj [(''operation'', JStr (sm_operation sm)), (''target'', JStr (sm_target sm)), (''changes'', JArr (map JStr (sm_changes sm)))]"

section \<open>Refusals\<close>

definition refuse_with ::
  "step_up_env \<Rightarrow> replay_authority option \<Rightarrow> operation \<Rightarrow> prepared \<Rightarrow> refusal \<Rightarrow> string \<Rightarrow> string option \<Rightarrow> 'a sprog" where
  "refuse_with env replay op p rf reason request_id =
     bindP (now_ms env) (\<lambda>now.
     bindP (op_event env replay ''step_up.refused'' op p (sm_target (rf_summary rf))
              (JObj [(''mode'', JStr (rf_mode rf)), (''reason'', JStr reason)]) now) (\<lambda>e.
     bindP (case request_id of Some x \<Rightarrow> record_event (e\<lparr>ev_request_id := Some x\<rparr>) | None \<Rightarrow> record_refusal e) (\<lambda>_.
       throwP (StepUpRequired rf))))"

datatype unrequestable = UnBrowserOnly | UnNotByToken | OutsideTokenScope

definition unrequestable_code :: "unrequestable \<Rightarrow> string" where
  "unrequestable_code u =
     (case u of UnBrowserOnly \<Rightarrow> ''browser_session_required'' | UnNotByToken \<Rightarrow> ''not_by_api_token'' | OutsideTokenScope \<Rightarrow> ''outside_token_scope'')"

definition unrequestable_message :: "unrequestable \<Rightarrow> operation \<Rightarrow> string" where
  "unrequestable_message u op =
     op_label op @
     (case u of
        UnBrowserOnly \<Rightarrow> '' can only be done by a human in a signed-in browser '' @ [CHR 0xE2, CHR 0x80, CHR 0x94]
          @ '' never with an API token or a session presented as Bearer '' @ [CHR 0xE2, CHR 0x80, CHR 0x94]
          @ '' so no confirmation request was raised''
      | UnNotByToken \<Rightarrow> '' can never be done with an API token, so no confirmation request was raised''
      | OutsideTokenScope \<Rightarrow> '' acts outside this API token's scope, so it could never run with it and no confirmation request was raised'')"

definition requester_of :: "caller \<Rightarrow> requester option" where
  "requester_of c =
     (case ca_grant c of
        Some t \<Rightarrow> Some (RqApiToken (tk_id t))
      | None \<Rightarrow> (case (ca_via c, ca_session c) of (Some Bearer, Some sf) \<Rightarrow> Some (RqBearerSession (sf_id_hash sf)) | _ \<Rightarrow> None))"

definition requestable :: "operation \<Rightarrow> prepared \<Rightarrow> unrequestable option" where
  "requestable op p =
     (if op_machine op = BrowserOnly then Some UnBrowserOnly
      else case ca_grant (pr_caller p) of
             None \<Rightarrow> None
           | Some t \<Rightarrow>
               (if op_machine op = NotByToken then Some UnNotByToken
                else if op_org_of op \<noteq> OrgNone \<and> \<not> (case pr_requested_scope p of None \<Rightarrow> False | Some sc \<Rightarrow> token_covers t sc)
                then Some OutsideTokenScope else None))"

definition refuse_unrequestable ::
  "step_up_env \<Rightarrow> replay_authority option \<Rightarrow> operation \<Rightarrow> prepared \<Rightarrow> mode \<Rightarrow> unrequestable \<Rightarrow> 'a sprog" where
  "refuse_unrequestable env replay op p m why =
     bindP (now_ms env) (\<lambda>now.
     bindP (op_event env replay ''step_up.refused'' op p (sm_target (pr_summary p))
              (JObj [(''mode'', JStr (mode_str m)), (''reason'', JStr (unrequestable_code why))]) now) (\<lambda>e.
     bindP (record_refusal e) (\<lambda>_. throwP (Ceremony 403 (unrequestable_code why) (unrequestable_message why op)))))"

section \<open>A machine raises a request for its human\<close>

definition MSG_REQUEST :: string where
  "MSG_REQUEST = ''This needs a step-up confirmation by a human with a passkey. A confirmation request was raised: open `confirmation_url` in a browser signed in as the human this credential acts for, and confirm it with a passkey within 5 minutes. It then runs once, exactly as sent.''"

definition aad :: "string \<Rightarrow> string" where
  "aad x = ''step-up-request:'' @ x"

definition requester_label :: "caller \<Rightarrow> string" where
  "requester_label c =
     (case ca_grant c of
        Some t \<Rightarrow> ''API token '' @ [CHR 0xE2, CHR 0x80, CHR 0x9C] @ tk_name t @ [CHR 0xE2, CHR 0x80, CHR 0x9D] @ '' ('' @ tk_id t @ '')''
      | None \<Rightarrow> ''a CLI session (Bearer)'')"

definition too_large :: "step_up_env \<Rightarrow> replay_authority option \<Rightarrow> operation \<Rightarrow> prepared \<Rightarrow> op_summary \<Rightarrow> refusal \<Rightarrow> int \<Rightarrow> 'a sprog" where
  "too_large env replay op p sm rf now =
     (let n = length (pr_body p) in
      bindP (op_event env replay ''step_up.refused'' op p (sm_target sm)
               (JObj [(''mode'', JStr (rf_mode rf)), (''reason'', JStr ''request body too large''), (''bytes'', JInt (int n)),
                      (''limit'', JInt (int (op_max_request_body op)))]) now) (\<lambda>e.
      bindP (record_refusal e) (\<lambda>_.
        throwP (Ceremony 413 ''request_body_too_large''
          (''the body ('' @ nat_str n @ '' bytes) is larger than a confirmation request for '' @ op_label op @ '' may carry (''
           @ nat_str (op_max_request_body op) @ '' bytes), so none was raised; do it from a signed-in browser instead'')))))"

definition full_message :: "string \<Rightarrow> raise_outcome \<Rightarrow> (nat \<times> string \<times> string) option" where
  "full_message human out =
     (case out of
        Raised \<Rightarrow> None
      | RequesterFull n \<Rightarrow> Some (n, ''too many pending confirmation requests'',
          nat_str n @ '' step-up confirmation requests from this credential are already waiting for '' @ human
          @ ''; confirm them, or let them expire (5 minutes), first'')
      | HumanFull n \<Rightarrow> Some (n, ''too many pending confirmation requests for this human'',
          nat_str n @ '' step-up confirmation requests are already waiting for '' @ human
          @ ''; confirm them, or let them expire (5 minutes), first''))"

definition request_row :: "operation \<Rightarrow> prepared \<Rightarrow> op_summary \<Rightarrow> requester \<Rightarrow> string \<Rightarrow> string \<Rightarrow> int \<Rightarrow> request" where
  "request_row op p sm rq x sealed now =
     \<lparr>rq_id = x, rq_org = pr_org p, rq_op = op_id op, rq_method = pr_method p, rq_path = pr_path p, rq_query = pr_query p,
      rq_sealed = Some sealed, rq_action_digest = pr_digest p,
      rq_summary = JObj [(''operation'', JStr (sm_operation sm)), (''target'', JStr (sm_target sm)),
                         (''changes'', JArr (map JStr (sm_changes sm))), (''requester'', JStr (requester_label (pr_caller p)))],
      rq_for_human = pn_subject (ca_principal (pr_caller p)), rq_requester = rq,
      rq_session_role_cap = (case rq of RqBearerSession _ \<Rightarrow> max_of (pn_roles (ca_principal (pr_caller p))) | RqApiToken _ \<Rightarrow> None),
      rq_created_at = now, rq_expires_at = now + STEP_UP_REQUEST_TTL_MS, rq_state = RqPending, rq_confirmed_by = None,
      rq_confirmed_at = None, rq_confirmation_id = None, rq_executed_at = None, rq_result_status = None, rq_result_summary = None\<rparr>"

definition sealed_session :: "caller \<Rightarrow> requester \<Rightarrow> string option" where
  "sealed_session c rq = (case rq of RqBearerSession _ \<Rightarrow> map_option sf_id (ca_session c) | RqApiToken _ \<Rightarrow> None)"

definition raise_step_up ::
  "step_up_env \<Rightarrow> replay_authority option \<Rightarrow> operation \<Rightarrow> prepared \<Rightarrow> op_summary \<Rightarrow> requester \<Rightarrow> refusal \<Rightarrow> 'a sprog" where
  "raise_step_up env replay op p sm rq rf =
     bindP (now_ms env) (\<lambda>now.
     if length (pr_body p) > op_max_request_body op then too_large env replay op p sm rf now
     else
       bindP (draw (se_random_id env)) (\<lambda>x.
       case se_seal env (se_sealed_request env (pr_body p) (sealed_session (pr_caller p) rq)) (aad x) of
         Inl e \<Rightarrow> throwP (Unavailable (''could not seal the confirmation request, so none was raised: '' @ e))
       | Inr sealed \<Rightarrow>
           (let row = request_row op p sm rq x sealed now in
            bindP (on_step_up (raise_request row default_caps now)) (\<lambda>r.
            bindP (storeP r) (\<lambda>out.
            case full_message (rq_for_human row) out of
              Some (n, reason, message) \<Rightarrow>
                bindP (op_event env replay ''step_up.refused'' op p (sm_target sm)
                         (JObj [(''mode'', JStr (rf_mode rf)), (''reason'', JStr reason), (''pending'', JInt (int n))]) now) (\<lambda>e.
                bindP (record_refusal e) (\<lambda>_. throwP (TooManyRequests message)))
            | None \<Rightarrow>
                bindP (op_event env replay ''request.raised'' op p (sm_target sm)
                         (JObj [(''requested_via'', JStr (requester_via rq)), (''requested_by'', JStr (requester_label (pr_caller p))),
                                (''expires_at'', JInt (rq_expires_at row)), (''summary'', summary_json sm)]) now) (\<lambda>e.
                bindP (record_event (e\<lparr>ev_request_id := Some x\<rparr>)) (\<lambda>_.
                refuse_with env replay op p
                  (rf\<lparr>rf_message := MSG_REQUEST, rf_confirmation_url := Some (se_ui_url env @ ''/security/confirm/'' @ x),
                      rf_request_id := Some x, rf_expires_at := Some (rq_expires_at row)\<rparr>)
                  ''confirmation request raised'' (Some x))))))))"

section \<open>The decision\<close>

definition ENROLL_URL :: string where "ENROLL_URL = ''/settings/security?enroll=1''"

definition MSG_CONFIRM :: string where
  "MSG_CONFIRM = ''This needs a step-up confirmation: confirm with your passkey.''"

definition MSG_ENROLL :: string where
  "MSG_ENROLL = ''This needs a step-up confirmation, and you have no passkey yet: enroll one first (from a browser login made in the last 5 minutes).''"

definition MSG_FLAGGED_RESET :: string where
  "MSG_FLAGGED_RESET = ''This needs a step-up confirmation, and every passkey you had is flagged as possibly cloned. Ask an Owner of your Org to reset your passkeys, then enroll a new one.''"

definition MSG_MACHINE :: string where
  "MSG_MACHINE = ''This needs a step-up confirmation by a human with a passkey. An API token or a session presented as Bearer can never give one.''"

definition MSG_REPLAY_MISMATCH :: string where
  "MSG_REPLAY_MISMATCH = ''This is not the operation that was confirmed: a confirmed request runs exactly once, exactly as it was raised.''"

definition MSG_PLUGIN :: string where
  "MSG_PLUGIN = ''This needs a step-up confirmation by a human with a passkey; a plugin has no human and cannot raise one.''"

definition PLUGIN_PRINCIPAL_PREFIX :: string where "PLUGIN_PRINCIPAL_PREFIX = ''plugin:''"

definition plain_refusal :: "operation \<Rightarrow> op_summary \<Rightarrow> string \<Rightarrow> string \<Rightarrow> refusal" where
  "plain_refusal op sm message m =
     \<lparr>rf_message = message, rf_mode = m, rf_op = op_id op, rf_summary = sm, rf_challenge = None, rf_enroll_url = None,
      rf_fresh_login_until = None, rf_confirmation_url = None, rf_request_id = None, rf_expires_at = None\<rparr>"

definition replay_satisfies :: "replay_authority \<Rightarrow> operation \<Rightarrow> prepared \<Rightarrow> op_summary \<Rightarrow> bool" where
  "replay_satisfies a op p sm = (ra_op_id a = op_id op \<and> ra_digest a = pr_digest p \<and> list_all (\<lambda>c. c \<in> set (ra_changes a)) (sm_changes sm))"

definition require_machine :: "step_up_env \<Rightarrow> operation \<Rightarrow> prepared \<Rightarrow> op_summary \<Rightarrow> mode \<Rightarrow> string option sprog" where
  "require_machine env op p sm m =
     (if strip_prefix PLUGIN_PRINCIPAL_PREFIX (pn_subject (ca_principal (pr_caller p))) \<noteq> None
      then refuse_with env None op p (plain_refusal op sm MSG_PLUGIN (mode_str m)) ''plugin'' None
      else case requester_of (pr_caller p) of
             Some rq \<Rightarrow>
               (case requestable op p of
                  Some why \<Rightarrow> refuse_unrequestable env None op p m why
                | None \<Rightarrow> raise_step_up env None op p sm rq (plain_refusal op sm MSG_MACHINE (mode_str m)))
           | None \<Rightarrow> refuse_with env None op p (plain_refusal op sm MSG_MACHINE (mode_str m)) ''machine'' None)"

text \<open>What stands for the caller: a live window of the session, or one action confirmation of this digest, which is used up.\<close>

definition standing_confirmation :: "operation \<Rightarrow> prepared \<Rightarrow> mode \<Rightarrow> session_facts \<Rightarrow> int \<Rightarrow> string option sprog" where
  "standing_confirmation op p m sf now =
     (let who = pn_subject (ca_principal (pr_caller p)) in
      case m of
        Window \<Rightarrow> readP (\<lambda>s. map_option fst (live_window (sv_step_up s) (sf_id_hash sf) who now))
      | AlwaysAsk \<Rightarrow> on_step_up (consume_action (sf_id_hash sf) who (pr_digest p) now))"

definition offer_challenge :: "step_up_env \<Rightarrow> operation \<Rightarrow> prepared \<Rightarrow> op_summary \<Rightarrow> mode \<Rightarrow> session_facts \<Rightarrow> passkey list \<Rightarrow> int \<Rightarrow> 'a sprog" where
  "offer_challenge env op p sm m sf passkeys now =
     (let (purpose, digest) = (case m of Window \<Rightarrow> (PWindow, None) | AlwaysAsk \<Rightarrow> (PAction, Some (pr_digest p))) in
      bindP (mint_challenge env (pn_subject (ca_principal (pr_caller p))) (sf_id_hash sf) purpose digest None None
               (Some (JObj [(''op'', JStr (op_id op)), (''org'', case pr_org p of None \<Rightarrow> JNull | Some x \<Rightarrow> JStr x), (''summary'', summary_json sm)])) now)
        (\<lambda>(row, sent).
           refuse_with env None op p
             ((plain_refusal op sm MSG_CONFIRM (mode_str m))\<lparr>rf_challenge :=
                Some \<lparr>cd_id = ch_id row, cd_sent = sent, cd_allow = descriptors passkeys, cd_expires_at = ch_expires_at row\<rparr>\<rparr>)
             ''not confirmed'' None))"

definition require_browser :: "step_up_env \<Rightarrow> operation \<Rightarrow> prepared \<Rightarrow> op_summary \<Rightarrow> mode \<Rightarrow> session_facts \<Rightarrow> int \<Rightarrow> string option sprog" where
  "require_browser env op p sm m sf now =
     (let who = pn_subject (ca_principal (pr_caller p)) in
      bindP (readP (\<lambda>s. usable_passkeys s who)) (\<lambda>passkeys.
      if passkeys = []
      then bindP (readP (\<lambda>s. passkey_list (sv_passkeys s) who)) (\<lambda>all.
           if all \<noteq> [] then refuse_with env None op p (plain_refusal op sm MSG_FLAGGED_RESET ''enroll'') ''passkeys flagged'' None
           else refuse_with env None op p
                  ((plain_refusal op sm MSG_ENROLL ''enroll'')\<lparr>rf_enroll_url := Some ENROLL_URL,
                     rf_fresh_login_until := (case sf_fresh_login_until sf of None \<Rightarrow> None | Some t \<Rightarrow> if t > now then Some t else None)\<rparr>)
                  ''no passkey'' None)
      else bindP (standing_confirmation op p m sf now) (\<lambda>found.
           case found of Some x \<Rightarrow> returnP (Some x) | None \<Rightarrow> offer_challenge env op p sm m sf passkeys now)))"

text \<open>A browser session has its facts, so the last branch is never taken.\<close>

definition step_up_require :: "step_up_env \<Rightarrow> replay_authority option \<Rightarrow> operation \<Rightarrow> prepared \<Rightarrow> op_summary \<Rightarrow> string option sprog" where
  "step_up_require env replay op p sm =
     (let m = (case class_mode (op_cls op) of None \<Rightarrow> Window | Some m \<Rightarrow> m) in
      bindP (now_ms env) (\<lambda>now.
      case replay of
        Some a \<Rightarrow>
          (if replay_satisfies a op p sm then returnP (Some (ra_confirmation_id a))
           else refuse_with env replay op p (plain_refusal op sm MSG_REPLAY_MISMATCH (mode_str m))
                  ''replay does not match the confirmed request'' None)
      | None \<Rightarrow>
          (if \<not> is_browser_session (pr_caller p) then require_machine env op p sm m
           else case ca_session (pr_caller p) of
                  Some sf \<Rightarrow> require_browser env op p sm m sf now
                | None \<Rightarrow> require_machine env op p sm m)))"

definition authorise :: "step_up_env \<Rightarrow> replay_authority option \<Rightarrow> operation \<Rightarrow> prepared \<Rightarrow> op_summary \<Rightarrow> string option sprog" where
  "authorise env replay op p sm =
     bindP (step_up_require env replay op p sm) (\<lambda>confirmation.
     bindP (now_ms env) (\<lambda>now.
     bindP (op_event env replay ''op.authorised'' op p (sm_target sm) (JObj [(''summary'', summary_json sm)]) now) (\<lambda>e.
     bindP (on_events (event_append (e\<lparr>ev_confirmation_id := confirmation\<rparr>))) (\<lambda>r.
       case r of
         Inl _ \<Rightarrow> throwP (Unavailable ''the security event log is unavailable, so this operation was not performed'')
       | Inr _ \<Rightarrow> returnP confirmation))))"

section \<open>What satisfies it\<close>

lemma bindP_ok: "bindP m f s = (Inr b, s') \<longleftrightarrow> (\<exists>a t. m s = (Inr a, t) \<and> f a t = (Inr b, s'))"
  by (auto simp: bindP_def split: prod.splits sum.splits)

lemma throwP_not_Inr [simp]: "throwP e s \<noteq> (Inr b, s')"
  by (simp add: throwP_def)

lemma refuse_with_fails [simp]: "refuse_with env replay op p rf reason rid s \<noteq> (Inr b, s')"
  by (auto simp: refuse_with_def bindP_ok)

lemma refuse_unrequestable_fails [simp]: "refuse_unrequestable env replay op p m why s \<noteq> (Inr b, s')"
  by (auto simp: refuse_unrequestable_def bindP_ok)

lemma raise_step_up_fails [simp]: "raise_step_up env replay op p sm rq rf s \<noteq> (Inr b, s')"
  by (auto simp: raise_step_up_def too_large_def bindP_ok Let_def split: if_splits sum.splits option.splits prod.splits)

lemma offer_challenge_fails [simp]: "offer_challenge env op p sm m sf ps now s \<noteq> (Inr b, s')"
  by (auto simp: offer_challenge_def bindP_ok Let_def split: prod.splits)

lemma require_machine_fails [simp]: "require_machine env op p sm m s \<noteq> (Inr b, s')"
  by (auto simp: require_machine_def split: if_splits option.splits)

lemma require_browser_ok:
  assumes "require_browser env op p sm m sf now s = (Inr c, s')"
  obtains x where "c = Some x" "usable_passkeys s (pn_subject (ca_principal (pr_caller p))) \<noteq> []"
    "standing_confirmation op p m sf now s = (Inr (Some x), s')"
  using assms that
  by (auto simp: require_browser_def Let_def bindP_ok readP_def returnP_def split: if_splits option.splits)

definition op_mode :: "operation \<Rightarrow> mode" where
  "op_mode op = (case class_mode (op_cls op) of None \<Rightarrow> Window | Some m \<Rightarrow> m)"

text \<open>What stands for an operation of a mode in a session at a time, and what is left of it.\<close>

definition stands :: "operation \<Rightarrow> prepared \<Rightarrow> string \<Rightarrow> int \<Rightarrow> string \<Rightarrow> service \<Rightarrow> service \<Rightarrow> bool" where
  "stands op p session_hash now x s s' =
     (let who = pn_subject (ca_principal (pr_caller p)) in
      case op_mode op of
        Window \<Rightarrow> sv_step_up s' = sv_step_up s \<and> (\<exists>c. c \<in> set (su_confirmations (sv_step_up s)) \<and> cf_id c = x \<and> cf_kind c = KWindow
                      \<and> cf_session_hash c = session_hash \<and> cf_principal c = who \<and> cf_expires_at c > now)
      | AlwaysAsk \<Rightarrow> (\<exists>c. c \<in> set (su_confirmations (sv_step_up s)) \<and> cf_id c = x \<and> action_matches session_hash who (pr_digest p) now c)
                     \<and> \<not> list_ex (\<lambda>c. cf_id c = x \<and> cf_consumed_at c = None) (su_confirmations (sv_step_up s')))"

lemma live_window_mem:
  assumes "live_window su session_hash who now = Some (x, t)"
  shows "\<exists>c. c \<in> set (su_confirmations su) \<and> cf_id c = x \<and> cf_kind c = KWindow \<and> cf_session_hash c = session_hash
    \<and> cf_principal c = who \<and> cf_expires_at c > now"
proof -
  obtain c where c: "max_by (\<lambda>a b. cf_expires_at a > cf_expires_at b \<or> (cf_expires_at a = cf_expires_at b \<and> cf_id b > cf_id a))
      (live_windows su session_hash who now) = Some c" "cf_id c = x"
    using assms by (auto simp: live_window_def)
  from max_by_mem [OF c(1)] c(2) show ?thesis by (auto simp: live_windows_def)
qed

lemma standing_confirmation_stands:
  assumes "standing_confirmation op p (op_mode op) sf now s = (Inr (Some x), t)"
  shows "stands op p (sf_id_hash sf) now x s t \<and> sv_events t = sv_events s"
proof (cases "op_mode op")
  case Window
  then show ?thesis using assms live_window_mem
    by (fastforce simp: standing_confirmation_def stands_def readP_def Let_def)
next
  case AlwaysAsk
  let ?who = "pn_subject (ca_principal (pr_caller p))"
  have t: "t = s\<lparr>sv_step_up := snd (consume_action (sf_id_hash sf) ?who (pr_digest p) now (sv_step_up s))\<rparr>"
      and x: "fst (consume_action (sf_id_hash sf) ?who (pr_digest p) now (sv_step_up s)) = Some x"
    using assms AlwaysAsk by (auto simp: standing_confirmation_def on_step_up_def Let_def case_prod_beta)
  show ?thesis
    by (rule consume_action_cases [of "sf_id_hash sf" ?who "pr_digest p" now "sv_step_up s"])
      (use t x AlwaysAsk in \<open>auto simp: stands_def Let_def list_ex_iff\<close>)
qed

lemma step_up_require_ok:
  assumes "step_up_require env replay op p sm s = (Inr c, t)"
  shows "\<exists>x. c = Some x \<and> sv_events t = sv_events s
    \<and> (case replay of
         Some a \<Rightarrow> x = ra_confirmation_id a \<and> replay_satisfies a op p sm \<and> t = s
       | None \<Rightarrow> is_browser_session (pr_caller p) \<and> usable_passkeys s (pn_subject (ca_principal (pr_caller p))) \<noteq> []
           \<and> (\<exists>sf. ca_session (pr_caller p) = Some sf \<and> stands op p (sf_id_hash sf) (se_clock env s) x s t))"
proof (cases replay)
  case (Some a)
  then show ?thesis using assms
    by (auto simp: step_up_require_def Let_def bindP_ok now_ms_def readP_def returnP_def split: if_splits)
next
  case None
  then obtain sf where sf: "is_browser_session (pr_caller p)" "ca_session (pr_caller p) = Some sf"
      "require_browser env op p sm (op_mode op) sf (se_clock env s) s = (Inr c, t)"
    using assms by (auto simp: step_up_require_def Let_def bindP_ok now_ms_def readP_def op_mode_def split: if_splits option.splits)
  obtain x where x: "c = Some x" "usable_passkeys s (pn_subject (ca_principal (pr_caller p))) \<noteq> []"
      "standing_confirmation op p (op_mode op) sf (se_clock env s) s = (Inr (Some x), t)"
    by (rule require_browser_ok [OF sf(3)])
  then show ?thesis using standing_confirmation_stands [OF x(3)] sf None by auto
qed

lemma op_event_ok:
  "op_event env replay kind op p target detail now s = (r, t) \<Longrightarrow>
    \<exists>e. r = Inr e \<and> ev_kind e = kind \<and> ev_op e = Some (op_id op) \<and> ev_target e = Some target \<and> ev_detail e = detail
      \<and> ev_subject e = pn_subject (ca_principal (pr_caller p)) \<and> ev_org e = pr_org p
      \<and> sv_events t = sv_events s \<and> sv_step_up t = sv_step_up s \<and> sv_passkeys t = sv_passkeys s \<and> sv_challenges t = sv_challenges s"
  by (auto simp: op_event_def new_event_def bindP_def draw_def returnP_def)


definition amy_key :: passkey where
  "amy_key = \<lparr>pk_id = ''k'', pk_principal = ''amy'', pk_credential_id = ''cred'', pk_public_key_cose = ''pub'', pk_alg = -7, pk_sign_count = 4,
     pk_label = ''key'', pk_transports = [], pk_aaguid = None, pk_backup_eligible = False, pk_backup_state = False, pk_created_at = 0,
     pk_created_session_hash = ''h'', pk_last_used_at = None, pk_clone_suspected_at = None, pk_user_handle = None\<rparr>"

definition amy_confirmed :: service where
  "amy_confirmed = \<lparr>sv_passkeys = \<lparr>ps_rows = [(''k'', amy_key)], ps_handles = []\<rparr>, sv_challenges = [],
     sv_step_up = \<lparr>su_confirmations = [\<lparr>cf_id = ''c1'', cf_principal = ''amy'', cf_session_hash = ''h'', cf_passkey_id = ''k'', cf_kind = KAction,
        cf_action_digest = Some ''digest'', cf_request_id = None, cf_confirmed_at = 10, cf_expires_at = 300010, cf_consumed_at = None\<rparr>],
        su_requests = [], su_failing_revokes = False\<rparr>,
     sv_events = \<lparr>el_events = [], el_rbac = None, el_failing = False\<rparr>, sv_limiter = empty_limiter, sv_drawn = 0\<rparr>"

definition plain_env :: step_up_env where
  "plain_env = \<lparr>se_clock = \<lambda>_. 20, se_random_id = nat_str, se_nonce = nat_str, se_sha256 = id, se_seal = \<lambda>x _. Inr x,
     se_sealed_request = \<lambda>b _. b, se_ui_url = ''https://ci''\<rparr>"

definition put_secret :: operation where
  "put_secret = \<lparr>op_id = ''secret.put'', op_label = ''Write a secret'', op_cls = CrownJewel AlwaysAsk, op_min_role = Some Admin, op_org_of = OrgNone,
     op_project_of = ProjectNone, op_redact = [], op_describe = \<lambda>_. \<lparr>sm_operation = ''Write a secret'', sm_target = ''S'', sm_changes = []\<rparr>,
     op_machine = Requestable, op_max_request_body = 65536\<rparr>"

definition amy_request :: prepared where
  "amy_request = \<lparr>pr_caller = \<lparr>ca_principal = \<lparr>pn_subject = ''amy'', pn_display_name = None, pn_roles = [Owner]\<rparr>, ca_grant = None,
        ca_via = Some Cookie, ca_session = Some \<lparr>sf_id = ''s'', sf_id_hash = ''h'', sf_fresh_login_until = None\<rparr>\<rparr>,
     pr_org = None, pr_requested_scope = None, pr_summary = \<lparr>sm_operation = ''Write a secret'', sm_target = ''S'', sm_changes = []\<rparr>,
     pr_digest = ''digest'', pr_method = ''POST'', pr_path = ''/v1/secrets'', pr_query = [], pr_body = []\<rparr>"


end
