(* ===== verification/Step_Up_Guard.thy ===== *)
theory Step_Up_Guard
  imports Step_Up
begin

text \<open>
  The guard on every route (\<^verbatim>\<open>scarab-server/src/step_up/guard.rs\<close>): the classification of the request, its
  preparation and the order of authentication, confirmation and handler; and the caller a replayed request runs
  as (\<^verbatim>\<open>requests.rs\<close>). The handler behind the guard is an argument. JSON pointers, the HMAC under the digest key,
  parsing and printing JSON, the tenant of a run and the organisation of a forge connection are fields of an
  environment, as the guard reads them once. The debug build's panic for a handler that did not ask is not
  modelled: the release build is.
\<close>

section \<open>The caller of a replay\<close>

definition replay_caller :: "replay_authority \<Rightarrow> int \<Rightarrow> auth_env \<Rightarrow> api_error + caller" where
  "replay_caller a now ae =
     (case ra_requester a of
        ReplayApiToken x \<Rightarrow>
          (case Option.bind (ae_tokens ae) (\<lambda>m. token_by_id m x) of
             None \<Rightarrow> Inl Unauthorized
           | Some t \<Rightarrow>
               (if \<not> token_is_live t now \<or> tk_owner_subject t \<noteq> ra_for_human a then Inl Unauthorized
                else Inr \<lparr>ca_principal = \<lparr>pn_subject = tk_owner_subject t,
                             pn_display_name = Some (''API token '' @ [CHR 0xE2, CHR 0x80, CHR 0x9C] @ tk_name t @ [CHR 0xE2, CHR 0x80, CHR 0x9D]),
                             pn_roles = token_owner_roles ae (tk_owner_subject t)\<rparr>,
                          ca_grant = Some t, ca_via = Some Bearer, ca_session = None\<rparr>))
      | ReplayBearerSession sid \<Rightarrow>
          (case Option.bind (ae_sessions ae) (\<lambda>m. session_get (ae_sha256_hex ae) m sid) of
             None \<Rightarrow> Inl Unauthorized
           | Some s \<Rightarrow>
               (if \<not> session_is_valid s now \<or> pn_subject (sn_principal s) \<noteq> ra_for_human a then Inl Unauthorized
                else Inr \<lparr>ca_principal = \<lparr>pn_subject = pn_subject (sn_principal s), pn_display_name = pn_display_name (sn_principal s),
                             pn_roles = filter (\<lambda>r. case ra_role_cap a of None \<Rightarrow> False | Some cap \<Rightarrow> r \<le> cap)
                               (token_owner_roles ae (ra_for_human a))\<rparr>,
                          ca_grant = None, ca_via = Some Bearer,
                          ca_session = Some \<lparr>sf_id = sid, sf_id_hash = ae_sha256_hex ae (sn_id s), sf_fresh_login_until = None\<rparr>\<rparr>)))"

definition guard_authenticate :: "replay_authority option \<Rightarrow> headers \<Rightarrow> bool \<Rightarrow> int \<Rightarrow> auth_env \<Rightarrow> (api_error + caller) \<times> auth_env" where
  "guard_authenticate replay h first now ae =
     (case replay of Some a \<Rightarrow> (replay_caller a now ae, ae) | None \<Rightarrow> authenticate h Write first now ae)"

section \<open>The request\<close>

record http_request =
  hr_method :: string
  hr_matched :: "string option"
  hr_path :: string
  hr_query :: string
  hr_headers :: headers
  hr_body :: string

record route_entry =
  re_method :: string
  re_path :: string
  re_op :: operation

record guard_env =
  ge_step_up :: step_up_env
  ge_digest :: "string \<Rightarrow> string"
  ge_pointer :: "json \<Rightarrow> string \<Rightarrow> json option"
  ge_pointer_set :: "string \<Rightarrow> json \<Rightarrow> json \<Rightarrow> json"
  ge_parse_json :: "string \<Rightarrow> string + json"
  ge_json_str :: "json \<Rightarrow> string"
  ge_utf8_lossy :: "string \<Rightarrow> string"
  ge_run_tenant :: "string \<Rightarrow> (string \<times> string) option"
  ge_connection_org :: "string \<Rightarrow> string option"

definition GUARD_BODY_LIMIT :: nat where "GUARD_BODY_LIMIT = 2 * 1024 * 1024"

definition HIDDEN :: string where "HIDDEN = ''(hidden)''"

definition redact :: "guard_env \<Rightarrow> json \<Rightarrow> string list \<Rightarrow> json" where
  "redact ge body ptrs = fold (\<lambda>ptr out. case ge_pointer ge out ptr of None \<Rightarrow> out | Some _ \<Rightarrow> ge_pointer_set ge ptr (JStr HIDDEN) out) ptrs body"

definition body_str :: "guard_env \<Rightarrow> json \<Rightarrow> string \<Rightarrow> string option" where
  "body_str ge body ptr = Option.bind (ge_pointer ge body ptr) json_as_str"

definition org_scope :: "guard_env \<Rightarrow> operation \<Rightarrow> (string \<times> string) list \<Rightarrow> (string \<times> string) list \<Rightarrow> json \<Rightarrow> scope option" where
  "org_scope ge op params query body =
     (case op_org_of op of
        OrgRun \<Rightarrow> Option.bind (map_of params ''id'') (\<lambda>x. map_option (\<lambda>(org, name). SProject org name) (ge_run_tenant ge x))
      | OrgConnection \<Rightarrow> Option.bind (map_of params ''id'') (\<lambda>x. map_option SOrg (ge_connection_org ge x))
      | OrgPath name \<Rightarrow> map_option SOrg (map_of params name)
      | OrgQuery name \<Rightarrow> map_option SOrg (map_of query name)
      | OrgBody ptr \<Rightarrow> map_option SOrg (body_str ge body ptr)
      | OrgNone \<Rightarrow> None)"

definition project_name :: "guard_env \<Rightarrow> operation \<Rightarrow> (string \<times> string) list \<Rightarrow> (string \<times> string) list \<Rightarrow> json \<Rightarrow> string option" where
  "project_name ge op params query body =
     (case op_project_of op of
        ProjectNone \<Rightarrow> None
      | ProjectPath name \<Rightarrow> map_of params name
      | ProjectQuery name \<Rightarrow> map_of query name
      | ProjectBody ptr \<Rightarrow> body_str ge body ptr)"

definition requested_scope :: "guard_env \<Rightarrow> operation \<Rightarrow> (string \<times> string) list \<Rightarrow> (string \<times> string) list \<Rightarrow> json \<Rightarrow> scope option" where
  "requested_scope ge op params query body =
     (case org_scope ge op params query body of
        None \<Rightarrow> None
      | Some (SProject org name) \<Rightarrow> Some (SProject org name)
      | Some (SOrg org) \<Rightarrow>
          (if org = [] then None
           else Some (case project_name ge op params query body of Some name \<Rightarrow> SProject org name | None \<Rightarrow> SOrg org)))"

definition holds_role_in :: "auth_env \<Rightarrow> caller \<Rightarrow> string \<Rightarrow> bool" where
  "holds_role_in ae c org =
     (if list_ex (\<lambda>r. r > Viewer) (pn_roles (ca_principal c)) then True
      else case ae_rbac ae of None \<Rightarrow> False | Some rb \<Rightarrow> list_ex (\<lambda>x. x = org) (store_orgs_of rb (pn_subject (ca_principal c))))"

definition reaches_min_role :: "auth_env \<Rightarrow> caller \<Rightarrow> operation \<Rightarrow> bool" where
  "reaches_min_role ae c op =
     (case op_min_role op of
        None \<Rightarrow> True
      | Some least \<Rightarrow>
          (let bound = (case ae_rbac ae of None \<Rightarrow> None | Some rb \<Rightarrow> store_max_role rb (pn_subject (ca_principal c)));
               live = max_opt (max_of (pn_roles (ca_principal c))) bound;
               effective = (case ca_grant c of Some t \<Rightarrow> effective_role t live | None \<Rightarrow> live)
           in case effective of None \<Rightarrow> False | Some r \<Rightarrow> r \<ge> least))"

definition prepare :: "guard_env \<Rightarrow> auth_env \<Rightarrow> operation \<Rightarrow> string \<Rightarrow> http_request \<Rightarrow> caller \<Rightarrow> json option \<Rightarrow> prepared" where
  "prepare ge ae op pattern req c json =
     (let params = path_params (ge_utf8_lossy ge) pattern (hr_path req);
          query = sorted_query (ge_utf8_lossy ge) (hr_query req);
          digest = ge_digest ge (canonical_form (ge_json_str ge) (hr_method req) (hr_path req) query (hr_body req) json);
          body = (case json of Some v \<Rightarrow> v | None \<Rightarrow> JNull);
          sc = requested_scope ge op params query body;
          org = (case sc of None \<Rightarrow> None | Some x \<Rightarrow> if scope_org_of x \<noteq> [] \<and> holds_role_in ae c (scope_org_of x) then Some (scope_org_of x) else None)
      in \<lparr>pr_caller = c, pr_org = org, pr_requested_scope = sc,
          pr_summary = op_describe op \<lparr>in_method = hr_method req, in_path = hr_path req, in_params = params, in_query = query,
                                       in_body = redact ge body (op_redact op)\<rparr>,
          pr_digest = digest, pr_method = hr_method req, pr_path = hr_path req, pr_query = hr_query req, pr_body = hr_body req\<rparr>)"

section \<open>The guard\<close>

datatype ticket = Unresolved | TExempt string | TAuthorised "string option"

text \<open>The context a handler is given: \<open>None\<close> when step-up is off. It answers with a status and the ticket it leaves.\<close>

record guard_ctx =
  gc_op :: operation
  gc_prepared :: "prepared option"
  gc_ticket :: ticket

text \<open>A conditional handler's question: the loosenings, when there are some, are what the human confirms.\<close>

definition ctx_require :: "step_up_env \<Rightarrow> replay_authority option \<Rightarrow> guard_ctx \<Rightarrow> string list \<Rightarrow> ticket sprog" where
  "ctx_require env replay ctx loosenings =
     (case gc_prepared ctx of
        None \<Rightarrow> returnP (TExempt ''step-up is off'')
      | Some p \<Rightarrow>
          (let sm = (if loosenings = [] then pr_summary p else (pr_summary p)\<lparr>sm_changes := loosenings\<rparr>)
           in bindP (authorise env replay (gc_op ctx) p sm) (\<lambda>c. returnP (TAuthorised c))))"

definition ctx_exempt :: "string \<Rightarrow> ticket" where
  "ctx_exempt why = TExempt why"

definition ctx_confirmation_id :: "guard_ctx \<Rightarrow> string option" where
  "ctx_confirmation_id ctx = (case gc_ticket ctx of TAuthorised c \<Rightarrow> c | _ \<Rightarrow> None)"

type_synonym handler = "guard_ctx option \<Rightarrow> service \<Rightarrow> (nat \<times> ticket) \<times> service"

datatype response = Handled nat | Refused guard_error | Status nat

definition is_success :: "nat \<Rightarrow> bool" where
  "is_success status = (200 \<le> status \<and> status < 300)"

definition status_json :: "nat \<Rightarrow> json" where
  "status_json status = JObj [(''status'', JInt (int status))]"

text \<open>A best-effort event after the handler: whatever it does, the response stands.\<close>

definition afterwards :: "guard_env \<Rightarrow> replay_authority option \<Rightarrow> string \<Rightarrow> operation \<Rightarrow> prepared \<Rightarrow> string option \<Rightarrow> nat \<Rightarrow> service \<Rightarrow> service" where
  "afterwards ge replay kind op p confirmation status s =
     snd (bindP (now_ms (ge_step_up ge)) (\<lambda>now.
          bindP (op_event (ge_step_up ge) replay kind op p (sm_target (pr_summary p)) (status_json status) now) (\<lambda>e.
          record_event (e\<lparr>ev_confirmation_id := confirmation\<rparr>))) s)"

definition completed :: "guard_env \<Rightarrow> replay_authority option \<Rightarrow> operation \<Rightarrow> prepared \<Rightarrow> string option \<Rightarrow> nat \<Rightarrow> service \<Rightarrow> service" where
  "completed ge replay op p confirmation status s = afterwards ge replay ''op.completed'' op p confirmation status s"

definition tripwire :: "guard_env \<Rightarrow> replay_authority option \<Rightarrow> operation \<Rightarrow> prepared \<Rightarrow> ticket \<Rightarrow> nat \<Rightarrow> service \<Rightarrow> service" where
  "tripwire ge replay op p tk status s =
     (if \<not> is_success status \<or> tk \<noteq> Unresolved then s else afterwards ge replay ''guard.not_consulted'' op p None status s)"

definition governed_read :: "route_entry list \<Rightarrow> string \<Rightarrow> string option \<Rightarrow> bool" where
  "governed_read table verb matched =
     (verb \<noteq> ''OPTIONS'' \<and>
      (case matched of
         None \<Rightarrow> False
       | Some m \<Rightarrow> list_ex (\<lambda>e. re_method e = ''GET'' \<and> re_path e = m \<and> (case op_cls (re_op e) of CrownJewel _ \<Rightarrow> True | _ \<Rightarrow> False)) table))"

definition route_of :: "route_entry list \<Rightarrow> string \<Rightarrow> string option \<Rightarrow> route_entry option" where
  "route_of table verb matched =
     (let lookup = (if verb = ''HEAD'' then ''GET'' else verb) in
      case matched of None \<Rightarrow> None | Some m \<Rightarrow> List.find (\<lambda>e. re_method e = lookup \<and> re_path e = m) table)"

definition is_conditional :: "operation \<Rightarrow> bool" where
  "is_conditional op = (case op_cls op of Conditional _ _ \<Rightarrow> True | _ \<Rightarrow> False)"

definition untouched :: "handler \<Rightarrow> service \<Rightarrow> response \<times> service" where
  "untouched next' s = (let ((status, _), s') = next' None s in (Handled status, s'))"

definition run_conditional :: "guard_env \<Rightarrow> replay_authority option \<Rightarrow> operation \<Rightarrow> prepared \<Rightarrow> handler \<Rightarrow> service \<Rightarrow> response \<times> service" where
  "run_conditional ge replay op p next' s =
     (let ((status, tk), s1) = next' (Some \<lparr>gc_op = op, gc_prepared = Some p, gc_ticket = Unresolved\<rparr>) s;
          s2 = tripwire ge replay op p tk status s1
      in (Handled status, case tk of TAuthorised c \<Rightarrow> completed ge replay op p c status s2 | _ \<Rightarrow> s2))"

definition run_crown_jewel :: "guard_env \<Rightarrow> replay_authority option \<Rightarrow> operation \<Rightarrow> prepared \<Rightarrow> handler \<Rightarrow> service \<Rightarrow> response \<times> service" where
  "run_crown_jewel ge replay op p next' s =
     (case authorise (ge_step_up ge) replay op p (pr_summary p) s of
        (Inl e, s1) \<Rightarrow> (Refused e, s1)
      | (Inr c, s1) \<Rightarrow>
          (let ((status, _), s2) = next' (Some \<lparr>gc_op = op, gc_prepared = Some p, gc_ticket = TAuthorised c\<rparr>) s1
           in (Handled status, completed ge replay op p c status s2)))"

definition guard_enforced ::
  "guard_env \<Rightarrow> replay_authority option \<Rightarrow> bool \<Rightarrow> int \<Rightarrow> operation \<Rightarrow> string \<Rightarrow> http_request \<Rightarrow> handler \<Rightarrow> auth_env \<Rightarrow> service
   \<Rightarrow> response \<times> auth_env \<times> service" where
  "guard_enforced ge replay first now op pattern req next' ae s =
     (if length (hr_body req) > GUARD_BODY_LIMIT then (Status 413, ae, s)
      else case guard_authenticate replay (hr_headers req) first now ae of
        (Inl e, ae1) \<Rightarrow> (Refused (AuthError e), ae1, s)
      | (Inr c, ae1) \<Rightarrow>
          (if \<not> is_conditional op \<and> \<not> reaches_min_role ae1 c op
           then (let (r, s1) = untouched next' s in (r, ae1, s1))
           else
             (case (if hr_body req = [] then Inr None else map_sum id Some (ge_parse_json ge (hr_body req))) of
                Inl _ \<Rightarrow> (Status 400, ae1, s)
              | Inr json \<Rightarrow>
                  (let p = prepare ge ae1 op pattern req c json;
                       (r, s1) = (if is_conditional op then run_conditional ge replay op p next' s else run_crown_jewel ge replay op p next' s)
                   in (r, ae1, s1)))))"

definition guard_with ::
  "route_entry list \<Rightarrow> bool \<Rightarrow> guard_env \<Rightarrow> replay_authority option \<Rightarrow> bool \<Rightarrow> int \<Rightarrow> http_request \<Rightarrow> handler \<Rightarrow> auth_env \<Rightarrow> service
   \<Rightarrow> response \<times> auth_env \<times> service" where
  "guard_with table enforced ge replay first now req next' ae s =
     (let pass = (let (r, s1) = untouched next' s in (r, ae, s1)) in
      if hr_method req \<in> {''GET'', ''HEAD'', ''OPTIONS''} \<and> \<not> governed_read table (hr_method req) (hr_matched req) then pass
      else case route_of table (hr_method req) (hr_matched req) of
        None \<Rightarrow> (Status 500, ae, s)
      | Some e \<Rightarrow>
          (case op_cls (re_op e) of
             CrownJewel _ \<Rightarrow>
               (if enforced then guard_enforced ge replay first now (re_op e) (case hr_matched req of Some m \<Rightarrow> m | None \<Rightarrow> []) req next' ae s
                else pass)
           | Conditional _ _ \<Rightarrow>
               (if enforced then guard_enforced ge replay first now (re_op e) (case hr_matched req of Some m \<Rightarrow> m | None \<Rightarrow> []) req next' ae s
                else (let ((status, _), s1) = next' (Some \<lparr>gc_op = re_op e, gc_prepared = None, gc_ticket = Unresolved\<rparr>) s in (Handled status, ae, s1)))
           | _ \<Rightarrow> pass))"

section \<open>What the guard lets through\<close>

lemma guard_governed:
  assumes "route_of table (hr_method req) (hr_matched req) = Some e" "op_cls (re_op e) = CrownJewel m"
    "hr_method req \<notin> {''GET'', ''HEAD'', ''OPTIONS''} \<or> governed_read table (hr_method req) (hr_matched req)"
  shows "guard_with table True ge replay first now req next' ae s =
    guard_enforced ge replay first now (re_op e) (case hr_matched req of Some x \<Rightarrow> x | None \<Rightarrow> []) req next' ae s"
  using assms by (auto simp: guard_with_def Let_def)

definition readable :: "guard_env \<Rightarrow> http_request \<Rightarrow> json option \<Rightarrow> bool" where
  "readable ge req json = ((hr_body req = [] \<and> json = None) \<or> (\<exists>v. hr_body req \<noteq> [] \<and> ge_parse_json ge (hr_body req) = Inr v \<and> json = Some v))"

lemma guard_enforced_cases:
  assumes "\<not> is_conditional op" "guard_enforced ge replay first now op pattern req next' ae s = (r, ae', s')"
  obtains (refused) "\<And>h. guard_enforced ge replay first now op pattern req h ae s = (r, ae', s')" "\<And>status. r \<noteq> Handled status"
  | (too_low) c where "guard_authenticate replay (hr_headers req) first now ae = (Inr c, ae')" "\<not> reaches_min_role ae' c op"
      "untouched next' s = (r, s')"
  | (asked) c json where "guard_authenticate replay (hr_headers req) first now ae = (Inr c, ae')" "reaches_min_role ae' c op" "readable ge req json"
      "run_crown_jewel ge replay op (prepare ge ae' op pattern req c json) next' s = (r, s')"
proof (cases "length (hr_body req) > GUARD_BODY_LIMIT")
  case True
  then show thesis using assms(2) by (intro refused) (auto simp: guard_enforced_def)
next
  case False
  note body = False
  obtain who ae1 where auth: "guard_authenticate replay (hr_headers req) first now ae = (who, ae1)" by fastforce
  show thesis
  proof (cases who)
    case (Inl e)
    then show thesis using assms(2) auth body by (intro refused) (auto simp: guard_enforced_def)
  next
    case (Inr c)
    show thesis
    proof (cases "reaches_min_role ae1 c op")
      case False
      then show thesis using assms auth body Inr by (intro too_low [of c]) (auto simp: guard_enforced_def split: prod.splits)
    next
      case True
      show thesis
      proof (cases "if hr_body req = [] then Inr None else map_sum id Some (ge_parse_json ge (hr_body req))")
        case (Inl msg)
        then show thesis using assms auth body \<open>who = Inr c\<close> True by (intro refused) (auto simp: guard_enforced_def)
      next
        case (Inr json)
        have "readable ge req json" using Inr by (cases "ge_parse_json ge (hr_body req)") (auto simp: readable_def split: if_splits)
        then show thesis using assms auth body \<open>who = Inr c\<close> True Inr by (intro asked [of c json]) (auto simp: guard_enforced_def Let_def split: prod.splits)
      qed
    qed
  qed
qed

lemma run_crown_jewel_cases:
  assumes "run_crown_jewel ge replay op p next' s = (r, s')"
  obtains (refused) err where "authorise (ge_step_up ge) replay op p (pr_summary p) s = (Inl err, s')" "r = Refused err"
  | (ran) x s1 status tk s2 where "authorise (ge_step_up ge) replay op p (pr_summary p) s = (Inr x, s1)"
      "next' (Some \<lparr>gc_op = op, gc_prepared = Some p, gc_ticket = TAuthorised x\<rparr>) s1 = ((status, tk), s2)"
      "r = Handled status" "s' = completed ge replay op p x status s2"
proof -
  obtain res s1 where a: "authorise (ge_step_up ge) replay op p (pr_summary p) s = (res, s1)" by fastforce
  show thesis
  proof (cases res)
    case (Inl err)
    then show thesis using assms a by (intro refused [of err]) (auto simp: run_crown_jewel_def)
  next
    case (Inr x)
    obtain status tk s2 where "next' (Some \<lparr>gc_op = op, gc_prepared = Some p, gc_ticket = TAuthorised x\<rparr>) s1 = ((status, tk), s2)"
      by (metis surj_pair)
    then show thesis using assms a Inr by (intro ran [of x s1 status tk s2]) (auto simp: run_crown_jewel_def)
  qed
qed

text \<open>A refused confirmation ends the request, whatever the handler would do.\<close>

lemma unconfirmed_not_run:
  assumes "\<not> is_conditional op" "guard_enforced ge replay first now op pattern req next' ae s = (Refused err, ae', s')"
    "guard_authenticate replay (hr_headers req) first now ae = (Inr c, ae')" "reaches_min_role ae' c op" "readable ge req json"
    "authorise (ge_step_up ge) replay op (prepare ge ae' op pattern req c json) (pr_summary (prepare ge ae' op pattern req c json)) s = (Inl err, s')"
  shows "guard_enforced ge replay first now op pattern req h ae s = (Refused err, ae', s')"
proof -
  have "\<not> length (hr_body req) > GUARD_BODY_LIMIT" using assms(2) by (auto simp: guard_enforced_def)
  moreover have "run_crown_jewel ge replay op (prepare ge ae' op pattern req c json) h s = (Refused err, s')"
    using assms(6) by (simp add: run_crown_jewel_def)
  ultimately show ?thesis using assms(1,3-5) by (auto simp: guard_enforced_def readable_def)
qed


definition amy_env :: auth_env where
  "amy_env = \<lparr>ae_sessions = Some [(''h'', \<lparr>sn_id = [], sn_principal = \<lparr>pn_subject = ''amy'', pn_display_name = None, pn_roles = [Owner]\<rparr>,
        sn_expires_at = 1000, sn_csrf_hash = ''h'', sn_created_at = 0, sn_login_kind = ''api''\<rparr>)],
     ae_tokens = None, ae_token_uses = [], ae_rbac = None, ae_identities = None, ae_owners = [], ae_sha256_hex = \<lambda>_. ''h''\<rparr>"

definition plain_guard :: guard_env where
  "plain_guard = \<lparr>ge_step_up = plain_env, ge_digest = \<lambda>_. ''digest'', ge_pointer = \<lambda>_ _. None, ge_pointer_set = \<lambda>_ v _. v,
     ge_parse_json = \<lambda>_. Inl [], ge_json_str = \<lambda>_. [], ge_utf8_lossy = id, ge_run_tenant = \<lambda>_. None, ge_connection_org = \<lambda>_. None\<rparr>"

definition put_route :: route_entry where
  "put_route = \<lparr>re_method = ''POST'', re_path = ''/v1/secrets'', re_op = put_secret\<rparr>"

definition put_request :: http_request where
  "put_request = \<lparr>hr_method = ''POST'', hr_matched = Some ''/v1/secrets'', hr_path = ''/v1/secrets'', hr_query = [],
     hr_headers = \<lparr>hd_authorization = None, hd_cookie = Some ''scarab_session=s'', hd_csrf = Some ''t''\<rparr>, hr_body = []\<rparr>"

definition no_content :: handler where
  "no_content ctx s = ((204, Unresolved), s)"


end
