(* ===== verification/Spec2Isabelle.thy ===== *)
theory Spec2Isabelle
  imports Launch_Laws Governance_Laws Environment_Rules Policy_Eval_Laws Step_Up_Guard
begin

text \<open>
  \<^bold>\<open>The engine core, the policy layer and the guard of scarab-ci\<close>

  scarab-ci is a durable CI engine. A \<^emph>\<open>run\<close> is a graph of \<^emph>\<open>steps\<close>; each step is executed by numbered
  \<^emph>\<open>attempts\<close>; \<^emph>\<open>gates\<close> are steps that wait for a person, a timer or a plugin. All state lives in a durable
  store reached through one port; any number of scheduler replicas and API requests work on it at
  once through compare-and-swap transactions, a leader lease with terms, and a transactional outbox
  that carries every effect on the execution backend. This development models that core
  (\<^verbatim>\<open>src/crates/scarab-engine\<close> and the in-process store of \<^verbatim>\<open>src/crates/scarab-testkit\<close>), the rules that decide
  what may run (\<^verbatim>\<open>src/crates/scarab-policy\<close>, the environments of \<^verbatim>\<open>src/crates/scarab-project\<close>), and proves what
  makes them correct. The engine and the policies meet at run creation, at gate release and at launch, where the engine asks
  the policy layer for a decision; who may ask is decided by roles, sessions and tokens, and what a person must
  confirm with a passkey by the step-up guard (\<^verbatim>\<open>src/crates/scarab-identity\<close>, \<^verbatim>\<open>src/crates/scarab-server\<close>).

  \<^bold>\<open>The parts and their theories\<close>

  \<^item> \<^verbatim>\<open>Prelude\<close>: i64 and u64 arithmetic (saturating, wrapping), decimal printing and parsing, association
    lists for the store's tables, and programs \<open>(store, error, value) prog\<close>: a function from a store to a
    result and a store, with \<open>bindP\<close>, \<open>commitP\<close> (one transaction) and \<open>forP\<close>.
  \<^item> \<^verbatim>\<open>Engine_Types\<close>: the data of \<^verbatim>\<open>scarab-engine/src/lib.rs\<close>: statuses, attempts, steps, runs, services,
    event payloads, outbox messages, errors.
  \<^item> \<^verbatim>\<open>State_Machine\<close>: \<^verbatim>\<open>Run::transition\<close> and the operations of \<^verbatim>\<open>StepRun\<close>; bounded progress and replay of
    the journal.
  \<^item> \<^verbatim>\<open>Workspace_Inputs\<close>: consumed inputs, input signatures, cache keys and scopes. SHA-256 is a function
    parameter.
  \<^item> \<^verbatim>\<open>Invalidation\<close>, \<^verbatim>\<open>Rerun_Plan\<close>: \<^verbatim>\<open>invalidation_set\<close> and \<^verbatim>\<open>plan_rerun_over\<close>; the plan is the least set that is
    closed and whose boundary is available, in topological order. The snapshot probe is a parameter.
  \<^item> \<^verbatim>\<open>Gate_Log\<close>: what the scheduler reads back from the event log: approvers, the start of a wait, the
    verdict of a gate, suspension, the active time of a run.
  \<^item> \<^verbatim>\<open>Store\<close>, \<^verbatim>\<open>Store_Laws\<close>: the tables of \<^verbatim>\<open>InMemoryDb\<close> and the port's operations; leader fencing, histories
    of compare-and-swap commits, exactly-once outbox keys, exclusive claims.
  \<^item> \<^verbatim>\<open>Commits\<close>: every transaction the scheduler issues, with its events, stamps, intents and keys.
  \<^item> \<^verbatim>\<open>Interleaving\<close>, \<^verbatim>\<open>System\<close>: the transactions as a step relation over configurations (the store, the
    snapshots any actor has read, the attempts settled), so that every actor may act on stale
    reads; \<open>reachable\<close> configurations satisfy \<open>cfg_ok\<close>, by rule induction. One live attempt per step,
    complete and safe teardown, one launch per attempt, final verdicts.
  \<^item> \<^verbatim>\<open>Requests\<close>, \<^verbatim>\<open>Request_Laws\<close>, \<^verbatim>\<open>Rerun_Laws\<close>, \<^verbatim>\<open>Gate_Requests\<close>: the API handlers (rerun, retry, release,
    reject, approve, cancel) as programs; each follows the step relation, and the effect and every
    answer of each is stated.
  \<^item> \<^verbatim>\<open>Settle\<close>: \<^verbatim>\<open>settle_failed_attempt\<close>, \<^verbatim>\<open>succeed_step\<close>, the retry policy from the stored IR.
  \<^item> \<^verbatim>\<open>Passes\<close>, \<^verbatim>\<open>Pass_Laws\<close>: the passes over one run: \<^verbatim>\<open>advance\<close>, \<^verbatim>\<open>cancel_run\<close>, \<^verbatim>\<open>dead_letter_run\<close>,
    \<^verbatim>\<open>enforce_run_budget\<close>, \<^verbatim>\<open>settle_unneeded_gates\<close>, \<^verbatim>\<open>teardown_services\<close>.
  \<^item> \<^verbatim>\<open>Teardown\<close>: the drain of teardown messages and its poison ceiling.
  \<^item> \<^verbatim>\<open>Admission\<close>, \<^verbatim>\<open>Admission_Laws\<close>: the lease leg, the evaluation of waiting gates, starting a run under
    its caps and its slot, admission of steps, the sweep of unfinished creations, the failure streak
    of a run.
  \<^item> \<^verbatim>\<open>Services\<close>: \<^verbatim>\<open>reconcile_services\<close>: shared services are launched, polled until ready, and retired with
    their run; a consumer whose service failed is failed with it.
  \<^item> \<^verbatim>\<open>Launch\<close>, \<^verbatim>\<open>Launch_Laws\<close>: the drain of launch intents: launch or adopt, the stamps on the attempt, the
    keyed cache, polling, the evidence a unit leaves, settlement, poison messages.
  \<^item> \<^verbatim>\<open>Glob\<close>: the two glob matchers (\<^verbatim>\<open>policy.rs\<close>, \<^verbatim>\<open>scarab-project/src/lib.rs\<close>) and the meaning they decide.
  \<^item> \<^verbatim>\<open>Governance\<close>, \<^verbatim>\<open>Governance_Laws\<close>: environment protection, overlays, eligibility, privilege grants, and the
    report of loosenings that decides whether an edit needs a step-up: an edit that reports none widens
    nothing; the migration of legacy environments keeps every decision.
  \<^item> \<^verbatim>\<open>Approval_Gate\<close>, \<^verbatim>\<open>Approval_Gate_Laws\<close>, \<^verbatim>\<open>Environment_Rules\<close>: the approval gate of an environment: which
    steps need one upstream, adding one, when it releases, the re-check at launch.
  \<^item> \<^verbatim>\<open>Policy\<close>, \<^verbatim>\<open>Policy_Schema\<close>: policies, their wire shape and matching; the input schemas of the three
    checkpoints, size caps, and the binding of an input to typed CEL variables.
  \<^item> \<^verbatim>\<open>Cel_Text\<close>, \<^verbatim>\<open>Policy_Check\<close>, \<^verbatim>\<open>Policy_Check_Laws\<close>: the static checker of CEL rules, sound for a declarative
    typing with exact worst-case costs.
  \<^item> \<^verbatim>\<open>Policy_Compile\<close>, \<^verbatim>\<open>Policy_Eval\<close>, \<^verbatim>\<open>Policy_Eval_Laws\<close>: compilation of stored policies and the evaluator: it
    fails closed, audit mode changes nothing, plugin gates are closed by default.
  \<^item> \<^verbatim>\<open>Identity\<close>: principals, roles and scopes of \<^verbatim>\<open>scarab-identity\<close>, with the in-process stores of role
    bindings, sessions, API tokens and provider identities: native bindings are authoritative over forge
    imports, and an account that signs in never becomes another principal.
  \<^item> \<^verbatim>\<open>Authentication\<close>: the caller of an API request (\<^verbatim>\<open>scarab-server/src/lib.rs\<close>): Bearer and cookie credentials,
    CSRF, API tokens narrowed to their scope, their ceiling and their owner's live role.
  \<^item> \<^verbatim>\<open>Step_Up_Store\<close>, \<^verbatim>\<open>Step_Up_Store_Laws\<close>: passkeys, challenges, confirmations, parked requests and the security
    event log. Over every sequence of operations what may be used once is used at most once, parked requests
    are bounded and lose their bodies, a flagged passkey is dead.
  \<^item> \<^verbatim>\<open>Step_Up_Limiter\<close>: the coalescing of refused operations, which loses none and bounds the log.
  \<^item> \<^verbatim>\<open>Step_Up_Digest\<close>: the canonical form of a request that a confirmation is bound to, and what it tells apart.
  \<^item> \<^verbatim>\<open>Step_Up\<close>, \<^verbatim>\<open>Step_Up_Guard\<close>: the one decision whether an operation is confirmed (\<^verbatim>\<open>step_up/mod.rs\<close>,
    \<^verbatim>\<open>requests.rs\<close>) and the guard on every route (\<^verbatim>\<open>guard.rs\<close>): a crown jewel runs only after its
    confirmation was found and recorded.

  \<^bold>\<open>Interfaces\<close>

  The loop over the steps of a run is one locale, \<open>step_loop\<close> (\<^verbatim>\<open>Request_Laws\<close>): an operation that, on a
  store in which its step is as it was read, succeeds, touches that row only and reaches a target
  row; it is interpreted for cancelling, re-arming, cancelling live steps and admitting.
  \<open>program_frame\<close> (\<^verbatim>\<open>Admission_Laws\<close>) carries a relation between stores through a program and is
  interpreted again in \<^verbatim>\<open>Launch_Laws\<close> (evidence of other attempts, other runs, calm runs);
  \<open>service_loop\<close> (\<^verbatim>\<open>Services\<close>) is the loop over the services of a run. The
  compare-and-swap histories of runs and steps are two interpretations of one locale in
  \<^verbatim>\<open>Store_Laws\<close>. \<open>glob_matcher\<close> (\<^verbatim>\<open>Glob\<close>) is the contract of both glob matchers, which the matching of policies
  and of environments rests on. \<open>single_use\<close> (\<^verbatim>\<open>Step_Up_Store_Laws\<close>) is what a challenge, an action confirmation and
  a parked request have in common: it is used at most as often as it was made.

  \<^bold>\<open>Parameters\<close>

  Clocks are functions of the store at the moment of the call: a read of the clock around a write may
  give any two values. The executor is a record of answers, about which nothing is assumed unless a
  property says so. The snapshot oracle, the renderer of plugin inputs, the rendering of an error, the
  random part of a key and the decoder's message are parameters too. In the policy layer the parser and the
  interpreter of the \<^verbatim>\<open>cel\<close> crate, regular expressions, the printing of JSON, RFC 3339 timestamps and SHA-256 are
  parameters. In the step-up layer random ids, HMAC, sealing, JSON pointers and the handler behind the guard are
  parameters. A read that the code makes in the
  middle of a handler is a \<open>readP\<close> at the same place: it sees the store of that moment.

  \<^bold>\<open>Bounds\<close>

  \<open>cancel_rounds\<close> and \<open>rearm_rounds\<close> have the code's own bound of eight rounds; between transactions of
  one handler nothing else runs, so two rounds suffice, which is part of the proof that a cancel
  settles. Loops without such a bound are structural or have a termination proof; no fuel is used
  elsewhere. Delivery attempts, retries and u32, u64 and i64 arithmetic keep the code's widths where
  they matter.

  \<^bold>\<open>Not modelled\<close>

  In the launch drain, the renewal of a claim beside the work (\<^verbatim>\<open>while_claimed\<close> checks and renews before
  the work starts; dropping the work in the middle is not modelled); the plugin path of gate release;
  the pipeline language, the endpoints of the passkey ceremonies, the table of routes, storage, executors, forges, the rest of the server and the UI; building a policy
  input from a compiled pipeline; the PostgreSQL adapter, whose port is modelled through the in-process store. Of the store, the
  catalogue, schedule and log tables are left out: no modelled operation reads or writes them.
\<close>

end
